(* ===== verification/Prelude.thy ===== *)
theory Prelude
  imports Main
begin

text \<open>
  Prelude of the Mitup development: the types and list operations every component shares.

  Moments and durations are integers counting microseconds (the resolution of Python's
  \<open>datetime\<close> and of Postgres' \<open>timestamptz\<close>); an aware datetime is its UTC instant, so
  comparison and subtraction are those of the integers.

  A database table is the list of its rows. \<open>update_where\<close>, \<open>delete_where\<close>,
  \<open>count_where\<close> and \<open>first_where\<close> are the SQL statements the code sends:
  \<^item> UPDATE ... WHERE P SET f is \<open>update_where P f\<close>,
  \<^item> DELETE ... WHERE P is \<open>delete_where P\<close>,
  \<^item> SELECT count( ) ... WHERE P is \<open>count_where P\<close>,
  \<^item> \<open>session.exec(select ... where P).first()\<close> is \<open>first_where P\<close>.

  A computation that may raise has type \<open>'e + 'a\<close>, with \<open>Inl\<close> the exception.
\<close>

section \<open>Shared hint collections\<close>

named_theorems table_simps \<open>what the table operations do to rows, counts and keys\<close>
named_theorems policy_simps \<open>the durations and caps of the supporter policy, evaluated\<close>

section \<open>Time\<close>

type_synonym instant = int
type_synonym duration = int

definition seconds :: "int \<Rightarrow> duration" where
  "seconds n = n * 1000000"

definition minutes :: "int \<Rightarrow> duration" where
  "minutes n = n * 60000000"

definition days :: "int \<Rightarrow> duration" where
  "days n = n * 86400000000"

lemma days_mono [simp]: "days a \<le> days b \<longleftrightarrow> a \<le> b" and days_less [simp]: "days a < days b \<longleftrightarrow> a < b"
  by (simp_all add: days_def)

lemma days_inj [simp]: "days a = days b \<longleftrightarrow> a = b"
  by (simp add: days_def)

lemma days_mod [simp]: "days a mod days 1 = 0"
  by (simp add: days_def)

lemma days_div [simp]: "days a div days 1 = a"
  by (simp add: days_def)

lemma days_diff: "days a - days b = days (a - b)"
  by (simp add: days_def algebra_simps)

section \<open>Results\<close>

fun bind_result :: "'e + 'a \<Rightarrow> ('a \<Rightarrow> 'e + 'b) \<Rightarrow> 'e + 'b" where
  "bind_result (Inl e) f = Inl e"
| "bind_result (Inr a) f = f a"

lemma bind_result_Inr_iff: "bind_result r f = Inr y \<longleftrightarrow> (\<exists>x. r = Inr x \<and> f x = Inr y)"
  by (cases r) auto

section \<open>Tables\<close>

definition update_where :: "('a \<Rightarrow> bool) \<Rightarrow> ('a \<Rightarrow> 'a) \<Rightarrow> 'a list \<Rightarrow> 'a list" where
  "update_where P f rows = map (\<lambda>r. if P r then f r else r) rows"

definition delete_where :: "('a \<Rightarrow> bool) \<Rightarrow> 'a list \<Rightarrow> 'a list" where
  "delete_where P rows = filter (\<lambda>r. \<not> P r) rows"

definition count_where :: "('a \<Rightarrow> bool) \<Rightarrow> 'a list \<Rightarrow> nat" where
  "count_where P rows = length (filter P rows)"

definition first_where :: "('a \<Rightarrow> bool) \<Rightarrow> 'a list \<Rightarrow> 'a option" where
  "first_where P rows = List.find P rows"

lemma update_where_Nil [simp]: "update_where P f [] = []"
  by (simp add: update_where_def)

lemma update_where_Cons [simp]:
  "update_where P f (r # rows) = (if P r then f r else r) # update_where P f rows"
  by (simp add: update_where_def)

lemma length_update_where [simp]: "length (update_where P f rows) = length rows"
  by (simp add: update_where_def)

lemma update_where_never [table_simps]: "\<forall>r \<in> set rows. \<not> P r \<Longrightarrow> update_where P f rows = rows"
  by (induction rows) auto

lemma set_update_where [table_simps]:
  "set (update_where P f rows) = (\<lambda>r. if P r then f r else r) ` set rows"
  by (simp add: update_where_def)

lemma update_where_hit:
  "r \<in> set (update_where P f rows) \<Longrightarrow> (\<And>r. P (f r) \<longleftrightarrow> P r) \<Longrightarrow> P r \<Longrightarrow> \<exists>r0 \<in> set rows. P r0 \<and> r = f r0"
  by (induction rows) (auto split: if_splits)

lemma map_update_where [table_simps]:
  "(\<And>r. k (f r) = k r) \<Longrightarrow> map k (update_where P f rows) = map k rows"
  by (simp add: update_where_def)

lemma set_delete_where [simp]: "set (delete_where P rows) = {r \<in> set rows. \<not> P r}"
  by (simp add: delete_where_def)

lemma count_where_Nil [simp]: "count_where P [] = 0"
  by (simp add: count_where_def)

lemma count_where_Cons [simp]:
  "count_where P (r # rows) = (if P r then 1 else 0) + count_where P rows"
  by (simp add: count_where_def)

lemma count_where_0_iff [table_simps]: "count_where P rows = 0 \<longleftrightarrow> (\<forall>r \<in> set rows. \<not> P r)"
  by (induction rows) auto

lemma count_where_split:
  "count_where P rows = count_where (\<lambda>r. P r \<and> Q r) rows + count_where (\<lambda>r. P r \<and> \<not> Q r) rows"
  by (induction rows) auto

lemma count_where_True [simp]: "count_where (\<lambda>r. True) rows = length rows"
  by (simp add: count_where_def)

lemma count_where_cong: "(\<And>r. r \<in> set rows \<Longrightarrow> P r = Q r) \<Longrightarrow> count_where P rows = count_where Q rows"
  by (induction rows) auto

lemma count_where_mono: "(\<And>r. r \<in> set rows \<Longrightarrow> P r \<Longrightarrow> Q r) \<Longrightarrow> count_where P rows \<le> count_where Q rows"
  by (induction rows) auto

lemma length_delete_where: "length (delete_where P rows) + count_where P rows = length rows"
  by (induction rows) (auto simp: delete_where_def)

lemma first_where_Some: "first_where P rows = Some r \<Longrightarrow> r \<in> set rows \<and> P r"
  by (auto simp: first_where_def find_Some_iff)

lemma first_where_None: "first_where P rows = None \<longleftrightarrow> (\<forall>r \<in> set rows. \<not> P r)"
  by (auto simp: first_where_def find_None_iff)

lemma first_where_Cons [simp]:
  "first_where P (r # rows) = (if P r then Some r else first_where P rows)"
  "first_where P [] = None"
  by (simp_all add: first_where_def)

text \<open>A column with distinct values identifies a row.\<close>

lemma distinct_key_unique:
  "distinct (map k rows) \<Longrightarrow> r \<in> set rows \<Longrightarrow> s \<in> set rows \<Longrightarrow> k r = k s \<Longrightarrow> r = s"
  by (induction rows) (auto simp: rev_image_eqI)

lemma first_where_key:
  "distinct (map k rows) \<Longrightarrow> r \<in> set rows \<Longrightarrow> first_where (\<lambda>s. k s = k r) rows = Some r"
  by (induction rows) (auto simp: rev_image_eqI)

text \<open>Writing one row back: the rows with the key are replaced by a value with the same key.\<close>

lemma replaced_keys:
  "k v = key \<Longrightarrow> map k (update_where (\<lambda>s. k s = key) (\<lambda>_. v) rows) = map k rows"
  by (induction rows) auto

lemma replaced_mem:
  "r \<in> set (update_where (\<lambda>s. k s = key) (\<lambda>_. v) rows) \<longleftrightarrow>
     (r = v \<and> key \<in> k ` set rows) \<or> (r \<in> set rows \<and> k r \<noteq> key)"
  by (induction rows) auto

lemma replaced_same:
  "distinct (map k rows) \<Longrightarrow> v \<in> set rows \<Longrightarrow> update_where (\<lambda>s. k s = k v) (\<lambda>_. v) rows = rows"
  unfolding update_where_def using distinct_key_unique [of k rows _ v] by (intro map_idI) auto

lemma first_where_replaced:
  "k v = key \<Longrightarrow> first_where (\<lambda>s. k s = key) rows = Some r \<Longrightarrow>
     first_where (\<lambda>s. k s = key) (update_where (\<lambda>s. k s = key) (\<lambda>_. v) rows) = Some v"
  by (induction rows) (auto split: if_splits)

lemma first_where_by_key:
  "distinct (map k rows) \<Longrightarrow>
     first_where (\<lambda>r. k r = key \<and> Q r) rows =
     (case first_where (\<lambda>r. k r = key) rows of None \<Rightarrow> None | Some r \<Rightarrow> if Q r then Some r else None)"
proof (induction rows)
  case (Cons x xs)
  then have "k x = key \<Longrightarrow> first_where (\<lambda>r. k r = key) xs = None"
    by (auto simp: first_where_None rev_image_eqI)
  with Cons show ?case by (auto split: option.splits)
qed simp

lemma ex_key:
  "distinct (map k rows) \<Longrightarrow> r \<in> set rows \<Longrightarrow> (\<exists>r' \<in> set rows. k r' = k r \<and> Q r') \<longleftrightarrow> Q r"
  using distinct_key_unique [of k rows] by blast

text \<open>A sum over the rows drops when no row's share grows and some row's share drops.\<close>

lemma sum_list_rows_le:
  fixes c :: "'a \<Rightarrow> nat"
  shows "(\<And>r. r \<in> set rows \<Longrightarrow> c (f r) \<le> c r) \<Longrightarrow> sum_list (map c (map f rows)) \<le> sum_list (map c rows)"
  by (induction rows) (auto intro: add_mono)

lemma sum_list_rows_less:
  fixes c :: "'a \<Rightarrow> nat"
  assumes "\<And>r. r \<in> set rows \<Longrightarrow> c (f r) \<le> c r" and "r \<in> set rows" and "c (f r) < c r"
  shows "sum_list (map c (map f rows)) < sum_list (map c rows)"
  using assms
proof (induction rows)
  case Nil
  then show ?case by simp
next
  case (Cons x xs)
  have rest: "sum_list (map c (map f xs)) \<le> sum_list (map c xs)"
    using Cons.prems(1) by (intro sum_list_rows_le) simp
  have here: "c (f x) \<le> c x" using Cons.prems(1) by simp
  show ?case
  proof (cases "r = x")
    case True
    with Cons.prems(3) rest show ?thesis by simp
  next
    case False
    with Cons.prems(2) have "r \<in> set xs" by simp
    with Cons.IH Cons.prems(1,3) have "sum_list (map c (map f xs)) < sum_list (map c xs)" by simp
    with here show ?thesis by simp
  qed
qed

section \<open>Python sequences\<close>

text \<open>\<open>dict.fromkeys(xs)\<close> as a sequence: repeats dropped, first-seen order kept.\<close>

fun uniq :: "'a list \<Rightarrow> 'a list" where
  "uniq [] = []"
| "uniq (x # xs) = x # filter (\<lambda>y. y \<noteq> x) (uniq xs)"

lemma set_uniq [simp]: "set (uniq xs) = set xs"
  by (induction xs) auto

lemma distinct_uniq [simp]: "distinct (uniq xs)"
  by (induction xs) auto

lemma uniq_distinct: "distinct xs \<Longrightarrow> uniq xs = xs"
  by (induction xs) (auto simp: filter_id_conv)

text \<open>\<open>itertools.batched(xs, n)\<close>: consecutive slices of \<open>n\<close>, the last one possibly shorter.\<close>

function batched :: "nat \<Rightarrow> 'a list \<Rightarrow> 'a list list" where
  "batched n xs = (if xs = [] \<or> n = 0 then [] else take n xs # batched n (drop n xs))"
  by pat_completeness auto
termination
  by (relation "measure (\<lambda>(n, xs). length xs)") auto

declare batched.simps [simp del]

lemma concat_batched: "n \<noteq> 0 \<Longrightarrow> concat (batched n xs) = xs"
  by (induction n xs rule: batched.induct) (subst batched.simps, auto)

lemma batched_length: "c \<in> set (batched n xs) \<Longrightarrow> c \<noteq> [] \<and> length c \<le> n"
proof (induction n xs rule: batched.induct)
  case (1 n xs)
  show ?case
  proof (cases "xs = [] \<or> n = 0")
    case True
    with "1.prems" show ?thesis by (simp add: batched.simps [of n xs])
  next
    case False
    with "1.prems" consider "c = take n xs" | "c \<in> set (batched n (drop n xs))"
      by (auto simp: batched.simps [of n xs])
    then show ?thesis using False "1.IH" by cases auto
  qed
qed

text \<open>\<open>max(xs, key=k)\<close>: the first element no later one beats; on the empty sequence it raises.\<close>

fun max_by :: "('a \<Rightarrow> 'b::linorder) \<Rightarrow> 'a \<Rightarrow> 'a list \<Rightarrow> 'a" where
  "max_by k m [] = m"
| "max_by k m (x # xs) = max_by k (if k m < k x then x else m) xs"

lemma max_by_in: "max_by k m xs \<in> insert m (set xs)"
  by (induction xs arbitrary: m) auto

lemma max_by_ge: "x \<in> insert m (set xs) \<Longrightarrow> k x \<le> k (max_by k m xs)"
proof (induction xs arbitrary: m x)
  case Nil
  then show ?case by simp
next
  case (Cons y ys)
  let ?m = "if k m < k y then y else m"
  have "k ?m \<le> k (max_by k ?m ys)" by (rule Cons.IH) simp
  moreover have "k m \<le> k ?m" and "k y \<le> k ?m" by auto
  ultimately have "k m \<le> k (max_by k ?m ys)" and "k y \<le> k (max_by k ?m ys)"
    by (blast intro: order_trans)+
  with Cons show ?case by auto
qed

end
