(* ===== verification/Supporter.thy ===== *)
theory Supporter
  imports Prelude
begin

text \<open>
  The supporter policy: \<^verbatim>\<open>libs/core/mitup_bot/supporter.py\<close> (tiers, their order and the caps each
  tier lifts), \<^verbatim>\<open>lifecycle.py\<close> (the durations of a meeting's life per tier), the level-only part
  of \<^verbatim>\<open>limits.py\<close>, and \<^verbatim>\<open>apps/events/.../lifecycle_queries.py\<close>, which turns the durations into
  the per-owner SQL conditions of the sweeps. The process-wide \<open>PolicyState.config\<close> is an explicit
  argument \<open>cfg\<close>.
\<close>

section \<open>Tiers\<close>

datatype supporter_level = NONE | HOST_1 | HOST_2 | HOST_3

definition LEVEL_ORDER :: "supporter_level list" where
  "LEVEL_ORDER = [NONE, HOST_1, HOST_2, HOST_3]"

text \<open>\<open>LEVEL_ORDER.index(level)\<close>; every level is in the tuple, so it never raises
  (\<open>LEVEL_ORDER_complete\<close>).\<close>

definition rank :: "supporter_level \<Rightarrow> nat" where
  "rank level = length (takeWhile (\<lambda>l. l \<noteq> level) LEVEL_ORDER)"

definition meets :: "supporter_level \<Rightarrow> supporter_level \<Rightarrow> bool" where
  "meets level minimum \<longleftrightarrow> rank level \<ge> rank minimum"

definition is_supporter :: "supporter_level \<Rightarrow> bool" where
  "is_supporter level \<longleftrightarrow> meets level HOST_1"

text \<open>\<open>highest(*levels)\<close> with at least one argument, as every call site has; \<open>max\<close> of no argument
  would raise.\<close>

definition highest :: "supporter_level \<Rightarrow> supporter_level list \<Rightarrow> supporter_level" where
  "highest level levels = max_by rank level levels"

lemma LEVEL_ORDER_complete: "level \<in> set LEVEL_ORDER"
  by (cases level) (simp_all add: LEVEL_ORDER_def)

lemma rank_simps [simp]: "rank NONE = 0" "rank HOST_1 = 1" "rank HOST_2 = 2" "rank HOST_3 = 3"
  by (simp_all add: rank_def LEVEL_ORDER_def)

lemma rank_inj [simp]: "rank a = rank b \<longleftrightarrow> a = b"
  by (cases a; cases b) simp_all

text \<open>The tier order, as an order on the type: the library's order lemmas then apply to levels.\<close>

instantiation supporter_level :: linorder
begin

definition less_eq_supporter_level :: "supporter_level \<Rightarrow> supporter_level \<Rightarrow> bool" where
  "less_eq_supporter_level a b \<longleftrightarrow> rank a \<le> rank b"

definition less_supporter_level :: "supporter_level \<Rightarrow> supporter_level \<Rightarrow> bool" where
  "less_supporter_level a b \<longleftrightarrow> rank a < rank b"

instance
  by intro_classes (auto simp: less_eq_supporter_level_def less_supporter_level_def)

end

lemma meets_iff: "meets level minimum \<longleftrightarrow> minimum \<le> level"
  by (simp add: meets_def less_eq_supporter_level_def)

lemma level_le_simps [simp]: "NONE \<le> level" "level \<le> HOST_3"
  by (cases level; simp add: less_eq_supporter_level_def)+

lemma level_bottom [simp]: "level \<le> NONE \<longleftrightarrow> level = NONE" "max level NONE = level"
  by (cases level; simp add: less_eq_supporter_level_def max_def)+

lemma is_supporter_iff [simp]: "is_supporter level \<longleftrightarrow> level \<noteq> NONE"
  by (cases level) (simp_all add: is_supporter_def meets_def)

lemma highest_two: "highest a [b] = max a b"
  by (auto simp: highest_def max_def less_eq_supporter_level_def)

lemma highest_ge: "a \<le> highest a bs" "b \<in> set bs \<Longrightarrow> b \<le> highest a bs"
  by (simp_all add: highest_def less_eq_supporter_level_def max_by_ge)

lemma highest_in: "highest a bs \<in> insert a (set bs)"
  unfolding highest_def by (rule max_by_in)

section \<open>Caps and thresholds\<close>

record limits_config =
  free_active_meetings :: int
  patron_active_meetings :: int
  free_scheduling_horizon_days :: int
  patron_scheduling_horizon_days :: int
  free_participant_capacity :: int

definition default_limits :: limits_config where
  "default_limits = \<lparr>free_active_meetings = 5, patron_active_meetings = 50,
     free_scheduling_horizon_days = 90, patron_scheduling_horizon_days = 365,
     free_participant_capacity = 20\<rparr>"

text \<open>The part of \<open>PatreonConfig\<close> the policy reads: the amounts that buy each tier, in cents.\<close>

record patreon_config =
  supporter_min_cents :: int
  patron_min_cents :: int
  organizer_min_cents :: int

definition default_patreon :: patreon_config where
  "default_patreon = \<lparr>supporter_min_cents = 300, patron_min_cents = 500, organizer_min_cents = 1000\<rparr>"

definition level_for_amount :: "int \<Rightarrow> patreon_config \<Rightarrow> supporter_level" where
  "level_for_amount cents config =
     (if cents \<ge> organizer_min_cents config then HOST_3
      else if cents \<ge> patron_min_cents config then HOST_2
      else HOST_1)"

fun active_meetings_cap :: "limits_config \<Rightarrow> supporter_level \<Rightarrow> int option" where
  "active_meetings_cap cfg NONE = Some (free_active_meetings cfg)"
| "active_meetings_cap cfg HOST_1 = Some (free_active_meetings cfg)"
| "active_meetings_cap cfg HOST_2 = Some (patron_active_meetings cfg)"
| "active_meetings_cap cfg HOST_3 = None"

fun scheduling_horizon_days :: "limits_config \<Rightarrow> supporter_level \<Rightarrow> int option" where
  "scheduling_horizon_days cfg NONE = Some (free_scheduling_horizon_days cfg)"
| "scheduling_horizon_days cfg HOST_1 = Some (free_scheduling_horizon_days cfg)"
| "scheduling_horizon_days cfg HOST_2 = Some (patron_scheduling_horizon_days cfg)"
| "scheduling_horizon_days cfg HOST_3 = None"

fun participant_capacity :: "limits_config \<Rightarrow> supporter_level \<Rightarrow> int option" where
  "participant_capacity cfg NONE = Some (free_participant_capacity cfg)"
| "participant_capacity cfg HOST_1 = Some (free_participant_capacity cfg)"
| "participant_capacity cfg HOST_2 = None"
| "participant_capacity cfg HOST_3 = None"

text \<open>\<open>limits.effective_participant_capacity\<close>, over the owner's level.\<close>

definition effective_participant_capacity ::
    "limits_config \<Rightarrow> supporter_level \<Rightarrow> int option \<Rightarrow> int option" where
  "effective_participant_capacity cfg owner_level max_members =
     (case participant_capacity cfg owner_level of
        None \<Rightarrow> max_members
      | Some cap \<Rightarrow>
          (case max_members of None \<Rightarrow> Some cap | Some n \<Rightarrow> Some (min n cap)))"

text \<open>\<open>limits.at_active_meetings_cap\<close>: \<open>actives\<close> lists the \<open>active\<close> flag of each owned meeting.\<close>

definition at_active_meetings_cap :: "limits_config \<Rightarrow> supporter_level \<Rightarrow> bool list \<Rightarrow> bool" where
  "at_active_meetings_cap cfg level actives =
     (case active_meetings_cap cfg level of
        None \<Rightarrow> False
      | Some cap \<Rightarrow> int (length (filter (\<lambda>a. a) actives)) \<ge> cap)"

text \<open>An optional cap read as "how many at most": \<open>None\<close> is unlimited.\<close>

fun within_cap :: "int \<Rightarrow> int option \<Rightarrow> bool" where
  "within_cap n None = True"
| "within_cap n (Some cap) = (n \<le> cap)"

lemma effective_capacity_within:
  "within_cap n (effective_participant_capacity cfg level mx) \<longleftrightarrow>
   within_cap n mx \<and> within_cap n (participant_capacity cfg level)"
  by (cases mx) (auto simp: effective_participant_capacity_def split: option.splits)

lemma level_for_amount_mono: "a \<le> b \<Longrightarrow> level_for_amount a config \<le> level_for_amount b config"
  by (simp add: level_for_amount_def less_eq_supporter_level_def)

lemma level_for_amount_supporter: "is_supporter (level_for_amount cents config)"
  by (simp add: level_for_amount_def)

end
