(* ===== verification/Lifecycle.thy ===== *)
theory Lifecycle
  imports Supporter
begin

text \<open>
  The meeting lifecycle durations (\<^verbatim>\<open>libs/core/mitup_bot/lifecycle.py\<close>) and the SQL conditions the
  sweeps build from them (\<^verbatim>\<open>apps/events/mitup_bot/events/lifecycle_queries.py\<close>).

  A condition on a nullable column follows SQL: a comparison with NULL is not true, so a row whose
  column is NULL is never selected. The database session runs in UTC, so an interval of \<open>n days\<close>
  is \<open>n\<close> times 24 hours.
\<close>

section \<open>LifecyclePolicy\<close>

record lifecycle_policy =
  dateless_lifetime :: duration
  inactive_retention :: duration
  max_timeout_minutes :: int
  max_duration :: duration
  left_owner_dateless_lifetime :: duration
  deletion_warning_lead :: duration

text \<open>The dataclass constructor: the four fields with defaults are the ones no tier changes.\<close>

definition LifecyclePolicy :: "duration \<Rightarrow> duration \<Rightarrow> lifecycle_policy" where
  "LifecyclePolicy dateless retention =
     \<lparr>dateless_lifetime = dateless, inactive_retention = retention,
      max_timeout_minutes = 24 * 60, max_duration = days 7,
      left_owner_dateless_lifetime = days 30, deletion_warning_lead = days 7\<rparr>"

definition FREE_POLICY :: lifecycle_policy where
  "FREE_POLICY = LifecyclePolicy (days 90) (days 90)"

definition PATRON_POLICY :: lifecycle_policy where
  "PATRON_POLICY = LifecyclePolicy (days 365) (days 365)"

definition deletion_warning_delay :: "lifecycle_policy \<Rightarrow> duration" where
  "deletion_warning_delay p = inactive_retention p - deletion_warning_lead p"

fun policy_get :: "supporter_level option \<Rightarrow> lifecycle_policy" where
  "policy_get None = FREE_POLICY"
| "policy_get (Some NONE) = FREE_POLICY"
| "policy_get (Some HOST_1) = FREE_POLICY"
| "policy_get (Some HOST_2) = PATRON_POLICY"
| "policy_get (Some HOST_3) = PATRON_POLICY"

text \<open>\<open>grouped.setdefault(k, []).append(v)\<close> on a dict in insertion order.\<close>

fun setdefault_append :: "'k \<Rightarrow> 'v \<Rightarrow> ('k \<times> 'v list) list \<Rightarrow> ('k \<times> 'v list) list" where
  "setdefault_append k v [] = [(k, [v])]"
| "setdefault_append k v ((k', vs) # g) =
     (if k = k' then (k', vs @ [v]) # g else (k', vs) # setdefault_append k v g)"

definition levels_by_duration ::
    "(lifecycle_policy \<Rightarrow> duration) \<Rightarrow> (duration \<times> supporter_level list) list" where
  "levels_by_duration duration_of =
     fold (\<lambda>level g. setdefault_append (duration_of (policy_get (Some level))) level g) LEVEL_ORDER []"

datatype lifecycle_error = NotWholeDays duration

definition interval_days :: "duration \<Rightarrow> lifecycle_error + int" where
  "interval_days d = (if d mod days 1 \<noteq> 0 then Inl (NotWholeDays d) else Inr (d div days 1))"

lemma interval_days_days [simp]: "interval_days (days n) = Inr n"
  by (simp add: interval_days_def)

lemma interval_days_Inr: "interval_days d = Inr n \<Longrightarrow> d = days n"
  by (auto simp: interval_days_def days_def split: if_splits)

lemmas policy_defs = LifecyclePolicy_def FREE_POLICY_def PATRON_POLICY_def

lemma policy_get_shared [policy_simps]:
  "deletion_warning_lead (policy_get l) = days 7"
  "max_duration (policy_get l) = days 7"
  "max_timeout_minutes (policy_get l) = 1440"
  "left_owner_dateless_lifetime (policy_get l) = days 30"
  by (cases l rule: policy_get.cases; simp add: policy_defs)+

lemma policy_get_tiered [policy_simps]:
  "inactive_retention (policy_get (Some l)) = (if HOST_2 \<le> l then days 365 else days 90)"
  "dateless_lifetime (policy_get (Some l)) = (if HOST_2 \<le> l then days 365 else days 90)"
  by (cases l; simp add: policy_defs less_eq_supporter_level_def)+

lemma deletion_warning_delay_days [policy_simps]:
  "deletion_warning_delay (policy_get (Some l)) = (if HOST_2 \<le> l then days 358 else days 83)"
  by (simp add: deletion_warning_delay_def policy_simps days_diff)

section \<open>SQL conditions\<close>

definition sql_interval :: "duration \<Rightarrow> lifecycle_error + duration" where
  "sql_interval d = bind_result (interval_days d) (\<lambda>n. Inr (days n))"

text \<open>One branch of the disjunction: the owner's level is in the group and the stamp plus the
  group's duration is already past. A NULL stamp makes the comparison not true.\<close>

definition window_branch ::
    "supporter_level list \<Rightarrow> duration \<Rightarrow> instant option \<Rightarrow> supporter_level \<Rightarrow> instant \<Rightarrow> bool" where
  "window_branch levels interval stamp level now \<longleftrightarrow>
     level \<in> set levels \<and> (case stamp of None \<Rightarrow> False | Some t \<Rightarrow> t + interval < now)"

text \<open>The list of conditions is built first (each interval may refuse a duration that is not a whole
  number of days), then joined with OR.\<close>

fun window_conditions ::
    "(duration \<times> supporter_level list) list \<Rightarrow>
     lifecycle_error + (instant option \<Rightarrow> supporter_level \<Rightarrow> instant \<Rightarrow> bool) list" where
  "window_conditions [] = Inr []"
| "window_conditions ((d, levels) # groups) =
     bind_result (sql_interval d) (\<lambda>interval.
     bind_result (window_conditions groups) (\<lambda>conditions.
       Inr (window_branch levels interval # conditions)))"

definition owner_tier_window_elapsed ::
    "(lifecycle_policy \<Rightarrow> duration) \<Rightarrow>
     lifecycle_error + (instant option \<Rightarrow> supporter_level \<Rightarrow> instant \<Rightarrow> bool)" where
  "owner_tier_window_elapsed duration_of =
     bind_result (window_conditions (levels_by_duration duration_of)) (\<lambda>conditions.
       Inr (\<lambda>stamp level now. \<exists>c \<in> set conditions. c stamp level now))"

fun windows_of_groups ::
    "(duration \<times> supporter_level list) list \<Rightarrow> lifecycle_error + (supporter_level \<times> int) list" where
  "windows_of_groups [] = Inr []"
| "windows_of_groups ((d, levels) # groups) =
     bind_result (interval_days d) (\<lambda>n.
     bind_result (windows_of_groups groups) (\<lambda>rest.
       Inr (map (\<lambda>level. (level, n)) levels @ rest)))"

definition resolved_windows ::
    "(lifecycle_policy \<Rightarrow> duration) \<Rightarrow> lifecycle_error + (supporter_level \<times> int) list" where
  "resolved_windows duration_of = windows_of_groups (levels_by_duration duration_of)"

subsection \<open>The grouping\<close>

lemma setdefault_append_mem:
  "(\<exists>vs. (k, vs) \<in> set (setdefault_append a v g) \<and> x \<in> set vs) \<longleftrightarrow>
   (k = a \<and> x = v) \<or> (\<exists>vs. (k, vs) \<in> set g \<and> x \<in> set vs)"
proof (induction g)
  case Nil
  then show ?case by auto
next
  case (Cons p g)
  obtain b ws where p: "p = (b, ws)" by force
  show ?case
  proof (cases "a = b")
    case True
    then show ?thesis by (auto simp: p)
  next
    case False
    with Cons.IH show ?thesis by (simp add: p) blast
  qed
qed

lemma fold_setdefault_append_mem:
  "(\<exists>vs. (k, vs) \<in> set (fold (\<lambda>v g. setdefault_append (f v) v g) vals g) \<and> x \<in> set vs) \<longleftrightarrow>
   (x \<in> set vals \<and> k = f x) \<or> (\<exists>vs. (k, vs) \<in> set g \<and> x \<in> set vs)"
proof (induction vals arbitrary: g)
  case Nil
  then show ?case by simp
next
  case (Cons v vals)
  show ?case by (simp only: fold_simps Cons.IH setdefault_append_mem) auto
qed

lemma levels_by_duration_mem:
  "(\<exists>levels. (d, levels) \<in> set (levels_by_duration f) \<and> level \<in> set levels) \<longleftrightarrow>
   d = f (policy_get (Some level))"
  unfolding levels_by_duration_def
  using fold_setdefault_append_mem [where f = "\<lambda>l. f (policy_get (Some l))" and g = "[]"]
  by (simp add: LEVEL_ORDER_complete)

lemma levels_by_duration_keys:
  "(d, levels) \<in> set (levels_by_duration f) \<Longrightarrow> \<exists>level. d = f (policy_get (Some level))"
proof -
  assume "(d, levels) \<in> set (levels_by_duration f)"
  then have "d = f (policy_get (Some NONE)) \<or> d = f (policy_get (Some HOST_2))"
    by (auto simp: levels_by_duration_def LEVEL_ORDER_def split: if_splits)
  then show ?thesis by blast
qed

lemma window_conditions_whole:
  assumes "\<forall>(d, levels) \<in> set groups. \<exists>n. d = days n"
  shows "\<exists>cs. window_conditions groups = Inr cs \<and>
    (\<forall>stamp level now. (\<exists>c \<in> set cs. c stamp level now) \<longleftrightarrow>
       (\<exists>(d, levels) \<in> set groups. window_branch levels d stamp level now))"
  using assms
proof (induction groups rule: window_conditions.induct)
  case 1
  then show ?case by simp
next
  case (2 d levels groups)
  from "2.prems" obtain n where d: "d = days n" by auto
  from "2.prems" have rest: "\<forall>(d, levels) \<in> set groups. \<exists>n. d = days n" by auto
  have "sql_interval d = Inr d" by (simp add: d sql_interval_def)
  with "2.IH" [OF rest] show ?case by fastforce
qed

text \<open>Every duration of the policy is a whole number of days on every tier.\<close>

definition whole_days :: "(lifecycle_policy \<Rightarrow> duration) \<Rightarrow> bool" where
  "whole_days f \<longleftrightarrow> (\<forall>level \<in> set LEVEL_ORDER. f (policy_get (Some level)) mod days 1 = 0)"

lemma whole_daysD: "whole_days f \<Longrightarrow> \<exists>n. f (policy_get (Some level)) = days n"
  using LEVEL_ORDER_complete [of level]
  by (auto simp: whole_days_def days_def mod_eq_0_iff_dvd dvd_def mult.commute)

lemma policy_whole_days [simp]:
  "whole_days dateless_lifetime" "whole_days inactive_retention"
  "whole_days deletion_warning_delay" "whole_days deletion_warning_lead"
  by (simp_all add: whole_days_def policy_simps)

lemma owner_tier_window_elapsed_eq:
  assumes "whole_days f"
  shows "owner_tier_window_elapsed f =
    Inr (\<lambda>stamp level now. \<exists>t. stamp = Some t \<and> t + f (policy_get (Some level)) < now)"
proof -
  have "\<forall>(d, levels) \<in> set (levels_by_duration f). \<exists>n. d = days n"
    using levels_by_duration_keys whole_daysD [OF assms] by fastforce
  from window_conditions_whole [OF this] obtain cs
    where cs: "window_conditions (levels_by_duration f) = Inr cs"
      and iff: "\<And>stamp level now. (\<exists>c \<in> set cs. c stamp level now) \<longleftrightarrow>
        (\<exists>(d, levels) \<in> set (levels_by_duration f). window_branch levels d stamp level now)"
    by blast
  have "(\<exists>(d, levels) \<in> set (levels_by_duration f). window_branch levels d stamp level now) \<longleftrightarrow>
     (\<exists>t. stamp = Some t \<and> t + f (policy_get (Some level)) < now)" for stamp level now
  proof -
    have "(\<exists>(d, levels) \<in> set (levels_by_duration f). window_branch levels d stamp level now) \<longleftrightarrow>
       (\<exists>d. (\<exists>levels. (d, levels) \<in> set (levels_by_duration f) \<and> level \<in> set levels) \<and>
         (\<exists>t. stamp = Some t \<and> t + d < now))"
      by (cases stamp) (auto simp: window_branch_def)
    then show ?thesis by (simp add: levels_by_duration_mem)
  qed
  with cs iff show ?thesis by (simp add: owner_tier_window_elapsed_def)
qed

lemma windows_of_groups_map:
  assumes "\<forall>(d, levels) \<in> set groups. \<exists>n. d = days n"
  shows "\<exists>ws. windows_of_groups groups = Inr ws \<and>
    (\<forall>level n. (level, n) \<in> set ws \<longleftrightarrow> (\<exists>levels. (days n, levels) \<in> set groups \<and> level \<in> set levels))"
  using assms
proof (induction groups rule: windows_of_groups.induct)
  case 1
  then show ?case by simp
next
  case (2 d levels groups)
  from "2.prems" obtain n where d: "d = days n" by auto
  from "2.prems" have "\<forall>(d, levels) \<in> set groups. \<exists>n. d = days n" by auto
  from "2.IH" [OF this] d show ?case by fastforce
qed

lemma resolved_windows_lookup:
  assumes "whole_days f"
  obtains ws where "resolved_windows f = Inr ws"
    and "\<And>level. map_of ws level = Some (f (policy_get (Some level)) div days 1)"
proof -
  have "\<forall>(d, levels) \<in> set (levels_by_duration f). \<exists>n. d = days n"
    using levels_by_duration_keys whole_daysD [OF assms] by fastforce
  from windows_of_groups_map [OF this] obtain ws
    where ws: "resolved_windows f = Inr ws"
      and mem: "\<And>level n. (level, n) \<in> set ws \<longleftrightarrow> days n = f (policy_get (Some level))"
    unfolding resolved_windows_def levels_by_duration_mem by blast
  have "map_of ws level = Some (f (policy_get (Some level)) div days 1)" for level
  proof -
    obtain n where n: "f (policy_get (Some level)) = days n" using whole_daysD [OF assms] by blast
    with mem have "(level, n) \<in> set ws" by simp
    then obtain m where m: "map_of ws level = Some m"
      by (metis weak_map_of_SomeI)
    then have "(level, m) \<in> set ws" by (rule map_of_SomeD)
    with mem n have "m = n" by simp
    with m n show ?thesis by simp
  qed
  with ws show thesis by (rule that)
qed

end
