(* ===== verification/Transition.thy ===== *)
theory Transition
  imports Prelude
begin

text \<open>
  Interfaces shared by the stateful components. A component's steps are a relation
  \<open>step s e t\<close> ("event \<open>e\<close> takes \<open>s\<close> to \<open>t\<close>"); \<open>steps\<close> is a run over a list of events. The locale
  \<open>invariant_system\<close> lifts an invariant of single steps to runs, \<open>progress_system\<close> lifts a preorder
  every step respects (nothing terminal is ever undone, counters only grow), and
  \<open>measured_system\<close> bounds the length of the runs of a system whose steps use up a measure;
  \<open>single_winner\<close> is the contract of a compare-and-swap: whatever is tried in whatever order, at most
  one attempt succeeds.
\<close>

inductive steps :: "('s \<Rightarrow> 'e \<Rightarrow> 's \<Rightarrow> bool) \<Rightarrow> 's \<Rightarrow> 'e list \<Rightarrow> 's \<Rightarrow> bool" for step where
  steps_Nil: "steps step s [] s"
| steps_Cons: "step s e t \<Longrightarrow> steps step t es u \<Longrightarrow> steps step s (e # es) u"

inductive_simps steps_Nil_iff [simp]: "steps step s [] t"
inductive_simps steps_Cons_iff [simp]: "steps step s (e # es) t"

lemma steps_append: "steps step s (es @ fs) u \<longleftrightarrow> (\<exists>t. steps step s es t \<and> steps step t fs u)"
  by (induction es arbitrary: s) auto

locale invariant_system =
  fixes step :: "'s \<Rightarrow> 'e \<Rightarrow> 's \<Rightarrow> bool"
    and inv :: "'s \<Rightarrow> bool"
  assumes step_inv: "step s e t \<Longrightarrow> inv s \<Longrightarrow> inv t"
begin

lemma steps_inv: "steps step s es t \<Longrightarrow> inv s \<Longrightarrow> inv t"
  by (induction rule: steps.induct) (auto intro: step_inv)

end

locale progress_system = invariant_system step inv
  for step :: "'s \<Rightarrow> 'e \<Rightarrow> 's \<Rightarrow> bool" and inv :: "'s \<Rightarrow> bool" +
  fixes grows :: "'s \<Rightarrow> 's \<Rightarrow> bool"
  assumes grows_refl: "grows s s"
    and grows_trans: "grows s t \<Longrightarrow> grows t u \<Longrightarrow> grows s u"
    and step_grows: "step s e t \<Longrightarrow> inv s \<Longrightarrow> grows s t"
begin

lemma steps_grows: "steps step s es t \<Longrightarrow> inv s \<Longrightarrow> grows s t"
proof (induction rule: steps.induct)
  case (steps_Nil s)
  show ?case by (rule grows_refl)
next
  case (steps_Cons s e t es u)
  then show ?case by (blast intro: grows_trans step_grows step_inv)
qed

end

locale measured_system = invariant_system step inv
  for step :: "'s \<Rightarrow> 'e \<Rightarrow> 's \<Rightarrow> bool" and inv :: "'s \<Rightarrow> bool" +
  fixes cost :: "'s \<Rightarrow> nat"
  assumes step_cost: "step s e t \<Longrightarrow> inv s \<Longrightarrow> cost t < cost s"
begin

lemma steps_bounded: "steps step s es t \<Longrightarrow> inv s \<Longrightarrow> length es + cost t \<le> cost s"
proof (induction rule: steps.induct)
  case (steps_Nil s)
  show ?case by simp
next
  case (steps_Cons s e t es u)
  then have "length es + cost u \<le> cost t" and "cost t < cost s"
    by (blast intro: step_inv step_cost)+
  then show ?case by simp
qed

end

text \<open>A deterministic component: its step function as a relation, its run as a fold.\<close>

definition det :: "('e \<Rightarrow> 's \<Rightarrow> 's) \<Rightarrow> 's \<Rightarrow> 'e \<Rightarrow> 's \<Rightarrow> bool" where
  "det f s e t \<longleftrightarrow> t = f e s"

lemma det_iff [simp]: "det f s e t \<longleftrightarrow> t = f e s"
  by (simp add: det_def)

lemma steps_det: "steps (det f) s es t \<longleftrightarrow> t = fold f es s"
  by (induction es arbitrary: s) auto

section \<open>Compare-and-swap\<close>

text \<open>The attempts that succeed in a run, in order.\<close>

fun wins :: "('e \<Rightarrow> 's \<Rightarrow> 's \<times> 'r option) \<Rightarrow> 'e list \<Rightarrow> 's \<Rightarrow> 'r list" where
  "wins attempt [] s = []"
| "wins attempt (e # es) s =
     (case attempt e s of (t, None) \<Rightarrow> wins attempt es t | (t, Some r) \<Rightarrow> r # wins attempt es t)"

locale single_winner =
  fixes attempt :: "'e \<Rightarrow> 's \<Rightarrow> 's \<times> 'r option"
    and inv :: "'s \<Rightarrow> bool"
    and open_to :: "'s \<Rightarrow> bool"
  assumes attempt_inv: "attempt e s = (t, r) \<Longrightarrow> inv s \<Longrightarrow> inv t"
    and success_closes: "attempt e s = (t, Some x) \<Longrightarrow> inv s \<Longrightarrow> open_to s \<and> \<not> open_to t"
    and stays_closed: "attempt e s = (t, r) \<Longrightarrow> inv s \<Longrightarrow> \<not> open_to s \<Longrightarrow> \<not> open_to t"
begin

lemma closed_never_wins: "inv s \<Longrightarrow> \<not> open_to s \<Longrightarrow> wins attempt es s = []"
proof (induction es arbitrary: s)
  case (Cons e es)
  obtain t r where step: "attempt e s = (t, r)" by force
  with Cons.prems have "r = None" using success_closes by (cases r) auto
  with step Cons attempt_inv stays_closed show ?case by auto
qed simp

lemma at_most_one_wins: "inv s \<Longrightarrow> length (wins attempt es s) \<le> 1"
proof (induction es arbitrary: s)
  case (Cons e es)
  obtain t r where step: "attempt e s = (t, r)" by force
  then have inv: "inv t" using Cons.prems by (rule attempt_inv)
  show ?case
  proof (cases r)
    case None
    with step Cons inv show ?thesis by simp
  next
    case (Some x)
    with step Cons.prems have "\<not> open_to t" using success_closes by blast
    with inv closed_never_wins step Some show ?thesis by simp
  qed
qed simp

end

end
