(* ===== verification/Users.thy ===== *)
theory Users
  imports Lifecycle Transition
begin

text \<open>
  User rows and their status (\<^verbatim>\<open>libs/data/mitup_bot/models/users.py\<close>, \<^verbatim>\<open>models/settings.py\<close>).
  A row read from the database has its primary key; \<open>db_id\<close> is \<open>u_id\<close>. Only the columns a modelled
  operation reads or writes are fields. The log line of \<open>set_status\<close> is not part of the state;
  \<open>reason\<close> is only logged and so has no counterpart.
\<close>

section \<open>Settings\<close>

datatype date_format = DEFAULT | LONG | FULL

record settings =
  language :: string
  timezone :: string
  notification :: bool
  notification_time :: int
  deletion_warning :: bool
  deletion_notice :: bool
  timeout :: int
  default_waiting_list :: bool
  default_public :: bool
  default_allow_invitation :: bool
  default_incognito :: bool
  default_lock_on_start :: bool
  default_show_timezone :: bool
  default_clock_24h :: bool
  default_date_format :: date_format

text \<open>\<open>Settings()\<close>: the declared defaults. \<open>FALLBACK_LANG\<close> is English.\<close>

definition FALLBACK_LANG :: string where
  "FALLBACK_LANG = ''en''"

definition default_settings :: settings where
  "default_settings = \<lparr>language = FALLBACK_LANG, timezone = ''UTC'', notification = True,
     notification_time = 5, deletion_warning = True, deletion_notice = True, timeout = 5,
     default_waiting_list = False, default_public = False, default_allow_invitation = False, default_incognito = False,
     default_lock_on_start = False, default_show_timezone = False, default_clock_24h = True, default_date_format = DEFAULT\<rparr>"

definition any_notification_enabled :: "settings \<Rightarrow> bool" where
  "any_notification_enabled s \<longleftrightarrow> notification s \<or> deletion_warning s \<or> deletion_notice s"

section \<open>Users\<close>

datatype user_status = MEMBER | ONBOARDING | JOINED_ONLY | LEFT | DELETION_REQUESTED

record user =
  u_id :: int
  tg_user_id :: int
  first_name :: string
  username :: "string option"
  status :: user_status
  u_created_time :: "instant option"
  left_time :: "instant option"
  member_time :: "instant option"
  u_supporter_level :: supporter_level
  granted_supporter_level :: supporter_level
  u_settings :: settings

definition ANONYMOUS_INVITEE_TG_ID :: int where
  "ANONYMOUS_INVITEE_TG_ID = -1"

text \<open>\<open>self.username or self.first_name\<close>: an empty username counts as none.\<close>

definition inline_name :: "user \<Rightarrow> string" where
  "inline_name u = (case username u of None \<Rightarrow> first_name u
     | Some n \<Rightarrow> if n = [] then first_name u else n)"

text \<open>\<open>set_status\<close>; the clock is read in at most one of its two stamps, so one \<open>now\<close> is enough.\<close>

definition set_status :: "instant \<Rightarrow> user_status \<Rightarrow> user \<Rightarrow> user" where
  "set_status now st u =
     (if st = status u then u
      else u\<lparr>status := st,
             left_time := (if st = LEFT then Some now else None),
             member_time := (if st = MEMBER then Some now else member_time u)\<rparr>)"

definition mark_inactive :: "instant \<Rightarrow> user \<Rightarrow> user \<times> bool" where
  "mark_inactive now u =
     (if status u = MEMBER then (set_status now LEFT u, True) else (u, False))"

text \<open>The invariant \<open>set_status\<close> owns: the departure stamp is present exactly in status LEFT.\<close>

definition left_time_ok :: "user \<Rightarrow> bool" where
  "left_time_ok u \<longleftrightarrow> (left_time u \<noteq> None \<longleftrightarrow> status u = LEFT)"

lemma set_status_same [simp]: "set_status now (status u) u = u"
  by (simp add: set_status_def)

lemma set_status_fields [simp]:
  "status (set_status now st u) = st"
  "u_id (set_status now st u) = u_id u"
  "tg_user_id (set_status now st u) = tg_user_id u"
  "u_supporter_level (set_status now st u) = u_supporter_level u"
  "granted_supporter_level (set_status now st u) = granted_supporter_level u"
  "u_settings (set_status now st u) = u_settings u"
  by (simp_all add: set_status_def)

lemma set_status_left_time_ok: "left_time_ok u \<Longrightarrow> left_time_ok (set_status now st u)"
  by (auto simp: left_time_ok_def set_status_def)

lemma mark_inactive_left_time_ok: "left_time_ok u \<Longrightarrow> left_time_ok (fst (mark_inactive now u))"
  by (simp add: mark_inactive_def set_status_left_time_ok)

lemma mark_inactive_fields [simp]:
  "u_id (fst (mark_inactive now u)) = u_id u"
  "tg_user_id (fst (mark_inactive now u)) = tg_user_id u"
  "u_supporter_level (fst (mark_inactive now u)) = u_supporter_level u"
  by (simp_all add: mark_inactive_def)

lemma mark_inactive_twice: "mark_inactive later (fst (mark_inactive now u)) = (fst (mark_inactive now u), False)"
  by (simp add: mark_inactive_def)

text \<open>A run of status writes: each with the instant it is made at.\<close>

fun status_run :: "(instant \<times> user_status) list \<Rightarrow> user \<Rightarrow> user" where
  "status_run [] u = u"
| "status_run ((now, st) # ws) u = status_run ws (set_status now st u)"

lemma status_run_left_time_ok: "left_time_ok u \<Longrightarrow> left_time_ok (status_run ws u)"
  by (induction ws u rule: status_run.induct) (auto intro: set_status_left_time_ok)

text \<open>Once LEFT, writing LEFT again (a departure detected again) keeps the first stamp.\<close>

lemma status_run_left_keeps_stamp:
  "status u = LEFT \<Longrightarrow> \<forall>(now, st) \<in> set ws. st = LEFT \<Longrightarrow> status_run ws u = u"
  by (induction ws u rule: status_run.induct) (auto simp: set_status_def)

lemma status_run_append: "status_run (ws @ vs) u = status_run vs (status_run ws u)"
  by (induction ws u rule: status_run.induct) auto

end
