(* ===== verification/Broadcast_Claim.thy ===== *)
theory Broadcast_Claim
  imports Users "HOL-Library.AList"
begin

text \<open>
  The mass-broadcast sender, rows and claim phase: \<^verbatim>\<open>libs/data/mitup_bot/models/broadcasts.py\<close>,
  \<^verbatim>\<open>apps/events/mitup_bot/events/broadcast/types.py\<close> and \<^verbatim>\<open>claiming.py\<close>.

  Every function decorated \<open>@db.with_session\<close> is one transaction, so one step \<open>db \<Rightarrow> db\<close>. The set
  \<open>locked\<close> holds the row ids other transactions hold locks on while the statement runs: FOR UPDATE
  SKIP LOCKED passes over them. Log lines are not modelled; clock reads are arguments \<open>now\<close>.
\<close>

section \<open>Rows\<close>

datatype broadcast_status = DRAFT | QUEUED | SENDING | DONE | FAILED | CANCELLED

datatype delivery_status = PENDING | IN_PROGRESS | RETRY_PENDING | SENT | SKIPPED_INACTIVE | FAILED

record broadcast_message =
  bm_language :: string
  body_html :: string
  bm_sent_count :: int
  bm_failed_count :: int
  bm_skipped_count :: int
  bm_orphan_count :: int

record broadcast =
  b_id :: int
  b_name :: string
  b_status :: broadcast_status
  author_tg_id :: int
  attempts :: int
  total_recipients :: "int option"
  sent_count :: int
  failed_count :: int
  skipped_count :: int
  orphan_count :: int
  sending_started_time :: "instant option"
  completed_time :: "instant option"
  messages :: "broadcast_message list"

record delivery =
  d_id :: int
  d_broadcast_id :: int
  d_user_id :: int
  language_sent :: string
  d_status :: delivery_status
  attempt_count :: int
  next_attempt_time :: "instant option"
  sent_time :: "instant option"

text \<open>The tables the sender touches, and the sequence that numbers new deliveries.\<close>

record bdb =
  broadcasts :: "broadcast list"
  deliveries :: "delivery list"
  users :: "user list"
  next_delivery_id :: int

section \<open>Constants and value objects of types.py\<close>

definition MAX_BROADCAST_ATTEMPTS :: int where "MAX_BROADCAST_ATTEMPTS = 5"
definition BROADCAST_BATCH_SIZE :: nat where "BROADCAST_BATCH_SIZE = 50"
definition MAX_DELIVERY_ATTEMPTS :: int where "MAX_DELIVERY_ATTEMPTS = 3"
definition RETRY_BACKOFF_BASE_SECONDS :: int where "RETRY_BACKOFF_BASE_SECONDS = 60"
definition RETRY_AFTER_MARGIN_SECONDS :: int where "RETRY_AFTER_MARGIN_SECONDS = 5"

record claimed_broadcast =
  c_broadcast_id :: int
  c_author_tg_id :: int
  c_attempts :: int
  terminal_failure :: bool

record pending_delivery =
  pd_delivery_id :: int
  pd_user :: user
  pd_language_sent :: string
  pd_attempt_count :: int

datatype broadcast_error = NetworkError | KeyError | AssertionError

section \<open>Claiming a broadcast\<close>

definition claimable_broadcast :: "broadcast \<Rightarrow> bool" where
  "claimable_broadcast b \<longleftrightarrow> b_status b \<in> {QUEUED, SENDING}"

definition start_broadcast :: "instant \<Rightarrow> broadcast \<Rightarrow> broadcast" where
  "start_broadcast now b =
     (let b1 = b\<lparr>attempts := attempts b + 1\<rparr>
      in if b_status b1 = QUEUED
         then b1\<lparr>b_status := SENDING, sending_started_time := Some now\<rparr> else b1)"

definition claim_next_broadcast ::
    "int set \<Rightarrow> instant \<Rightarrow> bdb \<Rightarrow> bdb \<times> claimed_broadcast option" where
  "claim_next_broadcast locked now db =
     (case sort_key b_id (filter (\<lambda>b. claimable_broadcast b \<and> b_id b \<notin> locked) (broadcasts db)) of
        [] \<Rightarrow> (db, None)
      | b # _ \<Rightarrow>
          let b' = start_broadcast now b
          in (db\<lparr>broadcasts := update_where (\<lambda>r. b_id r = b_id b) (\<lambda>_. b') (broadcasts db)\<rparr>,
              Some \<lparr>c_broadcast_id = b_id b', c_author_tg_id = author_tg_id b', c_attempts = attempts b',
                    terminal_failure = (attempts b' > MAX_BROADCAST_ATTEMPTS)\<rparr>))"

definition count_broadcast_backlog :: "bdb \<Rightarrow> nat \<times> nat \<times> nat" where
  "count_broadcast_backlog db =
     (count_where (\<lambda>b. b_status b = QUEUED) (broadcasts db),
      count_where (\<lambda>b. b_status b = SENDING) (broadcasts db),
      count_where (\<lambda>d. d_status d = RETRY_PENDING) (deliveries db))"

definition unfinished :: "delivery \<Rightarrow> bool" where
  "unfinished d \<longleftrightarrow> d_status d \<in> {PENDING, RETRY_PENDING}"

definition count_unfinished_deliveries :: "int \<Rightarrow> bdb \<Rightarrow> nat" where
  "count_unfinished_deliveries bid db =
     count_where (\<lambda>d. d_broadcast_id d = bid \<and> unfinished d) (deliveries db)"

definition reset_broadcast_attempts :: "int \<Rightarrow> bdb \<Rightarrow> bdb" where
  "reset_broadcast_attempts bid db =
     db\<lparr>broadcasts := update_where (\<lambda>b. b_id b = bid) (\<lambda>b. b\<lparr>attempts := 0\<rparr>) (broadcasts db)\<rparr>"

text \<open>The dict built from the broadcast's messages, as an association list in insertion order: a
  repeated key keeps its first position and its last value.\<close>

definition load_broadcast_bodies :: "int \<Rightarrow> bdb \<Rightarrow> (string \<times> string) list" where
  "load_broadcast_bodies bid db =
     fold (\<lambda>m bodies. AList.update (bm_language m) (body_html m) bodies)
       (concat (map messages (filter (\<lambda>b. b_id b = bid) (broadcasts db)))) []"

section \<open>Materializing the audience\<close>

definition count_deliveries :: "int \<Rightarrow> bdb \<Rightarrow> nat" where
  "count_deliveries bid db = count_where (\<lambda>d. d_broadcast_id d = bid) (deliveries db)"

definition in_audience :: "user \<Rightarrow> bool" where
  "in_audience u \<longleftrightarrow> status u = MEMBER \<and> tg_user_id u \<noteq> ANONYMOUS_INVITEE_TG_ID"

definition language_for :: "string list \<Rightarrow> user \<Rightarrow> string" where
  "language_for message_languages u =
     (if language (u_settings u) \<in> set message_languages then language (u_settings u) else FALLBACK_LANG)"

text \<open>One row of the INSERT ... SELECT; ON CONFLICT (broadcast, user) DO NOTHING. The sequence
  advances whether or not the row goes in.\<close>

definition insert_delivery :: "int \<Rightarrow> string list \<Rightarrow> user \<Rightarrow> bdb \<Rightarrow> bdb" where
  "insert_delivery bid message_languages u db =
     (let row = \<lparr>d_id = next_delivery_id db, d_broadcast_id = bid, d_user_id = u_id u,
                 language_sent = language_for message_languages u, d_status = PENDING,
                 attempt_count = 0, next_attempt_time = None, sent_time = None\<rparr>;
          db1 = db\<lparr>next_delivery_id := next_delivery_id db + 1\<rparr>
      in if \<exists>d \<in> set (deliveries db). d_broadcast_id d = bid \<and> d_user_id d = u_id u
         then db1 else db1\<lparr>deliveries := deliveries db @ [row]\<rparr>)"

definition materialize_audience ::
    "int \<Rightarrow> string list \<Rightarrow> bdb \<Rightarrow> broadcast_error + (bdb \<times> nat)" where
  "materialize_audience bid message_languages db =
     (let existing = count_deliveries bid db in
      if existing \<noteq> 0 then Inr (db, existing)
      else
        let db1 = fold (insert_delivery bid message_languages) (filter in_audience (users db)) db;
            total = count_deliveries bid db1
        in case first_where (\<lambda>b. b_id b = bid) (broadcasts db1) of
             None \<Rightarrow> Inl AssertionError
           | Some _ \<Rightarrow>
               Inr (db1\<lparr>broadcasts := update_where (\<lambda>b. b_id b = bid)
                      (\<lambda>b. b\<lparr>total_recipients := Some (int total)\<rparr>) (broadcasts db1)\<rparr>, total))"

section \<open>Claiming a batch of deliveries\<close>

definition due :: "instant \<Rightarrow> int \<Rightarrow> delivery \<Rightarrow> bool" where
  "due now bid d \<longleftrightarrow>
     d_broadcast_id d = bid \<and>
     (d_status d = PENDING \<or>
      d_status d = RETRY_PENDING \<and> (case next_attempt_time d of None \<Rightarrow> False | Some t \<Rightarrow> t \<le> now))"

definition claim_ids :: "int set \<Rightarrow> instant \<Rightarrow> int \<Rightarrow> delivery list \<Rightarrow> int list" where
  "claim_ids locked now bid ds =
     take BROADCAST_BATCH_SIZE
       (map d_id (sort_key d_id (filter (\<lambda>d. due now bid d \<and> d_id d \<notin> locked) ds)))"

definition claim_row :: "delivery \<Rightarrow> delivery" where
  "claim_row d = d\<lparr>d_status := IN_PROGRESS, attempt_count := attempt_count d + 1, next_attempt_time := None\<rparr>"

text \<open>\<open>users_by_id[user_id]\<close> raises KeyError for a user row that is gone.\<close>

fun resolve_rows :: "user list \<Rightarrow> delivery list \<Rightarrow> broadcast_error + pending_delivery list" where
  "resolve_rows us [] = Inr []"
| "resolve_rows us (d # ds) =
     (case first_where (\<lambda>u. u_id u = d_user_id d) us of
        None \<Rightarrow> Inl KeyError
      | Some u \<Rightarrow> bind_result (resolve_rows us ds) (\<lambda>rest.
          Inr (\<lparr>pd_delivery_id = d_id d, pd_user = u, pd_language_sent = language_sent d,
                pd_attempt_count = attempt_count d\<rparr> # rest)))"

definition resolve_claimed_recipients ::
    "user list \<Rightarrow> delivery list \<Rightarrow> broadcast_error + pending_delivery list" where
  "resolve_claimed_recipients us claimed = resolve_rows us (sort_key d_id claimed)"

text \<open>The claim statement, then the recipients; an exception rolls the transaction back.\<close>

definition claim_pending_batch ::
    "int set \<Rightarrow> instant \<Rightarrow> int \<Rightarrow> bdb \<Rightarrow> broadcast_error + (bdb \<times> pending_delivery list)" where
  "claim_pending_batch locked now bid db =
     (let ids = set (claim_ids locked now bid (deliveries db));
          rows = update_where (\<lambda>d. d_id d \<in> ids) claim_row (deliveries db);
          claimed = filter (\<lambda>d. d_id d \<in> ids) rows;
          db1 = db\<lparr>deliveries := rows\<rparr>
      in if claimed = [] then Inr (db1, [])
         else bind_result (resolve_claimed_recipients (users db) claimed) (\<lambda>batch. Inr (db1, batch)))"

section \<open>What a claim takes\<close>

lemma claim_row_simps [simp]:
  "d_id (claim_row d) = d_id d" "d_broadcast_id (claim_row d) = d_broadcast_id d"
  "d_user_id (claim_row d) = d_user_id d" "language_sent (claim_row d) = language_sent d"
  "d_status (claim_row d) = IN_PROGRESS" "attempt_count (claim_row d) = attempt_count d + 1"
  by (simp_all add: claim_row_def)

lemma claim_ids_due:
  assumes "distinct (map d_id ds)" and "d \<in> set ds" and "d_id d \<in> set (claim_ids locked now bid ds)"
  shows "due now bid d \<and> d_id d \<notin> locked"
proof -
  have "d_id d \<in> set (map d_id (sort_key d_id (filter (\<lambda>d. due now bid d \<and> d_id d \<notin> locked) ds)))"
    using assms(3) unfolding claim_ids_def by (rule in_set_takeD)
  then obtain e where "e \<in> set ds" "d_id e = d_id d" "due now bid e \<and> d_id e \<notin> locked"
    by auto
  with assms(1,2) show ?thesis using distinct_key_unique [of d_id ds e d] by auto
qed

lemma length_claim_ids: "length (claim_ids locked now bid ds) \<le> BROADCAST_BATCH_SIZE"
  by (simp add: claim_ids_def)

lemma resolve_rows_Inr:
  "resolve_rows us ds = Inr batch \<Longrightarrow>
     map pd_delivery_id batch = map d_id ds \<and> map pd_attempt_count batch = map attempt_count ds \<and>
     map pd_language_sent batch = map language_sent ds \<and>
     map (u_id \<circ> pd_user) batch = map d_user_id ds \<and> set (map pd_user batch) \<subseteq> set us"
proof (induction us ds arbitrary: batch rule: resolve_rows.induct)
  case (1 us)
  then show ?case by simp
next
  case (2 us d ds)
  then obtain u rest where u: "first_where (\<lambda>u. u_id u = d_user_id d) us = Some u"
    and rest: "resolve_rows us ds = Inr rest"
    and batch: "batch = \<lparr>pd_delivery_id = d_id d, pd_user = u, pd_language_sent = language_sent d,
                pd_attempt_count = attempt_count d\<rparr> # rest"
    by (auto simp: bind_result_Inr_iff split: option.splits)
  from "2.IH" [OF u rest] first_where_Some [OF u] show ?case by (simp add: batch)
qed

end
