(* ===== verification/Broadcast_Deliver.thy ===== *)
theory Broadcast_Deliver
  imports Broadcast_Claim
begin

text \<open>
  The delivery and recording phases of the broadcast sender:
  \<^verbatim>\<open>apps/events/mitup_bot/events/broadcast/delivery.py\<close> and \<^verbatim>\<open>recording.py\<close>.

  What a send does is Telegram's answer: \<open>send\<close> gives it for each pending delivery (the row and its
  attempt number), \<open>clock\<close> the instant its outcome is resolved at. \<open>deliver_batch\<close> also returns the
  deliveries for which \<open>api.send_message_to_user\<close> was called, in order: the observable effect.
\<close>

section \<open>Delivery\<close>

datatype retry_after = Seconds int | Delta duration

text \<open>What \<open>send_message_to_user\<close> ends with: it returns, or it raises one of the exceptions the
  handler tells apart (\<open>Network_Error\<close> is any \<open>NetworkError\<close> other than its subclass \<open>BadRequest\<close>).\<close>

datatype send_result =
    Delivered
  | Inactive_User
  | Retry_After retry_after string
  | Bad_Request string
  | Network_Error
  | Other_Error string

record classification =
  c_status :: delivery_status
  c_error :: "string option"
  c_retry_delay :: "duration option"
  c_flood_control :: bool

record outcome =
  o_delivery_id :: int
  o_user_id :: int
  o_status :: delivery_status
  o_next_attempt_time :: "instant option"

record batch_result =
  outcomes :: "outcome list"
  flood_control :: bool
  unattempted :: "pending_delivery list"
  flood_backoff :: "duration option"

definition flood_control_backoff :: "retry_after \<Rightarrow> duration" where
  "flood_control_backoff retry_after =
     (let window = (case retry_after of Delta d \<Rightarrow> d | Seconds n \<Rightarrow> seconds n)
      in window + seconds RETRY_AFTER_MARGIN_SECONDS)"

text \<open>\<open>2 ** (attempt_count - 1)\<close>; a claimed row has an attempt count of at least one.\<close>

definition backoff :: "int \<Rightarrow> duration" where
  "backoff attempt = seconds (RETRY_BACKOFF_BASE_SECONDS * 2 ^ nat (attempt - 1))"

fun deliver_one :: "send_result \<Rightarrow> int \<Rightarrow> broadcast_error + classification" where
  "deliver_one Inactive_User attempt =
     Inr \<lparr>c_status = SKIPPED_INACTIVE, c_error = Some ''bot blocked by user'',
          c_retry_delay = None, c_flood_control = False\<rparr>"
| "deliver_one (Retry_After ra msg) attempt =
     Inr \<lparr>c_status = RETRY_PENDING, c_error = Some msg,
          c_retry_delay = Some (flood_control_backoff ra), c_flood_control = True\<rparr>"
| "deliver_one (Bad_Request msg) attempt =
     Inr \<lparr>c_status = FAILED, c_error = Some msg, c_retry_delay = None, c_flood_control = False\<rparr>"
| "deliver_one Network_Error attempt = Inl NetworkError"
| "deliver_one (Other_Error msg) attempt =
     Inr \<lparr>c_status = RETRY_PENDING, c_error = Some msg,
          c_retry_delay = Some (backoff attempt), c_flood_control = False\<rparr>"
| "deliver_one Delivered attempt =
     Inr \<lparr>c_status = SENT, c_error = None, c_retry_delay = None, c_flood_control = False\<rparr>"

definition resolve_delivery_outcome ::
    "instant \<Rightarrow> pending_delivery \<Rightarrow> classification \<Rightarrow> broadcast_error + outcome" where
  "resolve_delivery_outcome now p c =
     (if c_status c \<noteq> RETRY_PENDING then
        Inr \<lparr>o_delivery_id = pd_delivery_id p, o_user_id = u_id (pd_user p), o_status = c_status c,
             o_next_attempt_time = None\<rparr>
      else if pd_attempt_count p \<ge> MAX_DELIVERY_ATTEMPTS then
        Inr \<lparr>o_delivery_id = pd_delivery_id p, o_user_id = u_id (pd_user p), o_status = FAILED,
             o_next_attempt_time = None\<rparr>
      else case c_retry_delay c of
        None \<Rightarrow> Inl AssertionError
      | Some delay \<Rightarrow>
          Inr \<lparr>o_delivery_id = pd_delivery_id p, o_user_id = u_id (pd_user p), o_status = RETRY_PENDING,
               o_next_attempt_time = Some (now + delay)\<rparr>)"

text \<open>\<open>views\<close> is the precomputed view per language; indexing it with a language it lacks raises.\<close>

type_synonym sender = "pending_delivery \<Rightarrow> send_result"

fun deliver_batch ::
    "sender \<Rightarrow> (pending_delivery \<Rightarrow> instant) \<Rightarrow> (string \<times> 'view) list \<Rightarrow> pending_delivery list \<Rightarrow>
     pending_delivery list \<times> (broadcast_error + batch_result)" where
  "deliver_batch send clock views [] =
     ([], Inr \<lparr>outcomes = [], flood_control = False, unattempted = [], flood_backoff = None\<rparr>)"
| "deliver_batch send clock views (p # batch) =
     (case map_of views (pd_language_sent p) of
        None \<Rightarrow> ([], Inl KeyError)
      | Some _ \<Rightarrow>
          (case deliver_one (send p) (pd_attempt_count p) of
             Inl e \<Rightarrow> ([p], Inl e)
           | Inr c \<Rightarrow>
               (case resolve_delivery_outcome (clock p) p c of
                  Inl e \<Rightarrow> ([p], Inl e)
                | Inr out \<Rightarrow>
                    if c_flood_control c then
                      ([p], Inr \<lparr>outcomes = [out], flood_control = True, unattempted = batch,
                                 flood_backoff = c_retry_delay c\<rparr>)
                    else
                      let (calls, r) = deliver_batch send clock views batch
                      in (p # calls, bind_result r (\<lambda>res. Inr (res\<lparr>outcomes := out # outcomes res\<rparr>))))))"

section \<open>Recording\<close>

definition with_status :: "delivery_status \<Rightarrow> outcome list \<Rightarrow> outcome list" where
  "with_status st outs = filter (\<lambda>out. o_status out = st) outs"

definition ids_of :: "outcome list \<Rightarrow> int set" where
  "ids_of outs = set (map o_delivery_id outs)"

definition mark_deliveries ::
    "delivery_status \<Rightarrow> instant option \<Rightarrow> outcome list \<Rightarrow> delivery list \<Rightarrow> delivery list" where
  "mark_deliveries st stamp outs ds =
     update_where (\<lambda>d. d_id d \<in> ids_of outs)
       (\<lambda>d. case stamp of None \<Rightarrow> d\<lparr>d_status := st\<rparr> | Some t \<Rightarrow> d\<lparr>d_status := st, sent_time := Some t\<rparr>) ds"

definition schedule_retry :: "outcome \<Rightarrow> delivery list \<Rightarrow> delivery list" where
  "schedule_retry out ds =
     update_where (\<lambda>d. d_id d = o_delivery_id out)
       (\<lambda>d. d\<lparr>d_status := RETRY_PENDING, next_attempt_time := o_next_attempt_time out\<rparr>) ds"

definition schedule_retries :: "outcome list \<Rightarrow> delivery list \<Rightarrow> delivery list" where
  "schedule_retries outs ds = fold schedule_retry outs ds"

definition release_row :: "instant \<Rightarrow> delivery \<Rightarrow> delivery" where
  "release_row t d = d\<lparr>d_status := RETRY_PENDING, next_attempt_time := Some t, attempt_count := attempt_count d - 1\<rparr>"

definition release_unattempted ::
    "instant \<Rightarrow> pending_delivery list \<Rightarrow> duration \<Rightarrow> delivery list \<Rightarrow> delivery list" where
  "release_unattempted now unatt delay ds =
     update_where (\<lambda>d. d_id d \<in> set (map pd_delivery_id unatt)) (release_row (now + delay)) ds"

text \<open>The users of the skipped deliveries, flipped through \<open>User.mark_inactive\<close>; the count is of the
  transitions that happened.\<close>

definition deactivate_skipped_users :: "instant \<Rightarrow> outcome list \<Rightarrow> user list \<Rightarrow> user list \<times> nat" where
  "deactivate_skipped_users now skipped us =
     (let ids = set (map o_user_id skipped)
      in (update_where (\<lambda>u. u_id u \<in> ids) (\<lambda>u. fst (mark_inactive now u)) us,
          count_where (\<lambda>u. u_id u \<in> ids \<and> snd (mark_inactive now u)) us))"

text \<open>The bucket of every status is handled when it is not empty; on an empty bucket each of the
  updates is the identity, so the tests of the code are not repeated (\<open>empty_bucket_noop\<close>).\<close>

definition record_batch_outcomes :: "instant \<Rightarrow> batch_result \<Rightarrow> bdb \<Rightarrow> broadcast_error + (bdb \<times> nat)" where
  "record_batch_outcomes now res db =
     (let outs = outcomes res;
          ds1 = mark_deliveries SENT (Some now) (with_status SENT outs) (deliveries db);
          ds2 = mark_deliveries FAILED None (with_status FAILED outs) ds1;
          ds3 = schedule_retries (with_status RETRY_PENDING outs) ds2;
          skipped = with_status SKIPPED_INACTIVE outs;
          ds4 = mark_deliveries SKIPPED_INACTIVE None skipped ds3;
          (us, deactivated) = deactivate_skipped_users now skipped (users db)
      in if unattempted res \<noteq> [] then
           (case flood_backoff res of
              None \<Rightarrow> Inl AssertionError
            | Some delay \<Rightarrow>
                Inr (db\<lparr>deliveries := release_unattempted now (unattempted res) delay ds4, users := us\<rparr>,
                     deactivated))
         else Inr (db\<lparr>deliveries := ds4, users := us\<rparr>, deactivated))"

lemma empty_bucket_noop:
  "mark_deliveries st stamp [] ds = ds" "schedule_retries [] ds = ds"
  "deactivate_skipped_users now [] us = (us, 0)"
  by (simp_all add: mark_deliveries_def schedule_retries_def deactivate_skipped_users_def ids_of_def
        table_simps)

text \<open>The one-hot telemetry: for every outcome one sample per metric, 1 for its own status.\<close>

definition DELIVERY_METRIC_BY_STATUS :: "delivery_status list" where
  "DELIVERY_METRIC_BY_STATUS = [SENT, FAILED, RETRY_PENDING, SKIPPED_INACTIVE]"

fun emit_delivery_outcomes ::
    "outcome list \<Rightarrow> (delivery_status \<times> int) list \<times> (broadcast_error + unit)" where
  "emit_delivery_outcomes [] = ([], Inr ())"
| "emit_delivery_outcomes (out # outs) =
     (if o_status out \<notin> set DELIVERY_METRIC_BY_STATUS then ([], Inl KeyError)
      else let (samples, r) = emit_delivery_outcomes outs
           in (map (\<lambda>key. (key, if key = o_status out then 1 else 0)) DELIVERY_METRIC_BY_STATUS @ samples, r))"

section \<open>What one batch resolves to\<close>

text \<open>The outcome one pending delivery gets when it is sent.\<close>

definition outcome_of :: "sender \<Rightarrow> (pending_delivery \<Rightarrow> instant) \<Rightarrow> pending_delivery \<Rightarrow> broadcast_error + outcome" where
  "outcome_of send clock p =
     bind_result (deliver_one (send p) (pd_attempt_count p)) (resolve_delivery_outcome (clock p) p)"

lemma deliver_one_retry_delay:
  "deliver_one r a = Inr c \<Longrightarrow> c_status c = RETRY_PENDING \<Longrightarrow> c_retry_delay c \<noteq> None"
  by (cases r) auto

lemma deliver_one_flood:
  "deliver_one r a = Inr c \<Longrightarrow> c_flood_control c \<longleftrightarrow> (\<exists>ra msg. r = Retry_After ra msg)"
  by (cases r) auto

lemma resolve_never_asserts:
  "deliver_one r a = Inr c \<Longrightarrow> \<exists>out. resolve_delivery_outcome now p c = Inr out"
  using deliver_one_retry_delay [of r a c] by (auto simp: resolve_delivery_outcome_def)

lemma outcome_of_cases:
  assumes "outcome_of send clock p = Inr out"
  shows "o_delivery_id out = pd_delivery_id p \<and> o_user_id out = u_id (pd_user p) \<and>
    o_status out \<in> set DELIVERY_METRIC_BY_STATUS \<and>
    (o_status out = SENT \<longleftrightarrow> send p = Delivered) \<and>
    (o_status out = RETRY_PENDING \<longrightarrow>
       pd_attempt_count p < MAX_DELIVERY_ATTEMPTS \<and> o_next_attempt_time out \<noteq> None)"
  using assms
  by (cases "send p")
     (auto simp: outcome_of_def resolve_delivery_outcome_def DELIVERY_METRIC_BY_STATUS_def split: if_splits)

text \<open>The shape of every batch: the calls are a prefix of the batch; when delivery succeeds, the
  calls are exactly the deliveries with an outcome and the untried remainder is the rest, which is
  empty unless flood control stopped the batch.\<close>

lemma deliver_batch_prefix:
  "deliver_batch send clock views batch = (calls, r) \<Longrightarrow> \<exists>rest. batch = calls @ rest"
proof (induction batch arbitrary: calls r)
  case Nil
  then show ?case by simp
next
  case (Cons p batch)
  then show ?case
    by (cases "deliver_batch send clock views batch")
       (auto simp: Let_def split: option.splits sum.splits if_splits)
qed

lemma deliver_batch_Inr:
  assumes "deliver_batch send clock views batch = (calls, Inr res)"
  shows "batch = calls @ unattempted res \<and>
    list_all2 (\<lambda>p out. outcome_of send clock p = Inr out) calls (outcomes res) \<and>
    (unattempted res \<noteq> [] \<longrightarrow> flood_control res) \<and>
    (flood_control res \<longleftrightarrow> flood_backoff res \<noteq> None) \<and>
    (flood_control res \<longrightarrow> calls \<noteq> [] \<and> (\<exists>ra msg. send (last calls) = Retry_After ra msg))"
  using assms
proof (induction batch arbitrary: calls res)
  case Nil
  then show ?case by auto
next
  case (Cons p batch)
  from Cons.prems obtain v c out where v: "map_of views (pd_language_sent p) = Some v"
    and c: "deliver_one (send p) (pd_attempt_count p) = Inr c"
    and out: "resolve_delivery_outcome (clock p) p c = Inr out"
    by (auto simp: Let_def split: option.splits sum.splits)
  have out': "outcome_of send clock p = Inr out" by (simp add: outcome_of_def c out)
  show ?case
  proof (cases "c_flood_control c")
    case True
    with deliver_one_flood [OF c] obtain ra msg where ra: "send p = Retry_After ra msg" by blast
    with c True Cons.prems v out out' show ?thesis by auto
  next
    case False
    obtain calls' r where rec: "deliver_batch send clock views batch = (calls', r)" by force
    with Cons.prems v c out False obtain res' where r: "r = Inr res'"
      and calls: "calls = p # calls'" and res: "res = res'\<lparr>outcomes := out # outcomes res'\<rparr>"
      by (auto simp: bind_result_Inr_iff)
    from Cons.IH [OF rec [unfolded r]] out' show ?thesis by (auto simp: calls res)
  qed
qed

text \<open>Delivery fails only through a network error or a language no view was built for.\<close>

lemma deliver_batch_Inl:
  "deliver_batch send clock views batch = (calls, Inl e) \<Longrightarrow>
     (e = NetworkError \<and> calls \<noteq> [] \<and> send (last calls) = Network_Error) \<or>
     (e = KeyError \<and> (\<exists>p \<in> set batch. map_of views (pd_language_sent p) = None))"
proof (induction batch arbitrary: calls)
  case Nil
  then show ?case by simp
next
  case (Cons p batch)
  show ?case
  proof (cases "map_of views (pd_language_sent p)")
    case None
    with Cons.prems show ?thesis by auto
  next
    case (Some v)
    show ?thesis
    proof (cases "deliver_one (send p) (pd_attempt_count p)")
      case (Inl e')
      then have "send p = Network_Error" "e' = NetworkError" by (cases "send p"; simp)+
      with Cons.prems Some Inl show ?thesis by auto
    next
      case (Inr c)
      obtain out where out: "resolve_delivery_outcome (clock p) p c = Inr out"
        using resolve_never_asserts [OF Inr] by blast
      obtain calls' r where rec: "deliver_batch send clock views batch = (calls', r)" by force
      with Cons.prems Some Inr out have "r = Inl e" "calls = p # calls'"
        by (auto split: if_splits sum.splits elim: bind_result.elims)
      moreover from this rec have "(e = NetworkError \<and> calls' \<noteq> [] \<and> send (last calls') = Network_Error) \<or>
         (e = KeyError \<and> (\<exists>p \<in> set batch. map_of views (pd_language_sent p) = None))"
        using Cons.IH by simp
      ultimately show ?thesis by auto
    qed
  qed
qed


section \<open>What recording does to a row\<close>

definition apply_outcome :: "instant \<Rightarrow> outcome \<Rightarrow> delivery \<Rightarrow> delivery" where
  "apply_outcome now out d =
     (case o_status out of
        SENT \<Rightarrow> d\<lparr>d_status := SENT, sent_time := Some now\<rparr>
      | FAILED \<Rightarrow> d\<lparr>d_status := FAILED\<rparr>
      | RETRY_PENDING \<Rightarrow> d\<lparr>d_status := RETRY_PENDING, next_attempt_time := o_next_attempt_time out\<rparr>
      | SKIPPED_INACTIVE \<Rightarrow> d\<lparr>d_status := SKIPPED_INACTIVE\<rparr>
      | _ \<Rightarrow> d)"

definition outcome_for :: "outcome list \<Rightarrow> int \<Rightarrow> outcome option" where
  "outcome_for outs i = first_where (\<lambda>out. o_delivery_id out = i) outs"

definition recorded_row :: "instant \<Rightarrow> batch_result \<Rightarrow> delivery \<Rightarrow> delivery" where
  "recorded_row now res d =
     (let d' = (case outcome_for (outcomes res) (d_id d) of None \<Rightarrow> d | Some out \<Rightarrow> apply_outcome now out d)
      in if d_id d \<in> set (map pd_delivery_id (unattempted res))
         then release_row (now + the (flood_backoff res)) d' else d')"

lemma apply_outcome_simps [simp]:
  "d_id (apply_outcome now out d) = d_id d" "d_broadcast_id (apply_outcome now out d) = d_broadcast_id d"
  "d_user_id (apply_outcome now out d) = d_user_id d" "attempt_count (apply_outcome now out d) = attempt_count d"
  "language_sent (apply_outcome now out d) = language_sent d"
  by (simp_all add: apply_outcome_def split: delivery_status.splits)

lemma release_row_simps [simp]:
  "d_id (release_row t d) = d_id d" "d_broadcast_id (release_row t d) = d_broadcast_id d"
  "d_user_id (release_row t d) = d_user_id d" "d_status (release_row t d) = RETRY_PENDING"
  "attempt_count (release_row t d) = attempt_count d - 1" "language_sent (release_row t d) = language_sent d"
  by (simp_all add: release_row_def)

lemma recorded_row_frame [simp]:
  "d_id (recorded_row now res d) = d_id d" "d_broadcast_id (recorded_row now res d) = d_broadcast_id d"
  "d_user_id (recorded_row now res d) = d_user_id d" "language_sent (recorded_row now res d) = language_sent d"
  by (simp_all add: recorded_row_def Let_def split: option.splits)

lemma outcome_for_Some:
  "outcome_for outs i = Some out \<Longrightarrow> out \<in> set outs \<and> o_delivery_id out = i"
  unfolding outcome_for_def by (drule first_where_Some) simp

lemma outcome_for_None: "outcome_for outs i = None \<longleftrightarrow> i \<notin> ids_of outs"
  by (auto simp: outcome_for_def first_where_None ids_of_def)

lemma outcome_for_mem:
  "distinct (map o_delivery_id outs) \<Longrightarrow> out \<in> set outs \<Longrightarrow> outcome_for outs (o_delivery_id out) = Some out"
  unfolding outcome_for_def by (rule first_where_key)

lemma ids_of_status:
  assumes "distinct (map o_delivery_id outs)"
  shows "i \<in> ids_of (with_status st outs) \<longleftrightarrow> (\<exists>out. outcome_for outs i = Some out \<and> o_status out = st)"
proof
  assume "i \<in> ids_of (with_status st outs)"
  then obtain out where "out \<in> set outs" "o_status out = st" "o_delivery_id out = i"
    by (auto simp: ids_of_def with_status_def)
  with outcome_for_mem [OF assms] show "\<exists>out. outcome_for outs i = Some out \<and> o_status out = st" by auto
next
  assume "\<exists>out. outcome_for outs i = Some out \<and> o_status out = st"
  then show "i \<in> ids_of (with_status st outs)"
    by (auto simp: ids_of_def with_status_def dest: outcome_for_Some)
qed

lemma schedule_retries_map:
  "distinct (map o_delivery_id outs) \<Longrightarrow>
   schedule_retries outs ds =
     map (\<lambda>d. case outcome_for outs (d_id d) of None \<Rightarrow> d
            | Some out \<Rightarrow> d\<lparr>d_status := RETRY_PENDING, next_attempt_time := o_next_attempt_time out\<rparr>) ds"
proof (induction outs arbitrary: ds)
  case Nil
  then show ?case by (simp add: schedule_retries_def outcome_for_def)
next
  case (Cons out outs)
  have "schedule_retries (out # outs) ds = schedule_retries outs (schedule_retry out ds)"
    by (simp add: schedule_retries_def)
  moreover have "outcome_for outs (o_delivery_id out) = None"
    using Cons.prems by (auto simp: outcome_for_None ids_of_def)
  ultimately show ?case using Cons
    by (auto simp: schedule_retry_def update_where_def outcome_for_def split: option.splits)
qed

lemma outcome_for_with_status:
  assumes "distinct (map o_delivery_id outs)"
  shows "outcome_for (with_status st outs) i =
    (case outcome_for outs i of None \<Rightarrow> None | Some out \<Rightarrow> if o_status out = st then Some out else None)"
proof (cases "outcome_for (with_status st outs) i")
  case None
  then have "i \<notin> ids_of (with_status st outs)" by (simp add: outcome_for_None)
  with ids_of_status [OF assms] None show ?thesis by (auto split: option.splits)
next
  case (Some out)
  from outcome_for_Some [OF this] have "out \<in> set outs" "o_status out = st" "o_delivery_id out = i"
    by (auto simp: with_status_def)
  with outcome_for_mem [OF assms, of out] Some show ?thesis by simp
qed

lemma record_batch_outcomes_rows:
  assumes dist: "distinct (map o_delivery_id (outcomes res))"
    and rec: "record_batch_outcomes now res db = Inr (db', n)"
  shows "deliveries db' = map (recorded_row now res) (deliveries db) \<and>
    broadcasts db' = broadcasts db \<and> next_delivery_id db' = next_delivery_id db \<and>
    users db' = fst (deactivate_skipped_users now (with_status SKIPPED_INACTIVE (outcomes res)) (users db)) \<and>
    n = snd (deactivate_skipped_users now (with_status SKIPPED_INACTIVE (outcomes res)) (users db))"
proof -
  let ?outs = "outcomes res"
  have dist': "distinct (map o_delivery_id (with_status st ?outs))" for st
    using dist by (auto simp: with_status_def distinct_map inj_on_def)
  have four: "mark_deliveries SKIPPED_INACTIVE None (with_status SKIPPED_INACTIVE ?outs)
      (schedule_retries (with_status RETRY_PENDING ?outs)
        (mark_deliveries FAILED None (with_status FAILED ?outs)
          (mark_deliveries SENT (Some now) (with_status SENT ?outs) ds))) =
      map (\<lambda>d. case outcome_for ?outs (d_id d) of None \<Rightarrow> d | Some out \<Rightarrow> apply_outcome now out d) ds" for ds
    by (auto simp: mark_deliveries_def update_where_def schedule_retries_map [OF dist']
          outcome_for_with_status [OF dist] ids_of_status [OF dist] apply_outcome_def
        split: option.splits delivery_status.splits)
  show ?thesis
  proof (cases "unattempted res = []")
    case True
    then have "recorded_row now res =
        (\<lambda>d. case outcome_for ?outs (d_id d) of None \<Rightarrow> d | Some out \<Rightarrow> apply_outcome now out d)"
      by (simp add: fun_eq_iff recorded_row_def)
    with rec True show ?thesis
      by (auto simp: record_batch_outcomes_def Let_def four split: prod.splits)
  next
    case False
    with rec obtain delay where delay: "flood_backoff res = Some delay"
      by (auto simp: record_batch_outcomes_def Let_def split: prod.splits option.splits)
    with rec False show ?thesis
      by (auto simp: record_batch_outcomes_def Let_def four release_unattempted_def update_where_def
            recorded_row_def split: prod.splits option.splits)
  qed
qed

end
