(* ===== verification/Broadcast_Run.thy ===== *)
theory Broadcast_Run
  imports Broadcast_Deliver
begin

text \<open>
  The finalize and run phases of the broadcast sender:
  \<^verbatim>\<open>apps/events/mitup_bot/events/broadcast/finalize.py\<close> and \<^verbatim>\<open>runner.py\<close>.

  A run returns the database, the ordered list of its effects (Telegram calls, metric samples, the
  operator summary messages) and whether an exception escaped. Dimension and property arguments of the metrics
  are left out, and \<open>Progress total remaining\<close> stands for the percentage gauge computed from the two.
  The drain loop is a \<^theory_text>\<open>partial_function\<close>: \<open>None\<close> would be a loop that never ends;
  \<open>send_all_pending_terminates\<close> shows it is never the value.
\<close>

section \<open>Effects\<close>

record language_breakdown =
  lb_language :: string
  lb_sent :: int
  lb_failed :: int
  lb_skipped :: int
  lb_orphaned :: int

record broadcast_summary =
  bs_broadcast_id :: int
  bs_name :: string
  bs_status :: broadcast_status
  bs_attempts :: int
  bs_total :: int
  bs_sent :: int
  bs_failed :: int
  bs_skipped :: int
  bs_orphaned :: int
  bs_breakdown :: "language_breakdown list"

datatype metric =
    BROADCAST_DELIVERY delivery_status
  | BROADCAST_BATCH_MESSAGES_SENT
  | BROADCASTS_QUEUED
  | BROADCASTS_SENDING
  | BROADCAST_DELIVERIES_RETRY_PENDING

datatype effect =
    Call pending_delivery
  | Metric metric int
  | Progress nat nat
  | Summary_DM int broadcast_summary

section \<open>Finalize\<close>

definition fail_unattempted_deliveries :: "int \<Rightarrow> bdb \<Rightarrow> bdb \<times> nat" where
  "fail_unattempted_deliveries bid db =
     (db\<lparr>deliveries := update_where (\<lambda>d. d_broadcast_id d = bid \<and> unfinished d)
          (\<lambda>d. d\<lparr>d_status := FAILED\<rparr>) (deliveries db)\<rparr>,
      count_where (\<lambda>d. d_broadcast_id d = bid \<and> unfinished d) (deliveries db))"

text \<open>\<open>counts.get((language, status), 0)\<close> of the grouped counts.\<close>

definition aggregate_delivery_counts :: "int \<Rightarrow> bdb \<Rightarrow> string \<times> delivery_status \<Rightarrow> int" where
  "aggregate_delivery_counts bid db key =
     int (count_where (\<lambda>d. d_broadcast_id d = bid \<and> (language_sent d, d_status d) = key) (deliveries db))"

definition count_message :: "(string \<times> delivery_status \<Rightarrow> int) \<Rightarrow> broadcast_message \<Rightarrow> broadcast_message" where
  "count_message counts msg = msg\<lparr>
     bm_sent_count := counts (bm_language msg, SENT),
     bm_failed_count := counts (bm_language msg, FAILED),
     bm_skipped_count := counts (bm_language msg, SKIPPED_INACTIVE),
     bm_orphan_count := counts (bm_language msg, IN_PROGRESS)\<rparr>"

definition breakdown_line :: "broadcast_message \<Rightarrow> language_breakdown" where
  "breakdown_line msg = \<lparr>lb_language = bm_language msg, lb_sent = bm_sent_count msg,
     lb_failed = bm_failed_count msg, lb_skipped = bm_skipped_count msg, lb_orphaned = bm_orphan_count msg\<rparr>"

definition build_language_breakdown ::
    "broadcast \<Rightarrow> (string \<times> delivery_status \<Rightarrow> int) \<Rightarrow> broadcast \<times> language_breakdown list" where
  "build_language_breakdown b counts =
     (let msgs = map (count_message counts) (messages b)
      in (b\<lparr>messages := msgs\<rparr>, map breakdown_line msgs))"

definition transition_to_terminal :: "instant \<Rightarrow> int \<Rightarrow> broadcast_status \<Rightarrow> bdb \<Rightarrow> bdb \<times> bool" where
  "transition_to_terminal now bid final_status db =
     (let P = (\<lambda>b. b_id b = bid \<and> b_status b = SENDING)
      in (db\<lparr>broadcasts := update_where P
            (\<lambda>b. b\<lparr>b_status := final_status, completed_time := Some now\<rparr>) (broadcasts db)\<rparr>,
          count_where P (broadcasts db) = 1))"

definition finalize_broadcast ::
    "instant \<Rightarrow> int \<Rightarrow> broadcast_status \<Rightarrow> bdb \<Rightarrow>
     broadcast_error + (bdb \<times> broadcast_summary \<times> bool \<times> nat)" where
  "finalize_broadcast now bid final_status db =
     (let (db1, bulk_failed) = fail_unattempted_deliveries bid db;
          counts = aggregate_delivery_counts bid db1
      in case first_where (\<lambda>b. b_id b = bid) (broadcasts db1) of
           None \<Rightarrow> Inl AssertionError
         | Some b \<Rightarrow>
             let (b1, breakdown) = build_language_breakdown b counts;
                 b2 = b1\<lparr>sent_count := sum_list (map lb_sent breakdown),
                         failed_count := sum_list (map lb_failed breakdown),
                         skipped_count := sum_list (map lb_skipped breakdown),
                         orphan_count := sum_list (map lb_orphaned breakdown)\<rparr>;
                 db2 = db1\<lparr>broadcasts := update_where (\<lambda>r. b_id r = bid) (\<lambda>_. b2) (broadcasts db1)\<rparr>;
                 (db3, won) = transition_to_terminal now bid final_status db2;
                 summary = \<lparr>bs_broadcast_id = bid, bs_name = b_name b2, bs_status = final_status,
                   bs_attempts = attempts b2,
                   bs_total = (case total_recipients b2 of None \<Rightarrow> 0 | Some n \<Rightarrow> n),
                   bs_sent = sent_count b2, bs_failed = failed_count b2, bs_skipped = skipped_count b2,
                   bs_orphaned = orphan_count b2, bs_breakdown = breakdown\<rparr>
             in Inr (db3, summary, won, bulk_failed))"

definition purge_deliveries :: "int \<Rightarrow> bdb \<Rightarrow> bdb" where
  "purge_deliveries bid db =
     db\<lparr>deliveries := delete_where (\<lambda>d. d_broadcast_id d = bid) (deliveries db)\<rparr>"

section \<open>Reporting\<close>

text \<open>\<open>reporting.py\<close>. \<open>dm_ok\<close> tells for a Telegram id whether the summary message to it goes through;
  any failure is caught. The effect is the message attempted.\<close>

definition user_by_tg :: "int \<Rightarrow> bdb \<Rightarrow> user option" where
  "user_by_tg tg db = first_where (\<lambda>u. tg_user_id u = tg) (users db)"

definition notify_author :: "(int \<Rightarrow> bool) \<Rightarrow> int \<Rightarrow> broadcast_summary \<Rightarrow> bdb \<Rightarrow> effect list \<times> bool" where
  "notify_author dm_ok author summary db =
     (case user_by_tg author db of
        None \<Rightarrow> ([], False)
      | Some _ \<Rightarrow> ([Summary_DM author summary], dm_ok author))"

text \<open>\<open>load_operators\<close> builds a dict, so an admin listed twice is written to once.\<close>

definition load_operators :: "int list \<Rightarrow> bdb \<Rightarrow> int list" where
  "load_operators tg_ids db = uniq (filter (\<lambda>tg. user_by_tg tg db \<noteq> None) tg_ids)"

definition notify_admins :: "int list \<Rightarrow> broadcast_summary \<Rightarrow> bdb \<Rightarrow> effect list" where
  "notify_admins tg_ids summary db = map (\<lambda>tg. Summary_DM tg summary) (load_operators tg_ids db)"

definition notify_operators ::
    "(int \<Rightarrow> bool) \<Rightarrow> int list \<Rightarrow> int \<Rightarrow> broadcast_summary \<Rightarrow> bdb \<Rightarrow> effect list" where
  "notify_operators dm_ok admins author summary db =
     (let (tried, received) = notify_author dm_ok author summary db
      in if received then tried
         else tried @ notify_admins (filter (\<lambda>tg. tg \<noteq> author) admins) summary db)"

definition finalize_and_report ::
    "(int \<Rightarrow> bool) \<Rightarrow> int list \<Rightarrow> int \<Rightarrow> instant \<Rightarrow> int \<Rightarrow> broadcast_status \<Rightarrow> bdb \<Rightarrow>
     bdb \<times> effect list \<times> (broadcast_error + unit)" where
  "finalize_and_report dm_ok admins author now bid final_status db =
     (case finalize_broadcast now bid final_status db of
        Inl e \<Rightarrow> (db, [], Inl e)
      | Inr (db1, summary, won, bulk_failed) \<Rightarrow>
          (purge_deliveries bid db1,
           (if bulk_failed \<noteq> 0 then [Metric (BROADCAST_DELIVERY FAILED) (int bulk_failed)] else []) @
           (if won then notify_operators dm_ok admins author summary (purge_deliveries bid db1) else []),
           Inr ()))"

section \<open>Run\<close>

text \<open>What a run reads from outside: Telegram's answers, the clock, the rows locked by others. The
  drain loop's \<open>i\<close>-th pass claims at \<open>w_now_claim i\<close> with \<open>w_locks i\<close> held elsewhere and records at
  \<open>w_now_record i\<close>; the terminal transition is stamped \<open>w_now_finalize\<close>.\<close>

record world =
  w_send :: sender
  w_clock :: "pending_delivery \<Rightarrow> instant"
  w_locks :: "nat \<Rightarrow> int set"
  w_now_claim :: "nat \<Rightarrow> instant"
  w_now_record :: "nat \<Rightarrow> instant"
  w_now_finalize :: instant
  w_dm_ok :: "int \<Rightarrow> bool"

definition emit_backlog_gauges :: "bdb \<Rightarrow> effect list" where
  "emit_backlog_gauges db =
     (let (queued, sending, retry_pending) = count_broadcast_backlog db
      in if queued = 0 \<and> sending = 0 \<and> retry_pending = 0 then []
         else [Metric BROADCASTS_QUEUED (int queued), Metric BROADCASTS_SENDING (int sending),
               Metric BROADCAST_DELIVERIES_RETRY_PENDING (int retry_pending)])"

definition emit_progress :: "int \<Rightarrow> nat \<Rightarrow> bdb \<Rightarrow> effect list" where
  "emit_progress bid tot db =
     (if tot = 0 then [] else [Progress tot (count_unfinished_deliveries bid db)])"

definition emit_batch_progress :: "int \<Rightarrow> nat \<Rightarrow> batch_result \<Rightarrow> bdb \<Rightarrow> effect list" where
  "emit_batch_progress bid tot res db =
     Metric BROADCAST_BATCH_MESSAGES_SENT (int (count_where (\<lambda>out. o_status out = SENT) (outcomes res)))
     # emit_progress bid tot db"

definition delivery_samples :: "outcome list \<Rightarrow> effect list" where
  "delivery_samples outs = map (\<lambda>(st, n). Metric (BROADCAST_DELIVERY st) n) (fst (emit_delivery_outcomes outs))"

text \<open>One pass of the drain loop: \<open>Inl\<close> leaves the loop (with an exception or normally), \<open>Inr\<close> goes on.\<close>

definition drain_pass ::
    "world \<Rightarrow> int \<Rightarrow> nat \<Rightarrow> (string \<times> 'view) list \<Rightarrow> nat \<Rightarrow> bdb \<Rightarrow>
     bdb \<times> effect list \<times> ((broadcast_error + unit) + unit)" where
  "drain_pass w bid tot views i db =
     (case claim_pending_batch (w_locks w i) (w_now_claim w i) bid db of
        Inl e \<Rightarrow> (db, [], Inl (Inl e))
      | Inr (db1, []) \<Rightarrow> (db1, [], Inl (Inr ()))
      | Inr (db1, p # batch) \<Rightarrow>
          let (calls, r) = deliver_batch (w_send w) (w_clock w) views (p # batch)
          in case r of
               Inl e \<Rightarrow> (db1, map Call calls, Inl (Inl e))
             | Inr res \<Rightarrow>
                 (case record_batch_outcomes (w_now_record w i) res db1 of
                    Inl e \<Rightarrow> (db1, map Call calls, Inl (Inl e))
                  | Inr (db2, deactivated) \<Rightarrow>
                      (case snd (emit_delivery_outcomes (outcomes res)) of
                         Inl e \<Rightarrow> (db2, map Call calls @ delivery_samples (outcomes res), Inl (Inl e))
                       | Inr _ \<Rightarrow>
                           (db2, map Call calls @ delivery_samples (outcomes res) @
                                 emit_batch_progress bid tot res db2,
                            if flood_control res then Inl (Inr ()) else Inr ()))))"

partial_function (option) send_all_pending ::
    "world \<Rightarrow> int \<Rightarrow> nat \<Rightarrow> (string \<times> 'view) list \<Rightarrow> nat \<Rightarrow> bdb \<Rightarrow> effect list \<Rightarrow>
     (bdb \<times> effect list \<times> (broadcast_error + unit)) option" where
  "send_all_pending w bid tot views i db effects =
     (case drain_pass w bid tot views i db of
        (db', new, Inl r) \<Rightarrow> Some (db', effects @ new, r)
      | (db', new, Inr _) \<Rightarrow> send_all_pending w bid tot views (Suc i) db' (effects @ new))"

definition build_recipient_views ::
    "(string \<Rightarrow> string \<Rightarrow> 'view) \<Rightarrow> (string \<times> string) list \<Rightarrow> (string \<times> 'view) list" where
  "build_recipient_views recipient_view bodies = map (\<lambda>(lang, body). (lang, recipient_view body lang)) bodies"

definition defer_for_pending_retries :: "int \<Rightarrow> bdb \<Rightarrow> bdb \<times> bool" where
  "defer_for_pending_retries bid db =
     (if count_unfinished_deliveries bid db = 0 then (db, False) else (reset_broadcast_attempts bid db, True))"

definition process_claimed_broadcast ::
    "(string \<Rightarrow> string \<Rightarrow> 'view) \<Rightarrow> world \<Rightarrow> int list \<Rightarrow> claimed_broadcast \<Rightarrow> bdb \<Rightarrow>
     (bdb \<times> effect list \<times> (broadcast_error + unit)) option" where
  "process_claimed_broadcast recipient_view w admins claimed db =
     (let bid = c_broadcast_id claimed; author = c_author_tg_id claimed in
      if terminal_failure claimed
      then Some (finalize_and_report (w_dm_ok w) admins author (w_now_finalize w) bid broadcast_status.FAILED db)
      else
        let bodies = load_broadcast_bodies bid db in
        case materialize_audience bid (map fst bodies) db of
          Inl e \<Rightarrow> Some (db, [], Inl e)
        | Inr (db1, tot) \<Rightarrow>
            (case send_all_pending w bid tot (build_recipient_views recipient_view bodies) 0 db1
                    (emit_progress bid tot db1) of
               None \<Rightarrow> None
             | Some (db2, effects, Inl e) \<Rightarrow> Some (db2, effects, Inl e)
             | Some (db2, effects, Inr _) \<Rightarrow>
                 let (db3, deferred) = defer_for_pending_retries bid db2
                 in if deferred then Some (db3, effects, Inr ())
                    else let (db4, report, r) = finalize_and_report (w_dm_ok w) admins author (w_now_finalize w) bid DONE db3
                         in Some (db4, effects @ report, r)))"

definition run ::
    "(string \<Rightarrow> string \<Rightarrow> 'view) \<Rightarrow> world \<Rightarrow> int set \<Rightarrow> int list \<Rightarrow> instant \<Rightarrow> bdb \<Rightarrow>
     (bdb \<times> effect list \<times> (broadcast_error + unit)) option" where
  "run recipient_view w locked admins now db =
     (let gauges = emit_backlog_gauges db in
      case claim_next_broadcast locked now db of
        (db1, None) \<Rightarrow> Some (db1, gauges, Inr ())
      | (db1, Some claimed) \<Rightarrow>
          (case process_claimed_broadcast recipient_view w admins claimed db1 of
             None \<Rightarrow> None
           | Some (db2, effects, r) \<Rightarrow> Some (db2, gauges @ effects, r)))"

end
