(* ===== verification/Broadcast_Props.thy ===== *)
theory Broadcast_Props
  imports Broadcast_Run Transition
begin

text \<open>
  What one run of the broadcast sender guarantees: the drain loop ends, attempts stay within their
  bounds, the audience is a snapshot with one row per recipient, and the finalized counts add up.
\<close>

section \<open>One claimed batch\<close>

definition ids_distinct :: "bdb \<Rightarrow> bool" where
  "ids_distinct db \<longleftrightarrow> distinct (map d_id (deliveries db))"

text \<open>A batch matches the table: every row of the table with a batch id is the in-progress row the
  batch entry was made from. (A row may have been purged in the meantime.)\<close>

definition batch_matches :: "delivery list \<Rightarrow> pending_delivery list \<Rightarrow> bool" where
  "batch_matches ds batch \<longleftrightarrow>
     distinct (map pd_delivery_id batch) \<and>
     (\<forall>p \<in> set batch. \<forall>d \<in> set ds. d_id d = pd_delivery_id p \<longrightarrow>
        d_status d = IN_PROGRESS \<and> attempt_count d = pd_attempt_count p \<and>
        d_user_id d = u_id (pd_user p) \<and> language_sent d = pd_language_sent p)"

lemma distinct_map_update_where:
  "(\<And>r. k (f r) = k r) \<Longrightarrow> distinct (map k (update_where P f rows)) \<longleftrightarrow> distinct (map k rows)"
  by (simp add: map_update_where)

lemma claimed_cases:
  "(if c then Inr (d, []) else bind_result r (\<lambda>batch. Inr (d, batch))) = Inr (d1, batch) \<Longrightarrow>
     d1 = d \<and> (if c then batch = [] else r = Inr batch)"
  by (auto simp: bind_result_Inr_iff split: if_splits)

lemma claim_pending_batch_rows:
  assumes dist: "ids_distinct db" and claim: "claim_pending_batch locked now bid db = Inr (db1, batch)"
  defines "ids \<equiv> set (claim_ids locked now bid (deliveries db))"
  shows "deliveries db1 = map (\<lambda>d. if d_id d \<in> ids then claim_row d else d) (deliveries db)"
    and "broadcasts db1 = broadcasts db" and "users db1 = users db"
    and "next_delivery_id db1 = next_delivery_id db"
    and "set (map pd_delivery_id batch) = ids"
    and "batch_matches (deliveries db1) batch"
    and "sorted (map pd_delivery_id batch)"
    and "length batch \<le> BROADCAST_BATCH_SIZE"
    and "set (map pd_user batch) \<subseteq> set (users db)"
proof -
  let ?rows = "update_where (\<lambda>d. d_id d \<in> ids) claim_row (deliveries db)"
  let ?claimed = "filter (\<lambda>d. d_id d \<in> ids) ?rows"
  have rows: "?rows = map (\<lambda>d. if d_id d \<in> ids then claim_row d else d) (deliveries db)"
    by (simp add: update_where_def)
  have unfold: "claim_pending_batch locked now bid db =
      (if ?claimed = [] then Inr (db\<lparr>deliveries := ?rows\<rparr>, [])
       else bind_result (resolve_claimed_recipients (users db) ?claimed)
              (\<lambda>batch. Inr (db\<lparr>deliveries := ?rows\<rparr>, batch)))"
    by (simp only: claim_pending_batch_def ids_def Let_def)
  have "db1 = db\<lparr>deliveries := ?rows\<rparr> \<and>
      (if ?claimed = [] then batch = [] else resolve_claimed_recipients (users db) ?claimed = Inr batch)"
    using claim unfolding unfold by (rule claimed_cases)
  then have db1: "db1 = db\<lparr>deliveries := ?rows\<rparr>"
    and batch: "if ?claimed = [] then batch = []
      else resolve_claimed_recipients (users db) ?claimed = Inr batch"
    by (rule conjunct1, rule conjunct2)
  show "deliveries db1 = map (\<lambda>d. if d_id d \<in> ids then claim_row d else d) (deliveries db)"
    "broadcasts db1 = broadcasts db" "users db1 = users db" "next_delivery_id db1 = next_delivery_id db"
    unfolding db1 rows by (rule refl | simp)+
  have drows: "distinct (map d_id ?rows)"
    using dist by (simp add: ids_distinct_def distinct_map_update_where)
  define sorted_claimed where "sorted_claimed = sort_key d_id ?claimed"
  have dsc: "distinct (map d_id sorted_claimed)"
    using drows by (simp add: sorted_claimed_def distinct_map inj_on_def)
  have resolved: "map pd_delivery_id batch = map d_id sorted_claimed \<and>
      map pd_attempt_count batch = map attempt_count sorted_claimed \<and>
      map pd_language_sent batch = map language_sent sorted_claimed \<and>
      map (u_id \<circ> pd_user) batch = map d_user_id sorted_claimed \<and> set (map pd_user batch) \<subseteq> set (users db)"
    using batch resolve_rows_Inr [of "users db" sorted_claimed batch]
    by (auto simp: sorted_claimed_def resolve_claimed_recipients_def split: if_splits)
  have sub: "ids \<subseteq> d_id ` set (deliveries db)"
    using set_take_subset [of BROADCAST_BATCH_SIZE] by (fastforce simp: ids_def claim_ids_def)
  have filt: "d_id ` set ?claimed = d_id ` set ?rows \<inter> ids" by auto
  have "map d_id ?rows = map d_id (deliveries db)"
    by (rule map_update_where) (rule claim_row_simps)
  from arg_cong [OF this, of set] have "d_id ` set ?rows = d_id ` set (deliveries db)"
    unfolding list.set_map .
  with sub have "d_id ` set ?claimed = ids" unfolding filt by (simp only: Int_absorb1)
  then show idset: "set (map pd_delivery_id batch) = ids"
    using resolved by (simp add: sorted_claimed_def)
  have "sorted (map d_id sorted_claimed)" by (simp add: sorted_claimed_def)
  with resolved show "sorted (map pd_delivery_id batch)" by simp
  show "set (map pd_user batch) \<subseteq> set (users db)" using resolved by simp
  have "length batch = card (set (map pd_delivery_id batch))"
    using resolved dsc by (metis distinct_card length_map)
  also have "\<dots> \<le> length (claim_ids locked now bid (deliveries db))"
    unfolding idset ids_def by (rule card_length)
  finally show "length batch \<le> BROADCAST_BATCH_SIZE"
    using length_claim_ids by (rule order_trans)
  show "batch_matches (deliveries db1) batch"
    unfolding batch_matches_def
  proof (intro conjI ballI impI)
    show "distinct (map pd_delivery_id batch)" using resolved dsc by simp
    fix p d
    assume p: "p \<in> set batch" and d: "d \<in> set (deliveries db1)" and eq: "d_id d = pd_delivery_id p"
    from p obtain i where i: "i < length batch" "p = batch ! i" by (auto simp: in_set_conv_nth)
    have len: "length batch = length sorted_claimed" using resolved by (metis length_map)
    define e where "e = sorted_claimed ! i"
    have e_mem: "e \<in> set ?claimed" using i len by (metis e_def nth_mem set_sort sorted_claimed_def)
    have fields: "pd_delivery_id p = d_id e" "pd_attempt_count p = attempt_count e"
      "pd_language_sent p = language_sent e" "u_id (pd_user p) = d_user_id e"
      using resolved i len unfolding e_def
      by (metis (no_types, lifting) comp_apply nth_map)+
    have "d = e" using drows d e_mem eq fields(1) by (auto simp: db1 intro: distinct_key_unique)
    moreover have "d_status e = IN_PROGRESS" using e_mem by (auto simp: set_update_where)
    ultimately show "d_status d = IN_PROGRESS" "attempt_count d = pd_attempt_count p"
      "d_user_id d = u_id (pd_user p)" "language_sent d = pd_language_sent p"
      using fields by simp_all
  qed
qed


section \<open>One delivered and recorded batch\<close>

lemma outcome_ids:
  assumes "list_all2 (\<lambda>p out. outcome_of send clock p = Inr out) calls outs"
  shows "map o_delivery_id outs = map pd_delivery_id calls"
  using assms by (induction rule: list_all2_induct) (auto dest: outcome_of_cases)

lemma outcome_of_call:
  assumes "list_all2 (\<lambda>p out. outcome_of send clock p = Inr out) calls outs"
    and "distinct (map pd_delivery_id calls)" and "p \<in> set calls"
  shows "\<exists>out. outcome_of send clock p = Inr out \<and> outcome_for outs (pd_delivery_id p) = Some out"
  using assms
proof (induction rule: list_all2_induct)
  case Nil
  then show ?case by simp
next
  case (Cons q calls out outs)
  have q: "o_delivery_id out = pd_delivery_id q" using outcome_of_cases [OF Cons.hyps(1)] by simp
  show ?case
  proof (cases "p = q")
    case True
    with q Cons.hyps(1) show ?thesis by (auto simp: outcome_for_def)
  next
    case False
    with Cons.prems have "p \<in> set calls" by simp
    with Cons.IH Cons.prems obtain out' where "outcome_of send clock p = Inr out'"
      and out': "outcome_for outs (pd_delivery_id p) = Some out'" by auto
    moreover have "pd_delivery_id p \<noteq> pd_delivery_id q" using Cons.prems \<open>p \<in> set calls\<close>
      by (metis distinct.simps(2) image_eqI list.map(2) list.set_map)
    ultimately show ?thesis by (simp add: outcome_for_def q)
  qed
qed

lemma recorded_row_cases:
  assumes del: "deliver_batch send clock views batch = (calls, Inr res)"
    and dist: "distinct (map pd_delivery_id batch)"
  shows "(d_id d \<notin> set (map pd_delivery_id batch) \<and> recorded_row now res d = d) \<or>
    (\<exists>p \<in> set calls. d_id d = pd_delivery_id p \<and>
       (\<exists>out. outcome_of send clock p = Inr out \<and> recorded_row now res d = apply_outcome now out d)) \<or>
    (\<exists>p \<in> set (unattempted res). d_id d = pd_delivery_id p \<and>
       (\<exists>delay. flood_backoff res = Some delay \<and> recorded_row now res d = release_row (now + delay) d))"
proof -
  note shape = deliver_batch_Inr [OF del]
  have batch: "batch = calls @ unattempted res" using shape by simp
  have outs: "list_all2 (\<lambda>p out. outcome_of send clock p = Inr out) calls (outcomes res)" using shape by simp
  have ids: "ids_of (outcomes res) = set (map pd_delivery_id calls)"
    unfolding ids_of_def outcome_ids [OF outs] ..
  have dc: "distinct (map pd_delivery_id calls)"
    and disj: "set (map pd_delivery_id calls) \<inter> set (map pd_delivery_id (unattempted res)) = {}"
    using dist unfolding batch by simp_all
  consider "d_id d \<notin> set (map pd_delivery_id batch)"
    | "d_id d \<in> set (map pd_delivery_id calls)" | "d_id d \<in> set (map pd_delivery_id (unattempted res))"
    unfolding batch by auto
  then show ?thesis
  proof cases
    case 1
    then have "d_id d \<notin> ids_of (outcomes res)" "d_id d \<notin> set (map pd_delivery_id (unattempted res))"
      unfolding ids batch by simp_all
    then have "recorded_row now res d = d"
      by (simp add: recorded_row_def outcome_for_None [symmetric])
    with 1 show ?thesis by blast
  next
    case 2
    then obtain p where p: "p \<in> set calls" "d_id d = pd_delivery_id p" by auto
    from outcome_of_call [OF outs dc p(1)] obtain out
      where out: "outcome_of send clock p = Inr out" "outcome_for (outcomes res) (d_id d) = Some out"
      using p(2) by auto
    have "d_id d \<notin> set (map pd_delivery_id (unattempted res))" using 2 disj by blast
    with out have "recorded_row now res d = apply_outcome now out d" by (simp add: recorded_row_def)
    with p out show ?thesis by blast
  next
    case 3
    then obtain p where p: "p \<in> set (unattempted res)" "d_id d = pd_delivery_id p" by auto
    then have "unattempted res \<noteq> []" by auto
    with shape obtain delay where delay: "flood_backoff res = Some delay" by auto
    have "outcome_for (outcomes res) (d_id d) = None" using 3 disj unfolding outcome_for_None ids by blast
    with 3 delay have "recorded_row now res d = release_row (now + delay) d" by (simp add: recorded_row_def)
    with p delay show ?thesis by blast
  qed
qed

text \<open>Recording never fails on a delivered batch, and its telemetry has a metric for every outcome.\<close>

lemma record_total:
  assumes "deliver_batch send clock views batch = (calls, Inr res)"
  shows "\<exists>db' n. record_batch_outcomes now res db = Inr (db', n)"
  using deliver_batch_Inr [OF assms]
  by (auto simp: record_batch_outcomes_def Let_def split: prod.splits option.splits)

lemma emit_total:
  assumes "\<forall>out \<in> set outs. o_status out \<in> set DELIVERY_METRIC_BY_STATUS"
  shows "\<exists>samples. emit_delivery_outcomes outs = (samples, Inr ())"
  using assms by (induction outs) auto

lemma delivered_statuses:
  assumes "deliver_batch send clock views batch = (calls, Inr res)"
  shows "\<forall>out \<in> set (outcomes res). o_status out \<in> set DELIVERY_METRIC_BY_STATUS"
proof -
  have "list_all2 (\<lambda>p out. outcome_of send clock p = Inr out) calls (outcomes res)"
    using deliver_batch_Inr [OF assms] by simp
  then show ?thesis by (induction rule: list_all2_induct) (auto dest: outcome_of_cases)
qed

text \<open>A pass of the drain loop, taken apart once for every proof about it.\<close>

definition claimed_ids :: "world \<Rightarrow> int \<Rightarrow> nat \<Rightarrow> bdb \<Rightarrow> int set" where
  "claimed_ids w bid i db = set (claim_ids (w_locks w i) (w_now_claim w i) bid (deliveries db))"

definition claim_rows :: "int set \<Rightarrow> delivery list \<Rightarrow> delivery list" where
  "claim_rows ids ds = map (\<lambda>d. if d_id d \<in> ids then claim_row d else d) ds"

lemma drain_pass_cases:
  assumes pass: "drain_pass w bid tot views i db = (db', new, r)" and ok: "ids_distinct db"
  obtains (stuck) e where "db' = db" "new = []" "r = Inl (Inl e)"
      "claim_pending_batch (w_locks w i) (w_now_claim w i) bid db = Inl e"
    | (drained) "db' = db\<lparr>deliveries := claim_rows (claimed_ids w bid i db) (deliveries db)\<rparr>"
      "claimed_ids w bid i db = {}" "new = []" "r = Inl (Inr ())"
    | (failed) batch calls e where
      "db' = db\<lparr>deliveries := claim_rows (claimed_ids w bid i db) (deliveries db)\<rparr>"
      "batch_matches (deliveries db') batch" "set (map pd_delivery_id batch) = claimed_ids w bid i db"
      "deliver_batch (w_send w) (w_clock w) views batch = (calls, Inl e)"
      "new = map Call calls" "r = Inl (Inl e)"
    | (recorded) batch calls res where
      "batch_matches (claim_rows (claimed_ids w bid i db) (deliveries db)) batch" "batch \<noteq> []"
      "set (map pd_delivery_id batch) = claimed_ids w bid i db"
      "deliver_batch (w_send w) (w_clock w) views batch = (calls, Inr res)"
      "db' = db\<lparr>deliveries := map (recorded_row (w_now_record w i) res)
                  (claim_rows (claimed_ids w bid i db) (deliveries db)),
               users := fst (deactivate_skipped_users (w_now_record w i)
                  (with_status SKIPPED_INACTIVE (outcomes res)) (users db))\<rparr>"
      "r = (if flood_control res then Inl (Inr ()) else Inr ())"
      "new = map Call calls @ delivery_samples (outcomes res) @ emit_batch_progress bid tot res db'"
proof (cases "claim_pending_batch (w_locks w i) (w_now_claim w i) bid db")
  case (Inl e)
  with pass show ?thesis by (intro stuck) (simp_all add: drain_pass_def)
next
  case (Inr x)
  obtain db1 batch where x: "x = (db1, batch)" by force
  note claim = claim_pending_batch_rows [OF ok Inr [unfolded x], folded claimed_ids_def]
  have db1: "db1 = db\<lparr>deliveries := claim_rows (claimed_ids w bid i db) (deliveries db)\<rparr>"
    by (rule bdb.equality) (simp_all add: claim(1-4) claim_rows_def)
  show ?thesis
  proof (cases batch)
    case Nil
    with claim(5) have none: "claimed_ids w bid i db = {}" by simp
    from pass Inr x Nil have "db' = db1" "new = []" "r = Inl (Inr ())" by (simp_all add: drain_pass_def)
    with none db1 show ?thesis by (intro drained) simp_all
  next
    case (Cons p ps)
    obtain calls r' where del: "deliver_batch (w_send w) (w_clock w) views batch = (calls, r')" by force
    show ?thesis
    proof (cases r')
      case (Inl e)
      from pass Inr x Cons del Inl have "db' = db1" "new = map Call calls" "r = Inl (Inl e)"
        by (simp_all add: drain_pass_def)
      with claim db1 del Inl show ?thesis by (intro failed [of batch calls e]) simp_all
    next
      case res: (Inr res)
      note del = del [unfolded res]
      obtain db2 n where rec: "record_batch_outcomes (w_now_record w i) res db1 = Inr (db2, n)"
        using record_total [OF del] by blast
      obtain samples where emit: "emit_delivery_outcomes (outcomes res) = (samples, Inr ())"
        using emit_total [OF delivered_statuses [OF del]] by blast
      have dist: "distinct (map pd_delivery_id batch)" using claim(6) by (simp add: batch_matches_def)
      have "distinct (map o_delivery_id (outcomes res))"
        using outcome_ids [of "w_send w" "w_clock w" calls "outcomes res"] deliver_batch_Inr [OF del] dist
        by fastforce
      from record_batch_outcomes_rows [OF this rec]
      have db2: "db2 = db\<lparr>deliveries := map (recorded_row (w_now_record w i) res)
            (claim_rows (claimed_ids w bid i db) (deliveries db)),
          users := fst (deactivate_skipped_users (w_now_record w i)
            (with_status SKIPPED_INACTIVE (outcomes res)) (users db))\<rparr>"
        by (intro bdb.equality) (simp_all add: db1)
      from pass Inr x Cons del rec emit have "db' = db2"
        and "r = (if flood_control res then Inl (Inr ()) else Inr ())"
        and "new = map Call calls @ delivery_samples (outcomes res) @ emit_batch_progress bid tot res db2"
        by (auto simp: drain_pass_def split: if_splits)
      with claim db1 db2 del Cons show ?thesis by (intro recorded [of batch calls res]) simp_all
    qed
  qed
qed


section \<open>The drain loop ends\<close>

text \<open>What a row can still cost: a claimable row of the broadcast one pass for each attempt it
  has left, and at least one.\<close>

definition row_cost :: "int \<Rightarrow> delivery \<Rightarrow> nat" where
  "row_cost bid d =
     (if d_broadcast_id d = bid \<and> unfinished d then max 1 (nat (MAX_DELIVERY_ATTEMPTS - attempt_count d)) else 0)"

definition drain_cost :: "int \<Rightarrow> bdb \<Rightarrow> nat" where
  "drain_cost bid db = sum_list (map (row_cost bid) (deliveries db))"

definition drain_step ::
    "world \<Rightarrow> int \<Rightarrow> nat \<Rightarrow> (string \<times> 'view) list \<Rightarrow> bdb \<Rightarrow> nat \<Rightarrow> bdb \<Rightarrow> bool" where
  "drain_step w bid tot views db i db' \<longleftrightarrow> (\<exists>new. drain_pass w bid tot views i db = (db', new, Inr ()))"

lemma claim_rows_ids [simp]: "map d_id (claim_rows ids ds) = map d_id ds"
  by (induction ds) (auto simp: claim_rows_def)

lemma map_recorded_ids [simp]: "map d_id (map (recorded_row now res) ds) = map d_id ds"
  by simp

lemma drain_pass_ids_distinct:
  assumes "drain_pass w bid tot views i db = (db', new, r)" and "ids_distinct db"
  shows "ids_distinct db'"
  using assms
proof (cases rule: drain_pass_cases)
  case recorded
  then show ?thesis using assms(2) by (simp add: ids_distinct_def del: map_map)
qed (use assms(2) in \<open>simp_all add: ids_distinct_def\<close>)

lemma apply_outcome_cost:
  assumes "outcome_of send clock p = Inr out" and "attempt_count d = pd_attempt_count p"
  shows "row_cost bid (apply_outcome now out d) \<le> max 1 (nat (MAX_DELIVERY_ATTEMPTS - attempt_count d))"
    and "o_status out = RETRY_PENDING \<Longrightarrow> attempt_count d < MAX_DELIVERY_ATTEMPTS"
    and "o_status out \<noteq> RETRY_PENDING \<Longrightarrow> row_cost bid (apply_outcome now out d) = 0"
  using outcome_of_cases [OF assms(1)] assms(2)
  by (auto simp: row_cost_def unfinished_def apply_outcome_def DELIVERY_METRIC_BY_STATUS_def)

lemma claimed_due:
  assumes "ids_distinct db" and "d \<in> set (deliveries db)" and "d_id d \<in> claimed_ids w bid i db"
  shows "due (w_now_claim w i) bid d"
  using claim_ids_due [of "deliveries db" d] assms by (auto simp: ids_distinct_def claimed_ids_def)

lemma due_unfinished: "due now bid d \<Longrightarrow> d_broadcast_id d = bid \<and> unfinished d"
  by (auto simp: due_def unfinished_def)

lemma drain_step_cost:
  assumes step: "drain_step w bid tot views db i db'" and ok: "ids_distinct db"
  shows "drain_cost bid db' < drain_cost bid db"
proof -
  obtain new where pass: "drain_pass w bid tot views i db = (db', new, Inr ())"
    using step by (auto simp: drain_step_def)
  from pass ok show ?thesis
  proof (cases rule: drain_pass_cases)
    case (recorded batch calls res)
    let ?ids = "claimed_ids w bid i db"
    let ?f = "\<lambda>d. recorded_row (w_now_record w i) res (if d_id d \<in> ?ids then claim_row d else d)"
    from recorded have noflood: "\<not> flood_control res" by (auto split: if_splits)
    note shape = deliver_batch_Inr [OF recorded(4)]
    have dist: "distinct (map pd_delivery_id batch)" using recorded(1) by (simp add: batch_matches_def)
    have unatt: "unattempted res = []" using shape noflood by auto
    have rows: "deliveries db' = map ?f (deliveries db)"
      using recorded(5) by (simp add: claim_rows_def)
    have untouched: "?f d = d" if "d_id d \<notin> ?ids" for d
      using recorded_row_cases [OF recorded(4) dist, of d "w_now_record w i"] that recorded(3) shape unatt
      by auto
    have drops: "row_cost bid (?f d) < row_cost bid d" if d: "d \<in> set (deliveries db)" "d_id d \<in> ?ids" for d
    proof -
      from due_unfinished [OF claimed_due [OF ok d]] have bid: "d_broadcast_id d = bid" "unfinished d" by auto
      have "d_id (claim_row d) \<in> set (map pd_delivery_id batch)" using d(2) recorded(3) by simp
      with recorded_row_cases [OF recorded(4) dist, of "claim_row d" "w_now_record w i"] unatt
      obtain p out where p: "p \<in> set calls" "d_id d = pd_delivery_id p"
        and out: "outcome_of (w_send w) (w_clock w) p = Inr out"
        and row: "recorded_row (w_now_record w i) res (claim_row d) = apply_outcome (w_now_record w i) out (claim_row d)"
        by auto
      have "claim_row d \<in> set (claim_rows ?ids (deliveries db))"
        using d by (auto simp: claim_rows_def)
      moreover have "p \<in> set batch" using p shape by auto
      ultimately have count: "attempt_count (claim_row d) = pd_attempt_count p"
        using recorded(1) p(2) unfolding batch_matches_def by (metis claim_row_simps(1))
      show ?thesis
      proof (cases "o_status out = RETRY_PENDING")
        case True
        from apply_outcome_cost(2) [OF out count True] apply_outcome_cost(1) [OF out count, of bid "w_now_record w i"] bid d(2) row
        show ?thesis by (simp add: row_cost_def)
      next
        case False
        have "0 < row_cost bid d" using bid by (simp add: row_cost_def)
        with apply_outcome_cost(3) [OF out count False] d(2) row show ?thesis by simp
      qed
    qed
    have "pd_delivery_id (hd batch) \<in> ?ids" unfolding recorded(3) [symmetric] using recorded(2) by simp
    moreover have "?ids \<subseteq> d_id ` set (deliveries db)"
      using set_take_subset [of BROADCAST_BATCH_SIZE] by (fastforce simp: claimed_ids_def claim_ids_def)
    ultimately obtain d where "d \<in> set (deliveries db)" "d_id d \<in> ?ids" by auto
    moreover have "row_cost bid (?f d) \<le> row_cost bid d" if "d \<in> set (deliveries db)" for d
      using drops [OF that] untouched [of d] by (cases "d_id d \<in> ?ids") auto
    ultimately show ?thesis
      unfolding drain_cost_def rows using drops
      by (intro sum_list_rows_less [of _ "row_cost bid" ?f]) blast+
  qed simp_all
qed

interpretation drain: measured_system "drain_step w bid tot views" ids_distinct "drain_cost bid"
  for w :: world and bid :: int and tot :: nat and views :: "(string \<times> 'view) list"
proof unfold_locales
  show "ids_distinct t" if "drain_step w bid tot views s e t" "ids_distinct s" for s e t
    using that drain_pass_ids_distinct by (auto simp: drain_step_def)
qed (rule drain_step_cost)

lemma drain_total: "ids_distinct db \<Longrightarrow> \<exists>r. send_all_pending w bid tot views i db effects = Some r"
proof (induction "drain_cost bid db" arbitrary: db i effects rule: less_induct)
  case less
  obtain db' new r where pass: "drain_pass w bid tot views i db = (db', new, r)" by (cases "drain_pass w bid tot views i db") auto
  show ?case
  proof (cases r)
    case (Inl x)
    with pass show ?thesis by (subst send_all_pending.simps) simp
  next
    case (Inr u)
    with pass have step: "drain_step w bid tot views db i db'" by (auto simp: drain_step_def)
    from less.hyps [OF drain_step_cost [OF step less.prems] drain.step_inv [OF step less.prems]]
    show ?thesis using pass Inr by (subst send_all_pending.simps) simp
  qed
qed

lemma rows_cost_le:
  "\<forall>d \<in> set ds. 0 \<le> attempt_count d \<Longrightarrow>
     sum_list (map (row_cost bid) ds) \<le> 3 * count_where (\<lambda>d. d_broadcast_id d = bid \<and> unfinished d) ds"
  by (induction ds) (auto simp: row_cost_def MAX_DELIVERY_ATTEMPTS_def)

text \<open>Termination of the drain loop. Whatever Telegram answers, whatever other transactions hold
  locked and whatever the clock does between the passes, \<open>send_all_pending\<close> returns: the delivery rows
  have distinct ids, so every pass that goes on spends an attempt of some row of the broadcast.\<close>

theorem send_all_pending_terminates:
  assumes "distinct (map d_id (deliveries db))"
  shows "\<exists>db' effects' r. send_all_pending w bid tot views 0 db effects = Some (db', effects', r)"
  using drain_total [of db w bid tot views 0 effects] assms by (auto simp: ids_distinct_def)

text \<open>How long the drain can run: the passes that go on number at most three per claimable row
  of the broadcast, one for each of its attempts, whatever happens in between.\<close>

theorem drain_passes_bounded:
  assumes "distinct (map d_id (deliveries db))"
    and "\<forall>d \<in> set (deliveries db). 0 \<le> attempt_count d"
    and "steps (drain_step w bid tot views) db passes db'"
  shows "length passes \<le> 3 * count_unfinished_deliveries bid db"
proof -
  have "drain_cost bid db \<le> 3 * count_unfinished_deliveries bid db"
    using assms(2) unfolding drain_cost_def count_unfinished_deliveries_def by (rule rows_cost_le)
  moreover have "length passes + drain_cost bid db' \<le> drain_cost bid db"
    using drain.steps_bounded [OF assms(3)] assms(1) by (simp add: ids_distinct_def)
  ultimately show ?thesis by simp
qed


section \<open>The delivery table stays consistent\<close>

text \<open>What a delivery row can look like: a fresh row has no attempt; one waiting for a retry has a
  time and attempts left; one in progress or delivered has between one and three attempts.\<close>

definition row_ok :: "delivery \<Rightarrow> bool" where
  "row_ok d \<longleftrightarrow>
     (case d_status d of
        PENDING \<Rightarrow> attempt_count d = 0
      | RETRY_PENDING \<Rightarrow> 0 \<le> attempt_count d \<and> attempt_count d < MAX_DELIVERY_ATTEMPTS \<and> next_attempt_time d \<noteq> None
      | FAILED \<Rightarrow> 0 \<le> attempt_count d \<and> attempt_count d \<le> MAX_DELIVERY_ATTEMPTS
      | SENT \<Rightarrow> 1 \<le> attempt_count d \<and> attempt_count d \<le> MAX_DELIVERY_ATTEMPTS \<and> sent_time d \<noteq> None
      | _ \<Rightarrow> 1 \<le> attempt_count d \<and> attempt_count d \<le> MAX_DELIVERY_ATTEMPTS)"

definition recipient_key :: "delivery \<Rightarrow> int \<times> int" where
  "recipient_key d = (d_broadcast_id d, d_user_id d)"

definition table_ok :: "bdb \<Rightarrow> bool" where
  "table_ok db \<longleftrightarrow>
     ids_distinct db \<and> (\<forall>d \<in> set (deliveries db). d_id d < next_delivery_id db) \<and>
     distinct (map recipient_key (deliveries db)) \<and> (\<forall>d \<in> set (deliveries db). row_ok d)"

lemma table_ok_ids: "table_ok db \<Longrightarrow> ids_distinct db"
  by (simp add: table_ok_def)

lemma row_ok_claim: "row_ok d \<Longrightarrow> unfinished d \<Longrightarrow> row_ok (claim_row d)"
  by (auto simp: row_ok_def unfinished_def claim_row_def MAX_DELIVERY_ATTEMPTS_def split: delivery_status.splits)

lemma row_ok_release: "row_ok d \<Longrightarrow> d_status d = IN_PROGRESS \<Longrightarrow> row_ok (release_row t d)"
  by (simp add: row_ok_def release_row_def)

lemma row_ok_outcome:
  assumes "row_ok d" and "d_status d = IN_PROGRESS" and "outcome_of send clock p = Inr out"
    and "attempt_count d = pd_attempt_count p"
  shows "row_ok (apply_outcome now out d)"
  using assms(1,2,4) outcome_of_cases [OF assms(3)]
  by (auto simp: row_ok_def apply_outcome_def DELIVERY_METRIC_BY_STATUS_def)

lemma row_ok_fail: "row_ok d \<Longrightarrow> unfinished d \<Longrightarrow> row_ok (d\<lparr>d_status := delivery_status.FAILED\<rparr>)"
  by (auto simp: row_ok_def unfinished_def MAX_DELIVERY_ATTEMPTS_def)

lemma table_ok_map:
  assumes ok: "table_ok db" and rows: "deliveries db' = map f (deliveries db)"
    and next_id: "next_delivery_id db' = next_delivery_id db"
    and keys: "\<And>d. d_id (f d) = d_id d" "\<And>d. recipient_key (f d) = recipient_key d"
    and row: "\<And>d. d \<in> set (deliveries db) \<Longrightarrow> row_ok d \<Longrightarrow> row_ok (f d)"
  shows "table_ok db'"
proof -
  have "map d_id (deliveries db') = map d_id (deliveries db)"
    "map recipient_key (deliveries db') = map recipient_key (deliveries db)"
    by (simp_all add: rows keys)
  moreover have "\<forall>d \<in> set (deliveries db'). row_ok d \<and> d_id d < next_delivery_id db'"
    using ok row by (auto simp: rows table_ok_def keys next_id)
  ultimately show ?thesis using ok by (simp add: table_ok_def ids_distinct_def)
qed

lemma claim_rows_ok:
  assumes ok: "table_ok db"
  shows "table_ok (db\<lparr>deliveries := claim_rows (claimed_ids w bid i db) (deliveries db)\<rparr>)"
proof (rule table_ok_map [OF ok])
  fix d assume "d \<in> set (deliveries db)" "row_ok d"
  then show "row_ok (if d_id d \<in> claimed_ids w bid i db then claim_row d else d)"
    using row_ok_claim [of d] due_unfinished [OF claimed_due [OF table_ok_ids [OF ok]], of d w bid i] by simp
qed (simp_all add: claim_rows_def recipient_key_def)

lemma recorded_rows_ok:
  assumes ok: "table_ok db" and matches: "batch_matches (deliveries db) batch"
    and del: "deliver_batch send clock views batch = (calls, Inr res)"
  shows "table_ok (db\<lparr>deliveries := map (recorded_row now res) (deliveries db), users := us\<rparr>)"
proof (rule table_ok_map [OF ok])
  fix d assume d: "d \<in> set (deliveries db)" "row_ok d"
  have dist: "distinct (map pd_delivery_id batch)" using matches by (simp add: batch_matches_def)
  have in_batch: "set calls \<subseteq> set batch" "set (unattempted res) \<subseteq> set batch"
    using deliver_batch_Inr [OF del] by auto
  have row: "d_status d = IN_PROGRESS \<and> attempt_count d = pd_attempt_count p"
    if "p \<in> set batch" "d_id d = pd_delivery_id p" for p
    using that matches d(1) unfolding batch_matches_def by blast
  from recorded_row_cases [OF del dist, of d now]
  consider "recorded_row now res d = d"
    | p out where "p \<in> set batch" "d_id d = pd_delivery_id p" "outcome_of send clock p = Inr out"
        "recorded_row now res d = apply_outcome now out d"
    | p t where "p \<in> set batch" "d_id d = pd_delivery_id p" "recorded_row now res d = release_row t d"
    using in_batch by blast
  then show "row_ok (recorded_row now res d)"
  proof cases
    case 1
    with d(2) show ?thesis by simp
  next
    case (2 p out)
    with row [of p] row_ok_outcome [OF d(2) _ 2(3)] show ?thesis by simp
  next
    case (3 p t)
    with row [of p] row_ok_release [OF d(2)] show ?thesis by simp
  qed
qed (simp_all add: recipient_key_def)

lemma drain_pass_table_ok:
  assumes pass: "drain_pass w bid tot views i db = (db', new, r)" and ok: "table_ok db"
  shows "table_ok db' \<and> broadcasts db' = broadcasts db"
  using pass table_ok_ids [OF ok]
proof (cases rule: drain_pass_cases)
  case (recorded batch calls res)
  from recorded_rows_ok [OF claim_rows_ok [OF ok, of w bid i] _ recorded(4)] recorded(1,5)
  show ?thesis by simp
qed (use ok claim_rows_ok [OF ok, of w bid i] in simp_all)

text \<open>A finished drain is a run of going-on passes followed by a last one.\<close>

lemma send_all_pending_steps:
  assumes "ids_distinct db" and "send_all_pending w bid tot views i db effects = Some (db', effects', r)"
  shows "\<exists>passes k db1 new. steps (drain_step w bid tot views) db passes db1 \<and>
    drain_pass w bid tot views k db1 = (db', new, Inl r)"
  using assms
proof (induction "drain_cost bid db" arbitrary: db i effects rule: less_induct)
  case less
  obtain db1 new r1 where pass: "drain_pass w bid tot views i db = (db1, new, r1)"
    by (cases "drain_pass w bid tot views i db") auto
  show ?case
  proof (cases r1)
    case (Inl x)
    with pass less.prems(2) have "drain_pass w bid tot views i db = (db', new, Inl r)"
      by (subst (asm) send_all_pending.simps) simp
    then show ?thesis by (intro exI [of _ "[]"] exI [of _ i] exI [of _ db] exI [of _ new]) simp
  next
    case (Inr u)
    with pass have step: "drain_step w bid tot views db i db1" by (auto simp: drain_step_def)
    from less.prems(2) pass Inr
    have "send_all_pending w bid tot views (Suc i) db1 (effects @ new) = Some (db', effects', r)"
      by (subst (asm) send_all_pending.simps) simp
    from less.hyps [OF drain_step_cost [OF step less.prems(1)] drain.step_inv [OF step less.prems(1)] this]
    show ?thesis using steps_Cons [of "drain_step w bid tot views", OF step] by blast
  qed
qed

definition drain_ok :: "broadcast list \<Rightarrow> bdb \<Rightarrow> bool" where
  "drain_ok bs db \<longleftrightarrow> table_ok db \<and> broadcasts db = bs"

interpretation drain_table: invariant_system "drain_step w bid tot views" "drain_ok bs"
  for w :: world and bid :: int and tot :: nat and views :: "(string \<times> 'view) list" and bs
  by unfold_locales (auto simp: drain_step_def drain_ok_def dest: drain_pass_table_ok)

lemma send_all_pending_table_ok:
  assumes ok: "table_ok db" and "send_all_pending w bid tot views i db effects = Some (db', effects', r)"
  shows "table_ok db' \<and> broadcasts db' = broadcasts db"
proof -
  from send_all_pending_steps [OF table_ok_ids [OF ok] assms(2)] obtain passes k db1 new
    where run: "steps (drain_step w bid tot views) db passes db1"
      and last: "drain_pass w bid tot views k db1 = (db', new, Inl r)" by blast
  from drain_table.steps_inv [OF run, of "broadcasts db"] ok have "table_ok db1 \<and> broadcasts db1 = broadcasts db"
    by (simp add: drain_ok_def)
  with drain_pass_table_ok [OF last] show ?thesis by simp
qed

end
