(* ===== verification/Broadcast_Audience.thy ===== *)
theory Broadcast_Audience
  imports Broadcast_Props
begin

text \<open>
  The audience snapshot of \<open>materialize_audience\<close> (\<^verbatim>\<open>broadcast/claiming.py\<close>): who is in it, one row per
  recipient, and that a second call leaves it alone.
\<close>

section \<open>The inserted rows\<close>

fun new_rows :: "int \<Rightarrow> string list \<Rightarrow> int \<Rightarrow> user list \<Rightarrow> delivery list" where
  "new_rows bid langs n [] = []"
| "new_rows bid langs n (u # us) =
     \<lparr>d_id = n, d_broadcast_id = bid, d_user_id = u_id u, language_sent = language_for langs u,
      d_status = PENDING, attempt_count = 0, next_attempt_time = None, sent_time = None\<rparr>
     # new_rows bid langs (n + 1) us"

lemma new_rows_simps [simp]:
  "map d_user_id (new_rows bid langs n us) = map u_id us"
  "map language_sent (new_rows bid langs n us) = map (language_for langs) us"
  "length (new_rows bid langs n us) = length us"
  by (induction us arbitrary: n) auto

lemma new_rows_fresh:
  "d \<in> set (new_rows bid langs n us) \<Longrightarrow>
     d_broadcast_id d = bid \<and> d_status d = PENDING \<and> attempt_count d = 0 \<and> next_attempt_time d = None \<and>
     sent_time d = None"
  by (induction us arbitrary: n) auto

lemma insert_fold:
  assumes "distinct (map u_id us)"
    and "\<forall>u \<in> set us. \<forall>d \<in> set (deliveries db). \<not> (d_broadcast_id d = bid \<and> d_user_id d = u_id u)"
  shows "fold (insert_delivery bid langs) us db =
    db\<lparr>deliveries := deliveries db @ new_rows bid langs (next_delivery_id db) us,
       next_delivery_id := next_delivery_id db + int (length us)\<rparr>"
  using assms
proof (induction us arbitrary: db)
  case Nil
  then show ?case by simp
next
  case (Cons u us)
  let ?row = "\<lparr>d_id = next_delivery_id db, d_broadcast_id = bid, d_user_id = u_id u,
      language_sent = language_for langs u, d_status = PENDING,
      attempt_count = 0, next_attempt_time = None, sent_time = None\<rparr>"
  let ?db = "db\<lparr>next_delivery_id := next_delivery_id db + 1, deliveries := deliveries db @ [?row]\<rparr>"
  have "\<not> (\<exists>d \<in> set (deliveries db). d_broadcast_id d = bid \<and> d_user_id d = u_id u)"
    using Cons.prems(2) by auto
  then have here: "insert_delivery bid langs u db = ?db"
    by (simp add: insert_delivery_def Let_def)
  have "\<forall>v \<in> set us. u_id v \<noteq> u_id u" using Cons.prems(1) by (auto simp: rev_image_eqI)
  then have "fold (insert_delivery bid langs) us ?db =
      ?db\<lparr>deliveries := deliveries ?db @ new_rows bid langs (next_delivery_id ?db) us,
         next_delivery_id := next_delivery_id ?db + int (length us)\<rparr>"
    using Cons.prems by (intro Cons.IH) auto
  then show ?case by (simp add: here)
qed

lemma insert_delivery_table_ok:
  "table_ok db \<Longrightarrow> table_ok (insert_delivery bid langs u db)"
  by (fastforce simp: insert_delivery_def Let_def table_ok_def ids_distinct_def recipient_key_def row_ok_def)

lemma insert_fold_table_ok:
  "table_ok db \<Longrightarrow> table_ok (fold (insert_delivery bid langs) us db)"
  by (induction us arbitrary: db) (auto intro: insert_delivery_table_ok)

lemma insert_fold_frame [simp]:
  "broadcasts (fold (insert_delivery bid langs) us db) = broadcasts db"
  "users (fold (insert_delivery bid langs) us db) = users db"
  by (induction us arbitrary: db) (auto simp: insert_delivery_def Let_def)

lemma materialize_table_ok:
  assumes "materialize_audience bid langs db = Inr (db', n)" and "table_ok db"
  shows "table_ok db'"
proof -
  have "table_ok (fold (insert_delivery bid langs) (filter in_audience (users db)) db)"
    using assms(2) by (rule insert_fold_table_ok)
  with assms show ?thesis
    by (auto simp: materialize_audience_def Let_def table_ok_def ids_distinct_def split: if_splits option.splits)
qed

section \<open>The snapshot\<close>

lemma total_key: "b_id (b\<lparr>total_recipients := n\<rparr>) = bid \<longleftrightarrow> b_id b = bid"
  by simp

text \<open>The audience of a broadcast with no delivery rows yet: exactly one fresh PENDING row, with no
  attempt spent, for every member that is not the anonymous invitee, in their chosen language when the
  broadcast has it and in the fallback language otherwise, and nobody else; the total recorded on the
  broadcast and returned is their number; the rows of other broadcasts stay as they are.\<close>

theorem materialize_audience_exact:
  assumes "count_deliveries bid db = 0" and "distinct (map u_id (users db))"
    and "first_where (\<lambda>b. b_id b = bid) (broadcasts db) = Some b"
  shows "\<exists>db' rows. materialize_audience bid langs db = Inr (db', length rows) \<and>
    deliveries db' = deliveries db @ rows \<and>
    map d_user_id rows = map u_id (filter in_audience (users db)) \<and>
    map language_sent rows = map (language_for langs) (filter in_audience (users db)) \<and>
    (\<forall>d \<in> set rows. d_broadcast_id d = bid \<and> d_status d = PENDING \<and> attempt_count d = 0) \<and>
    (\<forall>b' \<in> set (broadcasts db'). b_id b' = bid \<longrightarrow> total_recipients b' = Some (int (length rows)))"
proof -
  let ?us = "filter in_audience (users db)"
  let ?rows = "new_rows bid langs (next_delivery_id db) ?us"
  have none: "\<forall>d \<in> set (deliveries db). d_broadcast_id d \<noteq> bid"
    using assms(1) by (simp add: count_deliveries_def count_where_0_iff)
  have "distinct (map u_id ?us)" using assms(2) by (simp add: distinct_map inj_on_def)
  then have ins: "fold (insert_delivery bid langs) ?us db =
      db\<lparr>deliveries := deliveries db @ ?rows, next_delivery_id := next_delivery_id db + int (length ?us)\<rparr>"
    using none by (intro insert_fold) auto
  have "count_where (\<lambda>d. d_broadcast_id d = bid) (deliveries db @ ?rows) = length ?rows"
  proof -
    have "filter (\<lambda>d. d_broadcast_id d = bid) ?rows = ?rows"
      by (rule filter_True) (use new_rows_fresh in blast)
    moreover have "filter (\<lambda>d. d_broadcast_id d = bid) (deliveries db) = []" using none by simp
    ultimately show ?thesis unfolding count_where_def by simp
  qed
  moreover define db' where "db' = db\<lparr>deliveries := deliveries db @ ?rows,
      next_delivery_id := next_delivery_id db + int (length ?us),
      broadcasts := update_where (\<lambda>b. b_id b = bid)
        (\<lambda>b. b\<lparr>total_recipients := Some (int (length ?rows))\<rparr>) (broadcasts db)\<rparr>"
  ultimately have "materialize_audience bid langs db = Inr (db', length ?rows)"
    using assms(1,3) by (simp add: materialize_audience_def ins Let_def count_deliveries_def)
  moreover have "deliveries db' = deliveries db @ ?rows" by (simp add: db'_def)
  moreover have "map d_user_id ?rows = map u_id ?us" "map language_sent ?rows = map (language_for langs) ?us"
    by (rule new_rows_simps)+
  moreover have "\<forall>d \<in> set ?rows. d_broadcast_id d = bid \<and> d_status d = PENDING \<and> attempt_count d = 0"
    using new_rows_fresh by blast
  moreover have "\<forall>b' \<in> set (broadcasts db'). b_id b' = bid \<longrightarrow> total_recipients b' = Some (int (length ?rows))"
  proof (intro ballI impI)
    fix b' assume hit: "b' \<in> set (broadcasts db')" "b_id b' = bid"
    have "broadcasts db' = update_where (\<lambda>b. b_id b = bid)
        (\<lambda>b. b\<lparr>total_recipients := Some (int (length ?rows))\<rparr>) (broadcasts db)" by (simp add: db'_def)
    from update_where_hit [OF hit(1) [unfolded this] total_key hit(2)]
    obtain b0 where "b' = b0\<lparr>total_recipients := Some (int (length ?rows))\<rparr>" by blast
    then show "total_recipients b' = Some (int (length ?rows))" by simp
  qed
  ultimately show ?thesis by (intro exI [of _ db'] exI [of _ ?rows] conjI)
qed

text \<open>The snapshot is taken once: while the broadcast has delivery rows, materializing it again
  changes nothing and returns their number, whoever joined, left or changed language since.\<close>

theorem materialize_audience_frozen:
  assumes "count_deliveries bid db \<noteq> 0"
  shows "materialize_audience bid langs (db\<lparr>users := us\<rparr>) =
    Inr (db\<lparr>users := us\<rparr>, count_deliveries bid db)"
  using assms by (simp add: materialize_audience_def Let_def count_deliveries_def)

end
