(* ===== verification/Broadcast_Finalize.thy ===== *)
theory Broadcast_Finalize
  imports Broadcast_Audience
begin

text \<open>
  What \<open>finalize.py\<close> guarantees: the counts on the broadcast account for every recipient, exactly one of
  several racing finalizers reports, the operators hear about it once, and what a losing finalizer does
  to the counts.
\<close>

section \<open>Counting by language\<close>

lemma sum_indicator:
  "distinct keys \<Longrightarrow> sum_list (map (\<lambda>key. if x = key then 1 else 0 :: int) keys) = (if x \<in> set keys then 1 else 0)"
  by (induction keys) auto

lemma sum_by_key:
  assumes "distinct keys" and "\<forall>r \<in> set rows. P r \<longrightarrow> k r \<in> set keys"
  shows "sum_list (map (\<lambda>key. int (count_where (\<lambda>r. P r \<and> k r = key) rows)) keys) = int (count_where P rows)"
  using assms(2)
proof (induction rows)
  case Nil
  then show ?case by (induction keys) auto
next
  case (Cons r rows)
  have "sum_list (map (\<lambda>key. int (count_where (\<lambda>r. P r \<and> k r = key) (r # rows))) keys) =
      sum_list (map (\<lambda>key. if P r \<and> k r = key then 1 else 0) keys) +
      sum_list (map (\<lambda>key. int (count_where (\<lambda>r. P r \<and> k r = key) rows)) keys)"
    by (induction keys) auto
  moreover have "sum_list (map (\<lambda>key. if P r \<and> k r = key then 1 else 0 :: int) keys) = (if P r then 1 else 0)"
  proof (cases "P r")
    case True
    with Cons.prems sum_indicator [OF assms(1), of "k r"] show ?thesis by simp
  qed simp
  ultimately show ?case using Cons by simp
qed

definition count_status :: "int \<Rightarrow> delivery_status \<Rightarrow> bdb \<Rightarrow> int" where
  "count_status bid st db = int (count_where (\<lambda>d. d_broadcast_id d = bid \<and> d_status d = st) (deliveries db))"

text \<open>The breakdown covers the deliveries: the broadcast has one message per language, and every
  delivery was given one of them.\<close>

definition languages_covered :: "broadcast \<Rightarrow> bdb \<Rightarrow> bool" where
  "languages_covered b db \<longleftrightarrow>
     distinct (map bm_language (messages b)) \<and>
     (\<forall>d \<in> set (deliveries db). d_broadcast_id d = b_id b \<longrightarrow> language_sent d \<in> set (map bm_language (messages b)))"

lemma aggregate_total:
  assumes "languages_covered b db" and "b_id b = bid"
  shows "sum_list (map (\<lambda>msg. aggregate_delivery_counts bid db (bm_language msg, st)) (messages b)) =
    count_status bid st db"
proof -
  have "sum_list (map (\<lambda>key. int (count_where (\<lambda>d. (d_broadcast_id d = bid \<and> d_status d = st) \<and> language_sent d = key)
          (deliveries db))) (map bm_language (messages b))) = count_status bid st db"
    unfolding count_status_def using assms by (intro sum_by_key) (auto simp: languages_covered_def)
  moreover have "(\<lambda>d. d_broadcast_id d = bid \<and> language_sent d = l \<and> d_status d = st) =
      (\<lambda>d. (d_broadcast_id d = bid \<and> d_status d = st) \<and> language_sent d = l)" for l
    by auto
  ultimately show ?thesis by (simp add: aggregate_delivery_counts_def comp_def conj_ac)
qed

lemma breakdown_sums:
  "map lb_sent (map breakdown_line (map (count_message c) ms)) = map (\<lambda>m. c (bm_language m, SENT)) ms"
  "map lb_failed (map breakdown_line (map (count_message c) ms)) = map (\<lambda>m. c (bm_language m, delivery_status.FAILED)) ms"
  "map lb_skipped (map breakdown_line (map (count_message c) ms)) = map (\<lambda>m. c (bm_language m, SKIPPED_INACTIVE)) ms"
  "map lb_orphaned (map breakdown_line (map (count_message c) ms)) = map (\<lambda>m. c (bm_language m, IN_PROGRESS)) ms"
  by (simp_all add: breakdown_line_def count_message_def)


section \<open>The finalized broadcast\<close>

definition counted :: "(string \<times> delivery_status \<Rightarrow> int) \<Rightarrow> broadcast \<Rightarrow> broadcast" where
  "counted c b = b\<lparr>messages := map (count_message c) (messages b),
     sent_count := sum_list (map (\<lambda>m. c (bm_language m, SENT)) (messages b)),
     failed_count := sum_list (map (\<lambda>m. c (bm_language m, delivery_status.FAILED)) (messages b)),
     skipped_count := sum_list (map (\<lambda>m. c (bm_language m, SKIPPED_INACTIVE)) (messages b)),
     orphan_count := sum_list (map (\<lambda>m. c (bm_language m, IN_PROGRESS)) (messages b))\<rparr>"

definition terminal_row :: "instant \<Rightarrow> broadcast_status \<Rightarrow> broadcast \<Rightarrow> broadcast" where
  "terminal_row now st b = (if b_status b = SENDING then b\<lparr>b_status := st, completed_time := Some now\<rparr> else b)"

lemma counted_simps [simp]: "b_id (counted c b) = b_id b" "b_status (counted c b) = b_status b"
  "total_recipients (counted c b) = total_recipients b" "map bm_language (messages (counted c b)) = map bm_language (messages b)"
  by (simp_all add: counted_def count_message_def)

lemma terminal_row_simps [simp]: "b_id (terminal_row now st b) = b_id b"
  "b_status (terminal_row now st b) = (if b_status b = SENDING then st else b_status b)"
  "sent_count (terminal_row now st b) = sent_count b" "failed_count (terminal_row now st b) = failed_count b"
  "skipped_count (terminal_row now st b) = skipped_count b" "orphan_count (terminal_row now st b) = orphan_count b"
  by (simp_all add: terminal_row_def)

lemma count_where_key:
  "distinct (map k rows) \<Longrightarrow> r \<in> set rows \<Longrightarrow>
     count_where (\<lambda>s. k s = k r \<and> Q s) rows = (if Q r then 1 else 0)"
proof (induction rows)
  case Nil
  then show ?case by simp
next
  case (Cons x xs)
  show ?case
  proof (cases "r = x")
    case True
    have "\<forall>s \<in> set xs. k s \<noteq> k x" using Cons.prems(1) by (auto simp: rev_image_eqI)
    then have "count_where (\<lambda>s. k s = k x \<and> Q s) xs = 0" by (simp add: count_where_0_iff)
    with True show ?thesis by simp
  next
    case False
    with Cons.prems have "r \<in> set xs" by simp
    moreover from Cons.prems(1) this have "k x \<noteq> k r" by (auto simp: rev_image_eqI)
    ultimately show ?thesis using Cons by simp
  qed
qed

lemma count_replaced:
  "k v = key \<Longrightarrow> count_where (\<lambda>s. k s = key \<and> Q s) (update_where (\<lambda>s. k s = key) (\<lambda>_. v) rows) =
     count_where (\<lambda>s. k s = key \<and> Q v) rows"
  by (induction rows) auto

lemma replaced_replaced:
  "k v = key \<Longrightarrow> update_where (\<lambda>s. k s = key \<and> Q s) g (update_where (\<lambda>s. k s = key) (\<lambda>_. v) rows) =
     update_where (\<lambda>s. k s = key) (\<lambda>_. if Q v then g v else v) rows"
  by (induction rows) auto

lemma finalize_shape:
  fixes bid final_status db
  defines "db1 \<equiv> fst (fail_unattempted_deliveries bid db)"
  defines "c \<equiv> aggregate_delivery_counts bid db1"
  assumes found: "first_where (\<lambda>b. b_id b = bid) (broadcasts db) = Some b"
    and dist: "distinct (map b_id (broadcasts db))"
  shows "\<exists>summary. finalize_broadcast now bid final_status db =
      Inr (db1\<lparr>broadcasts := update_where (\<lambda>r. b_id r = bid) (\<lambda>_. terminal_row now final_status (counted c b)) (broadcasts db)\<rparr>,
           summary, b_status b = SENDING, snd (fail_unattempted_deliveries bid db)) \<and>
    bs_broadcast_id summary = bid \<and> bs_status summary = final_status \<and>
    bs_sent summary = sent_count (counted c b) \<and> bs_failed summary = failed_count (counted c b) \<and>
    bs_skipped summary = skipped_count (counted c b) \<and> bs_orphaned summary = orphan_count (counted c b)"
proof -
  have b: "b \<in> set (broadcasts db)" "b_id b = bid" using first_where_Some [OF found] by auto
  let ?b2 = "counted c b"
  let ?rows = "update_where (\<lambda>r. b_id r = bid) (\<lambda>_. ?b2) (broadcasts db)"
  have count: "count_where (\<lambda>r. b_id r = bid \<and> b_status r = SENDING) ?rows = (if b_status b = SENDING then 1 else 0)"
    using b dist count_where_key [OF dist b(1), of "\<lambda>_. b_status b = SENDING"] by (simp add: count_replaced)
  have rows: "update_where (\<lambda>r. b_id r = bid \<and> b_status r = SENDING)
        (\<lambda>r. r\<lparr>b_status := final_status, completed_time := Some now\<rparr>) ?rows =
      update_where (\<lambda>r. b_id r = bid) (\<lambda>_. terminal_row now final_status ?b2) (broadcasts db)"
    using b(2) by (simp add: replaced_replaced terminal_row_def)
  have b2: "(fst (build_language_breakdown b c))
      \<lparr>sent_count := sum_list (map lb_sent (snd (build_language_breakdown b c))),
       failed_count := sum_list (map lb_failed (snd (build_language_breakdown b c))),
       skipped_count := sum_list (map lb_skipped (snd (build_language_breakdown b c))),
       orphan_count := sum_list (map lb_orphaned (snd (build_language_breakdown b c)))\<rparr> = ?b2"
    unfolding build_language_breakdown_def Let_def fst_conv snd_conv breakdown_sums counted_def by simp
  have bs1: "broadcasts (fst (fail_unattempted_deliveries bid db)) = broadcasts db"
    by (simp add: fail_unattempted_deliveries_def)
  have bs1': "broadcasts db1 = broadcasts db" by (simp add: db1_def bs1)
  show ?thesis
    unfolding finalize_broadcast_def Let_def case_prod_beta bs1 found option.case
    unfolding db1_def [symmetric] c_def [symmetric] transition_to_terminal_def Let_def fst_conv snd_conv
    unfolding b2 bs1'
    by (simp add: rows count)
qed


section \<open>The accounting\<close>

lemma failed_counts:
  defines "fail \<equiv> \<lambda>bid db. fst (fail_unattempted_deliveries bid db)"
  shows "count_status bid SENT (fail bid db) = count_status bid SENT db"
    and "count_status bid SKIPPED_INACTIVE (fail bid db) = count_status bid SKIPPED_INACTIVE db"
    and "count_status bid IN_PROGRESS (fail bid db) = count_status bid IN_PROGRESS db"
    and "count_status bid delivery_status.FAILED (fail bid db) =
      count_status bid delivery_status.FAILED db + int (count_unfinished_deliveries bid db)"
proof -
  have "count_where (\<lambda>d. d_broadcast_id d = bid \<and> d_status d = st)
      (update_where (\<lambda>d. d_broadcast_id d = bid \<and> unfinished d) (\<lambda>d. d\<lparr>d_status := delivery_status.FAILED\<rparr>) ds) =
    (if st = delivery_status.FAILED
     then count_where (\<lambda>d. d_broadcast_id d = bid \<and> d_status d = st) ds + count_where (\<lambda>d. d_broadcast_id d = bid \<and> unfinished d) ds
     else if st \<in> {PENDING, RETRY_PENDING} then 0
     else count_where (\<lambda>d. d_broadcast_id d = bid \<and> d_status d = st) ds)" for st ds
    by (induction ds) (auto simp: unfinished_def)
  then show "count_status bid SENT (fail bid db) = count_status bid SENT db"
    "count_status bid SKIPPED_INACTIVE (fail bid db) = count_status bid SKIPPED_INACTIVE db"
    "count_status bid IN_PROGRESS (fail bid db) = count_status bid IN_PROGRESS db"
    "count_status bid delivery_status.FAILED (fail bid db) =
      count_status bid delivery_status.FAILED db + int (count_unfinished_deliveries bid db)"
    by (simp_all add: fail_def count_status_def count_unfinished_deliveries_def fail_unattempted_deliveries_def)
qed

lemma status_partition:
  "int (count_deliveries bid db) = count_status bid SENT db + count_status bid delivery_status.FAILED db +
     count_status bid SKIPPED_INACTIVE db + count_status bid IN_PROGRESS db + int (count_unfinished_deliveries bid db)"
proof -
  have "int (count_where (\<lambda>d. d_broadcast_id d = bid) ds) =
      int (count_where (\<lambda>d. d_broadcast_id d = bid \<and> d_status d = SENT) ds) +
      int (count_where (\<lambda>d. d_broadcast_id d = bid \<and> d_status d = delivery_status.FAILED) ds) +
      int (count_where (\<lambda>d. d_broadcast_id d = bid \<and> d_status d = SKIPPED_INACTIVE) ds) +
      int (count_where (\<lambda>d. d_broadcast_id d = bid \<and> d_status d = IN_PROGRESS) ds) +
      int (count_where (\<lambda>d. d_broadcast_id d = bid \<and> unfinished d) ds)" for ds
  proof (induction ds)
    case (Cons d ds)
    then show ?case by (cases "d_status d") (auto simp: unfinished_def)
  qed simp
  then show ?thesis by (simp add: count_deliveries_def count_status_def count_unfinished_deliveries_def)
qed

lemma counted_counts:
  fixes bid db
  defines "db1 \<equiv> fst (fail_unattempted_deliveries bid db)"
  assumes "languages_covered b db" and "b_id b = bid"
  shows "sent_count (counted (aggregate_delivery_counts bid db1) b) = count_status bid SENT db"
    and "failed_count (counted (aggregate_delivery_counts bid db1) b) =
      count_status bid delivery_status.FAILED db + int (count_unfinished_deliveries bid db)"
    and "skipped_count (counted (aggregate_delivery_counts bid db1) b) = count_status bid SKIPPED_INACTIVE db"
    and "orphan_count (counted (aggregate_delivery_counts bid db1) b) = count_status bid IN_PROGRESS db"
proof -
  have "languages_covered b db1"
    using assms(2) by (auto simp: languages_covered_def db1_def fail_unattempted_deliveries_def set_update_where
        split: if_splits)
  from aggregate_total [OF this assms(3)] failed_counts [of bid db]
  show "sent_count (counted (aggregate_delivery_counts bid db1) b) = count_status bid SENT db"
    "failed_count (counted (aggregate_delivery_counts bid db1) b) =
      count_status bid delivery_status.FAILED db + int (count_unfinished_deliveries bid db)"
    "skipped_count (counted (aggregate_delivery_counts bid db1) b) = count_status bid SKIPPED_INACTIVE db"
    "orphan_count (counted (aggregate_delivery_counts bid db1) b) = count_status bid IN_PROGRESS db"
    by (simp_all add: counted_def db1_def)
qed

text \<open>Finalizing accounts for every recipient. When each delivery carries a language the broadcast
  has a message for, \<open>finalize_broadcast\<close> reports as sent, skipped and orphaned the deliveries in those
  states, as failed the failed ones and the ones nobody will attempt any more, and the four add up to the
  number of recipients; no delivery of the broadcast is left claimable; it claims victory exactly when
  the broadcast was still being sent.\<close>

theorem finalize_broadcast_accounts:
  assumes "first_where (\<lambda>b. b_id b = bid) (broadcasts db) = Some b"
    and "distinct (map b_id (broadcasts db))" and "languages_covered b db"
  shows "\<exists>db' summary. finalize_broadcast now bid final_status db =
      Inr (db', summary, b_status b = SENDING, count_unfinished_deliveries bid db) \<and>
    bs_sent summary = count_status bid SENT db \<and>
    bs_failed summary = count_status bid delivery_status.FAILED db + int (count_unfinished_deliveries bid db) \<and>
    bs_skipped summary = count_status bid SKIPPED_INACTIVE db \<and>
    bs_orphaned summary = count_status bid IN_PROGRESS db \<and>
    bs_sent summary + bs_failed summary + bs_skipped summary + bs_orphaned summary = int (count_deliveries bid db) \<and>
    count_unfinished_deliveries bid db' = 0"
proof -
  have id: "b_id b = bid" using first_where_Some [OF assms(1)] by simp
  have none: "count_where (\<lambda>d. d_broadcast_id d = bid \<and> unfinished d)
      (update_where (\<lambda>d. d_broadcast_id d = bid \<and> unfinished d) (\<lambda>d. d\<lparr>d_status := delivery_status.FAILED\<rparr>) ds) = 0" for ds
    by (induction ds) (auto simp: unfinished_def)
  have snd_fail: "snd (fail_unattempted_deliveries bid db) = count_unfinished_deliveries bid db"
    by (simp add: fail_unattempted_deliveries_def count_unfinished_deliveries_def)
  from finalize_shape [OF assms(1,2), of now final_status] obtain db' summary
    where fin: "finalize_broadcast now bid final_status db =
        Inr (db', summary, b_status b = SENDING, count_unfinished_deliveries bid db)"
      and ds: "deliveries db' = deliveries (fst (fail_unattempted_deliveries bid db))"
      and sums: "bs_sent summary = count_status bid SENT db"
        "bs_failed summary = count_status bid delivery_status.FAILED db + int (count_unfinished_deliveries bid db)"
        "bs_skipped summary = count_status bid SKIPPED_INACTIVE db"
        "bs_orphaned summary = count_status bid IN_PROGRESS db"
    using counted_counts [OF assms(3) id] unfolding snd_fail by auto
  have "count_unfinished_deliveries bid db' = 0"
    by (simp add: count_unfinished_deliveries_def ds fail_unattempted_deliveries_def none)
  then show ?thesis using fin sums status_partition [of bid db] by auto
qed


section \<open>Racing finalizers\<close>

definition summaries :: "effect list \<Rightarrow> effect list" where
  "summaries effects = filter (\<lambda>e. case e of Summary_DM tg s \<Rightarrow> True | _ \<Rightarrow> False) effects"

lemma finalize_and_report_shape:
  fixes bid db
  defines "c \<equiv> aggregate_delivery_counts bid (fst (fail_unattempted_deliveries bid db))"
  assumes found: "first_where (\<lambda>b. b_id b = bid) (broadcasts db) = Some b"
    and dist: "distinct (map b_id (broadcasts db))"
    and report: "finalize_and_report dm_ok admins author now bid final_status db = (db', effects, r)"
  shows "r = Inr () \<and> count_deliveries bid db' = 0 \<and>
    broadcasts db' = update_where (\<lambda>r. b_id r = bid) (\<lambda>_. terminal_row now final_status (counted c b)) (broadcasts db) \<and>
    (b_status b \<noteq> SENDING \<longrightarrow> summaries effects = [])"
proof -
  from finalize_shape [OF found dist, of now final_status, folded c_def] obtain summary where fin:
    "finalize_broadcast now bid final_status db =
      Inr (fst (fail_unattempted_deliveries bid db)\<lparr>broadcasts :=
             update_where (\<lambda>r. b_id r = bid) (\<lambda>_. terminal_row now final_status (counted c b)) (broadcasts db)\<rparr>,
           summary, b_status b = SENDING, snd (fail_unattempted_deliveries bid db))" by blast
  have "count_where P (delete_where P ds) = 0" for P and ds :: "delivery list"
    by (simp add: count_where_0_iff)
  with report fin show ?thesis
    by (auto simp: finalize_and_report_def purge_deliveries_def count_deliveries_def summaries_def)
qed

text \<open>The summary goes out exactly once. When a second worker finalizes a broadcast another has
  already finalized (with whatever terminal statuses, clocks and operators), it sends no summary message
  and leaves the status and the completion stamp of the broadcast as the first one set them.\<close>

theorem second_finalizer_is_silent:
  assumes "first_where (\<lambda>b. b_id b = bid) (broadcasts db) = Some b"
    and "distinct (map b_id (broadcasts db))" and "st \<in> {DONE, broadcast_status.FAILED}"
    and "finalize_and_report dm_ok admins author now bid st db = (db1, effects1, r1)"
    and "finalize_and_report dm_ok' admins' author' now' bid st' db1 = (db2, effects2, r2)"
  shows "r2 = Inr () \<and> summaries effects2 = [] \<and>
    map (\<lambda>b. (b_id b, b_status b, completed_time b)) (broadcasts db2) =
    map (\<lambda>b. (b_id b, b_status b, completed_time b)) (broadcasts db1)"
proof -
  define c where "c = aggregate_delivery_counts bid (fst (fail_unattempted_deliveries bid db))"
  let ?b1 = "terminal_row now st (counted c b)"
  have id: "b_id b = bid" using first_where_Some [OF assms(1)] by simp
  from finalize_and_report_shape [OF assms(1,2,4)]
  have bs1: "broadcasts db1 = update_where (\<lambda>r. b_id r = bid) (\<lambda>_. ?b1) (broadcasts db)" by (simp add: c_def)
  have found1: "first_where (\<lambda>b. b_id b = bid) (broadcasts db1) = Some ?b1"
    unfolding bs1 using id assms(1) by (intro first_where_replaced) simp_all
  have dist1: "distinct (map b_id (broadcasts db1))"
    unfolding bs1 using id assms(2) by (simp add: replaced_keys)
  have status: "b_status ?b1 \<noteq> SENDING" using assms(3) by auto
  define c' where "c' = aggregate_delivery_counts bid (fst (fail_unattempted_deliveries bid db1))"
  from finalize_and_report_shape [OF found1 dist1 assms(5)] status
  have shape: "r2 = Inr ()" "summaries effects2 = []"
    and bs2: "broadcasts db2 = update_where (\<lambda>r. b_id r = bid) (\<lambda>_. counted c' ?b1) (broadcasts db1)"
    by (auto simp: c'_def terminal_row_def)
  have "map (\<lambda>b. (b_id b, b_status b, completed_time b))
      (update_where (\<lambda>r. b_id r = bid) (\<lambda>_. counted c' ?b1) (update_where (\<lambda>r. b_id r = bid) (\<lambda>_. ?b1) rows)) =
    map (\<lambda>b. (b_id b, b_status b, completed_time b)) (update_where (\<lambda>r. b_id r = bid) (\<lambda>_. ?b1) rows)" for rows
    using id by (induction rows) (auto simp: counted_def)
  with shape show ?thesis unfolding bs2 unfolding bs1 by simp
qed

text \<open>What the losing finalizer does to the counts. It aggregates a table the winner has already
  purged, so whatever the winner counted and reported, the counts stored on the broadcast end up as
  zeros: the roll-up is not idempotent once the purge is in between.\<close>

theorem second_finalizer_zeroes_counts:
  assumes "first_where (\<lambda>b. b_id b = bid) (broadcasts db) = Some b"
    and "distinct (map b_id (broadcasts db))"
    and "finalize_and_report dm_ok admins author now bid st db = (db1, effects1, r1)"
    and "finalize_and_report dm_ok' admins' author' now' bid st' db1 = (db2, effects2, r2)"
    and "first_where (\<lambda>b. b_id b = bid) (broadcasts db2) = Some b2"
  shows "sent_count b2 = 0 \<and> failed_count b2 = 0 \<and> skipped_count b2 = 0 \<and> orphan_count b2 = 0"
proof -
  define c where "c = aggregate_delivery_counts bid (fst (fail_unattempted_deliveries bid db))"
  let ?b1 = "terminal_row now st (counted c b)"
  have id: "b_id b = bid" using first_where_Some [OF assms(1)] by simp
  from finalize_and_report_shape [OF assms(1,2,3)]
  have bs1: "broadcasts db1 = update_where (\<lambda>r. b_id r = bid) (\<lambda>_. ?b1) (broadcasts db)"
    and empty: "count_deliveries bid db1 = 0" by (simp_all add: c_def)
  have found1: "first_where (\<lambda>b. b_id b = bid) (broadcasts db1) = Some ?b1"
    unfolding bs1 using id assms(1) by (intro first_where_replaced) simp_all
  have dist1: "distinct (map b_id (broadcasts db1))"
    unfolding bs1 using id assms(2) by (simp add: replaced_keys)
  define c' where "c' = aggregate_delivery_counts bid (fst (fail_unattempted_deliveries bid db1))"
  have none: "\<forall>d \<in> set (deliveries db1). d_broadcast_id d \<noteq> bid"
    using empty by (simp add: count_deliveries_def count_where_0_iff)
  then have "fst (fail_unattempted_deliveries bid db1) = db1"
    by (simp add: fail_unattempted_deliveries_def update_where_never)
  then have zero: "c' key = 0" for key
    using none by (simp add: c'_def aggregate_delivery_counts_def count_where_0_iff)
  from finalize_and_report_shape [OF found1 dist1 assms(4)]
  have "broadcasts db2 = update_where (\<lambda>r. b_id r = bid) (\<lambda>_. terminal_row now' st' (counted c' ?b1)) (broadcasts db1)"
    by (simp add: c'_def)
  with assms(5) found1 id have "b2 = terminal_row now' st' (counted c' ?b1)"
    using first_where_replaced [of b_id "terminal_row now' st' (counted c' ?b1)" bid "broadcasts db1" ?b1] by simp
  then show ?thesis by (simp add: counted_def zero)
qed

end
