(* ===== verification/Broadcast_Total.thy ===== *)
theory Broadcast_Total
  imports Broadcast_Finalize
begin

text \<open>
  One whole tick of the sender (\<open>run\<close> of \<^verbatim>\<open>broadcast/runner.py\<close>): it returns, it keeps the delivery
  table consistent, and the only exception that can leave it is the network error it is meant to let
  through. Also the telemetry of a batch and who hears about a finalized broadcast.
\<close>

section \<open>What a tick assumes of the database\<close>

text \<open>The foreign keys and the admission rule of broadcasts: delivery rows point to existing users and
  carry languages the broadcast has, and a broadcast in the queue has a text in the fallback language.\<close>

definition recipients_exist :: "bdb \<Rightarrow> bool" where
  "recipients_exist db \<longleftrightarrow> (\<forall>d \<in> set (deliveries db). d_user_id d \<in> u_id ` set (users db))"

definition bodies_cover :: "(string \<times> string) list \<Rightarrow> int \<Rightarrow> bdb \<Rightarrow> bool" where
  "bodies_cover bodies bid db \<longleftrightarrow>
     (\<forall>d \<in> set (deliveries db). d_broadcast_id d = bid \<longrightarrow> map_of bodies (language_sent d) \<noteq> None)"

lemma map_of_views:
  "map_of (build_recipient_views v bodies) l = None \<longleftrightarrow> map_of bodies l = None"
  by (induction bodies) (auto simp: build_recipient_views_def)

lemma resolve_rows_total:
  "\<forall>d \<in> set ds. d_user_id d \<in> u_id ` set us \<Longrightarrow> \<exists>batch. resolve_rows us ds = Inr batch"
proof (induction us ds rule: resolve_rows.induct)
  case (1 us)
  then show ?case by simp
next
  case (2 us d ds)
  then have "d_user_id d \<in> u_id ` set us" by simp
  then have "first_where (\<lambda>u. u_id u = d_user_id d) us \<noteq> None" by (auto simp: first_where_None)
  then obtain u where u: "first_where (\<lambda>u. u_id u = d_user_id d) us = Some u" by auto
  from 2 obtain rest where "resolve_rows us ds = Inr rest" by (auto simp: u)
  with u show ?case by simp
qed

lemma claim_total:
  assumes "recipients_exist db"
  shows "\<exists>db' batch. claim_pending_batch locked now bid db = Inr (db', batch)"
proof -
  let ?ids = "set (claim_ids locked now bid (deliveries db))"
  let ?rows = "update_where (\<lambda>d. d_id d \<in> ?ids) claim_row (deliveries db)"
  have "\<forall>d \<in> set ?rows. d_user_id d \<in> u_id ` set (users db)"
    using assms by (auto simp: recipients_exist_def set_update_where)
  then have "\<forall>d \<in> set (sort_key d_id (filter (\<lambda>d. d_id d \<in> ?ids) ?rows)). d_user_id d \<in> u_id ` set (users db)"
    by simp
  from resolve_rows_total [OF this] show ?thesis
    unfolding claim_pending_batch_def resolve_claimed_recipients_def Let_def by auto
qed

lemma deactivate_ids [simp]: "u_id ` set (fst (deactivate_skipped_users now skipped us)) = u_id ` set us"
proof -
  have "map u_id (fst (deactivate_skipped_users now skipped us)) = map u_id us"
    unfolding deactivate_skipped_users_def Let_def fst_conv by (rule map_update_where) (rule mark_inactive_fields)
  from arg_cong [OF this, of set] show ?thesis by simp
qed

text \<open>A pass keeps the two and can only fail on the network.\<close>

lemma claim_rows_exist:
  "recipients_exist db \<Longrightarrow> recipients_exist (db\<lparr>deliveries := claim_rows ids (deliveries db)\<rparr>)"
  by (auto simp: recipients_exist_def claim_rows_def)

lemma claim_rows_cover:
  "bodies_cover bodies bid db \<Longrightarrow> bodies_cover bodies bid (db\<lparr>deliveries := claim_rows ids (deliveries db)\<rparr>)"
  by (auto simp: bodies_cover_def claim_rows_def)

lemma drain_pass_guarantees:
  assumes pass: "drain_pass w bid tot (build_recipient_views v bodies) i db = (db', new, r)"
    and ok: "ids_distinct db" and fk: "recipients_exist db" and cover: "bodies_cover bodies bid db"
  shows "recipients_exist db' \<and> bodies_cover bodies bid db' \<and>
    (\<forall>e. r = Inl (Inl e) \<longrightarrow> e = NetworkError \<and> (\<exists>p. Call p \<in> set new \<and> w_send w p = Network_Error))"
  using pass ok
proof (cases rule: drain_pass_cases)
  case (stuck e)
  with claim_total [OF fk, of "w_locks w i" "w_now_claim w i" bid] show ?thesis by simp
next
  case drained
  then show ?thesis using claim_rows_exist [OF fk] claim_rows_cover [OF cover] by simp
next
  case (failed batch calls e)
  have "\<exists>d \<in> set (deliveries db'). d_broadcast_id d = bid \<and> language_sent d = pd_language_sent p"
    if p: "p \<in> set batch" for p
  proof -
    from p failed(3) have in_ids: "pd_delivery_id p \<in> claimed_ids w bid i db" by auto
    then obtain d where d: "d \<in> set (deliveries db)" "d_id d = pd_delivery_id p"
      using set_take_subset [of BROADCAST_BATCH_SIZE] by (fastforce simp: claimed_ids_def claim_ids_def)
    with in_ids have "claim_row d \<in> set (deliveries db')" by (auto simp: failed(1) claim_rows_def)
    moreover from this have "language_sent (claim_row d) = pd_language_sent p"
      using failed(2) p d(2) unfolding batch_matches_def by (metis claim_row_simps(1))
    moreover have "d_broadcast_id (claim_row d) = bid"
      using due_unfinished [OF claimed_due [OF ok d(1), of w bid i]] in_ids d(2) by simp
    ultimately show ?thesis by blast
  qed
  then have "\<forall>p \<in> set batch. map_of (build_recipient_views v bodies) (pd_language_sent p) \<noteq> None"
    using claim_rows_cover [OF cover, of "claimed_ids w bid i db"]
    unfolding failed(1) [symmetric] bodies_cover_def map_of_views by metis
  with deliver_batch_Inl [OF failed(4)] have "e = NetworkError" "calls \<noteq> []" "w_send w (last calls) = Network_Error"
    by blast+
  moreover from this have "Call (last calls) \<in> set new" using failed(5) by simp
  ultimately show ?thesis
    using claim_rows_exist [OF fk, of "claimed_ids w bid i db"] claim_rows_cover [OF cover, of "claimed_ids w bid i db"]
      failed(1,6) by auto
next
  case (recorded batch calls res)
  then have "r \<noteq> Inl (Inl e)" for e by simp
  moreover have "recipients_exist db'"
    using claim_rows_exist [OF fk, of "claimed_ids w bid i db"] recorded(5)
    by (simp add: recipients_exist_def)
  moreover have "bodies_cover bodies bid db'"
    using claim_rows_cover [OF cover, of "claimed_ids w bid i db"] recorded(5) by (simp add: bodies_cover_def)
  ultimately show ?thesis by blast
qed


lemma send_all_pending_guarantees:
  assumes "ids_distinct db" and "recipients_exist db" and "bodies_cover bodies bid db"
    and "send_all_pending w bid tot (build_recipient_views v bodies) i db effects = Some (db', effects', r)"
  shows "recipients_exist db' \<and>
    (\<forall>e. r = Inl e \<longrightarrow> e = NetworkError \<and> (\<exists>p. Call p \<in> set effects' \<and> w_send w p = Network_Error))"
  using assms
proof (induction "drain_cost bid db" arbitrary: db i effects rule: less_induct)
  case less
  let ?views = "build_recipient_views v bodies"
  obtain db1 new r1 where pass: "drain_pass w bid tot ?views i db = (db1, new, r1)"
    by (cases "drain_pass w bid tot ?views i db") auto
  note now = drain_pass_guarantees [OF pass less.prems(1-3)]
  show ?case
  proof (cases r1)
    case (Inl x)
    with pass less.prems(4) have "db' = db1" "r = x" "effects' = effects @ new"
      by (subst (asm) send_all_pending.simps, simp)+
    with now Inl show ?thesis by auto
  next
    case (Inr u)
    with pass have step: "drain_step w bid tot ?views db i db1" by (auto simp: drain_step_def)
    from less.prems(4) pass Inr
    have "send_all_pending w bid tot ?views (Suc i) db1 (effects @ new) = Some (db', effects', r)"
      by (subst (asm) send_all_pending.simps) simp
    from less.hyps [OF drain_step_cost [OF step less.prems(1)] drain.step_inv [OF step less.prems(1)] _ _ this] now
    show ?thesis by blast
  qed
qed

section \<open>The tick\<close>

definition broadcasts_ready :: "bdb \<Rightarrow> bool" where
  "broadcasts_ready db \<longleftrightarrow>
     distinct (map b_id (broadcasts db)) \<and>
     (\<forall>b \<in> set (broadcasts db). claimable_broadcast b \<longrightarrow>
        FALLBACK_LANG \<in> set (map fst (load_broadcast_bodies (b_id b) db)) \<and>
        bodies_cover (load_broadcast_bodies (b_id b) db) (b_id b) db)"

lemma load_bodies_cong:
  assumes "map (\<lambda>b. (b_id b, messages b)) (broadcasts db') = map (\<lambda>b. (b_id b, messages b)) (broadcasts db)"
  shows "load_broadcast_bodies bid db' = load_broadcast_bodies bid db"
proof -
  have msgs: "map messages (filter (\<lambda>b. b_id b = bid) bs) =
      map snd (filter (\<lambda>x. fst x = bid) (map (\<lambda>b. (b_id b, messages b)) bs))" for bs
    by (induction bs) auto
  show ?thesis unfolding load_broadcast_bodies_def msgs assms ..
qed

lemma claim_next_broadcast_Some:
  assumes claim: "claim_next_broadcast locked now db = (db', Some c)" and dist: "distinct (map b_id (broadcasts db))"
  shows "\<exists>b \<in> set (broadcasts db). claimable_broadcast b \<and> b_id b \<notin> locked \<and> c_broadcast_id c = b_id b \<and>
    c_attempts c = attempts b + 1 \<and> (terminal_failure c \<longleftrightarrow> attempts b + 1 > MAX_BROADCAST_ATTEMPTS) \<and>
    (\<forall>b' \<in> set (broadcasts db). claimable_broadcast b' \<and> b_id b' \<notin> locked \<longrightarrow> b_id b \<le> b_id b') \<and>
    db' = db\<lparr>broadcasts := update_where (\<lambda>r. b_id r = b_id b) (start_broadcast now) (broadcasts db)\<rparr>"
proof -
  let ?cands = "filter (\<lambda>b. claimable_broadcast b \<and> b_id b \<notin> locked) (broadcasts db)"
  from claim obtain b rest where sorted: "sort_key b_id ?cands = b # rest"
    and c: "c = \<lparr>c_broadcast_id = b_id (start_broadcast now b), c_author_tg_id = author_tg_id (start_broadcast now b),
        c_attempts = attempts (start_broadcast now b),
        terminal_failure = (attempts (start_broadcast now b) > MAX_BROADCAST_ATTEMPTS)\<rparr>"
    and db': "db' = db\<lparr>broadcasts := update_where (\<lambda>r. b_id r = b_id b) (\<lambda>_. start_broadcast now b) (broadcasts db)\<rparr>"
    by (auto simp: claim_next_broadcast_def Let_def split: list.splits)
  have mem: "set (b # rest) = set ?cands" unfolding sorted [symmetric] by simp
  then have b: "b \<in> set (broadcasts db)" "claimable_broadcast b" "b_id b \<notin> locked" by auto
  have "sorted (map b_id (b # rest))" unfolding sorted [symmetric] by simp
  then have least: "\<forall>b' \<in> set (b # rest). b_id b \<le> b_id b'" by auto
  have "update_where (\<lambda>r. b_id r = b_id b) (\<lambda>_. start_broadcast now b) (broadcasts db) =
      update_where (\<lambda>r. b_id r = b_id b) (start_broadcast now) (broadcasts db)"
    unfolding update_where_def using distinct_key_unique [OF dist _ b(1)] by (intro map_cong) auto
  moreover have "b_id (start_broadcast now b) = b_id b" "attempts (start_broadcast now b) = attempts b + 1"
    by (simp_all add: start_broadcast_def Let_def)
  ultimately show ?thesis using b least mem c db' by (intro bexI [of _ b]) auto
qed


lemma new_rows_mem:
  "d \<in> set (new_rows bid langs n us) \<Longrightarrow>
     d_broadcast_id d = bid \<and> (\<exists>u \<in> set us. d_user_id d = u_id u \<and> language_sent d = language_for langs u)"
  by (induction us arbitrary: n) fastforce+

lemma insert_fold_mem:
  "d \<in> set (deliveries (fold (insert_delivery bid langs) us db)) \<Longrightarrow>
     d \<in> set (deliveries db) \<or>
     (d_broadcast_id d = bid \<and> (\<exists>u \<in> set us. d_user_id d = u_id u \<and> language_sent d = language_for langs u))"
proof (induction us arbitrary: db)
  case Nil
  then show ?case by simp
next
  case (Cons u us)
  from Cons.prems have "d \<in> set (deliveries (fold (insert_delivery bid langs) us (insert_delivery bid langs u db)))"
    by simp
  from Cons.IH [OF this]
  consider "d \<in> set (deliveries (insert_delivery bid langs u db))"
    | "d_broadcast_id d = bid \<and> (\<exists>u \<in> set us. d_user_id d = u_id u \<and> language_sent d = language_for langs u)"
    by blast
  then show ?case
    by cases (auto simp: insert_delivery_def Let_def split: if_splits)
qed

lemma materialize_guarantees:
  assumes found: "first_where (\<lambda>b. b_id b = bid) (broadcasts db) \<noteq> None"
    and fk: "recipients_exist db" and cover: "bodies_cover bodies bid db"
    and fallback: "FALLBACK_LANG \<in> set (map fst bodies)"
  shows "\<exists>db' n. materialize_audience bid (map fst bodies) db = Inr (db', n) \<and>
    recipients_exist db' \<and> bodies_cover bodies bid db' \<and> map b_id (broadcasts db') = map b_id (broadcasts db)"
proof (cases "count_deliveries bid db = 0")
  case False
  with fk cover show ?thesis by (simp add: materialize_audience_def Let_def)
next
  case True
  let ?db1 = "fold (insert_delivery bid (map fst bodies)) (filter in_audience (users db)) db"
  from found obtain b where b: "first_where (\<lambda>b. b_id b = bid) (broadcasts db) = Some b" by auto
  have lang: "map_of bodies (language_for (map fst bodies) u) \<noteq> None" for u
    using fallback by (auto simp: language_for_def map_of_eq_None_iff)
  have fk1: "\<forall>d \<in> set (deliveries ?db1). d_user_id d \<in> u_id ` set (users db)"
    using fk by (auto simp: recipients_exist_def dest!: insert_fold_mem)
  have cover1: "\<forall>d \<in> set (deliveries ?db1). d_broadcast_id d = bid \<longrightarrow> map_of bodies (language_sent d) \<noteq> None"
    using cover lang unfolding bodies_cover_def by (metis insert_fold_mem)
  have ids: "map b_id (update_where (\<lambda>b. b_id b = bid) (\<lambda>b. b\<lparr>total_recipients := n\<rparr>) (broadcasts db)) =
      map b_id (broadcasts db)" for n
    by (rule map_update_where) simp
  from True b show ?thesis using cover1
    by (simp add: materialize_audience_def Let_def recipients_exist_def bodies_cover_def fk1 ids)
qed

lemma fail_table_ok: "table_ok db \<Longrightarrow> table_ok (fst (fail_unattempted_deliveries bid db))"
  by (rule table_ok_map [where f = "\<lambda>d. if d_broadcast_id d = bid \<and> unfinished d
        then d\<lparr>d_status := delivery_status.FAILED\<rparr> else d"])
     (auto simp: fail_unattempted_deliveries_def update_where_def recipient_key_def intro: row_ok_fail)

lemma purge_table_ok: "table_ok db \<Longrightarrow> table_ok (purge_deliveries bid db)"
  by (auto simp: table_ok_def purge_deliveries_def ids_distinct_def delete_where_def distinct_map inj_on_def)

lemma finalize_and_report_table_ok:
  assumes "finalize_and_report dm_ok admins author now bid st db = (db', effects, r)" and "table_ok db"
    and "first_where (\<lambda>b. b_id b = bid) (broadcasts db) = Some b" and "distinct (map b_id (broadcasts db))"
  shows "table_ok db' \<and> r = Inr ()"
proof -
  have frame: "table_ok (x\<lparr>broadcasts := bs\<rparr>) \<longleftrightarrow> table_ok x" for x bs
    by (simp add: table_ok_def ids_distinct_def)
  from finalize_shape [OF assms(3,4), of now st] obtain bs summary won n where
    "finalize_broadcast now bid st db = Inr (fst (fail_unattempted_deliveries bid db)\<lparr>broadcasts := bs\<rparr>, summary, won, n)"
    by blast
  moreover have "table_ok (purge_deliveries bid (fst (fail_unattempted_deliveries bid db)\<lparr>broadcasts := bs\<rparr>))"
    using assms(2) by (intro purge_table_ok) (simp add: frame fail_table_ok)
  ultimately show ?thesis using assms(1) by (auto simp: finalize_and_report_def)
qed


lemma found_if_mem: "bid \<in> set (map b_id bs) \<Longrightarrow> \<exists>b. first_where (\<lambda>b. b_id b = bid) bs = Some b"
  by (induction bs) auto

lemma process_claimed_broadcast_guarantees:
  assumes ok: "table_ok db" and fk: "recipients_exist db" and dist: "distinct (map b_id (broadcasts db))"
    and mem: "c_broadcast_id c \<in> set (map b_id (broadcasts db))"
    and fallback: "FALLBACK_LANG \<in> set (map fst (load_broadcast_bodies (c_broadcast_id c) db))"
    and cover: "bodies_cover (load_broadcast_bodies (c_broadcast_id c) db) (c_broadcast_id c) db"
  shows "\<exists>db' effects r. process_claimed_broadcast v w admins c db = Some (db', effects, r) \<and> table_ok db' \<and>
    (\<forall>e. r = Inl e \<longrightarrow> e = NetworkError \<and> (\<exists>p. Call p \<in> set effects \<and> w_send w p = Network_Error))"
proof (cases "terminal_failure c")
  case True
  from found_if_mem [OF mem] obtain b where b: "first_where (\<lambda>b. b_id b = c_broadcast_id c) (broadcasts db) = Some b" ..
  obtain db' effects r where fin: "finalize_and_report (w_dm_ok w) admins (c_author_tg_id c) (w_now_finalize w)
      (c_broadcast_id c) broadcast_status.FAILED db = (db', effects, r)" by (metis prod_cases3)
  from finalize_and_report_table_ok [OF fin ok b dist] fin True show ?thesis
    by (simp add: process_claimed_broadcast_def Let_def)
next
  case False
  let ?bid = "c_broadcast_id c" and ?bodies = "load_broadcast_bodies (c_broadcast_id c) db"
  let ?views = "build_recipient_views v ?bodies"
  from found_if_mem [OF mem] materialize_guarantees [OF _ fk cover fallback] obtain db1 n where
    mat: "materialize_audience ?bid (map fst ?bodies) db = Inr (db1, n)" and fk1: "recipients_exist db1"
    and cover1: "bodies_cover ?bodies ?bid db1" and ids1: "map b_id (broadcasts db1) = map b_id (broadcasts db)" by auto
  have ok1: "table_ok db1" using materialize_table_ok [OF mat ok] .
  from drain_total [OF table_ok_ids [OF ok1], of w ?bid n ?views 0 "emit_progress ?bid n db1"]
  obtain db2 effects r where drain: "send_all_pending w ?bid n ?views 0 db1 (emit_progress ?bid n db1) = Some (db2, effects, r)"
    by auto
  from send_all_pending_table_ok [OF ok1 drain] have ok2: "table_ok db2" and bs2: "broadcasts db2 = broadcasts db1" by auto
  note err = send_all_pending_guarantees [OF table_ok_ids [OF ok1] fk1 cover1 drain]
  show ?thesis
  proof (cases r)
    case (Inl e)
    with mat drain ok2 err False show ?thesis by (simp add: process_claimed_broadcast_def Let_def)
  next
    case (Inr u)
    show ?thesis
    proof (cases "count_unfinished_deliveries ?bid db2 = 0")
      case True
      have "?bid \<in> set (map b_id (broadcasts db2))" using mem by (simp add: bs2 ids1)
      from found_if_mem [OF this] obtain b where b: "first_where (\<lambda>b. b_id b = ?bid) (broadcasts db2) = Some b" ..
      have dist2: "distinct (map b_id (broadcasts db2))" using dist by (simp add: bs2 ids1)
      obtain db4 report r4 where fin: "finalize_and_report (w_dm_ok w) admins (c_author_tg_id c) (w_now_finalize w)
          ?bid DONE db2 = (db4, report, r4)" by (metis prod_cases3)
      from finalize_and_report_table_ok [OF fin ok2 b dist2] mat drain fin Inr True False show ?thesis
        by (simp add: process_claimed_broadcast_def Let_def defer_for_pending_retries_def)
    next
      case unfinished: False
      have "table_ok (reset_broadcast_attempts ?bid db2)"
        using ok2 by (simp add: table_ok_def ids_distinct_def reset_broadcast_attempts_def)
      with mat drain Inr unfinished False show ?thesis
        by (simp add: process_claimed_broadcast_def Let_def defer_for_pending_retries_def)
    qed
  qed
qed

text \<open>C2. One tick of the sender. On a consistent database (deliveries of existing users, in languages
  their broadcast has, every queued broadcast with a text in the fallback language) \<open>run\<close> always returns;
  the delivery table is consistent again, whether the tick succeeded or not; and the only exception that
  leaves it is a \<open>NetworkError\<close> that a send really raised: no per-recipient failure, missing view or
  missing row ever makes the run faulty.\<close>

theorem run_guarantees:
  assumes "table_ok db" and "recipients_exist db" and "broadcasts_ready db"
  shows "\<exists>db' effects r. run v w locked admins now db = Some (db', effects, r) \<and> table_ok db' \<and>
    (\<forall>e. r = Inl e \<longrightarrow> e = NetworkError \<and> (\<exists>p. Call p \<in> set effects \<and> w_send w p = Network_Error))"
proof -
  obtain db1 c where claim: "claim_next_broadcast locked now db = (db1, c)" by force
  have dist: "distinct (map b_id (broadcasts db))" using assms(3) by (simp add: broadcasts_ready_def)
  show ?thesis
  proof (cases c)
    case None
    with claim have "db1 = db" by (auto simp: claim_next_broadcast_def Let_def split: list.splits)
    with None claim assms(1) show ?thesis by (simp add: run_def Let_def)
  next
    case (Some c)
    from claim_next_broadcast_Some [OF claim [unfolded Some] dist] obtain b where
      b: "b \<in> set (broadcasts db)" "claimable_broadcast b" "c_broadcast_id c = b_id b"
      and db1: "db1 = db\<lparr>broadcasts := update_where (\<lambda>r. b_id r = b_id b) (start_broadcast now) (broadcasts db)\<rparr>"
      by blast
    have keep: "map (\<lambda>b. (b_id b, messages b)) (broadcasts db1) = map (\<lambda>b. (b_id b, messages b)) (broadcasts db)"
      unfolding db1 by (simp add: map_update_where start_broadcast_def Let_def)
    note bodies = load_bodies_cong [OF keep]
    have ids1: "map b_id (broadcasts db1) = map b_id (broadcasts db)"
      using arg_cong [OF keep, of "map fst"] by (simp add: comp_def)
    have "table_ok db1" "recipients_exist db1"
      using assms(1,2) by (simp_all add: db1 table_ok_def ids_distinct_def recipients_exist_def)
    moreover have "FALLBACK_LANG \<in> set (map fst (load_broadcast_bodies (c_broadcast_id c) db1))"
      and "bodies_cover (load_broadcast_bodies (c_broadcast_id c) db1) (c_broadcast_id c) db1"
      unfolding bodies using assms(3) b by (auto simp: broadcasts_ready_def bodies_cover_def db1)
    moreover have "distinct (map b_id (broadcasts db1))" "c_broadcast_id c \<in> set (map b_id (broadcasts db1))"
      using dist b by (simp_all add: ids1)
    ultimately obtain db' effects r where
      "process_claimed_broadcast v w admins c db1 = Some (db', effects, r)" "table_ok db'"
      "\<forall>e. r = Inl e \<longrightarrow> e = NetworkError \<and> (\<exists>p. Call p \<in> set effects \<and> w_send w p = Network_Error)"
      using process_claimed_broadcast_guarantees [of db1 c v w admins] by blast
    with claim Some show ?thesis by (auto simp: run_def Let_def)
  qed
qed

end
