(* ===== verification/Broadcast_Reports.thy ===== *)
theory Broadcast_Reports
  imports Broadcast_Total
begin

text \<open>
  The contract of one batch (what each of Telegram's answers does to a delivery, and how flood control
  stops the batch), the one-hot telemetry of its outcomes, the operators a finalized broadcast is
  reported to, and which broadcast a tick takes.
\<close>

section \<open>The contract of a batch\<close>

text \<open>What the package documentation promises: the state a delivery is left in and, for a retry, how long
  it is parked. The exponential back-off starts at a minute; a flood window gets a margin of five
  seconds.\<close>

fun expected :: "send_result \<Rightarrow> int \<Rightarrow> delivery_status \<times> duration option" where
  "expected Delivered attempt = (SENT, None)"
| "expected Inactive_User attempt = (SKIPPED_INACTIVE, None)"
| "expected (Bad_Request msg) attempt = (delivery_status.FAILED, None)"
| "expected (Retry_After (Seconds n) msg) attempt =
     (if attempt < 3 then (RETRY_PENDING, Some (seconds (n + 5))) else (delivery_status.FAILED, None))"
| "expected (Retry_After (Delta d) msg) attempt =
     (if attempt < 3 then (RETRY_PENDING, Some (d + seconds 5)) else (delivery_status.FAILED, None))"
| "expected (Other_Error msg) attempt =
     (if attempt < 3 then (RETRY_PENDING, Some (minutes (2 ^ nat (attempt - 1)))) else (delivery_status.FAILED, None))"
| "expected Network_Error attempt = (IN_PROGRESS, None)"

definition is_flood :: "send_result \<Rightarrow> bool" where
  "is_flood r \<longleftrightarrow> (case r of Retry_After ra msg \<Rightarrow> True | _ \<Rightarrow> False)"

lemma outcome_of_expected:
  assumes "outcome_of send clock p = Inr out"
  shows "(o_status out, o_next_attempt_time out) =
    (fst (expected (send p) (pd_attempt_count p)),
     map_option (\<lambda>delay. clock p + delay) (snd (expected (send p) (pd_attempt_count p))))"
proof (cases "send p")
  case (Retry_After ra msg)
  with assms show ?thesis
    by (cases ra) (auto simp: outcome_of_def resolve_delivery_outcome_def flood_control_backoff_def seconds_def
      MAX_DELIVERY_ATTEMPTS_def RETRY_AFTER_MARGIN_SECONDS_def split: if_splits)
qed (use assms in \<open>auto simp: outcome_of_def resolve_delivery_outcome_def backoff_def seconds_def minutes_def
      MAX_DELIVERY_ATTEMPTS_def RETRY_BACKOFF_BASE_SECONDS_def split: if_splits\<close>)

lemma deliver_batch_no_flood_before:
  "deliver_batch send clock views batch = (calls, Inr res) \<Longrightarrow> p \<in> set (butlast calls) \<Longrightarrow> \<not> is_flood (send p)"
proof (induction batch arbitrary: calls res)
  case Nil
  then show ?case by simp
next
  case (Cons q batch)
  from Cons.prems(1) obtain v c out where v: "map_of views (pd_language_sent q) = Some v"
    and c: "deliver_one (send q) (pd_attempt_count q) = Inr c"
    and out: "resolve_delivery_outcome (clock q) q c = Inr out"
    by (auto simp: Let_def split: option.splits sum.splits)
  show ?case
  proof (cases "c_flood_control c")
    case True
    with Cons.prems v c out show ?thesis by auto
  next
    case False
    obtain calls' r where rec: "deliver_batch send clock views batch = (calls', r)" by force
    with Cons.prems(1) v c out False obtain res' where r: "r = Inr res'" and calls: "calls = q # calls'"
      by (auto simp: bind_result_Inr_iff)
    have "\<not> is_flood (send q)" using deliver_one_flood [OF c] False by (auto simp: is_flood_def split: send_result.splits)
    with Cons.IH [OF rec [unfolded r]] Cons.prems(2) show ?thesis by (auto simp: calls split: if_splits)
  qed
qed

text \<open>A batch with a view for every language, and no network error: the deliveries are called in order
  up to the first flood-control answer (that one included) and not one further; each called delivery gets
  the outcome its answer and its attempt number call for, with its retry time; the rest comes back
  untried, and only flood control leaves a rest.\<close>

theorem deliver_batch_correct:
  assumes "\<forall>p \<in> set batch. map_of views (pd_language_sent p) \<noteq> None \<and> send p \<noteq> Network_Error"
  shows "\<exists>calls res. deliver_batch send clock views batch = (calls, Inr res) \<and>
    batch = calls @ unattempted res \<and>
    list_all2 (\<lambda>p out. o_delivery_id out = pd_delivery_id p \<and> o_user_id out = u_id (pd_user p) \<and>
        o_status out = fst (expected (send p) (pd_attempt_count p)) \<and>
        o_next_attempt_time out = map_option (\<lambda>delay. clock p + delay) (snd (expected (send p) (pd_attempt_count p))))
      calls (outcomes res) \<and>
    (\<forall>p \<in> set (butlast calls). \<not> is_flood (send p)) \<and>
    (flood_control res \<longleftrightarrow> calls \<noteq> [] \<and> is_flood (send (last calls))) \<and>
    (unattempted res \<noteq> [] \<longrightarrow> flood_control res)"
proof -
  obtain calls r where del: "deliver_batch send clock views batch = (calls, r)" by force
  have "\<exists>res. r = Inr res"
  proof (cases r)
    case (Inl e)
    from deliver_batch_Inl [OF del [unfolded Inl]] deliver_batch_prefix [OF del] assms show ?thesis by auto
  qed simp
  then obtain res where del: "deliver_batch send clock views batch = (calls, Inr res)" using del by blast
  note shape = deliver_batch_Inr [OF del]
  have "list_all2 (\<lambda>p out. outcome_of send clock p = Inr out) calls (outcomes res)" using shape by simp
  then have "list_all2 (\<lambda>p out. o_delivery_id out = pd_delivery_id p \<and> o_user_id out = u_id (pd_user p) \<and>
        o_status out = fst (expected (send p) (pd_attempt_count p)) \<and>
        o_next_attempt_time out = map_option (\<lambda>delay. clock p + delay) (snd (expected (send p) (pd_attempt_count p))))
      calls (outcomes res)"
    by (rule list_all2_mono) (use outcome_of_expected outcome_of_cases in fastforce)
  moreover have "calls \<noteq> [] \<Longrightarrow> is_flood (send (last calls)) \<Longrightarrow> flood_control res"
    using del
  proof (induction batch arbitrary: calls res)
    case (Cons q batch)
    then show ?case
      by (auto simp: is_flood_def bind_result_Inr_iff Let_def split: option.splits sum.splits prod.splits if_splits
          send_result.splits)
  qed simp
  moreover have "flood_control res \<Longrightarrow> calls \<noteq> [] \<and> is_flood (send (last calls))"
    using shape by (auto simp: is_flood_def)
  ultimately show ?thesis using del shape deliver_batch_no_flood_before [OF del] by blast
qed

section \<open>Telemetry\<close>

definition samples_of :: "delivery_status \<Rightarrow> (delivery_status \<times> int) list \<Rightarrow> int list" where
  "samples_of st samples = map snd (filter (\<lambda>s. fst s = st) samples)"

text \<open>The telemetry of a batch is one-hot: every outcome metric gets one sample per outcome, the
  samples of a metric add up to the number of outcomes with its status, and nothing is raised.\<close>

theorem telemetry_one_hot:
  assumes "\<forall>out \<in> set outs. o_status out \<in> set DELIVERY_METRIC_BY_STATUS"
  shows "snd (emit_delivery_outcomes outs) = Inr () \<and>
    (\<forall>st \<in> set DELIVERY_METRIC_BY_STATUS.
       length (samples_of st (fst (emit_delivery_outcomes outs))) = length outs \<and>
       sum_list (samples_of st (fst (emit_delivery_outcomes outs))) = int (count_where (\<lambda>out. o_status out = st) outs))"
  using assms
proof (induction outs)
  case Nil
  then show ?case by (simp add: samples_of_def)
next
  case (Cons out outs)
  obtain samples r where rec: "emit_delivery_outcomes outs = (samples, r)" by force
  have one: "samples_of st (map (\<lambda>key. (key, if key = o_status out then 1 else 0)) DELIVERY_METRIC_BY_STATUS @ samples) =
      (if o_status out = st then 1 else 0) # samples_of st samples" if "st \<in> set DELIVERY_METRIC_BY_STATUS" for st
    using that by (auto simp: samples_of_def DELIVERY_METRIC_BY_STATUS_def)
  from Cons rec show ?case by (simp add: one)
qed

section \<open>Who is told\<close>

fun recipient_of :: "effect \<Rightarrow> int option" where
  "recipient_of (Summary_DM tg s) = Some tg"
| "recipient_of _ = None"

text \<open>Who hears about a finalized broadcast: nobody is written to twice; if the author has a user row
  and the message goes through, only the author; otherwise every admin with a user row, and the author's
  failed attempt first.\<close>

theorem notify_operators_once:
  "distinct (map recipient_of (notify_operators dm_ok admins author summary db)) \<and>
   (let known = (\<lambda>tg. user_by_tg tg db \<noteq> None)
    in set (map recipient_of (notify_operators dm_ok admins author summary db)) =
       Some ` (if known author \<and> dm_ok author then {author}
               else {tg. (tg = author \<or> tg \<in> set admins) \<and> known tg \<and> (tg = author \<longrightarrow> \<not> dm_ok author)}))"
proof -
  let ?known = "\<lambda>tg. user_by_tg tg db \<noteq> None"
  let ?rest = "load_operators (filter (\<lambda>tg. tg \<noteq> author) admins) db"
  let ?told = "if ?known author \<and> dm_ok author then [author] else (if ?known author then [author] else []) @ ?rest"
  have told: "map recipient_of (notify_operators dm_ok admins author summary db) = map Some ?told"
    by (simp add: notify_operators_def notify_author_def notify_admins_def split: option.splits)
  have rest: "set ?rest = {tg \<in> set admins. tg \<noteq> author \<and> ?known tg}" "distinct ?rest"
    by (auto simp: load_operators_def)
  have "distinct ?told" using rest by auto
  moreover have "set ?told = (if ?known author \<and> dm_ok author then {author}
      else {tg. (tg = author \<or> tg \<in> set admins) \<and> ?known tg \<and> (tg = author \<longrightarrow> \<not> dm_ok author)})"
    unfolding set_append if_distrib [of set] rest by auto
  ultimately show ?thesis unfolding told Let_def distinct_map set_map by simp
qed

section \<open>Which broadcast\<close>

text \<open>A tick takes the oldest broadcast that is queued or being sent and that no other transaction has
  locked, counts the attempt, starts it when it was only queued, and gives it up exactly when this is its
  sixth attempt in a row; every other broadcast and every delivery stays as it is.\<close>

theorem claim_next_broadcast_oldest:
  assumes "distinct (map b_id (broadcasts db))" and "claim_next_broadcast locked now db = (db', Some c)"
  shows "\<exists>b \<in> set (broadcasts db). c_broadcast_id c = b_id b \<and> b_status b \<in> {QUEUED, SENDING} \<and> b_id b \<notin> locked \<and>
    (\<forall>b' \<in> set (broadcasts db). b_status b' \<in> {QUEUED, SENDING} \<and> b_id b' \<notin> locked \<longrightarrow> b_id b \<le> b_id b') \<and>
    (terminal_failure c \<longleftrightarrow> attempts b \<ge> 5) \<and> deliveries db' = deliveries db \<and>
    (\<forall>b' \<in> set (broadcasts db'). if b_id b' = b_id b then b_status b' = SENDING \<and> attempts b' = attempts b + 1
       else b' \<in> set (broadcasts db))"
proof -
  from claim_next_broadcast_Some [OF assms(2,1)] obtain b where b: "b \<in> set (broadcasts db)" "claimable_broadcast b"
      "b_id b \<notin> locked" "c_broadcast_id c = b_id b" "terminal_failure c \<longleftrightarrow> attempts b + 1 > MAX_BROADCAST_ATTEMPTS"
    and least: "\<forall>b' \<in> set (broadcasts db). claimable_broadcast b' \<and> b_id b' \<notin> locked \<longrightarrow> b_id b \<le> b_id b'"
    and db': "db' = db\<lparr>broadcasts := update_where (\<lambda>r. b_id r = b_id b) (start_broadcast now) (broadcasts db)\<rparr>"
    by blast
  have "if b_id b' = b_id b then b_status b' = SENDING \<and> attempts b' = attempts b + 1 else b' \<in> set (broadcasts db)"
    if b': "b' \<in> set (broadcasts db')" for b'
  proof -
    from b' obtain r where r: "r \<in> set (broadcasts db)" "b' = (if b_id r = b_id b then start_broadcast now r else r)"
      by (auto simp: db' set_update_where)
    have "b_id r = b_id b \<Longrightarrow> r = b" using distinct_key_unique [OF assms(1) r(1) b(1)] by simp
    with r b(2) show ?thesis by (auto simp: start_broadcast_def Let_def claimable_broadcast_def)
  qed
  with b least db' show ?thesis
    by (intro bexI [of _ b]) (auto simp: claimable_broadcast_def MAX_BROADCAST_ATTEMPTS_def)
qed

end
