(* ===== verification/Broadcast_Protocol.thy ===== *)
theory Broadcast_Protocol
  imports Broadcast_Total
begin

text \<open>
  Several workers at once. The recurrent-events service may run twice for a while (a rolling deploy), so
  the transactions of two ticks interleave. \<open>bstep\<close> takes one transaction, one delivered batch or one
  crash of one worker at a time; \<open>p_log\<close> is the sequence of all \<open>send_message_to_user\<close> calls made.
  Every step calls the operations of \<^verbatim>\<open>claiming.py\<close>, \<^verbatim>\<open>delivery.py\<close>, \<^verbatim>\<open>recording.py\<close> and
  \<^verbatim>\<open>finalize.py\<close> as modelled in the theories before; the order of the steps of one worker is the one of
  \<^verbatim>\<open>runner.py\<close>.

  Telegram's answer is a function of the pending delivery, i.e. of the row and the attempt: since no
  pair of the two is ever called twice (\<open>calls_at_most_once\<close>) it can be any sequence of answers.
\<close>

section \<open>Workers\<close>

datatype phase =
    Idle
  | Claimed int
  | Draining int "(string \<times> string) list"
  | Delivering int "(string \<times> string) list" "pending_delivery list"
  | Recording int "(string \<times> string) list" "pending_delivery list" "pending_delivery list" batch_result
  | Drained int
  | Finalizing int broadcast_status
  | Purging int

record pstate =
  p_db :: bdb
  p_workers :: "nat \<Rightarrow> phase"
  p_log :: "pending_delivery list"

datatype bevent =
    Claim_Broadcast nat
  | Materialize nat
  | Claim_Batch nat
  | Deliver nat
  | Record nat
  | Defer nat
  | Start_Finalize nat
  | Finalize nat
  | Purge nat
  | Crash nat
  | Users_Change

definition become :: "nat \<Rightarrow> phase \<Rightarrow> bdb \<Rightarrow> pstate \<Rightarrow> pstate" where
  "become k ph db s = s\<lparr>p_db := db, p_workers := (p_workers s)(k := ph)\<rparr>"

text \<open>An exception ends the tick (the worker is idle until the next one); a crash can also cut a batch
  short after any number of its calls.\<close>

inductive bstep ::
    "(string \<Rightarrow> string \<Rightarrow> 'view) \<Rightarrow> sender \<Rightarrow> (pending_delivery \<Rightarrow> instant) \<Rightarrow> pstate \<Rightarrow> bevent \<Rightarrow> pstate \<Rightarrow> bool"
  for view :: "string \<Rightarrow> string \<Rightarrow> 'view" and send :: sender and clock :: "pending_delivery \<Rightarrow> instant" where
  claim_nothing:
    "p_workers s k = Idle \<Longrightarrow> claim_next_broadcast locked now (p_db s) = (db', None) \<Longrightarrow>
     bstep view send clock s (Claim_Broadcast k) (become k Idle db' s)"
| claim_something:
    "p_workers s k = Idle \<Longrightarrow> claim_next_broadcast locked now (p_db s) = (db', Some c) \<Longrightarrow>
     bstep view send clock s (Claim_Broadcast k)
       (become k (if terminal_failure c then Finalizing (c_broadcast_id c) broadcast_status.FAILED
                  else Claimed (c_broadcast_id c)) db' s)"
| materialize:
    "p_workers s k = Claimed bid \<Longrightarrow> bodies = load_broadcast_bodies bid (p_db s) \<Longrightarrow>
     materialize_audience bid (map fst bodies) (p_db s) = Inr (db', n) \<Longrightarrow>
     bstep view send clock s (Materialize k) (become k (Draining bid bodies) db' s)"
| claim_batch:
    "p_workers s k = Draining bid bodies \<Longrightarrow>
     claim_pending_batch locked now bid (p_db s) = Inr (db', batch) \<Longrightarrow>
     bstep view send clock s (Claim_Batch k)
       (become k (if batch = [] then Drained bid else Delivering bid bodies batch) db' s)"
| deliver:
    "p_workers s k = Delivering bid bodies batch \<Longrightarrow>
     deliver_batch send clock (build_recipient_views view bodies) batch = (calls, r) \<Longrightarrow>
     bstep view send clock s (Deliver k)
       (become k (case r of Inl e \<Rightarrow> Idle | Inr res \<Rightarrow> Recording bid bodies batch calls res) (p_db s)
          (s\<lparr>p_log := p_log s @ calls\<rparr>))"
| record_batch:
    "p_workers s k = Recording bid bodies batch calls res \<Longrightarrow>
     record_batch_outcomes now res (p_db s) = Inr (db', n) \<Longrightarrow>
     bstep view send clock s (Record k)
       (become k (if flood_control res then Drained bid else Draining bid bodies) db' s)"
| defer_run:
    "p_workers s k = Drained bid \<Longrightarrow> defer_for_pending_retries bid (p_db s) = (db', True) \<Longrightarrow>
     bstep view send clock s (Defer k) (become k Idle db' s)"
| start_finalize:
    "p_workers s k = Drained bid \<Longrightarrow> defer_for_pending_retries bid (p_db s) = (db', False) \<Longrightarrow>
     bstep view send clock s (Start_Finalize k) (become k (Finalizing bid DONE) db' s)"
| finalize_step:
    "p_workers s k = Finalizing bid st \<Longrightarrow>
     finalize_broadcast now bid st (p_db s) = Inr (db', summary, won, n) \<Longrightarrow>
     bstep view send clock s (Finalize k) (become k (Purging bid) db' s)"
| purge:
    "p_workers s k = Purging bid \<Longrightarrow>
     bstep view send clock s (Purge k) (become k Idle (purge_deliveries bid (p_db s)) s)"
| crash_delivering:
    "p_workers s k = Delivering bid bodies batch \<Longrightarrow>
     deliver_batch send clock (build_recipient_views view bodies) batch = (calls, r) \<Longrightarrow>
     bstep view send clock s (Crash k) (become k Idle (p_db s) (s\<lparr>p_log := p_log s @ take n calls\<rparr>))"
| crash:
    "\<not> (\<exists>bid bodies batch. p_workers s k = Delivering bid bodies batch) \<Longrightarrow>
     bstep view send clock s (Crash k) (become k Idle (p_db s) s)"
| users_change:
    "bstep view send clock s Users_Change (s\<lparr>p_db := (p_db s)\<lparr>users := us\<rparr>\<rparr>)"

section \<open>The invariant\<close>

text \<open>What a worker holds: the rows of its batch; those it has not called yet; those it has.\<close>

fun held :: "phase \<Rightarrow> pending_delivery list" where
  "held (Delivering bid bodies batch) = batch"
| "held (Recording bid bodies batch calls res) = batch"
| "held _ = []"

fun owed :: "phase \<Rightarrow> pending_delivery list" where
  "owed (Delivering bid bodies batch) = batch"
| "owed (Recording bid bodies batch calls res) = unattempted res"
| "owed _ = []"

fun called :: "phase \<Rightarrow> pending_delivery list" where
  "called (Recording bid bodies batch calls res) = calls"
| "called _ = []"

abbreviation held_ids :: "phase \<Rightarrow> int set" where
  "held_ids ph \<equiv> pd_delivery_id ` set (held ph)"

definition attempt_key :: "pending_delivery \<Rightarrow> int \<times> int" where
  "attempt_key p = (pd_delivery_id p, pd_attempt_count p)"

fun recording_ok ::
    "(string \<Rightarrow> string \<Rightarrow> 'view) \<Rightarrow> sender \<Rightarrow> (pending_delivery \<Rightarrow> instant) \<Rightarrow> phase \<Rightarrow> bool" where
  "recording_ok view send clock (Recording bid bodies batch calls res) \<longleftrightarrow>
     deliver_batch send clock (build_recipient_views view bodies) batch = (calls, Inr res)"
| "recording_ok view send clock _ \<longleftrightarrow> True"

text \<open>Once a call was answered with \<open>Delivered\<close>, no later call is to the same row.\<close>

fun delivered_last :: "sender \<Rightarrow> pending_delivery list \<Rightarrow> bool" where
  "delivered_last send [] \<longleftrightarrow> True"
| "delivered_last send (q # log) \<longleftrightarrow>
     (send q = Delivered \<longrightarrow> pd_delivery_id q \<notin> pd_delivery_id ` set log) \<and> delivered_last send log"

definition attempt_in_range :: "pending_delivery \<Rightarrow> bool" where
  "attempt_in_range p \<longleftrightarrow> 1 \<le> pd_attempt_count p \<and> pd_attempt_count p \<le> MAX_DELIVERY_ATTEMPTS"

text \<open>The table against the log, the log itself, the workers against the table, the workers against
  the log.\<close>

definition table_log_ok :: "sender \<Rightarrow> bdb \<Rightarrow> pending_delivery list \<Rightarrow> bool" where
  "table_log_ok send db log \<longleftrightarrow>
     (\<forall>q \<in> set log. pd_delivery_id q < next_delivery_id db \<and>
        (\<forall>d \<in> set (deliveries db). d_id d = pd_delivery_id q \<longrightarrow>
           pd_attempt_count q \<le> attempt_count d \<and> (send q = Delivered \<longrightarrow> \<not> unfinished d)))"

definition log_ok :: "sender \<Rightarrow> pending_delivery list \<Rightarrow> bool" where
  "log_ok send log \<longleftrightarrow>
     distinct (map attempt_key log) \<and> (\<forall>q \<in> set log. attempt_in_range q) \<and> delivered_last send log"

definition worker_ok ::
    "(string \<Rightarrow> string \<Rightarrow> 'view) \<Rightarrow> sender \<Rightarrow> (pending_delivery \<Rightarrow> instant) \<Rightarrow> bdb \<Rightarrow> pending_delivery list \<Rightarrow>
     phase \<Rightarrow> bool" where
  "worker_ok view send clock db log ph \<longleftrightarrow>
     recording_ok view send clock ph \<and>
     batch_matches (deliveries db) (held ph) \<and>
     (\<forall>p \<in> set (held ph). pd_delivery_id p < next_delivery_id db \<and> attempt_in_range p) \<and>
     (\<forall>p \<in> set (owed ph). \<forall>q \<in> set log. pd_delivery_id q = pd_delivery_id p \<longrightarrow>
        pd_attempt_count q < pd_attempt_count p \<and> send q \<noteq> Delivered) \<and>
     (\<forall>p \<in> set (called ph). \<forall>q \<in> set log. pd_delivery_id q = pd_delivery_id p \<and> send q = Delivered \<longrightarrow> q = p)"

definition proto_ok ::
    "(string \<Rightarrow> string \<Rightarrow> 'view) \<Rightarrow> sender \<Rightarrow> (pending_delivery \<Rightarrow> instant) \<Rightarrow> pstate \<Rightarrow> bool" where
  "proto_ok view send clock s \<longleftrightarrow>
     table_ok (p_db s) \<and> table_log_ok send (p_db s) (p_log s) \<and> log_ok send (p_log s) \<and>
     (\<forall>k. worker_ok view send clock (p_db s) (p_log s) (p_workers s k)) \<and>
     (\<forall>j k. j \<noteq> k \<longrightarrow> held_ids (p_workers s j) \<inter> held_ids (p_workers s k) = {})"


section \<open>Changes of the table that leave the workers alone\<close>

text \<open>Rows appear with fresh ids, disappear, or stop being claimable; a row nobody can claim stays.\<close>

definition rows_frame :: "bdb \<Rightarrow> bdb \<Rightarrow> bool" where
  "rows_frame db db' \<longleftrightarrow> next_delivery_id db \<le> next_delivery_id db' \<and>
     (\<forall>d' \<in> set (deliveries db'). next_delivery_id db \<le> d_id d' \<or>
        (\<exists>d \<in> set (deliveries db). d_id d' = d_id d \<and>
           (d' = d \<or> unfinished d \<and> \<not> unfinished d' \<and> attempt_count d \<le> attempt_count d')))"

lemma rows_frame_same:
  "deliveries db' = deliveries db \<Longrightarrow> next_delivery_id db' = next_delivery_id db \<Longrightarrow> rows_frame db db'"
  by (auto simp: rows_frame_def)

lemma rows_frame_subset:
  "set (deliveries db') \<subseteq> set (deliveries db) \<Longrightarrow> next_delivery_id db' = next_delivery_id db \<Longrightarrow> rows_frame db db'"
  by (auto simp: rows_frame_def)

lemma rows_frame_map:
  assumes rows: "deliveries db' = map f (deliveries db)" and "next_delivery_id db' = next_delivery_id db"
    and f: "\<And>d. d \<in> set (deliveries db) \<Longrightarrow> d_id (f d) = d_id d \<and>
      (f d = d \<or> unfinished d \<and> \<not> unfinished (f d) \<and> attempt_count d \<le> attempt_count (f d))"
  shows "rows_frame db db'"
proof -
  have "\<exists>d \<in> set (deliveries db). d_id d' = d_id d \<and>
      (d' = d \<or> unfinished d \<and> \<not> unfinished d' \<and> attempt_count d \<le> attempt_count d')"
    if "d' \<in> set (deliveries db')" for d'
  proof -
    from that obtain d where "d \<in> set (deliveries db)" "d' = f d" by (auto simp: rows)
    with f [of d] show ?thesis by (intro bexI [of _ d]) auto
  qed
  with assms(2) show ?thesis unfolding rows_frame_def by simp
qed

lemma frame_table_log:
  assumes "rows_frame db db'" and "table_log_ok send db log"
  shows "table_log_ok send db' log"
  unfolding table_log_ok_def
proof (intro ballI conjI impI)
  fix q assume q: "q \<in> set log"
  with assms(2) have old: "pd_delivery_id q < next_delivery_id db" by (simp add: table_log_ok_def)
  with assms(1) show "pd_delivery_id q < next_delivery_id db'" by (simp add: rows_frame_def)
  fix d' assume d': "d' \<in> set (deliveries db')" "d_id d' = pd_delivery_id q"
  with assms(1) old obtain d where d: "d \<in> set (deliveries db)" "d_id d' = d_id d"
    and kept: "d' = d \<or> unfinished d \<and> \<not> unfinished d' \<and> attempt_count d \<le> attempt_count d'"
    by (force simp: rows_frame_def)
  with assms(2) q d'(2) have "pd_attempt_count q \<le> attempt_count d" "send q = Delivered \<longrightarrow> \<not> unfinished d"
    by (auto simp: table_log_ok_def)
  with kept show "pd_attempt_count q \<le> attempt_count d'" "send q = Delivered \<Longrightarrow> \<not> unfinished d'" by auto
qed

lemma frame_batch:
  assumes "rows_frame db db'" and "batch_matches (deliveries db) batch"
    and "\<forall>p \<in> set batch. pd_delivery_id p < next_delivery_id db"
  shows "batch_matches (deliveries db') batch"
  unfolding batch_matches_def
proof (rule conjI, use assms(2) in \<open>simp add: batch_matches_def\<close>, intro ballI impI)
  fix p d' assume p: "p \<in> set batch" and d': "d' \<in> set (deliveries db')" "d_id d' = pd_delivery_id p"
  from p assms(3) have "\<not> next_delivery_id db \<le> d_id d'" unfolding d'(2) by fastforce
  with assms(1) d'(1) obtain d where d: "d \<in> set (deliveries db)" "d_id d' = d_id d" and kept: "d' = d \<or> unfinished d"
    unfolding rows_frame_def by blast
  from d p d'(2) assms(2) have "d_status d = IN_PROGRESS \<and> attempt_count d = pd_attempt_count p \<and>
      d_user_id d = u_id (pd_user p) \<and> language_sent d = pd_language_sent p" by (auto simp: batch_matches_def)
  with kept show "d_status d' = IN_PROGRESS \<and> attempt_count d' = pd_attempt_count p \<and>
      d_user_id d' = u_id (pd_user p) \<and> language_sent d' = pd_language_sent p"
    by (auto simp: unfinished_def)
qed

lemma frame_worker:
  assumes frame: "rows_frame db db'" and ok: "worker_ok view send clock db log ph"
  shows "worker_ok view send clock db' log ph"
proof -
  have "batch_matches (deliveries db') (held ph)"
    using ok by (intro frame_batch [OF frame]) (auto simp: worker_ok_def)
  moreover have "next_delivery_id db \<le> next_delivery_id db'" using frame by (simp add: rows_frame_def)
  ultimately show ?thesis using ok by (auto simp: worker_ok_def)
qed

lemma worker_ok_free:
  "held ph = [] \<Longrightarrow> owed ph = [] \<Longrightarrow> called ph = [] \<Longrightarrow> recording_ok view send clock ph \<Longrightarrow>
     worker_ok view send clock db log ph"
  by (simp add: worker_ok_def batch_matches_def)

lemma disjoint_update:
  assumes "\<forall>i j. i \<noteq> j \<longrightarrow> A (f i) \<inter> A (f j) = {}" and "\<forall>j. j \<noteq> k \<longrightarrow> A (f j) \<inter> A x = {}"
  shows "\<forall>i j. i \<noteq> j \<longrightarrow> A ((f(k := x)) i) \<inter> A ((f(k := x)) j) = {}"
  using assms by (simp add: Int_commute)

text \<open>A step of worker \<open>k\<close> that writes the table within the frame keeps the invariant, if its own next
  phase does.\<close>

lemma proto_become:
  assumes ok: "proto_ok view send clock s" and table: "table_ok db" and frame: "rows_frame (p_db s) db"
    and mine: "worker_ok view send clock db (p_log s) ph"
    and disj: "\<forall>j. j \<noteq> k \<longrightarrow> held_ids (p_workers s j) \<inter> held_ids ph = {}"
  shows "proto_ok view send clock (become k ph db s)"
proof -
  have "table_log_ok send db (p_log s)" using frame_table_log [OF frame] ok by (simp add: proto_ok_def)
  moreover have "worker_ok view send clock db (p_log s) (((p_workers s)(k := ph)) j)" for j
    using frame_worker [OF frame, of view send clock "p_log s" "p_workers s j"] ok mine by (simp add: proto_ok_def)
  moreover have "\<forall>i j. i \<noteq> j \<longrightarrow> held_ids (((p_workers s)(k := ph)) i) \<inter> held_ids (((p_workers s)(k := ph)) j) = {}"
    using ok disj by (intro disjoint_update) (auto simp: proto_ok_def)
  ultimately show ?thesis using ok table unfolding proto_ok_def become_def by simp
qed

lemma proto_free:
  assumes "proto_ok view send clock s" and "table_ok db" and "rows_frame (p_db s) db"
    and "held ph = []" and "owed ph = []" and "called ph = []" and "recording_ok view send clock ph"
  shows "proto_ok view send clock (become k ph db s)"
  using assms by (intro proto_become) (auto intro: worker_ok_free)

section \<open>Each step keeps the invariant\<close>

lemma claim_next_frame:
  assumes "claim_next_broadcast locked now db = (db', c)"
  shows "deliveries db' = deliveries db \<and> next_delivery_id db' = next_delivery_id db"
  using assms by (auto simp: claim_next_broadcast_def Let_def split: list.splits)

lemma table_ok_cong:
  "deliveries db' = deliveries db \<Longrightarrow> next_delivery_id db' = next_delivery_id db \<Longrightarrow> table_ok db \<Longrightarrow> table_ok db'"
  by (simp add: table_ok_def ids_distinct_def)

lemma insert_fold_frame_rows:
  "rows_frame db (fold (insert_delivery bid langs) us db)"
proof -
  have "next_delivery_id db \<le> next_delivery_id (fold (insert_delivery bid langs) us db) \<and>
    (\<forall>d \<in> set (deliveries (fold (insert_delivery bid langs) us db)). next_delivery_id db \<le> d_id d \<or> d \<in> set (deliveries db))"
  proof (induction us arbitrary: db)
    case (Cons u us)
    have "next_delivery_id (insert_delivery bid langs u db) = next_delivery_id db + 1"
      and "\<forall>d \<in> set (deliveries (insert_delivery bid langs u db)). d_id d = next_delivery_id db \<or> d \<in> set (deliveries db)"
      by (auto simp: insert_delivery_def Let_def)
    with Cons [of "insert_delivery bid langs u db"] show ?case by fastforce
  qed simp
  then show ?thesis by (auto simp: rows_frame_def)
qed

lemma materialize_frame:
  assumes "materialize_audience bid langs db = Inr (db', n)"
  shows "rows_frame db db'"
proof (cases "count_deliveries bid db = 0")
  case False
  with assms have "db' = db" by (simp add: materialize_audience_def Let_def)
  then show ?thesis by (simp add: rows_frame_same)
next
  case True
  with assms have "deliveries db' = deliveries (fold (insert_delivery bid langs) (filter in_audience (users db)) db)"
    "next_delivery_id db' = next_delivery_id (fold (insert_delivery bid langs) (filter in_audience (users db)) db)"
    by (auto simp: materialize_audience_def Let_def split: option.splits)
  then show ?thesis
    using insert_fold_frame_rows [of db bid langs "filter in_audience (users db)"] by (simp add: rows_frame_def)
qed


lemma finalize_frame:
  assumes "finalize_broadcast now bid st db = Inr (db', summary, won, n)"
  shows "deliveries db' = deliveries (fst (fail_unattempted_deliveries bid db)) \<and>
    next_delivery_id db' = next_delivery_id db"
  using assms
  by (auto simp: finalize_broadcast_def Let_def fail_unattempted_deliveries_def transition_to_terminal_def
      split: option.splits prod.splits)

lemma fail_frame: "rows_frame db (fst (fail_unattempted_deliveries bid db))"
  by (auto simp: rows_frame_def fail_unattempted_deliveries_def update_where_def unfinished_def)

lemma claim_rows_frame:
  assumes "ids_distinct db"
  shows "rows_frame db (db\<lparr>deliveries := claim_rows (set (claim_ids locked now bid (deliveries db))) (deliveries db)\<rparr>)"
proof -
  have "unfinished d" if "d \<in> set (deliveries db)" "d_id d \<in> set (claim_ids locked now bid (deliveries db))" for d
    using claim_ids_due [of "deliveries db" d locked now bid] that assms due_unfinished by (auto simp: ids_distinct_def)
  moreover have "\<not> unfinished (claim_row d)" for d by (simp add: unfinished_def)
  ultimately show ?thesis
    by (intro rows_frame_map [where f = "\<lambda>d. if d_id d \<in> set (claim_ids locked now bid (deliveries db)) then claim_row d else d"])
       (auto simp: claim_rows_def)
qed

lemma claim_rows_table_ok:
  assumes "table_ok db"
  shows "table_ok (db\<lparr>deliveries := claim_rows (set (claim_ids locked now bid (deliveries db))) (deliveries db)\<rparr>)"
  using claim_rows_ok [OF assms, of "\<lparr>w_send = undefined, w_clock = undefined, w_locks = \<lambda>_. locked,
      w_now_claim = \<lambda>_. now, w_now_record = undefined, w_now_finalize = undefined, w_dm_ok = undefined\<rparr>" bid 0]
  by (simp add: claimed_ids_def)

text \<open>A fresh claim: its rows were claimable, so nobody else holds them and no delivered call was made.\<close>

lemma proto_claim_batch:
  assumes ok: "proto_ok view send clock s"
    and claim: "claim_pending_batch locked now bid (p_db s) = Inr (db', batch)"
    and ph: "ph = (if batch = [] then Drained bid else Delivering bid bodies batch)"
  shows "proto_ok view send clock (become k ph db' s)"
proof -
  let ?db = "p_db s"
  have table: "table_ok ?db" and tlog: "table_log_ok send ?db (p_log s)" using ok by (simp_all add: proto_ok_def)
  note rows = claim_pending_batch_rows [OF table_ok_ids [OF table] claim]
  let ?ids = "set (claim_ids locked now bid (deliveries ?db))"
  have db': "db' = ?db\<lparr>deliveries := claim_rows ?ids (deliveries ?db)\<rparr>"
    by (rule bdb.equality) (simp_all add: rows(1-4) claim_rows_def)
  have claimed: "\<exists>d \<in> set (deliveries ?db). d_id d = pd_delivery_id p \<and> unfinished d \<and> row_ok d \<and>
      attempt_count d + 1 = pd_attempt_count p" if p: "p \<in> set batch" for p
  proof -
    from p rows(5) have in_ids: "pd_delivery_id p \<in> ?ids" by auto
    then obtain d where d: "d \<in> set (deliveries ?db)" "d_id d = pd_delivery_id p"
      using set_take_subset [of BROADCAST_BATCH_SIZE] by (fastforce simp: claim_ids_def)
    have "due now bid d" using claim_ids_due [of "deliveries ?db" d] d in_ids table by (simp add: table_ok_def ids_distinct_def)
    moreover have "claim_row d \<in> set (deliveries db')" using d in_ids by (auto simp: db' claim_rows_def)
    then have "attempt_count (claim_row d) = pd_attempt_count p"
      using rows(6) p d(2) unfolding batch_matches_def by (metis claim_row_simps(1))
    moreover have "row_ok d" using d(1) table by (simp add: table_ok_def)
    ultimately show ?thesis using d due_unfinished by auto
  qed
  have range: "pd_delivery_id p < next_delivery_id db' \<and> attempt_in_range p" if p: "p \<in> set batch" for p
  proof -
    from claimed [OF p] obtain d where d: "d \<in> set (deliveries ?db)" "d_id d = pd_delivery_id p" "unfinished d"
      "row_ok d" "attempt_count d + 1 = pd_attempt_count p" by blast
    then have "0 \<le> attempt_count d \<and> attempt_count d < MAX_DELIVERY_ATTEMPTS"
      by (auto simp: row_ok_def unfinished_def MAX_DELIVERY_ATTEMPTS_def)
    with d table show ?thesis by (auto simp: attempt_in_range_def rows(4) table_ok_def)
  qed
  have unlogged: "pd_attempt_count q < pd_attempt_count p \<and> send q \<noteq> Delivered"
    if "p \<in> set batch" "q \<in> set (p_log s)" "pd_delivery_id q = pd_delivery_id p" for p q
    using claimed [OF that(1)] tlog that(2,3) by (fastforce simp: table_log_ok_def)
  have others: "held_ids (p_workers s j) \<inter> pd_delivery_id ` set batch = {}" for j
  proof (rule ccontr)
    assume "\<not> ?thesis"
    then obtain p p' where p: "p \<in> set batch" and p': "p' \<in> set (held (p_workers s j))" "pd_delivery_id p' = pd_delivery_id p"
      by auto
    from claimed [OF p] obtain d where d: "d \<in> set (deliveries ?db)" "d_id d = pd_delivery_id p" "unfinished d" by blast
    from ok p' d have "d_status d = IN_PROGRESS" unfolding proto_ok_def worker_ok_def batch_matches_def by metis
    with d(3) show False by (simp add: unfinished_def)
  qed
  have "worker_ok view send clock db' (p_log s) ph"
    using rows(6) range unlogged by (cases "batch = []") (auto simp: ph worker_ok_def batch_matches_def)
  with ok others table show ?thesis
    using claim_rows_table_ok [OF table, of locked now bid] claim_rows_frame [OF table_ok_ids [OF table], of locked now bid]
    by (intro proto_become) (auto simp: db' ph)
qed


text \<open>Calling some of the rows a worker owes: the log grows by calls no one else could make.\<close>

lemma delivered_last_append:
  "delivered_last send (log @ calls) \<longleftrightarrow>
     delivered_last send log \<and> delivered_last send calls \<and>
     (\<forall>q \<in> set log. send q = Delivered \<longrightarrow> pd_delivery_id q \<notin> pd_delivery_id ` set calls)"
  by (induction log) auto

lemma delivered_last_distinct: "distinct (map pd_delivery_id calls) \<Longrightarrow> delivered_last send calls"
  by (induction calls) auto

lemma distinct_ids_inj:
  "distinct (map pd_delivery_id batch) \<Longrightarrow> p \<in> set batch \<Longrightarrow> q \<in> set batch \<Longrightarrow>
     pd_delivery_id p = pd_delivery_id q \<Longrightarrow> p = q"
  by (rule distinct_key_unique)

lemma owed_called_held:
  "recording_ok view send clock ph \<Longrightarrow> set (owed ph) \<subseteq> set (held ph) \<and> set (called ph) \<subseteq> set (held ph)"
  by (cases ph) (auto dest: deliver_batch_Inr)

lemma proto_call:
  assumes ok: "proto_ok view send clock s" and ph: "p_workers s k = Delivering bid bodies batch"
    and batch: "batch = calls @ rest"
    and next_phase: "ph' = Idle \<or> (\<exists>res. ph' = Recording bid bodies batch calls res \<and> unattempted res = rest \<and>
      deliver_batch send clock (build_recipient_views view bodies) batch = (calls, Inr res))"
  shows "proto_ok view send clock (become k ph' (p_db s) (s\<lparr>p_log := p_log s @ calls\<rparr>))"
proof -
  let ?db = "p_db s" and ?log = "p_log s"
  have mine: "worker_ok view send clock ?db ?log (Delivering bid bodies batch)"
    using ok unfolding proto_ok_def by (metis ph)
  have dist: "distinct (map pd_delivery_id batch)"
    and range: "\<forall>p \<in> set batch. pd_delivery_id p < next_delivery_id ?db \<and> attempt_in_range p"
    and fresh: "\<forall>p \<in> set batch. \<forall>q \<in> set ?log. pd_delivery_id q = pd_delivery_id p \<longrightarrow>
        pd_attempt_count q < pd_attempt_count p \<and> send q \<noteq> Delivered"
    and match: "\<forall>p \<in> set batch. \<forall>d \<in> set (deliveries ?db). d_id d = pd_delivery_id p \<longrightarrow>
        d_status d = IN_PROGRESS \<and> attempt_count d = pd_attempt_count p"
    using mine by (auto simp: worker_ok_def batch_matches_def)
  have calls: "set calls \<subseteq> set batch" "distinct (map pd_delivery_id calls)"
    and apart: "pd_delivery_id ` set calls \<inter> pd_delivery_id ` set rest = {}"
    using dist batch by auto
  have "distinct (map attempt_key calls)"
    using calls(2) by (auto simp: distinct_map inj_on_def attempt_key_def)
  moreover have "attempt_key q \<noteq> attempt_key p" if "q \<in> set ?log" "p \<in> set calls" for p q
    using fresh that calls(1) unfolding attempt_key_def by fastforce
  then have "attempt_key ` set ?log \<inter> attempt_key ` set calls = {}" by blast
  ultimately have "distinct (map attempt_key (?log @ calls))"
    using ok by (simp add: proto_ok_def log_ok_def)
  moreover have "delivered_last send (?log @ calls)"
    unfolding delivered_last_append
    using ok fresh calls delivered_last_distinct [OF calls(2)] by (fastforce simp: proto_ok_def log_ok_def)
  ultimately have log: "log_ok send (?log @ calls)"
    using ok range calls(1) by (auto simp: proto_ok_def log_ok_def)
  have tlog: "table_log_ok send ?db (?log @ calls)"
    using ok match range calls(1) unfolding proto_ok_def table_log_ok_def
    by (auto simp: unfinished_def)
  have others: "worker_ok view send clock ?db (?log @ calls) (p_workers s j)" if "j \<noteq> k" for j
  proof -
    have "recording_ok view send clock (p_workers s j)" using ok by (simp add: proto_ok_def worker_ok_def)
    then have "pd_delivery_id ` set (owed (p_workers s j)) \<subseteq> held_ids (p_workers s j)"
      and "pd_delivery_id ` set (called (p_workers s j)) \<subseteq> held_ids (p_workers s j)"
      by (blast dest: owed_called_held)+
    moreover have "held_ids (p_workers s j) \<inter> held_ids (p_workers s k) = {}"
      using ok that by (simp add: proto_ok_def)
    then have "held_ids (p_workers s j) \<inter> pd_delivery_id ` set calls = {}"
      using calls(1) unfolding ph held.simps by blast
    moreover have "worker_ok view send clock ?db ?log (p_workers s j)" using ok by (simp add: proto_ok_def)
    ultimately show ?thesis unfolding worker_ok_def set_append by (blast intro: rev_image_eqI)
  qed
  have me: "worker_ok view send clock ?db (?log @ calls) ph'"
    using next_phase
  proof (elim disjE exE conjE)
    assume "ph' = Idle"
    then show ?thesis by (simp add: worker_ok_free)
  next
    fix res assume res: "ph' = Recording bid bodies batch calls res" "unattempted res = rest"
      "deliver_batch send clock (build_recipient_views view bodies) batch = (calls, Inr res)"
    have "set rest \<subseteq> set batch" using batch by auto
    then have "\<forall>p \<in> set rest. \<forall>q \<in> set (?log @ calls). pd_delivery_id q = pd_delivery_id p \<longrightarrow>
        pd_attempt_count q < pd_attempt_count p \<and> send q \<noteq> Delivered"
      using fresh apart by (auto simp: image_iff)
    moreover have "\<forall>p \<in> set calls. \<forall>q \<in> set (?log @ calls). pd_delivery_id q = pd_delivery_id p \<and> send q = Delivered \<longrightarrow> q = p"
      using fresh calls distinct_ids_inj [OF dist] by auto blast+
    ultimately show ?thesis using mine res by (simp add: worker_ok_def)
  qed
  have "held_ids ph' \<subseteq> held_ids (p_workers s k)" using next_phase ph by auto
  then have "\<forall>j. j \<noteq> k \<longrightarrow> held_ids (p_workers s j) \<inter> held_ids ph' = {}"
    using ok unfolding proto_ok_def by blast
  then have "\<forall>i j. i \<noteq> j \<longrightarrow> held_ids (((p_workers s)(k := ph')) i) \<inter> held_ids (((p_workers s)(k := ph')) j) = {}"
    using ok by (intro disjoint_update) (auto simp: proto_ok_def)
  moreover have "worker_ok view send clock ?db (?log @ calls) (((p_workers s)(k := ph')) j)" for j
    using others me by simp
  ultimately show ?thesis using ok tlog log unfolding proto_ok_def become_def by simp
qed


text \<open>Recording a batch: a row whose call was delivered becomes SENT, an untried one gets its attempt
  back, the rows of the others are not touched.\<close>

lemma proto_record:
  assumes ok: "proto_ok view send clock s" and ph: "p_workers s k = Recording bid bodies batch calls res"
    and rec: "record_batch_outcomes now res (p_db s) = Inr (db', n)"
    and ph': "held ph' = []" "owed ph' = []" "called ph' = []" "recording_ok view send clock ph'"
  shows "proto_ok view send clock (become k ph' db' s)"
proof -
  let ?db = "p_db s" and ?log = "p_log s"
  have mine: "worker_ok view send clock ?db ?log (Recording bid bodies batch calls res)"
    using ok unfolding proto_ok_def by (metis ph)
  have del: "deliver_batch send clock (build_recipient_views view bodies) batch = (calls, Inr res)"
    and match: "batch_matches (deliveries ?db) batch"
    using mine by (simp_all add: worker_ok_def)
  have dist: "distinct (map pd_delivery_id batch)" using match by (simp add: batch_matches_def)
  note shape = deliver_batch_Inr [OF del]
  have "distinct (map pd_delivery_id calls)" using dist shape by (metis distinct_append map_append)
  then have "distinct (map o_delivery_id (outcomes res))"
    using outcome_ids [of send clock calls "outcomes res"] shape by simp
  from record_batch_outcomes_rows [OF this rec]
  have rows: "deliveries db' = map (recorded_row now res) (deliveries ?db)"
    and next_id: "next_delivery_id db' = next_delivery_id ?db" by simp_all
  have "table_ok ((p_db s)\<lparr>deliveries := map (recorded_row now res) (deliveries ?db), users := users db'\<rparr>)"
    using recorded_rows_ok [OF _ match del] ok by (simp add: proto_ok_def)
  then have table: "table_ok db'"
    by (rule table_ok_cong [rotated 2]) (simp_all add: rows next_id)
  have tlog: "table_log_ok send db' ?log"
    unfolding table_log_ok_def
  proof (intro ballI conjI impI)
    fix q assume q: "q \<in> set ?log"
    have tl: "table_log_ok send ?db ?log" using ok by (simp add: proto_ok_def)
    from q tl show "pd_delivery_id q < next_delivery_id db'" by (simp add: table_log_ok_def next_id)
    fix d' assume d': "d' \<in> set (deliveries db')" "d_id d' = pd_delivery_id q"
    then obtain d where d: "d \<in> set (deliveries ?db)" "d_id d = pd_delivery_id q" "d' = recorded_row now res d"
      by (auto simp: rows)
    have old: "pd_attempt_count q \<le> attempt_count d" "send q = Delivered \<Longrightarrow> \<not> unfinished d"
      using tl q d(1,2) by (auto simp: table_log_ok_def)
    consider "d' = d"
      | p out where "p \<in> set calls" "d_id d = pd_delivery_id p" "outcome_of send clock p = Inr out"
          "d' = apply_outcome now out d"
      | p t where "p \<in> set (unattempted res)" "d_id d = pd_delivery_id p" "d' = release_row t d"
      using recorded_row_cases [OF del dist, of d now] d(3) by blast
    then have "pd_attempt_count q \<le> attempt_count d' \<and> (send q = Delivered \<longrightarrow> \<not> unfinished d')"
    proof cases
      case 1
      with old show ?thesis by simp
    next
      case (2 p out)
      have "send q = Delivered \<longrightarrow> q = p" using mine 2(1,2) q d(2) by (auto simp: worker_ok_def)
      with outcome_of_cases [OF 2(3)] have "send q = Delivered \<longrightarrow> o_status out = SENT" by auto
      then have "send q = Delivered \<longrightarrow> d_status d' = SENT" by (simp add: 2(4) apply_outcome_def)
      moreover have "attempt_count d' = attempt_count d" by (simp add: 2(4))
      ultimately show ?thesis using old(1) by (simp add: unfinished_def)
    next
      case (3 p t)
      then have strict: "pd_attempt_count q < pd_attempt_count p" "send q \<noteq> Delivered"
        using mine q d(2) by (auto simp: worker_ok_def)
      have "p \<in> set batch" using 3(1) shape by auto
      with match d(1) 3(2) have "attempt_count d = pd_attempt_count p" by (auto simp: batch_matches_def)
      with strict 3(3) show ?thesis by simp
    qed
    then show "pd_attempt_count q \<le> attempt_count d'" "send q = Delivered \<Longrightarrow> \<not> unfinished d'" by auto
  qed
  have others: "worker_ok view send clock db' ?log (p_workers s j)" if "j \<noteq> k" for j
  proof -
    have old: "worker_ok view send clock ?db ?log (p_workers s j)" using ok by (simp add: proto_ok_def)
    have apart: "held_ids (p_workers s j) \<inter> pd_delivery_id ` set batch = {}"
      using ok that ph unfolding proto_ok_def by (metis held.simps(2))
    have "recorded_row now res d = d" if "d_id d \<in> held_ids (p_workers s j)" for d
      using recorded_row_cases [OF del dist, of d now] that apart shape by auto
    then have "batch_matches (deliveries db') (held (p_workers s j))"
      using old unfolding worker_ok_def batch_matches_def rows by (auto simp: rev_image_eqI)
    with old next_id show ?thesis by (simp add: worker_ok_def)
  qed
  have "\<forall>i j. i \<noteq> j \<longrightarrow> held_ids (((p_workers s)(k := ph')) i) \<inter> held_ids (((p_workers s)(k := ph')) j) = {}"
    using ok ph'(1) by (intro disjoint_update) (auto simp: proto_ok_def)
  moreover have "worker_ok view send clock db' ?log (((p_workers s)(k := ph')) j)" for j
    using others worker_ok_free [OF ph', of db' ?log] by simp
  ultimately show ?thesis using ok table tlog unfolding proto_ok_def become_def by simp
qed


lemma bstep_ok:
  assumes "bstep view send clock s e t" and ok: "proto_ok view send clock s"
  shows "proto_ok view send clock t"
proof -
  have table: "table_ok (p_db s)" using ok by (simp add: proto_ok_def)
  have same: "table_ok db'" "rows_frame (p_db s) db'"
    if "deliveries db' = deliveries (p_db s) \<and> next_delivery_id db' = next_delivery_id (p_db s)" for db'
    using that table by (auto intro: table_ok_cong rows_frame_same)
  from assms(1) show ?thesis
  proof cases
    case (claim_nothing k locked now db')
    show ?thesis unfolding claim_nothing(2)
      by (rule proto_free [OF ok same [OF claim_next_frame [OF claim_nothing(4)]]]) simp_all
  next
    case (claim_something k locked now db' c)
    show ?thesis unfolding claim_something(2)
      by (rule proto_free [OF ok same [OF claim_next_frame [OF claim_something(4)]]]) simp_all
  next
    case (materialize k bid bodies db' n)
    show ?thesis unfolding materialize(2)
      by (rule proto_free [OF ok materialize_table_ok [OF materialize(5) table] materialize_frame [OF materialize(5)]]) simp_all
  next
    case (claim_batch k bid bodies locked now db' batch)
    show ?thesis unfolding claim_batch(2) by (rule proto_claim_batch [OF ok claim_batch(4) refl])
  next
    case (deliver k bid bodies batch calls r)
    show ?thesis
    proof (cases r)
      case (Inl e)
      from deliver_batch_prefix [OF deliver(4)] obtain rest where "batch = calls @ rest" ..
      from proto_call [OF ok deliver(3) this, of Idle] show ?thesis unfolding deliver(2) Inl by simp
    next
      case (Inr res)
      from deliver_batch_Inr [OF deliver(4) [unfolded Inr]] have "batch = calls @ unattempted res" by simp
      from proto_call [OF ok deliver(3) this, of "Recording bid bodies batch calls res"] deliver(4)
      show ?thesis unfolding deliver(2) Inr by simp
    qed
  next
    case (record_batch k bid bodies batch calls res now db' n)
    show ?thesis unfolding record_batch(2)
      by (rule proto_record [OF ok record_batch(3,4)]) simp_all
  next
    case (defer_run k bid db')
    then have "deliveries db' = deliveries (p_db s) \<and> next_delivery_id db' = next_delivery_id (p_db s)"
      by (auto simp: defer_for_pending_retries_def reset_broadcast_attempts_def split: if_splits)
    from proto_free [OF ok same [OF this], of Idle k] show ?thesis unfolding defer_run(2) by simp
  next
    case (start_finalize k bid db')
    then have "deliveries db' = deliveries (p_db s) \<and> next_delivery_id db' = next_delivery_id (p_db s)"
      by (auto simp: defer_for_pending_retries_def split: if_splits)
    from proto_free [OF ok same [OF this], of "Finalizing bid DONE" k] show ?thesis unfolding start_finalize(2) by simp
  next
    case (finalize_step k bid st now db' summary won n)
    note fin = finalize_frame [OF finalize_step(4)]
    have "next_delivery_id (fst (fail_unattempted_deliveries bid (p_db s))) = next_delivery_id (p_db s)"
      by (simp add: fail_unattempted_deliveries_def)
    with fin have "table_ok db'" and "rows_frame (p_db s) db'"
      using table_ok_cong [OF _ _ fail_table_ok [OF table, of bid], of db'] fail_frame [of "p_db s" bid]
      by (simp_all add: rows_frame_def)
    from proto_free [OF ok this, of "Purging bid" k] show ?thesis unfolding finalize_step(2) by simp
  next
    case (purge k bid)
    have "rows_frame (p_db s) (purge_deliveries bid (p_db s))"
      by (rule rows_frame_subset) (auto simp: purge_deliveries_def)
    from proto_free [OF ok purge_table_ok [OF table] this, of Idle k] show ?thesis unfolding purge(2) by simp
  next
    case (crash_delivering k bid bodies batch calls r n)
    from deliver_batch_prefix [OF crash_delivering(4)] obtain rest where "batch = calls @ rest" ..
    then have "batch = take n calls @ (drop n calls @ rest)" by simp
    from proto_call [OF ok crash_delivering(3) this, of Idle] show ?thesis unfolding crash_delivering(2) by simp
  next
    case (crash k)
    from proto_free [OF ok same [OF conjI [OF refl refl]], of Idle k] show ?thesis unfolding crash(2) by simp
  next
    case (users_change us)
    have same': "table_ok ((p_db s)\<lparr>users := us\<rparr>)" "rows_frame (p_db s) ((p_db s)\<lparr>users := us\<rparr>)"
      by (rule same, simp)+
    have "table_log_ok send (p_db s) (p_log s)" using ok by (simp add: proto_ok_def)
    note log' = frame_table_log [OF same'(2) this]
    have "worker_ok view send clock (p_db s) (p_log s) (p_workers s k)" for k using ok by (simp add: proto_ok_def)
    note worker' = frame_worker [OF same'(2) this]
    from log' worker' same'(1) ok show ?thesis unfolding users_change proto_ok_def by simp
  qed
qed

end
