(* ===== verification/Broadcast_Safety.thy ===== *)
theory Broadcast_Safety
  imports Broadcast_Protocol
begin

text \<open>
  What interleaved workers can and cannot do to a recipient: a delivery row is called at most once per
  attempt and at most three times, never again after a delivered call, and a settled row stays settled.
  The last section sets up a concrete run of two workers.
\<close>

section \<open>The protocol as an invariant system\<close>

definition settled :: "delivery \<Rightarrow> bool" where
  "settled d \<longleftrightarrow> d_status d \<in> {SENT, delivery_status.FAILED, SKIPPED_INACTIVE}"

text \<open>Between two states: ids are never reused, a row keeps its recipient and language, its attempts
  are only given back while it is in progress, and a settled row does not change at all.\<close>

definition rows_grow :: "bdb \<Rightarrow> bdb \<Rightarrow> bool" where
  "rows_grow db db' \<longleftrightarrow> next_delivery_id db \<le> next_delivery_id db' \<and>
     (\<forall>d' \<in> set (deliveries db'). d_id d' < next_delivery_id db \<longrightarrow>
        (\<exists>d \<in> set (deliveries db). d_id d = d_id d' \<and> (settled d \<longrightarrow> d' = d)))"

definition grows :: "pstate \<Rightarrow> pstate \<Rightarrow> bool" where
  "grows s t \<longleftrightarrow> rows_grow (p_db s) (p_db t) \<and> (\<exists>more. p_log t = p_log s @ more)"

lemma rows_frame_grow: "rows_frame db db' \<Longrightarrow> rows_grow db db'"
  unfolding rows_frame_def rows_grow_def settled_def unfinished_def by fastforce

lemma rows_grow_trans: "rows_grow a b \<Longrightarrow> rows_grow b c \<Longrightarrow> rows_grow a c"
  unfolding rows_grow_def by (metis order_trans order_less_le_trans)

lemma bstep_grows:
  assumes "bstep view send clock s e t" and ok: "proto_ok view send clock s"
  shows "grows s t"
proof -
  have table: "table_ok (p_db s)" using ok by (simp add: proto_ok_def)
  have same: "rows_grow (p_db s) db'"
    if "deliveries db' = deliveries (p_db s) \<and> next_delivery_id db' = next_delivery_id (p_db s)" for db'
    using that by (intro rows_frame_grow rows_frame_same) auto
  from assms(1) show ?thesis
  proof cases
    case (claim_nothing k locked now db')
    then show ?thesis using same [OF claim_next_frame] by (simp add: grows_def become_def)
  next
    case (claim_something k locked now db' c)
    then show ?thesis using same [OF claim_next_frame] by (simp add: grows_def become_def)
  next
    case (materialize k bid bodies db' n)
    then show ?thesis using rows_frame_grow [OF materialize_frame] by (simp add: grows_def become_def)
  next
    case (claim_batch k bid bodies locked now db' batch)
    note rows = claim_pending_batch_rows [OF table_ok_ids [OF table] claim_batch(4)]
    have "db' = (p_db s)\<lparr>deliveries := claim_rows (set (claim_ids locked now bid (deliveries (p_db s)))) (deliveries (p_db s))\<rparr>"
      by (rule bdb.equality) (simp_all add: rows(1-4) claim_rows_def)
    then have "rows_grow (p_db s) db'"
      using rows_frame_grow [OF claim_rows_frame [OF table_ok_ids [OF table], of locked now bid]] by simp
    with claim_batch show ?thesis by (simp add: grows_def become_def)
  next
    case (record_batch k bid bodies batch calls res now db' n)
    have "worker_ok view send clock (p_db s) (p_log s) (Recording bid bodies batch calls res)"
      using ok unfolding proto_ok_def by (metis record_batch(3))
    then have del: "deliver_batch send clock (build_recipient_views view bodies) batch = (calls, Inr res)"
      and match: "batch_matches (deliveries (p_db s)) batch" by (simp_all add: worker_ok_def)
    have dist: "distinct (map pd_delivery_id batch)" using match by (simp add: batch_matches_def)
    note shape = deliver_batch_Inr [OF del]
    have "distinct (map pd_delivery_id calls)" using dist shape by (metis distinct_append map_append)
    then have "distinct (map o_delivery_id (outcomes res))"
      using outcome_ids [of send clock calls "outcomes res"] shape by simp
    note rows = record_batch_outcomes_rows [OF this record_batch(4)]
    have "settled d \<longrightarrow> recorded_row now res d = d" if "d \<in> set (deliveries (p_db s))" for d
      using recorded_row_cases [OF del dist, of d now] match that shape
      unfolding batch_matches_def settled_def by fastforce
    then have "rows_grow (p_db s) db'"
      using rows unfolding rows_grow_def by fastforce
    with record_batch show ?thesis by (simp add: grows_def become_def)
  next
    case (defer_run k bid db')
    then have "deliveries db' = deliveries (p_db s) \<and> next_delivery_id db' = next_delivery_id (p_db s)"
      by (auto simp: defer_for_pending_retries_def reset_broadcast_attempts_def split: if_splits)
    with defer_run same show ?thesis by (simp add: grows_def become_def)
  next
    case (start_finalize k bid db')
    then have "deliveries db' = deliveries (p_db s) \<and> next_delivery_id db' = next_delivery_id (p_db s)"
      by (auto simp: defer_for_pending_retries_def split: if_splits)
    with start_finalize same show ?thesis by (simp add: grows_def become_def)
  next
    case (finalize_step k bid st now db' summary won n)
    have "rows_grow (p_db s) db'"
      using rows_frame_grow [OF fail_frame [of "p_db s" bid]] finalize_frame [OF finalize_step(4)]
      by (simp add: rows_grow_def fail_unattempted_deliveries_def)
    with finalize_step show ?thesis by (simp add: grows_def become_def)
  next
    case (purge k bid)
    have "rows_frame (p_db s) (purge_deliveries bid (p_db s))"
      by (rule rows_frame_subset) (auto simp: purge_deliveries_def)
    with purge rows_frame_grow show ?thesis by (simp add: grows_def become_def)
  qed (use same in \<open>auto simp: grows_def become_def\<close>)
qed

interpretation protocol: progress_system "bstep view send clock" "proto_ok view send clock" grows
  for view :: "string \<Rightarrow> string \<Rightarrow> 'view" and send :: sender and clock :: "pending_delivery \<Rightarrow> instant"
proof unfold_locales
  show "grows s s" for s by (auto simp: grows_def rows_grow_def)
  show "grows s u" if "grows s t" "grows t u" for s t u
    using that rows_grow_trans by (fastforce simp: grows_def)
qed (auto intro: bstep_ok bstep_grows)

text \<open>A start: nobody is working, nothing has been called.\<close>

definition quiet :: "pstate \<Rightarrow> bool" where
  "quiet s \<longleftrightarrow> table_ok (p_db s) \<and> p_workers s = (\<lambda>_. Idle) \<and> p_log s = []"

lemma quiet_ok: "quiet s \<Longrightarrow> proto_ok view send clock s"
  by (simp add: quiet_def proto_ok_def table_log_ok_def log_ok_def worker_ok_free)

lemma delivered_last_split:
  "delivered_last send (before @ q # later) \<Longrightarrow> send q = Delivered \<Longrightarrow> pd_delivery_id q \<notin> pd_delivery_id ` set later"
  by (induction before) auto


section \<open>What no interleaving can do\<close>

lemma count_bounded_keys:
  assumes "distinct (map attempt_key log)" and "\<forall>q \<in> set log. attempt_in_range q"
  shows "count_where (\<lambda>q. pd_delivery_id q = i) log \<le> 3"
proof -
  let ?calls = "filter (\<lambda>q. pd_delivery_id q = i) log"
  have "distinct (map attempt_key ?calls)" using assms(1) by (auto simp: distinct_map inj_on_def)
  moreover have "map attempt_key ?calls = map (Pair i) (map pd_attempt_count ?calls)"
    by (induction log) (auto simp: attempt_key_def)
  ultimately have "distinct (map (Pair i) (map pd_attempt_count ?calls))" by simp
  then have dist: "distinct (map pd_attempt_count ?calls)" unfolding distinct_map by blast
  have "set (map pd_attempt_count ?calls) \<subseteq> {1..3}"
    using assms(2) by (auto simp: attempt_in_range_def MAX_DELIVERY_ATTEMPTS_def)
  then have "card (set (map pd_attempt_count ?calls)) \<le> card {1..3::int}" by (intro card_mono) auto
  then show ?thesis using distinct_card [OF dist] by (simp add: count_where_def)
qed

text \<open>C1. However the transactions, batches and crashes of any number of workers interleave, a delivery
  row is called at most once for each value of its attempt counter, with attempts one to three, so at most
  three times in all; and two workers never hold the same row.\<close>

theorem calls_at_most_once:
  assumes "quiet s" and "steps (bstep view send clock) s es t"
  shows "distinct (map attempt_key (p_log t)) \<and> (\<forall>q \<in> set (p_log t). attempt_in_range q) \<and>
    (\<forall>i. count_where (\<lambda>q. pd_delivery_id q = i) (p_log t) \<le> 3) \<and>
    (\<forall>j k. j \<noteq> k \<longrightarrow> held_ids (p_workers t j) \<inter> held_ids (p_workers t k) = {})"
proof -
  have ok: "proto_ok view send clock t"
    by (rule protocol.steps_inv [OF assms(2) quiet_ok [OF assms(1)]])
  then have "distinct (map attempt_key (p_log t))" "\<forall>q \<in> set (p_log t). attempt_in_range q"
    by (simp_all add: proto_ok_def log_ok_def)
  with ok count_bounded_keys show ?thesis by (auto simp: proto_ok_def)
qed

text \<open>C34. A delivered message is not repeated: in the sequence of all calls of all workers, no call that
  comes after a delivered one is to the same delivery row, and that row can never be claimed again.\<close>

theorem never_called_after_delivered:
  assumes "quiet s" and "steps (bstep view send clock) s es t"
    and "p_log t = before @ q # later" and "send q = Delivered"
  shows "(\<forall>p \<in> set later. pd_delivery_id p \<noteq> pd_delivery_id q) \<and>
    (\<forall>d \<in> set (deliveries (p_db t)). d_id d = pd_delivery_id q \<longrightarrow> \<not> due now (d_broadcast_id d) d)"
proof -
  have ok: "proto_ok view send clock t"
    by (rule protocol.steps_inv [OF assms(2) quiet_ok [OF assms(1)]])
  then have "delivered_last send (before @ q # later)" by (simp add: proto_ok_def log_ok_def assms(3))
  from delivered_last_split [OF this assms(4)]
  have "\<forall>p \<in> set later. pd_delivery_id p \<noteq> pd_delivery_id q" by (auto simp: rev_image_eqI)
  moreover have "table_log_ok send (p_db t) (before @ q # later)" using ok by (simp add: proto_ok_def assms(3))
  then have "\<forall>d \<in> set (deliveries (p_db t)). d_id d = pd_delivery_id q \<longrightarrow> \<not> unfinished d"
    using assms(4) by (simp add: table_log_ok_def)
  ultimately show ?thesis using due_unfinished by blast
qed

text \<open>C35. SENT, FAILED and SKIPPED_INACTIVE are terminal: a delivery row that is settled in some reachable
  state is the same row, field for field, in every later state that still has it.\<close>

theorem settled_rows_are_final:
  assumes "quiet s" and "steps (bstep view send clock) s es t" and "steps (bstep view send clock) t fs u"
    and "d \<in> set (deliveries (p_db t))" and "settled d"
    and "d' \<in> set (deliveries (p_db u))" and "d_id d' = d_id d"
  shows "d' = d"
proof -
  have ok: "proto_ok view send clock t"
    by (rule protocol.steps_inv [OF assms(2) quiet_ok [OF assms(1)]])
  then have table: "table_ok (p_db t)" by (simp add: proto_ok_def)
  have "rows_grow (p_db t) (p_db u)"
    using protocol.steps_grows [OF assms(3) ok] by (simp add: grows_def)
  moreover have "d_id d' < next_delivery_id (p_db t)" using table assms(4,7) by (simp add: table_ok_def)
  ultimately obtain e where e: "e \<in> set (deliveries (p_db t))" "d_id e = d_id d'" "settled e \<longrightarrow> d' = e"
    using assms(6) unfolding rows_grow_def by blast
  have "e = d" using table e(1,2) assms(4,7)
    by (intro distinct_key_unique [of d_id "deliveries (p_db t)"]) (simp_all add: table_ok_def ids_distinct_def)
  with e(3) assms(5) show ?thesis by simp
qed

section \<open>A run of two workers\<close>

text \<open>A broadcast of one message to one member, and two workers. Both claim the broadcast (a SENDING
  broadcast is claimable, and the row lock is gone with the first claim's transaction). The first drains,
  finalizes and purges it before the second one materializes (\<^verbatim>\<open>Broadcast_Race\<close> says what that leads to).\<close>

definition race_user :: user where
  "race_user = \<lparr>u_id = 7, tg_user_id = 701, first_name = ''Ada'', username = None, status = MEMBER,
     u_created_time = None, left_time = None, member_time = None, u_supporter_level = supporter_level.NONE,
     granted_supporter_level = supporter_level.NONE, u_settings = default_settings\<rparr>"

definition race_broadcast :: broadcast where
  "race_broadcast = \<lparr>b_id = 1, b_name = ''news'', b_status = QUEUED, author_tg_id = 900, attempts = 0,
     total_recipients = None, sent_count = 0, failed_count = 0, skipped_count = 0, orphan_count = 0,
     sending_started_time = None, completed_time = None,
     messages = [\<lparr>bm_language = ''en'', body_html = ''hello'', bm_sent_count = 0, bm_failed_count = 0,
       bm_skipped_count = 0, bm_orphan_count = 0\<rparr>]\<rparr>"

definition race_db :: bdb where
  "race_db = \<lparr>broadcasts = [race_broadcast], deliveries = [], users = [race_user], next_delivery_id = 1\<rparr>"

definition race_start :: pstate where
  "race_start = \<lparr>p_db = race_db, p_workers = (\<lambda>_. Idle), p_log = []\<rparr>"

definition race_events :: "bevent list" where
  "race_events = [Claim_Broadcast 0, Claim_Broadcast 1, Materialize 0, Claim_Batch 0, Deliver 0, Record 0,
     Claim_Batch 0, Start_Finalize 0, Finalize 0, Purge 0, Materialize 1, Claim_Batch 1, Deliver 1]"

text \<open>The same events as a function, so that the run can be evaluated; \<open>None\<close> when the event is not enabled.\<close>

definition run_event :: "bevent \<Rightarrow> pstate \<Rightarrow> pstate option" where
  "run_event e s = (case e of
     Claim_Broadcast k \<Rightarrow>
       (case (p_workers s k, claim_next_broadcast {} 0 (p_db s)) of
          (Idle, db', Some c) \<Rightarrow> Some (become k
            (if terminal_failure c then Finalizing (c_broadcast_id c) broadcast_status.FAILED
             else Claimed (c_broadcast_id c)) db' s)
        | _ \<Rightarrow> None)
   | Materialize k \<Rightarrow>
       (case p_workers s k of Claimed bid \<Rightarrow>
          (let bodies = load_broadcast_bodies bid (p_db s) in
           case materialize_audience bid (map fst bodies) (p_db s) of
             Inr (db', n) \<Rightarrow> Some (become k (Draining bid bodies) db' s) | Inl _ \<Rightarrow> None)
        | _ \<Rightarrow> None)
   | Claim_Batch k \<Rightarrow>
       (case p_workers s k of Draining bid bodies \<Rightarrow>
          (case claim_pending_batch {} 0 bid (p_db s) of
             Inr (db', batch) \<Rightarrow>
               Some (become k (if batch = [] then Drained bid else Delivering bid bodies batch) db' s)
           | Inl _ \<Rightarrow> None)
        | _ \<Rightarrow> None)
   | Deliver k \<Rightarrow>
       (case p_workers s k of Delivering bid bodies batch \<Rightarrow>
          (case deliver_batch (\<lambda>_. Delivered) (\<lambda>_. 0) (build_recipient_views (\<lambda>b l. b) bodies) batch of
             (calls, r) \<Rightarrow> Some (become k
               (case r of Inl e \<Rightarrow> Idle | Inr res \<Rightarrow> Recording bid bodies batch calls res) (p_db s)
               (s\<lparr>p_log := p_log s @ calls\<rparr>)))
        | _ \<Rightarrow> None)
   | Record k \<Rightarrow>
       (case p_workers s k of Recording bid bodies batch calls res \<Rightarrow>
          (case record_batch_outcomes 0 res (p_db s) of
             Inr (db', n) \<Rightarrow> Some (become k (if flood_control res then Drained bid else Draining bid bodies) db' s)
           | Inl _ \<Rightarrow> None)
        | _ \<Rightarrow> None)
   | Start_Finalize k \<Rightarrow>
       (case p_workers s k of Drained bid \<Rightarrow>
          (case defer_for_pending_retries bid (p_db s) of
             (db', False) \<Rightarrow> Some (become k (Finalizing bid DONE) db' s) | _ \<Rightarrow> None)
        | _ \<Rightarrow> None)
   | Finalize k \<Rightarrow>
       (case p_workers s k of Finalizing bid st \<Rightarrow>
          (case finalize_broadcast 0 bid st (p_db s) of
             Inr (db', summary, won, n) \<Rightarrow> Some (become k (Purging bid) db' s) | Inl _ \<Rightarrow> None)
        | _ \<Rightarrow> None)
   | Purge k \<Rightarrow>
       (case p_workers s k of Purging bid \<Rightarrow> Some (become k Idle (purge_deliveries bid (p_db s)) s) | _ \<Rightarrow> None)
   | _ \<Rightarrow> None)"

fun run_events :: "bevent list \<Rightarrow> pstate \<Rightarrow> pstate option" where
  "run_events [] s = Some s"
| "run_events (e # es) s = (case run_event e s of None \<Rightarrow> None | Some t \<Rightarrow> run_events es t)"

lemma deliver_cases:
  assumes "p_workers s k = Delivering bid bodies batch"
  shows "deliver_batch send clock (build_recipient_views view bodies) batch = (calls, Inl e) \<Longrightarrow>
      bstep view send clock s (Deliver k) (become k Idle (p_db s) (s\<lparr>p_log := p_log s @ calls\<rparr>))"
    and "deliver_batch send clock (build_recipient_views view bodies) batch = (calls, Inr res) \<Longrightarrow>
      bstep view send clock s (Deliver k)
        (become k (Recording bid bodies batch calls res) (p_db s) (s\<lparr>p_log := p_log s @ calls\<rparr>))"
  using bstep.deliver [OF assms, of send clock view calls "Inl e"]
    bstep.deliver [OF assms, of send clock view calls "Inr res"] by simp_all

lemma run_event_bstep:
  "run_event e s = Some t \<Longrightarrow> bstep (\<lambda>b l. b) (\<lambda>_. Delivered) (\<lambda>_. 0) s e t"
  unfolding run_event_def
  by (cases e; simp add: Let_def split: phase.splits option.splits prod.splits sum.splits bool.splits)
     (auto intro: bstep.intros deliver_cases)

lemma run_events_steps:
  "run_events es s = Some t \<Longrightarrow> steps (bstep (\<lambda>b l. b) (\<lambda>_. Delivered) (\<lambda>_. 0)) s es t"
  by (induction es arbitrary: s) (auto split: option.splits intro: steps.intros run_event_bstep)

lemma race_quiet: "quiet race_start"
  by (simp add: quiet_def race_start_def race_db_def table_ok_def ids_distinct_def)

end
