(* ===== verification/Broadcast_Race.thy ===== *)
theory Broadcast_Race
  imports Broadcast_Safety
begin

text \<open>
  What the row guards do not give: a worker that claimed a broadcast before another one purged it, and
  materializes after, finds no delivery rows and starts the audience over.
\<close>

section \<open>Claiming a fresh snapshot\<close>

lemma new_rows_ids: "map d_id (new_rows bid langs n us) = map (\<lambda>i. n + int i) [0..<length us]"
proof (induction us arbitrary: n)
  case (Cons u us)
  have "map d_id (new_rows bid langs (n + 1) us) = map (\<lambda>i. n + int i) (map Suc [0..<length us])"
    using Cons.IH [of "n + 1"] by (simp add: ac_simps)
  then show ?case by (simp add: map_Suc_upt upt_conv_Cons del: upt_Suc)
qed simp

lemma new_rows_id_range: "d \<in> set (new_rows bid langs n us) \<Longrightarrow> n \<le> d_id d"
  by (induction us arbitrary: n) force+

lemma new_rows_sorted: "sorted (map d_id (new_rows bid langs n us))"
  by (simp add: new_rows_ids sorted_iff_nth_mono)

lemma new_rows_distinct: "distinct (map d_id (new_rows bid langs n us))"
  by (simp add: new_rows_ids distinct_map inj_on_def)

lemma take_new_rows: "take k (new_rows bid langs n us) = new_rows bid langs n (take k us)"
proof (induction us arbitrary: n k)
  case (Cons u us) then show ?case by (cases k) simp_all
qed simp

lemma resolve_new_rows:
  "(\<forall>u \<in> set us. first_where (\<lambda>v. u_id v = u_id u) vs = Some u) \<Longrightarrow>
   \<exists>batch. resolve_rows vs (map claim_row (new_rows bid langs n us)) = Inr batch \<and> map pd_user batch = us \<and>
     map pd_language_sent batch = map (language_for langs) us \<and> (\<forall>p \<in> set batch. n \<le> pd_delivery_id p)"
proof (induction us arbitrary: n)
  case (Cons u us)
  from Cons.IH [of "n + 1"] Cons.prems obtain batch where
    "resolve_rows vs (map claim_row (new_rows bid langs (n + 1) us)) = Inr batch" "map pd_user batch = us"
    "map pd_language_sent batch = map (language_for langs) us" "\<forall>p \<in> set batch. n + 1 \<le> pd_delivery_id p" by auto
  then show ?case using Cons.prems by fastforce
qed simp

lemma update_where_middle:
  "(\<forall>x \<in> set xs. \<not> P x) \<Longrightarrow> (\<forall>x \<in> set ys. P x) \<Longrightarrow> (\<forall>x \<in> set zs. \<not> P x) \<Longrightarrow>
   update_where P f (xs @ ys @ zs) = xs @ map f ys @ zs"
  by (simp add: update_where_def map_idI)

lemma claim_new_rows:
  assumes "deliveries db = old @ new_rows bid langs n us"
    and "\<forall>d \<in> set old. d_broadcast_id d \<noteq> bid \<and> d_id d < n"
    and "\<forall>u \<in> set us. first_where (\<lambda>v. u_id v = u_id u) (users db) = Some u"
    and "us \<noteq> []"
  shows "\<exists>batch. claim_pending_batch {} now bid db =
      Inr (db\<lparr>deliveries := old @ map claim_row (take BROADCAST_BATCH_SIZE (new_rows bid langs n us)) @
        drop BROADCAST_BATCH_SIZE (new_rows bid langs n us)\<rparr>, batch) \<and>
    map pd_user batch = take BROADCAST_BATCH_SIZE us \<and>
    map pd_language_sent batch = map (language_for langs) (take BROADCAST_BATCH_SIZE us) \<and>
    (\<forall>p \<in> set batch. n \<le> pd_delivery_id p) \<and> batch \<noteq> []"
proof -
  let ?k = BROADCAST_BATCH_SIZE and ?rows = "new_rows bid langs n us"
  have due: "filter (\<lambda>d. due now bid d \<and> d_id d \<notin> {}) (deliveries db) = ?rows"
  proof -
    have "filter (due now bid) old = []" using assms(2) by (auto simp: due_def filter_empty_conv)
    moreover have "filter (due now bid) ?rows = ?rows" by (rule filter_True) (auto simp: due_def dest: new_rows_fresh)
    ultimately show ?thesis by (simp add: assms(1))
  qed
  have ids: "claim_ids {} now bid (deliveries db) = map d_id (take ?k ?rows)"
    unfolding claim_ids_def due sort_key_id_if_sorted [OF new_rows_sorted] by (rule take_map)
  let ?ids = "set (map d_id (take ?k ?rows))"
  have old: "d_id d \<notin> ?ids" if "d \<in> set old" for d
    using assms(2) that new_rows_id_range by (fastforce dest: in_set_takeD)
  have late: "d_id d \<notin> ?ids" if "d \<in> set (drop ?k ?rows)" for d
  proof -
    have "distinct (map d_id (take ?k ?rows) @ map d_id (drop ?k ?rows))"
      using new_rows_distinct [of bid langs n us] by (simp flip: map_append)
    then show ?thesis using that by auto
  qed
  have "update_where (\<lambda>d. d_id d \<in> ?ids) claim_row (old @ take ?k ?rows @ drop ?k ?rows) =
      old @ map claim_row (take ?k ?rows) @ drop ?k ?rows"
    using old late by (intro update_where_middle) auto
  then have rows: "update_where (\<lambda>d. d_id d \<in> ?ids) claim_row (deliveries db) = old @ map claim_row (take ?k ?rows) @ drop ?k ?rows"
    by (simp only: assms(1) append_take_drop_id)
  have claimed: "filter (\<lambda>d. d_id d \<in> ?ids) (old @ map claim_row (take ?k ?rows) @ drop ?k ?rows) = map claim_row (take ?k ?rows)"
    using old late by (simp add: filter_empty_conv filter_id_conv)
  have "sort_key d_id (map claim_row (take ?k ?rows)) = map claim_row (take ?k ?rows)"
    by (rule sort_key_id_if_sorted) (simp add: comp_def sorted_wrt_take new_rows_sorted flip: take_map)
  then have res: "resolve_claimed_recipients (users db) (map claim_row (take ?k ?rows)) =
      resolve_rows (users db) (map claim_row (new_rows bid langs n (take ?k us)))"
    by (simp add: resolve_claimed_recipients_def take_new_rows)
  have "\<forall>u \<in> set (take ?k us). first_where (\<lambda>v. u_id v = u_id u) (users db) = Some u" using assms(3) by (auto dest: in_set_takeD)
  from resolve_new_rows [OF this, of bid langs n] obtain batch where
    batch: "resolve_rows (users db) (map claim_row (new_rows bid langs n (take ?k us))) = Inr batch"
      "map pd_user batch = take ?k us" "map pd_language_sent batch = map (language_for langs) (take ?k us)"
      "\<forall>p \<in> set batch. n \<le> pd_delivery_id p" by blast
  have some: "take ?k us \<noteq> []" using assms(4) by (simp add: BROADCAST_BATCH_SIZE_def)
  then have "map claim_row (take ?k ?rows) \<noteq> []" unfolding take_new_rows by (cases "take ?k us") simp_all
  then have "claim_pending_batch {} now bid db =
      Inr (db\<lparr>deliveries := old @ map claim_row (take ?k ?rows) @ drop ?k ?rows\<rparr>, batch)"
    unfolding claim_pending_batch_def Let_def ids rows claimed res batch(1) by simp
  moreover have "batch \<noteq> []" using batch(2) some by auto
  ultimately show ?thesis using batch by blast
qed

lemma deliver_whole_batch:
  assumes "\<forall>p. send p \<noteq> Network_Error \<and> (\<forall>ra msg. send p \<noteq> Retry_After ra msg)"
    and "\<forall>p \<in> set batch. map_of views (pd_language_sent p) \<noteq> None"
  shows "\<exists>res. deliver_batch send clock views batch = (batch, Inr res)"
proof -
  obtain calls r where d: "deliver_batch send clock views batch = (calls, r)" by fastforce
  show ?thesis
  proof (cases r)
    case (Inl e)
    from deliver_batch_Inl [OF d [unfolded Inl]] show ?thesis using assms by auto
  next
    case (Inr res)
    from deliver_batch_Inr [OF d [unfolded Inr]] assms(1) have "batch = calls" by auto
    then show ?thesis using d Inr by auto
  qed
qed

lemma views_cover:
  "FALLBACK_LANG \<in> set (map fst bodies) \<Longrightarrow>
   map_of (build_recipient_views view bodies) (language_for (map fst bodies) u) \<noteq> None"
  by (auto simp: language_for_def build_recipient_views_def map_of_eq_None_iff image_iff split: prod.splits)

section \<open>A snapshot taken after the purge\<close>

text \<open>The tables a late worker finds and leaves behind.\<close>

lemma materialize_after_purge:
  assumes "distinct (map u_id (users db))" and "first_where (\<lambda>b. b_id b = bid) (broadcasts db) = Some b"
  shows "\<exists>bs m. materialize_audience bid langs (purge_deliveries bid db) =
      Inr (db\<lparr>deliveries := delete_where (\<lambda>d. d_broadcast_id d = bid) (deliveries db) @
          new_rows bid langs (next_delivery_id db) (filter in_audience (users db)),
        next_delivery_id := next_delivery_id db + int (length (filter in_audience (users db))), broadcasts := bs\<rparr>, m) \<and>
    map b_status bs = map b_status (broadcasts db)"
proof -
  let ?us = "filter in_audience (users db)" and ?db = "purge_deliveries bid db"
  have none: "\<forall>d \<in> set (deliveries ?db). d_broadcast_id d \<noteq> bid" by (simp add: purge_deliveries_def delete_where_def)
  then have empty: "count_deliveries bid ?db = 0" by (simp add: count_deliveries_def count_where_0_iff)
  have "distinct (map u_id ?us)" using assms(1) by (simp add: distinct_map inj_on_def)
  then have ins: "fold (insert_delivery bid langs) ?us ?db =
      ?db\<lparr>deliveries := deliveries ?db @ new_rows bid langs (next_delivery_id ?db) ?us,
         next_delivery_id := next_delivery_id ?db + int (length ?us)\<rparr>"
    using none by (intro insert_fold) auto
  have users: "users ?db = users db" by (simp add: purge_deliveries_def)
  let ?total = "count_deliveries bid (?db\<lparr>deliveries := deliveries ?db @ new_rows bid langs (next_delivery_id ?db) ?us,
    next_delivery_id := next_delivery_id ?db + int (length ?us)\<rparr>)"
  let ?bs = "update_where (\<lambda>b. b_id b = bid) (\<lambda>b. b\<lparr>total_recipients := Some (int ?total)\<rparr>) (broadcasts db)"
  have "map b_status ?bs = map b_status (broadcasts db)" by (simp add: update_where_def)
  moreover have "materialize_audience bid langs ?db = Inr (db\<lparr>deliveries := delete_where (\<lambda>d. d_broadcast_id d = bid) (deliveries db) @
      new_rows bid langs (next_delivery_id db) ?us, next_delivery_id := next_delivery_id db + int (length ?us), broadcasts := ?bs\<rparr>, ?total)"
    using assms(2) unfolding materialize_audience_def Let_def empty users ins by (simp add: purge_deliveries_def)
  ultimately show ?thesis by blast
qed

text \<open>C39. What two workers can do to a recipient. A worker still holds a broadcast that it claimed while another
  one, done with it, is about to purge it. Purge, then the late snapshot, then its first batch: the broadcast,
  already finalized, is sent again, under fresh rows, to the first fifty members of the audience, whoever was
  called before (if it has a body in the fallback language, as its composer requires, and no answer is a network
  error or flood control, which would cut the batch short). So the row guards (no row is called twice for one attempt, none after a delivered call) do not
  make the broadcast itself be delivered once.
\<close>

theorem late_snapshot_messages_twice:
  assumes "table_ok (p_db s)" "distinct (map u_id (users (p_db s)))"
    and "j \<noteq> k" "p_workers s j = Purging bid" "p_workers s k = Claimed bid"
    and "first_where (\<lambda>b. b_id b = bid) (broadcasts (p_db s)) = Some b"
    and "FALLBACK_LANG \<in> set (map fst (load_broadcast_bodies bid (p_db s)))"
    and "\<forall>p. send p \<noteq> Network_Error \<and> (\<forall>ra msg. send p \<noteq> Retry_After ra msg)"
    and "filter in_audience (users (p_db s)) \<noteq> []"
  shows "\<exists>calls t. steps (bstep view send clock) s [Purge j, Materialize k, Claim_Batch k, Deliver k] t \<and>
    p_log t = p_log s @ calls \<and>
    map pd_user calls = take BROADCAST_BATCH_SIZE (filter in_audience (users (p_db s))) \<and>
    (\<forall>p \<in> set calls. next_delivery_id (p_db s) \<le> pd_delivery_id p) \<and>
    map b_status (broadcasts (p_db t)) = map b_status (broadcasts (p_db s))"
proof -
  let ?db = "p_db s" and ?us = "filter in_audience (users (p_db s))"
  let ?bodies = "load_broadcast_bodies bid ?db" and ?old = "delete_where (\<lambda>d. d_broadcast_id d = bid) (deliveries ?db)"
  let ?langs = "map fst ?bodies" and ?n = "next_delivery_id ?db"
  from materialize_after_purge [OF assms(2,6), of ?langs] obtain bs m where
    mat: "materialize_audience bid ?langs (purge_deliveries bid ?db) =
      Inr (?db\<lparr>deliveries := ?old @ new_rows bid ?langs ?n ?us, next_delivery_id := ?n + int (length ?us), broadcasts := bs\<rparr>, m)"
    and status: "map b_status bs = map b_status (broadcasts ?db)" by blast
  let ?db1 = "?db\<lparr>deliveries := ?old @ new_rows bid ?langs ?n ?us, next_delivery_id := ?n + int (length ?us), broadcasts := bs\<rparr>"
  have old: "\<forall>d \<in> set ?old. d_broadcast_id d \<noteq> bid \<and> d_id d < ?n" using assms(1) by (auto simp: table_ok_def delete_where_def)
  have found: "\<forall>u \<in> set ?us. first_where (\<lambda>v. u_id v = u_id u) (users ?db1) = Some u"
    using first_where_key [OF assms(2)] by simp
  from claim_new_rows [where db = ?db1 and now = 0 and langs = ?langs, OF _ old found assms(9)] obtain db2 batch where
    batch: "claim_pending_batch {} 0 bid ?db1 = Inr (db2, batch)" "broadcasts db2 = bs"
      "map pd_user batch = take BROADCAST_BATCH_SIZE ?us" "batch \<noteq> []" "\<forall>p \<in> set batch. ?n \<le> pd_delivery_id p"
      "map pd_language_sent batch = map (language_for ?langs) (take BROADCAST_BATCH_SIZE ?us)" by auto
  have "\<forall>l \<in> set (map pd_language_sent batch). map_of (build_recipient_views view ?bodies) l \<noteq> None"
    unfolding batch(6) using views_cover [OF assms(7)] by auto
  then have "\<forall>p \<in> set batch. map_of (build_recipient_views view ?bodies) (pd_language_sent p) \<noteq> None" by simp
  from deliver_whole_batch [OF assms(8) this, of clock] obtain res where
    res: "deliver_batch send clock (build_recipient_views view ?bodies) batch = (batch, Inr res)" by blast
  let ?s1 = "become j Idle (purge_deliveries bid ?db) s"
  let ?s2 = "become k (Draining bid ?bodies) ?db1 ?s1"
  let ?s3 = "become k (Delivering bid ?bodies batch) db2 ?s2"
  let ?t = "become k (Recording bid ?bodies batch batch res) db2 (?s3\<lparr>p_log := p_log ?s3 @ batch\<rparr>)"
  have "bstep view send clock s (Purge j) ?s1" by (rule bstep.purge [OF assms(4)])
  moreover have "bstep view send clock ?s1 (Materialize k) ?s2"
    by (rule bstep.materialize [of ?s1 k bid ?bodies ?db1 m])
      (use assms(3,5) mat in \<open>simp_all add: become_def purge_deliveries_def load_broadcast_bodies_def\<close>)
  moreover have "bstep view send clock ?s2 (Claim_Batch k) ?s3"
    using bstep.claim_batch [of ?s2 k bid ?bodies "{}" 0 db2 batch view send clock] batch(1,4) by (simp add: become_def)
  moreover have "bstep view send clock ?s3 (Deliver k) ?t"
    using deliver_cases(2) [OF _ res, of ?s3 k bid] by (simp add: become_def)
  ultimately have "steps (bstep view send clock) s [Purge j, Materialize k, Claim_Batch k, Deliver k] ?t"
    by (blast intro: steps.intros)
  then show ?thesis using batch(2,3,5) status by (intro exI [of _ batch] exI [of _ ?t]) (simp add: become_def)
qed

end
