(* ===== verification/Broadcast_Examples.thy ===== *)
theory Broadcast_Examples
  imports Broadcast_Reports Broadcast_Race
begin

text \<open>
  Concrete runs of the broadcast sender: every property of the broadcast theories applied to a broadcast of
  one language to one or two members.
\<close>

section \<open>A broadcast that is being sent\<close>

definition ex_broadcast :: broadcast where
  "ex_broadcast = race_broadcast\<lparr>b_status := SENDING, attempts := 1\<rparr>"

definition ex_row :: "int \<Rightarrow> delivery_status \<Rightarrow> int \<Rightarrow> delivery" where
  "ex_row i st n = \<lparr>d_id = i, d_broadcast_id = 1, d_user_id = 7, language_sent = ''en'', d_status = st,
     attempt_count = n, next_attempt_time = None, sent_time = None\<rparr>"

definition ex_db :: bdb where
  "ex_db = \<lparr>broadcasts = [ex_broadcast], deliveries = [ex_row 1 SENT 1, ex_row 2 PENDING 0],
     users = [race_user], next_delivery_id = 3\<rparr>"

definition ex_world :: world where
  "ex_world = \<lparr>w_send = \<lambda>_. Delivered, w_clock = \<lambda>_. 0, w_locks = \<lambda>_. {}, w_now_claim = \<lambda>_. 0,
     w_now_record = \<lambda>_. 0, w_now_finalize = 0, w_dm_ok = \<lambda>_. True\<rparr>"

lemmas ex_defs = ex_db_def ex_broadcast_def ex_row_def race_db_def race_broadcast_def race_user_def

section \<open>Audience and claim\<close>

theorem materialize_audience_exact_witness:
  "count_deliveries 1 race_db = 0 \<and>
   (\<exists>db' (rows :: delivery list). materialize_audience 1 [''en''] race_db = Inr (db', length rows) \<and>
      map d_user_id rows = [7] \<and> map language_sent rows = [''en''])"
proof -
  have "count_deliveries 1 race_db = 0" "distinct (map u_id (users race_db))"
    "first_where (\<lambda>b. b_id b = 1) (broadcasts race_db) = Some race_broadcast"
    by (simp_all add: ex_defs count_deliveries_def)
  note empty = this(1)
  have member: "filter in_audience (users race_db) = [race_user]" "u_id race_user = 7" "language_for [''en''] race_user = ''en''"
    by (simp_all add: race_db_def race_user_def in_audience_def language_for_def default_settings_def FALLBACK_LANG_def
      ANONYMOUS_INVITEE_TG_ID_def)
  from materialize_audience_exact [OF \<open>count_deliveries 1 race_db = 0\<close> \<open>distinct (map u_id (users race_db))\<close>
      \<open>first_where (\<lambda>b. b_id b = 1) (broadcasts race_db) = Some race_broadcast\<close>, of "[''en'']"]
  obtain db' and rows :: "delivery list" where rows: "materialize_audience 1 [''en''] race_db = Inr (db', length rows)"
    "map d_user_id rows = map u_id (filter in_audience (users race_db))"
    "map language_sent rows = map (language_for [''en'']) (filter in_audience (users race_db))"
    by blast
  from rows(2,3) have "map d_user_id rows = [7]" "map language_sent rows = [''en'']" unfolding member by (simp_all add: member)
  with empty rows(1) show ?thesis by (intro conjI exI [of _ db'] exI [of _ rows])
qed

theorem materialize_audience_frozen_witness:
  "materialize_audience 1 [''en''] (ex_db\<lparr>users := []\<rparr>) = Inr (ex_db\<lparr>users := []\<rparr>, count_deliveries 1 ex_db)"
  by (rule materialize_audience_frozen) (simp add: ex_defs count_deliveries_def)

theorem claim_next_broadcast_oldest_witness:
  "\<exists>db' c. claim_next_broadcast {} 0 race_db = (db', Some c) \<and> c_broadcast_id c = 1 \<and> \<not> terminal_failure c"
proof -
  have keys: "distinct (map b_id (broadcasts race_db))" by (simp add: ex_defs)
  obtain db' c where claim: "claim_next_broadcast {} 0 race_db = (db', Some c)"
    by (simp add: claim_next_broadcast_def claimable_broadcast_def ex_defs Let_def)
  from claim_next_broadcast_oldest [OF keys claim] claim show ?thesis
    by (auto simp: ex_defs)
qed

section \<open>Draining\<close>

theorem send_all_pending_terminates_witness:
  "\<exists>db' effects' r. send_all_pending ex_world 1 2 [(''en'', ''view'')] 0 ex_db [] = Some (db', effects', r)"
  by (rule send_all_pending_terminates) (simp add: ex_defs)

theorem drain_passes_bounded_witness:
  "\<exists>db'. steps (drain_step ex_world 1 2 [(''en'', ''view'')]) ex_db [0] db' \<and>
     length [0 :: nat] \<le> 3 * count_unfinished_deliveries 1 ex_db"
proof -
  have rows: "distinct (map d_id (deliveries ex_db))" "\<forall>d \<in> set (deliveries ex_db). 0 \<le> attempt_count d"
    by (simp_all add: ex_defs)
  have "case drain_pass ex_world 1 2 [(''en'', ''view'')] 0 ex_db of (db', new, Inr x) \<Rightarrow> True | _ \<Rightarrow> False"
    by code_simp
  then obtain db' new where "drain_pass ex_world 1 2 [(''en'', ''view'')] 0 ex_db = (db', new, Inr ())"
    by (auto split: prod.splits sum.splits)
  then have run: "steps (drain_step ex_world 1 2 [(''en'', ''view'')]) ex_db [0] db'"
    by (auto simp: drain_step_def)
  from drain_passes_bounded [OF rows run] run show ?thesis by blast
qed

definition ex_pending :: "int \<Rightarrow> pending_delivery" where
  "ex_pending i = \<lparr>pd_delivery_id = i, pd_user = race_user, pd_language_sent = ''en'', pd_attempt_count = 1\<rparr>"

definition ex_flood :: "pending_delivery \<Rightarrow> send_result" where
  "ex_flood p = (if pd_delivery_id p = 1 then Delivered else Retry_After (Seconds 30) ''flood'')"

theorem deliver_batch_correct_witness:
  "\<exists>calls res. deliver_batch ex_flood (\<lambda>_. 0) [(''en'', ''view'')] (map ex_pending [1, 2, 3]) = (calls, Inr res) \<and>
     map ex_pending [1, 2, 3] = calls @ unattempted res"
proof -
  have "\<forall>p \<in> set (map ex_pending [1, 2, 3]).
      map_of [(''en'', ''view'')] (pd_language_sent p) \<noteq> None \<and> ex_flood p \<noteq> Network_Error"
    by (simp add: ex_pending_def ex_flood_def)
  from deliver_batch_correct [OF this, of "\<lambda>_. 0"] show ?thesis by blast
qed

theorem telemetry_one_hot_witness:
  "samples_of SENT (fst (emit_delivery_outcomes
     [\<lparr>o_delivery_id = 1, o_user_id = 7, o_status = SENT, o_next_attempt_time = None\<rparr>])) = [1]"
proof -
  let ?outs = "[\<lparr>o_delivery_id = 1, o_user_id = 7, o_status = SENT, o_next_attempt_time = None\<rparr>]"
  have "\<forall>out \<in> set ?outs. o_status out \<in> set DELIVERY_METRIC_BY_STATUS"
    by (simp add: DELIVERY_METRIC_BY_STATUS_def)
  from telemetry_one_hot [OF this] have "length (samples_of SENT (fst (emit_delivery_outcomes ?outs))) = 1"
    "sum_list (samples_of SENT (fst (emit_delivery_outcomes ?outs))) = 1"
    by (simp_all add: DELIVERY_METRIC_BY_STATUS_def)
  then show ?thesis by (auto simp: length_Suc_conv)
qed

section \<open>Finalization\<close>

theorem finalize_broadcast_accounts_witness:
  "\<exists>db' summary. finalize_broadcast 5 1 DONE ex_db = Inr (db', summary, True, 1) \<and>
     bs_sent summary = 1 \<and> bs_failed summary = 1 \<and> count_unfinished_deliveries 1 db' = 0"
proof -
  have "first_where (\<lambda>b. b_id b = 1) (broadcasts ex_db) = Some ex_broadcast"
    "distinct (map b_id (broadcasts ex_db))" "languages_covered ex_broadcast ex_db"
    by (simp_all add: ex_defs languages_covered_def)
  from finalize_broadcast_accounts [OF this, of 5 DONE] show ?thesis
    by (auto simp: ex_defs count_unfinished_deliveries_def unfinished_def count_status_def)
qed

lemma ex_finalized:
  obtains db1 effects1 r1 db2 effects2 r2 where
    "finalize_and_report (\<lambda>_. True) [] 900 5 1 DONE ex_db = (db1, effects1, r1)"
    "finalize_and_report (\<lambda>_. True) [] 900 6 1 DONE db1 = (db2, effects2, r2)"
  by (meson prod_cases3)

theorem second_finalizer_is_silent_witness:
  "\<exists>db1 effects1 r1 db2 effects2 r2.
     finalize_and_report (\<lambda>_. True) [] 900 5 1 DONE ex_db = (db1, effects1, r1) \<and>
     finalize_and_report (\<lambda>_. True) [] 900 6 1 DONE db1 = (db2, effects2, r2) \<and>
     r2 = Inr () \<and> summaries effects2 = []"
proof -
  have ex: "first_where (\<lambda>b. b_id b = 1) (broadcasts ex_db) = Some ex_broadcast"
    "distinct (map b_id (broadcasts ex_db))" "DONE \<in> {DONE, broadcast_status.FAILED}"
    by (simp_all add: ex_defs)
  obtain db1 effects1 r1 db2 effects2 r2 where runs:
    "finalize_and_report (\<lambda>_. True) [] 900 5 1 DONE ex_db = (db1, effects1, r1)"
    "finalize_and_report (\<lambda>_. True) [] 900 6 1 DONE db1 = (db2, effects2, r2)"
    by (rule ex_finalized)
  from second_finalizer_is_silent [OF ex runs] runs show ?thesis by blast
qed

theorem second_finalizer_zeroes_counts_witness:
  "\<exists>db1 effects1 r1 db2 effects2 r2 b2.
     finalize_and_report (\<lambda>_. True) [] 900 5 1 DONE ex_db = (db1, effects1, r1) \<and>
     map sent_count (broadcasts db1) = [1] \<and>
     finalize_and_report (\<lambda>_. True) [] 900 6 1 DONE db1 = (db2, effects2, r2) \<and>
     first_where (\<lambda>b. b_id b = 1) (broadcasts db2) = Some b2 \<and> sent_count b2 = 0"
proof -
  have ex: "first_where (\<lambda>b. b_id b = 1) (broadcasts ex_db) = Some ex_broadcast"
    "distinct (map b_id (broadcasts ex_db))"
    by (simp_all add: ex_defs)
  obtain db1 effects1 r1 db2 effects2 r2 where runs:
    "finalize_and_report (\<lambda>_. True) [] 900 5 1 DONE ex_db = (db1, effects1, r1)"
    "finalize_and_report (\<lambda>_. True) [] 900 6 1 DONE db1 = (db2, effects2, r2)"
    by (rule ex_finalized)
  have "map sent_count (broadcasts (fst (finalize_and_report (\<lambda>_. True) [] 900 5 1 DONE ex_db))) = [1]"
    by code_simp
  then have one: "map sent_count (broadcasts db1) = [1]" using runs(1) by simp
  have "first_where (\<lambda>b. b_id b = 1) (broadcasts (fst (finalize_and_report (\<lambda>_. True) [] 900 6 1 DONE
      (fst (finalize_and_report (\<lambda>_. True) [] 900 5 1 DONE ex_db))))) \<noteq> None"
    by code_simp
  then obtain b2 where b2: "first_where (\<lambda>b. b_id b = 1) (broadcasts db2) = Some b2" using runs by auto
  from second_finalizer_zeroes_counts [OF ex runs b2] have "sent_count b2 = 0" by simp
  with one runs b2 show ?thesis
    by (intro exI [of _ db1] exI [of _ effects1] exI [of _ r1] exI [of _ db2] exI [of _ effects2] exI [of _ r2]
      exI [of _ b2] conjI)
qed

section \<open>Whole runs\<close>

theorem run_guarantees_witness:
  "\<exists>db' effects r. run (\<lambda>b l. b) ex_world {} [] 0 race_db = Some (db', effects, r) \<and> table_ok db'"
proof -
  have "table_ok race_db" "recipients_exist race_db" "broadcasts_ready race_db"
    by (simp_all add: ex_defs table_ok_def ids_distinct_def recipients_exist_def broadcasts_ready_def
      bodies_cover_def load_broadcast_bodies_def FALLBACK_LANG_def)
  from run_guarantees [OF this] show ?thesis by blast
qed

theorem notify_operators_once_witness:
  "set (map recipient_of (notify_operators (\<lambda>_. False) [900, 701] 701 undefined race_db)) = {Some 701}"
  using notify_operators_once [of "\<lambda>_. False" "[900, 701]" 701 undefined race_db]
  by (auto simp: Let_def user_by_tg_def ex_defs)

lemma race_prefix:
  obtains s t where "steps (bstep (\<lambda>b l. b) (\<lambda>_. Delivered) (\<lambda>_. 0)) race_start (take 6 race_events) s"
    "run_events (take 6 race_events) race_start = Some s"
    "steps (bstep (\<lambda>b l. b) (\<lambda>_. Delivered) (\<lambda>_. 0)) s (drop 6 race_events) t"
    "run_events (drop 6 race_events) s = Some t"
proof -
  have "run_events (take 6 race_events) race_start \<noteq> None"
    "run_events (drop 6 race_events) (the (run_events (take 6 race_events) race_start)) \<noteq> None"
    by code_simp+
  then obtain s t where "run_events (take 6 race_events) race_start = Some s" "run_events (drop 6 race_events) s = Some t"
    by auto
  with run_events_steps that show thesis by blast
qed

theorem calls_at_most_once_witness:
  "\<exists>t. steps (bstep (\<lambda>b l. b) (\<lambda>_. Delivered) (\<lambda>_. 0)) race_start (take 6 race_events) t \<and>
     distinct (map attempt_key (p_log t)) \<and> length (p_log t) = 1"
proof -
  obtain s where run: "steps (bstep (\<lambda>b l. b) (\<lambda>_. Delivered) (\<lambda>_. 0)) race_start (take 6 race_events) s"
    and eval: "run_events (take 6 race_events) race_start = Some s"
    by (rule race_prefix)
  have "length (p_log (the (run_events (take 6 race_events) race_start))) = 1" by code_simp
  with calls_at_most_once [OF race_quiet run] run eval show ?thesis by auto
qed

theorem never_called_after_delivered_witness:
  "\<exists>t q. steps (bstep (\<lambda>b l. b) (\<lambda>_. Delivered) (\<lambda>_. 0)) race_start (take 6 race_events) t \<and> p_log t = [q] \<and>
     (\<forall>d \<in> set (deliveries (p_db t)). d_id d = pd_delivery_id q \<longrightarrow> \<not> due 0 (d_broadcast_id d) d)"
proof -
  obtain s where run: "steps (bstep (\<lambda>b l. b) (\<lambda>_. Delivered) (\<lambda>_. 0)) race_start (take 6 race_events) s"
    and eval: "run_events (take 6 race_events) race_start = Some s"
    by (rule race_prefix)
  have "length (p_log (the (run_events (take 6 race_events) race_start))) = 1" by code_simp
  then obtain q where q: "p_log s = [] @ q # []" using eval by (auto simp: length_Suc_conv)
  from never_called_after_delivered [OF race_quiet run q, of 0] run q show ?thesis by auto
qed

theorem settled_rows_are_final_witness:
  "\<exists>s t d d'. steps (bstep (\<lambda>b l. b) (\<lambda>_. Delivered) (\<lambda>_. 0)) race_start (take 6 race_events) s \<and>
     steps (bstep (\<lambda>b l. b) (\<lambda>_. Delivered) (\<lambda>_. 0)) s [Claim_Batch 0] t \<and>
     deliveries (p_db s) = [d] \<and> settled d \<and> deliveries (p_db t) = [d'] \<and> d' = d"
proof -
  let ?s = "the (run_events (take 6 race_events) race_start)"
  let ?t = "the (run_events [Claim_Batch 0] ?s)"
  obtain s where run: "steps (bstep (\<lambda>b l. b) (\<lambda>_. Delivered) (\<lambda>_. 0)) race_start (take 6 race_events) s"
    and eval: "run_events (take 6 race_events) race_start = Some s"
    by (rule race_prefix)
  have "run_events [Claim_Batch 0] ?s \<noteq> None" by code_simp
  then obtain t where t: "run_events [Claim_Batch 0] s = Some t" using eval by auto
  have more: "steps (bstep (\<lambda>b l. b) (\<lambda>_. Delivered) (\<lambda>_. 0)) s [Claim_Batch 0] t" by (rule run_events_steps [OF t])
  have "map (\<lambda>d. (d_id d, settled d)) (deliveries (p_db ?s)) = [(1, True)]"
    "map d_id (deliveries (p_db ?t)) = [1]" by code_simp+
  then obtain d d' where d: "deliveries (p_db s) = [d]" "settled d" "deliveries (p_db t) = [d']" "d_id d' = d_id d"
    using eval t by (auto simp: map_eq_Cons_conv)
  from settled_rows_are_final [OF race_quiet run more, of d d'] d run more show ?thesis by auto
qed

text \<open>The late snapshot, after a run of two workers from a quiet start: Ada is called twice.\<close>

theorem late_snapshot_messages_twice_witness:
  "\<exists>s t. quiet race_start \<and> steps (bstep (\<lambda>b l. b) (\<lambda>_. Delivered) (\<lambda>_. 0)) race_start (take 9 race_events) s \<and>
     map b_status (broadcasts (p_db s)) = [DONE] \<and>
     steps (bstep (\<lambda>b l. b) (\<lambda>_. Delivered) (\<lambda>_. 0)) s [Purge 0, Materialize 1, Claim_Batch 1, Deliver 1] t \<and>
     map (tg_user_id \<circ> pd_user) (p_log t) = [701, 701] \<and> map b_status (broadcasts (p_db t)) = [DONE]"
proof -
  let ?s = "the (run_events (take 9 race_events) race_start)"
  have "run_events (take 9 race_events) race_start \<noteq> None" by code_simp
  then obtain s where eval: "run_events (take 9 race_events) race_start = Some s" by auto
  have facts: "table_ok (p_db ?s)" "map u_id (users (p_db ?s)) = [7]" "p_workers ?s 0 = Purging 1" "p_workers ?s 1 = Claimed 1"
    "map b_id (broadcasts (p_db ?s)) = [1]" "map fst (load_broadcast_bodies 1 (p_db ?s)) = [FALLBACK_LANG]"
    "map tg_user_id (filter in_audience (users (p_db ?s))) = [701]" "map b_status (broadcasts (p_db ?s)) = [DONE]"
    "map (tg_user_id \<circ> pd_user) (p_log ?s) = [701]"
    by code_simp+
  have s: "?s = s" using eval by simp
  note facts = facts [unfolded s]
  from facts(5) obtain b where b: "first_where (\<lambda>b. b_id b = 1) (broadcasts (p_db s)) = Some b" by (auto simp: map_eq_Cons_conv)
  have "distinct (map u_id (users (p_db s)))" "FALLBACK_LANG \<in> set (map fst (load_broadcast_bodies 1 (p_db s)))"
    "filter in_audience (users (p_db s)) \<noteq> []" unfolding facts(2,6) using facts(7) by auto
  from late_snapshot_messages_twice [OF facts(1) this(1) _ facts(3,4) b this(2) _ this(3), of "\<lambda>_. Delivered" "\<lambda>b l. b" "\<lambda>_. 0"]
  obtain calls t where t: "steps (bstep (\<lambda>b l. b) (\<lambda>_. Delivered) (\<lambda>_. 0)) s [Purge 0, Materialize 1, Claim_Batch 1, Deliver 1] t"
    "p_log t = p_log s @ calls" "map pd_user calls = take BROADCAST_BATCH_SIZE (filter in_audience (users (p_db s)))"
    "map b_status (broadcasts (p_db t)) = map b_status (broadcasts (p_db s))" by (auto simp del: steps_Cons_iff One_nat_def)
  have "map tg_user_id (map pd_user calls) = [701]" unfolding t(3) take_map [symmetric] facts(7) by (simp add: BROADCAST_BATCH_SIZE_def)
  then have "map (tg_user_id \<circ> pd_user) (p_log t) = [701, 701]" using t(2) facts(9) by simp
  then show ?thesis using race_quiet run_events_steps [OF eval] t(1,4) facts(8) by (intro exI [of _ s] exI [of _ t]) (simp del: steps_Cons_iff)
qed

end
