(* ===== verification/Meetups.thy ===== *)
theory Meetups
  imports Users "HOL-Library.Product_Lexorder"
begin

text \<open>
  A meeting, its participants and its waiting list (\<^verbatim>\<open>libs/data/mitup_bot/models/meetups.py\<close>,
  \<^verbatim>\<open>models/joined_users.py\<close>). The ORM relation \<open>meetup.owner\<close> is an explicit argument \<open>owner\<close>,
  the policy configuration an argument \<open>cfg\<close>. Joined links are mutable objects compared by identity
  when they are moved, so the model addresses them by their position in \<open>joined_links\<close>.
\<close>

section \<open>Rows\<close>

record joined_link =
  l_id :: "int option"
  l_user :: user
  l_invited_by :: "user option"
  l_created_time :: instant
  is_waiting_list :: bool
  notification_sent :: bool

text \<open>The columns of a meeting, and the meeting with the participants the ORM loads with it.\<close>

record meetup_row =
  m_id :: int
  owner_id :: int
  waiting_list :: bool
  public :: bool
  allow_invitation :: bool
  incognito :: bool
  lock_on_start :: bool
  show_timezone :: bool
  clock_24h :: bool
  date_format :: date_format
  expiration_notification_sent :: bool
  started_notification_sent :: bool
  datetime :: "instant option"
  end_datetime :: "instant option"
  activated_time :: instant
  expiration_time :: "instant option"
  warned_time :: "instant option"
  max_members :: "int option"
  active :: bool

record meetup = meetup_row +
  joined_links :: "joined_link list"

section \<open>Reads\<close>

definition n_participants :: "meetup \<Rightarrow> nat" where
  "n_participants m = count_where (\<lambda>l. \<not> is_waiting_list l) (joined_links m)"

definition n_waiting :: "meetup \<Rightarrow> nat" where
  "n_waiting m = count_where is_waiting_list (joined_links m)"

definition effective_max_members :: "limits_config \<Rightarrow> user \<Rightarrow> meetup \<Rightarrow> int option" where
  "effective_max_members cfg owner m =
     effective_participant_capacity cfg (u_supporter_level owner) (max_members m)"

definition full :: "limits_config \<Rightarrow> user \<Rightarrow> meetup \<Rightarrow> bool" where
  "full cfg owner m =
     (case effective_max_members cfg owner m of None \<Rightarrow> False | Some cap \<Rightarrow> int (n_participants m) \<ge> cap)"

definition is_in_progress :: "instant \<Rightarrow> meetup \<Rightarrow> bool" where
  "is_in_progress now m =
     (if \<not> active m then False
      else case datetime m of
        None \<Rightarrow> False
      | Some start \<Rightarrow>
          if now < start then False
          else case end_datetime m of None \<Rightarrow> True | Some stop \<Rightarrow> now < stop)"

definition attendance_is_open :: "instant \<Rightarrow> meetup \<Rightarrow> bool" where
  "attendance_is_open now m \<longleftrightarrow> \<not> (lock_on_start m \<and> is_in_progress now m)"

definition participants :: "meetup \<Rightarrow> joined_link list" where
  "participants m = filter (\<lambda>l. \<not> is_waiting_list l) (joined_links m)"

definition owner_attendance :: "meetup \<Rightarrow> joined_link option" where
  "owner_attendance m = first_where (\<lambda>l. u_id (l_user l) = owner_id m) (joined_links m)"

definition guest_links :: "meetup \<Rightarrow> joined_link list" where
  "guest_links m = filter (\<lambda>l. u_id (l_user l) \<noteq> owner_id m) (participants m)"

definition participant :: "int \<Rightarrow> meetup \<Rightarrow> joined_link option" where
  "participant user_id m = first_where (\<lambda>l. u_id (l_user l) = user_id) (participants m)"

definition has_participant :: "int \<Rightarrow> meetup \<Rightarrow> bool" where
  "has_participant user_id m \<longleftrightarrow> (\<exists>l \<in> set (joined_links m). u_id (l_user l) = user_id)"

definition has_invited_participant :: "int \<Rightarrow> meetup \<Rightarrow> bool" where
  "has_invited_participant user_id m \<longleftrightarrow>
     (\<exists>l \<in> set (joined_links m). case l_invited_by l of None \<Rightarrow> False | Some u \<Rightarrow> u_id u = user_id)"

definition join_allowed :: "limits_config \<Rightarrow> user \<Rightarrow> meetup \<Rightarrow> bool" where
  "join_allowed cfg owner m \<longleftrightarrow> \<not> full cfg owner m \<or> waiting_list m"

section \<open>The waiting list\<close>

text \<open>The sort key \<open>(created_time, id or 0)\<close>; tuples compare lexicographically.\<close>

definition wait_key :: "joined_link \<Rightarrow> instant \<times> int" where
  "wait_key l = (l_created_time l, case l_id l of None \<Rightarrow> 0 | Some i \<Rightarrow> i)"

text \<open>Positions of the waiting links, longest waiting first.\<close>

definition waiting_positions :: "meetup \<Rightarrow> nat list" where
  "waiting_positions m =
     sort_key (\<lambda>i. wait_key (joined_links m ! i))
       (filter (\<lambda>i. is_waiting_list (joined_links m ! i)) [0..<length (joined_links m)])"

definition waiting_links :: "meetup \<Rightarrow> joined_link list" where
  "waiting_links m = map (\<lambda>i. joined_links m ! i) (waiting_positions m)"

definition confirm_positions :: "nat set \<Rightarrow> joined_link list \<Rightarrow> joined_link list" where
  "confirm_positions ps links =
     map (\<lambda>(i, l). if i \<in> ps then l\<lparr>is_waiting_list := False\<rparr> else l) (enumerate 0 links)"

definition promote_from_waiting_list ::
    "limits_config \<Rightarrow> user \<Rightarrow> meetup \<Rightarrow> meetup \<times> joined_link list" where
  "promote_from_waiting_list cfg owner m =
     (let waiting = waiting_positions m in
      if waiting \<noteq> [] then
        let to_promote =
              (case effective_max_members cfg owner m of
                 None \<Rightarrow> int (n_waiting m)
               | Some cap \<Rightarrow> max (min (int (n_waiting m)) (cap - int (n_participants m))) 0);
            promoted = take (nat to_promote) waiting;
            links = confirm_positions (set promoted) (joined_links m)
        in (m\<lparr>joined_links := links\<rparr>, map (\<lambda>i. links ! i) promoted)
      else (m, []))"

text \<open>\<open>JoinedUsers.__eq__\<close> compares the hash of the stored columns other than the key and the timestamps.
  Both links belong to this meeting.\<close>

definition same_columns :: "joined_link \<Rightarrow> joined_link \<Rightarrow> bool" where
  "same_columns a b \<longleftrightarrow>
     u_id (l_user a) = u_id (l_user b) \<and>
     map_option u_id (l_invited_by a) = map_option u_id (l_invited_by b) \<and>
     is_waiting_list a = is_waiting_list b \<and> notification_sent a = notification_sent b"

text \<open>\<open>self.joined_links.remove(participant)\<close> takes out the first link equal to \<open>participant\<close>; when there
  is none it raises ValueError.\<close>

datatype meetup_error = LinkNotInMeeting

fun remove_first :: "('a \<Rightarrow> bool) \<Rightarrow> 'a list \<Rightarrow> 'a list option" where
  "remove_first P [] = None"
| "remove_first P (x # xs) = (if P x then Some xs else map_option ((#) x) (remove_first P xs))"

definition remove_participant ::
    "limits_config \<Rightarrow> user \<Rightarrow> joined_link \<Rightarrow> meetup \<Rightarrow> meetup_error + (meetup \<times> joined_link list)" where
  "remove_participant cfg owner link m =
     (case remove_first (same_columns link) (joined_links m) of
        None \<Rightarrow> Inl LinkNotInMeeting
      | Some links \<Rightarrow> Inr (promote_from_waiting_list cfg owner (m\<lparr>joined_links := links\<rparr>)))"

text \<open>Building the link with \<open>meetup=self\<close> already appends it to \<open>joined_links\<close>: the relation is declared
  with \<open>back_populates\<close>, and SQLAlchemy mirrors the many-to-one side into the collection. The
  membership test that follows is the code's guard for a session that did not.\<close>

definition back_populate :: "joined_link \<Rightarrow> meetup \<Rightarrow> meetup" where
  "back_populate l m = m\<lparr>joined_links := joined_links m @ [l]\<rparr>"

definition create_joined_link ::
    "instant \<Rightarrow> user \<Rightarrow> bool \<Rightarrow> user option \<Rightarrow> meetup \<Rightarrow> meetup \<times> joined_link" where
  "create_joined_link now u waiting invited_by m =
     (let link = \<lparr>l_id = None, l_user = u, l_invited_by = invited_by, l_created_time = now,
                  is_waiting_list = waiting, notification_sent = False\<rparr>;
          m1 = back_populate link m
      in if \<not> (\<exists>l \<in> set (joined_links m1). same_columns l link)
         then (m1\<lparr>joined_links := joined_links m1 @ [link]\<rparr>, link)
         else (m1, link))"

definition add_participant ::
    "limits_config \<Rightarrow> user \<Rightarrow> instant \<Rightarrow> user \<Rightarrow> user option \<Rightarrow> meetup \<Rightarrow> meetup \<times> joined_link option" where
  "add_participant cfg owner now u invited_by m =
     (if full cfg owner m then
        (if waiting_list m
         then (let (m', l) = create_joined_link now u True invited_by m in (m', Some l))
         else (m, None))
      else (let (m', l) = create_joined_link now u False invited_by m in (m', Some l)))"

section \<open>Times, stamps and text\<close>

definition enforce_datetime_ordering :: "'a meetup_row_scheme \<Rightarrow> 'a meetup_row_scheme \<times> bool" where
  "enforce_datetime_ordering m =
     (case (end_datetime m, datetime m) of
        (Some stop, Some start) \<Rightarrow>
          if start \<ge> stop then (m\<lparr>end_datetime := None, lock_on_start := False\<rparr>, True) else (m, False)
      | _ \<Rightarrow> (m, False))"

definition record_deletion_warning :: "instant \<Rightarrow> 'a meetup_row_scheme \<Rightarrow> 'a meetup_row_scheme" where
  "record_deletion_warning now m = m\<lparr>expiration_notification_sent := True, warned_time := Some now\<rparr>"

definition clear_deletion_warning :: "'a meetup_row_scheme \<Rightarrow> 'a meetup_row_scheme" where
  "clear_deletion_warning m = m\<lparr>expiration_notification_sent := False, warned_time := None\<rparr>"

definition meetup_policy :: "user \<Rightarrow> lifecycle_policy" where
  "meetup_policy owner = policy_get (Some (u_supporter_level owner))"

definition deletion_due_time :: "user \<Rightarrow> 'a meetup_row_scheme \<Rightarrow> instant option" where
  "deletion_due_time owner m =
     (let policy = meetup_policy owner;
          gates = (case expiration_time m of None \<Rightarrow> [] | Some t \<Rightarrow> [t + inactive_retention policy])
                @ (case warned_time m of None \<Rightarrow> [] | Some t \<Rightarrow> [t + deletion_warning_lead policy])
      in case gates of [] \<Rightarrow> None | g # gs \<Rightarrow> Some (max_by (\<lambda>t. t) g gs))"


text \<open>\<open>short_description\<close>, from the plain description. \<open>s.split(" ")\<close> followed by \<open>" ".join\<close> of all but
  the last part drops everything from the last space on; \<open>rstrip\<close> drops trailing white space, of
  which the model's characters know space, tab, newline and the other ASCII separators.\<close>

fun split_space :: "string \<Rightarrow> string list" where
  "split_space [] = [[]]"
| "split_space (c # s) =
     (if c = CHR '' '' then [] # split_space s
      else case split_space s of [] \<Rightarrow> [[c]] | w # ws \<Rightarrow> (c # w) # ws)"

fun join_space :: "string list \<Rightarrow> string" where
  "join_space [] = []"
| "join_space [w] = w"
| "join_space (w # ws) = w @ CHR '' '' # join_space ws"

definition is_space :: "char \<Rightarrow> bool" where
  "is_space c \<longleftrightarrow> c \<in> {CHR '' '', CHR 0x09, CHR 0x0A, CHR 0x0B, CHR 0x0C, CHR 0x0D}"

definition rstrip :: "string \<Rightarrow> string" where
  "rstrip s = rev (dropWhile is_space (rev s))"

definition short_description :: "string option \<Rightarrow> string option" where
  "short_description plain =
     (case plain of None \<Rightarrow> None
      | Some description \<Rightarrow>
          if length description \<le> 30 then Some description
          else if description ! 30 \<noteq> CHR '' '' \<and> description ! 29 \<noteq> CHR '' ''
          then Some (join_space (butlast (split_space (take 30 description))) @ '' ...'')
          else Some (join_space (split_space (rstrip (take 30 description))) @ '' ...''))"

section \<open>Counting participants\<close>

lemma count_where_card: "count_where P xs = card {i. i < length xs \<and> P (xs ! i)}"
  by (simp add: count_where_def length_filter_conv_card)

lemma n_participants_n_waiting: "n_participants m + n_waiting m = length (joined_links m)"
  using count_where_split [of "\<lambda>_. True" "joined_links m" is_waiting_list]
  by (simp add: n_participants_def n_waiting_def)

lemma set_waiting_positions [simp]:
  "set (waiting_positions m) = {i. i < length (joined_links m) \<and> is_waiting_list (joined_links m ! i)}"
  by (auto simp: waiting_positions_def)

lemma distinct_waiting_positions [simp]: "distinct (waiting_positions m)"
  by (simp add: waiting_positions_def)

lemma length_waiting_positions [simp]: "length (waiting_positions m) = n_waiting m"
proof -
  have "length (waiting_positions m) = card (set (waiting_positions m))"
    by (simp only: distinct_card distinct_waiting_positions)
  then show ?thesis by (simp add: n_waiting_def count_where_card)
qed

lemma sorted_waiting_positions: "sorted (map (\<lambda>i. wait_key (joined_links m ! i)) (waiting_positions m))"
  by (simp add: waiting_positions_def)

lemma confirm_positions_length [simp]: "length (confirm_positions ps links) = length links"
  by (simp add: confirm_positions_def)

lemma confirm_positions_nth [simp]:
  "i < length links \<Longrightarrow> confirm_positions ps links ! i =
     (if i \<in> ps then (links ! i)\<lparr>is_waiting_list := False\<rparr> else links ! i)"
  by (simp add: confirm_positions_def nth_enumerate_eq)

lemma count_confirm_positions:
  assumes "ps \<subseteq> {i. i < length links \<and> is_waiting_list (links ! i)}"
  shows "count_where is_waiting_list (confirm_positions ps links) + card ps = count_where is_waiting_list links"
proof -
  let ?W = "{i. i < length links \<and> is_waiting_list (links ! i)}"
  have fin: "finite ?W" by simp
  have "{i. i < length links \<and> is_waiting_list (confirm_positions ps links ! i)} = ?W - ps"
    by (auto split: if_splits)
  with assms fin show ?thesis
    by (simp add: count_where_card card_Diff_subset finite_subset card_mono)
qed

lemma n_participants_eq: "n_participants m = length (joined_links m) - n_waiting m"
  using n_participants_n_waiting [of m] by simp

lemma n_waiting_le: "n_waiting m \<le> length (joined_links m)"
  using n_participants_n_waiting [of m] by simp

lemma effective_max_members_links [simp]:
  "effective_max_members cfg owner (m\<lparr>joined_links := links\<rparr>) = effective_max_members cfg owner m"
  by (simp add: effective_max_members_def)

section \<open>Promotion\<close>

definition promotion_count :: "limits_config \<Rightarrow> user \<Rightarrow> meetup \<Rightarrow> nat" where
  "promotion_count cfg owner m =
     nat (case effective_max_members cfg owner m of
            None \<Rightarrow> int (n_waiting m)
          | Some cap \<Rightarrow> max (min (int (n_waiting m)) (cap - int (n_participants m))) 0)"

lemma promotion_count_le: "promotion_count cfg owner m \<le> n_waiting m"
  by (auto simp: promotion_count_def split: option.splits)

lemma promote_unfold:
  "promote_from_waiting_list cfg owner m =
     (let promoted = take (promotion_count cfg owner m) (waiting_positions m);
          links = confirm_positions (set promoted) (joined_links m)
      in (m\<lparr>joined_links := links\<rparr>, map (\<lambda>i. links ! i) promoted))"
proof (cases "waiting_positions m = []")
  case True
  have "confirm_positions {} (joined_links m) = joined_links m"
    by (rule nth_equalityI) auto
  with True show ?thesis by (simp add: promote_from_waiting_list_def Let_def)
next
  case False
  then show ?thesis
    by (simp add: promote_from_waiting_list_def promotion_count_def Let_def split: option.splits)
qed

lemma promote_counts:
  fixes cfg owner m
  defines "m' \<equiv> fst (promote_from_waiting_list cfg owner m)"
  shows "n_waiting m' = n_waiting m - promotion_count cfg owner m"
    and "n_participants m' = n_participants m + promotion_count cfg owner m"
    and "length (snd (promote_from_waiting_list cfg owner m)) = promotion_count cfg owner m"
proof -
  let ?p = "take (promotion_count cfg owner m) (waiting_positions m)"
  have card: "card (set ?p) = promotion_count cfg owner m"
    using promotion_count_le [of cfg owner m] by (simp add: distinct_card)
  have "set ?p \<subseteq> {i. i < length (joined_links m) \<and> is_waiting_list (joined_links m ! i)}"
    using set_take_subset [of _ "waiting_positions m"] by auto
  from count_confirm_positions [OF this] card
  have w: "n_waiting m' + promotion_count cfg owner m = n_waiting m"
    by (simp add: m'_def promote_unfold Let_def n_waiting_def)
  then show "n_waiting m' = n_waiting m - promotion_count cfg owner m" by simp
  have "length (joined_links m') = length (joined_links m)"
    by (simp add: m'_def promote_unfold Let_def)
  with w show "n_participants m' = n_participants m + promotion_count cfg owner m"
    using n_waiting_le [of m] by (simp add: n_participants_eq)
  show "length (snd (promote_from_waiting_list cfg owner m)) = promotion_count cfg owner m"
    using promotion_count_le [of cfg owner m] by (simp add: promote_unfold Let_def)
qed

lemma promote_frame [simp]:
  "effective_max_members cfg owner (fst (promote_from_waiting_list cfg owner m)) =
   effective_max_members cfg owner m"
  "waiting_list (fst (promote_from_waiting_list cfg owner m)) = waiting_list m"
  by (simp_all add: promote_unfold Let_def)

lemma full_iff:
  "full cfg owner m \<longleftrightarrow> (\<exists>cap. effective_max_members cfg owner m = Some cap \<and> cap \<le> int (n_participants m))"
  by (auto simp: full_def split: option.splits)

lemma promote_fills:
  assumes "0 < n_waiting (fst (promote_from_waiting_list cfg owner m))"
  shows "full cfg owner (fst (promote_from_waiting_list cfg owner m))"
  using assms promotion_count_le [of cfg owner m]
  by (auto simp: full_def promote_counts promotion_count_def split: option.splits)

lemma promote_within_cap:
  assumes "within_cap (int (n_participants m)) (effective_max_members cfg owner m)"
  shows "within_cap (int (n_participants (fst (promote_from_waiting_list cfg owner m))))
           (effective_max_members cfg owner m)"
  using assms by (auto simp: promote_counts promotion_count_def split: option.splits)


definition confirm :: "joined_link \<Rightarrow> joined_link" where
  "confirm l = l\<lparr>is_waiting_list := False\<rparr>"

lemma confirm_simps [simp]:
  "is_waiting_list (confirm l) = False" "wait_key (confirm l) = wait_key l" "l_user (confirm l) = l_user l"
  by (simp_all add: confirm_def wait_key_def)

lemma promote_positions:
  defines "promoted cfg owner m \<equiv> take (promotion_count cfg owner m) (waiting_positions m)"
  shows "i < length (joined_links m) \<Longrightarrow>
    joined_links (fst (promote_from_waiting_list cfg owner m)) ! i =
      (if i \<in> set (promoted cfg owner m) then confirm (joined_links m ! i) else joined_links m ! i)"
  by (simp add: promote_unfold Let_def promoted_def confirm_def)

lemma promote_links:
  "snd (promote_from_waiting_list cfg owner m) =
     map confirm (take (promotion_count cfg owner m) (waiting_links m))"
proof -
  have "i < length (joined_links m)" if "i \<in> set (take (promotion_count cfg owner m) (waiting_positions m))" for i
    using that set_take_subset [of _ "waiting_positions m"] by auto
  then show ?thesis
    by (simp add: promote_unfold Let_def waiting_links_def take_map confirm_def)
qed

lemma promote_same_people:
  "map confirm (joined_links (fst (promote_from_waiting_list cfg owner m))) = map confirm (joined_links m)"
proof (rule nth_equalityI)
  show "length (map confirm (joined_links (fst (promote_from_waiting_list cfg owner m)))) =
      length (map confirm (joined_links m))"
    by (simp add: promote_unfold Let_def)
next
  fix i
  assume "i < length (map confirm (joined_links (fst (promote_from_waiting_list cfg owner m))))"
  then have "i < length (joined_links m)" by (simp add: promote_unfold Let_def)
  then show "map confirm (joined_links (fst (promote_from_waiting_list cfg owner m))) ! i =
      map confirm (joined_links m) ! i"
    by (simp add: promote_unfold Let_def confirm_def)
qed

lemma take_before_drop:
  assumes "sorted (map f xs)" and "distinct xs" and "x \<in> set (take k xs)" and "y \<in> set xs" and "y \<notin> set (take k xs)"
  shows "f x \<le> f y"
proof -
  have "y \<in> set (drop k xs)"
    using assms(4,5) by (metis Un_iff append_take_drop_id set_append)
  moreover have "sorted (map f (take k xs) @ map f (drop k xs))"
    using assms(1) by (simp flip: map_append)
  ultimately show ?thesis using assms(3) by (auto simp: sorted_append)
qed

lemma promote_fifo:
  assumes "p \<in> set (snd (promote_from_waiting_list cfg owner m))"
    and "w \<in> set (joined_links (fst (promote_from_waiting_list cfg owner m)))" and "is_waiting_list w"
  shows "wait_key p \<le> wait_key w"
proof -
  let ?k = "promotion_count cfg owner m"
  from assms(1) obtain i where i: "i \<in> set (take ?k (waiting_positions m))"
    and p: "wait_key p = wait_key (joined_links m ! i)"
    by (auto simp: promote_links waiting_links_def take_map)
  from assms(2) obtain j where j: "j < length (joined_links m)"
    and w: "w = joined_links (fst (promote_from_waiting_list cfg owner m)) ! j"
    by (auto simp: in_set_conv_nth promote_unfold Let_def)
  from assms(3) w j have "j \<notin> set (take ?k (waiting_positions m))" and wj: "w = joined_links m ! j"
    by (auto simp: promote_positions split: if_splits)
  moreover have "j \<in> set (waiting_positions m)" using assms(3) j wj by simp
  ultimately show ?thesis
    using take_before_drop [OF sorted_waiting_positions distinct_waiting_positions i, of j] p by simp
qed

text \<open>Promotion: exactly the free places are filled, the longest waiting first, nobody is added,
  dropped or demoted, and no place stays free while somebody waits.\<close>

theorem promote_from_waiting_list_correct:
  "promote_from_waiting_list cfg owner m = (m', promoted) \<Longrightarrow>
     promoted = map confirm (take (promotion_count cfg owner m) (waiting_links m)) \<and>
     map confirm (joined_links m') = map confirm (joined_links m) \<and>
     n_participants m' = n_participants m + length promoted \<and>
     (\<forall>p \<in> set promoted. \<forall>w \<in> set (joined_links m'). is_waiting_list w \<longrightarrow> wait_key p \<le> wait_key w) \<and>
     (0 < n_waiting m' \<longrightarrow> full cfg owner m') \<and>
     (within_cap (int (n_participants m)) (effective_max_members cfg owner m) \<longrightarrow>
      within_cap (int (n_participants m')) (effective_max_members cfg owner m'))"
  using promote_links [of cfg owner m] promote_same_people [of cfg owner m] promote_counts(2,3) [of cfg owner m]
    promote_fifo [of _ cfg owner m] promote_fills [of cfg owner m] promote_within_cap [of m cfg owner]
    promote_frame(1) [of cfg owner m]
  by simp

section \<open>Joining and leaving\<close>

lemma create_joined_link_unfold:
  "create_joined_link now u w ib m =
     (let link = \<lparr>l_id = None, l_user = u, l_invited_by = ib, l_created_time = now,
                  is_waiting_list = w, notification_sent = False\<rparr>
      in (m\<lparr>joined_links := joined_links m @ [link]\<rparr>, link))"
  by (simp add: create_joined_link_def back_populate_def Let_def same_columns_def)

lemma remove_first_Some:
  "remove_first P xs = Some ys \<Longrightarrow> \<exists>as x bs. xs = as @ x # bs \<and> ys = as @ bs \<and> P x \<and> (\<forall>a \<in> set as. \<not> P a)"
proof (induction xs arbitrary: ys)
  case Nil
  then show ?case by simp
next
  case (Cons x xs)
  show ?case
  proof (cases "P x")
    case True
    with Cons.prems show ?thesis by (intro exI [of _ "[]"]) auto
  next
    case False
    with Cons.prems obtain zs where zs: "remove_first P xs = Some zs" "ys = x # zs" by auto
    from Cons.IH [OF zs(1)] obtain as y bs where
      "xs = as @ y # bs" "zs = as @ bs" "P y" "\<forall>a \<in> set as. \<not> P a" by blast
    with zs(2) False show ?thesis
      by (intro exI [of _ "x # as"] exI [of _ y] exI [of _ bs]) auto
  qed
qed

lemma remove_first_None: "remove_first P xs = None \<longleftrightarrow> (\<forall>x \<in> set xs. \<not> P x)"
  by (induction xs) auto

lemma count_where_append [simp]: "count_where P (xs @ ys) = count_where P xs + count_where P ys"
  by (induction xs) auto

text \<open>The roster invariant: the confirmed participants never exceed the enforced capacity, and nobody
  waits while a place is free.\<close>

definition roster_ok :: "limits_config \<Rightarrow> user \<Rightarrow> meetup \<Rightarrow> bool" where
  "roster_ok cfg owner m \<longleftrightarrow>
     within_cap (int (n_participants m)) (effective_max_members cfg owner m) \<and>
     (0 < n_waiting m \<longrightarrow> full cfg owner m)"

lemma within_cap_less: "within_cap a c \<Longrightarrow> b \<le> a \<Longrightarrow> within_cap b c"
  by (cases c) auto

lemma add_participant_unfold:
  "add_participant cfg owner now u ib m =
     (if full cfg owner m \<and> \<not> waiting_list m then (m, None)
      else let (m', l) = create_joined_link now u (full cfg owner m) ib m in (m', Some l))"
  by (simp add: add_participant_def)

lemma add_participant_roster_ok:
  assumes "roster_ok cfg owner m"
  shows "roster_ok cfg owner (fst (add_participant cfg owner now u ib m))"
  using assms
  by (auto simp: add_participant_unfold create_joined_link_unfold roster_ok_def full_def n_participants_def
        n_waiting_def Let_def split: option.splits)

lemma remove_participant_roster_ok:
  assumes "roster_ok cfg owner m" and "remove_participant cfg owner link m = Inr (m', promoted)"
  shows "roster_ok cfg owner m'"
proof -
  from assms(2) obtain links where links: "remove_first (same_columns link) (joined_links m) = Some links"
    and m': "m' = fst (promote_from_waiting_list cfg owner (m\<lparr>joined_links := links\<rparr>))"
    by (auto simp: remove_participant_def split: option.splits)
  let ?m = "m\<lparr>joined_links := links\<rparr>"
  from remove_first_Some [OF links] have "n_participants ?m \<le> n_participants m"
    by (auto simp: n_participants_def)
  with assms(1) have "within_cap (int (n_participants ?m)) (effective_max_members cfg owner ?m)"
    by (auto simp: roster_ok_def intro: within_cap_less)
  from promote_within_cap [OF this] promote_fills [of cfg owner ?m] show ?thesis
    by (simp add: m' roster_ok_def)
qed

datatype roster_event = Join instant user "user option" | Leave joined_link | Promote

fun roster_step :: "limits_config \<Rightarrow> user \<Rightarrow> roster_event \<Rightarrow> meetup \<Rightarrow> meetup" where
  "roster_step cfg owner (Join now u ib) m = fst (add_participant cfg owner now u ib m)"
| "roster_step cfg owner (Leave link) m =
     (case remove_participant cfg owner link m of Inl _ \<Rightarrow> m | Inr (m', _) \<Rightarrow> m')"
| "roster_step cfg owner Promote m = fst (promote_from_waiting_list cfg owner m)"

lemma roster_step_ok: "roster_ok cfg owner m \<Longrightarrow> roster_ok cfg owner (roster_step cfg owner e m)"
proof (cases e)
  case (Join now u ib)
  assume "roster_ok cfg owner m"
  then show ?thesis by (simp add: Join add_participant_roster_ok)
next
  case (Leave link)
  assume "roster_ok cfg owner m"
  then show ?thesis by (auto simp: Leave remove_participant_roster_ok split: sum.splits)
next
  case Promote
  assume "roster_ok cfg owner m"
  then show ?thesis
    using promote_within_cap [of m cfg owner] promote_fills [of cfg owner m]
    by (simp add: Promote roster_ok_def)
qed

interpretation roster: invariant_system "det (roster_step cfg owner)" "roster_ok cfg owner" for cfg owner
  by unfold_locales (simp add: roster_step_ok)

text \<open>C5. Over any history of joins, leaves and promotions, a meeting that starts within its capacity
  (an empty one always does when the cap is not negative) never holds more confirmed participants than
  the enforced capacity, and never keeps somebody waiting while a place is free.\<close>

theorem roster_history_ok:
  assumes "roster_ok cfg owner m"
  shows "roster_ok cfg owner (fold (roster_step cfg owner) events m)"
  using roster.steps_inv [of cfg owner m events] assms by (simp add: steps_det)

text \<open>\<open>add_participant\<close> on every branch: a place, the waiting list, or a refusal exactly when
  \<open>join_allowed\<close> is false; nobody already in the meeting is touched.\<close>

theorem add_participant_branches:
  "add_participant cfg owner now u ib m =
     (if join_allowed cfg owner m
      then let l = \<lparr>l_id = None, l_user = u, l_invited_by = ib, l_created_time = now,
                    is_waiting_list = full cfg owner m, notification_sent = False\<rparr>
           in (m\<lparr>joined_links := joined_links m @ [l]\<rparr>, Some l)
      else (m, None))"
  by (auto simp: add_participant_unfold create_joined_link_unfold join_allowed_def Let_def)

text \<open>Leaving: the link goes, everybody else stays in order, the people promoted are exactly those
  who fit and come from the waiting list; a link that is not in the meeting is an error.\<close>

theorem remove_participant_correct:
  "(\<forall>m' promoted. remove_participant cfg owner link m = Inr (m', promoted) \<longrightarrow>
     (\<exists>as l bs. joined_links m = as @ l # bs \<and> same_columns link l \<and>
        map confirm (joined_links m') = map confirm (as @ bs) \<and>
        promoted = map confirm (take (length promoted) (waiting_links (m\<lparr>joined_links := as @ bs\<rparr>))) \<and>
        (0 < n_waiting m' \<longrightarrow> full cfg owner m'))) \<and>
   (remove_participant cfg owner link m = Inl LinkNotInMeeting \<longleftrightarrow>
      (\<forall>l \<in> set (joined_links m). \<not> same_columns link l))"
proof (intro conjI allI impI)
  fix m' promoted
  assume *: "remove_participant cfg owner link m = Inr (m', promoted)"
  then obtain links where links: "remove_first (same_columns link) (joined_links m) = Some links"
    and p: "promote_from_waiting_list cfg owner (m\<lparr>joined_links := links\<rparr>) = (m', promoted)"
    by (auto simp: remove_participant_def split: option.splits)
  from remove_first_Some [OF links] obtain as l bs where
    split: "joined_links m = as @ l # bs" "links = as @ bs" "same_columns link l" by blast
  let ?m = "m\<lparr>joined_links := as @ bs\<rparr>"
  have "map confirm (joined_links m') = map confirm (as @ bs)"
    and "promoted = map confirm (take (length promoted) (waiting_links ?m))"
    and "0 < n_waiting m' \<longrightarrow> full cfg owner m'"
    using promote_same_people [of cfg owner ?m] promote_links [of cfg owner ?m]
      promote_counts(3) [of cfg owner ?m] promote_fills [of cfg owner ?m] p split by simp_all
  with split show "\<exists>as l bs. joined_links m = as @ l # bs \<and> same_columns link l \<and>
        map confirm (joined_links m') = map confirm (as @ bs) \<and>
        promoted = map confirm (take (length promoted) (waiting_links (m\<lparr>joined_links := as @ bs\<rparr>))) \<and>
        (0 < n_waiting m' \<longrightarrow> full cfg owner m')"
    by (intro exI conjI)
next
  show "remove_participant cfg owner link m = Inl LinkNotInMeeting \<longleftrightarrow>
      (\<forall>l \<in> set (joined_links m). \<not> same_columns link l)"
    by (simp add: remove_participant_def remove_first_None [symmetric] split: option.splits)
qed


section \<open>Short description\<close>

lemma split_space_nonempty [simp]: "split_space s \<noteq> []"
  by (induction s) (auto split: list.splits)

lemma join_space_Cons: "ws \<noteq> [] \<Longrightarrow> join_space (w # ws) = w @ CHR '' '' # join_space ws"
  by (cases ws) auto

lemma join_split_space [simp]: "join_space (split_space s) = s"
proof (induction s)
  case Nil
  then show ?case by simp
next
  case (Cons c s)
  obtain w ws where w: "split_space s = w # ws" by (cases "split_space s") auto
  with Cons.IH show ?case by (cases ws) (auto simp: join_space_Cons)
qed

lemma join_space_snoc: "join_space (ws @ [w]) = (if ws = [] then w else join_space ws @ CHR '' '' # w)"
  by (induction ws) (auto simp: join_space_Cons)

lemma split_space_no_space: "CHR '' '' \<notin> set s \<Longrightarrow> split_space s = [s]"
  by (induction s) auto

lemma join_butlast_prefix: "\<exists>n \<le> length s. join_space (butlast (split_space s)) = take n s"
proof -
  let ?ws = "butlast (split_space s)" and ?w = "last (split_space s)"
  have s: "s = (if ?ws = [] then ?w else join_space ?ws @ CHR '' '' # ?w)"
    using join_space_snoc [of ?ws ?w] by (simp add: append_butlast_last_id)
  show ?thesis
  proof (cases "?ws = []")
    case True
    then show ?thesis by (intro exI [of _ 0]) simp
  next
    case False
    with s have "s = join_space ?ws @ CHR '' '' # ?w" by simp
    then show ?thesis by (metis append_eq_conv_conj le_add1 length_append)
  qed
qed

lemma rstrip_prefix: "\<exists>n \<le> length s. rstrip s = take n s"
proof -
  have "rev s = takeWhile is_space (rev s) @ dropWhile is_space (rev s)" by simp
  then have "s = rstrip s @ rev (takeWhile is_space (rev s))"
    unfolding rstrip_def by (metis rev_append rev_rev_ident)
  then show ?thesis by (metis append_eq_conv_conj le_add1 length_append)
qed

text \<open>The inline description is the whole description when it has at most 30 characters, otherwise a
  prefix of at most 30 of its characters followed by an ellipsis: never longer than 34 characters.\<close>

theorem short_description_bounds:
  "short_description (Some d) = Some r \<Longrightarrow>
     length r \<le> 34 \<and> (if length d \<le> 30 then r = d else \<exists>n \<le> 30. r = take n d @ '' ...'')"
proof -
  assume r: "short_description (Some d) = Some r"
  show ?thesis
  proof (cases "length d \<le> 30")
    case True
    with r show ?thesis by (auto simp: short_description_def)
  next
    case False
    with r consider
        "r = join_space (butlast (split_space (take 30 d))) @ '' ...''"
      | "r = rstrip (take 30 d) @ '' ...''"
      by (auto simp: short_description_def split: if_splits)
    then obtain p where r': "r = p @ '' ...''" and "\<exists>n \<le> length (take 30 d). p = take n (take 30 d)"
      using join_butlast_prefix [of "take 30 d"] rstrip_prefix [of "take 30 d"] by cases blast+
    then obtain n where "n \<le> 30" and "p = take n d" using False by (auto simp: min_def)
    with r' False show ?thesis by auto
  qed
qed

text \<open>A description whose first 31 characters hold no space loses all of its text: the inline
  description is the bare ellipsis.\<close>

theorem short_description_one_word:
  "length d > 30 \<Longrightarrow> CHR '' '' \<notin> set (take 31 d) \<Longrightarrow> short_description (Some d) = Some '' ...''"
proof -
  assume len: "length d > 30" and ns: "CHR '' '' \<notin> set (take 31 d)"
  have nth: "d ! i \<in> set (take 31 d)" if "i < 31" for i
    using that len by (auto simp: in_set_conv_nth intro: exI [of _ i])
  have "set (take 30 d) \<subseteq> set (take 31 d)" by (rule set_take_subset_set_take) simp
  with ns have "split_space (take 30 d) = [take 30 d]" by (intro split_space_no_space) blast
  moreover have "d ! 30 \<noteq> CHR '' ''" and "d ! 29 \<noteq> CHR '' ''"
    using ns nth [of 30] nth [of 29] by auto
  ultimately show ?thesis using len by (simp add: short_description_def)
qed

section \<open>Times and stamps\<close>

text \<open>\<open>enforce_datetime_ordering\<close> leaves a meeting whose end, if any, lies strictly after its start,
  and lifts the start lock exactly when it had to clear the end; doing it again changes nothing.\<close>

theorem enforce_datetime_ordering_correct:
  "enforce_datetime_ordering m = (m', cleared) \<Longrightarrow>
     (\<forall>start stop. datetime m' = Some start \<longrightarrow> end_datetime m' = Some stop \<longrightarrow> start < stop) \<and>
     datetime m' = datetime m \<and>
     (cleared \<longleftrightarrow> end_datetime m' \<noteq> end_datetime m) \<and> (cleared \<longrightarrow> \<not> lock_on_start m') \<and>
     (\<not> cleared \<longrightarrow> m' = m) \<and> enforce_datetime_ordering m' = (m', False)"
  by (auto simp: enforce_datetime_ordering_def split: option.splits if_splits)

lemma deletion_due_time_cases:
  "deletion_due_time owner m =
     (case (expiration_time m, warned_time m) of
        (None, None) \<Rightarrow> None
      | (Some e, None) \<Rightarrow> Some (e + inactive_retention (meetup_policy owner))
      | (None, Some w) \<Rightarrow> Some (w + deletion_warning_lead (meetup_policy owner))
      | (Some e, Some w) \<Rightarrow>
          Some (max (e + inactive_retention (meetup_policy owner)) (w + deletion_warning_lead (meetup_policy owner))))"
  by (auto simp: deletion_due_time_def Let_def max_def split: option.splits)

text \<open>Attendance is frozen exactly while a locked, active meeting runs: between its start and its
  end when it has one, from its start on when it has none.\<close>

theorem attendance_frozen_iff:
  "\<not> attendance_is_open now m \<longleftrightarrow>
     lock_on_start m \<and> active m \<and>
     (\<exists>start. datetime m = Some start \<and> start \<le> now \<and>
        (\<forall>stop. end_datetime m = Some stop \<longrightarrow> now < stop))"
  by (auto simp: attendance_is_open_def is_in_progress_def split: option.splits)

end
