(* ===== verification/Meetup_Examples.thy ===== *)
theory Meetup_Examples
  imports Meetups
begin

text \<open>
  A meeting of an owner without a tier, with room for one: one confirmed participant and two waiting.
  Every property of \<^verbatim>\<open>Meetups\<close> that has a hypothesis is applied to it.
\<close>

definition ex_user :: "int \<Rightarrow> user" where
  "ex_user i = \<lparr>u_id = i, tg_user_id = 700 + i, first_name = ''Ada'', username = None, status = MEMBER,
     u_created_time = None, left_time = None, member_time = None, u_supporter_level = NONE,
     granted_supporter_level = NONE, u_settings = default_settings\<rparr>"

definition ex_link :: "int \<Rightarrow> bool \<Rightarrow> joined_link" where
  "ex_link i waiting = \<lparr>l_id = Some i, l_user = ex_user i, l_invited_by = None, l_created_time = 10 - i,
     is_waiting_list = waiting, notification_sent = False\<rparr>"

definition ex_meetup :: meetup where
  "ex_meetup = \<lparr>m_id = 1, owner_id = 0, waiting_list = True, public = False, allow_invitation = True, incognito = False,
     lock_on_start = True, show_timezone = False, clock_24h = True, date_format = DEFAULT,
     expiration_notification_sent = False, started_notification_sent = False, datetime = Some 100,
     end_datetime = Some 100, activated_time = 0, expiration_time = None, warned_time = None,
     max_members = Some 1, active = True, joined_links = [ex_link 2 True, ex_link 3 True]\<rparr>"

lemmas ex_meetup_defs = ex_meetup_def ex_link_def ex_user_def

text \<open>Person 3 has waited longer than person 2 and gets the place.\<close>

theorem promote_from_waiting_list_correct_witness:
  "\<exists>m' promoted. promote_from_waiting_list default_limits (ex_user 0) ex_meetup = (m', promoted) \<and>
     n_participants m' = n_participants ex_meetup + length promoted \<and>
     promoted = map confirm (take (promotion_count default_limits (ex_user 0) ex_meetup) (waiting_links ex_meetup)) \<and>
     map l_id promoted = [Some 3]"
proof -
  obtain m' promoted where run: "promote_from_waiting_list default_limits (ex_user 0) ex_meetup = (m', promoted)"
    by (meson surj_pair)
  have "map l_id (snd (promote_from_waiting_list default_limits (ex_user 0) ex_meetup)) = [Some 3]" by code_simp
  with promote_from_waiting_list_correct [OF run] run show ?thesis by auto
qed

theorem roster_history_ok_witness:
  "roster_ok default_limits (ex_user 0)
     (fold (roster_step default_limits (ex_user 0)) [Join 5 (ex_user 4) None, Leave (ex_link 2 True)]
       (ex_meetup\<lparr>joined_links := []\<rparr>))"
  by (rule roster_history_ok) (simp add: roster_ok_def n_waiting_def n_participants_def, code_simp)

theorem remove_participant_correct_witness:
  "\<exists>m' promoted. remove_participant default_limits (ex_user 0) (ex_link 2 True) ex_meetup = Inr (m', promoted) \<and>
     map confirm (joined_links m') = map confirm [ex_link 3 True] \<and> (0 < n_waiting m' \<longrightarrow> full default_limits (ex_user 0) m')"
proof -
  have "case remove_participant default_limits (ex_user 0) (ex_link 2 True) ex_meetup of Inl _ \<Rightarrow> False
      | Inr (m', promoted) \<Rightarrow> map (u_id \<circ> l_user) (joined_links m') = [3]"
    by code_simp
  then obtain m' promoted where run: "remove_participant default_limits (ex_user 0) (ex_link 2 True) ex_meetup = Inr (m', promoted)"
    by (auto split: sum.splits)
  from remove_participant_correct [of default_limits "ex_user 0" "ex_link 2 True" ex_meetup] run
  obtain as l bs where "joined_links ex_meetup = as @ l # bs" "same_columns (ex_link 2 True) l"
    "map confirm (joined_links m') = map confirm (as @ bs)" "0 < n_waiting m' \<longrightarrow> full default_limits (ex_user 0) m'"
    by blast
  moreover have "as = [] \<and> bs = [ex_link 3 True]"
    using calculation(1,2) by (auto simp: ex_meetup_defs same_columns_def append_eq_Cons_conv Cons_eq_append_conv)
  ultimately show ?thesis using run by auto
qed

text \<open>The meeting that locks its roster at the start has begun and has not ended.\<close>

theorem attendance_frozen_iff_witness:
  "\<not> attendance_is_open 120 (ex_meetup\<lparr>end_datetime := Some 200\<rparr>)"
  by (subst attendance_frozen_iff) (simp add: ex_meetup_def)

theorem short_description_bounds_witness:
  "\<exists>r. short_description (Some ''A walk in the park, then lunch together'') = Some r \<and> length r \<le> 34 \<and>
     (\<exists>n \<le> 30. r = take n ''A walk in the park, then lunch together'' @ '' ...'')"
proof -
  let ?d = "''A walk in the park, then lunch together''"
  obtain r where r: "short_description (Some ?d) = Some r"
    by (auto simp: short_description_def)
  have "\<not> length ?d \<le> 30" by simp
  with short_description_bounds [OF r] r show ?thesis by metis
qed

theorem short_description_one_word_witness:
  "short_description (Some (replicate 40 (CHR ''x''))) = Some '' ...''"
  by (rule short_description_one_word) simp_all

theorem enforce_datetime_ordering_correct_witness:
  "\<exists>m'. enforce_datetime_ordering ex_meetup = (m', True) \<and> end_datetime m' = None \<and> \<not> lock_on_start m'"
proof -
  obtain m' where m': "enforce_datetime_ordering ex_meetup = (m', True)"
    by (simp add: enforce_datetime_ordering_def ex_meetup_def)
  from enforce_datetime_ordering_correct [OF m'] m' show ?thesis
    by (auto simp: enforce_datetime_ordering_def ex_meetup_def)
qed

end
