(* ===== verification/Pending_Links.thy ===== *)
theory Pending_Links
  imports Supporter Transition
begin

text \<open>
  Pairing codes: \<^verbatim>\<open>libs/patreon/mitup_bot/patreon/pairing.py\<close> and \<^verbatim>\<open>pending_links.py\<close>, the rows that
  bind a proven Patreon identity to the Telegram account that confirms it. The hash is a parameter
  \<open>hash_pairing_code\<close> (SHA-256 in the code); the drawn code is an argument of staging, being random.
  The statements of one transaction read one database clock \<open>now\<close>.
\<close>

section \<open>Rows and statements\<close>

definition PAIRING_CODE_TTL_SECONDS :: int where "PAIRING_CODE_TTL_SECONDS = 900"
definition PAIRING_DEEP_LINK_PREFIX :: string where "PAIRING_DEEP_LINK_PREFIX = ''patreonlink''"

definition pairing_deep_link :: "string \<Rightarrow> string \<Rightarrow> string" where
  "pairing_deep_link bot_username code =
     ''https://t.me/'' @ bot_username @ ''?start='' @ PAIRING_DEEP_LINK_PREFIX @ ''_'' @ code"

record 'h pending_link =
  code_hash :: 'h
  pl_patreon_user_id :: string
  pl_full_name :: "string option"
  pl_supporter_level :: supporter_level
  expiration :: instant
  claimed_tg_user_id :: "int option"
  claimed_time :: "instant option"
  consumed_time :: "instant option"

record claimed_link =
  cl_patreon_user_id :: string
  cl_full_name :: "string option"
  granted_level :: supporter_level

definition stage_pending_link ::
    "(string \<Rightarrow> 'h) \<Rightarrow> instant \<Rightarrow> string \<Rightarrow> string \<Rightarrow> string option \<Rightarrow> supporter_level \<Rightarrow>
     'h pending_link list \<Rightarrow> 'h pending_link list \<times> string" where
  "stage_pending_link hash_pairing_code now code patreon_user_id full_name level rows =
     (rows @ [\<lparr>code_hash = hash_pairing_code code, pl_patreon_user_id = patreon_user_id,
        pl_full_name = full_name, pl_supporter_level = level,
        expiration = now + seconds PAIRING_CODE_TTL_SECONDS,
        claimed_tg_user_id = None, claimed_time = None, consumed_time = None\<rparr>], code)"

definition live_row_predicate :: "'h \<Rightarrow> instant \<Rightarrow> 'h pending_link \<Rightarrow> bool" where
  "live_row_predicate h now row \<longleftrightarrow> code_hash row = h \<and> consumed_time row = None \<and> expiration row > now"

definition claim_matches :: "'h \<Rightarrow> instant \<Rightarrow> int \<Rightarrow> 'h pending_link \<Rightarrow> bool" where
  "claim_matches h now tg row \<longleftrightarrow>
     live_row_predicate h now row \<and> (claimed_tg_user_id row = None \<or> claimed_tg_user_id row = Some tg)"

definition consume_matches :: "'h \<Rightarrow> instant \<Rightarrow> int \<Rightarrow> 'h pending_link \<Rightarrow> bool" where
  "consume_matches h now tg row \<longleftrightarrow> live_row_predicate h now row \<and> claimed_tg_user_id row = Some tg"

definition to_claimed_link :: "'h pending_link option \<Rightarrow> claimed_link option" where
  "to_claimed_link row = (case row of None \<Rightarrow> None
     | Some r \<Rightarrow> Some \<lparr>cl_patreon_user_id = pl_patreon_user_id r, cl_full_name = pl_full_name r,
                       granted_level = pl_supporter_level r\<rparr>)"

text \<open>UPDATE ... RETURNING: the rows that matched, as updated; \<open>.first()\<close> of them.\<close>

definition claim_pending_link ::
    "(string \<Rightarrow> 'h) \<Rightarrow> instant \<Rightarrow> string \<Rightarrow> int \<Rightarrow> 'h pending_link list \<Rightarrow>
     'h pending_link list \<times> claimed_link option" where
  "claim_pending_link hash_pairing_code now code tg rows =
     (let h = hash_pairing_code code
      in (update_where (claim_matches h now tg)
            (\<lambda>r. r\<lparr>claimed_tg_user_id := Some tg, claimed_time := Some now\<rparr>) rows,
          to_claimed_link (first_where (claim_matches h now tg) rows)))"

definition consume_pending_link ::
    "(string \<Rightarrow> 'h) \<Rightarrow> instant \<Rightarrow> string \<Rightarrow> int \<Rightarrow> 'h pending_link list \<Rightarrow>
     'h pending_link list \<times> claimed_link option" where
  "consume_pending_link hash_pairing_code now code tg rows =
     (let h = hash_pairing_code code
      in (update_where (consume_matches h now tg) (\<lambda>r. r\<lparr>consumed_time := Some now\<rparr>) rows,
          to_claimed_link (first_where (consume_matches h now tg) rows)))"

datatype claim_failure = UNKNOWN_CODE | EXPIRED | CONSUMED | CLAIMED_BY_OTHER | UNCLAIMED

definition classify_claim_failure ::
    "(string \<Rightarrow> 'h) \<Rightarrow> instant \<Rightarrow> string \<Rightarrow> int \<Rightarrow> 'h pending_link list \<Rightarrow> claim_failure" where
  "classify_claim_failure hash_pairing_code now code tg rows =
     (case first_where (\<lambda>r. code_hash r = hash_pairing_code code) rows of
        None \<Rightarrow> UNKNOWN_CODE
      | Some row \<Rightarrow>
          if consumed_time row \<noteq> None then CONSUMED
          else if claimed_tg_user_id row \<noteq> None \<and> claimed_tg_user_id row \<noteq> Some tg then CLAIMED_BY_OTHER
          else if expiration row \<le> now then EXPIRED
          else UNCLAIMED)"

definition spent_link_of ::
    "(string \<Rightarrow> 'h) \<Rightarrow> string \<Rightarrow> int \<Rightarrow> 'h pending_link list \<Rightarrow> claimed_link option" where
  "spent_link_of hash_pairing_code code tg rows =
     to_claimed_link (first_where (\<lambda>r. code_hash r = hash_pairing_code code \<and> consumed_time r \<noteq> None \<and>
        claimed_tg_user_id r = Some tg) rows)"

definition delete_finished_pending_links :: "instant \<Rightarrow> 'h pending_link list \<Rightarrow> 'h pending_link list \<times> nat" where
  "delete_finished_pending_links now rows =
     (let P = (\<lambda>r. consumed_time r \<noteq> None \<or> expiration r \<le> now)
      in (delete_where P rows, count_where P rows))"

definition delete_pending_links_for_users :: "int list \<Rightarrow> 'h pending_link list \<Rightarrow> 'h pending_link list \<times> nat" where
  "delete_pending_links_for_users tg_user_ids rows =
     (if tg_user_ids = [] then (rows, 0)
      else let P = (\<lambda>r. case claimed_tg_user_id r of None \<Rightarrow> False | Some tg \<Rightarrow> tg \<in> set tg_user_ids)
           in (delete_where P rows, count_where P rows))"

section \<open>One row per code\<close>

definition hashes_distinct :: "'h pending_link list \<Rightarrow> bool" where
  "hashes_distinct rows \<longleftrightarrow> distinct (map code_hash rows)"

definition row_of :: "'h \<Rightarrow> 'h pending_link list \<Rightarrow> 'h pending_link option" where
  "row_of h rows = first_where (\<lambda>r. code_hash r = h) rows"

lemma first_where_update_key:
  "(\<And>r. k (f r) = k r) \<Longrightarrow>
     first_where (\<lambda>r. k r = key) (update_where P f rows) =
     map_option (\<lambda>r. if P r then f r else r) (first_where (\<lambda>r. k r = key) rows)"
  by (induction rows) auto

lemma first_where_delete_key:
  "distinct (map k rows) \<Longrightarrow>
     first_where (\<lambda>r. k r = key) (delete_where P rows) =
     (case first_where (\<lambda>r. k r = key) rows of None \<Rightarrow> None | Some r \<Rightarrow> if P r then None else Some r)"
proof (induction rows)
  case (Cons x xs)
  then have "k x = key \<Longrightarrow> first_where (\<lambda>r. k r = key) xs = None"
    by (auto simp: first_where_None rev_image_eqI)
  with Cons show ?case by (auto simp: delete_where_def split: option.splits)
qed (simp add: delete_where_def)


lemma row_of_claim:
  "row_of h (fst (claim_pending_link hash now code tg rows)) =
     map_option (\<lambda>r. if claim_matches (hash code) now tg r
       then r\<lparr>claimed_tg_user_id := Some tg, claimed_time := Some now\<rparr> else r) (row_of h rows)"
  by (simp add: row_of_def claim_pending_link_def Let_def first_where_update_key)

lemma row_of_consume:
  "row_of h (fst (consume_pending_link hash now code tg rows)) =
     map_option (\<lambda>r. if consume_matches (hash code) now tg r then r\<lparr>consumed_time := Some now\<rparr> else r) (row_of h rows)"
  by (simp add: row_of_def consume_pending_link_def Let_def first_where_update_key)

lemma hashes_update:
  "hashes_distinct (fst (claim_pending_link hash now code tg rows)) = hashes_distinct rows"
  "hashes_distinct (fst (consume_pending_link hash now code tg rows)) = hashes_distinct rows"
  by (simp_all add: hashes_distinct_def claim_pending_link_def consume_pending_link_def Let_def map_update_where)

lemma claim_result:
  fixes hash :: "string \<Rightarrow> 'a"
  assumes "hashes_distinct rows"
  shows "snd (claim_pending_link hash now code tg rows) =
    to_claimed_link (case row_of (hash code) rows of None \<Rightarrow> None
      | Some r \<Rightarrow> if consumed_time r = None \<and> expiration r > now \<and>
          (claimed_tg_user_id r = None \<or> claimed_tg_user_id r = Some tg) then Some r else None)"
proof -
  have "claim_matches h now tg = (\<lambda>r. code_hash r = h \<and> (consumed_time r = None \<and> expiration r > now \<and>
      (claimed_tg_user_id r = None \<or> claimed_tg_user_id r = Some tg)))" for h :: 'a
    by (auto simp: claim_matches_def live_row_predicate_def fun_eq_iff)
  then show ?thesis
    using assms by (simp add: claim_pending_link_def Let_def first_where_by_key hashes_distinct_def row_of_def)
qed

lemma consume_result:
  fixes hash :: "string \<Rightarrow> 'a"
  assumes "hashes_distinct rows"
  shows "snd (consume_pending_link hash now code tg rows) =
    to_claimed_link (case row_of (hash code) rows of None \<Rightarrow> None
      | Some r \<Rightarrow> if consumed_time r = None \<and> expiration r > now \<and> claimed_tg_user_id r = Some tg then Some r else None)"
proof -
  have "consume_matches h now tg = (\<lambda>r. code_hash r = h \<and>
      (consumed_time r = None \<and> expiration r > now \<and> claimed_tg_user_id r = Some tg))" for h :: 'a
    by (auto simp: consume_matches_def live_row_predicate_def fun_eq_iff)
  then show ?thesis
    using assms by (simp add: consume_pending_link_def Let_def first_where_by_key hashes_distinct_def row_of_def)
qed

lemma to_claimed_link_None [simp]: "to_claimed_link r = None \<longleftrightarrow> r = None"
  by (simp add: to_claimed_link_def split: option.splits)

section \<open>Histories\<close>

datatype link_event =
    Claim instant string int
  | Consume instant string int
  | Delete_Finished instant
  | Delete_For "int list"
  | Stage instant string string "string option" supporter_level

text \<open>What an event does, watched for the code with hash \<open>h\<close>: the result is what consuming that code
  returned. Staging a hash the table has fails on the unique index; the watched code has been drawn
  already, so no later draw has its hash.\<close>

definition link_try ::
    "(string \<Rightarrow> 'h) \<Rightarrow> 'h \<Rightarrow> link_event \<Rightarrow> 'h pending_link list \<Rightarrow> 'h pending_link list \<times> claimed_link option" where
  "link_try hash h e rows =
     (case e of
        Claim now code tg \<Rightarrow> (fst (claim_pending_link hash now code tg rows), None)
      | Consume now code tg \<Rightarrow>
          (fst (consume_pending_link hash now code tg rows),
           if hash code = h then snd (consume_pending_link hash now code tg rows) else None)
      | Delete_Finished now \<Rightarrow> (fst (delete_finished_pending_links now rows), None)
      | Delete_For tgs \<Rightarrow> (fst (delete_pending_links_for_users tgs rows), None)
      | Stage now code pid name level \<Rightarrow>
          (if hash code = h \<or> hash code \<in> set (map code_hash rows) then (rows, None)
           else (fst (stage_pending_link hash now code pid name level rows), None)))"

lemma row_of_delete:
  assumes "hashes_distinct rows"
  shows "row_of h (fst (delete_finished_pending_links now rows)) \<in> {None, row_of h rows}"
    and "row_of h (fst (delete_pending_links_for_users tgs rows)) \<in> {None, row_of h rows}"
  using assms first_where_delete_key [of code_hash rows]
  by (auto simp: row_of_def hashes_distinct_def delete_finished_pending_links_def
      delete_pending_links_for_users_def Let_def split: option.splits)

lemma row_of_stage:
  assumes "hash code \<noteq> h"
  shows "row_of h (fst (stage_pending_link hash now code pid name level rows)) = row_of h rows"
proof -
  have "first_where P (xs @ [x]) = first_where P xs" if "\<not> P x" for P xs and x :: "'a pending_link"
    using that by (induction xs) auto
  with assms show ?thesis by (simp add: row_of_def stage_pending_link_def)
qed

lemma link_try_hashes:
  "hashes_distinct rows \<Longrightarrow> hashes_distinct (fst (link_try hash h e rows))"
  by (cases e) (auto simp: link_try_def hashes_update, auto simp: hashes_distinct_def delete_finished_pending_links_def
      delete_pending_links_for_users_def delete_where_def stage_pending_link_def Let_def distinct_map inj_on_def)

lemma link_try_row:
  assumes "hashes_distinct rows"
  shows "row_of h (fst (link_try hash h e rows)) = None \<or>
    (\<exists>r r'. row_of h rows = Some r \<and> row_of h (fst (link_try hash h e rows)) = Some r' \<and>
       (consumed_time r \<noteq> None \<longrightarrow> consumed_time r' \<noteq> None) \<and>
       (claimed_tg_user_id r \<noteq> None \<longrightarrow> claimed_tg_user_id r' = claimed_tg_user_id r))"
proof (cases e)
  case (Claim now code tg)
  then show ?thesis
    by (cases "row_of h rows") (auto simp: link_try_def row_of_claim claim_matches_def)
next
  case (Consume now code tg)
  then show ?thesis
    by (cases "row_of h rows") (auto simp: link_try_def row_of_consume)
next
  case (Delete_Finished now)
  then show ?thesis using row_of_delete(1) [OF assms, of h now]
    by (cases "row_of h rows") (auto simp: link_try_def)
next
  case (Delete_For tgs)
  then show ?thesis using row_of_delete(2) [OF assms, of h tgs]
    by (cases "row_of h rows") (auto simp: link_try_def)
next
  case (Stage now code pid name level)
  then show ?thesis
    by (cases "row_of h rows") (auto simp: link_try_def row_of_stage)
qed

definition unspent :: "'h \<Rightarrow> 'h pending_link list \<Rightarrow> bool" where
  "unspent h rows \<longleftrightarrow> (\<exists>r. row_of h rows = Some r \<and> consumed_time r = None)"

lemma link_try_success:
  assumes "hashes_distinct rows" and "link_try hash h e rows = (rows', Some l)"
  shows "unspent h rows \<and> \<not> unspent h rows'"
proof (cases e)
  case (Consume now code tg)
  from assms(2) Consume have code: "hash code = h"
    and won: "snd (consume_pending_link hash now code tg rows) = Some l"
    and rows': "rows' = fst (consume_pending_link hash now code tg rows)"
    by (auto simp: link_try_def split: if_splits)
  from won consume_result [OF assms(1), of hash now code tg] code obtain r where r: "row_of h rows = Some r"
      "consumed_time r = None" "expiration r > now" "claimed_tg_user_id r = Some tg"
    by (auto simp: to_claimed_link_def split: option.splits if_splits)
  have "code_hash r = h" using first_where_Some [of "\<lambda>r. code_hash r = h" rows r] r(1) by (simp add: row_of_def)
  with r code have "consume_matches (hash code) now tg r" by (simp add: consume_matches_def live_row_predicate_def)
  with r rows' show ?thesis by (simp add: unspent_def row_of_consume)
qed (use assms(2) in \<open>auto simp: link_try_def split: if_splits\<close>)

interpretation pairing_code: single_winner "link_try hash h" hashes_distinct "unspent h"
  for hash :: "string \<Rightarrow> 'h" and h :: 'h
proof unfold_locales
  show "hashes_distinct t" if "link_try hash h e s = (t, r)" "hashes_distinct s" for e s t r
    using link_try_hashes [OF that(2), of hash h e] that(1) by simp
  show "unspent h s \<and> \<not> unspent h t" if "link_try hash h e s = (t, Some x)" "hashes_distinct s" for e s t x
    by (rule link_try_success [OF that(2,1)])
  show "\<not> unspent h t" if "link_try hash h e s = (t, r)" "hashes_distinct s" "\<not> unspent h s" for e s t r
    using link_try_row [OF that(2), of h hash e] that(1,3) by (auto simp: unspent_def)
qed

text \<open>Being bound to an account, as an invariant of histories.\<close>

definition bound_to :: "'h \<Rightarrow> int \<Rightarrow> 'h pending_link list \<Rightarrow> bool" where
  "bound_to h a rows \<longleftrightarrow> hashes_distinct rows \<and>
     (case row_of h rows of None \<Rightarrow> True | Some r \<Rightarrow> claimed_tg_user_id r = Some a)"

definition link_step :: "(string \<Rightarrow> 'h) \<Rightarrow> 'h \<Rightarrow> link_event \<Rightarrow> 'h pending_link list \<Rightarrow> 'h pending_link list" where
  "link_step hash h e rows = fst (link_try hash h e rows)"

interpretation pairing_bound: invariant_system "det (link_step hash h)" "bound_to h a"
  for hash :: "string \<Rightarrow> 'h" and h :: 'h and a :: int
proof unfold_locales
  show "bound_to h a t" if "det (link_step hash h) s e t" "bound_to h a s" for s e t
    using that link_try_hashes [of s hash h e] link_try_row [of s h hash e]
    by (auto simp: bound_to_def link_step_def split: option.splits)
qed

section \<open>Properties\<close>

text \<open>C6. A pairing code is spent at most once: in any sequence of claims, confirmations (by anybody, at any
  time), deletions and stagings of other codes, at most one confirmation of the code returns a link.\<close>

theorem pairing_code_single_use:
  assumes "distinct (map code_hash rows)"
  shows "length (wins (link_try hash (hash code)) es rows) \<le> 1"
  using assms by (intro pairing_code.at_most_one_wins) (simp add: hashes_distinct_def)

text \<open>Who can spend a code, and when: exactly the account that claimed it, before it expires and if it
  is not spent; what comes back is the identity and the tier of the row, nothing the caller supplied.\<close>

theorem consume_pending_link_iff:
  assumes "distinct (map code_hash rows)"
  shows "snd (consume_pending_link hash now code tg rows) = Some l \<longleftrightarrow>
    (\<exists>r \<in> set rows. code_hash r = hash code \<and> claimed_tg_user_id r = Some tg \<and> consumed_time r = None \<and>
       now < expiration r \<and> cl_patreon_user_id l = pl_patreon_user_id r \<and> cl_full_name l = pl_full_name r \<and>
       granted_level l = pl_supporter_level r)"
proof -
  have row: "row_of h rows = Some r \<longleftrightarrow> r \<in> set rows \<and> code_hash r = h" for h r
    unfolding row_of_def using first_where_Some first_where_key [OF assms, of r] by fastforce
  have "hashes_distinct rows" using assms by (simp add: hashes_distinct_def)
  from consume_result [OF this, of hash now code tg] show ?thesis
  proof (cases "row_of (hash code) rows")
    case None
    then have "\<not> (\<exists>r \<in> set rows. code_hash r = hash code)" by (auto simp: row_of_def first_where_None)
    with None \<open>hashes_distinct rows\<close> show ?thesis by (auto simp: consume_result to_claimed_link_def)
  next
    case (Some r)
    then have r: "r \<in> set rows" "code_hash r = hash code" using row by auto
    have only: "(\<exists>r' \<in> set rows. code_hash r' = hash code \<and> Q r') \<longleftrightarrow> Q r" for Q
      using ex_key [OF assms r(1), of Q] by (simp add: r(2))
    show ?thesis
      unfolding only consume_result [OF \<open>hashes_distinct rows\<close>] Some
      by (cases l) (auto simp: to_claimed_link_def)
  qed
qed

text \<open>A claimed code is its claimer's for good: once the row is bound to one account, no other account can
  claim or confirm it after any history, so a passed-on link cannot be re-pointed.\<close>

theorem claimed_code_stays_bound:
  assumes "distinct (map code_hash rows)" and "r \<in> set rows" and "claimed_tg_user_id r = Some a"
    and "code_hash r = hash code" and "b \<noteq> a"
    and "steps (det (link_step hash (hash code))) rows es rows'"
  shows "snd (claim_pending_link hash now code b rows') = None \<and> snd (consume_pending_link hash now code b rows') = None"
proof -
  have "row_of (hash code) rows = Some r"
    using first_where_key [OF assms(1,2)] assms(4) by (simp add: row_of_def)
  with assms(1,3) have "bound_to (hash code) a rows" by (simp add: bound_to_def hashes_distinct_def)
  from pairing_bound.steps_inv [OF assms(6) this]
  have "hashes_distinct rows'" and "case row_of (hash code) rows' of None \<Rightarrow> True | Some r \<Rightarrow> claimed_tg_user_id r = Some a"
    by (simp_all add: bound_to_def)
  with assms(5) show ?thesis by (auto simp: claim_result consume_result split: option.splits)
qed

text \<open>The diagnosis of a failed attempt, on the clock the attempt was decided on: after a failed claim it
  is never UNCLAIMED, and after a failed confirmation it is UNCLAIMED exactly for a live row that nobody has
  claimed (the forged confirm button); the other answers say exactly what they name.\<close>

theorem classify_claim_failure_correct:
  assumes "distinct (map code_hash rows)"
  shows "let failure = classify_claim_failure hash now code tg rows in (snd (claim_pending_link hash now code tg rows) = None \<longrightarrow> failure \<noteq> UNCLAIMED) \<and>
    (snd (consume_pending_link hash now code tg rows) = None \<longrightarrow>
       (failure = UNCLAIMED \<longleftrightarrow> (\<exists>r \<in> set rows. live_row_predicate (hash code) now r \<and> claimed_tg_user_id r = None))) \<and>
    (failure = UNKNOWN_CODE \<longleftrightarrow> hash code \<notin> code_hash ` set rows) \<and>
    (failure = CONSUMED \<longleftrightarrow> (\<exists>r \<in> set rows. code_hash r = hash code \<and> consumed_time r \<noteq> None))"
proof -
  define failure where "failure = classify_claim_failure hash now code tg rows"
  have ok: "hashes_distinct rows" using assms(1) by (simp add: hashes_distinct_def)
  have eq: "?thesis \<longleftrightarrow>
    (snd (claim_pending_link hash now code tg rows) = None \<longrightarrow> failure \<noteq> UNCLAIMED) \<and>
    (snd (consume_pending_link hash now code tg rows) = None \<longrightarrow>
       (failure = UNCLAIMED \<longleftrightarrow> (\<exists>r \<in> set rows. live_row_predicate (hash code) now r \<and> claimed_tg_user_id r = None))) \<and>
    (failure = UNKNOWN_CODE \<longleftrightarrow> hash code \<notin> code_hash ` set rows) \<and>
    (failure = CONSUMED \<longleftrightarrow> (\<exists>r \<in> set rows. code_hash r = hash code \<and> consumed_time r \<noteq> None))" (is "_ \<longleftrightarrow> ?goal")
    by (simp only: Let_def failure_def)
  have ?goal
  proof (cases "row_of (hash code) rows")
    case None
    then have none: "\<forall>r \<in> set rows. code_hash r \<noteq> hash code" by (simp add: row_of_def first_where_None)
    have "failure = UNKNOWN_CODE"
      using None by (simp add: failure_def classify_claim_failure_def row_of_def)
    with none show ?thesis by (auto simp: live_row_predicate_def)
  next
    case (Some r)
    then have r: "r \<in> set rows" "code_hash r = hash code" by (auto simp: row_of_def dest: first_where_Some)
    have only: "(\<exists>r' \<in> set rows. code_hash r' = hash code \<and> Q r') \<longleftrightarrow> Q r" for Q
      using ex_key [OF assms r(1), of Q] by (simp add: r(2))
    have failure: "failure = (if consumed_time r \<noteq> None then CONSUMED
        else if claimed_tg_user_id r \<noteq> None \<and> claimed_tg_user_id r \<noteq> Some tg then CLAIMED_BY_OTHER
        else if expiration r \<le> now then EXPIRED else UNCLAIMED)"
      using Some by (simp add: failure_def classify_claim_failure_def row_of_def)
    have ex: "(\<exists>r' \<in> set rows. live_row_predicate (hash code) now r' \<and> claimed_tg_user_id r' = None) \<longleftrightarrow>
        consumed_time r = None \<and> expiration r > now \<and> claimed_tg_user_id r = None"
      "(\<exists>r' \<in> set rows. code_hash r' = hash code \<and> consumed_time r' \<noteq> None) \<longleftrightarrow> consumed_time r \<noteq> None"
      by (simp_all add: live_row_predicate_def only)
    have known: "hash code \<in> code_hash ` set rows" using r by force
    have claim: "snd (claim_pending_link hash now code tg rows) = None \<longrightarrow> failure \<noteq> UNCLAIMED"
      unfolding failure by (simp add: claim_result [OF ok] Some)
    have consume: "snd (consume_pending_link hash now code tg rows) = None \<longrightarrow>
        (failure = UNCLAIMED \<longleftrightarrow> consumed_time r = None \<and> expiration r > now \<and> claimed_tg_user_id r = None)"
      unfolding failure by (auto simp: consume_result [OF ok] Some)
    have "failure \<noteq> UNKNOWN_CODE" "failure = CONSUMED \<longleftrightarrow> consumed_time r \<noteq> None"
      unfolding failure by simp_all
    with claim consume known show ?thesis unfolding ex by blast
  qed
  then show ?thesis by (rule iffD2 [OF eq])
qed

end
