(* ===== verification/Membership.thy ===== *)
theory Membership
  imports Users Pending_Links "HOL-Library.AList"
begin

text \<open>
  Who is a supporter, and every place that writes it: the daily check
  (\<^verbatim>\<open>apps/events/mitup_bot/events/supporter_check.py\<close>), the Patreon webhook
  (\<^verbatim>\<open>apps/bot/mitup_bot/web/patreon.py\<close>), the confirmed pairing (\<^verbatim>\<open>apps/bot/mitup_bot/patreon_link.py\<close>),
  the operator's grant (\<^verbatim>\<open>handlers/supporter_grant/utils.py\<close>) and the unlink
  (\<^verbatim>\<open>handlers/collaborate/entry.py\<close>).

  Each handler is one transaction over \<open>mdb\<close> with the Telegram calls it queues as a list of actions. What
  Telegram answers about the hosts-only group (admin, member, banned) is the record \<open>hosts\<close>, a parameter.
  A message that has no text for its tier raises \<open>ValueError\<close>.
\<close>

section \<open>Rows and parameters\<close>

record subscription =
  s_id :: int
  s_user_id :: int
  s_patreon_user_id :: string
  support_expiration :: "instant option"
  expiration_notified :: bool

record mdb =
  subscriptions :: "subscription list"
  m_users :: "user list"
  next_subscription_id :: int

record member_resource =
  m_patreon_user_id :: "string option"
  patron_status :: "string option"
  currently_entitled_amount_cents :: int

definition ACTIVE_PATRON_STATUS :: string where "ACTIVE_PATRON_STATUS = ''active_patron''"

definition is_active_patron :: "member_resource \<Rightarrow> bool" where
  "is_active_patron m \<longleftrightarrow> patron_status m = Some ACTIVE_PATRON_STATUS \<and> currently_entitled_amount_cents m > 0"

record hosts =
  hosts_group_chat_id :: "int option"
  is_chat_admin :: "int \<Rightarrow> bool"
  is_chat_member :: "int \<Rightarrow> bool"
  is_chat_banned :: "int \<Rightarrow> bool"

datatype message =
    GRACE_STARTED
  | SUPPORT_LOST
  | SUPPORT_ENDED_GRACE
  | Unlocked supporter_level
  | Tier_Set supporter_level
  | Granted supporter_level
  | GRANT_REMOVED
  | LINK_CONFIRMED_NO_PATRON
  | Hosts_Removed
  | Hosts_Readmitted

datatype action = Send int message | Ban int | Unban int

datatype supporter_error = ValueError | Processing_Failed

definition GRACE_PERIOD :: duration where "GRACE_PERIOD = days 7"
definition SUPPORT_GRACE_DAYS :: int where "SUPPORT_GRACE_DAYS = 7"

text \<open>The class methods of \<open>SupporterNotificationMessages\<close>.\<close>

fun unlocked_for :: "supporter_level \<Rightarrow> supporter_error + message" where
  "unlocked_for NONE = Inl ValueError"
| "unlocked_for level = Inr (Unlocked level)"

fun granted_for :: "supporter_level \<Rightarrow> supporter_error + message" where
  "granted_for NONE = Inl ValueError"
| "granted_for level = Inr (Granted level)"

fun downgraded_to :: "supporter_level \<Rightarrow> supporter_error + message" where
  "downgraded_to HOST_1 = Inr (Tier_Set HOST_1)"
| "downgraded_to HOST_2 = Inr (Tier_Set HOST_2)"
| "downgraded_to level = Inl ValueError"

definition put_user :: "user \<Rightarrow> mdb \<Rightarrow> mdb" where
  "put_user u db = db\<lparr>m_users := update_where (\<lambda>r. u_id r = u_id u) (\<lambda>_. u) (m_users db)\<rparr>"

definition put_subscription :: "subscription \<Rightarrow> mdb \<Rightarrow> mdb" where
  "put_subscription s db = db\<lparr>subscriptions := update_where (\<lambda>r. s_id r = s_id s) (\<lambda>_. s) (subscriptions db)\<rparr>"

section \<open>The hosts-only group\<close>

definition remove_from_hosts_group :: "hosts \<Rightarrow> user \<Rightarrow> action list" where
  "remove_from_hosts_group h u =
     (case hosts_group_chat_id h of None \<Rightarrow> []
      | Some chat \<Rightarrow>
          if is_chat_admin h (tg_user_id u) then []
          else [Ban (tg_user_id u)] @
               (if is_chat_member h (tg_user_id u) then [Send (tg_user_id u) Hosts_Removed] else []))"

definition readmit_to_hosts_group :: "hosts \<Rightarrow> user \<Rightarrow> action list" where
  "readmit_to_hosts_group h u =
     (case hosts_group_chat_id h of None \<Rightarrow> []
      | Some chat \<Rightarrow>
          [Unban (tg_user_id u)] @
          (if is_chat_banned h (tg_user_id u) then [Send (tg_user_id u) Hosts_Readmitted] else []))"

definition withdraw_from_hosts_group :: "hosts \<Rightarrow> user \<Rightarrow> action list" where
  "withdraw_from_hosts_group h u =
     (case hosts_group_chat_id h of None \<Rightarrow> []
      | Some chat \<Rightarrow>
          if is_chat_admin h (tg_user_id u) then []
          else (if is_chat_member h (tg_user_id u) then [Ban (tg_user_id u)] else []) @ [Unban (tg_user_id u)] @
               (if is_chat_member h (tg_user_id u) then [Send (tg_user_id u) Hosts_Removed] else []))"

section \<open>The daily check\<close>

datatype due_outcome = EXTENDED | GRACE_STARTED_OUTCOME | SUPPORT_LOST_OUTCOME | DUE_SKIPPED
datatype sync_outcome = UPGRADED | DOWNGRADED | UNCHANGED | SYNC_SKIPPED

text \<open>The amounts dict, in insertion order; a later entry of the same patron wins.\<close>

definition active_patreon_amounts :: "member_resource list \<Rightarrow> (string \<times> int) list" where
  "active_patreon_amounts members =
     fold (\<lambda>m amounts. case m_patreon_user_id m of
             Some pid \<Rightarrow> if is_active_patron m
               then AList.update pid (currently_entitled_amount_cents m) amounts else amounts
           | None \<Rightarrow> amounts) members []"

text \<open>The two nomination queries: both join the subscription to its user, who must be a member.\<close>

definition user_of :: "subscription \<Rightarrow> mdb \<Rightarrow> user option" where
  "user_of s db = first_where (\<lambda>u. u_id u = s_user_id s) (m_users db)"

definition live_linked :: "mdb \<Rightarrow> subscription \<Rightarrow> bool" where
  "live_linked db s \<longleftrightarrow> (case user_of s db of None \<Rightarrow> False | Some u \<Rightarrow> status u = MEMBER)"

definition due_subscription :: "instant \<Rightarrow> mdb \<Rightarrow> subscription \<Rightarrow> bool" where
  "due_subscription now db s \<longleftrightarrow> live_linked db s \<and>
     (case support_expiration s of None \<Rightarrow> False | Some t \<Rightarrow> t \<le> now)"

definition nominate :: "(subscription \<Rightarrow> bool) \<Rightarrow> mdb \<Rightarrow> int list" where
  "nominate P db = map s_id (filter P (subscriptions db))"

definition advance_grace_flow ::
    "hosts \<Rightarrow> instant \<Rightarrow> subscription \<Rightarrow> user \<Rightarrow> (string \<times> int) list \<Rightarrow>
     supporter_error + (subscription \<times> user \<times> action list \<times> due_outcome)" where
  "advance_grace_flow h now s u amounts =
     (if map_of amounts (s_patreon_user_id s) \<noteq> None then
        Inr (s\<lparr>expiration_notified := False, support_expiration := Some (now + GRACE_PERIOD)\<rparr>, u, [], EXTENDED)
      else if \<not> expiration_notified s then
        Inr (s\<lparr>expiration_notified := True, support_expiration := Some (now + GRACE_PERIOD)\<rparr>, u,
             [Send (tg_user_id u) GRACE_STARTED], GRACE_STARTED_OUTCOME)
      else
        let previous = u_supporter_level u;
            target = granted_supporter_level u;
            u' = u\<lparr>u_supporter_level := target\<rparr>;
            s' = s\<lparr>support_expiration := None\<rparr>
        in if \<not> is_supporter target then
             Inr (s', u', [Send (tg_user_id u) SUPPORT_LOST] @ remove_from_hosts_group h u', SUPPORT_LOST_OUTCOME)
           else if target \<noteq> previous then
             bind_result (downgraded_to target)
               (\<lambda>m. Inr (s', u', [Send (tg_user_id u) m], SUPPORT_LOST_OUTCOME))
           else Inr (s', u', [], SUPPORT_LOST_OUTCOME))"

definition process_due_subscription ::
    "hosts \<Rightarrow> instant \<Rightarrow> (string \<times> int) list \<Rightarrow> int \<Rightarrow> mdb \<Rightarrow>
     supporter_error + (mdb \<times> action list \<times> due_outcome)" where
  "process_due_subscription h now amounts sid db =
     (case first_where (\<lambda>s. s_id s = sid \<and> due_subscription now db s) (subscriptions db) of
        None \<Rightarrow> Inr (db, [], DUE_SKIPPED)
      | Some s \<Rightarrow>
          (case user_of s db of
             None \<Rightarrow> Inr (db, [], DUE_SKIPPED)
           | Some u \<Rightarrow> bind_result (advance_grace_flow h now s u amounts)
               (\<lambda>(s', u', actions, r). Inr (put_user u' (put_subscription s' db), actions, r))))"

definition apply_target_level ::
    "instant \<Rightarrow> patreon_config \<Rightarrow> subscription \<Rightarrow> user \<Rightarrow> int \<Rightarrow>
     supporter_error + (subscription \<times> user \<times> action list \<times> sync_outcome)" where
  "apply_target_level now config s u amount =
     (let previous = u_supporter_level u;
          entitled = level_for_amount amount config;
          target = highest entitled [granted_supporter_level u]
      in if previous = target then Inr (s, u, [], UNCHANGED)
         else
           let u' = u\<lparr>u_supporter_level := target\<rparr>;
               s' = s\<lparr>support_expiration := Some (now + GRACE_PERIOD), expiration_notified := False\<rparr>;
               upgraded = (\<not> meets previous target)
           in bind_result (if upgraded then unlocked_for target else downgraded_to target)
                (\<lambda>m. Inr (s', u', [Send (tg_user_id u) m], if upgraded then UPGRADED else DOWNGRADED)))"

definition sync_subscription_level ::
    "instant \<Rightarrow> patreon_config \<Rightarrow> (string \<times> int) list \<Rightarrow> int \<Rightarrow> mdb \<Rightarrow>
     supporter_error + (mdb \<times> action list \<times> sync_outcome)" where
  "sync_subscription_level now config amounts sid db =
     (case first_where (\<lambda>s. s_id s = sid \<and> live_linked db s) (subscriptions db) of
        None \<Rightarrow> Inr (db, [], SYNC_SKIPPED)
      | Some s \<Rightarrow>
          (case map_of amounts (s_patreon_user_id s) of
             None \<Rightarrow> Inr (db, [], SYNC_SKIPPED)
           | Some amount \<Rightarrow>
               (case user_of s db of
                  None \<Rightarrow> Inr (db, [], SYNC_SKIPPED)
                | Some u \<Rightarrow> bind_result (apply_target_level now config s u amount)
                    (\<lambda>(s', u', actions, r). Inr (put_user u' (put_subscription s' db), actions, r)))))"

text \<open>A raising handler is rolled back, recorded and skipped.\<close>

fun process_all ::
    "(int \<Rightarrow> 'db \<Rightarrow> 'e + ('db \<times> action list \<times> 'r)) \<Rightarrow> int list \<Rightarrow> 'db \<Rightarrow> 'db \<times> action list \<times> 'r list \<times> int list" where
  "process_all handler [] db = (db, [], [], [])"
| "process_all handler (i # ids) db =
     (case handler i db of
        Inl e \<Rightarrow> (let (db', actions, rs, failures) = process_all handler ids db in (db', actions, rs, i # failures))
      | Inr (db1, actions1, r) \<Rightarrow>
          (let (db', actions, rs, failures) = process_all handler ids db1
           in (db', actions1 @ actions, r # rs, failures)))"

record run_tally =
  due_outcomes :: "due_outcome list"
  sync_outcomes :: "sync_outcome list"
  failures :: "int list"
  active_patrons :: nat

text \<open>What a run reads: the refreshed creator token's members (\<open>None\<close> when the token was rejected), the
  clock at each nomination and at each handled subscription, and the subscriptions whose transaction
  fails for reasons of its own (the database, Telegram): \<open>faulty_due\<close>, \<open>faulty_sync\<close>.\<close>

record check_world =
  cw_members :: "member_resource list option"
  cw_now :: instant
  cw_clock_due :: "int \<Rightarrow> instant"
  cw_clock_sync :: "int \<Rightarrow> instant"
  cw_faulty_due :: "int \<Rightarrow> bool"
  cw_faulty_sync :: "int \<Rightarrow> bool"

definition may_fail :: "bool \<Rightarrow> supporter_error + 'a \<Rightarrow> supporter_error + 'a" where
  "may_fail faulty r = (if faulty then Inl Processing_Failed else r)"

definition due_handler ::
    "hosts \<Rightarrow> check_world \<Rightarrow> (string \<times> int) list \<Rightarrow> int \<Rightarrow> mdb \<Rightarrow> supporter_error + (mdb \<times> action list \<times> due_outcome)" where
  "due_handler h w amounts sid db =
     may_fail (cw_faulty_due w sid) (process_due_subscription h (cw_clock_due w sid) amounts sid db)"

definition sync_handler ::
    "patreon_config \<Rightarrow> check_world \<Rightarrow> (string \<times> int) list \<Rightarrow> int \<Rightarrow> mdb \<Rightarrow> supporter_error + (mdb \<times> action list \<times> sync_outcome)" where
  "sync_handler config w amounts sid db =
     may_fail (cw_faulty_sync w sid) (sync_subscription_level (cw_clock_sync w sid) config amounts sid db)"

definition reconcile_memberships ::
    "hosts \<Rightarrow> patreon_config \<Rightarrow> check_world \<Rightarrow> mdb \<Rightarrow> mdb \<times> action list \<times> run_tally \<times> bool" where
  "reconcile_memberships h config w db =
     (case cw_members w of
        None \<Rightarrow> (db, [], \<lparr>due_outcomes = [], sync_outcomes = [], failures = [], active_patrons = 0\<rparr>, False)
      | Some members \<Rightarrow>
          let amounts = active_patreon_amounts members;
              (db1, actions1, dues, fs1) =
                process_all (due_handler h w amounts) (nominate (due_subscription (cw_now w) db) db) db;
              (db2, actions2, syncs, fs2) =
                process_all (sync_handler config w amounts) (nominate (live_linked db1) db1) db1
          in (db2, actions1 @ actions2,
              \<lparr>due_outcomes = dues, sync_outcomes = syncs, failures = fs1 @ fs2, active_patrons = length amounts\<rparr>, True))"

text \<open>\<open>run\<close> raises at the end when any subscription failed.\<close>

definition supporter_check_run ::
    "hosts \<Rightarrow> patreon_config \<Rightarrow> check_world \<Rightarrow> mdb \<Rightarrow> mdb \<times> action list \<times> run_tally \<times> bool" where
  "supporter_check_run h config w db =
     (let (db', actions, tally, reconciled) = reconcile_memberships h config w db
      in (db', actions, tally, failures tally \<noteq> []))"

section \<open>The webhook\<close>

datatype webhook_applied = WH_UPGRADED | WH_DOWNGRADED | WH_GRACE_STARTED | WH_UNCHANGED

definition MEMBER_DELETE_TRIGGER :: string where "MEMBER_DELETE_TRIGGER = ''members:delete''"

definition target_level :: "string option \<Rightarrow> member_resource \<Rightarrow> patreon_config \<Rightarrow> supporter_level" where
  "target_level trigger m config =
     (if trigger = Some MEMBER_DELETE_TRIGGER then NONE
      else if \<not> is_active_patron m then NONE
      else level_for_amount (currently_entitled_amount_cents m) config)"

definition apply_membership_transition ::
    "instant \<Rightarrow> user \<Rightarrow> subscription \<Rightarrow> supporter_level \<Rightarrow> user \<times> subscription \<times> webhook_applied" where
  "apply_membership_transition now u s target =
     (let previous = u_supporter_level u in
      if is_supporter target then
        let effective = highest target [granted_supporter_level u] in
        if previous = effective then (u, s, WH_UNCHANGED)
        else (u\<lparr>u_supporter_level := effective\<rparr>,
              s\<lparr>support_expiration := Some (now + days SUPPORT_GRACE_DAYS), expiration_notified := False\<rparr>,
              if meets previous effective then WH_DOWNGRADED else WH_UPGRADED)
      else if meets (granted_supporter_level u) previous then (u, s, WH_UNCHANGED)
      else (u, s\<lparr>support_expiration := Some (now + days SUPPORT_GRACE_DAYS), expiration_notified := True\<rparr>,
            WH_GRACE_STARTED))"

fun notify_membership_change :: "user \<Rightarrow> webhook_applied \<Rightarrow> supporter_error + action list" where
  "notify_membership_change u WH_UPGRADED =
     bind_result (unlocked_for (u_supporter_level u)) (\<lambda>m. Inr [Send (tg_user_id u) m])"
| "notify_membership_change u WH_DOWNGRADED =
     bind_result (downgraded_to (u_supporter_level u)) (\<lambda>m. Inr [Send (tg_user_id u) m])"
| "notify_membership_change u WH_GRACE_STARTED = Inr [Send (tg_user_id u) SUPPORT_ENDED_GRACE]"
| "notify_membership_change u WH_UNCHANGED = Inr []"

definition apply_membership_event ::
    "hosts \<Rightarrow> patreon_config \<Rightarrow> instant \<Rightarrow> string option \<Rightarrow> member_resource \<Rightarrow> mdb \<Rightarrow>
     supporter_error + (mdb \<times> action list \<times> webhook_applied)" where
  "apply_membership_event h config now trigger m db =
     (case m_patreon_user_id m of
        None \<Rightarrow> Inr (db, [], WH_UNCHANGED)
      | Some pid \<Rightarrow>
          (case first_where (\<lambda>s. s_patreon_user_id s = pid) (subscriptions db) of
             None \<Rightarrow> Inr (db, [], WH_UNCHANGED)
           | Some s \<Rightarrow>
               (case user_of s db of
                  None \<Rightarrow> Inr (db, [], WH_UNCHANGED)
                | Some u \<Rightarrow>
                    let (u', s', applied) = apply_membership_transition now u s (target_level trigger m config)
                    in bind_result (notify_membership_change u' applied) (\<lambda>actions.
                         Inr (put_user u' (put_subscription s' db),
                              actions @ (if \<not> is_supporter (u_supporter_level u) \<and> is_supporter (u_supporter_level u')
                                         then readmit_to_hosts_group h u' else []),
                              applied)))))"

end
