(* ===== verification/Linking.thy ===== *)
theory Linking
  imports Membership
begin

text \<open>
  Linking a Patreon account, granting and unlinking: \<^verbatim>\<open>apps/bot/mitup_bot/patreon_link.py\<close>,
  \<^verbatim>\<open>handlers/collaborate/patreon_redemption.py\<close>, \<^verbatim>\<open>handlers/collaborate/entry.py\<close> and
  \<^verbatim>\<open>handlers/supporter_grant/utils.py\<close>. The rendered screens are left out: a handler's result says which
  of its answers the user gets.
\<close>

section \<open>The link\<close>

datatype link_outcome = LINKED_SUPPORTER | LINKED_NO_PATRON | ALREADY_LINKED_ELSEWHERE | PENDING_DELETION

definition subscription_for_user :: "mdb \<Rightarrow> user \<Rightarrow> subscription option" where
  "subscription_for_user db u = first_where (\<lambda>s. s_user_id s = u_id u) (subscriptions db)"

text \<open>\<open>lost_race\<close>: another account committed this Patreon id between the check and the flush.\<close>

definition upsert_subscription :: "bool \<Rightarrow> user \<Rightarrow> string \<Rightarrow> mdb \<Rightarrow> (mdb \<times> subscription) option" where
  "upsert_subscription lost_race u pid db =
     (if lost_race then None
      else case subscription_for_user db u of
        None \<Rightarrow>
          let s = \<lparr>s_id = next_subscription_id db, s_user_id = u_id u, s_patreon_user_id = pid,
                   support_expiration = None, expiration_notified = False\<rparr>
          in Some (db\<lparr>subscriptions := subscriptions db @ [s], next_subscription_id := next_subscription_id db + 1\<rparr>, s)
      | Some s \<Rightarrow>
          let s' = s\<lparr>s_patreon_user_id := pid\<rparr> in Some (put_subscription s' db, s'))"

definition linked_elsewhere :: "mdb \<Rightarrow> user \<Rightarrow> string \<Rightarrow> bool" where
  "linked_elsewhere db u pid \<longleftrightarrow>
     (case first_where (\<lambda>s. s_patreon_user_id s = pid) (subscriptions db) of
        None \<Rightarrow> False | Some s \<Rightarrow> s_user_id s \<noteq> u_id u)"

definition link_patreon_account ::
    "hosts \<Rightarrow> instant \<Rightarrow> bool \<Rightarrow> user \<Rightarrow> string \<Rightarrow> supporter_level \<Rightarrow> mdb \<Rightarrow>
     supporter_error + (mdb \<times> action list \<times> link_outcome)" where
  "link_patreon_account h now lost_race u pid granted db =
     (if status u = DELETION_REQUESTED then Inr (db, [], PENDING_DELETION)
      else if linked_elsewhere db u pid then Inr (db, [], ALREADY_LINKED_ELSEWHERE)
      else case upsert_subscription lost_race u pid db of
        None \<Rightarrow> Inr (db, [], ALREADY_LINKED_ELSEWHERE)
      | Some (db1, s) \<Rightarrow>
          let effective = highest granted [granted_supporter_level u];
              u' = u\<lparr>u_supporter_level := effective\<rparr>
          in if is_supporter granted then
               bind_result (unlocked_for effective) (\<lambda>m.
                 Inr (put_user u' (put_subscription (s\<lparr>support_expiration := Some (now + days SUPPORT_GRACE_DAYS)\<rparr>) db1),
                      [Send (tg_user_id u) m] @ readmit_to_hosts_group h u', LINKED_SUPPORTER))
             else
               Inr (put_user u' (put_subscription (s\<lparr>support_expiration := None\<rparr>) db1),
                    [Send (tg_user_id u) LINK_CONFIRMED_NO_PATRON], LINKED_NO_PATRON))"

section \<open>Redeeming a pairing code\<close>

datatype redemption_refusal = CODE_NOT_USABLE claim_failure | NO_CODE | NOT_A_MEMBER | REFUSED_PENDING_DELETION

definition user_by_tg_id :: "mdb \<Rightarrow> int \<Rightarrow> user option" where
  "user_by_tg_id db tg = first_where (\<lambda>u. tg_user_id u = tg) (m_users db)"

text \<open>The deep link: it claims the row for a member and opens the prompt, or refuses.\<close>

definition redeem_start ::
    "(string \<Rightarrow> 'h) \<Rightarrow> instant \<Rightarrow> int \<Rightarrow> string option \<Rightarrow> mdb \<Rightarrow> 'h pending_link list \<Rightarrow>
     'h pending_link list \<times> (redemption_refusal + claimed_link)" where
  "redeem_start hash now tg code db links =
     (case user_by_tg_id db tg of
        None \<Rightarrow> (links, Inl NOT_A_MEMBER)
      | Some u \<Rightarrow>
          if status u = DELETION_REQUESTED then (links, Inl REFUSED_PENDING_DELETION)
          else if status u \<noteq> MEMBER then (links, Inl NOT_A_MEMBER)
          else case code of
            None \<Rightarrow> (links, Inl NO_CODE)
          | Some c \<Rightarrow>
              if c = [] then (links, Inl NO_CODE)
              else case claim_pending_link hash now c tg links of
                (links', None) \<Rightarrow> (links', Inl (CODE_NOT_USABLE (classify_claim_failure hash now c tg links')))
              | (links', Some claimed) \<Rightarrow> (links', Inr claimed))"

datatype confirm_answer = Already_Linked_View | Code_Not_Valid claim_failure | Outcome link_outcome

text \<open>The confirm button. \<open>u\<close> is the account \<open>guards.current_user\<close> let through. An exception rolls the
  transaction back, the consume included.\<close>

definition confirm_patreon_link ::
    "hosts \<Rightarrow> (string \<Rightarrow> 'h) \<Rightarrow> instant \<Rightarrow> bool \<Rightarrow> user \<Rightarrow> string \<Rightarrow> mdb \<Rightarrow> 'h pending_link list \<Rightarrow>
     supporter_error + (mdb \<times> 'h pending_link list \<times> action list \<times> confirm_answer)" where
  "confirm_patreon_link h hash now lost_race u code db links =
     (case consume_pending_link hash now code (tg_user_id u) links of
        (links', None) \<Rightarrow>
          (case (spent_link_of hash code (tg_user_id u) links', subscription_for_user db u) of
             (Some spent, Some s) \<Rightarrow>
               if s_patreon_user_id s = cl_patreon_user_id spent then Inr (db, links', [], Already_Linked_View)
               else Inr (db, links', [], Code_Not_Valid (classify_claim_failure hash now code (tg_user_id u) links'))
           | _ \<Rightarrow> Inr (db, links', [], Code_Not_Valid (classify_claim_failure hash now code (tg_user_id u) links')))
      | (links', Some confirmed) \<Rightarrow>
          bind_result
            (link_patreon_account h now lost_race u (cl_patreon_user_id confirmed) (granted_level confirmed) db)
            (\<lambda>(db', actions, outcome). Inr (db', links', actions, Outcome outcome)))"

section \<open>Unlinking\<close>

definition confirm_unlink_patreon :: "hosts \<Rightarrow> user \<Rightarrow> mdb \<Rightarrow> mdb \<times> action list" where
  "confirm_unlink_patreon h u db =
     (case subscription_for_user db u of
        None \<Rightarrow> (db, [])
      | Some s \<Rightarrow>
          let u' = u\<lparr>u_supporter_level := granted_supporter_level u\<rparr>
          in (put_user u' (db\<lparr>subscriptions := delete_where (\<lambda>r. s_id r = s_id s) (subscriptions db)\<rparr>),
              if is_supporter (u_supporter_level u') then [] else withdraw_from_hosts_group h u'))"

section \<open>Granting\<close>

definition notify_target :: "user \<Rightarrow> supporter_level \<Rightarrow> supporter_error + action list" where
  "notify_target target previous =
     (let new_level = u_supporter_level target in
      if new_level = previous then Inr []
      else if \<not> meets previous new_level then bind_result (granted_for new_level) (\<lambda>m. Inr [Send (tg_user_id target) m])
      else if is_supporter new_level then bind_result (downgraded_to new_level) (\<lambda>m. Inr [Send (tg_user_id target) m])
      else Inr [Send (tg_user_id target) GRANT_REMOVED])"

definition reconcile_hosts_group :: "hosts \<Rightarrow> user \<Rightarrow> supporter_level \<Rightarrow> action list" where
  "reconcile_hosts_group h target previous =
     (if \<not> is_supporter previous \<and> is_supporter (u_supporter_level target) then readmit_to_hosts_group h target
      else if is_supporter previous \<and> \<not> is_supporter (u_supporter_level target) then withdraw_from_hosts_group h target
      else [])"

definition apply_grant :: "hosts \<Rightarrow> user \<Rightarrow> supporter_level \<Rightarrow> mdb \<Rightarrow> supporter_error + (mdb \<times> action list)" where
  "apply_grant h target level db =
     (let previous = u_supporter_level target;
          linked = (subscription_for_user db target \<noteq> None);
          target' = target\<lparr>granted_supporter_level := level,
                          u_supporter_level := (if linked then highest (u_supporter_level target) [level] else level)\<rparr>
      in bind_result (notify_target target' previous)
           (\<lambda>actions. Inr (put_user target' db, actions @ reconcile_hosts_group h target' previous)))"

end
