(* ===== verification/Membership_Run.thy ===== *)
theory Membership_Run
  imports Linking
begin

text \<open>
  The daily check row by row. The two passes of \<open>reconcile_memberships\<close> run over the whole tables, handle
  ids one after the other and swallow failures; a linked pair of subscription and user only ever meets
  its own two handler calls. \<open>supporter_check_rowwise\<close> reduces a run to the functions \<open>due_row\<close> and
  \<open>sync_row\<close> of the pair, and the properties of a run follow from those.
\<close>

section \<open>Linked pairs\<close>

definition mdb_ok :: "mdb \<Rightarrow> bool" where
  "mdb_ok db \<longleftrightarrow> distinct (map u_id (m_users db)) \<and> distinct (map s_id (subscriptions db)) \<and>
     distinct (map s_user_id (subscriptions db))"

definition linked :: "mdb \<Rightarrow> subscription \<Rightarrow> user \<Rightarrow> bool" where
  "linked db s u \<longleftrightarrow> s \<in> set (subscriptions db) \<and> u \<in> set (m_users db) \<and> u_id u = s_user_id s"

definition same_keys :: "subscription \<times> user \<Rightarrow> subscription \<times> user \<Rightarrow> bool" where
  "same_keys p q \<longleftrightarrow> s_id (fst p) = s_id (fst q) \<and> s_user_id (fst p) = s_user_id (fst q) \<and>
     u_id (snd p) = u_id (snd q)"

lemma user_of_linked: "mdb_ok db \<Longrightarrow> linked db s u \<Longrightarrow> user_of s db = Some u"
  unfolding mdb_ok_def linked_def user_of_def by (metis first_where_key)

lemma user_of_Some: "user_of s db = Some u \<Longrightarrow> u \<in> set (m_users db) \<and> u_id u = s_user_id s"
  unfolding user_of_def by (drule first_where_Some) simp

lemma linked_unique:
  assumes "mdb_ok db" and "linked db s u" and "linked db s2 u2" and "u_id u = u_id u2 \<or> s_id s = s_id s2"
  shows "s = s2 \<and> u = u2"
proof -
  have "s = s2"
    using assms distinct_key_unique [of s_id "subscriptions db" s s2]
      distinct_key_unique [of s_user_id "subscriptions db" s s2] by (auto simp: mdb_ok_def linked_def)
  moreover have "u_id u = u_id u2" using assms(2,3) \<open>s = s2\<close> by (simp add: linked_def)
  ultimately show ?thesis
    using assms distinct_key_unique [of u_id "m_users db" u u2] by (auto simp: mdb_ok_def linked_def)
qed

text \<open>Writing a pair back.\<close>

definition put_pair :: "subscription \<Rightarrow> user \<Rightarrow> mdb \<Rightarrow> mdb" where
  "put_pair s u db = put_user u (put_subscription s db)"

lemma put_pair_fields:
  "subscriptions (put_pair s u db) = update_where (\<lambda>r. s_id r = s_id s) (\<lambda>_. s) (subscriptions db)"
  "m_users (put_pair s u db) = update_where (\<lambda>r. u_id r = u_id u) (\<lambda>_. u) (m_users db)"
  by (simp_all add: put_pair_def put_user_def put_subscription_def)

lemma put_pair:
  assumes ok: "mdb_ok db" and pair: "linked db s u" and keys: "same_keys (s', u') (s, u)"
  shows "mdb_ok (put_pair s' u' db)" and "linked (put_pair s' u' db) s' u'"
    and "linked db s2 u2 \<Longrightarrow> s_id s2 \<noteq> s_id s \<Longrightarrow> linked (put_pair s' u' db) s2 u2"
    and "u2 \<in> set (m_users db) \<Longrightarrow> u_id u2 \<noteq> u_id u \<Longrightarrow> u2 \<in> set (m_users (put_pair s' u' db))"
proof -
  have k: "s_id s' = s_id s" "s_user_id s' = s_user_id s" "u_id u' = u_id u" using keys by (auto simp: same_keys_def)
  have mem: "s \<in> set (subscriptions db)" "u \<in> set (m_users db)" "u_id u = s_user_id s" using pair by (auto simp: linked_def)
  have ids: "map s_id (subscriptions (put_pair s' u' db)) = map s_id (subscriptions db)"
    "map u_id (m_users (put_pair s' u' db)) = map u_id (m_users db)"
    by (simp_all add: put_pair_fields replaced_keys)
  have "map s_user_id (subscriptions (put_pair s' u' db)) = map s_user_id (subscriptions db)"
    unfolding put_pair_fields update_where_def
    using distinct_key_unique [of s_id "subscriptions db" _ s] ok mem(1) k by (auto simp: mdb_ok_def)
  with ids show "mdb_ok (put_pair s' u' db)" using ok by (simp add: mdb_ok_def)
  show "linked (put_pair s' u' db) s' u'"
    using mem k by (auto simp: linked_def put_pair_fields replaced_mem rev_image_eqI)
  show "linked (put_pair s' u' db) s2 u2" if "linked db s2 u2" "s_id s2 \<noteq> s_id s"
  proof -
    have "u_id u2 \<noteq> u_id u" using linked_unique [OF ok pair that(1)] that(2) by auto
    with that k show ?thesis by (simp add: linked_def put_pair_fields replaced_mem)
  qed
  show "u2 \<in> set (m_users (put_pair s' u' db))" if "u2 \<in> set (m_users db)" "u_id u2 \<noteq> u_id u"
    using that k by (simp add: put_pair_fields replaced_mem)
qed

text \<open>The rows there are: no handler adds or removes one.\<close>

definition same_rows :: "mdb \<Rightarrow> mdb \<Rightarrow> bool" where
  "same_rows db db' \<longleftrightarrow> map u_id (m_users db') = map u_id (m_users db) \<and>
     map s_id (subscriptions db') = map s_id (subscriptions db) \<and> next_subscription_id db' = next_subscription_id db"

lemma same_rows_refl [simp]: "same_rows db db"
  by (simp add: same_rows_def)

lemma same_rows_trans: "same_rows a b \<Longrightarrow> same_rows b c \<Longrightarrow> same_rows a c"
  by (simp add: same_rows_def)

lemma put_pair_rows: "same_rows db (put_pair s u db)"
  by (simp add: same_rows_def put_pair_fields replaced_keys) (simp add: put_pair_def put_user_def put_subscription_def)

section \<open>A pass over the table\<close>

text \<open>A handler that is local to its row: it can only rewrite the pair of its own subscription, the way
  \<open>row\<close> does.\<close>

locale row_handler =
  fixes handler :: "int \<Rightarrow> mdb \<Rightarrow> supporter_error + (mdb \<times> action list \<times> 'r)"
    and row :: "subscription \<times> user \<Rightarrow> subscription \<times> user"
  assumes row_keys: "same_keys (row p) p"
    and own_row: "mdb_ok db \<Longrightarrow> linked db s u \<Longrightarrow> handler (s_id s) db = Inr (db', acts, r) \<Longrightarrow>
        db' = put_pair (fst (row (s, u))) (snd (row (s, u))) db"
    and own_fails: "mdb_ok db \<Longrightarrow> linked db s u \<Longrightarrow> handler (s_id s) db = Inl e \<Longrightarrow> row (s, u) = (s, u)"
    and no_row: "mdb_ok db \<Longrightarrow> \<not> (\<exists>s u. linked db s u \<and> s_id s = i) \<Longrightarrow> handler i db = Inr (db', acts, r) \<Longrightarrow> db' = db"
begin

lemma one_call:
  assumes ok: "mdb_ok db" and call: "handler i db = Inr (db', acts, r)"
  shows "mdb_ok db'"
    and "linked db s u \<Longrightarrow> if s_id s = i then linked db' (fst (row (s, u))) (snd (row (s, u))) else linked db' s u"
    and "u2 \<in> set (m_users db) \<Longrightarrow> \<not> (\<exists>s. linked db s u2) \<Longrightarrow> u2 \<in> set (m_users db') \<and> \<not> (\<exists>s. linked db' s u2)"
proof -
  show "mdb_ok db'"
  proof (cases "\<exists>s u. linked db s u \<and> s_id s = i")
    case True
    then obtain s u where su: "linked db s u" "s_id s = i" by blast
    from own_row [OF ok su(1)] call su(2) put_pair(1) [OF ok su(1), of "fst (row (s, u))" "snd (row (s, u))"] row_keys [of "(s, u)"]
    show ?thesis by auto
  qed (use no_row [OF ok _ call] ok in simp)
  show "if s_id s = i then linked db' (fst (row (s, u))) (snd (row (s, u))) else linked db' s u" if su: "linked db s u"
  proof (cases "s_id s = i")
    case True
    from own_row [OF ok su] call True put_pair(2) [OF ok su, of "fst (row (s, u))" "snd (row (s, u))"] row_keys [of "(s, u)"]
    show ?thesis by auto
  next
    case False
    show ?thesis
    proof (cases "\<exists>s u. linked db s u \<and> s_id s = i")
      case True
      then obtain s1 u1 where su1: "linked db s1 u1" "s_id s1 = i" by blast
      from own_row [OF ok su1(1)] call su1(2) False row_keys [of "(s1, u1)"] su
        put_pair(3) [OF ok su1(1), of "fst (row (s1, u1))" "snd (row (s1, u1))" s u]
      show ?thesis by auto
    qed (use no_row [OF ok _ call] su False in simp)
  qed
  show "u2 \<in> set (m_users db') \<and> \<not> (\<exists>s. linked db' s u2)" if u2: "u2 \<in> set (m_users db)" "\<not> (\<exists>s. linked db s u2)"
  proof (cases "\<exists>s u. linked db s u \<and> s_id s = i")
    case True
    then obtain s u where su: "linked db s u" "s_id s = i" by blast
    let ?s = "fst (row (s, u))" and ?u = "snd (row (s, u))"
    have db': "db' = put_pair ?s ?u db" using own_row [OF ok su(1)] call su(2) by simp
    have ne: "u_id u2 \<noteq> u_id u"
      using u2 su(1) distinct_key_unique [of u_id "m_users db" u2 u] ok by (auto simp: linked_def mdb_ok_def)
    have k: "s_user_id ?s = s_user_id s" "s_id ?s = s_id s" using row_keys [of "(s, u)"] by (auto simp: same_keys_def)
    have "s_user_id t \<noteq> u_id u2" if "t \<in> set (subscriptions db')" for t
      using that u2 su(1) ne k unfolding db' by (auto simp: put_pair_fields replaced_mem linked_def)
    then have "\<not> (\<exists>t. linked db' t u2)" unfolding linked_def by metis
    with put_pair(4) [OF ok su(1), of ?s ?u u2] u2(1) ne row_keys [of "(s, u)"] db' show ?thesis by simp
  qed (use no_row [OF ok _ call] u2 in auto)
qed

lemma one_call_rows:
  assumes ok: "mdb_ok db" and call: "handler i db = Inr (db', acts, r)"
  shows "same_rows db db'"
proof (cases "\<exists>s u. linked db s u \<and> s_id s = i")
  case True
  then obtain s u where su: "linked db s u" "s_id s = i" by blast
  from own_row [OF ok su(1)] call su(2) put_pair_rows show ?thesis by simp
qed (use no_row [OF ok _ call] in simp)

lemma process_all_same_rows:
  "mdb_ok db \<Longrightarrow> process_all handler ids db = (db', acts, rs, fs) \<Longrightarrow> same_rows db db'"
proof (induction ids arbitrary: db acts rs fs)
  case (Cons i ids)
  show ?case
  proof (cases "handler i db")
    case (Inl e)
    with Cons show ?thesis by (auto split: prod.splits)
  next
    case (Inr x)
    obtain db1 acts1 r where x: "x = (db1, acts1, r)" by (cases x)
    note call = Inr [unfolded x]
    obtain acts' rs' fs' where rec: "process_all handler ids db1 = (db', acts', rs', fs')"
      using Cons.prems(2) call by (auto split: prod.splits)
    from Cons.IH [OF one_call(1) [OF Cons.prems(1) call] rec] one_call_rows [OF Cons.prems(1) call]
    show ?thesis by (rule same_rows_trans [rotated])
  qed
qed simp

lemma process_all_rows:
  assumes "mdb_ok db" and "process_all handler ids db = (db', acts, rs, fs)" and "distinct ids"
  shows "mdb_ok db'"
    and "linked db s u \<Longrightarrow>
      if s_id s \<in> set ids then linked db' (fst (row (s, u))) (snd (row (s, u))) else linked db' s u"
    and "u2 \<in> set (m_users db) \<Longrightarrow> \<not> (\<exists>s. linked db s u2) \<Longrightarrow> u2 \<in> set (m_users db') \<and> \<not> (\<exists>s. linked db' s u2)"
proof -
  have "mdb_ok db' \<and> (\<forall>s u. linked db s u \<longrightarrow>
      (if s_id s \<in> set ids then linked db' (fst (row (s, u))) (snd (row (s, u))) else linked db' s u)) \<and>
    (\<forall>u2 \<in> set (m_users db). \<not> (\<exists>s. linked db s u2) \<longrightarrow> u2 \<in> set (m_users db') \<and> \<not> (\<exists>s. linked db' s u2))"
    using assms
  proof (induction ids arbitrary: db acts rs fs)
    case Nil
    then show ?case by simp
  next
    case (Cons i ids)
    show ?case
    proof (cases "handler i db")
      case (Inl e)
      obtain acts' rs' fs' where rec: "process_all handler ids db = (db', acts', rs', fs')"
        using Cons.prems(2) Inl by (auto split: prod.splits)
      have "row (s, u) = (s, u)" if "linked db s u" "s_id s = i" for s u
        using own_fails [OF Cons.prems(1) that(1)] that(2) Inl by auto
      with Cons.IH [OF Cons.prems(1) rec] Cons.prems(3) show ?thesis by fastforce
    next
      case (Inr x)
      obtain db1 acts1 r where x: "x = (db1, acts1, r)" by (cases x)
      note call = Inr [unfolded x]
      obtain acts' rs' fs' where rec: "process_all handler ids db1 = (db', acts', rs', fs')"
        using Cons.prems(2) call by (auto split: prod.splits)
      note here = one_call [OF Cons.prems(1) call]
      note rest = Cons.IH [OF here(1) rec]
      have "if s_id s \<in> set (i # ids) then linked db' (fst (row (s, u))) (snd (row (s, u))) else linked db' s u"
        if su: "linked db s u" for s u
      proof (cases "s_id s = i")
        case True
        then have now: "linked db1 (fst (row (s, u))) (snd (row (s, u)))" using here(2) [OF su] by simp
        have "s_id (fst (row (s, u))) \<notin> set ids"
          using True Cons.prems(3) row_keys [of "(s, u)"] by (simp add: same_keys_def)
        with rest now Cons.prems(3) True show ?thesis by auto
      next
        case False
        then have "linked db1 s u" using here(2) [OF su] by simp
        with rest Cons.prems(3) False show ?thesis by auto
      qed
      moreover have "u2 \<in> set (m_users db') \<and> \<not> (\<exists>s. linked db' s u2)"
        if "u2 \<in> set (m_users db)" "\<not> (\<exists>s. linked db s u2)" for u2
        using here(3) [OF that] rest Cons.prems(3) by simp
      ultimately show ?thesis using rest Cons.prems(3) by simp
    qed
  qed
  then show "mdb_ok db'"
    and "linked db s u \<Longrightarrow>
      if s_id s \<in> set ids then linked db' (fst (row (s, u))) (snd (row (s, u))) else linked db' s u"
    and "u2 \<in> set (m_users db) \<Longrightarrow> \<not> (\<exists>s. linked db s u2) \<Longrightarrow> u2 \<in> set (m_users db') \<and> \<not> (\<exists>s. linked db' s u2)"
    by blast+
qed

end

section \<open>The two passes\<close>

definition due_row :: "hosts \<Rightarrow> check_world \<Rightarrow> (string \<times> int) list \<Rightarrow> subscription \<times> user \<Rightarrow> subscription \<times> user" where
  "due_row h w amounts p =
     (let (s, u) = p in
      if cw_faulty_due w (s_id s) \<or> status u \<noteq> MEMBER \<or>
         (case support_expiration s of None \<Rightarrow> True | Some t \<Rightarrow> \<not> t \<le> cw_clock_due w (s_id s))
      then p
      else case advance_grace_flow h (cw_clock_due w (s_id s)) s u amounts of
             Inl e \<Rightarrow> p | Inr (s', u', actions, r) \<Rightarrow> (s', u'))"

definition sync_row :: "patreon_config \<Rightarrow> check_world \<Rightarrow> (string \<times> int) list \<Rightarrow> subscription \<times> user \<Rightarrow> subscription \<times> user" where
  "sync_row config w amounts p =
     (let (s, u) = p in
      if cw_faulty_sync w (s_id s) \<or> status u \<noteq> MEMBER then p
      else case map_of amounts (s_patreon_user_id s) of
             None \<Rightarrow> p
           | Some amount \<Rightarrow>
               (case apply_target_level (cw_clock_sync w (s_id s)) config s u amount of
                  Inl e \<Rightarrow> p | Inr (s', u', actions, r) \<Rightarrow> (s', u')))"

lemma advance_grace_flow_keys:
  "advance_grace_flow h now s u amounts = Inr (s', u', acts, r) \<Longrightarrow> same_keys (s', u') (s, u)"
  by (auto simp: advance_grace_flow_def same_keys_def Let_def bind_result_Inr_iff split: if_splits)

lemma apply_target_level_keys:
  "apply_target_level now config s u amount = Inr (s', u', acts, r) \<Longrightarrow> same_keys (s', u') (s, u)"
  by (auto simp: apply_target_level_def same_keys_def Let_def bind_result_Inr_iff split: if_splits)

lemma due_row_keys: "same_keys (due_row h w amounts p) p"
proof (cases p)
  case (Pair s u)
  show ?thesis
  proof (cases "advance_grace_flow h (cw_clock_due w (s_id s)) s u amounts")
    case (Inl e)
    then show ?thesis by (simp add: Pair due_row_def same_keys_def)
  next
    case (Inr x)
    obtain s' u' acts r where x: "x = (s', u', acts, r)" by (cases x)
    from advance_grace_flow_keys [OF Inr [unfolded x]] Inr x show ?thesis
      by (simp add: Pair due_row_def same_keys_def)
  qed
qed

lemma sync_row_keys: "same_keys (sync_row config w amounts p) p"
proof (cases p)
  case (Pair s u)
  show ?thesis
  proof (cases "map_of amounts (s_patreon_user_id s)")
    case None
    then show ?thesis by (simp add: Pair sync_row_def same_keys_def)
  next
    case (Some amount)
    show ?thesis
    proof (cases "apply_target_level (cw_clock_sync w (s_id s)) config s u amount")
      case (Inl e)
      with Some show ?thesis by (simp add: Pair sync_row_def same_keys_def)
    next
      case (Inr x)
      obtain s' u' acts r where x: "x = (s', u', acts, r)" by (cases x)
      from apply_target_level_keys [OF Inr [unfolded x]] Inr x Some show ?thesis
        by (simp add: Pair sync_row_def same_keys_def)
    qed
  qed
qed

lemma put_pair_same:
  assumes "mdb_ok db" and "linked db s u"
  shows "put_pair s u db = db"
proof -
  have "update_where (\<lambda>r. s_id r = s_id s) (\<lambda>_. s) (subscriptions db) = subscriptions db"
    and "update_where (\<lambda>r. u_id r = u_id u) (\<lambda>_. u) (m_users db) = m_users db"
    using assms replaced_same [of s_id "subscriptions db" s] replaced_same [of u_id "m_users db" u]
    by (simp_all add: mdb_ok_def linked_def)
  then show ?thesis by (simp add: put_pair_def put_user_def put_subscription_def)
qed

lemma first_subscription:
  assumes "mdb_ok db" and "s \<in> set (subscriptions db)"
  shows "first_where (\<lambda>r. s_id r = s_id s \<and> Q r) (subscriptions db) = (if Q s then Some s else None)"
  using first_where_by_key [of s_id "subscriptions db" "s_id s" Q] first_where_key [of s_id "subscriptions db" s] assms
  by (simp add: mdb_ok_def)

lemma live_linked_iff: "mdb_ok db \<Longrightarrow> linked db s u \<Longrightarrow> live_linked db s \<longleftrightarrow> status u = MEMBER"
  by (simp add: live_linked_def user_of_linked)

lemma live_linked_pair: "live_linked db s \<Longrightarrow> s \<in> set (subscriptions db) \<Longrightarrow> \<exists>u. linked db s u"
  by (auto simp: live_linked_def linked_def dest: user_of_Some split: option.splits)

interpretation due_pass: row_handler "due_handler h w amounts" "due_row h w amounts"
  for h :: hosts and w :: check_world and amounts :: "(string \<times> int) list"
proof unfold_locales
  show "same_keys (due_row h w amounts p) p" for p by (rule due_row_keys)
  fix db s u
  assume ok: "mdb_ok db" and pair: "linked db s u"
  have s: "s \<in> set (subscriptions db)" using pair by (simp add: linked_def)
  let ?now = "cw_clock_due w (s_id s)"
  let ?due = "status u = MEMBER \<and> (case support_expiration s of None \<Rightarrow> False | Some t \<Rightarrow> t \<le> ?now)"
  have call: "due_handler h w amounts (s_id s) db =
      (if cw_faulty_due w (s_id s) then Inl Processing_Failed
       else if ?due then bind_result (advance_grace_flow h ?now s u amounts)
         (\<lambda>(s', u', actions, r). Inr (put_pair s' u' db, actions, r))
       else Inr (db, [], DUE_SKIPPED))"
    using live_linked_iff [OF ok pair]
    by (simp add: due_handler_def may_fail_def process_due_subscription_def first_subscription [OF ok s]
        due_subscription_def user_of_linked [OF ok pair] put_pair_def cong: option.case_cong)
  show "db' = put_pair (fst (due_row h w amounts (s, u))) (snd (due_row h w amounts (s, u))) db"
    if "due_handler h w amounts (s_id s) db = Inr (db', acts, r)" for db' acts r
    using that unfolding call
    by (auto simp: due_row_def bind_result_Inr_iff put_pair_same [OF ok pair] split: if_splits option.splits)
  show "due_row h w amounts (s, u) = (s, u)" if "due_handler h w amounts (s_id s) db = Inl e" for e
    using that unfolding call
    by (cases "advance_grace_flow h ?now s u amounts") (auto simp: due_row_def split: if_splits option.splits)
next
  fix db i db' acts r
  assume "mdb_ok db" and none: "\<not> (\<exists>s u. linked db s u \<and> s_id s = i)"
    and call: "due_handler h w amounts i db = Inr (db', acts, r)"
  have "first_where (\<lambda>s. s_id s = i \<and> due_subscription (cw_clock_due w i) db s) (subscriptions db) = None"
    unfolding first_where_None due_subscription_def using none live_linked_pair by metis
  with call show "db' = db" by (auto simp: due_handler_def may_fail_def process_due_subscription_def split: if_splits)
qed

interpretation sync_pass: row_handler "sync_handler config w amounts" "sync_row config w amounts"
  for config :: patreon_config and w :: check_world and amounts :: "(string \<times> int) list"
proof unfold_locales
  show "same_keys (sync_row config w amounts p) p" for p by (rule sync_row_keys)
  fix db s u
  assume ok: "mdb_ok db" and pair: "linked db s u"
  have s: "s \<in> set (subscriptions db)" using pair by (simp add: linked_def)
  let ?now = "cw_clock_sync w (s_id s)"
  have call: "sync_handler config w amounts (s_id s) db =
      (if cw_faulty_sync w (s_id s) then Inl Processing_Failed
       else if status u \<noteq> MEMBER then Inr (db, [], SYNC_SKIPPED)
       else case map_of amounts (s_patreon_user_id s) of
         None \<Rightarrow> Inr (db, [], SYNC_SKIPPED)
       | Some amount \<Rightarrow> bind_result (apply_target_level ?now config s u amount)
           (\<lambda>(s', u', actions, r). Inr (put_pair s' u' db, actions, r)))"
    using live_linked_iff [OF ok pair]
    by (simp add: sync_handler_def may_fail_def sync_subscription_level_def first_subscription [OF ok s]
        user_of_linked [OF ok pair] put_pair_def split: option.splits)
  show "db' = put_pair (fst (sync_row config w amounts (s, u))) (snd (sync_row config w amounts (s, u))) db"
    if "sync_handler config w amounts (s_id s) db = Inr (db', acts, r)" for db' acts r
    using that unfolding call
    by (auto simp: sync_row_def bind_result_Inr_iff put_pair_same [OF ok pair] split: if_splits option.splits)
  show "sync_row config w amounts (s, u) = (s, u)" if "sync_handler config w amounts (s_id s) db = Inl e" for e
    using that unfolding call
    by (auto simp: sync_row_def split: if_splits option.splits sum.splits elim: bind_result.elims)
next
  fix db i db' acts r
  assume "mdb_ok db" and none: "\<not> (\<exists>s u. linked db s u \<and> s_id s = i)"
    and call: "sync_handler config w amounts i db = Inr (db', acts, r)"
  have "first_where (\<lambda>s. s_id s = i \<and> live_linked db s) (subscriptions db) = None"
    unfolding first_where_None using none live_linked_pair by metis
  with call show "db' = db" by (auto simp: sync_handler_def may_fail_def sync_subscription_level_def split: if_splits)
qed

section \<open>A run\<close>

definition run_row ::
    "hosts \<Rightarrow> patreon_config \<Rightarrow> check_world \<Rightarrow> (string \<times> int) list \<Rightarrow> subscription \<times> user \<Rightarrow> subscription \<times> user" where
  "run_row h config w amounts p =
     sync_row config w amounts
       (if status (snd p) = MEMBER \<and> (case support_expiration (fst p) of None \<Rightarrow> False | Some t \<Rightarrow> t \<le> cw_now w)
        then due_row h w amounts p else p)"

lemma nominate_distinct: "mdb_ok db \<Longrightarrow> distinct (nominate P db)"
  by (simp add: mdb_ok_def nominate_def distinct_map inj_on_def)

lemma nominate_iff:
  assumes "mdb_ok db" and "s \<in> set (subscriptions db)"
  shows "s_id s \<in> set (nominate P db) \<longleftrightarrow> P s"
proof -
  have "s_id s \<in> set (nominate P db) \<longleftrightarrow> (\<exists>r \<in> set (subscriptions db). s_id r = s_id s \<and> P r)"
    unfolding nominate_def set_map set_filter image_iff by (metis (mono_tags, lifting) mem_Collect_eq)
  also have "\<dots> \<longleftrightarrow> P s" using assms by (intro ex_key) (simp_all add: mdb_ok_def)
  finally show ?thesis .
qed

lemma run_rows:
  assumes ok: "mdb_ok db" and run: "supporter_check_run h config w db = (db', actions, tally, raised)"
    and members: "cw_members w = Some members"
  shows "mdb_ok db'"
    and "linked db s u \<Longrightarrow>
      linked db' (fst (run_row h config w (active_patreon_amounts members) (s, u)))
                 (snd (run_row h config w (active_patreon_amounts members) (s, u)))"
    and "same_rows db db'"
    and "u2 \<in> set (m_users db) \<Longrightarrow> \<not> (\<exists>s. linked db s u2) \<Longrightarrow> u2 \<in> set (m_users db') \<and> \<not> (\<exists>s. linked db' s u2)"
proof -
  define amounts where "amounts = active_patreon_amounts members"
  obtain db1 acts1 dues fs1 where one:
    "process_all (due_handler h w amounts) (nominate (due_subscription (cw_now w) db) db) db = (db1, acts1, dues, fs1)"
    by (metis prod_cases4)
  obtain db2 acts2 syncs fs2 where two:
    "process_all (sync_handler config w amounts) (nominate (live_linked db1) db1) db1 = (db2, acts2, syncs, fs2)"
    by (metis prod_cases4)
  have db': "db' = db2"
    using run members one two
    by (simp add: supporter_check_run_def reconcile_memberships_def amounts_def Let_def)
  note pass1 = due_pass.process_all_rows [OF ok one nominate_distinct [OF ok]]
  note pass2 = sync_pass.process_all_rows [OF pass1(1) two nominate_distinct [OF pass1(1)]]
  show "mdb_ok db'" unfolding db' by (rule pass2(1))
  show "linked db' (fst (run_row h config w (active_patreon_amounts members) (s, u)))
      (snd (run_row h config w (active_patreon_amounts members) (s, u)))" if su: "linked db s u"
  proof -
    let ?p1 = "if status u = MEMBER \<and> (case support_expiration s of None \<Rightarrow> False | Some t \<Rightarrow> t \<le> cw_now w)
        then due_row h w amounts (s, u) else (s, u)"
    have s: "s \<in> set (subscriptions db)" using su by (simp add: linked_def)
    have "linked db1 (fst ?p1) (snd ?p1)"
      using pass1(2) [OF su] nominate_iff [OF ok s, of "due_subscription (cw_now w) db"] live_linked_iff [OF ok su]
      by (auto simp: due_subscription_def split: if_splits)
    moreover obtain s1 u1 where p1: "?p1 = (s1, u1)" by force
    ultimately have su1: "linked db1 s1 u1" by simp
    then have s1: "s1 \<in> set (subscriptions db1)" by (simp add: linked_def)
    have "linked db2 (fst (sync_row config w amounts (s1, u1))) (snd (sync_row config w amounts (s1, u1)))"
    proof (cases "status u1 = MEMBER")
      case True
      with pass2(2) [OF su1] nominate_iff [OF pass1(1) s1, of "live_linked db1"] live_linked_iff [OF pass1(1) su1]
      show ?thesis by simp
    next
      case False
      then have "sync_row config w amounts (s1, u1) = (s1, u1)" by (simp add: sync_row_def)
      with False pass2(2) [OF su1] nominate_iff [OF pass1(1) s1, of "live_linked db1"] live_linked_iff [OF pass1(1) su1]
      show ?thesis by simp
    qed
    then show ?thesis unfolding run_row_def fst_conv snd_conv amounts_def [symmetric] p1 db' .
  qed
  show "same_rows db db'"
    unfolding db' by (rule same_rows_trans [OF due_pass.process_all_same_rows [OF ok one]
        sync_pass.process_all_same_rows [OF pass1(1) two]])
  show "u2 \<in> set (m_users db') \<and> \<not> (\<exists>s. linked db' s u2)" if "u2 \<in> set (m_users db)" "\<not> (\<exists>s. linked db s u2)"
    using pass2(3) pass1(3) [OF that] unfolding db' by blast
qed

lemma run_aborted:
  "cw_members w = None \<Longrightarrow> supporter_check_run h config w db = (db', actions, tally, raised) \<Longrightarrow> db' = db \<and> actions = []"
  by (auto simp: supporter_check_run_def reconcile_memberships_def)

end
