(* ===== verification/Membership_Props.thy ===== *)
theory Membership_Props
  imports Membership_Run
begin

text \<open>
  What the supporter policy guarantees: a run of the daily check acts on every linked pair as
  \<open>run_row\<close> says and isolates failures, an active patron ends at what they pay for or were granted, a
  lapse takes two checkpoints a week apart, the granted floor survives every writer; and a
  case in which a withdrawn grant is never settled.
\<close>

section \<open>The run, row by row\<close>

text \<open>C37. The daily check is its row function: a run takes every linked pair of subscription and user to
  what \<open>run_row\<close> makes of that pair alone, leaves the users without a subscription alone, and keeps the keys
  of the tables unique. In particular a subscription whose handling fails never affects another.\<close>

theorem supporter_check_rowwise:
  assumes "mdb_ok db" and "cw_members w = Some members"
    and "supporter_check_run h config w db = (db', actions, tally, raised)"
  shows "mdb_ok db' \<and>
    (\<forall>s u. linked db s u \<longrightarrow>
       linked db' (fst (run_row h config w (active_patreon_amounts members) (s, u)))
                  (snd (run_row h config w (active_patreon_amounts members) (s, u)))) \<and>
    (\<forall>u \<in> set (m_users db). \<not> (\<exists>s. linked db s u) \<longrightarrow> u \<in> set (m_users db'))"
  using run_rows [OF assms(1,3,2)] by blast

lemma keys_linked:
  assumes "mdb_ok db'" and "linked db' a b" and "linked db' s' u'" and "s_id s' = s_id a"
  shows "s' = a \<and> u' = b"
  using linked_unique [OF assms(1,3,2)] assms(4) by simp

lemma run_row_keys: "same_keys (run_row h config w amounts p) p"
  using sync_row_keys [of config w amounts] due_row_keys [of h w amounts p]
  by (auto simp: run_row_def same_keys_def)

lemma run_pair:
  assumes "mdb_ok db" and "cw_members w = Some members"
    and "supporter_check_run h config w db = (db', actions, tally, raised)"
    and "linked db s u" and "linked db' s' u'" and "s_id s' = s_id s"
  shows "(s', u') = run_row h config w (active_patreon_amounts members) (s, u)"
proof -
  let ?p = "run_row h config w (active_patreon_amounts members) (s, u)"
  have "linked db' (fst ?p) (snd ?p)" by (rule run_rows(2) [OF assms(1,3,2,4)])
  moreover have "s_id (fst ?p) = s_id s"
    using run_row_keys [of h config w "active_patreon_amounts members" "(s, u)"] by (simp add: same_keys_def)
  ultimately have "s' = fst ?p \<and> u' = snd ?p"
    using keys_linked [OF run_rows(1) [OF assms(1,3,2)] _ assms(5)] assms(6) by simp
  then show ?thesis by simp
qed

section \<open>Levels\<close>

lemma due_row_grant: "granted_supporter_level (snd (due_row h w amounts (s, u))) = granted_supporter_level u \<and>
    status (snd (due_row h w amounts (s, u))) = status u \<and>
    s_patreon_user_id (fst (due_row h w amounts (s, u))) = s_patreon_user_id s \<and>
    s_id (fst (due_row h w amounts (s, u))) = s_id s"
  by (auto simp: due_row_def advance_grace_flow_def Let_def split: option.splits sum.splits if_splits
      elim!: bind_result.elims)

lemma level_for_amount_not_none: "level_for_amount amount config \<noteq> NONE"
  by (simp add: level_for_amount_def)

lemma messages_defined:
  "l \<noteq> NONE \<Longrightarrow> unlocked_for l = Inr (Unlocked l)"
  "l \<noteq> NONE \<Longrightarrow> granted_for l = Inr (Granted l)"
  "l \<noteq> NONE \<Longrightarrow> l \<noteq> HOST_3 \<Longrightarrow> downgraded_to l = Inr (Tier_Set l)"
  by (cases l; simp)+

text \<open>A tier message always has a text: an upgrade is to a paying tier, a downgrade below the previous one.\<close>

lemma apply_target_level_total:
  "\<exists>acts r. apply_target_level now config s u amount =
     (let target = max (level_for_amount amount config) (granted_supporter_level u) in
      if u_supporter_level u = target then Inr (s, u, [], UNCHANGED)
      else Inr (s\<lparr>support_expiration := Some (now + GRACE_PERIOD), expiration_notified := False\<rparr>,
                u\<lparr>u_supporter_level := target\<rparr>, acts, r))"
proof -
  let ?t = "max (level_for_amount amount config) (granted_supporter_level u)"
  have paying: "?t \<noteq> NONE"
    using level_for_amount_not_none [of amount config] level_le_simps(1) by (metis antisym max.cobounded1)
  show ?thesis
  proof (cases "u_supporter_level u = ?t")
    case True
    then show ?thesis by (simp add: apply_target_level_def highest_two)
  next
    case False
    show ?thesis
    proof (cases "meets (u_supporter_level u) ?t")
      case True
      then have "?t \<le> u_supporter_level u" by (simp add: meets_iff)
      with False have "?t \<noteq> HOST_3" using level_le_simps(2) by (metis antisym)
      with False True paying show ?thesis
        by (simp add: apply_target_level_def highest_two messages_defined Let_def)
    next
      case below: False
      with False paying show ?thesis
        by (simp add: apply_target_level_def highest_two messages_defined Let_def)
    qed
  qed
qed

lemma sync_row_level:
  assumes "status u = MEMBER" and "\<not> cw_faulty_sync w (s_id s)" and "map_of amounts (s_patreon_user_id s) = Some amount"
  shows "u_supporter_level (snd (sync_row config w amounts (s, u))) =
    max (level_for_amount amount config) (granted_supporter_level u)"
proof -
  obtain acts r where "apply_target_level (cw_clock_sync w (s_id s)) config s u amount =
     (let target = max (level_for_amount amount config) (granted_supporter_level u) in
      if u_supporter_level u = target then Inr (s, u, [], UNCHANGED)
      else Inr (s\<lparr>support_expiration := Some (cw_clock_sync w (s_id s) + GRACE_PERIOD), expiration_notified := False\<rparr>,
                u\<lparr>u_supporter_level := target\<rparr>, acts, r))"
    using apply_target_level_total by blast
  with assms show ?thesis by (simp add: sync_row_def Let_def)
qed

text \<open>C36. An active patron is settled by the run, whatever state they were in: a linked member on Patreon's
  list, whose own two transactions do not fail, ends the run at the higher of the tier their entitled
  amount buys and the tier they were granted.\<close>

theorem active_patron_settled:
  assumes "mdb_ok db" and "cw_members w = Some members"
    and "supporter_check_run h config w db = (db', actions, tally, raised)"
    and "linked db s u" and "linked db' s' u'" and "s_id s' = s_id s"
    and "status u = MEMBER" and "\<not> cw_faulty_sync w (s_id s)"
    and "map_of (active_patreon_amounts members) (s_patreon_user_id s) = Some amount"
  shows "u_supporter_level u' = max (level_for_amount amount config) (granted_supporter_level u)"
proof -
  let ?amounts = "active_patreon_amounts members"
  let ?p1 = "if status u = MEMBER \<and> (case support_expiration s of None \<Rightarrow> False | Some t \<Rightarrow> t \<le> cw_now w)
        then due_row h w ?amounts (s, u) else (s, u)"
  obtain s1 u1 where p1: "?p1 = (s1, u1)" by force
  have frame: "status u1 = MEMBER" "s_id s1 = s_id s" "s_patreon_user_id s1 = s_patreon_user_id s"
    "granted_supporter_level u1 = granted_supporter_level u"
    using p1 assms(7) due_row_grant [of h w ?amounts s u] by (auto split: if_splits)
  have "(s', u') = sync_row config w ?amounts (s1, u1)"
    using run_pair [OF assms(1-6)] unfolding run_row_def fst_conv snd_conv p1 .
  then have "u' = snd (sync_row config w ?amounts (s1, u1))" by (metis snd_conv)
  with sync_row_level [of u1 w s1 ?amounts amount config] frame assms(8,9) show ?thesis by simp
qed

section \<open>Lapsing\<close>

lemma sync_row_absent: "map_of amounts (s_patreon_user_id s) = None \<Longrightarrow> sync_row config w amounts (s, u) = (s, u)"
  by (simp add: sync_row_def)

lemma run_row_absent:
  assumes "map_of amounts (s_patreon_user_id s) = None"
  shows "run_row h config w amounts (s, u) =
    (if status u = MEMBER \<and> (case support_expiration s of None \<Rightarrow> False | Some t \<Rightarrow> t \<le> cw_now w)
     then due_row h w amounts (s, u) else (s, u))"
  using assms due_row_grant [of h w amounts s u] sync_row_absent [of amounts "fst (due_row h w amounts (s, u))"]
  by (simp add: run_row_def sync_row_absent) (metis prod.collapse sync_row_absent)

lemma due_row_first:
  assumes "map_of amounts (s_patreon_user_id s) = None" and "\<not> expiration_notified s"
  shows "due_row h w amounts (s, u) = (s, u) \<or>
    due_row h w amounts (s, u) =
      (s\<lparr>expiration_notified := True, support_expiration := Some (cw_clock_due w (s_id s) + days 7)\<rparr>, u)"
  using assms by (auto simp: due_row_def advance_grace_flow_def GRACE_PERIOD_def)

lemma due_row_not_due:
  assumes "support_expiration s = Some t" and "cw_clock_due w (s_id s) < t"
  shows "due_row h w amounts (s, u) = (s, u)"
  using assms by (simp add: due_row_def)

text \<open>C38. A lapse takes two checkpoints, a week apart. A supporter who has not been warned does not lose
  their tier in a run that misses them on Patreon's list; and if the next run that misses them changes the tier,
  the first run has warned them, and at least seven days have passed between the two.\<close>

theorem lapse_needs_two_runs_a_week_apart:
  assumes "mdb_ok db" and "linked db s u" and "\<not> expiration_notified s"
    and "cw_members w1 = Some members1" and "cw_members w2 = Some members2"
    and "map_of (active_patreon_amounts members1) (s_patreon_user_id s) = None"
    and "map_of (active_patreon_amounts members2) (s_patreon_user_id s) = None"
    and "supporter_check_run h config w1 db = (db1, actions1, tally1, raised1)"
    and "supporter_check_run h config w2 db1 = (db2, actions2, tally2, raised2)"
    and "linked db1 s1 u1" and "s_id s1 = s_id s" and "linked db2 s2 u2" and "s_id s2 = s_id s"
  shows "u_supporter_level u1 = u_supporter_level u \<and>
    (u_supporter_level u2 \<noteq> u_supporter_level u \<longrightarrow>
       expiration_notified s1 \<and> cw_clock_due w2 (s_id s) \<ge> cw_clock_due w1 (s_id s) + days 7)"
proof -
  have one: "(s1, u1) = run_row h config w1 (active_patreon_amounts members1) (s, u)"
    by (rule run_pair [OF assms(1,4,8,2,10,11)])
  have ok1: "mdb_ok db1" by (rule run_rows(1) [OF assms(1,8,4)])
  have two: "(s2, u2) = run_row h config w2 (active_patreon_amounts members2) (s1, u1)"
    using run_pair [OF ok1 assms(5,9,10,12)] assms(11,13) by simp
  let ?warned = "s\<lparr>expiration_notified := True, support_expiration := Some (cw_clock_due w1 (s_id s) + days 7)\<rparr>"
  from one run_row_absent [OF assms(6), of h config w1 u] due_row_first [OF assms(6,3), of h w1 u]
  have first: "(s1, u1) = (s, u) \<or> (s1, u1) = (?warned, u)" by (auto split: if_splits)
  then have "u1 = u" by auto
  have absent1: "map_of (active_patreon_amounts members2) (s_patreon_user_id s1) = None"
    using first assms(7) by auto
  have "expiration_notified s1 \<and> cw_clock_due w2 (s_id s) \<ge> cw_clock_due w1 (s_id s) + days 7"
    if changed: "u_supporter_level u2 \<noteq> u_supporter_level u"
  proof -
    from two run_row_absent [OF absent1, of h config w2 u1] changed \<open>u1 = u\<close>
    have due: "(s2, u2) = due_row h w2 (active_patreon_amounts members2) (s1, u1)" by (auto split: if_splits)
    have "expiration_notified s1"
    proof (rule ccontr)
      assume "\<not> expiration_notified s1"
      from due_row_first [OF absent1 this, of h w2 u1] due changed \<open>u1 = u\<close> show False by auto
    qed
    with first assms(3) have s1: "s1 = ?warned" by auto
    have "\<not> cw_clock_due w2 (s_id s) < cw_clock_due w1 (s_id s) + days 7"
    proof
      assume early: "cw_clock_due w2 (s_id s) < cw_clock_due w1 (s_id s) + days 7"
      have "due_row h w2 (active_patreon_amounts members2) (s1, u1) = (s1, u1)"
        by (rule due_row_not_due [of _ "cw_clock_due w1 (s_id s) + days 7"]) (use early in \<open>simp_all add: s1\<close>)
      with due changed \<open>u1 = u\<close> show False by auto
    qed
    with \<open>expiration_notified s1\<close> show ?thesis by simp
  qed
  with \<open>u1 = u\<close> show ?thesis by blast
qed

lemma untouched_without_runway:
  assumes "mdb_ok db" and "linked db s u" and "support_expiration s = None"
    and "\<forall>members. cw_members w = Some members \<longrightarrow> map_of (active_patreon_amounts members) (s_patreon_user_id s) = None"
  shows "mdb_ok (fst (supporter_check_run h config w db)) \<and> linked (fst (supporter_check_run h config w db)) s u"
proof -
  obtain db' actions tally raised where run: "supporter_check_run h config w db = (db', actions, tally, raised)"
    by (metis prod_cases4)
  show ?thesis
  proof (cases "cw_members w")
    case None
    with run_aborted [OF None run] run assms(1,2) show ?thesis by simp
  next
    case (Some members)
    have "run_row h config w (active_patreon_amounts members) (s, u) = (s, u)"
      using run_row_absent [of "active_patreon_amounts members" s h config w u] assms(3,4) Some by simp
    with run_rows(1) [OF assms(1) run Some] run_rows(2) [OF assms(1) run Some assms(2)] run show ?thesis by simp
  qed
qed

definition later_runs :: "hosts \<Rightarrow> patreon_config \<Rightarrow> check_world list \<Rightarrow> mdb \<Rightarrow> mdb" where
  "later_runs h config ws db = fold (\<lambda>w db. fst (supporter_check_run h config w db)) ws db"

lemma later_runs_untouched:
  assumes "support_expiration s = None"
    and "\<forall>w \<in> set ws. \<forall>members. cw_members w = Some members \<longrightarrow>
        map_of (active_patreon_amounts members) (s_patreon_user_id s) = None"
  shows "mdb_ok db \<Longrightarrow> linked db s u \<Longrightarrow> linked (later_runs h config ws db) s u"
  using assms(2)
proof (induction ws arbitrary: db)
  case (Cons w ws)
  with untouched_without_runway [OF Cons.prems(1,2) assms(1), of w h config] show ?case
    by (simp add: later_runs_def)
qed (simp add: later_runs_def)

lemma linked_subscription: "linked db s u \<Longrightarrow> subscription_for_user db u \<noteq> None"
  by (auto simp: linked_def subscription_for_user_def first_where_None)

lemma put_user_linked:
  assumes "mdb_ok db" and "linked db s u" and "u_id u' = u_id u"
  shows "mdb_ok (put_user u' db)" and "linked (put_user u' db) s u'"
proof -
  have "put_subscription s db = db"
    using assms(1,2) replaced_same [of s_id "subscriptions db" s] by (simp add: put_subscription_def mdb_ok_def linked_def)
  then have "put_user u' db = put_pair s u' db" by (simp add: put_pair_def)
  with put_pair(1,2) [OF assms(1,2), of s u'] assms(3)
  show "mdb_ok (put_user u' db)" "linked (put_user u' db) s u'" by (simp_all add: same_keys_def)
qed

text \<open>A grant to a linked account always goes through and leaves the higher of the two tiers.\<close>

lemma apply_grant_linked:
  assumes "mdb_ok db" and "linked db s u"
  shows "\<exists>acts. apply_grant h u level db =
    Inr (put_user (u\<lparr>granted_supporter_level := level, u_supporter_level := max (u_supporter_level u) level\<rparr>) db, acts)"
proof -
  let ?new = "max (u_supporter_level u) level"
  have "?new \<noteq> u_supporter_level u \<Longrightarrow> \<not> meets (u_supporter_level u) ?new \<and> ?new \<noteq> NONE"
    using level_le_simps(1) [of "u_supporter_level u"] by (auto simp: meets_iff max_def split: if_splits)
  then show ?thesis
    using linked_subscription [OF assms(2)]
    by (auto simp: apply_grant_def Let_def notify_target_def highest_two messages_defined)
qed

text \<open>C40. Where a grant is not a floor but a ceiling nobody lowers. A linked account without a runway (its
  owner linked Patreon without paying, or has lapsed before) that Patreon does not list is touched by no run of
  the daily check, ever. So when an operator gives it a tier and takes it back, the tier stays: the grant is
  NONE, the level is not, and no later run brings them together.\<close>

theorem withdrawn_grant_is_never_settled:
  assumes "mdb_ok db" and "linked db s u" and "support_expiration s = None"
    and "\<forall>w \<in> set ws. \<forall>members. cw_members w = Some members \<longrightarrow>
        map_of (active_patreon_amounts members) (s_patreon_user_id s) = None"
  shows "\<exists>db1 acts1 u1 db2 acts2 u2. apply_grant h u level db = Inr (db1, acts1) \<and> linked db1 s u1 \<and>
    apply_grant h u1 NONE db1 = Inr (db2, acts2) \<and> linked (later_runs h config ws db2) s u2 \<and>
    granted_supporter_level u2 = NONE \<and> u_supporter_level u2 \<ge> level"
proof -
  let ?u1 = "u\<lparr>granted_supporter_level := level, u_supporter_level := max (u_supporter_level u) level\<rparr>"
  let ?u2 = "u\<lparr>granted_supporter_level := NONE, u_supporter_level := max (u_supporter_level u) level\<rparr>"
  obtain acts1 where one: "apply_grant h u level db = Inr (put_user ?u1 db, acts1)"
    using apply_grant_linked [OF assms(1,2)] by blast
  have ok1: "mdb_ok (put_user ?u1 db)" and pair1: "linked (put_user ?u1 db) s ?u1"
    using put_user_linked [OF assms(1,2), of ?u1] by simp_all
  obtain acts2 where two: "apply_grant h ?u1 NONE (put_user ?u1 db) = Inr (put_user ?u2 (put_user ?u1 db), acts2)"
    using apply_grant_linked [OF ok1 pair1, of h NONE] by auto
  have "mdb_ok (put_user ?u2 (put_user ?u1 db))" "linked (put_user ?u2 (put_user ?u1 db)) s ?u2"
    using put_user_linked [OF ok1 pair1, of ?u2] by simp_all
  from later_runs_untouched [OF assms(3,4) this]
  have "linked (later_runs h config ws (put_user ?u2 (put_user ?u1 db))) s ?u2" .
  with one pair1 two show ?thesis
    by (intro exI [of _ "put_user ?u1 db"] exI [of _ acts1] exI [of _ ?u1] exI [of _ "put_user ?u2 (put_user ?u1 db)"]
        exI [of _ acts2] exI [of _ ?u2]) simp
qed

end
