(* ===== verification/Membership_Floor.thy ===== *)
theory Membership_Floor
  imports Membership_Props
begin

text \<open>
  The manually granted tier as a floor: every writer of \<open>User.supporter_level\<close> (the daily check, the
  webhook, a confirmed link, an operator's grant, an unlink) as one event of a system, and the
  invariant that all of them keep.
\<close>

section \<open>Writers\<close>

datatype writer =
    Daily check_world
  | Webhook instant "string option" member_resource
  | Link instant bool int string supporter_level
  | Grant int supporter_level
  | Unlink int

text \<open>A writer that raises is rolled back; one whose account is unknown writes nothing.\<close>

definition commit :: "mdb \<Rightarrow> 'e + (mdb \<times> 'a) \<Rightarrow> mdb" where
  "commit db r = (case r of Inl e \<Rightarrow> db | Inr x \<Rightarrow> fst x)"

definition apply_writer :: "hosts \<Rightarrow> patreon_config \<Rightarrow> writer \<Rightarrow> mdb \<Rightarrow> mdb" where
  "apply_writer h config ev db =
     (case ev of
        Daily w \<Rightarrow> fst (supporter_check_run h config w db)
      | Webhook now trigger m \<Rightarrow> commit db (apply_membership_event h config now trigger m db)
      | Link now lost_race tg pid granted \<Rightarrow>
          (case user_by_tg_id db tg of None \<Rightarrow> db
           | Some u \<Rightarrow> commit db (link_patreon_account h now lost_race u pid granted db))
      | Grant tg level \<Rightarrow>
          (case user_by_tg_id db tg of None \<Rightarrow> db | Some u \<Rightarrow> commit db (apply_grant h u level db))
      | Unlink tg \<Rightarrow>
          (case user_by_tg_id db tg of None \<Rightarrow> db | Some u \<Rightarrow> fst (confirm_unlink_patreon h u db)))"

text \<open>Keys are unique, no level is below its grant, and an account without a subscription is exactly at
  its grant.\<close>

definition at_floor :: "mdb \<Rightarrow> bool" where
  "at_floor db \<longleftrightarrow>
     (\<forall>u \<in> set (m_users db). granted_supporter_level u \<le> u_supporter_level u \<and>
        (\<not> (\<exists>s. linked db s u) \<longrightarrow> u_supporter_level u = granted_supporter_level u))"

definition supporter_ok :: "mdb \<Rightarrow> bool" where
  "supporter_ok db \<longleftrightarrow> mdb_ok db \<and> at_floor db \<and> (\<forall>s \<in> set (subscriptions db). s_id s < next_subscription_id db)"

section \<open>Each writer\<close>

lemma floor_level:
  "granted_supporter_level u \<le> u_supporter_level u \<Longrightarrow>
     granted_supporter_level (snd (due_row h w amounts (s, u))) \<le> u_supporter_level (snd (due_row h w amounts (s, u)))"
  by (auto simp: due_row_def advance_grace_flow_def Let_def split: option.splits sum.splits if_splits
      elim!: bind_result.elims)

lemma sync_floor:
  "granted_supporter_level u \<le> u_supporter_level u \<Longrightarrow>
     granted_supporter_level (snd (sync_row config w amounts (s, u))) \<le> u_supporter_level (snd (sync_row config w amounts (s, u)))"
  by (auto simp: sync_row_def apply_target_level_def highest_two Let_def split: option.splits sum.splits if_splits
      elim!: bind_result.elims)

lemma run_floor:
  "granted_supporter_level u \<le> u_supporter_level u \<Longrightarrow>
     granted_supporter_level (snd (run_row h config w amounts (s, u))) \<le> u_supporter_level (snd (run_row h config w amounts (s, u)))"
  using sync_floor [of "snd (due_row h w amounts (s, u))" config w amounts "fst (due_row h w amounts (s, u))"]
    floor_level [of u h w amounts s] sync_floor [of u config w amounts s]
  by (simp add: run_row_def)

lemma daily_ok:
  assumes "supporter_ok db"
  shows "supporter_ok (fst (supporter_check_run h config w db))"
proof -
  obtain db' actions tally raised where run: "supporter_check_run h config w db = (db', actions, tally, raised)"
    by (metis prod_cases4)
  have ok: "mdb_ok db" and floor: "at_floor db" using assms by (simp_all add: supporter_ok_def)
  show ?thesis
  proof (cases "cw_members w")
    case None
    with run_aborted [OF None run] run assms show ?thesis by simp
  next
    case (Some members)
    let ?row = "run_row h config w (active_patreon_amounts members)"
    note rows = run_rows [OF ok run Some]
    have "granted_supporter_level u' \<le> u_supporter_level u' \<and>
        (\<not> (\<exists>s. linked db' s u') \<longrightarrow> u_supporter_level u' = granted_supporter_level u')"
      if u': "u' \<in> set (m_users db')" for u'
    proof -
      have "u_id u' \<in> set (map u_id (m_users db))"
        using rows(3) u' unfolding same_rows_def by (metis imageI list.set_map)
      then obtain u where u: "u \<in> set (m_users db)" "u_id u = u_id u'" by auto
      have only: "u'' = u'" if "u'' \<in> set (m_users db')" "u_id u'' = u_id u'" for u''
        using rows(1) that u' distinct_key_unique [of u_id "m_users db'" u'' u'] by (simp add: mdb_ok_def)
      show ?thesis
      proof (cases "\<exists>s. linked db s u")
        case True
        then obtain s where su: "linked db s u" by blast
        have now: "linked db' (fst (?row (s, u))) (snd (?row (s, u)))" by (rule rows(2) [OF su])
        have "u_id (snd (?row (s, u))) = u_id u'"
          using run_row_keys [of h config w "active_patreon_amounts members" "(s, u)"] u(2) by (simp add: same_keys_def)
        with only now have "snd (?row (s, u)) = u'" by (simp add: linked_def)
        with now run_floor [of u h config w "active_patreon_amounts members" s] floor u(1) show ?thesis
          by (auto simp: at_floor_def)
      next
        case False
        from rows(4) [OF u(1) this] only u(2) have "u = u'" by blast
        with False floor u(1) show ?thesis by (auto simp: at_floor_def)
      qed
    qed
    moreover have "\<forall>s \<in> set (subscriptions db'). s_id s < next_subscription_id db'"
    proof -
      have "\<forall>i \<in> set (map s_id (subscriptions db')). i < next_subscription_id db'"
        using rows(3) assms unfolding same_rows_def supporter_ok_def by simp
      then show ?thesis by simp
    qed
    ultimately show ?thesis using rows(1) run by (simp add: supporter_ok_def at_floor_def)
  qed
qed

text \<open>Writing one linked pair back, with its level at or above its grant.\<close>

lemma put_pair_ok:
  assumes ok: "supporter_ok db" and pair: "linked db s u" and keys: "same_keys (s', u') (s, u)"
    and level: "granted_supporter_level u' \<le> u_supporter_level u'"
  shows "supporter_ok (put_pair s' u' db)"
proof -
  have m: "mdb_ok db" using ok by (simp add: supporter_ok_def)
  note put = put_pair [OF m pair keys]
  have k: "s_id s' = s_id s" "u_id u' = u_id u" using keys by (auto simp: same_keys_def)
  have "granted_supporter_level v \<le> u_supporter_level v \<and>
      (\<not> (\<exists>s. linked (put_pair s' u' db) s v) \<longrightarrow> u_supporter_level v = granted_supporter_level v)"
    if v: "v \<in> set (m_users (put_pair s' u' db))" for v
  proof (cases "v = u'")
    case True
    with level put(2) show ?thesis by blast
  next
    case False
    with v k have old: "v \<in> set (m_users db)" "u_id v \<noteq> u_id u" by (auto simp: put_pair_fields replaced_mem)
    have "\<exists>t. linked (put_pair s' u' db) t v" if "linked db t v" for t
    proof -
      have "s_id t \<noteq> s_id s" using linked_unique [OF m that pair] old(2) by auto
      with put(3) [OF that] show ?thesis by blast
    qed
    then have "\<not> (\<exists>s. linked (put_pair s' u' db) s v) \<longrightarrow> \<not> (\<exists>s. linked db s v)" by blast
    with old(1) ok show ?thesis unfolding supporter_ok_def at_floor_def by blast
  qed
  moreover have "\<forall>t \<in> set (subscriptions (put_pair s' u' db)). s_id t < next_subscription_id (put_pair s' u' db)"
  proof -
    have "\<forall>i \<in> set (map s_id (subscriptions (put_pair s' u' db))). i < next_subscription_id (put_pair s' u' db)"
      using put_pair_rows [of db s' u'] ok unfolding same_rows_def supporter_ok_def by simp
    then show ?thesis by simp
  qed
  ultimately show ?thesis using put(1) by (simp add: supporter_ok_def at_floor_def)
qed

lemma webhook_ok:
  assumes ok: "supporter_ok db"
  shows "supporter_ok (commit db (apply_membership_event h config now trigger m db))"
proof (cases "apply_membership_event h config now trigger m db")
  case (Inr x)
  show ?thesis
  proof (cases "fst x = db")
    case True
    with ok Inr show ?thesis by (simp add: commit_def)
  next
    case False
    from Inr False obtain pid s u where s: "first_where (\<lambda>s. s_patreon_user_id s = pid) (subscriptions db) = Some s"
      and u: "user_of s db = Some u"
      and x: "fst x = put_pair (fst (snd (apply_membership_transition now u s (target_level trigger m config))))
          (fst (apply_membership_transition now u s (target_level trigger m config))) db"
      by (auto simp: apply_membership_event_def put_pair_def bind_result_Inr_iff Let_def split: option.splits prod.splits)
    have pair: "linked db s u"
      using first_where_Some [OF s] user_of_Some [OF u] by (simp add: linked_def)
    have "granted_supporter_level u \<le> u_supporter_level u"
      using ok pair by (auto simp: supporter_ok_def at_floor_def linked_def)
    then have "supporter_ok (fst x)"
      unfolding x by (intro put_pair_ok [OF ok pair])
        (auto simp: apply_membership_transition_def Let_def same_keys_def highest_two)
    with Inr show ?thesis by (simp add: commit_def)
  qed
qed (use ok in \<open>simp add: commit_def\<close>)

lemma put_user_ok:
  assumes ok: "supporter_ok db" and u: "u \<in> set (m_users db)" and id: "u_id u' = u_id u"
    and level: "granted_supporter_level u' \<le> u_supporter_level u'"
    and unlinked: "\<not> (\<exists>s. linked db s u) \<Longrightarrow> u_supporter_level u' = granted_supporter_level u'"
  shows "supporter_ok (put_user u' db)"
proof -
  let ?db = "put_user u' db"
  have subs: "subscriptions ?db = subscriptions db" "next_subscription_id ?db = next_subscription_id db"
    by (simp_all add: put_user_def)
  have mem: "v \<in> set (m_users ?db) \<longleftrightarrow> v = u' \<or> (v \<in> set (m_users db) \<and> u_id v \<noteq> u_id u)" for v
    using u id by (auto simp: put_user_def replaced_mem)
  have "map u_id (m_users ?db) = map u_id (m_users db)" by (simp add: put_user_def replaced_keys)
  then have "mdb_ok ?db" using ok by (simp add: supporter_ok_def mdb_ok_def subs)
  moreover have "linked ?db s u' \<longleftrightarrow> linked db s u" for s
    using u id mem by (auto simp: linked_def subs)
  moreover have "linked ?db s v \<longleftrightarrow> linked db s v" if "v \<in> set (m_users db)" "u_id v \<noteq> u_id u" for s v
    using that mem by (simp add: linked_def subs)
  moreover have "granted_supporter_level v \<le> u_supporter_level v \<and>
      (\<not> (\<exists>s. linked ?db s v) \<longrightarrow> u_supporter_level v = granted_supporter_level v)"
    if v: "v \<in> set (m_users ?db)" for v
  proof (cases "v = u'")
    case True
    with level unlinked calculation(2) show ?thesis by blast
  next
    case False
    with v mem have old: "v \<in> set (m_users db)" "u_id v \<noteq> u_id u" by blast+
    with calculation(3) ok show ?thesis unfolding supporter_ok_def at_floor_def by blast
  qed
  ultimately show ?thesis using ok by (simp add: supporter_ok_def at_floor_def subs)
qed

lemma grant_ok:
  assumes ok: "supporter_ok db" and u: "u \<in> set (m_users db)"
  shows "supporter_ok (commit db (apply_grant h u level db))"
proof (cases "apply_grant h u level db")
  case (Inr x)
  have "subscription_for_user db u = None \<longleftrightarrow> \<not> (\<exists>s. linked db s u)"
    using u by (auto simp: subscription_for_user_def first_where_None linked_def)
  then have "supporter_ok (fst x)"
    using Inr by (auto simp: apply_grant_def Let_def bind_result_Inr_iff highest_two intro!: put_user_ok [OF ok u])
  with Inr show ?thesis by (simp add: commit_def)
qed (use ok in \<open>simp add: commit_def\<close>)

lemma unlink_ok:
  assumes ok: "supporter_ok db" and u: "u \<in> set (m_users db)"
  shows "supporter_ok (fst (confirm_unlink_patreon h u db))"
proof (cases "subscription_for_user db u")
  case None
  with ok show ?thesis by (simp add: confirm_unlink_patreon_def)
next
  case (Some s)
  have pair: "linked db s u"
    using first_where_Some [OF Some [unfolded subscription_for_user_def]] u by (simp add: linked_def)
  have m: "mdb_ok db" using ok by (simp add: supporter_ok_def)
  let ?u = "u\<lparr>u_supporter_level := granted_supporter_level u\<rparr>"
  let ?db = "put_user ?u (db\<lparr>subscriptions := delete_where (\<lambda>r. s_id r = s_id s) (subscriptions db)\<rparr>)"
  have mem: "v \<in> set (m_users ?db) \<longleftrightarrow> v = ?u \<or> (v \<in> set (m_users db) \<and> u_id v \<noteq> u_id u)" for v
    using u by (auto simp: put_user_def replaced_mem)
  have subs: "set (subscriptions ?db) = {r \<in> set (subscriptions db). s_id r \<noteq> s_id s}"
    by (simp add: put_user_def)
  have "map u_id (m_users ?db) = map u_id (m_users db)" by (simp add: put_user_def replaced_keys)
  then have "mdb_ok ?db"
    using m by (simp add: mdb_ok_def) (simp add: put_user_def delete_where_def distinct_map inj_on_def)
  moreover have "linked ?db t v" if "linked db t v" "u_id v \<noteq> u_id u" for t v
  proof -
    have "s_id t \<noteq> s_id s" using linked_unique [OF m that(1) pair] that(2) by auto
    with that mem subs show ?thesis by (simp add: linked_def)
  qed
  moreover have "next_subscription_id ?db = next_subscription_id db" by (simp add: put_user_def)
  moreover have "granted_supporter_level v \<le> u_supporter_level v \<and>
      (\<not> (\<exists>s. linked ?db s v) \<longrightarrow> u_supporter_level v = granted_supporter_level v)"
    if v: "v \<in> set (m_users ?db)" for v
  proof (cases "v = ?u")
    case False
    with v mem have old: "v \<in> set (m_users db)" "u_id v \<noteq> u_id u" by blast+
    with calculation(2) ok show ?thesis unfolding supporter_ok_def at_floor_def by blast
  qed simp
  moreover have "\<forall>r \<in> set (subscriptions ?db). s_id r < next_subscription_id db"
    using ok unfolding subs supporter_ok_def by simp
  ultimately have "supporter_ok ?db" by (simp add: supporter_ok_def at_floor_def)
  with Some show ?thesis by (simp add: confirm_unlink_patreon_def Let_def)
qed

lemma put_subscription_twice:
  "s_id s = s_id t \<Longrightarrow> put_subscription s (put_subscription t db) = put_subscription s db"
proof -
  assume "s_id s = s_id t"
  then have "update_where (\<lambda>r. s_id r = s_id s) (\<lambda>_. s) (update_where (\<lambda>r. s_id r = s_id t) (\<lambda>_. t) rows) =
      update_where (\<lambda>r. s_id r = s_id s) (\<lambda>_. s) rows" for rows
    by (induction rows) auto
  then show ?thesis by (simp add: put_subscription_def)
qed

lemma link_ok:
  assumes ok: "supporter_ok db" and u: "u \<in> set (m_users db)"
  shows "supporter_ok (commit db (link_patreon_account h now lost_race u pid granted db))"
proof (cases "link_patreon_account h now lost_race u pid granted db")
  case (Inr x)
  show ?thesis
  proof (cases "fst x = db")
    case True
    with ok Inr show ?thesis by (simp add: commit_def)
  next
    case False
    let ?u = "u\<lparr>u_supporter_level := highest granted [granted_supporter_level u]\<rparr>"
    from Inr False obtain db1 s where upsert: "upsert_subscription lost_race u pid db = Some (db1, s)"
      by (auto simp: link_patreon_account_def split: if_splits option.splits)
    with Inr False obtain t where x: "fst x = put_user ?u (put_subscription (s\<lparr>support_expiration := t\<rparr>) db1)"
      by (auto simp: link_patreon_account_def Let_def bind_result_Inr_iff split: if_splits)
    have level: "granted_supporter_level ?u \<le> u_supporter_level ?u" by (simp add: highest_two)
    have "supporter_ok (fst x)"
    proof (cases "subscription_for_user db u")
      case (Some s0)
      have pair: "linked db s0 u"
        using first_where_Some [OF Some [unfolded subscription_for_user_def]] u by (simp add: linked_def)
      from upsert Some have "db1 = put_subscription s db" "s = s0\<lparr>s_patreon_user_id := pid\<rparr>"
        by (auto simp: upsert_subscription_def Let_def split: if_splits)
      then have "fst x = put_pair (s\<lparr>support_expiration := t\<rparr>) ?u db" "s_id s = s_id s0" "s_user_id s = s_user_id s0"
        by (simp_all add: x put_pair_def put_subscription_twice)
      with put_pair_ok [OF ok pair _ level, of "s\<lparr>support_expiration := t\<rparr>"] show ?thesis by (simp add: same_keys_def)
    next
      case None
      let ?s = "\<lparr>s_id = next_subscription_id db, s_user_id = u_id u, s_patreon_user_id = pid,
                   support_expiration = None, expiration_notified = False\<rparr>"
      from upsert None have s: "s = ?s"
        and db1: "db1 = db\<lparr>subscriptions := subscriptions db @ [?s], next_subscription_id := next_subscription_id db + 1\<rparr>"
        by (auto simp: upsert_subscription_def Let_def split: if_splits)
      have fresh: "\<forall>r \<in> set (subscriptions db). s_user_id r \<noteq> u_id u \<and> s_id r < next_subscription_id db"
        using None ok by (auto simp: subscription_for_user_def first_where_None supporter_ok_def)
      have "mdb_ok db1"
        using ok fresh by (auto simp: supporter_ok_def mdb_ok_def db1)
      moreover have kept: "linked db1 t v" if "linked db t v" for t v using that by (auto simp: linked_def db1)
      have "at_floor db1"
        unfolding at_floor_def
      proof
        fix v assume "v \<in> set (m_users db1)"
        then have "v \<in> set (m_users db)" by (simp add: db1)
        with ok kept show "granted_supporter_level v \<le> u_supporter_level v \<and>
            (\<not> (\<exists>s. linked db1 s v) \<longrightarrow> u_supporter_level v = granted_supporter_level v)"
          unfolding supporter_ok_def at_floor_def by blast
      qed
      moreover have "\<forall>r \<in> set (subscriptions db1). s_id r < next_subscription_id db1"
        using fresh by (auto simp: db1)
      ultimately have ok1: "supporter_ok db1" by (simp add: supporter_ok_def)
      have pair1: "linked db1 s u" using u by (simp add: linked_def db1 s)
      have "fst x = put_pair (s\<lparr>support_expiration := t\<rparr>) ?u db1" by (simp add: x put_pair_def)
      with put_pair_ok [OF ok1 pair1 _ level, of "s\<lparr>support_expiration := t\<rparr>"] show ?thesis by (simp add: same_keys_def)
    qed
    with Inr show ?thesis by (simp add: commit_def)
  qed
qed (use ok in \<open>simp add: commit_def\<close>)

interpretation supporter: invariant_system "det (apply_writer h config)" supporter_ok
  for h :: hosts and config :: patreon_config
proof unfold_locales
  show "supporter_ok t" if "det (apply_writer h config) s e t" "supporter_ok s" for s e t
  proof -
    have user: "u \<in> set (m_users s)" if "user_by_tg_id s tg = Some u" for tg u
      using first_where_Some [OF that [unfolded user_by_tg_id_def]] by simp
    show ?thesis
      using that daily_ok [OF that(2)] webhook_ok [OF that(2)] link_ok [OF that(2) user] grant_ok [OF that(2) user]
        unlink_ok [OF that(2) user]
      by (cases e) (auto simp: apply_writer_def split: option.splits)
  qed
qed

section \<open>The floor\<close>

text \<open>C4. A grant survives every Patreon transition. From any state in which no level is below its grant and
  every account without a subscription is exactly at its grant, any sequence of daily checks, webhook
  deliveries, confirmed links, grants and unlinks leads to such a state again.\<close>

theorem granted_floor_holds:
  assumes "supporter_ok db" and "steps (det (apply_writer h config)) db writers db'" and "u \<in> set (m_users db')"
  shows "granted_supporter_level u \<le> u_supporter_level u \<and>
    (\<not> (\<exists>s. linked db' s u) \<longrightarrow> u_supporter_level u = granted_supporter_level u)"
  using supporter.steps_inv [OF assms(2,1)] assms(3) by (auto simp: supporter_ok_def at_floor_def)

end
