(* ===== verification/Membership_Examples.thy ===== *)
theory Membership_Examples
  imports Membership_Floor
begin

text \<open>
  Concrete pairing codes and subscriptions: every property of \<^verbatim>\<open>Pending_Links\<close>, \<^verbatim>\<open>Membership_Props\<close> and
  \<^verbatim>\<open>Membership_Floor\<close> applied to them. The hash of the examples is the identity.
\<close>

section \<open>Pairing codes\<close>

definition ex_code_row :: "int option \<Rightarrow> string pending_link" where
  "ex_code_row claimed = \<lparr>code_hash = ''abc'', pl_patreon_user_id = ''p9'', pl_full_name = None,
     pl_supporter_level = HOST_2, expiration = 900, claimed_tg_user_id = claimed, claimed_time = None,
     consumed_time = None\<rparr>"

theorem pairing_code_single_use_witness:
  "wins (link_try (\<lambda>c. c) ''abc'') [Claim 5 ''abc'' 701, Consume 6 ''abc'' 701, Consume 7 ''abc'' 701] [ex_code_row None]
     = [\<lparr>cl_patreon_user_id = ''p9'', cl_full_name = None, granted_level = HOST_2\<rparr>] \<and>
   length (wins (link_try (\<lambda>c. c) ''abc'') [Claim 5 ''abc'' 701, Consume 6 ''abc'' 701, Consume 7 ''abc'' 701]
     [ex_code_row None]) \<le> 1"
proof
  show "length (wins (link_try (\<lambda>c. c) ''abc'') [Claim 5 ''abc'' 701, Consume 6 ''abc'' 701, Consume 7 ''abc'' 701]
     [ex_code_row None]) \<le> 1"
    by (rule pairing_code_single_use [of "[ex_code_row None]" "\<lambda>c. c" "''abc''"]) simp
qed code_simp

theorem consume_pending_link_iff_witness:
  "snd (consume_pending_link (\<lambda>c. c) 6 ''abc'' 701 [ex_code_row (Some 701)]) =
     Some \<lparr>cl_patreon_user_id = ''p9'', cl_full_name = None, granted_level = HOST_2\<rparr>"
  by (subst consume_pending_link_iff) (simp_all add: ex_code_row_def)

theorem claimed_code_stays_bound_witness:
  "snd (consume_pending_link (\<lambda>c. c) 6 ''abc'' 702
     (fold (link_step (\<lambda>c. c) ''abc'') [Claim 5 ''abc'' 702] [ex_code_row (Some 701)])) = None"
  using claimed_code_stays_bound [of "[ex_code_row (Some 701)]" "ex_code_row (Some 701)" 701 "\<lambda>c. c" "''abc''" 702
      "[Claim 5 ''abc'' 702]" "fold (link_step (\<lambda>c. c) ''abc'') [Claim 5 ''abc'' 702] [ex_code_row (Some 701)]" 6]
  by (simp add: ex_code_row_def steps_det)

theorem classify_claim_failure_correct_witness:
  "classify_claim_failure (\<lambda>c. c) 6 ''xyz'' 701 [ex_code_row None] = UNKNOWN_CODE"
  using classify_claim_failure_correct [of "[ex_code_row None]" "\<lambda>c. c" 6 "''xyz''" 701]
  by (simp add: Let_def ex_code_row_def)

section \<open>Subscriptions\<close>

definition ex_patron :: user where
  "ex_patron = \<lparr>u_id = 7, tg_user_id = 701, first_name = ''Ada'', username = None, status = MEMBER,
     u_created_time = None, left_time = None, member_time = None, u_supporter_level = NONE,
     granted_supporter_level = NONE, u_settings = default_settings\<rparr>"

definition ex_supporter :: user where
  "ex_supporter = ex_patron\<lparr>u_supporter_level := HOST_2\<rparr>"

definition ex_subscription :: "instant option \<Rightarrow> subscription" where
  "ex_subscription expires = \<lparr>s_id = 1, s_user_id = 7, s_patreon_user_id = ''p9'', support_expiration = expires,
     expiration_notified = False\<rparr>"

definition ex_mdb :: "instant option \<Rightarrow> user \<Rightarrow> mdb" where
  "ex_mdb expires u = \<lparr>subscriptions = [ex_subscription expires], m_users = [u], next_subscription_id = 2\<rparr>"

definition ex_member :: member_resource where
  "ex_member = \<lparr>m_patreon_user_id = Some ''p9'', patron_status = Some ''active_patron'', currently_entitled_amount_cents = 500\<rparr>"

definition ex_check :: "member_resource list \<Rightarrow> instant \<Rightarrow> check_world" where
  "ex_check members now = \<lparr>cw_members = Some members, cw_now = now, cw_clock_due = \<lambda>_. now, cw_clock_sync = \<lambda>_. now,
     cw_faulty_due = \<lambda>_. False, cw_faulty_sync = \<lambda>_. False\<rparr>"

definition ex_hosts :: hosts where
  "ex_hosts = \<lparr>hosts_group_chat_id = None, is_chat_admin = \<lambda>_. False, is_chat_member = \<lambda>_. False,
     is_chat_banned = \<lambda>_. False\<rparr>"

lemmas ex_mdb_defs = ex_mdb_def ex_subscription_def ex_patron_def ex_supporter_def ex_member_def ex_check_def

lemma ex_mdb_ok: "mdb_ok (ex_mdb expires u)"
  by (simp add: mdb_ok_def ex_mdb_def)

lemma ex_linked: "u_id u = 7 \<Longrightarrow> linked (ex_mdb expires u) (ex_subscription expires) u"
  by (simp add: linked_def ex_mdb_def ex_subscription_def)

lemma ex_amounts: "active_patreon_amounts [ex_member] = [(''p9'', 500)]"
  by code_simp

text \<open>An active patron who pays for the second tier gets it on the next check.\<close>

theorem supporter_check_rowwise_witness:
  "\<exists>db' actions tally raised. supporter_check_run ex_hosts default_patreon (ex_check [ex_member] 0) (ex_mdb None ex_patron)
     = (db', actions, tally, raised) \<and> mdb_ok db'"
proof -
  obtain db' actions tally raised where run: "supporter_check_run ex_hosts default_patreon (ex_check [ex_member] 0)
      (ex_mdb None ex_patron) = (db', actions, tally, raised)"
    by (metis prod_cases4)
  from supporter_check_rowwise [OF ex_mdb_ok _ run] run show ?thesis by (simp add: ex_check_def)
qed

theorem active_patron_settled_witness:
  "\<exists>db' s' u'. fst (supporter_check_run ex_hosts default_patreon (ex_check [ex_member] 0) (ex_mdb None ex_patron)) = db' \<and>
     linked db' s' u' \<and> u_supporter_level u' = HOST_2"
proof -
  obtain db' actions tally raised where run: "supporter_check_run ex_hosts default_patreon (ex_check [ex_member] 0)
      (ex_mdb None ex_patron) = (db', actions, tally, raised)"
    by (metis prod_cases4)
  have members: "cw_members (ex_check [ex_member] 0) = Some [ex_member]" by (simp add: ex_check_def)
  have pair: "linked (ex_mdb None ex_patron) (ex_subscription None) ex_patron"
    by (rule ex_linked) (simp add: ex_patron_def)
  have rows: "map s_id (subscriptions db') = [1] \<and> map s_user_id (subscriptions db') = [7] \<and> map u_id (m_users db') = [7]"
  proof -
    let ?db = "fst (supporter_check_run ex_hosts default_patreon (ex_check [ex_member] 0) (ex_mdb None ex_patron))"
    have "map s_id (subscriptions ?db) = [1] \<and> map s_user_id (subscriptions ?db) = [7] \<and> map u_id (m_users ?db) = [7]"
      by code_simp
    with run show ?thesis by simp
  qed
  then obtain s' u' where "linked db' s' u'" "s_id s' = s_id (ex_subscription None)"
    by (auto simp: linked_def map_eq_Cons_conv ex_subscription_def)
  from active_patron_settled [OF ex_mdb_ok members run pair this, of 500] this(1) run show ?thesis
    by (auto simp: ex_patron_def ex_check_def ex_amounts ex_subscription_def level_for_amount_def default_patreon_def max_def
      less_eq_supporter_level_def)
qed

text \<open>A lapsed supporter: warned on the first check, lowered on the check eight days later.\<close>

definition ex_lapsed :: mdb where
  "ex_lapsed = ex_mdb (Some 5) ex_supporter"

definition ex_warned :: mdb where
  "ex_warned = fst (supporter_check_run ex_hosts default_patreon (ex_check [] (days 1)) ex_lapsed)"

definition ex_lowered :: mdb where
  "ex_lowered = fst (supporter_check_run ex_hosts default_patreon (ex_check [] (days 9)) ex_warned)"

lemma ex_lapsed_rows:
  "map (\<lambda>s. (s_id s, s_user_id s, expiration_notified s)) (subscriptions ex_warned) = [(1, 7, True)]"
  "map (\<lambda>u. (u_id u, u_supporter_level u)) (m_users ex_warned) = [(7, HOST_2)]"
  "map (\<lambda>s. (s_id s, s_user_id s)) (subscriptions ex_lowered) = [(1, 7)]"
  "map (\<lambda>u. (u_id u, u_supporter_level u)) (m_users ex_lowered) = [(7, NONE)]"
  by code_simp+

theorem lapse_needs_two_runs_a_week_apart_witness:
  "\<exists>s1 u1 s2 u2. linked ex_warned s1 u1 \<and> linked ex_lowered s2 u2 \<and> u_supporter_level u2 \<noteq> u_supporter_level u1 \<and>
     expiration_notified s1"
proof -
  obtain a1 t1 r1 a2 t2 r2 where runs:
    "supporter_check_run ex_hosts default_patreon (ex_check [] (days 1)) ex_lapsed = (ex_warned, a1, t1, r1)"
    "supporter_check_run ex_hosts default_patreon (ex_check [] (days 9)) ex_warned = (ex_lowered, a2, t2, r2)"
    unfolding ex_warned_def ex_lowered_def by (metis prod.collapse)
  obtain s1 u1 s2 u2 where rows: "linked ex_warned s1 u1" "s_id s1 = s_id (ex_subscription (Some 5))"
    "linked ex_lowered s2 u2" "s_id s2 = s_id (ex_subscription (Some 5))"
    "u_supporter_level u1 = HOST_2" "u_supporter_level u2 = NONE"
    using ex_lapsed_rows by (auto simp: linked_def map_eq_Cons_conv ex_subscription_def)
  have start: "mdb_ok ex_lapsed" "linked ex_lapsed (ex_subscription (Some 5)) ex_supporter"
    "\<not> expiration_notified (ex_subscription (Some 5))"
    unfolding ex_lapsed_def by (rule ex_mdb_ok, rule ex_linked) (simp_all add: ex_mdb_defs)
  have none: "cw_members (ex_check [] n) = Some []" "map_of (active_patreon_amounts []) pid = None" for n pid
    by (simp add: ex_check_def) code_simp
  from lapse_needs_two_runs_a_week_apart [OF start none(1) none(1) none(2) none(2) runs rows(1-4)] rows
  have "expiration_notified s1" by (simp add: ex_mdb_defs)
  with rows show ?thesis by (intro exI [of _ s1] exI [of _ u1] exI [of _ s2] exI [of _ u2]) simp
qed

theorem withdrawn_grant_is_never_settled_witness:
  "\<exists>db1 acts1 u1 db2 acts2 u2. apply_grant ex_hosts ex_patron HOST_3 (ex_mdb None ex_patron) = Inr (db1, acts1) \<and>
     apply_grant ex_hosts u1 NONE db1 = Inr (db2, acts2) \<and>
     linked (later_runs ex_hosts default_patreon [ex_check [] 0, ex_check [] (days 400)] db2) (ex_subscription None) u2 \<and>
     granted_supporter_level u2 = NONE \<and> u_supporter_level u2 \<ge> HOST_3"
proof -
  let ?ws = "[ex_check [] 0, ex_check [] (days 400)]"
  have start: "mdb_ok (ex_mdb None ex_patron)" "linked (ex_mdb None ex_patron) (ex_subscription None) ex_patron"
    "support_expiration (ex_subscription None) = None"
    by (rule ex_mdb_ok, rule ex_linked) (simp_all add: ex_mdb_defs)
  have "\<forall>w \<in> set ?ws. \<forall>members. cw_members w = Some members \<longrightarrow>
      map_of (active_patreon_amounts members) (s_patreon_user_id (ex_subscription None)) = None"
    by (simp add: ex_check_def active_patreon_amounts_def)
  from withdrawn_grant_is_never_settled [OF start this, of ex_hosts HOST_3 default_patreon] show ?thesis
    by meson
qed

text \<open>A grant, a link and an unlink leave the account exactly at its grant.\<close>

definition ex_writers :: "writer list" where
  "ex_writers = [Grant 701 HOST_1, Link 0 False 701 ''p9'' HOST_3, Daily (ex_check [] 0), Unlink 701]"

theorem granted_floor_holds_witness:
  "\<exists>db' u. steps (det (apply_writer ex_hosts default_patreon))
       \<lparr>subscriptions = [], m_users = [ex_patron], next_subscription_id = 1\<rparr> ex_writers db' \<and> u \<in> set (m_users db') \<and>
     granted_supporter_level u = HOST_1 \<and> u_supporter_level u = HOST_1"
proof -
  let ?db = "\<lparr>subscriptions = [], m_users = [ex_patron], next_subscription_id = 1\<rparr>"
  have start: "supporter_ok ?db" by (simp add: supporter_ok_def mdb_ok_def at_floor_def ex_patron_def)
  have run: "steps (det (apply_writer ex_hosts default_patreon)) ?db ex_writers (fold (apply_writer ex_hosts default_patreon) ex_writers ?db)"
    by (simp add: steps_det)
  have "map granted_supporter_level (m_users (fold (apply_writer ex_hosts default_patreon) ex_writers ?db)) = [HOST_1] \<and>
      subscriptions (fold (apply_writer ex_hosts default_patreon) ex_writers ?db) = []"
    by code_simp
  then obtain u where u: "u \<in> set (m_users (fold (apply_writer ex_hosts default_patreon) ex_writers ?db))"
    "granted_supporter_level u = HOST_1"
    and unlinked: "\<not> (\<exists>s. linked (fold (apply_writer ex_hosts default_patreon) ex_writers ?db) s u)"
    by (auto simp: map_eq_Cons_conv linked_def)
  from granted_floor_holds [OF start run u(1)] unlinked u run show ?thesis by auto
qed

end
