(* ===== verification/Tables.thy ===== *)
theory Tables
  imports Meetups Pending_Links
begin

text \<open>
  The tables the recurrent jobs work on, as the database holds them: users (each with its settings row),
  meetings, join links, message cards and pending Patreon links, with the cascades the foreign keys of
  \<^verbatim>\<open>libs/data/mitup_bot/models/\<close> declare (\<open>ondelete\<close>): deleting a user deletes the meetings it owns and
  its join links and clears \<open>invited_by\<close>; deleting a meeting deletes its links and its message cards.

  A statement that joins \<open>meetups\<close> with \<open>users\<close> selects pairs of a meeting and its owner.
  Rows of other tables that cascade from these (subscriptions, deliveries, images) are not part of the state.
\<close>

section \<open>Rows\<close>

record link_row =
  jl_id :: int
  jl_user_id :: int
  jl_meetup_id :: int
  jl_invited_by :: "int option"
  jl_created_time :: instant
  jl_waiting :: bool
  jl_notified :: bool

record card_row =
  card_id :: int
  card_meetup_id :: "int option"
  message_id :: "int option"
  chat_id :: "int option"
  inline_message_id :: "string option"
  chat_instance :: "string option"

record sdb =
  users :: "user list"
  meetups :: "meetup_row list"
  links :: "link_row list"
  cards :: "card_row list"
  pending :: "string pending_link list"

type_synonym owned = "meetup_row \<times> user"

section \<open>Joins and existence tests\<close>

definition select_owned :: "(meetup_row \<Rightarrow> user \<Rightarrow> bool) \<Rightarrow> sdb \<Rightarrow> owned list" where
  "select_owned P db =
     concat (map (\<lambda>m. map (Pair m) (filter (\<lambda>u. u_id u = owner_id m \<and> P m u) (users db))) (meetups db))"

definition meeting_active :: "sdb \<Rightarrow> int \<Rightarrow> bool" where
  "meeting_active db mid \<longleftrightarrow> (\<exists>m \<in> set (meetups db). m_id m = mid \<and> active m)"

definition owns_meeting :: "sdb \<Rightarrow> user \<Rightarrow> bool" where
  "owns_meeting db u \<longleftrightarrow> (\<exists>m \<in> set (meetups db). owner_id m = u_id u)"

definition owns_active_meeting :: "sdb \<Rightarrow> user \<Rightarrow> bool" where
  "owns_active_meeting db u \<longleftrightarrow> (\<exists>m \<in> set (meetups db). owner_id m = u_id u \<and> active m)"

definition has_active_link :: "sdb \<Rightarrow> user \<Rightarrow> bool" where
  "has_active_link db u \<longleftrightarrow> (\<exists>l \<in> set (links db). jl_user_id l = u_id u \<and> meeting_active db (jl_meetup_id l))"

definition links_of :: "sdb \<Rightarrow> int \<Rightarrow> link_row list" where
  "links_of db mid = filter (\<lambda>l. jl_meetup_id l = mid) (links db)"

text \<open>\<open>link.user.tg_user_id\<close>; the row exists because of the foreign key.\<close>

definition is_invitee :: "sdb \<Rightarrow> int \<Rightarrow> bool" where
  "is_invitee db uid \<longleftrightarrow> (\<exists>u \<in> set (users db). u_id u = uid \<and> tg_user_id u = ANONYMOUS_INVITEE_TG_ID)"

lemma select_owned_mem:
  "(m, u) \<in> set (select_owned P db) \<longleftrightarrow>
     m \<in> set (meetups db) \<and> u \<in> set (users db) \<and> u_id u = owner_id m \<and> P m u"
  by (auto simp: select_owned_def)

section \<open>Deletes with their cascades\<close>

definition delete_meetups_where :: "(meetup_row \<Rightarrow> bool) \<Rightarrow> sdb \<Rightarrow> sdb" where
  "delete_meetups_where P db =
     (let gone = (\<lambda>i. \<exists>m \<in> set (meetups db). m_id m = i \<and> P m)
      in db\<lparr>meetups := delete_where P (meetups db),
            links := delete_where (\<lambda>l. gone (jl_meetup_id l)) (links db),
            cards := delete_where (\<lambda>c. case card_meetup_id c of None \<Rightarrow> False | Some i \<Rightarrow> gone i) (cards db)\<rparr>)"

definition clear_inviter :: "(int \<Rightarrow> bool) \<Rightarrow> link_row \<Rightarrow> link_row" where
  "clear_inviter gone l =
     (case jl_invited_by l of None \<Rightarrow> l | Some i \<Rightarrow> if gone i then l\<lparr>jl_invited_by := None\<rparr> else l)"

definition delete_users_where :: "(user \<Rightarrow> bool) \<Rightarrow> sdb \<Rightarrow> sdb" where
  "delete_users_where P db =
     (let gone = (\<lambda>i. \<exists>u \<in> set (users db). u_id u = i \<and> P u);
          db1 = delete_meetups_where (\<lambda>m. gone (owner_id m)) db
      in db1\<lparr>users := delete_where P (users db1),
             links := map (clear_inviter gone) (delete_where (\<lambda>l. gone (jl_user_id l)) (links db1))\<rparr>)"

text \<open>\<open>deletion.py\<close>: the meetings go with their links and cards, then the invitees those links named.
  The invitee list is read before the deletes.\<close>

definition invitees_of :: "sdb \<Rightarrow> int list \<Rightarrow> int list" where
  "invitees_of db mids =
     concat (map (\<lambda>mid. map jl_user_id (filter (\<lambda>l. is_invitee db (jl_user_id l)) (links_of db mid))) mids)"

definition purge_meetups :: "int list \<Rightarrow> sdb \<Rightarrow> sdb \<times> int list" where
  "purge_meetups meeting_ids db =
     (let invitee_ids = invitees_of db meeting_ids;
          db1 = delete_meetups_where (\<lambda>m. m_id m \<in> set meeting_ids) db;
          db2 = delete_users_where (\<lambda>u. u_id u \<in> set invitee_ids) db1
      in (db2, invitee_ids))"

section \<open>Keys and references\<close>

definition keys_ok :: "sdb \<Rightarrow> bool" where
  "keys_ok db \<longleftrightarrow> distinct (map u_id (users db)) \<and> distinct (map m_id (meetups db)) \<and> distinct (map jl_id (links db))"

definition refs_ok :: "sdb \<Rightarrow> bool" where
  "refs_ok db \<longleftrightarrow>
     (\<forall>m \<in> set (meetups db). owner_id m \<in> u_id ` set (users db)) \<and>
     (\<forall>l \<in> set (links db). jl_user_id l \<in> u_id ` set (users db) \<and> jl_meetup_id l \<in> m_id ` set (meetups db) \<and>
        (\<forall>i. jl_invited_by l = Some i \<longrightarrow> i \<in> u_id ` set (users db))) \<and>
     (\<forall>c \<in> set (cards db). \<forall>i. card_meetup_id c = Some i \<longrightarrow> i \<in> m_id ` set (meetups db))"

lemma clear_inviter_fields [simp]:
  "jl_id (clear_inviter gone l) = jl_id l"
  "jl_user_id (clear_inviter gone l) = jl_user_id l"
  "jl_meetup_id (clear_inviter gone l) = jl_meetup_id l"
  "jl_waiting (clear_inviter gone l) = jl_waiting l"
  "jl_notified (clear_inviter gone l) = jl_notified l"
  by (simp_all add: clear_inviter_def split: option.split)

lemma clear_inviter_invited:
  "jl_invited_by (clear_inviter gone l) = Some i \<longleftrightarrow> jl_invited_by l = Some i \<and> \<not> gone i"
  by (auto simp: clear_inviter_def split: option.split)

lemma delete_meetups_fields [simp]:
  "users (delete_meetups_where P db) = users db"
  "meetups (delete_meetups_where P db) = delete_where P (meetups db)"
  "pending (delete_meetups_where P db) = pending db"
  by (simp_all add: delete_meetups_where_def Let_def)

lemma delete_users_fields [simp]:
  "users (delete_users_where P db) = delete_where P (users db)"
  "pending (delete_users_where P db) = pending db"
  by (simp_all add: delete_users_where_def Let_def)

lemma set_delete_users_meetups:
  "set (meetups (delete_users_where P db)) =
     {m \<in> set (meetups db). \<not> (\<exists>u \<in> set (users db). u_id u = owner_id m \<and> P u)}"
  by (auto simp: delete_users_where_def Let_def)

lemma distinct_delete_where: "distinct (map k rows) \<Longrightarrow> distinct (map k (delete_where P rows))"
  by (simp add: delete_where_def distinct_map inj_on_def)

lemma delete_meetups_keys: "keys_ok db \<Longrightarrow> keys_ok (delete_meetups_where P db)"
  by (simp add: keys_ok_def delete_meetups_where_def Let_def distinct_delete_where)

lemma delete_users_keys: "keys_ok db \<Longrightarrow> keys_ok (delete_users_where P db)"
  by (simp add: keys_ok_def delete_users_where_def delete_meetups_where_def Let_def comp_def distinct_delete_where)

text \<open>What a foreign key needs after a delete: the row it names is among the rows kept.\<close>

definition refers :: "('r \<Rightarrow> int) \<Rightarrow> 'r list \<Rightarrow> int \<Rightarrow> bool" where
  "refers k rows i \<longleftrightarrow> i \<in> k ` set rows"

lemma refers_kept: "refers k (delete_where P rows) i" if "refers k rows i" "\<not> (\<exists>r \<in> set rows. k r = i \<and> P r)"
  using that by (auto simp: refers_def)

lemma refs_ok_refers:
  "refs_ok db \<longleftrightarrow>
     (\<forall>m \<in> set (meetups db). refers u_id (users db) (owner_id m)) \<and>
     (\<forall>l \<in> set (links db). refers u_id (users db) (jl_user_id l)) \<and>
     (\<forall>l \<in> set (links db). refers m_id (meetups db) (jl_meetup_id l)) \<and>
     (\<forall>l \<in> set (links db). \<forall>i. jl_invited_by l = Some i \<longrightarrow> refers u_id (users db) i) \<and>
     (\<forall>c \<in> set (cards db). \<forall>i. card_meetup_id c = Some i \<longrightarrow> refers m_id (meetups db) i)"
  unfolding refs_ok_def refers_def by blast

lemma delete_meetups_refs:
  assumes "refs_ok db"
  shows "refs_ok (delete_meetups_where P db)"
proof -
  have "refers m_id (delete_where P (meetups db)) i"
    if "refers m_id (meetups db) i" "\<not> (\<exists>m \<in> set (meetups db). m_id m = i \<and> P m)" for i
    using refers_kept [OF that] .
  with assms show ?thesis unfolding refs_ok_refers
    by (intro conjI; simp add: delete_meetups_where_def Let_def; fastforce)
qed

lemma delete_users_refs:
  assumes ok: "refs_ok db"
  shows "refs_ok (delete_users_where P db)"
proof -
  let ?gone = "\<lambda>i. \<exists>u \<in> set (users db). u_id u = i \<and> P u"
  let ?db = "delete_meetups_where (\<lambda>m. ?gone (owner_id m)) db"
  have kept: "refers u_id (delete_where P (users db)) i" if "refers u_id (users db) i" "\<not> ?gone i" for i
    using refers_kept [OF that] .
  have db1: "refs_ok ?db" by (rule delete_meetups_refs [OF ok])
  have fields: "meetups (delete_users_where P db) = meetups ?db" "cards (delete_users_where P db) = cards ?db"
    "links (delete_users_where P db) = map (clear_inviter ?gone) (delete_where (\<lambda>l. ?gone (jl_user_id l)) (links ?db))"
    "users (delete_users_where P db) = delete_where P (users db)"
    by (simp_all add: delete_users_where_def Let_def)
  show ?thesis
    unfolding refs_ok_refers fields
  proof (intro conjI ballI allI impI)
    fix m assume "m \<in> set (meetups ?db)"
    with ok kept show "refers u_id (delete_where P (users db)) (owner_id m)"
      unfolding refs_ok_refers by simp
  next
    fix l assume l: "l \<in> set (map (clear_inviter ?gone) (delete_where (\<lambda>l. ?gone (jl_user_id l)) (links ?db)))"
    then obtain l0 where l0: "l = clear_inviter ?gone l0" "l0 \<in> set (links ?db)" "\<not> ?gone (jl_user_id l0)"
      unfolding set_map set_delete_where by blast
    from db1 l0(2) have old: "refers u_id (users db) (jl_user_id l0)" "refers m_id (meetups ?db) (jl_meetup_id l0)"
      "\<And>i. jl_invited_by l0 = Some i \<Longrightarrow> refers u_id (users db) i"
      unfolding refs_ok_refers by simp_all
    show "refers u_id (delete_where P (users db)) (jl_user_id l)" using kept [OF old(1) l0(3)] l0(1) by simp
    show "refers m_id (meetups ?db) (jl_meetup_id l)" using old(2) l0(1) by simp
    show "refers u_id (delete_where P (users db)) i" if "jl_invited_by l = Some i" for i
    proof -
      from that have "jl_invited_by l0 = Some i" "\<not> ?gone i" unfolding l0(1) clear_inviter_invited by blast+
      with kept old(3) show ?thesis by blast
    qed
  next
    fix c i assume "c \<in> set (cards ?db)" "card_meetup_id c = Some i"
    with db1 show "refers m_id (meetups ?db) i" unfolding refs_ok_refers by blast
  qed
qed

definition tables_ok :: "sdb \<Rightarrow> bool" where
  "tables_ok db \<longleftrightarrow> keys_ok db \<and> refs_ok db"

lemma delete_meetups_ok [intro]: "tables_ok db \<Longrightarrow> tables_ok (delete_meetups_where P db)"
  by (simp add: tables_ok_def delete_meetups_keys delete_meetups_refs)

lemma delete_users_ok [intro]: "tables_ok db \<Longrightarrow> tables_ok (delete_users_where P db)"
  by (simp add: tables_ok_def delete_users_keys delete_users_refs)

lemma purge_meetups_ok [intro]: "tables_ok db \<Longrightarrow> tables_ok (fst (purge_meetups mids db))"
  by (simp add: purge_meetups_def Let_def delete_meetups_ok delete_users_ok)

text \<open>Updating rows in place without touching a key or a reference keeps both.\<close>

lemma update_tables_ok:
  assumes ok: "tables_ok db"
    and u: "map u_id us = map u_id (users db)"
    and m: "map (\<lambda>m. (m_id m, owner_id m)) ms = map (\<lambda>m. (m_id m, owner_id m)) (meetups db)"
    and l: "map (\<lambda>l. (jl_id l, jl_user_id l, jl_meetup_id l, jl_invited_by l)) ls =
      map (\<lambda>l. (jl_id l, jl_user_id l, jl_meetup_id l, jl_invited_by l)) (links db)"
  shows "tables_ok (db\<lparr>users := us, meetups := ms, links := ls\<rparr>)"
proof -
  have ids: "map m_id ms = map m_id (meetups db)" "map jl_id ls = map jl_id (links db)"
    using arg_cong [OF m, of "map fst"] arg_cong [OF l, of "map fst"] by (simp_all add: comp_def)
  have ref: "refers u_id us = refers u_id (users db)" "refers m_id ms = refers m_id (meetups db)"
    using arg_cong [OF u, of set] arg_cong [OF ids(1), of set] by (simp_all add: refers_def fun_eq_iff)
  have ms: "owner_id ` set ms = owner_id ` set (meetups db)"
    using arg_cong [OF m, of "\<lambda>xs. snd ` set xs"] by (simp add: image_image)
  have ls: "(\<lambda>l. (jl_user_id l, jl_meetup_id l, jl_invited_by l)) ` set ls =
      (\<lambda>l. (jl_user_id l, jl_meetup_id l, jl_invited_by l)) ` set (links db)"
    using arg_cong [OF l, of "\<lambda>xs. snd ` set xs"] by (simp add: image_image)
  have link: "\<exists>l0 \<in> set (links db). jl_user_id l0 = jl_user_id l \<and> jl_meetup_id l0 = jl_meetup_id l \<and>
      jl_invited_by l0 = jl_invited_by l" if "l \<in> set ls" for l
    using imageI [OF that, of "\<lambda>l. (jl_user_id l, jl_meetup_id l, jl_invited_by l)"] unfolding ls by auto
  have meetup: "\<exists>m0 \<in> set (meetups db). owner_id m0 = owner_id m" if "m \<in> set ms" for m
    using imageI [OF that, of owner_id] unfolding ms by auto
  have "refs_ok (db\<lparr>users := us, meetups := ms, links := ls\<rparr>)"
    using ok link meetup unfolding tables_ok_def refs_ok_refers by (simp add: ref) metis
  with ok u ids show ?thesis by (simp add: tables_ok_def keys_ok_def)
qed

end
