(* ===== verification/Deletion_Sweep.thy ===== *)
theory Deletion_Sweep
  imports Tables
begin

text \<open>
  The two deletion sweeps: \<^verbatim>\<open>apps/events/mitup_bot/events/deletion_sweep.py\<close>, \<^verbatim>\<open>warn_meeting_deletions.py\<close> and
  \<^verbatim>\<open>delete_meetings.py\<close>. A sweep nominates owners, splits them into chunks and runs each chunk in a transaction
  of its own: it selects its meetings again, sends one digest per owner and marks or purges what is settled.

  \<open>now\<close> is the database clock of a transaction, \<open>clock\<close> the Python clock during it, \<open>send\<close> how the digest to
  an owner ends. The buckets hold the selected meetings with their owners, as they were read. Of the log lines
  only the residue lines are kept, because they decide what counts as stuck.
\<close>

section \<open>deletion\_sweep.py\<close>

definition STUCK_RESIDUE_DAYS :: int where "STUCK_RESIDUE_DAYS = 7"
definition OWNERS_PER_CHUNK :: nat where "OWNERS_PER_CHUNK = 20"

datatype residue_reason = OWNER_UNREACHABLE | OWNER_NOTIFICATION_FAILED

datatype notice = Reached | Blocked | Raised

record notice_outcome =
  delivered :: "owned list"
  unreachable :: "owned list"
  failed :: "owned list"
  opted_out :: "owned list"
  invitees_purged :: nat
  failed_chunks :: nat

definition empty_outcome :: notice_outcome where
  "empty_outcome = \<lparr>delivered = [], unreachable = [], failed = [], opted_out = [], invitees_purged = 0, failed_chunks = 0\<rparr>"

definition settled :: "notice_outcome \<Rightarrow> owned list" where
  "settled out = delivered out @ unreachable out @ opted_out out"

definition merge_outcome :: "notice_outcome \<Rightarrow> notice_outcome \<Rightarrow> notice_outcome" where
  "merge_outcome out chunk = out\<lparr>delivered := delivered out @ delivered chunk,
     unreachable := unreachable out @ unreachable chunk, failed := failed out @ failed chunk,
     opted_out := opted_out out @ opted_out chunk,
     invitees_purged := invitees_purged out + invitees_purged chunk\<rparr>"

record nomination =
  meetup_count :: nat
  chunks :: "int list list"

definition partition_by_opt_in :: "(settings \<Rightarrow> bool) \<Rightarrow> owned list \<Rightarrow> owned list \<times> owned list" where
  "partition_by_opt_in wants_notice ms =
     (filter (\<lambda>(m, u). wants_notice (u_settings u)) ms, filter (\<lambda>(m, u). \<not> wants_notice (u_settings u)) ms)"

definition group_by_owner :: "owned list \<Rightarrow> owned list list" where
  "group_by_owner ms = map snd (fold (\<lambda>p groups. setdefault_append (u_id (snd p)) p groups) ms [])"

definition owner_chunks :: "owned list \<Rightarrow> int list list" where
  "owner_chunks ms = batched OWNERS_PER_CHUNK (uniq (map (\<lambda>p. u_id (snd p)) ms))"

definition owner_count :: "owned list \<Rightarrow> nat" where
  "owner_count ms = length (uniq (map (\<lambda>p. u_id (snd p)) ms))"

text \<open>Exactly one callback runs per owner: the digest's meetings go into the bucket of its outcome.\<close>

fun bucket_meetups :: "notice \<Rightarrow> owned list \<Rightarrow> notice_outcome \<Rightarrow> notice_outcome" where
  "bucket_meetups Reached digest out = out\<lparr>delivered := delivered out @ digest\<rparr>"
| "bucket_meetups Blocked digest out = out\<lparr>unreachable := unreachable out @ digest\<rparr>"
| "bucket_meetups Raised digest out = out\<lparr>failed := failed out @ digest\<rparr>"

text \<open>\<open>send_messages_to_users\<close> marks an unreachable user inactive before it runs the callback.\<close>

definition mark_unreachable :: "instant \<Rightarrow> int list \<Rightarrow> sdb \<Rightarrow> sdb" where
  "mark_unreachable clock ids db =
     db\<lparr>users := update_where (\<lambda>u. u_id u \<in> set ids) (\<lambda>u. fst (mark_inactive clock u)) (users db)\<rparr>"

definition notify_owners ::
    "instant \<Rightarrow> (int \<Rightarrow> notice) \<Rightarrow> (settings \<Rightarrow> bool) \<Rightarrow> owned list \<Rightarrow> sdb \<Rightarrow> sdb \<times> notice_outcome" where
  "notify_owners clock send wants_notice ms db =
     (let (wanted, out) = partition_by_opt_in wants_notice ms;
          outcome = fold (\<lambda>g. bucket_meetups (send (u_id (snd (hd g)))) g) (group_by_owner wanted)
                      (empty_outcome\<lparr>opted_out := out\<rparr>)
      in (mark_unreachable clock (map (\<lambda>p. u_id (snd p)) (unreachable outcome)) db, outcome))"

text \<open>\<open>timedelta.days\<close> rounds towards minus infinity.\<close>

definition days_overdue :: "instant \<Rightarrow> instant option \<Rightarrow> int option" where
  "days_overdue clock due = map_option (\<lambda>t. (clock - t) div days 1) due"

datatype residue_line = Stuck int int | Left_Behind int residue_reason "int option"

definition log_residue :: "instant \<Rightarrow> meetup_row \<Rightarrow> residue_reason \<Rightarrow> instant option \<Rightarrow> residue_line" where
  "log_residue clock m reason due =
     (case days_overdue clock due of
        Some overdue \<Rightarrow>
          if reason = OWNER_NOTIFICATION_FAILED \<and> overdue > STUCK_RESIDUE_DAYS then Stuck (m_id m) overdue
          else Left_Behind (m_id m) reason (Some overdue)
      | None \<Rightarrow> Left_Behind (m_id m) reason None)"

definition log_residues :: "instant \<Rightarrow> notice_outcome \<Rightarrow> (owned \<Rightarrow> instant option) \<Rightarrow> residue_line list" where
  "log_residues clock out due_of =
     map (\<lambda>p. log_residue clock (fst p) OWNER_UNREACHABLE (due_of p)) (unreachable out) @
     map (\<lambda>p. log_residue clock (fst p) OWNER_NOTIFICATION_FAILED (due_of p)) (failed out)"

definition failed_meeting_properties :: "owned list \<Rightarrow> int list option" where
  "failed_meeting_properties ms = (if ms = [] then None else Some (map (\<lambda>p. m_id (fst p)) ms))"

definition nominate_owners :: "(meetup_row \<Rightarrow> user \<Rightarrow> bool) \<Rightarrow> sdb \<Rightarrow> nomination" where
  "nominate_owners statement db =
     (let ms = select_owned statement db in \<lparr>meetup_count = length ms, chunks = owner_chunks ms\<rparr>)"

text \<open>The chunks in order, each numbered; \<open>None\<close> is a chunk whose transaction raised and rolled back.\<close>

fun sweep_chunks ::
    "(nat \<Rightarrow> int list \<Rightarrow> sdb \<Rightarrow> (sdb \<times> notice_outcome) option) \<Rightarrow> nat \<Rightarrow> int list list \<Rightarrow>
     sdb \<Rightarrow> notice_outcome \<Rightarrow> sdb \<times> notice_outcome" where
  "sweep_chunks process k [] db totals = (db, totals)"
| "sweep_chunks process k (ids # rest) db totals =
     (case process k ids db of
        Some (db', out) \<Rightarrow> sweep_chunks process (Suc k) rest db' (merge_outcome totals out)
      | None \<Rightarrow> sweep_chunks process (Suc k) rest db (totals\<lparr>failed_chunks := failed_chunks totals + 1\<rparr>))"

datatype sweep_error = Failed_To_Commit nat

definition raise_for_failed_chunks :: "nat \<Rightarrow> sweep_error + unit" where
  "raise_for_failed_chunks n = (if n \<noteq> 0 then Inl (Failed_To_Commit n) else Inr ())"

section \<open>The statements\<close>

text \<open>The windows are rendered when the module is imported, where a duration that is not a whole number of
  days would raise; none of the policy's is (\<open>policy_whole_days\<close>).\<close>

definition statement_window ::
    "(lifecycle_policy \<Rightarrow> duration) \<Rightarrow> instant option \<Rightarrow> user \<Rightarrow> instant \<Rightarrow> bool" where
  "statement_window duration_of stamp u now =
     (case owner_tier_window_elapsed duration_of of
        Inl e \<Rightarrow> False | Inr condition \<Rightarrow> condition stamp (u_supporter_level u) now)"

definition about_to_be_deleted :: "instant \<Rightarrow> meetup_row \<Rightarrow> user \<Rightarrow> bool" where
  "about_to_be_deleted now m u \<longleftrightarrow>
     \<not> expiration_notification_sent m \<and> expiration_time m \<noteq> None \<and>
     statement_window deletion_warning_delay (expiration_time m) u now"

definition to_delete :: "instant \<Rightarrow> meetup_row \<Rightarrow> user \<Rightarrow> bool" where
  "to_delete now m u \<longleftrightarrow>
     expiration_notification_sent m \<and> expiration_time m \<noteq> None \<and>
     statement_window inactive_retention (expiration_time m) u now \<and>
     statement_window deletion_warning_lead (warned_time m) u now"

section \<open>warn\_meeting\_deletions.py\<close>

definition warning_due_time :: "owned \<Rightarrow> instant option" where
  "warning_due_time p =
     map_option (\<lambda>t. t + deletion_warning_delay (meetup_policy (snd p))) (expiration_time (fst p))"

definition warn_owner_chunk ::
    "instant \<Rightarrow> instant \<Rightarrow> (int \<Rightarrow> notice) \<Rightarrow> int list \<Rightarrow> sdb \<Rightarrow> sdb \<times> notice_outcome \<times> residue_line list" where
  "warn_owner_chunk now clock send owner_ids db =
     (let ms = select_owned (\<lambda>m u. about_to_be_deleted now m u \<and> u_id u \<in> set owner_ids) db;
          (db1, out) = notify_owners clock send deletion_warning ms db;
          marked = map (\<lambda>p. m_id (fst p)) (settled out)
      in (db1\<lparr>meetups := update_where (\<lambda>m. m_id m \<in> set marked) (record_deletion_warning clock) (meetups db1)\<rparr>,
          out, log_residues clock out warning_due_time))"

record sweep_world =
  sw_nominate :: instant
  sw_now :: "nat \<Rightarrow> instant"
  sw_clock :: "nat \<Rightarrow> instant"
  sw_send :: "nat \<Rightarrow> int \<Rightarrow> notice"
  sw_breaks :: "nat \<Rightarrow> bool"

datatype sweep_metric =
    MEETINGS_AWAITING_DELETION nat
  | EXPIRATION_NOTIFICATIONS_FAILED nat "int list option"
  | MEETUPS_DELETED_UNNOTIFIED nat
  | MEETINGS_DELETION_FAILED nat "int list option"

definition emit_backlog_gauge :: "sdb \<Rightarrow> sweep_metric" where
  "emit_backlog_gauge db = MEETINGS_AWAITING_DELETION (count_where expiration_notification_sent (meetups db))"

definition committed :: "sweep_world \<Rightarrow> nat \<Rightarrow> sdb \<times> notice_outcome \<times> 'l \<Rightarrow> (sdb \<times> notice_outcome) option" where
  "committed w k r = (if sw_breaks w k then None else Some (fst r, fst (snd r)))"

definition warn_run :: "sweep_world \<Rightarrow> sdb \<Rightarrow> sdb \<times> sweep_metric list \<times> (sweep_error + unit)" where
  "warn_run w db =
     (let gauge = emit_backlog_gauge db;
          nominated = nominate_owners (about_to_be_deleted (sw_nominate w)) db;
          (db', totals) = sweep_chunks
            (\<lambda>k ids db. committed w k (warn_owner_chunk (sw_now w k) (sw_clock w k) (sw_send w k) ids db))
            0 (chunks nominated) db empty_outcome
      in (db', [gauge, EXPIRATION_NOTIFICATIONS_FAILED (length (failed totals)) (failed_meeting_properties (failed totals))],
          raise_for_failed_chunks (failed_chunks totals)))"

section \<open>delete\_meetings.py\<close>

definition delete_owner_chunk ::
    "instant \<Rightarrow> instant \<Rightarrow> (int \<Rightarrow> notice) \<Rightarrow> int list \<Rightarrow> sdb \<Rightarrow> sdb \<times> notice_outcome \<times> residue_line list" where
  "delete_owner_chunk now clock send owner_ids db =
     (let ms = select_owned (\<lambda>m u. to_delete now m u \<and> u_id u \<in> set owner_ids) db;
          (db1, out) = notify_owners clock send deletion_notice ms db;
          lines = log_residues clock out (\<lambda>p. deletion_due_time (snd p) (fst p));
          (db2, invitee_ids) = purge_meetups (map (\<lambda>p. m_id (fst p)) (settled out)) db1
      in (db2, out\<lparr>invitees_purged := length invitee_ids\<rparr>, lines))"

definition delete_run :: "sweep_world \<Rightarrow> sdb \<Rightarrow> sdb \<times> sweep_metric list \<times> (sweep_error + unit)" where
  "delete_run w db =
     (let nominated = nominate_owners (to_delete (sw_nominate w)) db;
          (db', totals) = sweep_chunks
            (\<lambda>k ids db. committed w k (delete_owner_chunk (sw_now w k) (sw_clock w k) (sw_send w k) ids db))
            0 (chunks nominated) db empty_outcome
      in (db', [MEETUPS_DELETED_UNNOTIFIED (length (unreachable totals)),
                MEETINGS_DELETION_FAILED (length (failed totals)) (failed_meeting_properties (failed totals))],
          raise_for_failed_chunks (failed_chunks totals)))"

section \<open>The statements, resolved\<close>

lemma statement_window_eq:
  "whole_days f \<Longrightarrow> statement_window f stamp u now \<longleftrightarrow>
     (\<exists>t. stamp = Some t \<and> t + f (policy_get (Some (u_supporter_level u))) < now)"
  by (simp add: statement_window_def owner_tier_window_elapsed_eq)

lemma about_to_be_deleted_iff:
  "about_to_be_deleted now m u \<longleftrightarrow> \<not> expiration_notification_sent m \<and>
     (\<exists>t. expiration_time m = Some t \<and> t + deletion_warning_delay (meetup_policy u) < now)"
  by (auto simp: about_to_be_deleted_def statement_window_eq meetup_policy_def)

lemma to_delete_iff:
  "to_delete now m u \<longleftrightarrow> expiration_notification_sent m \<and>
     (\<exists>t. expiration_time m = Some t \<and> t + inactive_retention (meetup_policy u) < now) \<and>
     (\<exists>w. warned_time m = Some w \<and> w + days 7 < now)"
  by (auto simp: to_delete_def statement_window_eq meetup_policy_def policy_simps)

section \<open>One digest per owner\<close>

definition one_owner :: "int \<times> owned list \<Rightarrow> bool" where
  "one_owner g \<longleftrightarrow> snd g \<noteq> [] \<and> (\<forall>q \<in> set (snd g). u_id (snd q) = fst g)"

definition members :: "(int \<times> owned list) list \<Rightarrow> owned set" where
  "members groups = (\<Union>g \<in> set groups. set (snd g))"

lemma setdefault_one_owner:
  "\<forall>g \<in> set groups. one_owner g \<Longrightarrow> \<forall>g \<in> set (setdefault_append (u_id (snd p)) p groups). one_owner g"
proof (induction groups)
  case (Cons g groups)
  obtain k ps where g: "g = (k, ps)" by force
  have here: "one_owner (k, ps)" and rest: "\<forall>g \<in> set groups. one_owner g" using Cons.prems by (simp_all add: g)
  show ?case
  proof (cases "u_id (snd p) = k")
    case True
    with here have "one_owner (k, ps @ [p])" by (simp add: one_owner_def)
    with True rest show ?thesis by (simp add: g)
  next
    case False
    with here Cons.IH [OF rest] show ?thesis by (simp add: g)
  qed
qed (simp add: one_owner_def)

lemma setdefault_members: "members (setdefault_append k p groups) = insert p (members groups)"
proof (induction groups)
  case (Cons g groups)
  obtain k' ps where g: "g = (k', ps)" by force
  show ?case
  proof (cases "k = k'")
    case True
    with g show ?thesis by (auto simp: members_def)
  next
    case False
    have "members (g # setdefault_append k p groups) = set ps \<union> members (setdefault_append k p groups)"
      by (simp add: members_def g)
    also have "\<dots> = insert p (set ps \<union> members groups)" by (simp add: Cons.IH)
    also have "set ps \<union> members groups = members (g # groups)" by (simp add: members_def g)
    finally show ?thesis using False g by simp
  qed
qed (simp add: members_def)

definition owner_groups :: "owned list \<Rightarrow> (int \<times> owned list) list" where
  "owner_groups ms = fold (\<lambda>p groups. setdefault_append (u_id (snd p)) p groups) ms []"

lemma group_by_owner_groups: "group_by_owner ms = map snd (owner_groups ms)"
  by (simp add: group_by_owner_def owner_groups_def)

lemma fold_one_owner:
  "\<forall>g \<in> set groups. one_owner g \<Longrightarrow>
     \<forall>g \<in> set (fold (\<lambda>p groups. setdefault_append (u_id (snd p)) p groups) ms groups). one_owner g"
proof (induction ms arbitrary: groups)
  case (Cons p ms)
  from Cons.IH [OF setdefault_one_owner [OF Cons.prems]] show ?case by simp
qed simp

lemma fold_members:
  "members (fold (\<lambda>p groups. setdefault_append (u_id (snd p)) p groups) ms groups) = members groups \<union> set ms"
  by (induction ms arbitrary: groups) (simp_all add: setdefault_members)

lemma group_by_owner_all: "\<Union> (set ` set (group_by_owner ms)) = set ms"
proof -
  have "\<Union> (set ` set (group_by_owner ms)) = members (owner_groups ms)"
    by (simp add: group_by_owner_groups members_def)
  then show ?thesis by (simp add: owner_groups_def fold_members) (simp add: members_def)
qed

lemma group_by_owner_one: "g \<in> set (group_by_owner ms) \<Longrightarrow> g \<noteq> [] \<and> (\<forall>q \<in> set g. u_id (snd q) = u_id (snd (hd g)))"
proof -
  assume "g \<in> set (group_by_owner ms)"
  then obtain k where k: "(k, g) \<in> set (owner_groups ms)" by (auto simp: group_by_owner_groups)
  have "\<forall>g \<in> set (owner_groups ms). one_owner g" unfolding owner_groups_def by (rule fold_one_owner) simp
  with k have "g \<noteq> []" "\<forall>q \<in> set g. u_id (snd q) = k" by (auto simp: one_owner_def)
  then show ?thesis by simp
qed

lemma fold_bucket:
  assumes "\<And>g. g \<in> set groups \<Longrightarrow> g \<noteq> [] \<and> (\<forall>q \<in> set g. u_id (snd q) = u_id (snd (hd g)))"
  shows "let out' = fold (\<lambda>g. bucket_meetups (send (u_id (snd (hd g)))) g) groups out
    in set (delivered out') = set (delivered out) \<union> {p \<in> \<Union> (set ` set groups). send (u_id (snd p)) = Reached} \<and>
       set (unreachable out') = set (unreachable out) \<union> {p \<in> \<Union> (set ` set groups). send (u_id (snd p)) = Blocked} \<and>
       set (failed out') = set (failed out) \<union> {p \<in> \<Union> (set ` set groups). send (u_id (snd p)) = Raised} \<and>
       opted_out out' = opted_out out \<and> failed_chunks out' = failed_chunks out"
  using assms
proof (induction groups arbitrary: out)
  case (Cons g groups)
  have g: "\<forall>q \<in> set g. u_id (snd q) = u_id (snd (hd g))" using Cons.prems by simp
  have rest: "g' \<noteq> [] \<and> (\<forall>q \<in> set g'. u_id (snd q) = u_id (snd (hd g')))" if "g' \<in> set groups" for g'
    using Cons.prems that by simp
  show ?case
    using Cons.IH [of "bucket_meetups (send (u_id (snd (hd g)))) g out", OF rest] g
    by (cases "send (u_id (snd (hd g)))") (auto simp: Let_def)
qed (simp add: Let_def)

lemma notify_owners_buckets:
  assumes "notify_owners clock send wants ms db = (db', out)"
  shows "set (delivered out) = {p \<in> set ms. wants (u_settings (snd p)) \<and> send (u_id (snd p)) = Reached}"
    and "set (unreachable out) = {p \<in> set ms. wants (u_settings (snd p)) \<and> send (u_id (snd p)) = Blocked}"
    and "set (failed out) = {p \<in> set ms. wants (u_settings (snd p)) \<and> send (u_id (snd p)) = Raised}"
    and "set (opted_out out) = {p \<in> set ms. \<not> wants (u_settings (snd p))}"
    and "db' = mark_unreachable clock (map (\<lambda>p. u_id (snd p)) (unreachable out)) db"
    and "failed_chunks out = 0"
proof -
  let ?wanted = "filter (\<lambda>(m, u). wants (u_settings u)) ms"
  note all = group_by_owner_all [of ?wanted]
  have out: "out = fold (\<lambda>g. bucket_meetups (send (u_id (snd (hd g)))) g) (group_by_owner ?wanted)
      (empty_outcome\<lparr>opted_out := filter (\<lambda>(m, u). \<not> wants (u_settings u)) ms\<rparr>)"
    and db': "db' = mark_unreachable clock (map (\<lambda>p. u_id (snd p)) (unreachable out)) db"
    using assms by (auto simp: notify_owners_def partition_by_opt_in_def Let_def)
  note b = fold_bucket [where groups = "group_by_owner ?wanted", OF group_by_owner_one, where send = send
      and out = "empty_outcome\<lparr>opted_out := filter (\<lambda>(m, u). \<not> wants (u_settings u)) ms\<rparr>",
      folded out, unfolded Let_def all]
  show "set (delivered out) = {p \<in> set ms. wants (u_settings (snd p)) \<and> send (u_id (snd p)) = Reached}"
    and "set (unreachable out) = {p \<in> set ms. wants (u_settings (snd p)) \<and> send (u_id (snd p)) = Blocked}"
    and "set (failed out) = {p \<in> set ms. wants (u_settings (snd p)) \<and> send (u_id (snd p)) = Raised}"
    and "set (opted_out out) = {p \<in> set ms. \<not> wants (u_settings (snd p))}"
    and "failed_chunks out = 0"
    using b by (auto simp: empty_outcome_def)
  show "db' = mark_unreachable clock (map (\<lambda>p. u_id (snd p)) (unreachable out)) db" by (rule db')
qed

text \<open>Settled is everything but a digest that raised.\<close>

lemma notify_owners_settled:
  assumes "notify_owners clock send wants ms db = (db', out)"
  shows "set (settled out) = {p \<in> set ms. wants (u_settings (snd p)) \<longrightarrow> send (u_id (snd p)) \<noteq> Raised}"
proof -
  show ?thesis
  proof (rule set_eqI)
    fix p
    show "p \<in> set (settled out) \<longleftrightarrow> p \<in> {p \<in> set ms. wants (u_settings (snd p)) \<longrightarrow> send (u_id (snd p)) \<noteq> Raised}"
      using notify_owners_buckets(1,2,4) [OF assms] unfolding settled_def
      by (cases "send (u_id (snd p))") auto
  qed
qed

lemma mark_unreachable_fields [simp]:
  "meetups (mark_unreachable clock ids db) = meetups db"
  "links (mark_unreachable clock ids db) = links db"
  "cards (mark_unreachable clock ids db) = cards db"
  "pending (mark_unreachable clock ids db) = pending db"
  "map u_id (users (mark_unreachable clock ids db)) = map u_id (users db)"
  by (simp_all add: mark_unreachable_def map_update_where)

end
