(* ===== verification/Deletion_Props.thy ===== *)
theory Deletion_Props
  imports Deletion_Sweep
begin

text \<open>
  What one chunk of the warning and of the deletion sweep does to the tables, and that a sweep none of whose
  sends or transactions fail works through everything it nominated.
\<close>

section \<open>The meetings a chunk settles\<close>

definition settles ::
    "(meetup_row \<Rightarrow> user \<Rightarrow> bool) \<Rightarrow> (settings \<Rightarrow> bool) \<Rightarrow> (int \<Rightarrow> notice) \<Rightarrow> int list \<Rightarrow> sdb \<Rightarrow> meetup_row \<Rightarrow> bool" where
  "settles statement wants send ids db m \<longleftrightarrow>
     (\<exists>u \<in> set (users db). u_id u = owner_id m \<and> statement m u \<and> u_id u \<in> set ids \<and>
        (wants (u_settings u) \<longrightarrow> send (u_id u) \<noteq> Raised))"

lemma settled_ids:
  assumes keys: "distinct (map m_id (meetups db))"
    and notify: "notify_owners clock send wants (select_owned (\<lambda>m u. statement m u \<and> u_id u \<in> set ids) db) db = (db1, out)"
    and m: "m \<in> set (meetups db)"
  shows "m_id m \<in> set (map (\<lambda>p. m_id (fst p)) (settled out)) \<longleftrightarrow> settles statement wants send ids db m"
proof
  assume "m_id m \<in> set (map (\<lambda>p. m_id (fst p)) (settled out))"
  then obtain p where p: "p \<in> set (settled out)" "m_id (fst p) = m_id m" by auto
  obtain m' u where mu: "p = (m', u)" by force
  from p mu notify_owners_settled [OF notify] have sel: "(m', u) \<in> set (select_owned (\<lambda>m u. statement m u \<and> u_id u \<in> set ids) db)"
    "wants (u_settings u) \<longrightarrow> send (u_id u) \<noteq> Raised" by auto
  from sel(1) have m': "m' \<in> set (meetups db)" "u \<in> set (users db)" "u_id u = owner_id m'" "statement m' u" "u_id u \<in> set ids"
    unfolding select_owned_mem by blast+
  have "m' = m" using distinct_key_unique [OF keys m'(1) m] p(2) mu by simp
  with m' sel(2) show "settles statement wants send ids db m" by (auto simp: settles_def)
next
  assume "settles statement wants send ids db m"
  then obtain u where u: "u \<in> set (users db)" "u_id u = owner_id m" "statement m u" "u_id u \<in> set ids"
    "wants (u_settings u) \<longrightarrow> send (u_id u) \<noteq> Raised" by (auto simp: settles_def)
  with m have "(m, u) \<in> set (select_owned (\<lambda>m u. statement m u \<and> u_id u \<in> set ids) db)" by (simp add: select_owned_mem)
  with u(5) notify_owners_settled [OF notify] have "(m, u) \<in> set (settled out)" by simp
  then have "m_id (fst (m, u)) \<in> set (map (\<lambda>p. m_id (fst p)) (settled out))" by (metis image_eqI list.set_map)
  then show "m_id m \<in> set (map (\<lambda>p. m_id (fst p)) (settled out))" by simp
qed

lemma warn_chunk_meetups:
  assumes keys: "distinct (map m_id (meetups db))" and run: "warn_owner_chunk now clock send ids db = (db', out, lines)"
  shows "meetups db' = map (\<lambda>m. if settles (about_to_be_deleted now) deletion_warning send ids db m
      then record_deletion_warning clock m else m) (meetups db)"
    and "links db' = links db" and "cards db' = cards db" and "pending db' = pending db"
    and "map u_id (users db') = map u_id (users db)"
    and "\<exists>ids'. users db' = users (mark_unreachable clock ids' db)"
proof -
  obtain db1 where notify: "notify_owners clock send deletion_warning
      (select_owned (\<lambda>m u. about_to_be_deleted now m u \<and> u_id u \<in> set ids) db) db = (db1, out)"
    and db': "db' = db1\<lparr>meetups := update_where (\<lambda>m. m_id m \<in> set (map (\<lambda>p. m_id (fst p)) (settled out)))
      (record_deletion_warning clock) (meetups db1)\<rparr>"
    using run by (auto simp: warn_owner_chunk_def Let_def split: prod.splits)
  note db1 = notify_owners_buckets(5) [OF notify]
  have "(if m_id m \<in> set (map (\<lambda>p. m_id (fst p)) (settled out)) then record_deletion_warning clock m else m) =
      (if settles (about_to_be_deleted now) deletion_warning send ids db m then record_deletion_warning clock m else m)"
    if "m \<in> set (meetups db)" for m
    using settled_ids [OF keys notify that] by simp
  then show "meetups db' = map (\<lambda>m. if settles (about_to_be_deleted now) deletion_warning send ids db m
      then record_deletion_warning clock m else m) (meetups db)"
    unfolding db' db1 by (simp add: update_where_def)
  show "links db' = links db" "cards db' = cards db" "pending db' = pending db" "map u_id (users db') = map u_id (users db)"
    by (simp_all add: db' db1)
  show "\<exists>ids'. users db' = users (mark_unreachable clock ids' db)" by (auto simp: db' db1)
qed

section \<open>The deletion chunk\<close>

definition invitees_own_nothing :: "sdb \<Rightarrow> bool" where
  "invitees_own_nothing db \<longleftrightarrow> (\<forall>m \<in> set (meetups db). \<not> is_invitee db (owner_id m))"

lemma mark_unreachable_mem:
  "u \<in> set (users (mark_unreachable clock ids db)) \<longleftrightarrow>
     (\<exists>u0 \<in> set (users db). u = (if u_id u0 \<in> set ids then fst (mark_inactive clock u0) else u0))"
  by (auto simp: mark_unreachable_def update_where_def)

lemma mark_unreachable_invitee [simp]: "is_invitee (mark_unreachable clock ids db) = is_invitee db"
proof (rule ext, rule iffI)
  fix uid
  show "is_invitee db uid" if "is_invitee (mark_unreachable clock ids db) uid"
  proof -
    from that obtain u where u: "u \<in> set (users (mark_unreachable clock ids db))" "u_id u = uid"
      "tg_user_id u = ANONYMOUS_INVITEE_TG_ID" unfolding is_invitee_def by blast
    from u(1) obtain u0 where u0: "u0 \<in> set (users db)"
      "u = (if u_id u0 \<in> set ids then fst (mark_inactive clock u0) else u0)" unfolding mark_unreachable_mem by blast
    with u(2,3) have "u_id u0 = uid" "tg_user_id u0 = ANONYMOUS_INVITEE_TG_ID" by (simp_all split: if_splits)
    with u0(1) show ?thesis by (auto simp: is_invitee_def)
  qed
  show "is_invitee (mark_unreachable clock ids db) uid" if "is_invitee db uid"
  proof -
    from that obtain u where u: "u \<in> set (users db)" "u_id u = uid" "tg_user_id u = ANONYMOUS_INVITEE_TG_ID"
      by (auto simp: is_invitee_def)
    then have "(if u_id u \<in> set ids then fst (mark_inactive clock u) else u) \<in> set (users (mark_unreachable clock ids db))"
      unfolding mark_unreachable_mem by blast
    moreover have "u_id (if u_id u \<in> set ids then fst (mark_inactive clock u) else u) = uid"
      "tg_user_id (if u_id u \<in> set ids then fst (mark_inactive clock u) else u) = ANONYMOUS_INVITEE_TG_ID"
      using u by simp_all
    ultimately show ?thesis unfolding is_invitee_def by blast
  qed
qed

lemma mark_unreachable_ok: "tables_ok db \<Longrightarrow> tables_ok (mark_unreachable clock ids db)"
  using update_tables_ok [of db "users (mark_unreachable clock ids db)" "meetups db" "links db"]
  by (simp add: mark_unreachable_def map_update_where)

lemma invitees_of_mem:
  "i \<in> set (invitees_of db mids) \<longleftrightarrow>
     is_invitee db i \<and> (\<exists>l \<in> set (links db). jl_user_id l = i \<and> jl_meetup_id l \<in> set mids)"
  by (auto simp: invitees_of_def links_of_def)

lemma purge_meetups_meetups:
  assumes own: "invitees_own_nothing db"
  shows "set (meetups (fst (purge_meetups mids db))) = {m \<in> set (meetups db). m_id m \<notin> set mids}"
proof -
  let ?gone = "\<lambda>u. u_id u \<in> set (invitees_of db mids)"
  have "\<not> (\<exists>u \<in> set (users db). u_id u = owner_id m \<and> ?gone u)" if "m \<in> set (meetups db)" for m
    using own that unfolding invitees_own_nothing_def invitees_of_mem by metis
  then show ?thesis by (auto simp: purge_meetups_def Let_def set_delete_users_meetups)
qed

lemma delete_owner_chunk_effect:
  assumes ok: "tables_ok db" and own: "invitees_own_nothing db"
    and run: "delete_owner_chunk now clock send ids db = (db', out, lines)"
  shows "set (meetups db') = {m \<in> set (meetups db). \<not> settles (to_delete now) deletion_notice send ids db m}"
    and "\<exists>gone ids'. users db' = delete_where (\<lambda>u. u_id u \<in> gone) (users (mark_unreachable clock ids' db)) \<and>
      (\<forall>i \<in> gone. is_invitee db i)"
    and "pending db' = pending db" and "tables_ok db'"
proof -
  obtain db1 out0 where notify: "notify_owners clock send deletion_notice
      (select_owned (\<lambda>m u. to_delete now m u \<and> u_id u \<in> set ids) db) db = (db1, out0)"
    and db': "db' = fst (purge_meetups (map (\<lambda>p. m_id (fst p)) (settled out0)) db1)"
    using run by (auto simp: delete_owner_chunk_def Let_def split: prod.splits)
  note db1 = notify_owners_buckets(5) [OF notify]
  have keys: "distinct (map m_id (meetups db))" using ok by (simp add: tables_ok_def keys_ok_def)
  have own1: "invitees_own_nothing db1" using own by (simp add: invitees_own_nothing_def db1)
  show "set (meetups db') = {m \<in> set (meetups db). \<not> settles (to_delete now) deletion_notice send ids db m}"
    using settled_ids [OF keys notify] unfolding db' purge_meetups_meetups [OF own1] by (auto simp: db1)
  let ?gone = "set (invitees_of db1 (map (\<lambda>p. m_id (fst p)) (settled out0)))"
  have "users db' = delete_where (\<lambda>u. u_id u \<in> ?gone) (users db1)"
    by (simp add: db' purge_meetups_def Let_def)
  moreover have "\<forall>i \<in> ?gone. is_invitee db i" by (simp add: invitees_of_mem db1)
  ultimately show "\<exists>gone ids'. users db' = delete_where (\<lambda>u. u_id u \<in> gone) (users (mark_unreachable clock ids' db)) \<and>
      (\<forall>i \<in> gone. is_invitee db i)" unfolding db1 by blast
  show "pending db' = pending db" by (simp add: db' purge_meetups_def Let_def db1)
  show "tables_ok db'" unfolding db' db1 by (intro purge_meetups_ok mark_unreachable_ok ok)
qed

end
