(* ===== verification/Guards.thy ===== *)
theory Guards
  imports Tables
begin

text \<open>
  The guards in front of the handlers (\<^verbatim>\<open>libs/telegram/mitup_bot/guards.py\<close>): who is acting, and which meeting
  they may act on. A guard that raises returns \<open>Inl\<close>; the language and the keyboard a rejection carries
  are only rendered and are left out, and so are log context and metrics.

  Of a Telegram update the model keeps what Telegram itself fills in: who tapped, in which chat and on which
  message. The meeting id is an argument: it comes out of the callback data, which a client may forge.
\<close>

section \<open>Updates\<close>

record callback_query =
  q_inline_message_id :: "string option"
  q_chat_instance :: "string option"

text \<open>\<open>effective_message\<close> is the pair of chat id and message id.\<close>

record tg_update =
  effective_user :: "int option"
  effective_chat :: "(int \<times> bool) option"
  effective_message :: "(int \<times> int) option"
  tapped :: "callback_query option"

definition in_bot_chat :: "tg_update \<Rightarrow> bool" where
  "in_bot_chat up \<longleftrightarrow> (case effective_chat up of None \<Rightarrow> False | Some (i, is_private) \<Rightarrow> is_private)"

definition is_admin :: "int set \<Rightarrow> tg_update \<Rightarrow> bool" where
  "is_admin admin_tg_ids up \<longleftrightarrow> (case effective_user up of None \<Rightarrow> False | Some i \<Rightarrow> i \<in> admin_tg_ids)"

section \<open>The acting user\<close>

datatype guard_error =
    EffectiveUserNotSet
  | UserNotFound int
  | UserPendingDeletion int
  | MeetingGone
  | MeetingNotOwned
  | MeetingInactiveOwner
  | SharedMeetingGone
  | SharedMeetingDenied
  | SharedMeetingFinished

definition user_by_tg :: "sdb \<Rightarrow> int \<Rightarrow> user option" where
  "user_by_tg db tg = first_where (\<lambda>u. tg_user_id u = tg) (users db)"

definition current_user :: "tg_update \<Rightarrow> sdb \<Rightarrow> guard_error + user" where
  "current_user up db =
     (case effective_user up of
        None \<Rightarrow> Inl EffectiveUserNotSet
      | Some tg \<Rightarrow>
          (case user_by_tg db tg of
             Some u \<Rightarrow> if status u = DELETION_REQUESTED then Inl (UserPendingDeletion tg) else Inr u
           | None \<Rightarrow> Inl (UserNotFound tg)))"

definition member_user :: "tg_update \<Rightarrow> sdb \<Rightarrow> user option" where
  "member_user up db =
     (case effective_user up of
        None \<Rightarrow> None
      | Some tg \<Rightarrow> first_where (\<lambda>u. tg_user_id u = tg \<and> status u = MEMBER) (users db))"

definition user_language :: "tg_update \<Rightarrow> sdb \<Rightarrow> string" where
  "user_language up db =
     (case effective_user up of
        None \<Rightarrow> FALLBACK_LANG
      | Some tg \<Rightarrow> (case user_by_tg db tg of None \<Rightarrow> FALLBACK_LANG | Some u \<Rightarrow> language (u_settings u)))"

section \<open>Meetings reached through the bot chat\<close>

definition by_id :: "sdb \<Rightarrow> bool \<Rightarrow> int \<Rightarrow> meetup_row option" where
  "by_id db include_inactive mid =
     (case first_where (\<lambda>m. m_id m = mid) (meetups db) of
        None \<Rightarrow> None
      | Some m \<Rightarrow> if active m \<or> include_inactive then Some m else None)"

text \<open>The owner the selectin load of a meeting brings with it.\<close>

definition owner_row :: "sdb \<Rightarrow> meetup_row \<Rightarrow> user option" where
  "owner_row db m = first_where (\<lambda>u. u_id u = owner_id m) (users db)"

definition is_owned_by :: "meetup_row \<Rightarrow> user \<Rightarrow> bool" where
  "is_owned_by m u \<longleftrightarrow> owner_id m = u_id u"

definition has_link :: "sdb \<Rightarrow> int \<Rightarrow> int \<Rightarrow> bool" where
  "has_link db mid uid \<longleftrightarrow> (\<exists>l \<in> set (links_of db mid). jl_user_id l = uid)"

definition has_invited :: "sdb \<Rightarrow> int \<Rightarrow> int \<Rightarrow> bool" where
  "has_invited db mid uid \<longleftrightarrow> (\<exists>l \<in> set (links_of db mid). jl_invited_by l = Some uid)"

datatype meeting_access = OWNER | OWNER_OR_JOINED | OWNER_OR_PUBLIC | OWNER_ANY_STATE

definition owned :: "meetup_row \<Rightarrow> user option \<Rightarrow> bool" where
  "owned m user = (case user of None \<Rightarrow> False | Some u \<Rightarrow> is_owned_by m u)"

definition meeting :: "sdb \<Rightarrow> user option \<Rightarrow> int \<Rightarrow> meeting_access \<Rightarrow> guard_error + meetup_row" where
  "meeting db user mid access =
     (case by_id db True mid of
        None \<Rightarrow> if access = OWNER_ANY_STATE then Inl MeetingNotOwned else Inl MeetingGone
      | Some m \<Rightarrow>
          if access = OWNER_ANY_STATE then (if owned m user then Inr m else Inl MeetingNotOwned)
          else if \<not> active m then (if owned m user then Inl MeetingInactiveOwner else Inl MeetingNotOwned)
          else if owned m user then Inr m
          else if access = OWNER_OR_JOINED \<and> (case user of None \<Rightarrow> False | Some u \<Rightarrow> has_link db mid (u_id u)) then Inr m
          else if access = OWNER_OR_PUBLIC \<and> public m then Inr m
          else Inl MeetingNotOwned)"

section \<open>Meetings reached from a shared card\<close>

definition cards_of :: "sdb \<Rightarrow> int \<Rightarrow> card_row list" where
  "cards_of db mid = filter (\<lambda>c. card_meetup_id c = Some mid) (cards db)"

definition message_from_update :: "sdb \<Rightarrow> int \<Rightarrow> tg_update \<Rightarrow> card_row option" where
  "message_from_update db mid up =
     (case effective_message up of
        Some (chat, message) \<Rightarrow>
          first_where (\<lambda>c. message_id c = Some message \<and> chat_id c = Some chat) (cards_of db mid)
      | None \<Rightarrow>
          (case tapped up of
             None \<Rightarrow> None
           | Some q \<Rightarrow>
               (case q_inline_message_id q of
                  None \<Rightarrow> None
                | Some i \<Rightarrow> if i = [] then None
                            else first_where (\<lambda>c. inline_message_id c = Some i) (cards_of db mid))))"

definition meetup_id_for_inline_message :: "sdb \<Rightarrow> string \<Rightarrow> int option" where
  "meetup_id_for_inline_message db i =
     (case first_where (\<lambda>c. inline_message_id c = Some i) (cards db) of None \<Rightarrow> None | Some c \<Rightarrow> card_meetup_id c)"

definition meeting_interaction_allowed :: "sdb \<Rightarrow> user option \<Rightarrow> meetup_row \<Rightarrow> tg_update \<Rightarrow> bool" where
  "meeting_interaction_allowed db user m up =
     (if public m then True
      else if (case user of None \<Rightarrow> False
               | Some u \<Rightarrow> is_owned_by m u \<or> has_link db (m_id m) (u_id u) \<or> has_invited db (m_id m) (u_id u)) then True
      else if message_from_update db (m_id m) up \<noteq> None then True
      else if (case tapped up of None \<Rightarrow> False
               | Some q \<Rightarrow> (case q_chat_instance q of None \<Rightarrow> False
                           | Some i \<Rightarrow> \<exists>c \<in> set (cards_of db (m_id m)). chat_instance c = Some i)) then True
      else (case tapped up of None \<Rightarrow> False
            | Some q \<Rightarrow> (case q_inline_message_id q of None \<Rightarrow> False
                        | Some i \<Rightarrow> meetup_id_for_inline_message db i = Some (m_id m))))"

definition shared_meeting :: "sdb \<Rightarrow> user option \<Rightarrow> int \<Rightarrow> tg_update \<Rightarrow> bool \<Rightarrow> guard_error + meetup_row" where
  "shared_meeting db user mid up require_active =
     (case by_id db True mid of
        None \<Rightarrow> Inl SharedMeetingGone
      | Some m \<Rightarrow>
          if \<not> meeting_interaction_allowed db user m up then Inl SharedMeetingDenied
          else if require_active \<and> \<not> active m then Inl SharedMeetingFinished
          else Inr m)"

definition conversation_meeting :: "sdb \<Rightarrow> int \<Rightarrow> guard_error + meetup_row" where
  "conversation_meeting db mid = (case by_id db False mid of None \<Rightarrow> Inl MeetingGone | Some m \<Rightarrow> Inr m)"

section \<open>Who gets in\<close>

lemma by_id_Some: "by_id db inactive mid = Some m \<Longrightarrow> m \<in> set (meetups db) \<and> m_id m = mid \<and> (active m \<or> inactive)"
  by (auto simp: by_id_def dest!: first_where_Some split: option.splits if_splits)

lemma meeting_Inr:
  "meeting db user mid access = Inr m \<longleftrightarrow> by_id db True mid = Some m \<and>
     (case access of
        OWNER_ANY_STATE \<Rightarrow> owned m user
      | OWNER \<Rightarrow> active m \<and> owned m user
      | OWNER_OR_JOINED \<Rightarrow> active m \<and> (owned m user \<or> (\<exists>u. user = Some u \<and> has_link db mid (u_id u)))
      | OWNER_OR_PUBLIC \<Rightarrow> active m \<and> (owned m user \<or> public m))"
  by (cases access) (auto simp: meeting_def split: option.splits)

text \<open>A card a tap gives a claim on: one of this meeting's cards, named by coordinates Telegram filled in.\<close>

definition card_claims :: "tg_update \<Rightarrow> card_row \<Rightarrow> bool" where
  "card_claims up c \<longleftrightarrow>
     (\<exists>chat message. effective_message up = Some (chat, message) \<and> message_id c = Some message \<and> chat_id c = Some chat) \<or>
     (\<exists>q i. tapped up = Some q \<and> q_inline_message_id q = Some i \<and> inline_message_id c = Some i) \<or>
     (\<exists>q i. tapped up = Some q \<and> q_chat_instance q = Some i \<and> chat_instance c = Some i)"

lemma interaction_claim:
  assumes "meeting_interaction_allowed db user m up" "\<not> public m"
    and stranger: "\<not> (\<exists>u. user = Some u \<and> (is_owned_by m u \<or> has_link db (m_id m) (u_id u) \<or> has_invited db (m_id m) (u_id u)))"
  shows "\<exists>c \<in> set (cards db). card_meetup_id c = Some (m_id m) \<and> card_claims up c"
proof -
  have no_user: "\<not> (case user of None \<Rightarrow> False
      | Some u \<Rightarrow> is_owned_by m u \<or> has_link db (m_id m) (u_id u) \<or> has_invited db (m_id m) (u_id u))"
    using stranger by (auto split: option.splits)
  consider (message) "message_from_update db (m_id m) up \<noteq> None"
    | (chat) q i c where "tapped up = Some q" "q_chat_instance q = Some i" "c \<in> set (cards_of db (m_id m))" "chat_instance c = Some i"
    | (inline) q i where "tapped up = Some q" "q_inline_message_id q = Some i" "meetup_id_for_inline_message db i = Some (m_id m)"
    using assms(1,2) no_user unfolding meeting_interaction_allowed_def by (auto split: if_splits option.splits)
  then show ?thesis
  proof cases
    case message
    then obtain c where c: "message_from_update db (m_id m) up = Some c" by blast
    then have "c \<in> set (cards_of db (m_id m)) \<and> card_claims up c"
      by (auto simp: message_from_update_def card_claims_def dest!: first_where_Some split: option.splits if_splits)
    then show ?thesis by (auto simp: cards_of_def)
  next
    case chat
    then show ?thesis by (auto simp: cards_of_def card_claims_def)
  next
    case inline
    then show ?thesis
      by (auto simp: meetup_id_for_inline_message_def card_claims_def dest!: first_where_Some split: option.splits)
  qed
qed

text \<open>C7. Who gets past the guards. In the bot chat: the owner, or on the wider profiles a member of the meeting or, on a
  public one, anybody, and never on an inactive meeting outside the profile made for those. From a shared card of a private
  meeting: the owner, its members and those who invited somebody into it; anybody else only with a tap on a message, an
  inline card or a chat that the database knows as a card of this very meeting. The meeting id in the callback data, which
  a client may forge, opens nothing by itself.\<close>

theorem guards_let_in:
  "(meeting db user mid access = Inr m \<longleftrightarrow> by_id db True mid = Some m \<and>
     (case access of
        OWNER_ANY_STATE \<Rightarrow> owned m user
      | OWNER \<Rightarrow> active m \<and> owned m user
      | OWNER_OR_JOINED \<Rightarrow> active m \<and> (owned m user \<or> (\<exists>u. user = Some u \<and> has_link db mid (u_id u)))
      | OWNER_OR_PUBLIC \<Rightarrow> active m \<and> (owned m user \<or> public m))) \<and>
   (shared_meeting db user mid up require_active = Inr m \<longrightarrow>
     m \<in> set (meetups db) \<and> m_id m = mid \<and> (require_active \<longrightarrow> active m) \<and>
     (public m \<or>
      (\<exists>u. user = Some u \<and> (owner_id m = u_id u \<or> has_link db mid (u_id u) \<or> has_invited db mid (u_id u))) \<or>
      (\<exists>c \<in> set (cards db). card_meetup_id c = Some mid \<and> card_claims up c)))"
proof (intro conjI impI)
  show "meeting db user mid access = Inr m \<longleftrightarrow> by_id db True mid = Some m \<and>
     (case access of
        OWNER_ANY_STATE \<Rightarrow> owned m user
      | OWNER \<Rightarrow> active m \<and> owned m user
      | OWNER_OR_JOINED \<Rightarrow> active m \<and> (owned m user \<or> (\<exists>u. user = Some u \<and> has_link db mid (u_id u)))
      | OWNER_OR_PUBLIC \<Rightarrow> active m \<and> (owned m user \<or> public m))"
    by (rule meeting_Inr)
next
  assume run: "shared_meeting db user mid up require_active = Inr m"
  then have "by_id db True mid = Some m" and allowed: "meeting_interaction_allowed db user m up"
    and act: "require_active \<longrightarrow> active m"
    by (auto simp: shared_meeting_def split: option.splits if_splits)
  from by_id_Some [OF this(1)] have m: "m \<in> set (meetups db)" "m_id m = mid" by simp_all
  show "m \<in> set (meetups db)" "m_id m = mid" by (fact m)+
  show "active m" if require_active using that act by blast
  show "public m \<or>
      (\<exists>u. user = Some u \<and> (owner_id m = u_id u \<or> has_link db mid (u_id u) \<or> has_invited db mid (u_id u))) \<or>
      (\<exists>c \<in> set (cards db). card_meetup_id c = Some mid \<and> card_claims up c)"
    using interaction_claim [OF allowed] m(2) unfolding is_owned_by_def by blast
qed

end
