(* ===== verification/Deactivation.thy ===== *)
theory Deactivation
  imports Deletion_Sweep Guards
begin

text \<open>
  The deactivation sweep \<^verbatim>\<open>apps/events/mitup_bot/events/inactive_meetings.py\<close>, with the purges of accounts it runs
  at its end, and the owner's reactivation
  \<^verbatim>\<open>apps/bot/mitup_bot/handlers/meeting/reactivate_meeting.py\<close>. The sweep nominates meetings in a transaction of
  its own and decides about each of them again under its row lock.
\<close>

section \<open>The predicate\<close>

datatype deactivation_reason =
    DATELESS_WINDOW_ELAPSED
  | LEFT_OWNER_DATELESS_WINDOW_ELAPSED
  | PAST_END_DATETIME_PLUS_OWNER_TIMEOUT

datatype skip_reason =
    MEETING_DELETED
  | ALREADY_INACTIVE
  | RESCHEDULED
  | OWNER_REJOINED
  | TIER_WINDOW_EXTENDED
  | PREDICATE_NO_LONGER_MATCHES

definition LEFT_OWNER_DATELESS_LIFETIME :: duration where
  "LEFT_OWNER_DATELESS_LIFETIME = left_owner_dateless_lifetime (policy_get None)"

definition ONBOARDING_ANSWER_WINDOW :: duration where "ONBOARDING_ANSWER_WINDOW = days 7"

definition DATELESS_WINDOWS :: "lifecycle_error + (supporter_level \<times> int) list" where
  "DATELESS_WINDOWS = resolved_windows dateless_lifetime"

text \<open>A fixed interval added to a column and compared with the database clock.\<close>

definition interval_elapsed :: "duration \<Rightarrow> instant option \<Rightarrow> instant \<Rightarrow> bool" where
  "interval_elapsed d stamp now =
     (case sql_interval d of Inl e \<Rightarrow> False
      | Inr interval \<Rightarrow> (case stamp of None \<Rightarrow> False | Some t \<Rightarrow> t + interval < now))"

definition dateless_window_elapsed :: "instant \<Rightarrow> meetup_row \<Rightarrow> user \<Rightarrow> bool" where
  "dateless_window_elapsed now m u \<longleftrightarrow>
     datetime m = None \<and> statement_window dateless_lifetime (Some (activated_time m)) u now"

definition left_owner_window_elapsed :: "instant \<Rightarrow> meetup_row \<Rightarrow> user \<Rightarrow> bool" where
  "left_owner_window_elapsed now m u \<longleftrightarrow>
     datetime m = None \<and> status u = LEFT \<and>
     interval_elapsed LEFT_OWNER_DATELESS_LIFETIME (Some (activated_time m)) now"

definition past_end_plus_timeout :: "instant \<Rightarrow> meetup_row \<Rightarrow> user \<Rightarrow> bool" where
  "past_end_plus_timeout now m u =
     (case datetime m of None \<Rightarrow> False
      | Some start \<Rightarrow>
          now > (case end_datetime m of None \<Rightarrow> start | Some stop \<Rightarrow> stop) + minutes (timeout (u_settings u)))"

definition due_for_deactivation :: "instant \<Rightarrow> meetup_row \<Rightarrow> user \<Rightarrow> bool" where
  "due_for_deactivation now m u \<longleftrightarrow>
     active m \<and> (dateless_window_elapsed now m u \<or> left_owner_window_elapsed now m u \<or> past_end_plus_timeout now m u)"

definition deactivation_reason :: "instant \<Rightarrow> meetup_row \<Rightarrow> user \<Rightarrow> deactivation_reason" where
  "deactivation_reason now m u =
     (if dateless_window_elapsed now m u then DATELESS_WINDOW_ELAPSED
      else if left_owner_window_elapsed now m u then LEFT_OWNER_DATELESS_WINDOW_ELAPSED
      else PAST_END_DATETIME_PLUS_OWNER_TIMEOUT)"

section \<open>Nomination\<close>

record due_meeting =
  dm_meeting_id :: int
  dm_owner_tg_user_id :: int
  dm_owner_supporter_level :: supporter_level
  dm_reason :: deactivation_reason

definition window_days :: "due_meeting \<Rightarrow> int option" where
  "window_days due_m =
     (case dm_reason due_m of
        DATELESS_WINDOW_ELAPSED \<Rightarrow>
          (case DATELESS_WINDOWS of Inl e \<Rightarrow> None | Inr ws \<Rightarrow> map_of ws (dm_owner_supporter_level due_m))
      | LEFT_OWNER_DATELESS_WINDOW_ELAPSED \<Rightarrow>
          (case interval_days LEFT_OWNER_DATELESS_LIFETIME of Inl e \<Rightarrow> None | Inr n \<Rightarrow> Some n)
      | PAST_END_DATETIME_PLUS_OWNER_TIMEOUT \<Rightarrow> None)"

definition tier_window_days :: "user \<Rightarrow> lifecycle_error + int" where
  "tier_window_days owner = interval_days (dateless_lifetime (policy_get (Some (u_supporter_level owner))))"

definition due_meetings :: "instant \<Rightarrow> sdb \<Rightarrow> due_meeting list" where
  "due_meetings now db =
     map (\<lambda>(m, u). \<lparr>dm_meeting_id = m_id m, dm_owner_tg_user_id = tg_user_id u,
        dm_owner_supporter_level = u_supporter_level u, dm_reason = deactivation_reason now m u\<rparr>)
       (select_owned (due_for_deactivation now) db)"

definition skip_reason :: "due_meeting \<Rightarrow> meetup_row \<Rightarrow> user \<Rightarrow> skip_reason" where
  "skip_reason due_m m owner =
     (if \<not> active m then ALREADY_INACTIVE
      else if datetime m \<noteq> None \<and> dm_reason due_m \<noteq> PAST_END_DATETIME_PLUS_OWNER_TIMEOUT then RESCHEDULED
      else if dm_reason due_m = LEFT_OWNER_DATELESS_WINDOW_ELAPSED \<and> status owner \<noteq> LEFT then OWNER_REJOINED
      else if dm_reason due_m = DATELESS_WINDOW_ELAPSED \<and>
           (case (window_days due_m, tier_window_days owner) of (Some n, Inr k) \<Rightarrow> k > n | _ \<Rightarrow> False)
      then TIER_WINDOW_EXTENDED
      else PREDICATE_NO_LONGER_MATCHES)"

section \<open>Deactivating one meeting\<close>

record cleared =
  invited_user_ids :: "int list"
  invited_users_deleted :: nat
  participants_removed :: nat
  messages_deleted :: nat

definition clear_meeting_data :: "int \<Rightarrow> sdb \<Rightarrow> sdb \<times> cleared" where
  "clear_meeting_data mid db =
     (let invited = map jl_user_id (filter (\<lambda>l. is_invitee db (jl_user_id l)) (links_of db mid));
          db1 = (if invited \<noteq> [] then delete_users_where (\<lambda>u. u_id u \<in> set invited) db else db);
          db2 = db1\<lparr>links := delete_where (\<lambda>l. jl_meetup_id l = mid) (links db1)\<rparr>;
          db3 = db2\<lparr>cards := delete_where (\<lambda>c. card_meetup_id c = Some mid) (cards db2)\<rparr>
      in (db3, \<lparr>invited_user_ids = invited,
                invited_users_deleted =
                  (if invited \<noteq> [] then count_where (\<lambda>u. u_id u \<in> set invited) (users db) else 0),
                participants_removed = count_where (\<lambda>l. jl_meetup_id l = mid) (links db1),
                messages_deleted = count_where (\<lambda>c. card_meetup_id c = Some mid) (cards db2)\<rparr>))"

datatype deactivation = Skipped skip_reason | Deactivated cleared

text \<open>Returns the tables, what happened and the cards queued for their last edit. A meeting without its owner
  cannot exist (the foreign key); reading \<open>meeting.owner.status\<close> of one raises, which is \<open>None\<close>.\<close>

definition deactivate_meeting_locked ::
    "instant \<Rightarrow> instant \<Rightarrow> due_meeting \<Rightarrow> sdb \<Rightarrow> (sdb \<times> deactivation \<times> int list) option" where
  "deactivate_meeting_locked now clock due_m db =
     (case by_id db True (dm_meeting_id due_m) of
        None \<Rightarrow> Some (db, Skipped MEETING_DELETED, [])
      | Some m \<Rightarrow>
          (case owner_row db m of
             None \<Rightarrow> None
           | Some owner \<Rightarrow>
               if select_owned (\<lambda>m u. due_for_deactivation now m u \<and> m_id m = dm_meeting_id due_m) db = [] then
                 Some (db, Skipped (skip_reason due_m m owner), [])
               else
                 let edits = map card_id (filter (\<lambda>c. card_meetup_id c = Some (m_id m)) (cards db));
                     db1 = db\<lparr>meetups := update_where (\<lambda>r. m_id r = m_id m)
                             (\<lambda>r. r\<lparr>active := False, expiration_time := Some clock\<rparr>) (meetups db)\<rparr>;
                     (db2, cleared) = clear_meeting_data (m_id m) db1
                 in Some (db2, Deactivated cleared, edits)))"

section \<open>The purges of accounts and the run\<close>

definition delete_users_still_in_status :: "int list \<Rightarrow> user_status \<Rightarrow> sdb \<Rightarrow> sdb \<times> int list" where
  "delete_users_still_in_status user_ids st db =
     (if user_ids = [] then (db, [])
      else (delete_users_where (\<lambda>u. u_id u \<in> set user_ids \<and> status u = st) db,
            map u_id (filter (\<lambda>u. u_id u \<in> set user_ids \<and> status u = st) (users db))))"

definition joined_only_without_active_links :: "sdb \<Rightarrow> user \<Rightarrow> bool" where
  "joined_only_without_active_links db u \<longleftrightarrow>
     status u = JOINED_ONLY \<and> \<not> owns_meeting db u \<and> \<not> has_active_link db u"

definition abandoned_onboarding :: "instant \<Rightarrow> sdb \<Rightarrow> user \<Rightarrow> bool" where
  "abandoned_onboarding now db u \<longleftrightarrow>
     status u = ONBOARDING \<and> interval_elapsed ONBOARDING_ANSWER_WINDOW (u_created_time u) now \<and>
     \<not> owns_meeting db u \<and> \<not> has_active_link db u"

definition delete_joined_only_users :: "sdb \<Rightarrow> sdb \<times> int list" where
  "delete_joined_only_users db =
     delete_users_still_in_status (map u_id (filter (joined_only_without_active_links db) (users db))) JOINED_ONLY db"

definition delete_abandoned_onboarding_users :: "instant \<Rightarrow> sdb \<Rightarrow> sdb \<times> int list" where
  "delete_abandoned_onboarding_users now db =
     delete_users_still_in_status (map u_id (filter (abandoned_onboarding now db) (users db))) ONBOARDING db"

record deactivation_world =
  dw_nominate :: instant
  dw_now :: "int \<Rightarrow> instant"
  dw_clock :: "int \<Rightarrow> instant"
  dw_breaks :: "int \<Rightarrow> bool"
  dw_now_purge :: instant

record deactivation_tally =
  dt_deactivated :: "due_meeting list"
  dt_skipped :: nat
  dt_failed :: nat

fun deactivate_all ::
    "deactivation_world \<Rightarrow> due_meeting list \<Rightarrow> sdb \<Rightarrow> deactivation_tally \<Rightarrow> sdb \<times> deactivation_tally" where
  "deactivate_all w [] db tally = (db, tally)"
| "deactivate_all w (due_m # rest) db tally =
     (let i = dm_meeting_id due_m in
      case (if dw_breaks w i then None else deactivate_meeting_locked (dw_now w i) (dw_clock w i) due_m db) of
        None \<Rightarrow> deactivate_all w rest db (tally\<lparr>dt_failed := dt_failed tally + 1\<rparr>)
      | Some (db', Skipped r, edits) \<Rightarrow> deactivate_all w rest db' (tally\<lparr>dt_skipped := dt_skipped tally + 1\<rparr>)
      | Some (db', Deactivated c, edits) \<Rightarrow>
          deactivate_all w rest db' (tally\<lparr>dt_deactivated := dt_deactivated tally @ [due_m]\<rparr>))"

definition deactivation_run :: "deactivation_world \<Rightarrow> sdb \<Rightarrow> sdb \<times> deactivation_tally \<times> (nat + unit)" where
  "deactivation_run w db =
     (let (db1, tally) = deactivate_all w (due_meetings (dw_nominate w) db) db
                           \<lparr>dt_deactivated = [], dt_skipped = 0, dt_failed = 0\<rparr>;
          (db2, joined_only) = delete_joined_only_users db1;
          (db3, abandoned) = delete_abandoned_onboarding_users (dw_now_purge w) db2
      in (db3, tally, if dt_failed tally \<noteq> 0 then Inl (dt_failed tally) else Inr ()))"

section \<open>Reactivation\<close>

datatype reactivation = Already_Active | Cap_Reached | Reactivated

definition restart :: "instant \<Rightarrow> meetup_row \<Rightarrow> meetup_row" where
  "restart clock m = clear_deletion_warning
     (m\<lparr>active := True, activated_time := clock, datetime := None, end_datetime := None,
        lock_on_start := False, expiration_time := None\<rparr>)"

definition reactivate_meeting ::
    "limits_config \<Rightarrow> instant \<Rightarrow> tg_update \<Rightarrow> int \<Rightarrow> sdb \<Rightarrow> guard_error + sdb \<times> reactivation" where
  "reactivate_meeting cfg clock up mid db =
     (case current_user up db of Inl e \<Rightarrow> Inl e
      | Inr user \<Rightarrow>
          (case meeting db (Some user) mid OWNER_ANY_STATE of Inl e \<Rightarrow> Inl e
           | Inr m \<Rightarrow>
               if active m then Inr (db, Already_Active)
               else if at_active_meetings_cap cfg (u_supporter_level user)
                         (map active (filter (\<lambda>r. owner_id r = u_id user) (meetups db))) then Inr (db, Cap_Reached)
               else Inr (db\<lparr>meetups := update_where (\<lambda>r. m_id r = mid) (restart clock) (meetups db)\<rparr>, Reactivated)))"

section \<open>The predicate, resolved\<close>

lemma interval_elapsed_days:
  "interval_elapsed (days n) stamp now \<longleftrightarrow> (\<exists>t. stamp = Some t \<and> t + days n < now)"
  by (cases stamp) (simp_all add: interval_elapsed_def sql_interval_def)

lemma left_owner_lifetime: "LEFT_OWNER_DATELESS_LIFETIME = days 30"
  by (simp add: LEFT_OWNER_DATELESS_LIFETIME_def policy_defs)

lemma due_for_deactivation_iff:
  "due_for_deactivation now m u \<longleftrightarrow> active m \<and>
     (case datetime m of
        None \<Rightarrow> activated_time m + dateless_lifetime (meetup_policy u) < now \<or>
                (status u = LEFT \<and> activated_time m + days 30 < now)
      | Some start \<Rightarrow>
          (case end_datetime m of None \<Rightarrow> start | Some stop \<Rightarrow> stop) + minutes (timeout (u_settings u)) < now)"
  by (auto simp: due_for_deactivation_def dateless_window_elapsed_def left_owner_window_elapsed_def
      past_end_plus_timeout_def statement_window_eq interval_elapsed_days left_owner_lifetime meetup_policy_def
      split: option.split)

lemma window_days_eq:
  "window_days due_m = (case dm_reason due_m of
      DATELESS_WINDOW_ELAPSED \<Rightarrow> Some (if HOST_2 \<le> dm_owner_supporter_level due_m then 365 else 90)
    | LEFT_OWNER_DATELESS_WINDOW_ELAPSED \<Rightarrow> Some 30
    | PAST_END_DATETIME_PLUS_OWNER_TIMEOUT \<Rightarrow> None)"
proof -
  obtain ws where ws: "DATELESS_WINDOWS = Inr ws"
    "\<And>level. map_of ws level = Some (dateless_lifetime (policy_get (Some level)) div days 1)"
    unfolding DATELESS_WINDOWS_def using resolved_windows_lookup [of dateless_lifetime] by auto
  show ?thesis
    by (simp add: window_days_def ws left_owner_lifetime policy_simps split: deactivation_reason.split)
qed

lemma tier_window_days_eq:
  "tier_window_days u = Inr (if HOST_2 \<le> u_supporter_level u then 365 else 90)"
  by (simp add: tier_window_days_def policy_simps)

end
