(* ===== verification/User_Cleanup.thy ===== *)
theory User_Cleanup
  imports Deactivation
begin

text \<open>
  The account cleanup \<^verbatim>\<open>apps/events/mitup_bot/events/user_cleanup.py\<close>: a transaction that demotes accounts whose
  grace period ran out, then one that purges departed accounts silently and accounts that asked for their
  deletion with a farewell. The farewells are queued before the deletes and sent after the commit.
\<close>

section \<open>The three selections\<close>

definition inactive_user :: "sdb \<Rightarrow> user \<Rightarrow> bool" where
  "inactive_user db u \<longleftrightarrow>
     status u = LEFT \<and> tg_user_id u \<noteq> ANONYMOUS_INVITEE_TG_ID \<and> \<not> owns_active_meeting db u \<and> \<not> has_active_link db u"

definition LEFT_STATUS_GRACE_DAYS :: int where "LEFT_STATUS_GRACE_DAYS = 30"

definition demotable_left_user :: "instant \<Rightarrow> sdb \<Rightarrow> user \<Rightarrow> bool" where
  "demotable_left_user now db u \<longleftrightarrow>
     status u = LEFT \<and> interval_elapsed (days LEFT_STATUS_GRACE_DAYS) (left_time u) now \<and>
     \<not> owns_active_meeting db u \<and> has_active_link db u"

definition deletion_requested :: "user \<Rightarrow> bool" where
  "deletion_requested u \<longleftrightarrow> status u = DELETION_REQUESTED"

section \<open>Demotion\<close>

definition demote_stale_left_users :: "instant \<Rightarrow> instant \<Rightarrow> sdb \<Rightarrow> sdb \<times> nat" where
  "demote_stale_left_users now clock db =
     (let us = filter (demotable_left_user now db) (users db) in
      if us = [] then (db, 0)
      else
        let user_ids = map u_id us;
            db1 = delete_meetups_where (\<lambda>m. owner_id m \<in> set user_ids \<and> \<not> active m) db
        in (db1\<lparr>users := update_where (\<lambda>u. u_id u \<in> set user_ids) (set_status clock JOINED_ONLY) (users db1)\<rparr>,
            length us))"

section \<open>Purge\<close>

record cascade =
  meetups_deleted :: nat
  join_links_deleted :: nat

definition log_purge_cascade :: "int list \<Rightarrow> sdb \<Rightarrow> cascade option" where
  "log_purge_cascade user_ids db =
     (if user_ids = [] then None
      else Some \<lparr>meetups_deleted = count_where (\<lambda>m. owner_id m \<in> set user_ids) (meetups db),
                 join_links_deleted = count_where (\<lambda>l. jl_user_id l \<in> set user_ids) (links db)\<rparr>)"

record purge_report =
  inactive_purged :: nat
  deletion_requested_purged :: nat
  pending_links_purged :: nat
  purge_cascade :: "cascade option"
  farewells :: "(int \<times> string) list"

definition purge_users :: "instant \<Rightarrow> sdb \<Rightarrow> sdb \<times> purge_report" where
  "purge_users now db =
     (let inactive_ids = uniq (map u_id (filter (inactive_user db) (users db)));
          marked = filter deletion_requested (users db);
          user_ids = uniq (inactive_ids @ map u_id marked);
          cascade = log_purge_cascade user_ids db;
          (rows, purged) = delete_pending_links_for_users (map tg_user_id marked) (pending db);
          db1 = delete_users_where (\<lambda>u. u_id u \<in> set user_ids) (db\<lparr>pending := rows\<rparr>);
          (rows', swept) = delete_finished_pending_links now (pending db1)
      in (db1\<lparr>pending := rows'\<rparr>,
          \<lparr>inactive_purged = length inactive_ids, deletion_requested_purged = length marked,
           pending_links_purged = purged + swept, purge_cascade = cascade,
           farewells = map (\<lambda>u. (tg_user_id u, language (u_settings u))) marked\<rparr>))"

definition user_cleanup_run :: "instant \<Rightarrow> instant \<Rightarrow> instant \<Rightarrow> sdb \<Rightarrow> sdb \<times> nat \<times> purge_report" where
  "user_cleanup_run now clock now_purge db =
     (let (db1, demoted) = demote_stale_left_users now clock db;
          (db2, report) = purge_users now_purge db1
      in (db2, demoted, report))"

section \<open>What a purge keeps\<close>

lemma purge_users_tables:
  "fst (purge_users now db) =
     (delete_users_where (\<lambda>u. inactive_user db u \<or> deletion_requested u) db)
       \<lparr>pending := fst (delete_finished_pending_links now
          (fst (delete_pending_links_for_users (map tg_user_id (filter deletion_requested (users db))) (pending db))))\<rparr>"
  if "distinct (map u_id (users db))"
proof -
  have same: "delete_users_where P db = delete_users_where Q db" if "\<forall>u \<in> set (users db). P u = Q u" for P Q
  proof -
    from that have "delete_where P (users db) = delete_where Q (users db)"
      "\<And>i. (\<exists>u \<in> set (users db). u_id u = i \<and> P u) = (\<exists>u \<in> set (users db). u_id u = i \<and> Q u)"
      by (auto simp: delete_where_def cong: filter_cong)
    then show ?thesis by (simp add: delete_users_where_def Let_def)
  qed
  have "\<forall>u \<in> set (users db). (u_id u \<in> u_id ` {u \<in> set (users db). inactive_user db u} \<or>
      u_id u \<in> u_id ` {u \<in> set (users db). deletion_requested u}) = (inactive_user db u \<or> deletion_requested u)"
    using distinct_key_unique [OF that] by blast
  note * = same [OF this]
  have "delete_users_where P (db\<lparr>pending := rows\<rparr>) = (delete_users_where P db)\<lparr>pending := rows\<rparr>" for P rows
    by (simp add: delete_users_where_def delete_meetups_where_def Let_def)
  with * show ?thesis by (simp add: purge_users_def Let_def split: prod.split)
qed

end
