(* ===== verification/Owner_Deletes.thy ===== *)
theory Owner_Deletes
  imports Guards
begin

text \<open>
  The three ways an owner deletes meetings by hand: \<^verbatim>\<open>handlers/meeting/delete_meeting.py\<close> (one meeting and the
  people invited into it), \<^verbatim>\<open>handlers/meeting/show_past_meeting.py\<close> (one meeting) and
  \<^verbatim>\<open>handlers/main_menu/show_past_meetings.py\<close> (every inactive one), all under \<^verbatim>\<open>apps/bot/mitup_bot\<close>.

  \<open>session.delete(meeting)\<close> deletes through the ORM, unlike the DELETE statements of \<^verbatim>\<open>deletion.py\<close>: the
  relation to the join links is declared with \<open>cascade_delete\<close>, the one to the cards is not, so SQLAlchemy
  sets the cards' foreign key to NULL before it deletes the meeting.
\<close>

definition orm_delete_meeting :: "int \<Rightarrow> sdb \<Rightarrow> sdb" where
  "orm_delete_meeting mid db =
     db\<lparr>meetups := delete_where (\<lambda>m. m_id m = mid) (meetups db),
        links := delete_where (\<lambda>l. jl_meetup_id l = mid) (links db),
        cards := update_where (\<lambda>c. card_meetup_id c = Some mid) (\<lambda>c. c\<lparr>card_meetup_id := None\<rparr>) (cards db)\<rparr>"

definition confirm_delete_meeting :: "tg_update \<Rightarrow> int \<Rightarrow> sdb \<Rightarrow> guard_error + sdb" where
  "confirm_delete_meeting up mid db =
     (case current_user up db of Inl e \<Rightarrow> Inl e
      | Inr user \<Rightarrow>
          (case meeting db (Some user) mid OWNER_ANY_STATE of Inl e \<Rightarrow> Inl e
           | Inr m \<Rightarrow>
               let invited = map jl_user_id (filter (\<lambda>l. is_invitee db (jl_user_id l)) (links_of db mid))
               in Inr (orm_delete_meeting mid (delete_users_where (\<lambda>u. u_id u \<in> set invited) db))))"

definition confirm_delete_past_meeting :: "tg_update \<Rightarrow> int \<Rightarrow> sdb \<Rightarrow> guard_error + sdb" where
  "confirm_delete_past_meeting up mid db =
     (case current_user up db of Inl e \<Rightarrow> Inl e
      | Inr user \<Rightarrow>
          (case meeting db (Some user) mid OWNER_ANY_STATE of Inl e \<Rightarrow> Inl e
           | Inr m \<Rightarrow> Inr (orm_delete_meeting mid db)))"

text \<open>\<open>past_meetings_of\<close> sorts by the deletion date, meetings without one last, then by id.\<close>

definition past_key :: "user \<Rightarrow> meetup_row \<Rightarrow> (bool \<times> instant) \<times> int" where
  "past_key user m =
     ((case deletion_due_time user m of None \<Rightarrow> (True, 0) | Some t \<Rightarrow> (False, t)), m_id m)"

definition past_meetings_of :: "sdb \<Rightarrow> user \<Rightarrow> meetup_row list" where
  "past_meetings_of db user =
     sort_key (past_key user) (filter (\<lambda>m. owner_id m = u_id user \<and> \<not> active m) (meetups db))"

definition confirm_delete_all_past_meetings :: "tg_update \<Rightarrow> sdb \<Rightarrow> guard_error + sdb" where
  "confirm_delete_all_past_meetings up db =
     (case current_user up db of Inl e \<Rightarrow> Inl e
      | Inr user \<Rightarrow> Inr (fst (purge_meetups (map m_id (past_meetings_of db user)) db)))"

section \<open>References\<close>

lemma orm_delete_meeting_ok: "tables_ok db \<Longrightarrow> tables_ok (orm_delete_meeting mid db)"
proof -
  assume ok: "tables_ok db"
  have cards: "c \<in> set (cards (orm_delete_meeting mid db)) \<Longrightarrow> card_meetup_id c = Some i \<Longrightarrow>
      i \<noteq> mid \<and> i \<in> m_id ` set (meetups db)" for c i
    using ok by (auto simp: orm_delete_meeting_def update_where_def tables_ok_def refs_ok_def split: if_splits)
  have keys: "keys_ok (orm_delete_meeting mid db)"
    using ok by (auto simp: keys_ok_def tables_ok_def orm_delete_meeting_def delete_where_def distinct_map_filter)
  have fields: "users (orm_delete_meeting mid db) = users db"
    "set (meetups (orm_delete_meeting mid db)) = {m \<in> set (meetups db). m_id m \<noteq> mid}"
    "set (links (orm_delete_meeting mid db)) = {l \<in> set (links db). jl_meetup_id l \<noteq> mid}"
    by (auto simp: orm_delete_meeting_def)
  have kept: "i \<in> m_id ` {m \<in> set (meetups db). m_id m \<noteq> mid}" if "i \<noteq> mid" "i \<in> m_id ` set (meetups db)" for i
    using that by blast
  have "refs_ok (orm_delete_meeting mid db)"
    unfolding refs_ok_def fields
  proof (intro conjI ballI allI impI)
    show "i \<in> m_id ` {m \<in> set (meetups db). m_id m \<noteq> mid}"
      if "c \<in> set (cards (orm_delete_meeting mid db))" "card_meetup_id c = Some i" for c i
      using cards [OF that] by (intro kept) simp_all
  qed (use ok kept in \<open>auto simp: tables_ok_def refs_ok_def\<close>)
  with keys show "tables_ok (orm_delete_meeting mid db)" by (simp add: tables_ok_def)
qed

end
