(* ===== verification/Meeting_Life.thy ===== *)
theory Meeting_Life
  imports Deletion_Props User_Cleanup Owner_Deletes
begin

text \<open>
  The life of a meeting across every job that ends one. An event is one transaction: a chunk of the warning or
  of the deletion sweep, one deactivation, a purge of accounts, an owner's reactivation or deletion. \<open>Other\<close> is
  any transaction of the rest of the program: it may change what it likes except the columns the jobs decide on
  (\<open>keeps_life\<close>), and it creates meetings active and without stamps.
\<close>

datatype life_event =
    Warn instant instant "int \<Rightarrow> notice" "int list"
  | Delete instant instant "int \<Rightarrow> notice" "int list"
  | Deactivate instant instant due_meeting
  | Purge_Joined_Only
  | Purge_Onboarding instant
  | Demote instant instant
  | Cleanup instant
  | Reactivate limits_config instant tg_update int
  | Owner_Deletes tg_update int
  | Owner_Deletes_Past tg_update int
  | Owner_Clears_Past tg_update
  | Other

definition life_inv :: "sdb \<Rightarrow> bool" where
  "life_inv db \<longleftrightarrow> tables_ok db \<and> invitees_own_nothing db"

definition unstamped :: "meetup_row \<Rightarrow> bool" where
  "unstamped m \<longleftrightarrow> expiration_time m = None \<and> \<not> expiration_notification_sent m \<and> warned_time m = None"

definition same_life :: "meetup_row \<Rightarrow> meetup_row \<Rightarrow> bool" where
  "same_life m m' \<longleftrightarrow> m_id m' = m_id m \<and> owner_id m' = owner_id m \<and> active m' = active m \<and>
     expiration_time m' = expiration_time m \<and> expiration_notification_sent m' = expiration_notification_sent m \<and>
     warned_time m' = warned_time m"

definition keeps_life :: "sdb \<Rightarrow> sdb \<Rightarrow> bool" where
  "keeps_life db db' \<longleftrightarrow> life_inv db' \<and>
     (\<forall>m \<in> set (meetups db). \<exists>m' \<in> set (meetups db'). same_life m m') \<and>
     (\<forall>m' \<in> set (meetups db'). (\<exists>m \<in> set (meetups db). same_life m m') \<or>
        (m_id m' \<notin> m_id ` set (meetups db) \<and> active m' \<and> unstamped m'))"

inductive life_step :: "sdb \<Rightarrow> life_event \<Rightarrow> sdb \<Rightarrow> bool" where
  warn: "warn_owner_chunk now clock send ids db = (db', out, lines) \<Longrightarrow> life_step db (Warn now clock send ids) db'"
| delete: "delete_owner_chunk now clock send ids db = (db', out, lines) \<Longrightarrow> life_step db (Delete now clock send ids) db'"
| deactivate: "deactivate_meeting_locked now clock d db = Some (db', r, edits) \<Longrightarrow>
    life_step db (Deactivate now clock d) db'"
| joined_only: "life_step db Purge_Joined_Only (fst (delete_joined_only_users db))"
| onboarding: "life_step db (Purge_Onboarding now) (fst (delete_abandoned_onboarding_users now db))"
| demote: "life_step db (Demote now clock) (fst (demote_stale_left_users now clock db))"
| cleanup: "life_step db (Cleanup now) (fst (purge_users now db))"
| reactivate: "reactivate_meeting cfg clock up mid db = Inr (db', r) \<Longrightarrow> life_step db (Reactivate cfg clock up mid) db'"
| owner_deletes: "confirm_delete_meeting up mid db = Inr db' \<Longrightarrow> life_step db (Owner_Deletes up mid) db'"
| owner_deletes_past: "confirm_delete_past_meeting up mid db = Inr db' \<Longrightarrow> life_step db (Owner_Deletes_Past up mid) db'"
| owner_clears_past: "confirm_delete_all_past_meetings up db = Inr db' \<Longrightarrow> life_step db (Owner_Clears_Past up) db'"
| other: "keeps_life db db' \<Longrightarrow> life_step db Other db'"

inductive_cases life_stepE: "life_step db e db'"

section \<open>The invariant\<close>

lemma own_nothing_subset:
  assumes "invitees_own_nothing db" "owner_id ` set (meetups db') \<subseteq> owner_id ` set (meetups db)"
    and "\<And>i. is_invitee db' i \<Longrightarrow> is_invitee db i"
  shows "invitees_own_nothing db'"
  unfolding invitees_own_nothing_def
proof (intro ballI notI)
  fix m assume m: "m \<in> set (meetups db')" "is_invitee db' (owner_id m)"
  then have "is_invitee db (owner_id m)" by (intro assms(3))
  moreover from m(1) assms(2) obtain m0 where "m0 \<in> set (meetups db)" "owner_id m0 = owner_id m" by fastforce
  ultimately show False using assms(1) unfolding invitees_own_nothing_def by metis
qed

lemma life_inv_less:
  assumes "life_inv db" "tables_ok db'" "set (meetups db') \<subseteq> set (meetups db)" "set (users db') \<subseteq> set (users db)"
  shows "life_inv db'"
proof -
  have "is_invitee db i" if "is_invitee db' i" for i using that assms(4) unfolding is_invitee_def by blast
  then have "invitees_own_nothing db'"
    using assms(1,3) by (intro own_nothing_subset [of db db']) (auto simp: life_inv_def)
  with assms(2) show ?thesis by (simp add: life_inv_def)
qed

lemma life_inv_tables: "life_inv db \<Longrightarrow> tables_ok db"
  by (simp add: life_inv_def)

lemma users_delete_users: "users (delete_users_where P db) = delete_where P (users db)"
  by (simp add: delete_users_where_def delete_meetups_where_def Let_def)

lemma life_inv_delete_users: "life_inv db \<Longrightarrow> life_inv (delete_users_where P db)"
  by (rule life_inv_less [OF _ delete_users_ok [OF life_inv_tables]])
    (auto simp: set_delete_users_meetups users_delete_users)

lemma life_inv_delete_meetups: "life_inv db \<Longrightarrow> life_inv (delete_meetups_where P db)"
  by (rule life_inv_less [OF _ delete_meetups_ok [OF life_inv_tables]])
    (auto simp: delete_meetups_where_def Let_def)

lemma life_inv_purge_meetups: "life_inv db \<Longrightarrow> life_inv (fst (purge_meetups mids db))"
  by (simp add: purge_meetups_def Let_def life_inv_delete_users life_inv_delete_meetups)

lemma life_inv_orm_delete: "life_inv db \<Longrightarrow> life_inv (orm_delete_meeting mid db)"
  by (rule life_inv_less [OF _ orm_delete_meeting_ok [OF life_inv_tables]])
    (auto simp: orm_delete_meeting_def)

text \<open>Writes that leave keys and references alone.\<close>

lemma life_inv_update:
  assumes "life_inv db"
    and "map (\<lambda>u. (u_id u, tg_user_id u)) us = map (\<lambda>u. (u_id u, tg_user_id u)) (users db)"
    and "map (\<lambda>m. (m_id m, owner_id m)) ms = map (\<lambda>m. (m_id m, owner_id m)) (meetups db)"
  shows "life_inv (db\<lparr>users := us, meetups := ms\<rparr>)"
proof -
  have ids: "map u_id us = map u_id (users db)" using arg_cong [OF assms(2), of "map fst"] by (simp add: comp_def)
  have "tables_ok (db\<lparr>users := us, meetups := ms, links := links db\<rparr>)"
    using assms ids by (intro update_tables_ok) (simp_all add: life_inv_def)
  then have ok: "tables_ok (db\<lparr>users := us, meetups := ms\<rparr>)" by simp
  have own: "owner_id ` set ms = owner_id ` set (meetups db)"
    using arg_cong [OF assms(3), of "\<lambda>xs. snd ` set xs"] by (simp add: image_image)
  have pairs: "(\<lambda>u. (u_id u, tg_user_id u)) ` set us = (\<lambda>u. (u_id u, tg_user_id u)) ` set (users db)"
    using arg_cong [OF assms(2), of set] by simp
  have inv: "is_invitee db i" if inv: "is_invitee (db\<lparr>users := us, meetups := ms\<rparr>) i" for i
  proof -
    from inv have "(i, ANONYMOUS_INVITEE_TG_ID) \<in> (\<lambda>u. (u_id u, tg_user_id u)) ` set us" by (force simp: is_invitee_def)
    then show ?thesis unfolding pairs by (force simp: is_invitee_def)
  qed
  have "invitees_own_nothing db" using assms(1) by (simp add: life_inv_def)
  then have "invitees_own_nothing (db\<lparr>users := us, meetups := ms\<rparr>)"
    by (rule own_nothing_subset) (simp add: own, rule inv)
  with ok show ?thesis by (simp add: life_inv_def)
qed

lemma life_inv_pending: "life_inv db \<Longrightarrow> life_inv (db\<lparr>pending := p\<rparr>)"
  by (simp add: life_inv_def tables_ok_def keys_ok_def refs_ok_def invitees_own_nothing_def is_invitee_def)

section \<open>What one event does to a meeting\<close>

definition evolves :: "sdb \<Rightarrow> life_event \<Rightarrow> meetup_row \<Rightarrow> meetup_row \<Rightarrow> bool" where
  "evolves db e m m' \<longleftrightarrow> m' = m \<or>
     (case e of
        Warn now clock send ids \<Rightarrow>
          settles (about_to_be_deleted now) deletion_warning send ids db m \<and> m' = record_deletion_warning clock m
      | Deactivate now clock d \<Rightarrow>
          dm_meeting_id d = m_id m \<and> (\<exists>u \<in> set (users db). u_id u = owner_id m \<and> due_for_deactivation now m u) \<and>
          m' = m\<lparr>active := False, expiration_time := Some clock\<rparr>
      | Reactivate cfg clock up mid \<Rightarrow> \<not> active m \<and> mid = m_id m \<and> m' = restart clock m
      | Other \<Rightarrow> same_life m m'
      | _ \<Rightarrow> False)"

definition removes_for :: "life_event \<Rightarrow> sdb \<Rightarrow> user \<Rightarrow> meetup_row \<Rightarrow> bool" where
  "removes_for e db u m \<longleftrightarrow>
     (case e of
        Delete now clock send ids \<Rightarrow> to_delete now m u \<and> u_id u \<in> set ids \<and> (deletion_notice (u_settings u) \<longrightarrow> send (u_id u) \<noteq> Raised)
      | Demote now clock \<Rightarrow> demotable_left_user now db u \<and> \<not> active m
      | Cleanup now \<Rightarrow> deletion_requested u \<or> (status u = LEFT \<and> \<not> active m)
      | Owner_Deletes up mid \<Rightarrow> mid = m_id m \<and> effective_user up = Some (tg_user_id u)
      | Owner_Deletes_Past up mid \<Rightarrow> mid = m_id m \<and> effective_user up = Some (tg_user_id u)
      | Owner_Clears_Past up \<Rightarrow> \<not> active m \<and> effective_user up = Some (tg_user_id u)
      | _ \<Rightarrow> False)"

definition lost_cause :: "life_event \<Rightarrow> sdb \<Rightarrow> meetup_row \<Rightarrow> bool" where
  "lost_cause e db m \<longleftrightarrow> (\<exists>u \<in> set (users db). u_id u = owner_id m \<and> removes_for e db u m)"

text \<open>The contract of one event: rows evolve or are born, and a row that goes has a cause.\<close>

definition step_rows :: "sdb \<Rightarrow> life_event \<Rightarrow> sdb \<Rightarrow> bool" where
  "step_rows db e db' \<longleftrightarrow>
     (\<forall>m' \<in> set (meetups db'). (\<exists>m \<in> set (meetups db). evolves db e m m') \<or>
        (e = Other \<and> m_id m' \<notin> m_id ` set (meetups db) \<and> active m' \<and> unstamped m')) \<and>
     (\<forall>m \<in> set (meetups db). (\<exists>m' \<in> set (meetups db'). m_id m' = m_id m) \<or> lost_cause e db m)"

lemma same_life_refl [simp]: "same_life m m"
  by (simp add: same_life_def)

lemma evolves_refl [simp]: "evolves db e m m"
  by (simp add: evolves_def)

text \<open>An event that only removes rows, each for a cause.\<close>

lemma step_rows_less:
  assumes "set (meetups db') = {m \<in> set (meetups db). \<not> P m}" "\<And>m. m \<in> set (meetups db) \<Longrightarrow> P m \<Longrightarrow> lost_cause e db m"
  shows "step_rows db e db'"
  unfolding step_rows_def using assms evolves_refl by blast

text \<open>An event that rewrites rows in place.\<close>

lemma step_rows_map:
  assumes "set (meetups db') = f ` set (meetups db)" "\<And>m. m \<in> set (meetups db) \<Longrightarrow> evolves db e m (f m)"
    and "\<And>m. m_id (f m) = m_id m"
  shows "step_rows db e db'"
  unfolding step_rows_def assms(1) using assms(2,3) by blast

lemma stays_without_users:
  assumes "life_inv db" "\<And>u. u \<in> set (users db) \<Longrightarrow> P u \<Longrightarrow> is_invitee db (u_id u)"
  shows "set (meetups (delete_users_where P db)) = set (meetups db)"
proof -
  have "\<not> (\<exists>u \<in> set (users db). u_id u = owner_id m \<and> P u)" if "m \<in> set (meetups db)" for m
    using assms that unfolding life_inv_def invitees_own_nothing_def by metis
  then show ?thesis by (auto simp: set_delete_users_meetups)
qed

lemma step_warn:
  assumes "life_inv db" "warn_owner_chunk now clock send ids db = (db', out, lines)"
  shows "life_inv db' \<and> step_rows db (Warn now clock send ids) db'"
proof -
  have keys: "distinct (map m_id (meetups db))" using assms(1) by (simp add: life_inv_def tables_ok_def keys_ok_def)
  let ?f = "\<lambda>m. if settles (about_to_be_deleted now) deletion_warning send ids db m
      then record_deletion_warning clock m else m"
  note w = warn_chunk_meetups [OF keys assms(2)]
  obtain ids' where us: "users db' = users (mark_unreachable clock ids' db)" using w(6) by blast
  have f: "m_id (?f m) = m_id m" "owner_id (?f m) = owner_id m" for m by (simp_all add: record_deletion_warning_def)
  have "db' = db\<lparr>users := users db', meetups := meetups db'\<rparr>" using w(2-4) by simp
  moreover have "life_inv (db\<lparr>users := users db', meetups := meetups db'\<rparr>)"
    using f by (intro life_inv_update [OF assms(1)]) (simp_all add: us w(1) comp_def mark_unreachable_def map_update_where)
  ultimately have "life_inv db'" by simp
  moreover have "step_rows db (Warn now clock send ids) db'"
    using f(1) by (intro step_rows_map [where f = ?f]) (auto simp: w(1) evolves_def)
  ultimately show ?thesis by blast
qed

lemma step_delete:
  assumes "life_inv db" "delete_owner_chunk now clock send ids db = (db', out, lines)"
  shows "life_inv db' \<and> step_rows db (Delete now clock send ids) db'"
proof -
  have own: "tables_ok db" "invitees_own_nothing db" using assms(1) by (simp_all add: life_inv_def)
  note d = delete_owner_chunk_effect [OF own assms(2)]
  have rows: "step_rows db (Delete now clock send ids) db'"
    by (rule step_rows_less [OF d(1)]) (auto simp: lost_cause_def removes_for_def settles_def)
  obtain gone ids' where us: "users db' = delete_where (\<lambda>u. u_id u \<in> gone) (users (mark_unreachable clock ids' db))"
    using d(2) by blast
  have "is_invitee db i" if "is_invitee db' i" for i
  proof -
    from that us have "is_invitee (mark_unreachable clock ids' db) i"
      unfolding is_invitee_def set_delete_where us by blast
    then show ?thesis by simp
  qed
  then have "invitees_own_nothing db'"
    by (intro own_nothing_subset [OF own(2)]) (auto simp: d(1))
  with d(4) rows show ?thesis by (simp add: life_inv_def)
qed

lemma row_unique: "life_inv db \<Longrightarrow> m \<in> set (meetups db) \<Longrightarrow> r \<in> set (meetups db) \<Longrightarrow> m_id r = m_id m \<Longrightarrow> r = m"
  using distinct_key_unique [of m_id "meetups db" r m] by (simp add: life_inv_def tables_ok_def keys_ok_def)

lemma clear_meeting_data_life:
  assumes inv: "life_inv db"
  shows "life_inv (fst (clear_meeting_data mid db))" and
    "set (meetups (fst (clear_meeting_data mid db))) = set (meetups db)"
proof -
  let ?invited = "map jl_user_id (filter (\<lambda>l. is_invitee db (jl_user_id l)) (links_of db mid))"
  let ?db1 = "if ?invited \<noteq> [] then delete_users_where (\<lambda>u. u_id u \<in> set ?invited) db else db"
  have db: "fst (clear_meeting_data mid db) = ?db1\<lparr>links := delete_where (\<lambda>l. jl_meetup_id l = mid) (links ?db1),
      cards := delete_where (\<lambda>c. card_meetup_id c = Some mid) (cards ?db1)\<rparr>"
    by (simp add: clear_meeting_data_def Let_def)
  have inv1: "life_inv ?db1" using inv by (simp add: life_inv_delete_users)
  have "tables_ok (db\<lparr>links := delete_where P (links db), cards := delete_where Q (cards db)\<rparr>)"
    if "tables_ok db" for db P Q
    using that by (auto simp: tables_ok_def keys_ok_def refs_ok_def intro: distinct_delete_where)
  then have "tables_ok (fst (clear_meeting_data mid db))" unfolding db using inv1 by (simp only: life_inv_tables)
  then show "life_inv (fst (clear_meeting_data mid db))"
    by (rule life_inv_less [OF inv1]) (simp_all add: db)
  have "is_invitee db (u_id u)" if "u_id u \<in> set ?invited" for u using that by auto
  then have "set (meetups (delete_users_where (\<lambda>u. u_id u \<in> set ?invited) db)) = set (meetups db)"
    by (intro stays_without_users [OF inv])
  then have "set (meetups ?db1) = set (meetups db)" by simp
  then show "set (meetups (fst (clear_meeting_data mid db))) = set (meetups db)" unfolding db by simp
qed

lemma some_pair: "ps \<noteq> [] \<Longrightarrow> \<exists>a b. (a, b) \<in> set ps"
  by (cases ps) auto

lemma step_deactivate:
  assumes inv: "life_inv db" and run: "deactivate_meeting_locked now clock d db = Some (db', r, edits)"
  shows "life_inv db' \<and> step_rows db (Deactivate now clock d) db'"
proof (cases "db' = db")
  case True
  with inv show ?thesis by (auto simp: step_rows_def intro: evolves_refl)
next
  case False
  with run obtain m owner where m: "by_id db True (dm_meeting_id d) = Some m"
    and due: "select_owned (\<lambda>m u. due_for_deactivation now m u \<and> m_id m = dm_meeting_id d) db \<noteq> []"
    and db': "db' = fst (clear_meeting_data (m_id m) (db\<lparr>meetups := update_where (\<lambda>r. m_id r = m_id m)
      (\<lambda>r. r\<lparr>active := False, expiration_time := Some clock\<rparr>) (meetups db)\<rparr>))"
    by (auto simp: deactivate_meeting_locked_def Let_def split: option.splits if_splits prod.splits)
  let ?f = "\<lambda>r. if m_id r = m_id m then r\<lparr>active := False, expiration_time := Some clock\<rparr> else r"
  let ?db1 = "db\<lparr>meetups := map ?f (meetups db)\<rparr>"
  have db': "db' = fst (clear_meeting_data (m_id m) ?db1)" using db' by (simp add: update_where_def)
  have inv1: "life_inv ?db1"
    using life_inv_update [OF inv, of "users db" "map ?f (meetups db)"] by (simp add: comp_def if_distrib cong: if_cong)
  note mm = by_id_Some [OF m]
  obtain m0 u where sel: "(m0, u) \<in> set (select_owned (\<lambda>m u. due_for_deactivation now m u \<and> m_id m = dm_meeting_id d) db)"
    using some_pair [OF due] by blast
  then have m0: "m0 \<in> set (meetups db)" "m_id m0 = dm_meeting_id d" "active m0"
    unfolding select_owned_mem by (simp_all add: due_for_deactivation_def)
  have "m0 = m" using row_unique [OF inv _ m0(1)] mm m0(2) by simp
  with sel have u: "u \<in> set (users db)" "u_id u = owner_id m" "due_for_deactivation now m u"
    unfolding select_owned_mem by simp_all
  have ev: "evolves db (Deactivate now clock d) r (?f r)" if "r \<in> set (meetups db)" for r
    using row_unique [OF inv _ that, of m] mm u by (auto simp: evolves_def)
  have "step_rows db (Deactivate now clock d) db'"
    using clear_meeting_data_life(2) [OF inv1] by (intro step_rows_map [where f = ?f] ev) (simp_all add: db')
  moreover have "life_inv db'" unfolding db' by (rule clear_meeting_data_life(1) [OF inv1])
  ultimately show ?thesis by blast
qed

lemma step_delete_users:
  assumes inv: "life_inv db" and "\<And>u m. u \<in> set (users db) \<Longrightarrow> P u \<Longrightarrow> m \<in> set (meetups db) \<Longrightarrow>
    owner_id m = u_id u \<Longrightarrow> lost_cause e db m"
  shows "life_inv (delete_users_where P db) \<and> step_rows db e (delete_users_where P db)"
proof -
  have "step_rows db e (delete_users_where P db)"
    by (rule step_rows_less [OF set_delete_users_meetups]) (metis assms(2))
  with inv show ?thesis by (simp add: life_inv_delete_users)
qed

lemma step_nothing: "life_inv db \<Longrightarrow> life_inv db \<and> step_rows db e db"
  by (auto simp: step_rows_def intro: evolves_refl)

text \<open>Accounts that own no meeting take none with them.\<close>

lemma step_still_in_status:
  assumes inv: "life_inv db" and none: "\<And>u. P u \<Longrightarrow> \<not> owns_meeting db u"
  shows "life_inv (fst (delete_users_still_in_status (map u_id (filter P (users db))) st db)) \<and>
    step_rows db e (fst (delete_users_still_in_status (map u_id (filter P (users db))) st db))"
proof -
  let ?ids = "map u_id (filter P (users db))"
  have "lost_cause e db m" if m: "u \<in> set (users db)" "u_id u \<in> set ?ids \<and> status u = st" "m \<in> set (meetups db)"
    "owner_id m = u_id u" for u m
  proof -
    from m(2) obtain v where v: "P v" "u_id v = u_id u" by auto
    with none [OF v(1)] m(3,4) show ?thesis by (auto simp: owns_meeting_def)
  qed
  then have "life_inv (delete_users_where (\<lambda>u. u_id u \<in> set ?ids \<and> status u = st) db) \<and>
    step_rows db e (delete_users_where (\<lambda>u. u_id u \<in> set ?ids \<and> status u = st) db)"
    by (intro step_delete_users [OF inv])
  with step_nothing [OF inv] show ?thesis
    by (cases "?ids = []") (simp_all only: delete_users_still_in_status_def if_True if_False fst_conv simp_thms)
qed

lemma step_demote:
  assumes inv: "life_inv db"
  shows "life_inv (fst (demote_stale_left_users now clock db)) \<and>
    step_rows db (Demote now clock) (fst (demote_stale_left_users now clock db))"
proof (cases "filter (demotable_left_user now db) (users db) = []")
  case True
  then show ?thesis using step_nothing [OF inv] by (simp add: demote_stale_left_users_def)
next
  case False
  let ?ids = "map u_id (filter (demotable_left_user now db) (users db))"
  let ?gone = "\<lambda>m. owner_id m \<in> set ?ids \<and> \<not> active m"
  let ?db1 = "delete_meetups_where ?gone db"
  let ?us = "update_where (\<lambda>u. u_id u \<in> set ?ids) (set_status clock JOINED_ONLY) (users ?db1)"
  have db': "fst (demote_stale_left_users now clock db) = ?db1\<lparr>users := ?us, meetups := meetups ?db1\<rparr>"
    using False by (simp add: demote_stale_left_users_def Let_def)
  have "life_inv (?db1\<lparr>users := ?us, meetups := meetups ?db1\<rparr>)"
    using life_inv_delete_meetups [OF inv] by (rule life_inv_update) (simp_all add: map_update_where)
  moreover have "step_rows db (Demote now clock) (?db1\<lparr>users := ?us, meetups := meetups ?db1\<rparr>)"
  proof (rule step_rows_less [where P = ?gone])
    show "set (meetups (?db1\<lparr>users := ?us, meetups := meetups ?db1\<rparr>)) = {m \<in> set (meetups db). \<not> ?gone m}"
      by (simp add: delete_meetups_where_def Let_def)
    show "lost_cause (Demote now clock) db m" if "?gone m" for m
      using that by (auto simp: lost_cause_def removes_for_def)
  qed
  ultimately show ?thesis unfolding db' by blast
qed

lemma step_cleanup:
  assumes inv: "life_inv db"
  shows "life_inv (fst (purge_users now db)) \<and> step_rows db (Cleanup now) (fst (purge_users now db))"
proof -
  have keys: "distinct (map u_id (users db))" using inv by (simp add: life_inv_def tables_ok_def keys_ok_def)
  have cause: "lost_cause (Cleanup now) db m"
    if "u \<in> set (users db)" "inactive_user db u \<or> deletion_requested u" "m \<in> set (meetups db)" "owner_id m = u_id u" for u m
    using that by (auto simp: lost_cause_def removes_for_def inactive_user_def owns_active_meeting_def)
  have "step_rows db e (db'\<lparr>pending := p\<rparr>) = step_rows db e db'" for e db' p by (simp add: step_rows_def)
  then show ?thesis
    using step_delete_users [OF inv cause] unfolding purge_users_tables [OF keys] by (simp add: life_inv_pending)
qed

lemma current_user_Inr:
  "current_user up db = Inr u \<Longrightarrow> u \<in> set (users db) \<and> effective_user up = Some (tg_user_id u)"
  by (auto simp: current_user_def user_by_tg_def dest!: first_where_Some split: option.splits if_splits)

lemma owner_any_state_Inr:
  "meeting db (Some u) mid OWNER_ANY_STATE = Inr m \<Longrightarrow> m \<in> set (meetups db) \<and> m_id m = mid \<and> owner_id m = u_id u"
  by (auto simp: meeting_def owned_def is_owned_by_def dest: by_id_Some split: option.splits if_splits)

lemma step_reactivate:
  assumes inv: "life_inv db" and run: "reactivate_meeting cfg clock up mid db = Inr (db', r)"
  shows "life_inv db' \<and> step_rows db (Reactivate cfg clock up mid) db'"
proof (cases "db' = db")
  case True
  with step_nothing [OF inv] show ?thesis by simp
next
  case False
  with run obtain u m where m: "meeting db (Some u) mid OWNER_ANY_STATE = Inr m" "\<not> active m"
    and db': "db' = db\<lparr>meetups := update_where (\<lambda>r. m_id r = mid) (restart clock) (meetups db)\<rparr>"
    by (auto simp: reactivate_meeting_def split: sum.splits if_splits)
  let ?f = "\<lambda>r. if m_id r = mid then restart clock r else r"
  have f: "m_id (?f r) = m_id r" "owner_id (?f r) = owner_id r" for r
    by (simp_all add: restart_def clear_deletion_warning_def)
  have db': "db' = db\<lparr>meetups := map ?f (meetups db)\<rparr>" using db' by (simp add: update_where_def)
  have ev: "evolves db (Reactivate cfg clock up mid) r (?f r)" if "r \<in> set (meetups db)" for r
    using row_unique [OF inv _ that, of m] owner_any_state_Inr [OF m(1)] m(2) by (auto simp: evolves_def)
  have "life_inv db'" using life_inv_update [OF inv, of "users db" "map ?f (meetups db)"] f by (simp add: db' comp_def)
  moreover have "step_rows db (Reactivate cfg clock up mid) db'"
    using f(1) by (intro step_rows_map [where f = ?f] ev) (simp_all add: db')
  ultimately show ?thesis by blast
qed

lemma step_owner_deletes:
  assumes inv: "life_inv db" and run: "confirm_delete_meeting up mid db = Inr db'"
  shows "life_inv db' \<and> step_rows db (Owner_Deletes up mid) db'"
proof -
  let ?invited = "map jl_user_id (filter (\<lambda>l. is_invitee db (jl_user_id l)) (links_of db mid))"
  let ?db1 = "delete_users_where (\<lambda>u. u_id u \<in> set ?invited) db"
  from run obtain u m where u: "current_user up db = Inr u" and m: "meeting db (Some u) mid OWNER_ANY_STATE = Inr m"
    and db': "db' = orm_delete_meeting mid ?db1"
    by (auto simp: confirm_delete_meeting_def Let_def split: sum.splits)
  have "is_invitee db (u_id u)" if "u_id u \<in> set ?invited" for u using that by auto
  then have same: "set (meetups ?db1) = set (meetups db)" by (intro stays_without_users [OF inv])
  have "lost_cause (Owner_Deletes up mid) db r" if "r \<in> set (meetups db)" "m_id r = mid" for r
    using row_unique [OF inv _ that(1), of m] owner_any_state_Inr [OF m] that current_user_Inr [OF u]
    by (auto simp: lost_cause_def removes_for_def)
  then have "step_rows db (Owner_Deletes up mid) db'"
    using same by (intro step_rows_less [where P = "\<lambda>r. m_id r = mid"]) (simp_all add: db' orm_delete_meeting_def)
  with inv show ?thesis by (simp add: db' life_inv_orm_delete life_inv_delete_users)
qed

lemma step_owner_deletes_past:
  assumes inv: "life_inv db" and run: "confirm_delete_past_meeting up mid db = Inr db'"
  shows "life_inv db' \<and> step_rows db (Owner_Deletes_Past up mid) db'"
proof -
  from run obtain u m where u: "current_user up db = Inr u" and m: "meeting db (Some u) mid OWNER_ANY_STATE = Inr m"
    and db': "db' = orm_delete_meeting mid db"
    by (auto simp: confirm_delete_past_meeting_def split: sum.splits)
  have "lost_cause (Owner_Deletes_Past up mid) db r" if "r \<in> set (meetups db)" "m_id r = mid" for r
    using row_unique [OF inv _ that(1), of m] owner_any_state_Inr [OF m] that current_user_Inr [OF u]
    by (auto simp: lost_cause_def removes_for_def)
  then have "step_rows db (Owner_Deletes_Past up mid) db'"
    by (intro step_rows_less [where P = "\<lambda>r. m_id r = mid"]) (simp_all add: db' orm_delete_meeting_def)
  with inv show ?thesis by (simp add: db' life_inv_orm_delete)
qed

lemma step_owner_clears_past:
  assumes inv: "life_inv db" and run: "confirm_delete_all_past_meetings up db = Inr db'"
  shows "life_inv db' \<and> step_rows db (Owner_Clears_Past up) db'"
proof -
  from run obtain u where u: "current_user up db = Inr u"
    and db': "db' = fst (purge_meetups (map m_id (past_meetings_of db u)) db)"
    by (auto simp: confirm_delete_all_past_meetings_def split: sum.splits)
  have own: "invitees_own_nothing db" using inv by (simp add: life_inv_def)
  have "lost_cause (Owner_Clears_Past up) db r"
    if "r \<in> set (meetups db)" "m_id r \<in> set (map m_id (past_meetings_of db u))" for r
  proof -
    from that(2) obtain m where m: "m \<in> set (meetups db)" "owner_id m = u_id u" "\<not> active m" "m_id m = m_id r"
      by (auto simp: past_meetings_of_def)
    with row_unique [OF inv that(1) m(1)] have "m = r" by simp
    with m current_user_Inr [OF u] show ?thesis by (auto simp: lost_cause_def removes_for_def)
  qed
  then have "step_rows db (Owner_Clears_Past up) db'"
    unfolding db' by (intro step_rows_less [OF purge_meetups_meetups [OF own]]) blast+
  with inv show ?thesis by (simp add: db' life_inv_purge_meetups)
qed

lemma step_other: "keeps_life db db' \<Longrightarrow> life_inv db' \<and> step_rows db Other db'"
  unfolding keeps_life_def step_rows_def evolves_def life_event.case same_life_def by blast

text \<open>Every event keeps the invariant and moves rows as its contract says.\<close>

lemma life_step_sound: "life_step db e db' \<Longrightarrow> life_inv db \<Longrightarrow> life_inv db' \<and> step_rows db e db'"
proof (induction rule: life_step.induct)
  case (joined_only db)
  have "\<not> owns_meeting db u" if "joined_only_without_active_links db u" for u
    using that by (simp add: joined_only_without_active_links_def)
  from step_still_in_status [OF joined_only this, where e = Purge_Joined_Only] show ?case
    by (simp add: delete_joined_only_users_def)
next
  case (onboarding db now)
  have "\<not> owns_meeting db u" if "abandoned_onboarding now db u" for u
    using that by (simp add: abandoned_onboarding_def)
  from step_still_in_status [OF onboarding this, where e = "Purge_Onboarding now"] show ?case
    by (simp add: delete_abandoned_onboarding_users_def)
qed (rule step_warn step_delete step_deactivate step_demote step_cleanup step_reactivate step_owner_deletes
    step_owner_deletes_past step_owner_clears_past step_other; assumption)+

interpretation life: invariant_system life_step life_inv
  by unfold_locales (rule conjunct1 [OF life_step_sound])

section \<open>The history of a meeting\<close>

text \<open>The last event of the run ended the meeting at instant \<open>t\<close>: it was due at the clock of the lock, and the row it
  left is inactive since then.\<close>

definition meeting_ended :: "sdb \<Rightarrow> life_event list \<Rightarrow> instant \<Rightarrow> int \<Rightarrow> bool" where
  "meeting_ended db es t mid \<longleftrightarrow>
     (\<exists>es0 now d s s' r u. es = es0 @ [Deactivate now t d] \<and> steps life_step db es0 s \<and> life_step s (Deactivate now t d) s' \<and>
        r \<in> set (meetups s) \<and> m_id r = mid \<and> u \<in> set (users s) \<and> u_id u = owner_id r \<and> due_for_deactivation now r u \<and>
        r\<lparr>active := False, expiration_time := Some t\<rparr> \<in> set (meetups s'))"

text \<open>The last event of the run recorded at instant \<open>w\<close> that the owner was told: the warning was due, the owner was in the
  chunk, and unless the owner had opted out of warnings the digest was sent without an error (an owner who blocked
  the bot counts as told).\<close>

definition owner_told :: "sdb \<Rightarrow> life_event list \<Rightarrow> instant \<Rightarrow> instant \<Rightarrow> int \<Rightarrow> bool" where
  "owner_told db es t w mid \<longleftrightarrow>
     (\<exists>es0 now send ids s s' r u. es = es0 @ [Warn now w send ids] \<and> steps life_step db es0 s \<and> life_step s (Warn now w send ids) s' \<and>
        r \<in> set (meetups s) \<and> m_id r = mid \<and> expiration_time r = Some t \<and> u \<in> set (users s) \<and> u_id u = owner_id r \<and>
        u_id u \<in> set ids \<and> about_to_be_deleted now r u \<and> (deletion_warning (u_settings u) \<longrightarrow> send (u_id u) \<noteq> Raised) \<and>
        record_deletion_warning w r \<in> set (meetups s'))"

text \<open>What the events so far say about a row: an active meeting carries no stamp; an inactive one was
  ended at its expiration time, and if it is marked as warned, its owner was told at that instant later.\<close>

definition history :: "sdb \<Rightarrow> life_event list \<Rightarrow> meetup_row \<Rightarrow> bool" where
  "history db es m \<longleftrightarrow> (active m \<longrightarrow> unstamped m) \<and>
     (\<not> active m \<longrightarrow> (\<exists>es1 es2 t. es = es1 @ es2 \<and> meeting_ended db es1 t (m_id m) \<and> expiration_time m = Some t \<and>
        (expiration_notification_sent m \<longleftrightarrow> warned_time m \<noteq> None) \<and>
        (\<forall>w. warned_time m = Some w \<longrightarrow> (\<exists>es3 es4. es2 = es3 @ es4 \<and> owner_told db (es1 @ es3) t w (m_id m)))))"

lemma evolves_keys: "evolves db e m m' \<Longrightarrow> m_id m' = m_id m \<and> owner_id m' = owner_id m"
  by (auto simp: evolves_def same_life_def record_deletion_warning_def restart_def clear_deletion_warning_def
      split: life_event.splits)

lemma history_inactive:
  assumes "\<not> active m" "es = before @ after" "meeting_ended db before t (m_id m)" "expiration_time m = Some t"
    and "expiration_notification_sent m \<longleftrightarrow> warned_time m \<noteq> None"
    and "\<And>w. warned_time m = Some w \<Longrightarrow> \<exists>es3 es4. after = es3 @ es4 \<and> owner_told db (before @ es3) t w (m_id m)"
  shows "history db es m"
  using assms unfolding history_def by blast

lemma history_same:
  assumes "history db es m" "same_life m m'"
  shows "history db (es @ [e]) m'"
proof (cases "active m")
  case True
  with assms show ?thesis by (simp add: history_def same_life_def unstamped_def)
next
  case False
  with assms(1) obtain es1 es2 t where h: "es = es1 @ es2" "meeting_ended db es1 t (m_id m)" "expiration_time m = Some t"
    "expiration_notification_sent m \<longleftrightarrow> warned_time m \<noteq> None"
    "\<forall>w. warned_time m = Some w \<longrightarrow> (\<exists>es3 es4. es2 = es3 @ es4 \<and> owner_told db (es1 @ es3) t w (m_id m))" unfolding history_def by blast
  show ?thesis
  proof (rule history_inactive [where before = es1 and after = "es2 @ [e]" and t = t])
    fix w assume "warned_time m' = Some w"
    then have "warned_time m = Some w" using assms(2) by (simp add: same_life_def)
    with h(5) obtain es3 es4 where "es2 = es3 @ es4" "owner_told db (es1 @ es3) t w (m_id m)" by blast
    with assms(2) show "\<exists>es3 es4. es2 @ [e] = es3 @ es4 \<and> owner_told db (es1 @ es3) t w (m_id m')"
      by (intro exI [of _ es3] exI [of _ "es4 @ [e]"]) (simp add: same_life_def)
  qed (use False assms(2) h in \<open>auto simp: same_life_def\<close>)
qed

lemma history_evolves:
  assumes "history db es m" "evolves s e m m'" "steps life_step db es s" "life_step s e s'" "m \<in> set (meetups s)" "m' \<in> set (meetups s')"
  shows "history db (es @ [e]) m'"
proof (cases "same_life m m'")
  case True
  with assms(1) show ?thesis by (rule history_same)
next
  case False
  with assms(2) consider
      (warned) now clock send ids where "e = Warn now clock send ids" "settles (about_to_be_deleted now) deletion_warning send ids s m"
        "m' = record_deletion_warning clock m"
    | (deactivated) now clock d u where "e = Deactivate now clock d" "dm_meeting_id d = m_id m" "u \<in> set (users s)"
        "u_id u = owner_id m" "due_for_deactivation now m u" "m' = m\<lparr>active := False, expiration_time := Some clock\<rparr>"
    | (restarted) clock where "m' = restart clock m"
    by (auto simp: evolves_def split: life_event.splits)
  then show ?thesis
  proof cases
    case warned
    then obtain u where u: "u \<in> set (users s)" "u_id u = owner_id m" "about_to_be_deleted now m u" "u_id u \<in> set ids"
      "deletion_warning (u_settings u) \<longrightarrow> send (u_id u) \<noteq> Raised" unfolding settles_def by blast
    have "\<not> active m" using assms(1) u(3) by (auto simp: history_def unstamped_def about_to_be_deleted_def)
    with assms(1) obtain es1 es2 t where h: "es = es1 @ es2" "meeting_ended db es1 t (m_id m)" "expiration_time m = Some t"
      unfolding history_def by blast
    have this_told: "owner_told db (es1 @ es2 @ [e]) t clock (m_id m)"
      unfolding owner_told_def warned(1)
      by (rule exI [of _ es], rule exI [of _ now], rule exI [of _ send], rule exI [of _ ids], rule exI [of _ s], rule exI [of _ s'],
          rule exI [of _ m], rule exI [of _ u])
        (use assms(3-6) u h warned(1,3) in simp)
    show ?thesis
    proof (rule history_inactive [where before = es1 and after = "es2 @ [e]" and t = t])
      fix w assume "warned_time m' = Some w"
      with this_told warned(3) show "\<exists>es3 es4. es2 @ [e] = es3 @ es4 \<and> owner_told db (es1 @ es3) t w (m_id m')"
        by (intro exI [of _ "es2 @ [e]"] exI [of _ "[]"]) (simp add: record_deletion_warning_def)
    qed (use \<open>\<not> active m\<close> h warned(3) in \<open>simp_all add: record_deletion_warning_def\<close>)
  next
    case deactivated
    have "meeting_ended db (es @ [e]) clock (m_id m)"
      unfolding meeting_ended_def deactivated(1)
      by (rule exI [of _ es], rule exI [of _ now], rule exI [of _ d], rule exI [of _ s], rule exI [of _ s'], rule exI [of _ m],
          rule exI [of _ u])
        (use assms(3-6) deactivated in simp)
    moreover have "unstamped m" using assms(1) deactivated(5) by (simp add: history_def due_for_deactivation_def)
    ultimately show ?thesis
      by (intro history_inactive [where before = "es @ [e]" and after = "[]" and t = clock])
        (simp_all add: deactivated(6) unstamped_def)
  next
    case restarted
    then show ?thesis by (simp add: history_def unstamped_def restart_def clear_deletion_warning_def)
  qed
qed

lemma row_follows:
  assumes "life_step s e t" "life_inv s" "r \<in> set (meetups s)" "r' \<in> set (meetups t)" "m_id r' = m_id r"
  shows "evolves s e r r'"
proof -
  have rows: "step_rows s e t" using life_step_sound [OF assms(1,2)] by blast
  have "m_id r' \<in> m_id ` set (meetups s)" using assms(3,5) by simp
  with rows assms(4) obtain r0 where r0: "r0 \<in> set (meetups s)" "evolves s e r0 r'" unfolding step_rows_def by blast
  with evolves_keys assms(5) have "m_id r0 = m_id r" by metis
  with row_unique [OF assms(2,3) r0(1)] r0(2) show ?thesis by simp
qed

text \<open>The event at which a meeting goes, with everything that is known about its row by then.\<close>

lemma first_loss:
  assumes "steps life_step db pre s" "steps life_step s es t" "life_inv s" "r \<in> set (meetups s)" "history db pre r"
    and "m_id r \<notin> m_id ` set (meetups t)"
  shows "\<exists>es1 e es2 s1 s2 r'. es = es1 @ e # es2 \<and> steps life_step s es1 s1 \<and> life_step s1 e s2 \<and> life_inv s1 \<and>
    r' \<in> set (meetups s1) \<and> m_id r' = m_id r \<and> owner_id r' = owner_id r \<and> history db (pre @ es1) r' \<and>
    m_id r \<notin> m_id ` set (meetups s2)"
  using assms
proof (induction es arbitrary: s pre r)
  case Nil
  then show ?case by auto
next
  case (Cons e es)
  then obtain s' where step: "life_step s e s'" "steps life_step s' es t" by auto
  show ?case
  proof (cases "m_id r \<in> m_id ` set (meetups s')")
    case False
    then show ?thesis
      using step(1) Cons.prems by (intro exI [of _ "[]"] exI [of _ e] exI [of _ es] exI [of _ s] exI [of _ s'] exI [of _ r]) simp
  next
    case True
    then obtain r' where r': "r' \<in> set (meetups s')" "m_id r' = m_id r" by auto
    note ev = row_follows [OF step(1) Cons.prems(3,4) r']
    have inv: "life_inv s'" using life_step_sound [OF step(1) Cons.prems(3)] by blast
    have run: "steps life_step db (pre @ [e]) s'" using Cons.prems(1) step(1) by (auto simp: steps_append)
    have "m_id r' \<notin> m_id ` set (meetups t)" using Cons.prems(6) r'(2) by simp
    from Cons.IH [OF run step(2) inv r'(1) history_evolves [OF Cons.prems(5) ev Cons.prems(1) step(1) Cons.prems(4) r'(1)] this]
    obtain es1 e' es2 s1 s2 r'' where *: "es = es1 @ e' # es2" "steps life_step s' es1 s1" "life_step s1 e' s2" "life_inv s1"
      "r'' \<in> set (meetups s1)" "m_id r'' = m_id r" "owner_id r'' = owner_id r" "history db (pre @ e # es1) r''"
      "m_id r \<notin> m_id ` set (meetups s2)"
      using r'(2) evolves_keys [OF ev] by auto
    then show ?thesis
      using step(1) by (intro exI [of _ "e # es1"] exI [of _ e'] exI [of _ es2] exI [of _ s1] exI [of _ s2] exI [of _ r'']) auto
  qed
qed

end
