(* ===== verification/Meeting_Props.thy ===== *)
theory Meeting_Props
  imports Meeting_Life
begin

text \<open>
  What the runs of \<^verbatim>\<open>Meeting_Life\<close> guarantee: the tables and the stamps stay consistent, and a meeting only goes
  for a reason its owner was told about or gave.
\<close>

text \<open>Why the event removes the meeting \<open>r\<close> of the owner \<open>u\<close>, after the run \<open>es\<close> from \<open>db\<close>.\<close>

definition reason_to_delete :: "sdb \<Rightarrow> life_event list \<Rightarrow> life_event \<Rightarrow> user \<Rightarrow> meetup_row \<Rightarrow> bool" where
  "reason_to_delete db es e u r \<longleftrightarrow>
    (case e of
       Delete now clock send ids \<Rightarrow>
         \<exists>es3 es4 es5 t w. es = es3 @ es4 @ es5 \<and> meeting_ended db es3 t (m_id r) \<and> owner_told db (es3 @ es4) t w (m_id r) \<and>
           expiration_time r = Some t \<and> warned_time r = Some w \<and>
           t + inactive_retention (meetup_policy u) < now \<and> w + days 7 < now \<and>
           u_id u \<in> set ids \<and> (deletion_notice (u_settings u) \<longrightarrow> send (u_id u) \<noteq> Raised)
     | Demote now clock \<Rightarrow> status u = LEFT \<and> (\<exists>t. left_time u = Some t \<and> t + days 30 < now) \<and> \<not> active r
     | Cleanup now \<Rightarrow> status u = DELETION_REQUESTED \<or> (status u = LEFT \<and> \<not> active r)
     | Owner_Deletes up mid \<Rightarrow> mid = m_id r \<and> effective_user up = Some (tg_user_id u)
     | Owner_Deletes_Past up mid \<Rightarrow> mid = m_id r \<and> effective_user up = Some (tg_user_id u)
     | Owner_Clears_Past up \<Rightarrow> effective_user up = Some (tg_user_id u) \<and> \<not> active r
     | _ \<Rightarrow> False)"

text \<open>C3. A meeting that was active and unstamped and is later gone went by one event, and that event had a
  reason. Either the deletion sweep removed it: then this meeting had been ended at an instant \<open>t\<close> at which it was due
  (\<open>meeting_ended\<close>), after that its own owner was told at an instant \<open>w\<close> (\<open>owner_told\<close>: by a digest that did not fail, unless opted out
  of warnings), and the sweep ran more than the owner's retention after \<open>t\<close> and more than 7 days after \<open>w\<close>, with the
  owner in its chunk and no failing notice. Or its owner deleted it by hand, asked for the deletion of the
  account, or had left the bot and the meeting was already inactive. The events are the transactions of the jobs
  and handlers that delete, and others that keep the rows and the stamps (\<open>keeps_life\<close>), as \<^verbatim>\<open>Life_Others\<close> shows of
  the handlers of the rosters, of the schedules and of a new meeting; of the handlers not modelled it is assumed.\<close>

theorem lost_meeting_had_a_reason:
  assumes "steps life_step db es db'" "life_inv db" "m \<in> set (meetups db)" "active m" "unstamped m"
    and "m_id m \<notin> m_id ` set (meetups db')"
  shows "\<exists>es1 e es2 s r u. es = es1 @ e # es2 \<and> steps life_step db es1 s \<and> r \<in> set (meetups s) \<and> m_id r = m_id m \<and>
    u \<in> set (users s) \<and> u_id u = owner_id m \<and>
    reason_to_delete db es1 e u r"
proof -
  have "history db [] m" using assms(4,5) by (simp add: history_def)
  from first_loss [OF steps_Nil assms(1-3) this assms(6)]
  obtain es1 e es2 s1 s2 r where split: "es = es1 @ e # es2" "steps life_step db es1 s1" and step: "life_step s1 e s2"
    and inv: "life_inv s1" and r: "r \<in> set (meetups s1)" "m_id r = m_id m" "owner_id r = owner_id m"
    and hist: "history db es1 r" and lost: "m_id m \<notin> m_id ` set (meetups s2)" by auto
  have "step_rows s1 e s2" using life_step_sound [OF step inv] by blast
  with r lost have "lost_cause e s1 r" unfolding step_rows_def by (metis image_eqI)
  then obtain u where u: "u \<in> set (users s1)" "u_id u = owner_id m" and cause: "removes_for e s1 u r"
    unfolding lost_cause_def r(3) by blast
  have "reason_to_delete db es1 e u r"
  proof (cases e)
    case (Delete now clock send ids)
    with cause have del: "to_delete now r u" "u_id u \<in> set ids" "deletion_notice (u_settings u) \<longrightarrow> send (u_id u) \<noteq> Raised"
      by (simp_all add: removes_for_def)
    then obtain t w where tw: "expiration_time r = Some t" "t + inactive_retention (meetup_policy u) < now"
      "warned_time r = Some w" "w + days 7 < now" unfolding to_delete_iff by blast
    then have "\<not> active r" using hist by (auto simp: history_def unstamped_def)
    with hist tw(1,3) obtain es3 es6 es4 es5 where "es1 = es3 @ es6" "meeting_ended db es3 t (m_id r)" "es6 = es4 @ es5"
      "owner_told db (es3 @ es4) t w (m_id r)" unfolding history_def by auto
    then have "es1 = es3 @ es4 @ es5 \<and> meeting_ended db es3 t (m_id r) \<and> owner_told db (es3 @ es4) t w (m_id r)" by simp
    with tw del(2,3) show ?thesis unfolding Delete reason_to_delete_def life_event.case by blast
  qed (use cause r(2) in \<open>auto simp: reason_to_delete_def removes_for_def demotable_left_user_def interval_elapsed_days
      deletion_requested_def LEFT_STATUS_GRACE_DAYS_def\<close>)
  with split r(1,2) u show ?thesis by blast
qed

section \<open>Consistency of the tables\<close>

definition stamps_ok :: "sdb \<Rightarrow> bool" where
  "stamps_ok db \<longleftrightarrow> (\<forall>m \<in> set (meetups db).
     (active m \<longrightarrow> unstamped m) \<and> (\<not> active m \<longrightarrow> expiration_time m \<noteq> None) \<and>
     (expiration_notification_sent m \<longleftrightarrow> warned_time m \<noteq> None))"

lemma life_step_stamps:
  assumes "life_step db e db'" "life_inv db" "stamps_ok db"
  shows "stamps_ok db'"
  unfolding stamps_ok_def
proof
  fix m' assume m': "m' \<in> set (meetups db')"
  have "step_rows db e db'" using life_step_sound [OF assms(1,2)] by blast
  with m' consider m where "m \<in> set (meetups db)" "evolves db e m m'" | "active m'" "unstamped m'"
    unfolding step_rows_def by blast
  then show "(active m' \<longrightarrow> unstamped m') \<and> (\<not> active m' \<longrightarrow> expiration_time m' \<noteq> None) \<and>
    (expiration_notification_sent m' \<longleftrightarrow> warned_time m' \<noteq> None)"
  proof cases
    case 1
    with assms(3) have "(active m \<longrightarrow> unstamped m) \<and> (\<not> active m \<longrightarrow> expiration_time m \<noteq> None) \<and>
      (expiration_notification_sent m \<longleftrightarrow> warned_time m \<noteq> None)" by (simp add: stamps_ok_def)
    with 1(2) show ?thesis
      by (auto simp: evolves_def same_life_def unstamped_def settles_def about_to_be_deleted_def record_deletion_warning_def restart_def
          clear_deletion_warning_def split: life_event.splits)
  qed (auto simp: unstamped_def)
qed

interpretation consistent: invariant_system life_step "\<lambda>db. life_inv db \<and> stamps_ok db"
  by unfold_locales (use life_step_sound life_step_stamps in blast)

text \<open>C11. Whatever sequence of sweeps, purges, reactivations and deletions runs, keys stay unique, every foreign key
  names an existing row, no invited placeholder owns a meeting, and the stamps stay coherent: an active meeting has no
  expiration and no warning, an inactive one has an expiration time, and a meeting is marked as warned exactly when it
  says since when.\<close>

theorem tables_stay_consistent:
  assumes "steps life_step db es db'" "tables_ok db" "invitees_own_nothing db" "stamps_ok db"
  shows "tables_ok db' \<and> invitees_own_nothing db' \<and> stamps_ok db'"
  using consistent.steps_inv [OF assms(1)] assms(2-4) by (simp add: life_inv_def)

section \<open>A deletion sweep clears what it nominated\<close>

text \<open>What a chunk keeps for the chunks after it: the meetings only get fewer, and the owner of a meeting that is
  still there keeps its tier and settings.\<close>

definition shrinks :: "sdb \<Rightarrow> sdb \<Rightarrow> bool" where
  "shrinks db db' \<longleftrightarrow> life_inv db' \<and> set (meetups db') \<subseteq> set (meetups db) \<and>
     (\<forall>m \<in> set (meetups db'). \<forall>u' \<in> set (users db'). u_id u' = owner_id m \<longrightarrow>
        (\<exists>u \<in> set (users db). u_id u = u_id u' \<and> u_supporter_level u = u_supporter_level u' \<and> u_settings u = u_settings u'))"

lemma shrinks_refl: "life_inv db \<Longrightarrow> shrinks db db"
  unfolding shrinks_def by blast

lemma shrinks_trans:
  assumes "shrinks a b" "shrinks b c"
  shows "shrinks a c"
  unfolding shrinks_def
proof (intro conjI ballI impI)
  show "life_inv c" using assms(2) by (simp add: shrinks_def)
  show "set (meetups c) \<subseteq> set (meetups a)" using assms by (auto simp: shrinks_def)
  fix m w assume m: "m \<in> set (meetups c)" "w \<in> set (users c)" "u_id w = owner_id m"
  with assms(2) obtain v where v: "v \<in> set (users b)" "u_id v = u_id w" "u_supporter_level v = u_supporter_level w"
    "u_settings v = u_settings w" "m \<in> set (meetups b)" unfolding shrinks_def by blast
  with assms(1) m(3) have "\<exists>u \<in> set (users a). u_id u = u_id v \<and> u_supporter_level u = u_supporter_level v \<and> u_settings u = u_settings v"
    unfolding shrinks_def by metis
  with v show "\<exists>u \<in> set (users a). u_id u = u_id w \<and> u_supporter_level u = u_supporter_level w \<and> u_settings u = u_settings w"
    by simp
qed

lemma mark_inactive_settings [simp]: "u_settings (fst (mark_inactive now u)) = u_settings u"
  by (simp add: mark_inactive_def)

lemma delete_chunk_shrinks:
  assumes inv: "life_inv db" and run: "delete_owner_chunk now clock send ids db = (db', out, lines)"
  shows "shrinks db db'"
proof -
  have own: "tables_ok db" "invitees_own_nothing db" using inv by (simp_all add: life_inv_def)
  note d = delete_owner_chunk_effect [OF own run]
  obtain gone ids' where us: "users db' = delete_where (\<lambda>u. u_id u \<in> gone) (users (mark_unreachable clock ids' db))"
    using d(2) by blast
  have "\<exists>u \<in> set (users db). u_id u = u_id u' \<and> u_supporter_level u = u_supporter_level u' \<and> u_settings u = u_settings u'"
    if "u' \<in> set (users db')" for u'
  proof -
    from that us have "u' \<in> set (users (mark_unreachable clock ids' db))" by simp
    then obtain u where "u \<in> set (users db)" "u' = (if u_id u \<in> set ids' then fst (mark_inactive clock u) else u)"
      unfolding mark_unreachable_mem by blast
    then show ?thesis by (intro bexI [of _ u]) auto
  qed
  moreover have "set (meetups db') \<subseteq> set (meetups db)" unfolding d(1) by blast
  moreover have "life_inv db'" using step_delete [OF inv run] by blast
  ultimately show ?thesis unfolding shrinks_def by blast
qed

lemma to_delete_level: "u_supporter_level u = u_supporter_level v \<Longrightarrow> to_delete now m u = to_delete now m v"
  by (simp add: to_delete_iff meetup_policy_def)

lemma to_delete_later: "to_delete now m u \<Longrightarrow> now \<le> later \<Longrightarrow> to_delete later m u"
  unfolding to_delete_iff by fastforce

lemma owner_exists: "life_inv db \<Longrightarrow> m \<in> set (meetups db) \<Longrightarrow> \<exists>u \<in> set (users db). u_id u = owner_id m"
  unfolding life_inv_def tables_ok_def refs_ok_def by (metis imageE)

definition delete_process :: "sweep_world \<Rightarrow> nat \<Rightarrow> int list \<Rightarrow> sdb \<Rightarrow> (sdb \<times> notice_outcome) option" where
  "delete_process w k ids db = committed w k (delete_owner_chunk (sw_now w k) (sw_clock w k) (sw_send w k) ids db)"

lemma delete_process_Some:
  assumes "life_inv db" "delete_process w k ids db = Some (db', out)"
  shows "shrinks db db'" and "set (meetups db') = {m \<in> set (meetups db). \<not> settles (to_delete (sw_now w k)) deletion_notice (sw_send w k) ids db m}"
proof -
  obtain lines where run: "delete_owner_chunk (sw_now w k) (sw_clock w k) (sw_send w k) ids db = (db', out, lines)"
    using assms(2) by (cases "delete_owner_chunk (sw_now w k) (sw_clock w k) (sw_send w k) ids db")
      (auto simp: delete_process_def committed_def split: if_splits)
  show "shrinks db db'" by (rule delete_chunk_shrinks [OF assms(1) run])
  show "set (meetups db') = {m \<in> set (meetups db). \<not> settles (to_delete (sw_now w k)) deletion_notice (sw_send w k) ids db m}"
    using delete_owner_chunk_effect(1) [OF _ _ run] assms(1) by (simp add: life_inv_def)
qed

lemma sweep_shrinks:
  assumes "life_inv db" "sweep_chunks (delete_process w) k cs db totals = (db', t)"
  shows "shrinks db db'"
  using assms
proof (induction cs arbitrary: k db totals)
  case Nil
  then show ?case by (simp add: shrinks_refl)
next
  case (Cons ids cs)
  show ?case
  proof (cases "delete_process w k ids db")
    case None
    with Cons show ?thesis by simp
  next
    case (Some r)
    obtain d out where r: "r = (d, out)" by force
    from delete_process_Some(1) [OF Cons.prems(1)] Some r have first: "shrinks db d" by simp
    then have "life_inv d" by (simp add: shrinks_def)
    with Cons Some r have "shrinks d db'" by simp
    with first show ?thesis by (rule shrinks_trans)
  qed
qed

text \<open>A meeting only goes in a chunk with its owner that finds it due and whose notice does not fail.\<close>

lemma sweep_only_due:
  assumes "life_inv db" "sweep_chunks (delete_process w) k cs db totals = (db', t)"
    and "m \<in> set (meetups db)" "m \<notin> set (meetups db')"
  shows "\<exists>j < length cs. \<exists>u \<in> set (users db). \<not> sw_breaks w (k + j) \<and> u_id u = owner_id m \<and> u_id u \<in> set (cs ! j) \<and>
    to_delete (sw_now w (k + j)) m u \<and> (deletion_notice (u_settings u) \<longrightarrow> sw_send w (k + j) (u_id u) \<noteq> Raised)"
  using assms
proof (induction cs arbitrary: k db totals)
  case Nil
  then show ?case by simp
next
  case (Cons ids cs)
  show ?case
  proof (cases "delete_process w k ids db")
    case None
    then have "sweep_chunks (delete_process w) (Suc k) cs db (totals\<lparr>failed_chunks := failed_chunks totals + 1\<rparr>) = (db', t)"
      using Cons.prems(2) by simp
    from Cons.IH [OF Cons.prems(1) this Cons.prems(3,4)] show ?thesis by (elim exE conjE) (intro exI [of _ "Suc _"], auto)
  next
    case (Some r)
    obtain d out where r: "r = (d, out)" by force
    note first = delete_process_Some [OF Cons.prems(1) Some [unfolded r]]
    show ?thesis
    proof (cases "m \<in> set (meetups d)")
      case False
      have "\<not> sw_breaks w k" using Some by (auto simp: delete_process_def committed_def)
      with False first(2) Cons.prems(3) show ?thesis by (intro exI [of _ 0]) (auto simp: settles_def)
    next
      case True
      have "life_inv d" using first(1) by (simp add: shrinks_def)
      moreover have "sweep_chunks (delete_process w) (Suc k) cs d (merge_outcome totals out) = (db', t)"
        using Cons.prems(2) Some r by simp
      ultimately obtain j v where j: "j < length cs" "\<not> sw_breaks w (Suc k + j)" and v: "v \<in> set (users d)" "u_id v = owner_id m"
        "u_id v \<in> set (cs ! j)" "to_delete (sw_now w (Suc k + j)) m v"
        "deletion_notice (u_settings v) \<longrightarrow> sw_send w (Suc k + j) (u_id v) \<noteq> Raised"
        using Cons.IH True Cons.prems(4) by blast
      with first(1) True obtain u where u: "u \<in> set (users db)" "u_id u = u_id v" "u_supporter_level u = u_supporter_level v"
        "u_settings u = u_settings v" unfolding shrinks_def by blast
      have "to_delete (sw_now w (Suc k + j)) m u" using v(4) to_delete_level [OF u(3)] by blast
      with j v u show ?thesis by (intro exI [of _ "Suc j"] conjI bexI [of _ u]) auto
    qed
  qed
qed

text \<open>With no broken transaction and no failing digest for its owner, a meeting that is due does not survive.\<close>

lemma sweep_clears:
  assumes "life_inv db" "sweep_chunks (delete_process w) k cs db totals = (db', t)"
    and works: "\<And>j. j < length cs \<Longrightarrow> \<not> sw_breaks w (k + j)" and clock: "\<And>j. j < length cs \<Longrightarrow> since \<le> sw_now w (k + j)"
    and u: "u \<in> set (users db)" "u_id u = owner_id m" "to_delete since m u" "u_id u \<in> \<Union> (set ` set cs)"
    and send: "\<And>j. j < length cs \<Longrightarrow> sw_send w (k + j) (u_id u) \<noteq> Raised"
  shows "m \<notin> set (meetups db')"
  using assms
proof (induction cs arbitrary: k db totals u)
  case Nil
  then show ?case by simp
next
  case (Cons ids cs)
  obtain d out lines where run: "delete_owner_chunk (sw_now w k) (sw_clock w k) (sw_send w k) ids db = (d, out, lines)"
    using prod_cases3 by blast
  have now: "\<not> sw_breaks w k" "since \<le> sw_now w k" "sw_send w k (u_id u) \<noteq> Raised"
    using Cons.prems(3) [of 0] Cons.prems(4) [of 0] Cons.prems(9) [of 0] by simp_all
  have p: "delete_process w k ids db = Some (d, out)" by (simp add: delete_process_def committed_def run now(1))
  note first = delete_process_Some [OF Cons.prems(1) p]
  have inv: "life_inv d" using first(1) by (simp add: shrinks_def)
  have rest: "sweep_chunks (delete_process w) (Suc k) cs d (merge_outcome totals out) = (db', t)"
    using Cons.prems(2) p by simp
  show ?case
  proof (cases "m \<in> set (meetups d)")
    case False
    with sweep_shrinks [OF inv rest] show ?thesis by (auto simp: shrinks_def)
  next
    case True
    have unique: "v = u" if "v \<in> set (users db)" "u_id v = u_id u" for v
      using distinct_key_unique [of u_id "users db" v u] that Cons.prems(1,5)
      by (simp add: life_inv_def tables_ok_def keys_ok_def)
    from owner_exists [OF inv True] obtain v where v: "v \<in> set (users d)" "u_id v = owner_id m" by blast
    with first(1) True obtain u0 where "u0 \<in> set (users db)" "u_id u0 = u_id v" "u_supporter_level u0 = u_supporter_level v"
      unfolding shrinks_def by blast
    with unique v Cons.prems(6) have level: "u_supporter_level u = u_supporter_level v" by metis
    have due: "to_delete (sw_now w k) m u" using Cons.prems(7) now(2) by (rule to_delete_later)
    have "u_id u \<notin> set ids"
    proof
      assume "u_id u \<in> set ids"
      with due Cons.prems(5,6) now(3) have "settles (to_delete (sw_now w k)) deletion_notice (sw_send w k) ids db m"
        unfolding settles_def by blast
      with True show False unfolding first(2) by simp
    qed
    with Cons.prems(6,8) v(2) have chunk: "u_id v \<in> \<Union> (set ` set cs)" by auto
    have "to_delete since m v" using to_delete_level [OF level] Cons.prems(7) by blast
    moreover have "sw_send w (Suc k + j) (u_id v) \<noteq> Raised" if "j < length cs" for j
      using Cons.prems(9) [of "Suc j"] Cons.prems(6) v(2) that by simp
    moreover have "\<not> sw_breaks w (Suc k + j)" "since \<le> sw_now w (Suc k + j)" if "j < length cs" for j
      using Cons.prems(3) [of "Suc j"] Cons.prems(4) [of "Suc j"] that by simp_all
    ultimately show ?thesis using Cons.IH [OF inv rest _ _ v _ chunk] by blast
  qed
qed

lemma nominated_chunks:
  "\<Union> (set ` set (chunks (nominate_owners P db))) =
     {u_id u | u. u \<in> set (users db) \<and> (\<exists>m \<in> set (meetups db). owner_id m = u_id u \<and> P m u)}"
proof -
  let ?ids = "uniq (map (\<lambda>p. u_id (snd p)) (select_owned P db))"
  have "\<Union> (set ` set (chunks (nominate_owners P db))) = set (concat (batched OWNERS_PER_CHUNK ?ids))"
    by (simp add: nominate_owners_def owner_chunks_def Let_def)
  also have "\<dots> = (\<lambda>p. u_id (snd p)) ` set (select_owned P db)"
    by (simp add: concat_batched OWNERS_PER_CHUNK_def)
  also have "\<dots> = {u_id u | u. u \<in> set (users db) \<and> (\<exists>m \<in> set (meetups db). owner_id m = u_id u \<and> P m u)}"
  proof -
    have "(\<lambda>p. u_id (snd p)) ` S = {u_id u | m u. (m, u) \<in> S}" for S :: "(meetup_row \<times> user) set" by force
    then show ?thesis by (simp add: select_owned_mem) (auto intro: sym)
  qed
  finally show ?thesis .
qed

text \<open>C10. One run of the deletion sweep. It works through chunks of at most 20 owners, and the owners in them are exactly
  those with a meeting that is due when the run nominates. A meeting it removes goes in one of these chunks, one with
  its owner in it whose transaction does not break: it was due at the clock of that chunk (marked as warned, expired
  for longer than its owner's retention and warned more than 7 days ago) and the notice to its owner did not fail. And a meeting that was
  due when the run nominated is gone after it, if no transaction of the run breaks, no chunk's clock is behind the
  nomination and no notice to its owner fails.\<close>

theorem deletion_sweep_removes_the_due:
  assumes "tables_ok db" "invitees_own_nothing db" "cs = chunks (nominate_owners (to_delete (sw_nominate w)) db)"
  shows "set (meetups (fst (delete_run w db))) \<subseteq> set (meetups db) \<and>
    (\<forall>ids \<in> set cs. length ids \<le> 20) \<and>
    \<Union> (set ` set cs) = {u_id u | u. u \<in> set (users db) \<and> (\<exists>m \<in> set (meetups db). owner_id m = u_id u \<and> to_delete (sw_nominate w) m u)} \<and>
    (\<forall>m \<in> set (meetups db) - set (meetups (fst (delete_run w db))).
       \<exists>k < length cs. \<exists>u \<in> set (users db). \<not> sw_breaks w k \<and> u_id u = owner_id m \<and> u_id u \<in> set (cs ! k) \<and>
         to_delete (sw_now w k) m u \<and> (deletion_notice (u_settings u) \<longrightarrow> sw_send w k (u_id u) \<noteq> Raised)) \<and>
    ((\<forall>k < length cs. \<not> sw_breaks w k \<and> sw_nominate w \<le> sw_now w k) \<longrightarrow>
       (\<forall>m \<in> set (meetups db). \<forall>u \<in> set (users db). u_id u = owner_id m \<and> to_delete (sw_nominate w) m u \<and>
          (\<forall>k < length cs. sw_send w k (u_id u) \<noteq> Raised) \<longrightarrow> m \<notin> set (meetups (fst (delete_run w db)))))"
proof -
  obtain db' t where run: "sweep_chunks (delete_process w) 0 cs db empty_outcome = (db', t)" by force
  then have db': "fst (delete_run w db) = db'"
    by (simp add: delete_run_def Let_def delete_process_def [abs_def] assms(3))
  have inv: "life_inv db" using assms by (simp add: life_inv_def)
  have "set (meetups db') \<subseteq> set (meetups db)" using sweep_shrinks [OF inv run] by (simp add: shrinks_def)
  moreover have "\<exists>k < length cs. \<exists>u \<in> set (users db). \<not> sw_breaks w k \<and> u_id u = owner_id m \<and> u_id u \<in> set (cs ! k) \<and>
      to_delete (sw_now w k) m u \<and> (deletion_notice (u_settings u) \<longrightarrow> sw_send w k (u_id u) \<noteq> Raised)"
    if "m \<in> set (meetups db) - set (meetups db')" for m
    using sweep_only_due [OF inv run, of m] that by simp
  moreover have "m \<notin> set (meetups db')"
    if "\<forall>k < length cs. \<not> sw_breaks w k \<and> sw_nominate w \<le> sw_now w k" "m \<in> set (meetups db)" "u \<in> set (users db)"
      "u_id u = owner_id m" "to_delete (sw_nominate w) m u" "\<forall>k < length cs. sw_send w k (u_id u) \<noteq> Raised" for m u
  proof -
    have "u_id u \<in> \<Union> (set ` set cs)" unfolding assms(3) nominated_chunks using that(2,3,5) that(4) [symmetric] by blast
    then show ?thesis using sweep_clears [OF inv run, where since = "sw_nominate w"] that by simp
  qed
  moreover have "length ids \<le> 20" if "ids \<in> set cs" for ids
    using that batched_length by (fastforce simp: nominate_owners_def owner_chunks_def Let_def OWNERS_PER_CHUNK_def assms(3))
  ultimately show ?thesis unfolding db' using nominated_chunks [of "to_delete (sw_nominate w)" db] assms(3) by blast
qed

end
