(* ===== verification/Notifications.thy ===== *)
theory Notifications
  imports Deletion_Sweep
begin

text \<open>
  The two notification sweeps: starting-soon reminders, one join link at a time
  (\<^verbatim>\<open>apps/events/mitup_bot/events/notify_meetings.py\<close>), and started notifications, one meeting at a time
  (\<^verbatim>\<open>notify_meetings_started.py\<close>). A unit is checked again in its own transaction, which flags it and queues
  the sends; they run after the commit, and a recipient who cannot be reached is marked inactive then.
\<close>

section \<open>Starting soon\<close>

text \<open>A link with its meeting and its participant: the three joins of the statement.\<close>

type_synonym joined = "link_row \<times> meetup_row \<times> user"

definition select_links :: "(link_row \<Rightarrow> meetup_row \<Rightarrow> user \<Rightarrow> bool) \<Rightarrow> sdb \<Rightarrow> joined list" where
  "select_links P db =
     concat (map (\<lambda>l. concat (map (\<lambda>m. map (\<lambda>u. (l, m, u))
         (filter (\<lambda>u. u_id u = jl_user_id l \<and> P l m u) (users db)))
       (filter (\<lambda>m. m_id m = jl_meetup_id l) (meetups db)))) (links db))"

definition user_to_notify :: "instant \<Rightarrow> link_row \<Rightarrow> meetup_row \<Rightarrow> user \<Rightarrow> bool" where
  "user_to_notify now l m u \<longleftrightarrow>
     (case datetime m of None \<Rightarrow> False
      | Some start \<Rightarrow>
          status u = MEMBER \<and> notification (u_settings u) \<and> \<not> jl_waiting l \<and> \<not> jl_notified l \<and>
          start - minutes (notification_time (u_settings u)) \<le> now \<and> now \<le> start)"

record due_link =
  dl_joined_link_id :: int
  dl_meeting_id :: int
  dl_tg_user_id :: int
  dl_lead_time_minutes :: int
  dl_meeting_datetime :: "instant option"

definition due_links :: "instant \<Rightarrow> sdb \<Rightarrow> due_link list" where
  "due_links now db =
     map (\<lambda>(l, m, u). \<lparr>dl_joined_link_id = jl_id l, dl_meeting_id = m_id m, dl_tg_user_id = tg_user_id u,
        dl_lead_time_minutes = notification_time (u_settings u), dl_meeting_datetime = datetime m\<rparr>)
       (select_links (user_to_notify now) db)"

datatype link_skip =
    link_deleted
  | link_already_notified
  | moved_to_waiting_list
  | user_not_member
  | notifications_disabled
  | meeting_datetime_cleared
  | outside_lead_time_window

definition link_skip_reason :: "sdb \<Rightarrow> int \<Rightarrow> link_skip" where
  "link_skip_reason db link_id =
     (case first_where (\<lambda>(l, m, u). jl_id l = link_id) (select_links (\<lambda>_ _ _. True) db) of
        None \<Rightarrow> link_deleted
      | Some (l, m, u) \<Rightarrow>
          if jl_notified l then link_already_notified
          else if jl_waiting l then moved_to_waiting_list
          else if status u \<noteq> MEMBER then user_not_member
          else if \<not> notification (u_settings u) then notifications_disabled
          else if datetime m = None then meeting_datetime_cleared
          else outside_lead_time_window)"

text \<open>The sends a transaction queues: the Telegram ids written to.\<close>

definition notify_joined_link :: "instant \<Rightarrow> due_link \<Rightarrow> sdb \<Rightarrow> sdb \<times> (link_skip + int)" where
  "notify_joined_link now due_l db =
     (case first_where (\<lambda>(l, m, u). jl_id l = dl_joined_link_id due_l) (select_links (user_to_notify now) db) of
        None \<Rightarrow> (db, Inl (link_skip_reason db (dl_joined_link_id due_l)))
      | Some (l, m, u) \<Rightarrow>
          (db\<lparr>links := update_where (\<lambda>r. jl_id r = jl_id l) (\<lambda>r. r\<lparr>jl_notified := True\<rparr>) (links db)\<rparr>,
           Inr (tg_user_id u)))"

section \<open>Started\<close>

definition meeting_to_notify_started :: "instant \<Rightarrow> meetup_row \<Rightarrow> bool" where
  "meeting_to_notify_started now m \<longleftrightarrow>
     active m \<and> (case datetime m of None \<Rightarrow> False | Some start \<Rightarrow> start \<le> now) \<and> \<not> started_notification_sent m"

record participant_split =
  sp_notify :: "joined list"
  sp_waiting_list :: "joined list"
  sp_inactive :: "joined list"

definition split_participants :: "joined list \<Rightarrow> participant_split" where
  "split_participants roster =
     \<lparr>sp_notify = filter (\<lambda>(l, m, u). \<not> jl_waiting l \<and> status u = MEMBER) roster,
      sp_waiting_list = filter (\<lambda>(l, m, u). jl_waiting l) roster,
      sp_inactive = filter (\<lambda>(l, m, u). \<not> jl_waiting l \<and> status u \<noteq> MEMBER) roster\<rparr>"

definition due_meeting_ids :: "instant \<Rightarrow> sdb \<Rightarrow> int list" where
  "due_meeting_ids now db = map m_id (filter (meeting_to_notify_started now) (meetups db))"

datatype started_skip =
    meeting_deleted
  | meeting_deactivated
  | already_notified
  | datetime_cleared
  | rescheduled_to_future

definition started_skip_reason :: "sdb \<Rightarrow> int \<Rightarrow> started_skip" where
  "started_skip_reason db mid =
     (case first_where (\<lambda>m. m_id m = mid) (meetups db) of
        None \<Rightarrow> meeting_deleted
      | Some m \<Rightarrow>
          if \<not> active m then meeting_deactivated
          else if started_notification_sent m then already_notified
          else if datetime m = None then datetime_cleared
          else rescheduled_to_future)"

definition notify_meeting_started :: "instant \<Rightarrow> int \<Rightarrow> sdb \<Rightarrow> sdb \<times> (started_skip + int list)" where
  "notify_meeting_started now mid db =
     (case first_where (\<lambda>m. m_id m = mid \<and> meeting_to_notify_started now m) (meetups db) of
        None \<Rightarrow> (db, Inl (started_skip_reason db mid))
      | Some m \<Rightarrow>
          let roster = select_links (\<lambda>l r u. m_id r = m_id m) db;
              told = map (\<lambda>(l, m, u). tg_user_id u) (sp_notify (split_participants roster))
          in (db\<lparr>meetups := update_where (\<lambda>r. m_id r = m_id m) (\<lambda>r. r\<lparr>started_notification_sent := True\<rparr>)
                   (meetups db)\<rparr>, Inr told))"

section \<open>The runs\<close>

text \<open>\<open>breaks\<close>: the unit's transaction raises and is rolled back; \<open>send\<close>: how a queued message ends. After the
  commit every recipient who is gone is looked up by Telegram id and marked inactive.\<close>

definition reconcile_outbox :: "instant \<Rightarrow> (int \<Rightarrow> notice) \<Rightarrow> int list \<Rightarrow> sdb \<Rightarrow> sdb" where
  "reconcile_outbox clock send recipients db =
     fold (\<lambda>tg db. case first_where (\<lambda>u. tg_user_id u = tg) (users db) of
             None \<Rightarrow> db
           | Some u \<Rightarrow> db\<lparr>users := update_where (\<lambda>r. u_id r = u_id u) (\<lambda>r. fst (mark_inactive clock r)) (users db)\<rparr>)
       (uniq (filter (\<lambda>tg. send tg = Blocked) recipients)) db"

record notify_tally =
  nt_sent :: nat
  nt_units :: nat
  nt_skipped :: nat
  nt_failed :: nat

fun notify_all ::
    "(int \<Rightarrow> instant) \<Rightarrow> (int \<Rightarrow> instant) \<Rightarrow> (int \<Rightarrow> bool) \<Rightarrow> (int \<Rightarrow> notice) \<Rightarrow> due_link list \<Rightarrow>
     sdb \<Rightarrow> notify_tally \<Rightarrow> sdb \<times> notify_tally" where
  "notify_all now clock breaks send [] db t = (db, t)"
| "notify_all now clock breaks send (d # ds) db t =
     (let i = dl_joined_link_id d in
      if breaks i then notify_all now clock breaks send ds db (t\<lparr>nt_failed := nt_failed t + 1\<rparr>)
      else case notify_joined_link (now i) d db of
        (db', Inl r) \<Rightarrow> notify_all now clock breaks send ds db' (t\<lparr>nt_skipped := nt_skipped t + 1\<rparr>)
      | (db', Inr tg) \<Rightarrow>
          notify_all now clock breaks send ds (reconcile_outbox (clock i) send [tg] db')
            (t\<lparr>nt_sent := nt_sent t + 1, nt_units := nt_units t + 1\<rparr>))"

fun started_all ::
    "(int \<Rightarrow> instant) \<Rightarrow> (int \<Rightarrow> instant) \<Rightarrow> (int \<Rightarrow> bool) \<Rightarrow> (int \<Rightarrow> notice) \<Rightarrow> int list \<Rightarrow>
     sdb \<Rightarrow> notify_tally \<Rightarrow> sdb \<times> notify_tally" where
  "started_all now clock breaks send [] db t = (db, t)"
| "started_all now clock breaks send (i # is) db t =
     (if breaks i then started_all now clock breaks send is db (t\<lparr>nt_failed := nt_failed t + 1\<rparr>)
      else case notify_meeting_started (now i) i db of
        (db', Inl r) \<Rightarrow> started_all now clock breaks send is db' (t\<lparr>nt_skipped := nt_skipped t + 1\<rparr>)
      | (db', Inr told) \<Rightarrow>
          started_all now clock breaks send is (reconcile_outbox (clock i) send told db')
            (t\<lparr>nt_sent := nt_sent t + length told, nt_units := nt_units t + 1\<rparr>))"

definition empty_tally :: notify_tally where
  "empty_tally = \<lparr>nt_sent = 0, nt_units = 0, nt_skipped = 0, nt_failed = 0\<rparr>"

definition notify_run ::
    "instant \<Rightarrow> (int \<Rightarrow> instant) \<Rightarrow> (int \<Rightarrow> instant) \<Rightarrow> (int \<Rightarrow> bool) \<Rightarrow> (int \<Rightarrow> notice) \<Rightarrow> sdb \<Rightarrow>
     sdb \<times> notify_tally \<times> (nat + unit)" where
  "notify_run nominate now clock breaks send db =
     (let (db', t) = notify_all now clock breaks send (due_links nominate db) db empty_tally
      in (db', t, if nt_failed t \<noteq> 0 then Inl (nt_failed t) else Inr ()))"

definition started_run ::
    "instant \<Rightarrow> (int \<Rightarrow> instant) \<Rightarrow> (int \<Rightarrow> instant) \<Rightarrow> (int \<Rightarrow> bool) \<Rightarrow> (int \<Rightarrow> notice) \<Rightarrow> sdb \<Rightarrow>
     sdb \<times> notify_tally \<times> (nat + unit)" where
  "started_run nominate now clock breaks send db =
     (let (db', t) = started_all now clock breaks send (due_meeting_ids nominate db) db empty_tally
      in (db', t, if nt_failed t \<noteq> 0 then Inl (nt_failed t) else Inr ()))"

lemma select_links_mem:
  "(l, m, u) \<in> set (select_links P db) \<longleftrightarrow>
     l \<in> set (links db) \<and> m \<in> set (meetups db) \<and> u \<in> set (users db) \<and>
     m_id m = jl_meetup_id l \<and> u_id u = jl_user_id l \<and> P l m u"
  by (auto simp: select_links_def)

end
