(* ===== verification/Sweep_Props.thy ===== *)
theory Sweep_Props
  imports Meeting_Props Notifications
begin

text \<open>
  The deactivation decides under the row lock, whatever was nominated; and the started announcement of a meeting
  goes out at most once in the meeting's whole life, reactivations and reschedules included.
\<close>

section \<open>Deactivation\<close>

lemma empty_pairs: "ps = [] \<longleftrightarrow> (\<forall>a b. (a, b) \<notin> set ps)"
  by (cases ps) auto

lemma due_selected:
  assumes "life_inv db" "m \<in> set (meetups db)" "u \<in> set (users db)" "u_id u = owner_id m"
  shows "select_owned (\<lambda>r v. due_for_deactivation now r v \<and> m_id r = m_id m) db = [] \<longleftrightarrow> \<not> due_for_deactivation now m u"
proof -
  have keys: "distinct (map u_id (users db))" using assms(1) by (simp add: life_inv_def tables_ok_def keys_ok_def)
  have "(r, v) \<in> set (select_owned (\<lambda>r v. due_for_deactivation now r v \<and> m_id r = m_id m) db) \<longleftrightarrow>
      r = m \<and> v = u \<and> due_for_deactivation now m u" for r v
    unfolding select_owned_mem
    using row_unique [OF assms(1,2), of r] distinct_key_unique [OF keys, of v u] assms(2-4) by auto
  then show ?thesis unfolding empty_pairs by simp
qed

text \<open>What a skip says is so.\<close>

definition truthful :: "due_meeting \<Rightarrow> meetup_row \<Rightarrow> user \<Rightarrow> skip_reason \<Rightarrow> bool" where
  "truthful d m u r \<longleftrightarrow>
     (case r of
        MEETING_DELETED \<Rightarrow> False
      | ALREADY_INACTIVE \<Rightarrow> \<not> active m
      | RESCHEDULED \<Rightarrow> active m \<and> datetime m \<noteq> None
      | OWNER_REJOINED \<Rightarrow> active m \<and> datetime m = None \<and> status u \<noteq> LEFT
      | TIER_WINDOW_EXTENDED \<Rightarrow> active m \<and> datetime m = None \<and> dm_owner_supporter_level d < HOST_2 \<and>
          HOST_2 \<le> u_supporter_level u
      | PREDICATE_NO_LONGER_MATCHES \<Rightarrow> active m)"

lemma skip_reason_truthful: "truthful d m u (skip_reason d m u)"
  by (auto simp: truthful_def skip_reason_def window_days_eq tier_window_days_eq split: deactivation_reason.splits if_splits)

text \<open>C13. Deactivation decides again under the row lock. A meeting that is gone, or that is no longer due at the lock's
  clock, is skipped without any write, and the reason of the skip is true of the row. A meeting that is due becomes
  inactive with the clock as its expiration time and keeps every other column, every other meeting is untouched, its
  join links and cards are gone, exactly the placeholders invited into it are deleted, and its cards are queued for
  their last edit.\<close>

theorem deactivation_decides_under_the_lock:
  assumes "tables_ok db" "invitees_own_nothing db"
  shows "case by_id db True (dm_meeting_id d) of
      None \<Rightarrow> deactivate_meeting_locked now clock d db = Some (db, Skipped MEETING_DELETED, [])
    | Some m \<Rightarrow> \<exists>u \<in> set (users db). u_id u = owner_id m \<and>
        (if due_for_deactivation now m u
         then \<exists>db' cleared. deactivate_meeting_locked now clock d db =
                Some (db', Deactivated cleared, map card_id (cards_of db (m_id m))) \<and>
              set (meetups db') = (\<lambda>r. if r = m then m\<lparr>active := False, expiration_time := Some clock\<rparr> else r) ` set (meetups db) \<and>
              links_of db' (m_id m) = [] \<and> cards_of db' (m_id m) = [] \<and>
              (\<forall>v \<in> set (users db). v \<notin> set (users db') \<longleftrightarrow> is_invitee db (u_id v) \<and> has_link db (m_id m) (u_id v))
         else \<exists>r. deactivate_meeting_locked now clock d db = Some (db, Skipped r, []) \<and> truthful d m u r)"
proof (cases "by_id db True (dm_meeting_id d)")
  case None
  then show ?thesis by (simp add: deactivate_meeting_locked_def)
next
  case (Some m)
  have inv: "life_inv db" using assms by (simp add: life_inv_def)
  note m = by_id_Some [OF Some]
  obtain u where owner: "owner_row db m = Some u" and u: "u \<in> set (users db)" "u_id u = owner_id m"
  proof -
    from owner_exists [OF inv] m obtain v where "v \<in> set (users db)" "u_id v = owner_id m" by blast
    then have "owner_row db m \<noteq> None" unfolding owner_row_def first_where_None by blast
    then obtain w where "owner_row db m = Some w" by blast
    with that first_where_Some [of "\<lambda>u. u_id u = owner_id m" "users db" w] show ?thesis by (simp add: owner_row_def)
  qed
  note due = due_selected [OF inv _ u, of now]
  show ?thesis
  proof (cases "due_for_deactivation now m u")
    case False
    then have "deactivate_meeting_locked now clock d db = Some (db, Skipped (skip_reason d m u), [])"
      using due m by (simp add: deactivate_meeting_locked_def Some owner)
    with Some u False skip_reason_truthful [of d m u] show ?thesis by auto
  next
    case True
    let ?f = "\<lambda>r. if m_id r = m_id m then r\<lparr>active := False, expiration_time := Some clock\<rparr> else r"
    let ?db1 = "db\<lparr>meetups := map ?f (meetups db)\<rparr>"
    let ?db2 = "fst (clear_meeting_data (m_id m) ?db1)"
    have run: "deactivate_meeting_locked now clock d db =
        Some (?db2, Deactivated (snd (clear_meeting_data (m_id m) ?db1)), map card_id (cards_of db (m_id m)))"
      using due m True
      by (simp add: deactivate_meeting_locked_def Some owner Let_def update_where_def cards_of_def split: prod.split)
    have inv1: "life_inv ?db1"
      using life_inv_update [OF inv, of "users db" "map ?f (meetups db)"] by (simp add: comp_def if_distrib cong: if_cong)
    have "?f r = (if r = m then m\<lparr>active := False, expiration_time := Some clock\<rparr> else r)" if "r \<in> set (meetups db)" for r
    proof (cases "m_id r = m_id m")
      case True
      with row_unique [OF inv _ that] m have "r = m" by blast
      then show ?thesis by simp
    qed auto
    then have rows: "set (meetups ?db2) = (\<lambda>r. if r = m then m\<lparr>active := False, expiration_time := Some clock\<rparr> else r) ` set (meetups db)"
      unfolding clear_meeting_data_life(2) [OF inv1] by (simp cong: image_cong)
    have inv_eq: "is_invitee ?db1 = is_invitee db" "links_of ?db1 = links_of db"
      by (rule ext, simp add: is_invitee_def links_of_def)+
    have links: "links_of ?db2 (m_id m) = []" and cards: "cards_of ?db2 (m_id m) = []"
      by (simp_all add: clear_meeting_data_def Let_def links_of_def cards_of_def delete_where_def filter_empty_conv)
    have "users ?db2 = delete_where (\<lambda>v. u_id v \<in> set (map jl_user_id (filter (\<lambda>l. is_invitee db (jl_user_id l)) (links_of db (m_id m))))) (users db)"
      by (cases "filter (\<lambda>l. is_invitee db (jl_user_id l)) (links_of db (m_id m)) = []")
        (simp_all add: clear_meeting_data_def Let_def users_delete_users inv_eq delete_where_def)
    moreover have "u_id v \<in> set (map jl_user_id (filter (\<lambda>l. is_invitee db (jl_user_id l)) (links_of db (m_id m)))) \<longleftrightarrow>
        is_invitee db (u_id v) \<and> has_link db (m_id m) (u_id v)" for v
      unfolding has_link_def set_map set_filter by (force simp: image_iff)
    ultimately have "\<forall>v \<in> set (users db). v \<notin> set (users ?db2) \<longleftrightarrow> is_invitee db (u_id v) \<and> has_link db (m_id m) (u_id v)"
      by (simp only: set_delete_where mem_Collect_eq) blast
    with Some u True run rows links cards show ?thesis by auto
  qed
qed

section \<open>The started announcement\<close>

text \<open>One meeting id, and everything that can happen to it: the jobs and handlers of \<^verbatim>\<open>Meeting_Life\<close>, one unit of the
  started sweep, and any other transaction. \<^verbatim>\<open>notify_meetings_started.py\<close> is the only code that writes
  \<open>started_notification_sent\<close>, so an \<open>Edit\<close> keeps it and may change everything else, the date included.\<close>

datatype announce_event = Life life_event | Announce instant "started_skip + int list" | Edit

inductive announce_step :: "int \<Rightarrow> sdb \<Rightarrow> announce_event \<Rightarrow> sdb \<Rightarrow> bool" for mid where
  life: "life_step db e db' \<Longrightarrow> e \<noteq> Other \<Longrightarrow> announce_step mid db (Life e) db'"
| announce: "notify_meeting_started now mid db = (db', r) \<Longrightarrow> announce_step mid db (Announce now r) db'"
| edit: "life_inv db' \<Longrightarrow>
    \<forall>m' \<in> set (meetups db'). m_id m' = mid \<longrightarrow>
      (\<exists>m \<in> set (meetups db). m_id m = mid \<and> started_notification_sent m = started_notification_sent m') \<Longrightarrow>
    announce_step mid db Edit db'"

fun announced :: "announce_event \<Rightarrow> bool" where
  "announced (Announce now (Inr told)) = True"
| "announced _ = False"

lemma mem_update_where: "x \<in> set (update_where P f rows) \<longleftrightarrow> (\<exists>r \<in> set rows. x = (if P r then f r else r))"
  by (auto simp: update_where_def)

definition flagged :: "int \<Rightarrow> sdb \<Rightarrow> bool" where
  "flagged mid db \<longleftrightarrow> (\<forall>m \<in> set (meetups db). m_id m = mid \<longrightarrow> started_notification_sent m)"

lemma evolves_started: "evolves db e m m' \<Longrightarrow> e \<noteq> Other \<Longrightarrow> started_notification_sent m' = started_notification_sent m"
  by (auto simp: evolves_def record_deletion_warning_def restart_def clear_deletion_warning_def split: life_event.splits)

text \<open>The sweep of one meeting: announced means it was active, its start had come and it carried no flag.\<close>

lemma notify_meeting_started_cases:
  assumes "notify_meeting_started now mid db = (db', r)"
  obtains (skipped) s where "r = Inl s" "db' = db"
    | (told) m ids where "r = Inr ids" "m \<in> set (meetups db)" "m_id m = mid" "meeting_to_notify_started now m"
      "db' = db\<lparr>meetups := update_where (\<lambda>r. m_id r = mid) (\<lambda>r. r\<lparr>started_notification_sent := True\<rparr>) (meetups db)\<rparr>"
proof (cases "first_where (\<lambda>m. m_id m = mid \<and> meeting_to_notify_started now m) (meetups db)")
  case None
  with assms skipped show ?thesis by (auto simp: notify_meeting_started_def)
next
  case (Some m)
  with first_where_Some [OF Some] assms told show ?thesis by (auto simp: notify_meeting_started_def Let_def)
qed

lemma announce_step_inv:
  assumes "announce_step mid db e db'" "life_inv db"
  shows "life_inv db'"
  using assms
proof cases
  case (life e')
  with life_step_sound assms(2) show ?thesis by blast
next
  case (announce now r)
  show ?thesis
  proof (rule notify_meeting_started_cases [OF announce(2)])
    fix s assume "db' = db" then show ?thesis using assms(2) by simp
  next
    let ?ms = "update_where (\<lambda>r. m_id r = mid) (\<lambda>r. r\<lparr>started_notification_sent := True\<rparr>) (meetups db)"
    assume "db' = db\<lparr>meetups := ?ms\<rparr>"
    then show ?thesis using life_inv_update [OF assms(2), of "users db" ?ms] by (simp add: map_update_where)
  qed
qed

lemma announce_step_flagged:
  assumes "announce_step mid db e db'" "life_inv db" "flagged mid db"
  shows "flagged mid db' \<and> \<not> announced e"
  using assms(1)
proof cases
  case (life e')
  have rows: "step_rows db e' db'" using life_step_sound [OF life(2) assms(2)] by blast
  have "started_notification_sent m'" if "m' \<in> set (meetups db')" "m_id m' = mid" for m'
  proof -
    from rows that(1) life(3) obtain m where m: "m \<in> set (meetups db)" "evolves db e' m m'" unfolding step_rows_def by blast
    with assms(3) that(2) evolves_keys [OF m(2)] evolves_started [OF m(2) life(3)] show ?thesis by (simp add: flagged_def)
  qed
  with life(1) show ?thesis by (simp add: flagged_def)
next
  case (announce now r)
  show ?thesis
  proof (rule notify_meeting_started_cases [OF announce(2)])
    fix s assume "r = Inl s" "db' = db" then show ?thesis using assms(3) announce(1) by simp
  next
    fix m assume "m \<in> set (meetups db)" "m_id m = mid" "meeting_to_notify_started now m"
    with assms(3) show ?thesis by (simp add: flagged_def meeting_to_notify_started_def)
  qed
next
  case edit
  with assms(3) show ?thesis unfolding flagged_def by fastforce
qed

lemma announced_flags:
  assumes "announce_step mid db e db'" "announced e"
  shows "flagged mid db'"
  using assms(1)
proof cases
  case (announce now r)
  show ?thesis
  proof (rule notify_meeting_started_cases [OF announce(2)])
    fix s assume "r = Inl s" then show ?thesis using assms(2) announce(1) by simp
  next
    assume db': "db' = db\<lparr>meetups := update_where (\<lambda>r. m_id r = mid) (\<lambda>r. r\<lparr>started_notification_sent := True\<rparr>) (meetups db)\<rparr>"
    show ?thesis
      unfolding flagged_def
    proof (intro ballI impI)
      fix m assume m: "m \<in> set (meetups db')" "m_id m = mid"
      then obtain r where "m = (if m_id r = mid then r\<lparr>started_notification_sent := True\<rparr> else r)"
        unfolding db' by (simp add: mem_update_where) blast
      with m(2) show "started_notification_sent m" by (cases "m_id r = mid") simp_all
    qed
  qed
qed (use assms(2) in simp_all)

lemma flagged_never_announced:
  "steps (announce_step mid) db es db' \<Longrightarrow> life_inv db \<Longrightarrow> flagged mid db \<Longrightarrow> filter announced es = []"
proof (induction rule: steps.induct)
  case (steps_Cons s e t es u)
  with announce_step_flagged announce_step_inv show ?case by simp
qed simp

text \<open>C12. The participants of a meeting are told that it started at most once in the meeting's whole life, whatever runs
  in between. That holds across a reactivation too: the flag is never taken back, so a meeting that was announced once,
  deactivated, reactivated as a fresh draft and given a new date is not announced again.\<close>

theorem announced_at_most_once:
  assumes "steps (announce_step mid) db es db'" "tables_ok db" "invitees_own_nothing db"
  shows "length (filter announced es) \<le> 1"
proof -
  have "life_inv db" using assms(2,3) by (simp add: life_inv_def)
  with assms(1) show ?thesis
  proof (induction rule: steps.induct)
    case (steps_Cons s e t es u)
    have inv: "life_inv t" using announce_step_inv steps_Cons by blast
    show ?case
    proof (cases "announced e")
      case True
      with announced_flags steps_Cons(1) have "flagged mid t" by blast
      from flagged_never_announced [OF steps_Cons(2) inv this] show ?thesis by simp
    next
      case False
      with steps_Cons inv show ?thesis by simp
    qed
  qed simp
qed

end
