(* ===== verification/Life_Examples.thy ===== *)
theory Life_Examples
  imports Sweep_Props Meetup_Examples
begin

text \<open>
  One meeting of one owner, run through its whole life: it is deactivated on day 1, its owner is warned on day 86
  and the deletion sweep removes it on day 100. The properties of the sweeps are applied to it.
\<close>

definition ex_row :: meetup_row where
  "ex_row = \<lparr>m_id = 5, owner_id = 0, waiting_list = True, public = False, allow_invitation = True, incognito = False,
     lock_on_start = False, show_timezone = False, clock_24h = True, date_format = DEFAULT,
     expiration_notification_sent = False, started_notification_sent = False, datetime = Some 0,
     end_datetime = None, activated_time = 0, expiration_time = None, warned_time = None,
     max_members = None, active = True\<rparr>"

definition ex_tables :: sdb where
  "ex_tables = \<lparr>users = [ex_user 0], meetups = [ex_row], links = [], cards = [], pending = []\<rparr>"

definition ex_due :: due_meeting where
  "ex_due = \<lparr>dm_meeting_id = 5, dm_owner_tg_user_id = 700, dm_owner_supporter_level = NONE,
     dm_reason = PAST_END_DATETIME_PLUS_OWNER_TIMEOUT\<rparr>"

definition ex_ended :: sdb where
  "ex_ended = ex_tables\<lparr>meetups := [ex_row\<lparr>active := False, expiration_time := Some (days 1)\<rparr>]\<rparr>"

definition ex_warned :: sdb where
  "ex_warned = ex_tables\<lparr>meetups := [record_deletion_warning (days 86) (ex_row\<lparr>active := False, expiration_time := Some (days 1)\<rparr>)]\<rparr>"

definition all_reached :: "int \<Rightarrow> notice" where
  "all_reached i = Reached"

lemmas ex_life_defs = ex_tables_def ex_ended_def ex_warned_def ex_row_def ex_due_def ex_user_def

lemma ex_life_inv: "life_inv ex_tables"
  by (simp add: life_inv_def tables_ok_def keys_ok_def refs_ok_def invitees_own_nothing_def is_invitee_def ex_life_defs
      ANONYMOUS_INVITEE_TG_ID_def)

lemma ex_deactivates:
  "deactivate_meeting_locked (days 1) (days 1) ex_due ex_tables =
     Some (ex_ended, Deactivated \<lparr>invited_user_ids = [], invited_users_deleted = 0, participants_removed = 0, messages_deleted = 0\<rparr>, [])"
  by code_simp

lemma ex_warns: "fst (warn_owner_chunk (days 86) (days 86) all_reached [0] ex_ended) = ex_warned"
  by code_simp

lemma ex_deletes: "fst (delete_owner_chunk (days 100) (days 100) all_reached [0] ex_warned) = ex_tables\<lparr>meetups := []\<rparr>"
  by code_simp

definition ex_events :: "life_event list" where
  "ex_events = [Deactivate (days 1) (days 1) ex_due, Warn (days 86) (days 86) all_reached [0],
     Delete (days 100) (days 100) all_reached [0]]"

lemma ex_run: "steps life_step ex_tables ex_events (ex_tables\<lparr>meetups := []\<rparr>)"
proof -
  have "life_step ex_tables (Deactivate (days 1) (days 1) ex_due) ex_ended"
    by (rule life_step.deactivate [OF ex_deactivates])
  moreover have "life_step ex_ended (Warn (days 86) (days 86) all_reached [0]) ex_warned"
    using life_step.warn ex_warns by (metis prod.collapse)
  moreover have "life_step ex_warned (Delete (days 100) (days 100) all_reached [0]) (ex_tables\<lparr>meetups := []\<rparr>)"
    using life_step.delete ex_deletes by (metis prod.collapse)
  ultimately show ?thesis unfolding ex_events_def by auto
qed

theorem lost_meeting_had_a_reason_witness:
  "\<exists>es1 e es2 s r u. ex_events = es1 @ e # es2 \<and> steps life_step ex_tables es1 s \<and> r \<in> set (meetups s) \<and>
     m_id r = 5 \<and> u \<in> set (users s) \<and> u_id u = 0 \<and> reason_to_delete ex_tables es1 e u r"
proof -
  have m: "ex_row \<in> set (meetups ex_tables)" "active ex_row" "unstamped ex_row"
    "m_id ex_row \<notin> m_id ` set (meetups (ex_tables\<lparr>meetups := []\<rparr>))" "m_id ex_row = 5" "owner_id ex_row = 0"
    by (simp_all add: ex_life_defs unstamped_def)
  from lost_meeting_had_a_reason [OF ex_run ex_life_inv m(1-4), unfolded m(5,6)] show ?thesis
    by (elim exE conjE) (intro exI conjI; assumption)
qed

lemma ex_tables_ok: "tables_ok ex_tables" "invitees_own_nothing ex_tables" "stamps_ok ex_tables"
  using ex_life_inv by (simp_all add: life_inv_def stamps_ok_def unstamped_def ex_life_defs)

theorem tables_stay_consistent_witness:
  "tables_ok (ex_tables\<lparr>meetups := []\<rparr>) \<and> invitees_own_nothing (ex_tables\<lparr>meetups := []\<rparr>) \<and> stamps_ok (ex_tables\<lparr>meetups := []\<rparr>)"
  by (rule tables_stay_consistent [OF ex_run ex_tables_ok])

definition ex_sweep :: sweep_world where
  "ex_sweep = \<lparr>sw_nominate = days 100, sw_now = (\<lambda>_. days 100), sw_clock = (\<lambda>_. days 100), sw_send = (\<lambda>_ _. Reached),
     sw_breaks = (\<lambda>_. False)\<rparr>"

theorem deletion_sweep_removes_the_due_witness:
  "to_delete (days 100) (hd (meetups ex_warned)) (ex_user 0) \<and>
   hd (meetups ex_warned) \<notin> set (meetups (fst (delete_run ex_sweep ex_warned)))"
proof -
  have ok: "tables_ok ex_warned" "invitees_own_nothing ex_warned"
    by (simp_all add: tables_ok_def keys_ok_def refs_ok_def invitees_own_nothing_def is_invitee_def ex_life_defs
        ANONYMOUS_INVITEE_TG_ID_def record_deletion_warning_def)
  have row: "hd (meetups ex_warned) \<in> set (meetups ex_warned)" "ex_user 0 \<in> set (users ex_warned)"
    "u_id (ex_user 0) = owner_id (hd (meetups ex_warned))"
    by (simp_all add: ex_life_defs record_deletion_warning_def)
  have due: "to_delete (days 100) (hd (meetups ex_warned)) (ex_user 0)" by code_simp
  have world: "\<forall>k. \<not> sw_breaks ex_sweep k \<and> sw_nominate ex_sweep \<le> sw_now ex_sweep k"
    "\<forall>k. sw_send ex_sweep k (u_id (ex_user 0)) \<noteq> Raised" "sw_nominate ex_sweep = days 100"
    by (simp_all add: ex_sweep_def)
  note sweep = deletion_sweep_removes_the_due [OF ok refl, of ex_sweep]
  have "hd (meetups ex_warned) \<notin> set (meetups (fst (delete_run ex_sweep ex_warned)))"
    by (rule conjunct2 [OF conjunct2 [OF conjunct2 [OF conjunct2 [OF sweep]]], rule_format, OF _ row(1,2)])
      (use world row(3) due in auto)
  with due show ?thesis by blast
qed

theorem deactivation_decides_under_the_lock_witness:
  "\<exists>db' cleared. deactivate_meeting_locked (days 1) (days 1) ex_due ex_tables = Some (db', Deactivated cleared, []) \<and>
     set (meetups db') = {ex_row\<lparr>active := False, expiration_time := Some (days 1)\<rparr>}"
proof -
  have "by_id ex_tables True (dm_meeting_id ex_due) = Some ex_row" "due_for_deactivation (days 1) ex_row (ex_user 0)"
    "cards_of ex_tables (m_id ex_row) = []" "set (meetups ex_tables) = {ex_row}" "users ex_tables = [ex_user 0]"
    by (code_simp, code_simp, simp_all add: ex_tables_def cards_of_def)
  with deactivation_decides_under_the_lock [OF ex_tables_ok(1,2), where now = "days 1" and clock = "days 1" and d = ex_due]
  show ?thesis by auto
qed

text \<open>The meeting is announced, ends, is reactivated and gets a new date: the second start is not announced.\<close>

definition ex_announced :: sdb where
  "ex_announced = ex_tables\<lparr>meetups := [ex_row\<lparr>started_notification_sent := True\<rparr>]\<rparr>"

definition ex_announced_end :: sdb where
  "ex_announced_end = ex_tables\<lparr>meetups := [ex_row\<lparr>started_notification_sent := True, active := False,
     expiration_time := Some (days 1)\<rparr>]\<rparr>"

definition ex_fresh :: sdb where
  "ex_fresh = ex_tables\<lparr>meetups := [restart (days 2) (ex_row\<lparr>started_notification_sent := True\<rparr>)]\<rparr>"

definition ex_redated :: sdb where
  "ex_redated = ex_tables\<lparr>meetups := [(restart (days 2) (ex_row\<lparr>started_notification_sent := True\<rparr>))\<lparr>datetime := Some (days 3)\<rparr>]\<rparr>"

definition ex_tap :: tg_update where
  "ex_tap = \<lparr>effective_user = Some 700, effective_chat = None, effective_message = None,
     tapped = Some \<lparr>q_inline_message_id = Some ''card'', q_chat_instance = None\<rparr>\<rparr>"

lemma ex_announce_run:
  "steps (announce_step 5) ex_tables
     [Announce 1 (Inr []), Life (Deactivate (days 1) (days 1) ex_due), Life (Reactivate default_limits (days 2) ex_tap 5),
      Edit, Announce (days 4) (Inl already_notified)] ex_redated"
proof -
  have "notify_meeting_started 1 5 ex_tables = (ex_announced, Inr [])" by code_simp
  moreover have "deactivate_meeting_locked (days 1) (days 1) ex_due ex_announced =
     Some (ex_announced_end, Deactivated \<lparr>invited_user_ids = [], invited_users_deleted = 0, participants_removed = 0, messages_deleted = 0\<rparr>, [])"
    by code_simp
  moreover have "reactivate_meeting default_limits (days 2) ex_tap 5 ex_announced_end = Inr (ex_fresh, Reactivated)" by code_simp
  moreover have "announce_step 5 ex_fresh Edit ex_redated"
  proof (rule announce_step.edit)
    show "life_inv ex_redated"
      by (simp add: life_inv_def tables_ok_def keys_ok_def refs_ok_def invitees_own_nothing_def is_invitee_def ex_redated_def
          ex_life_defs restart_def clear_deletion_warning_def ANONYMOUS_INVITEE_TG_ID_def)
  qed (simp add: ex_redated_def ex_fresh_def ex_life_defs restart_def clear_deletion_warning_def)
  moreover have "notify_meeting_started (days 4) 5 ex_redated = (ex_redated, Inl already_notified)" by code_simp
  ultimately show ?thesis
    by (auto intro!: steps_Cons steps_Nil intro: announce_step.intros life_step.deactivate life_step.reactivate
        simp del: steps_Cons_iff steps_Nil_iff)
qed

theorem announced_at_most_once_witness:
  "length (filter announced [Announce 1 (Inr []), Life (Deactivate (days 1) (days 1) ex_due),
     Life (Reactivate default_limits (days 2) ex_tap 5), Edit, Announce (days 4) (Inl already_notified)]) \<le> 1"
  by (rule announced_at_most_once [OF ex_announce_run ex_tables_ok(1,2)])

definition ex_card :: card_row where
  "ex_card = \<lparr>card_id = 1, card_meetup_id = Some 5, message_id = None, chat_id = None, inline_message_id = Some ''card'',
     chat_instance = None\<rparr>"

theorem guards_let_in_witness:
  "shared_meeting (ex_tables\<lparr>cards := [ex_card]\<rparr>) None 5 ex_tap True = Inr ex_row \<and> card_claims ex_tap ex_card"
proof -
  have run: "shared_meeting (ex_tables\<lparr>cards := [ex_card]\<rparr>) None 5 ex_tap True = Inr ex_row" by code_simp
  have "\<not> public ex_row" by (simp add: ex_row_def)
  with guards_let_in [of "ex_tables\<lparr>cards := [ex_card]\<rparr>" None 5 OWNER ex_row ex_tap True] run show ?thesis by simp
qed

end
