(* ===== verification/Roster.thy ===== *)
theory Roster
  imports Guards
begin

text \<open>
  The handlers that move people in and out of a meeting, on the tables: joining and leaving from a card
  (\<^verbatim>\<open>handlers/meeting/join_leave.py\<close>), inviting a placeholder (\<^verbatim>\<open>invite_users.py\<close>), kicking out
  (\<^verbatim>\<open>edit/edit_meeting_kickout_participants.py\<close>) and changing the limit (\<^verbatim>\<open>edit/edit_meeting_participants.py\<close>).

  Each handler loads the meeting with its join links under the row lock, works on the loaded objects of
  \<^verbatim>\<open>Meetups\<close> and writes the links back; \<open>load_meeting\<close> and \<open>store_links\<close> are the two directions of that mapping.
  Transactions on one meeting are serialised by the lock, so the race branch of \<open>racy_flush\<close>, which needs a second
  writer of the same link, is not part of a single transaction. Keys the database assigns are arguments.
\<close>

section \<open>Loading and storing a meeting\<close>

definition user_row :: "sdb \<Rightarrow> int \<Rightarrow> user option" where
  "user_row db uid = first_where (\<lambda>u. u_id u = uid) (users db)"

definition load_link :: "sdb \<Rightarrow> link_row \<Rightarrow> joined_link option" where
  "load_link db l =
     (case user_row db (jl_user_id l) of None \<Rightarrow> None
      | Some u \<Rightarrow> Some \<lparr>l_id = Some (jl_id l), l_user = u,
          l_invited_by = (case jl_invited_by l of None \<Rightarrow> None | Some i \<Rightarrow> user_row db i),
          l_created_time = jl_created_time l, is_waiting_list = jl_waiting l, notification_sent = jl_notified l\<rparr>)"

definition load_meeting :: "sdb \<Rightarrow> meetup_row \<Rightarrow> meetup" where
  "load_meeting db m = meetup_row.extend m (meetup.fields (List.map_filter (load_link db) (links_of db (m_id m))))"

text \<open>A link without a key is the one the flush inserts.\<close>

definition unload_link :: "int \<Rightarrow> int \<Rightarrow> joined_link \<Rightarrow> link_row" where
  "unload_link mid fresh l =
     \<lparr>jl_id = (case l_id l of None \<Rightarrow> fresh | Some i \<Rightarrow> i), jl_user_id = u_id (l_user l), jl_meetup_id = mid,
      jl_invited_by = map_option u_id (l_invited_by l), jl_created_time = l_created_time l,
      jl_waiting = is_waiting_list l, jl_notified = notification_sent l\<rparr>"

definition store_links :: "int \<Rightarrow> int \<Rightarrow> joined_link list \<Rightarrow> sdb \<Rightarrow> sdb" where
  "store_links mid fresh ls db =
     db\<lparr>links := filter (\<lambda>l. jl_meetup_id l \<noteq> mid) (links db) @ map (unload_link mid fresh) ls\<rparr>"

section \<open>Joining and leaving from a card\<close>

datatype roster_error = Rejected guard_error | NoMessageAvailable | OwnerMissing | LinkMissing | SettingsMissing

datatype join_answer =
    JOIN_LOCKED | JOIN_ALREADY_JOINED | JOIN_FULL | JOIN_FULL_WAITING_LIST | JOIN_SUCCESS
  | LEAVE_SUCCESS "int list" | LEAVE_NOT_JOINED

text \<open>The tapped card is stored the first time somebody uses it; in the bot chat it is not.\<close>

definition capture_chat_instance :: "tg_update \<Rightarrow> card_row \<Rightarrow> card_row" where
  "capture_chat_instance up c =
     (case tapped up of None \<Rightarrow> c
      | Some q \<Rightarrow> if chat_instance c = None \<and> q_inline_message_id q \<noteq> None
                  then c\<lparr>chat_instance := q_chat_instance q\<rparr> else c)"

definition card_from_update :: "int \<Rightarrow> tg_update \<Rightarrow> int \<Rightarrow> roster_error + card_row" where
  "card_from_update fresh up mid =
     (let message = map_option snd (effective_message up);
          inline = (case tapped up of None \<Rightarrow> None
                    | Some q \<Rightarrow> (case q_inline_message_id q of None \<Rightarrow> None | Some i \<Rightarrow> if i = [] then None else Some i));
          instance = (case tapped up of None \<Rightarrow> None | Some q \<Rightarrow> if inline = None then None else q_chat_instance q)
      in if message = None \<and> inline = None then Inl NoMessageAvailable
         else Inr \<lparr>card_id = fresh, card_meetup_id = Some mid, message_id = message,
                   chat_id = map_option fst (effective_chat up), inline_message_id = inline, chat_instance = instance\<rparr>)"

definition track_card :: "int \<Rightarrow> tg_update \<Rightarrow> int \<Rightarrow> sdb \<Rightarrow> roster_error + sdb" where
  "track_card fresh up mid db =
     (case message_from_update db mid up of
        Some c \<Rightarrow> Inr (db\<lparr>cards := update_where (\<lambda>r. card_id r = card_id c) (capture_chat_instance up) (cards db)\<rparr>)
      | None \<Rightarrow>
          if in_bot_chat up then Inr db
          else (case card_from_update fresh up mid of Inl e \<Rightarrow> Inl e | Inr c \<Rightarrow> Inr (db\<lparr>cards := cards db @ [c]\<rparr>)))"

text \<open>\<open>notify_users_promoted_from_waiting_list\<close> writes to the promoted who were not invited and reads their
  language for it. A placeholder is created without a settings row, so reading its language raises.\<close>

definition notify_promoted :: "joined_link list \<Rightarrow> roster_error + int list" where
  "notify_promoted promoted =
     (let us = map l_user (filter (\<lambda>l. l_invited_by l = None) promoted)
      in if \<exists>u \<in> set us. tg_user_id u = ANONYMOUS_INVITEE_TG_ID then Inl SettingsMissing
         else Inr (map tg_user_id us))"

record roster_world =
  rw_limits :: limits_config
  rw_now :: instant
  rw_link :: int
  rw_card :: int
  rw_user :: int

definition with_shared_meeting ::
    "roster_world \<Rightarrow> tg_update \<Rightarrow> user \<Rightarrow> int \<Rightarrow> sdb \<Rightarrow>
     (sdb \<Rightarrow> meetup_row \<Rightarrow> user \<Rightarrow> roster_error + sdb \<times> join_answer) \<Rightarrow> roster_error + sdb \<times> join_answer" where
  "with_shared_meeting w up user mid db operation =
     (case shared_meeting db (Some user) mid up True of Inl e \<Rightarrow> Inl (Rejected e)
      | Inr m \<Rightarrow>
          (case owner_row db m of None \<Rightarrow> Inl OwnerMissing
           | Some owner \<Rightarrow>
               if \<not> attendance_is_open (rw_now w) (load_meeting db m) then Inr (db, JOIN_LOCKED)
               else (case track_card (rw_card w) up mid db of Inl e \<Rightarrow> Inl e | Inr db1 \<Rightarrow> operation db1 m owner)))"

definition join_operation ::
    "roster_world \<Rightarrow> user \<Rightarrow> sdb \<Rightarrow> meetup_row \<Rightarrow> user \<Rightarrow> roster_error + sdb \<times> join_answer" where
  "join_operation w user db m owner =
     (let meeting = load_meeting db m in
      if has_link db (m_id m) (u_id user) then Inr (db, JOIN_ALREADY_JOINED)
      else if \<not> join_allowed (rw_limits w) owner meeting then Inr (db, JOIN_FULL)
      else (case add_participant (rw_limits w) owner (rw_now w) user None meeting of
              (meeting', None) \<Rightarrow> Inr (db, JOIN_ALREADY_JOINED)
            | (meeting', Some l) \<Rightarrow>
                Inr (store_links (m_id m) (rw_link w) (joined_links meeting') db,
                     if is_waiting_list l then JOIN_FULL_WAITING_LIST else JOIN_SUCCESS)))"

definition leave_operation ::
    "roster_world \<Rightarrow> user \<Rightarrow> sdb \<Rightarrow> meetup_row \<Rightarrow> user \<Rightarrow> roster_error + sdb \<times> join_answer" where
  "leave_operation w user db m owner =
     (let meeting = load_meeting db m in
      case first_where (\<lambda>l. u_id (l_user l) = u_id user) (joined_links meeting) of
        None \<Rightarrow> Inr (db, LEAVE_NOT_JOINED)
      | Some link \<Rightarrow>
          (case remove_participant (rw_limits w) owner link meeting of
             Inl e \<Rightarrow> Inl LinkMissing
           | Inr (meeting', promoted) \<Rightarrow>
               (case notify_promoted promoted of Inl e \<Rightarrow> Inl e
                | Inr told \<Rightarrow> Inr (store_links (m_id m) (rw_link w) (joined_links meeting') db, LEAVE_SUCCESS told))))"

text \<open>Somebody the bot does not know is registered first, from the profile in the update.\<close>

definition default_user :: "roster_world \<Rightarrow> int \<Rightarrow> string \<Rightarrow> string option \<Rightarrow> user" where
  "default_user w tg name nick =
     \<lparr>u_id = rw_user w, tg_user_id = tg, first_name = name, username = nick, status = JOINED_ONLY,
      u_created_time = Some (rw_now w), left_time = None, member_time = None, u_supporter_level = NONE,
      granted_supporter_level = NONE, u_settings = default_settings\<rparr>"

definition acting_user ::
    "roster_world \<Rightarrow> tg_update \<Rightarrow> string \<Rightarrow> string option \<Rightarrow> sdb \<Rightarrow> roster_error + sdb \<times> user" where
  "acting_user w up name nick db =
     (case current_user up db of
        Inr u \<Rightarrow> Inr (db, u)
      | Inl (UserNotFound tg) \<Rightarrow>
          (let u = default_user w tg name nick in Inr (db\<lparr>users := users db @ [u]\<rparr>, u))
      | Inl e \<Rightarrow> Inl (Rejected e))"

definition join_meetup ::
    "roster_world \<Rightarrow> tg_update \<Rightarrow> string \<Rightarrow> string option \<Rightarrow> int \<Rightarrow> sdb \<Rightarrow> roster_error + sdb \<times> join_answer" where
  "join_meetup w up name nick mid db =
     (case acting_user w up name nick db of Inl e \<Rightarrow> Inl e
      | Inr (db1, user) \<Rightarrow> with_shared_meeting w up user mid db1 (join_operation w user))"

definition leave_meetup ::
    "roster_world \<Rightarrow> tg_update \<Rightarrow> string \<Rightarrow> string option \<Rightarrow> int \<Rightarrow> sdb \<Rightarrow> roster_error + sdb \<times> join_answer" where
  "leave_meetup w up name nick mid db =
     (case acting_user w up name nick db of Inl e \<Rightarrow> Inl e
      | Inr (db1, user) \<Rightarrow> with_shared_meeting w up user mid db1 (leave_operation w user))"

section \<open>Inviting a placeholder\<close>

datatype invite_answer = MEETING_NOT_FOUND | INVITES_DISABLED | MEETING_FULL | Invited bool

definition invitations_open :: "limits_config \<Rightarrow> user \<Rightarrow> meetup \<Rightarrow> bool" where
  "invitations_open cfg owner m \<longleftrightarrow> join_allowed cfg owner m \<and> allow_invitation m"

definition placeholder :: "roster_world \<Rightarrow> string \<Rightarrow> user" where
  "placeholder w name = default_user w ANONYMOUS_INVITEE_TG_ID name None"

definition confirm_user_invitation ::
    "roster_world \<Rightarrow> tg_update \<Rightarrow> int \<Rightarrow> int \<Rightarrow> string \<Rightarrow> sdb \<Rightarrow> roster_error + sdb \<times> invite_answer" where
  "confirm_user_invitation w up authorized mid name db =
     (case current_user up db of Inl e \<Rightarrow> Inl (Rejected e)
      | Inr user \<Rightarrow>
          if mid \<noteq> authorized then Inr (db, MEETING_NOT_FOUND)
          else (case conversation_meeting db mid of Inl e \<Rightarrow> Inl (Rejected e)
            | Inr m \<Rightarrow>
                (case owner_row db m of None \<Rightarrow> Inl OwnerMissing
                 | Some owner \<Rightarrow>
                     let meeting = load_meeting db m in
                     if \<not> invitations_open (rw_limits w) owner meeting then
                       Inr (db, if join_allowed (rw_limits w) owner meeting then INVITES_DISABLED else MEETING_FULL)
                     else
                       let invited = placeholder w name in
                       (case add_participant (rw_limits w) owner (rw_now w) invited (Some user) meeting of
                          (meeting', None) \<Rightarrow> Inr (db, MEETING_FULL)
                        | (meeting', Some l) \<Rightarrow>
                            Inr (store_links mid (rw_link w) (joined_links meeting') (db\<lparr>users := users db @ [invited]\<rparr>),
                                 Invited (is_waiting_list l))))))"

section \<open>Kicking out\<close>

datatype kick_answer = KICK_OUT_NOT_IN_MEETING | KickedOut "int list"

definition kickout_participant_confirm ::
    "roster_world \<Rightarrow> tg_update \<Rightarrow> int \<Rightarrow> int \<Rightarrow> sdb \<Rightarrow> roster_error + sdb \<times> kick_answer" where
  "kickout_participant_confirm w up mid uid db =
     (case current_user up db of Inl e \<Rightarrow> Inl (Rejected e)
      | Inr user \<Rightarrow>
          (case meeting db (Some user) mid OWNER of Inl e \<Rightarrow> Inl (Rejected e)
           | Inr m \<Rightarrow>
               (case participant uid (load_meeting db m) of
                  None \<Rightarrow> Inr (db, KICK_OUT_NOT_IN_MEETING)
                | Some link \<Rightarrow>
                    (case remove_participant (rw_limits w) user link (load_meeting db m) of
                       Inl e \<Rightarrow> Inl LinkMissing
                     | Inr (meeting', promoted) \<Rightarrow>
                         let db1 = store_links mid (rw_link w) (joined_links meeting') db;
                             db2 = (if l_invited_by link \<noteq> None then delete_users_where (\<lambda>u. u_id u = uid) db1 else db1)
                         in (case notify_promoted promoted of Inl e \<Rightarrow> Inl e | Inr told \<Rightarrow> Inr (db2, KickedOut told))))))"

section \<open>The participant limit\<close>

datatype limit_answer = PARTICIPANT_CAPACITY_EXCEEDED | LimitSet "int list" | ConfirmFirst

definition set_participant_limit ::
    "roster_world \<Rightarrow> meetup_row \<Rightarrow> user \<Rightarrow> int option \<Rightarrow> sdb \<Rightarrow> roster_error + sdb \<times> limit_answer" where
  "set_participant_limit w m owner new_max db =
     (let db1 = db\<lparr>meetups := update_where (\<lambda>r. m_id r = m_id m) (\<lambda>r. r\<lparr>max_members := new_max\<rparr>) (meetups db)\<rparr>;
          (meeting', promoted) = promote_from_waiting_list (rw_limits w) owner (load_meeting db1 (m\<lparr>max_members := new_max\<rparr>))
      in case notify_promoted promoted of Inl e \<Rightarrow> Inl e
         | Inr told \<Rightarrow> Inr (store_links (m_id m) (rw_link w) (joined_links meeting') db1, LimitSet told))"

definition participant_capacity_rejection :: "limits_config \<Rightarrow> user \<Rightarrow> int \<Rightarrow> bool" where
  "participant_capacity_rejection cfg u requested =
     (case participant_capacity cfg (u_supporter_level u) of None \<Rightarrow> False | Some cap \<Rightarrow> requested > cap)"

definition with_meeting ::
    "tg_update \<Rightarrow> int \<Rightarrow> meeting_access \<Rightarrow> sdb \<Rightarrow> (user \<Rightarrow> meetup_row \<Rightarrow> roster_error + sdb \<times> limit_answer) \<Rightarrow>
     roster_error + sdb \<times> limit_answer" where
  "with_meeting up mid access db k =
     (case current_user up db of Inl e \<Rightarrow> Inl (Rejected e)
      | Inr user \<Rightarrow> (case meeting db (Some user) mid access of Inl e \<Rightarrow> Inl (Rejected e) | Inr m \<Rightarrow> k user m))"

text \<open>The typed number is positive: the filter in front of the handler only lets such messages through.\<close>

definition edit_meeting_max_participants ::
    "roster_world \<Rightarrow> tg_update \<Rightarrow> int \<Rightarrow> int \<Rightarrow> sdb \<Rightarrow> roster_error + sdb \<times> limit_answer" where
  "edit_meeting_max_participants w up mid requested db =
     with_meeting up mid OWNER_ANY_STATE db (\<lambda>user m.
       if participant_capacity_rejection (rw_limits w) user requested then Inr (db, PARTICIPANT_CAPACITY_EXCEEDED)
       else set_participant_limit w m user (Some requested) db)"

definition edit_meeting_no_limit_participants ::
    "roster_world \<Rightarrow> tg_update \<Rightarrow> int \<Rightarrow> sdb \<Rightarrow> roster_error + sdb \<times> limit_answer" where
  "edit_meeting_no_limit_participants w up mid db =
     with_meeting up mid OWNER db (\<lambda>user m. set_participant_limit w m user None db)"

definition remove_limit :: "roster_world \<Rightarrow> tg_update \<Rightarrow> int \<Rightarrow> sdb \<Rightarrow> roster_error + sdb \<times> limit_answer" where
  "remove_limit w up mid db =
     with_meeting up mid OWNER db (\<lambda>user m.
       if participant_capacity (rw_limits w) (u_supporter_level user) = None
       then set_participant_limit w m user None db else Inr (db, ConfirmFirst))"

definition confirm_remove_limit :: "roster_world \<Rightarrow> tg_update \<Rightarrow> int \<Rightarrow> sdb \<Rightarrow> roster_error + sdb \<times> limit_answer" where
  "confirm_remove_limit w up mid db =
     with_meeting up mid OWNER db (\<lambda>user m. set_participant_limit w m user None db)"

end
