(* ===== verification/Roster_Props.thy ===== *)
theory Roster_Props
  imports Roster Deletion_Props "HOL-Library.Sublist"
begin

text \<open>
  The tables under the roster handlers: nobody is in a meeting twice, a placeholder is in one meeting only, and
  nobody waits while there is a place, whatever sequence of joins, leaves, invitations, kick-outs and limit changes
  runs.
\<close>

section \<open>The mapping between links and rows\<close>

lemma joined_links_load [simp]: "joined_links (load_meeting db m) = List.map_filter (load_link db) (links_of db (m_id m))"
  by (simp add: load_meeting_def meetup_row.defs meetup.defs)

lemma load_meeting_row [simp]:
  "m_id (load_meeting db m) = m_id m" "max_members (load_meeting db m) = max_members m"
  "waiting_list (load_meeting db m) = waiting_list m"
  by (simp_all add: load_meeting_def meetup_row.defs meetup.defs)

lemma user_row_Some: "user_row db i = Some u \<Longrightarrow> u \<in> set (users db) \<and> u_id u = i"
  by (auto simp: user_row_def dest: first_where_Some)

lemma user_row_exists: "i \<in> u_id ` set (users db) \<Longrightarrow> \<exists>u. user_row db i = Some u"
  unfolding user_row_def using first_where_None [of "\<lambda>u. u_id u = i" "users db"] by (metis imageE option.exhaust)

lemma load_link_row:
  assumes "refs_ok db" "l \<in> set (links db)"
  shows "\<exists>j. load_link db l = Some j \<and> unload_link (jl_meetup_id l) fresh j = l"
proof -
  from assms have u: "jl_user_id l \<in> u_id ` set (users db)" and
    i: "\<And>i. jl_invited_by l = Some i \<Longrightarrow> i \<in> u_id ` set (users db)"
    unfolding refs_ok_def by blast+
  obtain v where v: "user_row db (jl_user_id l) = Some v" using user_row_exists [OF u] by blast
  show ?thesis
  proof (cases "jl_invited_by l")
    case None
    with v user_row_Some [OF v] show ?thesis by (simp add: load_link_def unload_link_def)
  next
    case (Some k)
    with user_row_exists [OF i] obtain x where x: "user_row db k = Some x" by blast
    with v user_row_Some [OF v] user_row_Some [OF x] Some show ?thesis by (simp add: load_link_def unload_link_def)
  qed
qed

lemma map_filter_unload:
  assumes "refs_ok db" "set rows \<subseteq> set (links db)" "\<forall>l \<in> set rows. jl_meetup_id l = mid"
  shows "map (unload_link mid fresh) (List.map_filter (load_link db) rows) = rows"
  using assms(2,3)
proof (induction rows)
  case (Cons l rows)
  then have "l \<in> set (links db)" by simp
  from load_link_row [OF assms(1) this, of fresh] Cons show ?case by (auto simp: map_filter_simps)
qed (simp add: map_filter_simps)

text \<open>What was loaded is stored back as it was.\<close>

lemma unload_loaded:
  "refs_ok db \<Longrightarrow> map (unload_link (m_id m) fresh) (joined_links (load_meeting db m)) = links_of db (m_id m)"
  by (simp, rule map_filter_unload) (auto simp: links_of_def)

lemma unload_waiting [simp]: "jl_waiting (unload_link mid fresh l) = is_waiting_list l"
  by (simp add: unload_link_def)

lemma count_unload:
  "count_where jl_waiting (map (unload_link mid fresh) ls) = count_where is_waiting_list ls"
  "count_where (\<lambda>l. \<not> jl_waiting l) (map (unload_link mid fresh) ls) = count_where (\<lambda>l. \<not> is_waiting_list l) ls"
  by (simp_all add: count_where_def filter_map comp_def)

lemma n_loaded:
  assumes "refs_ok db"
  shows "n_waiting (load_meeting db m) = count_where jl_waiting (links_of db (m_id m))"
    and "n_participants (load_meeting db m) = count_where (\<lambda>l. \<not> jl_waiting l) (links_of db (m_id m))"
  unfolding n_waiting_def n_participants_def unload_loaded [OF assms, of m 0, symmetric] count_unload by simp_all

lemma links_of_store:
  "links_of (store_links mid fresh ls db) i = (if i = mid then map (unload_link mid fresh) ls else links_of db i)"
proof -
  have "filter (\<lambda>l. jl_meetup_id l = i) (map (unload_link mid fresh) ls) = (if i = mid then map (unload_link mid fresh) ls else [])"
    by (auto simp: unload_link_def filter_map comp_def)
  moreover have "filter (\<lambda>l. jl_meetup_id l = i) (filter (\<lambda>l. jl_meetup_id l \<noteq> mid) (links db)) = (if i = mid then [] else links_of db i)"
    by (auto simp: links_of_def intro!: filter_cong)
  ultimately show ?thesis by (simp add: links_of_def store_links_def)
qed

section \<open>The invariant\<close>

definition memberships_ok :: "sdb \<Rightarrow> bool" where
  "memberships_ok db \<longleftrightarrow> (\<forall>l \<in> set (links db). \<forall>l' \<in> set (links db).
     jl_user_id l = jl_user_id l' \<and> jl_meetup_id l = jl_meetup_id l' \<longrightarrow> l = l')"

text \<open>Whoever was invited is a placeholder, and a placeholder is in one meeting only.\<close>

definition guests_ok :: "sdb \<Rightarrow> bool" where
  "guests_ok db \<longleftrightarrow>
     (\<forall>l \<in> set (links db). jl_invited_by l \<noteq> None \<longrightarrow> is_invitee db (jl_user_id l)) \<and>
     (\<forall>l \<in> set (links db). \<forall>l' \<in> set (links db). is_invitee db (jl_user_id l) \<and> jl_user_id l = jl_user_id l' \<longrightarrow> l = l')"

definition base_ok :: "sdb \<Rightarrow> bool" where
  "base_ok db \<longleftrightarrow> tables_ok db \<and> invitees_own_nothing db \<and> memberships_ok db \<and> guests_ok db"

definition reflag :: "link_row \<Rightarrow> link_row \<Rightarrow> bool" where
  "reflag l l' \<longleftrightarrow> l' = l\<lparr>jl_waiting := jl_waiting l'\<rparr>"

lemma reflag_fields:
  assumes "reflag l l'"
  shows "jl_id l' = jl_id l" "jl_user_id l' = jl_user_id l" "jl_meetup_id l' = jl_meetup_id l"
    "jl_invited_by l' = jl_invited_by l"
proof -
  from assms have "l' = l\<lparr>jl_waiting := jl_waiting l'\<rparr>" by (simp add: reflag_def)
  from arg_cong [OF this, of jl_id] arg_cong [OF this, of jl_user_id] arg_cong [OF this, of jl_meetup_id]
    arg_cong [OF this, of jl_invited_by]
  show "jl_id l' = jl_id l" "jl_user_id l' = jl_user_id l" "jl_meetup_id l' = jl_meetup_id l"
    "jl_invited_by l' = jl_invited_by l" by simp_all
qed

lemma is_invitee_links [simp]: "is_invitee (db\<lparr>links := ls\<rparr>) = is_invitee db"
  by (rule ext) (simp add: is_invitee_def)

lemma base_regroup:
  assumes ok: "base_ok db" and xs: "set xs \<subseteq> set (links db)" "distinct xs" and g: "\<And>l. reflag l (g l)"
  shows "base_ok (db\<lparr>links := map g xs\<rparr>)"
proof -
  note g = reflag_fields [OF g]
  have keys: "keys_ok db" and refs: "refs_ok db" using ok by (simp_all add: base_ok_def tables_ok_def)
  have "distinct (map jl_id xs)"
    using keys xs by (auto simp: keys_ok_def distinct_map intro: inj_on_subset)
  then have "keys_ok (db\<lparr>links := map g xs\<rparr>)" using keys by (simp add: keys_ok_def comp_def g)
  moreover have "refs_ok (db\<lparr>links := map g xs\<rparr>)"
    using refs xs(1) unfolding refs_ok_def by (simp add: g) (meson subsetD)
  moreover have "invitees_own_nothing (db\<lparr>links := map g xs\<rparr>)"
    using ok by (simp add: base_ok_def invitees_own_nothing_def)
  moreover have "memberships_ok (db\<lparr>links := map g xs\<rparr>)"
    unfolding memberships_ok_def
  proof (intro ballI impI)
    fix a b assume "a \<in> set (links (db\<lparr>links := map g xs\<rparr>))" "b \<in> set (links (db\<lparr>links := map g xs\<rparr>))"
      and eq: "jl_user_id a = jl_user_id b \<and> jl_meetup_id a = jl_meetup_id b"
    then obtain l l' where l: "a = g l" "b = g l'" "l \<in> set xs" "l' \<in> set xs" by auto
    with eq have "jl_user_id l = jl_user_id l'" "jl_meetup_id l = jl_meetup_id l'" by (simp_all add: g)
    with ok xs(1) l(3,4) have "l = l'" unfolding base_ok_def memberships_ok_def by blast
    with l(1,2) show "a = b" by simp
  qed
  moreover have "guests_ok (db\<lparr>links := map g xs\<rparr>)"
    unfolding guests_ok_def
  proof (intro conjI ballI impI)
    have guests: "guests_ok db" using ok by (simp add: base_ok_def)
    fix a assume "a \<in> set (links (db\<lparr>links := map g xs\<rparr>))"
    then obtain l where l: "a = g l" "l \<in> set xs" by auto
    show "is_invitee (db\<lparr>links := map g xs\<rparr>) (jl_user_id a)" if "jl_invited_by a \<noteq> None"
    proof -
      have "jl_invited_by l \<noteq> None" using that l(1) by (simp add: g)
      with guests xs(1) l(2) have "is_invitee db (jl_user_id l)" unfolding guests_ok_def by blast
      with l(1) show ?thesis by (simp add: g)
    qed
    fix b assume "b \<in> set (links (db\<lparr>links := map g xs\<rparr>))"
      and eq: "is_invitee (db\<lparr>links := map g xs\<rparr>) (jl_user_id a) \<and> jl_user_id a = jl_user_id b"
    then obtain l' where l': "b = g l'" "l' \<in> set xs" by auto
    from eq have "is_invitee db (jl_user_id l)" "jl_user_id l = jl_user_id l'" unfolding l(1) l'(1) g is_invitee_links by blast+
    with guests xs(1) l(2) l'(2) have "l = l'" unfolding guests_ok_def by blast
    with l(1) l'(1) show "a = b" by simp
  qed
  ultimately show ?thesis by (simp add: base_ok_def tables_ok_def)
qed

lemma base_add_link:
  assumes ok: "base_ok db" and fresh: "jl_id r \<notin> jl_id ` set (links db)"
    and refs: "jl_meetup_id r \<in> m_id ` set (meetups db)" "jl_user_id r \<in> u_id ` set (users db)"
      "\<And>i. jl_invited_by r = Some i \<Longrightarrow> i \<in> u_id ` set (users db)"
    and new: "\<And>l. l \<in> set (links db) \<Longrightarrow> jl_user_id l = jl_user_id r \<Longrightarrow> jl_meetup_id l \<noteq> jl_meetup_id r"
    and guest: "jl_invited_by r \<noteq> None \<Longrightarrow> is_invitee db (jl_user_id r)"
      "\<And>l. is_invitee db (jl_user_id r) \<Longrightarrow> l \<in> set (links db) \<Longrightarrow> jl_user_id l \<noteq> jl_user_id r"
  shows "base_ok (db\<lparr>links := links db @ [r]\<rparr>)"
proof -
  have "keys_ok (db\<lparr>links := links db @ [r]\<rparr>)" using ok fresh by (simp add: base_ok_def tables_ok_def keys_ok_def)
  moreover have "refs_ok (db\<lparr>links := links db @ [r]\<rparr>)"
    using ok refs unfolding base_ok_def tables_ok_def refs_ok_def by simp
  moreover have "memberships_ok (db\<lparr>links := links db @ [r]\<rparr>)"
    using ok new unfolding base_ok_def memberships_ok_def by (simp add: ball_Un) metis
  moreover have "guests_ok (db\<lparr>links := links db @ [r]\<rparr>)"
    using ok guest unfolding base_ok_def guests_ok_def by (simp add: ball_Un) metis
  moreover have "invitees_own_nothing (db\<lparr>links := links db @ [r]\<rparr>)"
    using ok by (simp add: base_ok_def invitees_own_nothing_def)
  ultimately show ?thesis by (simp add: base_ok_def tables_ok_def)
qed

lemma base_ok_distinct: "base_ok db \<Longrightarrow> distinct (links db)"
  by (simp add: base_ok_def tables_ok_def keys_ok_def distinct_map)

lemma reflag_function:
  "list_all2 reflag kept ks \<Longrightarrow> distinct kept \<Longrightarrow> \<exists>f. ks = map (\<lambda>l. l\<lparr>jl_waiting := f l\<rparr>) kept"
proof (induction rule: list_all2_induct)
  case (Cons l kept l' ks)
  then obtain f where f: "ks = map (\<lambda>l. l\<lparr>jl_waiting := f l\<rparr>) kept" by auto
  let ?f = "f(l := jl_waiting l')"
  have "ks = map (\<lambda>l. l\<lparr>jl_waiting := ?f l\<rparr>) kept" using f Cons.prems by auto
  moreover have "l' = l\<lparr>jl_waiting := ?f l\<rparr>" using Cons.hyps by (simp add: reflag_def)
  ultimately show ?case by (intro exI [of _ ?f]) simp
qed simp

text \<open>Rewriting the links of one meeting: some are kept, their flags may change.\<close>

lemma base_store:
  assumes ok: "base_ok db" and kept: "set kept \<subseteq> set (links_of db mid)" "distinct kept"
    and rows: "list_all2 reflag kept (map (unload_link mid fresh) ls)"
  shows "base_ok (store_links mid fresh ls db)"
proof -
  from reflag_function [OF rows kept(2)] obtain f
    where f: "map (unload_link mid fresh) ls = map (\<lambda>l. l\<lparr>jl_waiting := f l\<rparr>) kept" by blast
  let ?g = "\<lambda>l. if jl_meetup_id l = mid then l\<lparr>jl_waiting := f l\<rparr> else l"
  let ?xs = "filter (\<lambda>l. jl_meetup_id l \<noteq> mid) (links db) @ kept"
  have mid: "jl_meetup_id l = mid \<and> l \<in> set (links db)" if "l \<in> set kept" for l using kept(1) that by (auto simp: links_of_def)
  have "base_ok (db\<lparr>links := map ?g ?xs\<rparr>)"
  proof (rule base_regroup [OF ok])
    show "set ?xs \<subseteq> set (links db)" using mid by auto
    show "distinct ?xs" using base_ok_distinct [OF ok] kept(2) mid by auto
  qed (simp add: reflag_def)
  also have "map ?g ?xs = filter (\<lambda>l. jl_meetup_id l \<noteq> mid) (links db) @ map (unload_link mid fresh) ls"
    using mid by (auto simp: f intro!: map_idI)
  finally show ?thesis by (simp add: store_links_def)
qed

definition row_settled :: "limits_config \<Rightarrow> sdb \<Rightarrow> meetup_row \<Rightarrow> bool" where
  "row_settled cfg db m \<longleftrightarrow> (\<forall>u \<in> set (users db). u_id u = owner_id m \<and> 0 < count_where jl_waiting (links_of db (m_id m)) \<longrightarrow>
     (case effective_participant_capacity cfg (u_supporter_level u) (max_members m) of
        None \<Rightarrow> False | Some cap \<Rightarrow> cap \<le> int (count_where (\<lambda>l. \<not> jl_waiting l) (links_of db (m_id m)))))"

definition nobody_waits_for_nothing :: "limits_config \<Rightarrow> sdb \<Rightarrow> bool" where
  "nobody_waits_for_nothing cfg db \<longleftrightarrow> (\<forall>m \<in> set (meetups db). row_settled cfg db m)"

lemma store_fields [simp]:
  "users (store_links mid fresh ls db) = users db" "meetups (store_links mid fresh ls db) = meetups db"
  "cards (store_links mid fresh ls db) = cards db"
  by (simp_all add: store_links_def)

lemma row_settled_store:
  assumes keys: "keys_ok db" and m: "m \<in> set (meetups db)" and u: "u \<in> set (users db)" "u_id u = owner_id m"
    and others: "\<And>r. r \<in> set (meetups db) \<Longrightarrow> m_id r \<noteq> m_id m \<Longrightarrow> row_settled cfg db r"
    and here: "0 < n_waiting M \<longrightarrow> full cfg u M" "max_members M = max_members m"
  shows "nobody_waits_for_nothing cfg (store_links (m_id m) fresh (joined_links M) db)"
  unfolding nobody_waits_for_nothing_def store_fields
proof
  fix r assume r: "r \<in> set (meetups db)"
  show "row_settled cfg (store_links (m_id m) fresh (joined_links M) db) r"
  proof (cases "m_id r = m_id m")
    case False
    then have same: "links_of (store_links (m_id m) fresh (joined_links M) db) (m_id r) = links_of db (m_id r)"
      by (simp add: links_of_store)
    from others [OF r False] show ?thesis unfolding row_settled_def store_fields same .
  next
    case True
    with keys m r have "r = m" using distinct_key_unique [of m_id "meetups db" r m] by (simp add: keys_ok_def)
    moreover have "v = u" if "v \<in> set (users db)" "u_id v = owner_id m" for v
      using distinct_key_unique [of u_id "users db" v u] that u keys by (simp add: keys_ok_def)
    ultimately show ?thesis
      using here unfolding row_settled_def links_of_store
      by (auto simp: count_unload full_def effective_max_members_def n_waiting_def n_participants_def split: option.splits)
  qed
qed

section \<open>Adding and removing on the tables\<close>

lemma load_unloaded_distinct:
  assumes "base_ok db"
  shows "distinct (map (unload_link (m_id m) fresh) (joined_links (load_meeting db m)))"
    and "set (map (unload_link (m_id m) fresh) (joined_links (load_meeting db m))) = set (links_of db (m_id m))"
proof -
  have refs: "refs_ok db" using assms by (simp add: base_ok_def tables_ok_def)
  have "distinct (links_of db (m_id m))" using base_ok_distinct [OF assms] by (simp add: links_of_def)
  then show "distinct (map (unload_link (m_id m) fresh) (joined_links (load_meeting db m)))"
    "set (map (unload_link (m_id m) fresh) (joined_links (load_meeting db m))) = set (links_of db (m_id m))"
    unfolding unload_loaded [OF refs] by simp_all
qed

lemma confirm_reflag:
  "list_all2 reflag (map (unload_link mid fresh) ls) (map (unload_link mid fresh) (confirm_positions ps ls))"
  by (auto simp: list_all2_conv_all_nth reflag_def unload_link_def)

lemma promoted_links:
  "\<exists>ps. joined_links (fst (promote_from_waiting_list cfg owner M)) = confirm_positions ps (joined_links M)"
  by (auto simp: promote_unfold Let_def)

text \<open>Promotion, after some links have gone.\<close>

lemma base_promote:
  assumes ok: "base_ok db" and sub: "joined_links (load_meeting db m) = as @ xs @ bs"
    and links: "joined_links M = as @ bs"
  shows "base_ok (store_links (m_id m) fresh (joined_links (fst (promote_from_waiting_list cfg owner M))) db)"
proof -
  let ?u = "unload_link (m_id m) fresh"
  obtain ps where ps: "joined_links (fst (promote_from_waiting_list cfg owner M)) = confirm_positions ps (as @ bs)"
    using promoted_links [of cfg owner M] links by auto
  note dist = load_unloaded_distinct [OF ok, of m fresh, unfolded sub]
  show ?thesis
  proof (rule base_store [OF ok, where kept = "map ?u (as @ bs)"])
    show "set (map ?u (as @ bs)) \<subseteq> set (links_of db (m_id m))" unfolding dist(2) [symmetric] by auto
    show "distinct (map ?u (as @ bs))" using dist(1) by auto
    show "list_all2 reflag (map ?u (as @ bs)) (map ?u (joined_links (fst (promote_from_waiting_list cfg owner M))))"
      unfolding ps by (rule confirm_reflag)
  qed
qed

lemma base_remove:
  assumes ok: "base_ok db" and run: "remove_participant cfg owner link (load_meeting db m) = Inr (M', promoted)"
  shows "base_ok (store_links (m_id m) fresh (joined_links M') db)"
    and "0 < n_waiting M' \<longrightarrow> full cfg owner M'" and "max_members M' = max_members m"
    and "\<exists>as x bs. joined_links (load_meeting db m) = as @ x # bs \<and> same_columns link x \<and>
      map l_user (joined_links M') = map l_user (as @ bs)"
proof -
  from run obtain ls where ls: "remove_first (same_columns link) (joined_links (load_meeting db m)) = Some ls"
    and M': "M' = fst (promote_from_waiting_list cfg owner ((load_meeting db m)\<lparr>joined_links := ls\<rparr>))"
    by (auto simp: remove_participant_def split: option.splits)
  from remove_first_Some [OF ls] obtain as x bs where split: "joined_links (load_meeting db m) = as @ [x] @ bs" "ls = as @ bs"
    "same_columns link x" by auto
  show "base_ok (store_links (m_id m) fresh (joined_links M') db)"
    unfolding M' by (rule base_promote [OF ok split(1)]) (simp add: split(2))
  show "0 < n_waiting M' \<longrightarrow> full cfg owner M'" unfolding M' using promote_fills by blast
  show "max_members M' = max_members m" unfolding M' by (simp add: promote_unfold Let_def)
  have "map l_user (confirm_positions ps ls) = map l_user ls" for ps
    by (rule nth_equalityI) auto
  then have "map l_user (joined_links M') = map l_user ls" by (simp add: M' promote_unfold Let_def)
  with split show "\<exists>as x bs. joined_links (load_meeting db m) = as @ x # bs \<and> same_columns link x \<and>
      map l_user (joined_links M') = map l_user (as @ bs)" by auto
qed

lemma is_invitee_store [simp]: "is_invitee (store_links mid fresh ls db) = is_invitee db"
  by (rule ext) (simp add: is_invitee_def)

lemma refs_owner: "refs_ok db \<Longrightarrow> m \<in> set (meetups db) \<Longrightarrow> owner_id m \<in> u_id ` set (users db)"
  unfolding refs_ok_def by blast

lemma refs_link_user: "refs_ok db \<Longrightarrow> l \<in> set (links db) \<Longrightarrow> jl_user_id l \<in> u_id ` set (users db)"
  unfolding refs_ok_def by blast

lemma base_parts:
  assumes "base_ok db"
  shows "keys_ok db" "refs_ok db" "tables_ok db" "invitees_own_nothing db" "memberships_ok db" "guests_ok db"
  using assms by (simp_all add: base_ok_def tables_ok_def)

lemma unload_keyless:
  "store_links mid fresh (ls @ [l]) db =
     (store_links mid fresh ls db)\<lparr>links := links (store_links mid fresh ls db) @ [unload_link mid fresh l]\<rparr>"
  by (simp add: store_links_def)

lemma set_store_loaded:
  assumes "base_ok db"
  shows "set (links (store_links (m_id m) fresh (joined_links (load_meeting db m)) db)) = set (links db)"
  using load_unloaded_distinct(2) [OF assms, of m fresh] by (auto simp: store_links_def links_of_def)

lemma base_add:
  assumes ok: "base_ok db" and m: "m \<in> set (meetups db)"
    and run: "add_participant cfg owner now v ib (load_meeting db m) = (M', Some l)"
    and fresh: "fresh \<notin> jl_id ` set (links db)" and v: "v \<in> set (users db)" "\<not> has_link db (m_id m) (u_id v)"
    and ib: "\<And>i. ib = Some i \<Longrightarrow> i \<in> set (users db) \<and> is_invitee db (u_id v)"
    and guest: "\<And>l. is_invitee db (u_id v) \<Longrightarrow> l \<in> set (links db) \<Longrightarrow> jl_user_id l \<noteq> u_id v"
    and waits: "0 < n_waiting (load_meeting db m) \<longrightarrow> full cfg owner (load_meeting db m)"
  shows "base_ok (store_links (m_id m) fresh (joined_links M') db)"
    and "0 < n_waiting M' \<longrightarrow> full cfg owner M'" and "max_members M' = max_members m"
proof -
  let ?M = "load_meeting db m"
  let ?st = "store_links (m_id m) fresh (joined_links ?M) db"
  have M': "M' = ?M\<lparr>joined_links := joined_links ?M @ [l]\<rparr>" and l: "l = \<lparr>l_id = None, l_user = v, l_invited_by = ib,
      l_created_time = now, is_waiting_list = full cfg owner ?M, notification_sent = False\<rparr>"
    using run by (auto simp: add_participant_branches Let_def simp del: joined_links_load split: if_splits)
  have st: "base_ok ?st"
    using load_unloaded_distinct [OF ok, of m fresh] by (intro base_store [OF ok]) (auto simp: reflag_def list_all2_same)
  note lk = set_store_loaded [OF ok, of m fresh]
  have "base_ok (?st\<lparr>links := links ?st @ [unload_link (m_id m) fresh l]\<rparr>)"
  proof (rule base_add_link [OF st])
    show "jl_id (unload_link (m_id m) fresh l) \<notin> jl_id ` set (links ?st)"
      unfolding lk using fresh by (simp add: unload_link_def l)
    show "jl_meetup_id (unload_link (m_id m) fresh l) \<in> m_id ` set (meetups ?st)"
      using m by (simp add: unload_link_def)
    show "jl_user_id (unload_link (m_id m) fresh l) \<in> u_id ` set (users ?st)"
      using v(1) by (simp add: unload_link_def l)
    show "i \<in> u_id ` set (users ?st)" if "jl_invited_by (unload_link (m_id m) fresh l) = Some i" for i
      using that ib by (auto simp: unload_link_def l)
    show "jl_meetup_id r \<noteq> jl_meetup_id (unload_link (m_id m) fresh l)"
      if "r \<in> set (links ?st)" "jl_user_id r = jl_user_id (unload_link (m_id m) fresh l)" for r
      using that v(2) unfolding lk by (auto simp: has_link_def links_of_def unload_link_def l)
    show "is_invitee ?st (jl_user_id (unload_link (m_id m) fresh l))"
      if "jl_invited_by (unload_link (m_id m) fresh l) \<noteq> None"
      using that ib unfolding is_invitee_store by (auto simp: unload_link_def l)
    show "jl_user_id r \<noteq> jl_user_id (unload_link (m_id m) fresh l)"
      if "is_invitee ?st (jl_user_id (unload_link (m_id m) fresh l))" "r \<in> set (links ?st)" for r
      using that guest unfolding lk is_invitee_store by (simp add: unload_link_def l)
  qed
  then show "base_ok (store_links (m_id m) fresh (joined_links M') db)"
    by (simp add: M' unload_keyless del: joined_links_load)
  have full: "full cfg owner M' \<or> \<not> full cfg owner ?M" unfolding M' by (auto simp: full_def n_participants_def split: option.split)
  show "0 < n_waiting M' \<longrightarrow> full cfg owner M'"
    using waits full unfolding M' by (cases "full cfg owner ?M") (auto simp: n_waiting_def l)
  show "max_members M' = max_members m" by (simp add: M')
qed

text \<open>Registering somebody: a new row nobody refers to yet.\<close>

lemma base_add_user:
  assumes ok: "base_ok db" and u: "u_id u \<notin> u_id ` set (users db)"
  shows "base_ok (db\<lparr>users := users db @ [u]\<rparr>)"
proof -
  note parts = base_parts [OF ok]
  have inv: "is_invitee (db\<lparr>users := users db @ [u]\<rparr>) i = is_invitee db i" if "i \<noteq> u_id u" for i
    using that by (auto simp: is_invitee_def)
  have used: "jl_user_id l \<noteq> u_id u" if "l \<in> set (links db)" for l
    using refs_link_user [OF parts(2) that] u by auto
  have owner: "owner_id m \<noteq> u_id u" if "m \<in> set (meetups db)" for m
    using refs_owner [OF parts(2) that] u by auto
  have "keys_ok (db\<lparr>users := users db @ [u]\<rparr>)" using parts(1) u by (simp add: keys_ok_def)
  moreover have "refs_ok (db\<lparr>users := users db @ [u]\<rparr>)" using parts(2) unfolding refs_ok_def by simp
  moreover have "invitees_own_nothing (db\<lparr>users := users db @ [u]\<rparr>)"
    using parts(4) owner by (simp add: invitees_own_nothing_def inv)
  moreover have "memberships_ok (db\<lparr>users := users db @ [u]\<rparr>)" using parts(5) by (simp add: memberships_ok_def)
  moreover have "guests_ok (db\<lparr>users := users db @ [u]\<rparr>)"
    unfolding guests_ok_def
  proof (intro conjI ballI impI)
    fix l assume l: "l \<in> set (links (db\<lparr>users := users db @ [u]\<rparr>))"
    then have same: "is_invitee (db\<lparr>users := users db @ [u]\<rparr>) (jl_user_id l) = is_invitee db (jl_user_id l)"
      using used by (intro inv) simp
    show "is_invitee (db\<lparr>users := users db @ [u]\<rparr>) (jl_user_id l)" if "jl_invited_by l \<noteq> None"
      using parts(6) l that unfolding same guests_ok_def by simp
    show "l = l'" if "l' \<in> set (links (db\<lparr>users := users db @ [u]\<rparr>))"
      "is_invitee (db\<lparr>users := users db @ [u]\<rparr>) (jl_user_id l) \<and> jl_user_id l = jl_user_id l'" for l'
      using parts(6) l that unfolding same guests_ok_def by simp blast
  qed
  ultimately show ?thesis by (simp add: base_ok_def tables_ok_def)
qed

lemma settled_add_user:
  assumes "base_ok db" "u_id u \<notin> u_id ` set (users db)" "nobody_waits_for_nothing cfg db"
  shows "nobody_waits_for_nothing cfg (db\<lparr>users := users db @ [u]\<rparr>)"
proof -
  have other: "owner_id m \<noteq> u_id u" if "m \<in> set (meetups db)" for m
    using refs_owner [OF base_parts(2) [OF assms(1)] that] assms(2) by auto
  have "row_settled cfg (db\<lparr>users := users db @ [u]\<rparr>) m = row_settled cfg db m" if "m \<in> set (meetups db)" for m
  proof -
    from other [OF that] have "owner_id m \<noteq> u_id u" .
    have eq: "links_of (db\<lparr>users := users db @ [u]\<rparr>) = links_of db" by (rule ext) (simp add: links_of_def)
    show ?thesis unfolding row_settled_def eq using \<open>owner_id m \<noteq> u_id u\<close> by auto
  qed
  with assms(3) show ?thesis by (simp add: nobody_waits_for_nothing_def)
qed

lemma base_update_cards:
  assumes ok: "base_ok db" and c: "\<And>c i. c \<in> set cs \<Longrightarrow> card_meetup_id c = Some i \<Longrightarrow> i \<in> m_id ` set (meetups db)"
  shows "base_ok (db\<lparr>cards := cs\<rparr>)"
proof -
  note parts = base_parts [OF ok]
  have inv: "is_invitee (db\<lparr>cards := cs\<rparr>) = is_invitee db" by (rule ext) (simp add: is_invitee_def)
  have "refs_ok (db\<lparr>cards := cs\<rparr>)" using parts(2) c unfolding refs_ok_def by simp
  moreover have "keys_ok (db\<lparr>cards := cs\<rparr>) = keys_ok db" "invitees_own_nothing (db\<lparr>cards := cs\<rparr>) = invitees_own_nothing db"
    "memberships_ok (db\<lparr>cards := cs\<rparr>) = memberships_ok db" "guests_ok (db\<lparr>cards := cs\<rparr>) = guests_ok db"
    unfolding keys_ok_def invitees_own_nothing_def memberships_ok_def guests_ok_def inv by simp_all
  ultimately show ?thesis using parts by (simp add: base_ok_def tables_ok_def)
qed

section \<open>The handlers keep the invariant\<close>

definition roster_inv :: "limits_config \<Rightarrow> sdb \<Rightarrow> bool" where
  "roster_inv cfg db \<longleftrightarrow> base_ok db \<and> nobody_waits_for_nothing cfg db"

lemma row_settled_same:
  assumes "users db' = users db" "links db' = links db"
  shows "row_settled cfg db' = row_settled cfg db"
proof -
  have "links_of db' = links_of db" by (rule ext) (simp add: links_of_def assms)
  then show ?thesis by (intro ext) (simp only: row_settled_def assms(1))
qed

lemma track_card_fields:
  assumes "track_card fresh up mid db = Inr db'"
  shows "\<exists>cs. db' = db\<lparr>cards := cs\<rparr> \<and> (\<forall>c \<in> set cs. card_meetup_id c = Some mid \<or> (\<exists>c0 \<in> set (cards db). card_meetup_id c = card_meetup_id c0))"
proof (cases "message_from_update db mid up")
  case None
  show ?thesis
  proof (cases "in_bot_chat up")
    case True
    with None assms show ?thesis by (intro exI [of _ "cards db"]) (auto simp: track_card_def)
  next
    case False
    with None assms obtain c where c: "card_from_update fresh up mid = Inr c" "db' = db\<lparr>cards := cards db @ [c]\<rparr>"
      by (auto simp: track_card_def split: sum.splits)
    have "card_meetup_id c = Some mid" using c(1) by (auto simp: card_from_update_def Let_def split: if_splits)
    with c(2) show ?thesis by (intro exI [of _ "cards db @ [c]"]) auto
  qed
next
  case (Some c)
  have same: "card_meetup_id (capture_chat_instance up x) = card_meetup_id x" for x
    by (simp add: capture_chat_instance_def split: option.split)
  let ?cs = "update_where (\<lambda>r. card_id r = card_id c) (capture_chat_instance up) (cards db)"
  have "\<exists>c0 \<in> set (cards db). card_meetup_id x = card_meetup_id c0" if "x \<in> set ?cs" for x
    using that same by (auto simp: update_where_def split: if_splits)
  with assms Some show ?thesis by (auto simp: track_card_def)
qed

lemma track_card_inv:
  assumes "roster_inv cfg db" "m \<in> set (meetups db)" "track_card fresh up (m_id m) db = Inr db'"
  shows "roster_inv cfg db' \<and> users db' = users db \<and> meetups db' = meetups db \<and> links db' = links db"
proof -
  from track_card_fields [OF assms(3)] obtain cs where db': "db' = db\<lparr>cards := cs\<rparr>"
    and cs: "\<forall>c \<in> set cs. card_meetup_id c = Some (m_id m) \<or> (\<exists>c0 \<in> set (cards db). card_meetup_id c = card_meetup_id c0)" by blast
  have refs: "refs_ok db" using assms(1) by (simp add: roster_inv_def base_ok_def tables_ok_def)
  have "i \<in> m_id ` set (meetups db)" if "c \<in> set cs" "card_meetup_id c = Some i" for c i
  proof -
    from cs that consider "i = m_id m" | c0 where "c0 \<in> set (cards db)" "card_meetup_id c0 = Some i" by fastforce
    then show ?thesis using assms(2) refs unfolding refs_ok_def by cases blast+
  qed
  then have "base_ok db'" unfolding db' using assms(1) by (intro base_update_cards) (simp_all add: roster_inv_def)
  moreover have "nobody_waits_for_nothing cfg db'"
    using assms(1) row_settled_same [of db' db cfg] by (simp add: roster_inv_def nobody_waits_for_nothing_def db')
  ultimately show ?thesis by (simp add: roster_inv_def db')
qed

lemma loaded_settled:
  assumes "roster_inv cfg db" "m \<in> set (meetups db)" "u \<in> set (users db)" "u_id u = owner_id m"
  shows "0 < n_waiting (load_meeting db m) \<longrightarrow> full cfg u (load_meeting db m)"
proof -
  have refs: "refs_ok db" and "row_settled cfg db m"
    using assms by (simp_all add: roster_inv_def base_ok_def tables_ok_def nobody_waits_for_nothing_def)
  with assms(3,4) show ?thesis
    by (auto simp: row_settled_def full_def effective_max_members_def n_loaded [OF refs] split: option.splits)
qed

lemma not_invitee:
  assumes "base_ok db" "u \<in> set (users db)" "tg_user_id u \<noteq> ANONYMOUS_INVITEE_TG_ID"
  shows "\<not> is_invitee db (u_id u)"
  using assms distinct_key_unique [of u_id "users db" _ u] unfolding is_invitee_def base_ok_def tables_ok_def keys_ok_def by blast

lemma roster_store:
  assumes "roster_inv cfg db" "m \<in> set (meetups db)" "u \<in> set (users db)" "u_id u = owner_id m"
    and "base_ok (store_links (m_id m) fresh (joined_links M) db)"
    and "0 < n_waiting M \<longrightarrow> full cfg u M" "max_members M = max_members m"
  shows "roster_inv cfg (store_links (m_id m) fresh (joined_links M) db)"
  using row_settled_store [of db m u cfg M fresh] assms base_parts(1)
  by (simp add: roster_inv_def nobody_waits_for_nothing_def)

lemma join_operation_inv:
  assumes inv: "roster_inv cfg db" "rw_limits w = cfg" and m: "m \<in> set (meetups db)" and o: "owner \<in> set (users db)" "u_id owner = owner_id m"
    and u: "user \<in> set (users db)" "tg_user_id user \<noteq> ANONYMOUS_INVITEE_TG_ID" and fresh: "rw_link w \<notin> jl_id ` set (links db)"
    and run: "join_operation w user db m owner = Inr (db', a)"
  shows "roster_inv cfg db'"
proof (cases "db' = db")
  case True
  with inv show ?thesis by simp
next
  case False
  with run obtain M' l where free: "\<not> has_link db (m_id m) (u_id user)"
    and add: "add_participant cfg owner (rw_now w) user None (load_meeting db m) = (M', Some l)"
    and db': "db' = store_links (m_id m) (rw_link w) (joined_links M') db"
    unfolding join_operation_def inv(2) by (auto simp: Let_def simp del: joined_links_load split: if_splits prod.splits option.splits)
  have base: "base_ok db" using inv by (simp add: roster_inv_def)
  have guest: "\<not> is_invitee db (u_id user)" by (rule not_invitee [OF base u])
  have b: "base_ok (store_links (m_id m) (rw_link w) (joined_links M') db)" "0 < n_waiting M' \<longrightarrow> full cfg owner M'"
    "max_members M' = max_members m"
    using base_add [OF base m add fresh u(1) free _ _ loaded_settled [OF inv(1) m o]] guest by simp_all
  show ?thesis unfolding db' by (rule roster_store [OF inv(1) m o b])
qed

lemma leave_operation_inv:
  assumes inv: "roster_inv cfg db" "rw_limits w = cfg" and m: "m \<in> set (meetups db)" and o: "owner \<in> set (users db)" "u_id owner = owner_id m"
    and run: "leave_operation w user db m owner = Inr (db', a)"
  shows "roster_inv cfg db'"
proof (cases "db' = db")
  case True
  with inv show ?thesis by simp
next
  case False
  with run obtain link M' promoted where rm: "remove_participant cfg owner link (load_meeting db m) = Inr (M', promoted)"
    and db': "db' = store_links (m_id m) (rw_link w) (joined_links M') db"
    unfolding leave_operation_def inv(2) by (auto simp: Let_def simp del: joined_links_load split: option.splits sum.splits)
  have base: "base_ok db" using inv by (simp add: roster_inv_def)
  show ?thesis unfolding db' by (rule roster_store [OF inv(1) m o base_remove(1-3) [OF base rm]])
qed

lemma current_user_Inr':
  "current_user up db = Inr u \<Longrightarrow> u \<in> set (users db) \<and> effective_user up = Some (tg_user_id u)"
  by (auto simp: current_user_def user_by_tg_def dest!: first_where_Some split: option.splits if_splits)

text \<open>A new user nobody refers to does not change what is loaded.\<close>

lemma first_where_append:
  "first_where P (xs @ ys) = (case first_where P xs of None \<Rightarrow> first_where P ys | Some r \<Rightarrow> Some r)"
  by (induction xs) simp_all

lemma map_filter_cong: "(\<And>x. x \<in> set xs \<Longrightarrow> f x = g x) \<Longrightarrow> List.map_filter f xs = List.map_filter g xs"
  by (induction xs) (simp_all split: option.split)

lemma user_row_add: "i \<in> u_id ` set (users db) \<Longrightarrow> user_row (db\<lparr>users := users db @ [u]\<rparr>) i = user_row db i"
  using user_row_exists [of i db] by (auto simp: user_row_def first_where_append)

lemma load_meeting_add_user:
  assumes "base_ok db"
  shows "load_meeting (db\<lparr>users := users db @ [u]\<rparr>) m = load_meeting db m"
proof -
  have refs: "refs_ok db" by (rule base_parts(2) [OF assms])
  have "load_link (db\<lparr>users := users db @ [u]\<rparr>) l = load_link db l" if "l \<in> set (links db)" for l
  proof -
    from refs that have "jl_user_id l \<in> u_id ` set (users db)" "\<And>i. jl_invited_by l = Some i \<Longrightarrow> i \<in> u_id ` set (users db)"
      unfolding refs_ok_def by blast+
    then show ?thesis by (simp add: load_link_def user_row_add split: option.split)
  qed
  then have "List.map_filter (load_link (db\<lparr>users := users db @ [u]\<rparr>)) (links_of db i) = List.map_filter (load_link db) (links_of db i)" for i
    by (intro map_filter_cong) (auto simp: links_of_def)
  moreover have "links_of (db\<lparr>users := users db @ [u]\<rparr>) = links_of db" by (rule ext) (simp add: links_of_def)
  ultimately show ?thesis by (simp add: load_meeting_def)
qed

lemma owner_row_Some: "owner_row db m = Some u \<Longrightarrow> u \<in> set (users db) \<and> u_id u = owner_id m"
  by (auto simp: owner_row_def dest: first_where_Some)

lemma with_shared_meeting_inv:
  assumes inv: "roster_inv cfg db" and run: "with_shared_meeting w up user mid db op = Inr (db', a)"
    and op: "\<And>db1 m owner db2 b. roster_inv cfg db1 \<Longrightarrow> users db1 = users db \<Longrightarrow> links db1 = links db \<Longrightarrow>
      m \<in> set (meetups db1) \<Longrightarrow> owner \<in> set (users db1) \<Longrightarrow> u_id owner = owner_id m \<Longrightarrow> op db1 m owner = Inr (db2, b) \<Longrightarrow> roster_inv cfg db2"
  shows "roster_inv cfg db'"
proof (cases "db' = db")
  case True
  with inv show ?thesis by simp
next
  case False
  with run obtain m owner db1 where m: "by_id db True mid = Some m" and o: "owner_row db m = Some owner"
    and t: "track_card (rw_card w) up mid db = Inr db1" and r: "op db1 m owner = Inr (db', a)"
    unfolding with_shared_meeting_def shared_meeting_def by (auto split: sum.splits option.splits if_splits)
  note mm = by_id_Some [OF m]
  with t have "track_card (rw_card w) up (m_id m) db = Inr db1" by simp
  from track_card_inv [OF inv _ this] mm have t: "roster_inv cfg db1" "users db1 = users db" "meetups db1 = meetups db"
    "links db1 = links db" by simp_all
  show ?thesis by (rule op [OF t(1,2,4) _ _ _ r]) (use t mm owner_row_Some [OF o] in simp_all)
qed

lemma acting_user_inv:
  assumes inv: "roster_inv cfg db" and run: "acting_user w up name nick db = Inr (db', u)"
    and fresh: "rw_user w \<notin> u_id ` set (users db)" and tg: "effective_user up \<noteq> Some ANONYMOUS_INVITEE_TG_ID"
  shows "roster_inv cfg db' \<and> links db' = links db \<and> u \<in> set (users db') \<and> tg_user_id u \<noteq> ANONYMOUS_INVITEE_TG_ID"
proof (cases "current_user up db")
  case (Inr v)
  with run have "db' = db" "u = v" by (simp_all add: acting_user_def)
  with current_user_Inr' [OF Inr] inv tg show ?thesis by auto
next
  case (Inl e)
  have "\<exists>t. e = UserNotFound t" using run Inl by (cases e) (simp_all add: acting_user_def)
  then obtain t where t: "e = UserNotFound t" by blast
  have "Inr (db\<lparr>users := users db @ [default_user w t name nick]\<rparr>, default_user w t name nick) = acting_user w up name nick db"
    by (simp add: acting_user_def Let_def Inl t)
  then have e: "e = UserNotFound t" "db' = db\<lparr>users := users db @ [default_user w t name nick]\<rparr>"
    "u = default_user w t name nick" unfolding run sum.inject prod.inject using t by blast+
  have "effective_user up = Some t" using Inl e(1) by (auto simp: current_user_def split: option.splits if_splits)
  with tg have "t \<noteq> ANONYMOUS_INVITEE_TG_ID" by simp
  moreover have "roster_inv cfg db'"
    using inv fresh unfolding e(2) roster_inv_def by (auto simp: default_user_def intro!: base_add_user settled_add_user)
  ultimately show ?thesis by (simp add: e default_user_def)
qed

lemma join_meetup_inv:
  assumes inv: "roster_inv (rw_limits w) db" and run: "join_meetup w up name nick mid db = Inr (db', a)"
    and fresh: "rw_user w \<notin> u_id ` set (users db)" "rw_link w \<notin> jl_id ` set (links db)"
    and tg: "effective_user up \<noteq> Some ANONYMOUS_INVITEE_TG_ID"
  shows "roster_inv (rw_limits w) db'"
proof -
  from run obtain db1 user where act: "acting_user w up name nick db = Inr (db1, user)"
    and op: "with_shared_meeting w up user mid db1 (join_operation w user) = Inr (db', a)"
    by (auto simp: join_meetup_def split: sum.splits)
  note act = acting_user_inv [OF inv act fresh(1) tg]
  show ?thesis
    by (rule with_shared_meeting_inv [OF conjunct1 [OF act] op], rule join_operation_inv) (use act fresh(2) in auto)
qed

lemma leave_meetup_inv:
  assumes inv: "roster_inv (rw_limits w) db" and run: "leave_meetup w up name nick mid db = Inr (db', a)"
    and fresh: "rw_user w \<notin> u_id ` set (users db)" and tg: "effective_user up \<noteq> Some ANONYMOUS_INVITEE_TG_ID"
  shows "roster_inv (rw_limits w) db'"
proof -
  from run obtain db1 user where act: "acting_user w up name nick db = Inr (db1, user)"
    and op: "with_shared_meeting w up user mid db1 (leave_operation w user) = Inr (db', a)"
    by (auto simp: leave_meetup_def split: sum.splits)
  note act = acting_user_inv [OF inv act fresh tg]
  show ?thesis
    by (rule with_shared_meeting_inv [OF conjunct1 [OF act] op], rule leave_operation_inv) auto
qed

lemma invite_inv:
  assumes inv: "roster_inv (rw_limits w) db" and run: "confirm_user_invitation w up authorized mid name db = Inr (db', a)"
    and fresh: "rw_user w \<notin> u_id ` set (users db)" "rw_link w \<notin> jl_id ` set (links db)"
  shows "roster_inv (rw_limits w) db'"
proof (cases "db' = db")
  case True
  with inv show ?thesis by simp
next
  case False
  let ?db = "db\<lparr>users := users db @ [placeholder w name]\<rparr>"
  from False run obtain user m owner M' l where u: "current_user up db = Inr user" and m: "by_id db False mid = Some m"
    and o: "owner_row db m = Some owner"
    and add: "add_participant (rw_limits w) owner (rw_now w) (placeholder w name) (Some user) (load_meeting db m) = (M', Some l)"
    and db': "db' = store_links mid (rw_link w) (joined_links M') ?db"
    unfolding confirm_user_invitation_def conversation_meeting_def
    by (auto simp: Let_def simp del: joined_links_load split: sum.splits option.splits if_splits prod.splits)
  note mm = by_id_Some [OF m] and oo = owner_row_Some [OF o] and uu = current_user_Inr' [OF u]
  have p: "u_id (placeholder w name) = rw_user w" "tg_user_id (placeholder w name) = ANONYMOUS_INVITEE_TG_ID"
    by (simp_all add: placeholder_def default_user_def)
  have inv': "roster_inv (rw_limits w) ?db"
    using inv fresh(1) unfolding roster_inv_def by (auto simp: p intro!: base_add_user settled_add_user)
  have base: "base_ok db" "base_ok ?db" using inv inv' by (simp_all add: roster_inv_def)
  have unused: "jl_user_id r \<noteq> rw_user w" if "r \<in> set (links db)" for r
    using refs_link_user [OF base_parts(2) [OF base(1)] that] fresh(1) by auto
  have same: "load_meeting ?db m = load_meeting db m" by (rule load_meeting_add_user [OF base(1)])
  have inv_p: "is_invitee ?db (rw_user w)" using p by (auto simp: is_invitee_def)
  have b: "base_ok (store_links (m_id m) (rw_link w) (joined_links M') ?db)" "0 < n_waiting M' \<longrightarrow> full (rw_limits w) owner M'"
    "max_members M' = max_members m"
  proof -
    have m': "m \<in> set (meetups ?db)" using mm by simp
    have add': "add_participant (rw_limits w) owner (rw_now w) (placeholder w name) (Some user) (load_meeting ?db m) = (M', Some l)"
      unfolding same by (rule add)
    have fresh': "rw_link w \<notin> jl_id ` set (links ?db)" using fresh(2) by simp
    have v: "placeholder w name \<in> set (users ?db)" "\<not> has_link ?db (m_id m) (u_id (placeholder w name))"
      using unused by (auto simp: p has_link_def links_of_def)
    have ib: "i \<in> set (users ?db) \<and> is_invitee ?db (u_id (placeholder w name))" if "Some user = Some i" for i
      using that uu inv_p by (simp add: p)
    have guest: "jl_user_id r \<noteq> u_id (placeholder w name)" if "r \<in> set (links ?db)" for r
      using that unused by (simp add: p)
    have waits: "0 < n_waiting (load_meeting ?db m) \<longrightarrow> full (rw_limits w) owner (load_meeting ?db m)"
      unfolding same using loaded_settled [OF inv] mm oo by blast
    note * = base_add [OF base(2) m' add' fresh' v ib guest waits]
    show "base_ok (store_links (m_id m) (rw_link w) (joined_links M') ?db)" "0 < n_waiting M' \<longrightarrow> full (rw_limits w) owner M'"
      "max_members M' = max_members m" by (rule *; assumption)+
  qed
  have "roster_inv (rw_limits w) (store_links (m_id m) (rw_link w) (joined_links M') ?db)"
    by (rule roster_store [OF inv' _ _ _ b]) (use mm oo in auto)
  with mm show ?thesis by (simp add: db')
qed

text \<open>Deleting a placeholder that is in no meeting any more.\<close>

lemma delete_placeholder:
  assumes inv: "roster_inv cfg db" and guest: "is_invitee db uid" and none: "\<And>l. l \<in> set (links db) \<Longrightarrow> jl_user_id l \<noteq> uid"
  shows "roster_inv cfg (delete_users_where (\<lambda>u. u_id u = uid) db)"
proof -
  let ?db = "delete_users_where (\<lambda>u. u_id u = uid) db"
  let ?gone = "\<lambda>i. \<exists>u \<in> set (users db). u_id u = i \<and> u_id u = uid"
  have base: "base_ok db" using inv by (simp add: roster_inv_def)
  note parts = base_parts [OF base]
  have gone: "?gone i \<longleftrightarrow> i = uid" for i using guest by (auto simp: is_invitee_def)
  have owner: "owner_id m \<noteq> uid" if "m \<in> set (meetups db)" for m
    using parts(4) guest that unfolding invitees_own_nothing_def by blast
  have ms: "meetups ?db = meetups db" and cs: "users ?db = delete_where (\<lambda>u. u_id u = uid) (users db)"
    using owner by (auto simp: delete_users_where_def delete_meetups_where_def Let_def gone delete_where_def)
  have ls: "links ?db = map (clear_inviter (\<lambda>i. i = uid)) (links db)"
  proof -
    have "delete_where (\<lambda>l. \<exists>m \<in> set (meetups db). m_id m = jl_meetup_id l \<and> ?gone (owner_id m)) (links db) = links db"
      using owner by (auto simp: delete_where_def gone)
    moreover have "delete_where (\<lambda>l. ?gone (jl_user_id l)) (links db) = links db"
      using none by (auto simp: delete_where_def gone)
    ultimately show ?thesis by (simp add: delete_users_where_def delete_meetups_where_def Let_def gone)
  qed
  have less: "is_invitee ?db i \<Longrightarrow> is_invitee db i" for i unfolding is_invitee_def cs by auto
  have more: "is_invitee ?db i" if "is_invitee db i" "i \<noteq> uid" for i
    using that unfolding is_invitee_def cs set_delete_where by blast
  have clear: "jl_user_id (clear_inviter P l) = jl_user_id l" "jl_meetup_id (clear_inviter P l) = jl_meetup_id l"
    "jl_waiting (clear_inviter P l) = jl_waiting l" for P l by simp_all
  have "tables_ok ?db" by (rule delete_users_ok [OF parts(3)])
  moreover have "invitees_own_nothing ?db"
    using parts(4) less unfolding invitees_own_nothing_def ms by blast
  moreover have "memberships_ok ?db"
    unfolding memberships_ok_def ls set_map
  proof (intro ballI impI)
    fix a b assume "a \<in> clear_inviter (\<lambda>i. i = uid) ` set (links db)" "b \<in> clear_inviter (\<lambda>i. i = uid) ` set (links db)"
      and eq: "jl_user_id a = jl_user_id b \<and> jl_meetup_id a = jl_meetup_id b"
    then obtain l l' where l: "a = clear_inviter (\<lambda>i. i = uid) l" "b = clear_inviter (\<lambda>i. i = uid) l'"
      "l \<in> set (links db)" "l' \<in> set (links db)" by auto
    with eq parts(5) have "l = l'" unfolding memberships_ok_def clear by (metis clear(1,2))
    with l(1,2) show "a = b" by simp
  qed
  moreover have "guests_ok ?db"
    unfolding guests_ok_def ls set_map
  proof (intro conjI ballI impI)
    fix a assume "a \<in> clear_inviter (\<lambda>i. i = uid) ` set (links db)"
    then obtain l where l: "a = clear_inviter (\<lambda>i. i = uid) l" "l \<in> set (links db)" by auto
    show "is_invitee ?db (jl_user_id a)" if "jl_invited_by a \<noteq> None"
    proof -
      from that obtain i where "jl_invited_by l = Some i" unfolding l(1) clear_inviter_invited not_None_eq by blast
      with parts(6) l(2) have "is_invitee db (jl_user_id l)" unfolding guests_ok_def by blast
      then show ?thesis unfolding l(1) clear by (rule more) (rule none [OF l(2)])
    qed
    fix b assume "b \<in> clear_inviter (\<lambda>i. i = uid) ` set (links db)"
      and eq: "is_invitee ?db (jl_user_id a) \<and> jl_user_id a = jl_user_id b"
    then obtain l' where l': "b = clear_inviter (\<lambda>i. i = uid) l'" "l' \<in> set (links db)" by auto
    from eq have "is_invitee db (jl_user_id l)" "jl_user_id l = jl_user_id l'" using less unfolding l(1) l'(1) clear by blast+
    with parts(6) l(2) l'(2) have "l = l'" unfolding guests_ok_def by blast
    with l(1) l'(1) show "a = b" by simp
  qed
  ultimately have "base_ok ?db" by (simp add: base_ok_def)
  moreover have "row_settled cfg ?db m" if "m \<in> set (meetups db)" for m
  proof -
    have "links_of ?db i = map (clear_inviter (\<lambda>i. i = uid)) (links_of db i)" for i
      by (simp add: links_of_def ls filter_map comp_def)
    then have counts: "count_where jl_waiting (links_of ?db i) = count_where jl_waiting (links_of db i)"
      "count_where (\<lambda>l. \<not> jl_waiting l) (links_of ?db i) = count_where (\<lambda>l. \<not> jl_waiting l) (links_of db i)" for i
      by (simp_all add: count_where_def filter_map comp_def)
    have "row_settled cfg db m" using inv that by (simp add: roster_inv_def nobody_waits_for_nothing_def)
    then show ?thesis unfolding row_settled_def counts cs set_delete_where by blast
  qed
  ultimately show ?thesis by (simp add: roster_inv_def nobody_waits_for_nothing_def ms)
qed

lemma participant_Some: "participant uid M = Some l \<Longrightarrow> l \<in> set (joined_links M) \<and> u_id (l_user l) = uid"
  by (auto simp: participant_def participants_def dest!: first_where_Some)

lemma kick_inv:
  assumes inv: "roster_inv (rw_limits w) db" and run: "kickout_participant_confirm w up mid uid db = Inr (db', a)"
  shows "roster_inv (rw_limits w) db'"
proof (cases "db' = db")
  case True
  with inv show ?thesis by simp
next
  case False
  with run obtain user m link M' promoted where u: "current_user up db = Inr user" and m: "meeting db (Some user) mid OWNER = Inr m"
    and link: "participant uid (load_meeting db m) = Some link"
    and rm: "remove_participant (rw_limits w) user link (load_meeting db m) = Inr (M', promoted)"
    and db': "db' = (if l_invited_by link \<noteq> None then delete_users_where (\<lambda>u. u_id u = uid) (store_links mid (rw_link w) (joined_links M') db)
      else store_links mid (rw_link w) (joined_links M') db)"
    unfolding kickout_participant_confirm_def
    by (auto simp: Let_def simp del: joined_links_load split: sum.splits option.splits)
  have m': "m \<in> set (meetups db)" "m_id m = mid" "u_id user = owner_id m"
    using m by_id_Some unfolding meeting_Inr by (auto simp: owned_def is_owned_by_def dest: by_id_Some)
  have us: "user \<in> set (users db)" using current_user_Inr' [OF u] by blast
  have base: "base_ok db" using inv by (simp add: roster_inv_def)
  let ?st = "store_links (m_id m) (rw_link w) (joined_links M') db"
  have st: "roster_inv (rw_limits w) ?st" by (rule roster_store [OF inv m'(1) us m'(3) base_remove(1-3) [OF base rm]])
  show ?thesis
  proof (cases "l_invited_by link = None")
    case True
    with st show ?thesis by (simp add: db' m'(2))
  next
    case False
    let ?u = "unload_link (m_id m) 0"
    note p = participant_Some [OF link]
    note loaded = load_unloaded_distinct [OF base, of m 0]
    obtain as x bs where split: "joined_links (load_meeting db m) = as @ x # bs" "same_columns link x"
      "map l_user (joined_links M') = map l_user (as @ bs)" using base_remove(4) [OF base rm] by blast
    have row: "?u y \<in> set (links db) \<and> jl_user_id (?u y) = u_id (l_user y)" if "y \<in> set (joined_links (load_meeting db m))" for y
    proof -
      from that have "?u y \<in> set (links_of db (m_id m))" unfolding loaded(2) [symmetric] by simp
      then show ?thesis by (simp add: links_of_def unload_link_def)
    qed
    have guest: "is_invitee db uid"
    proof -
      have "jl_invited_by (?u link) \<noteq> None" using False by (simp add: unload_link_def)
      with row [of link] p base_parts(6) [OF base] show ?thesis unfolding guests_ok_def by metis
    qed
    have one: "l = l'" if "l \<in> set (links db)" "l' \<in> set (links db)" "jl_user_id l = uid" "jl_user_id l' = uid" for l l'
      using base_parts(6) [OF base] guest that unfolding guests_ok_def by metis
    have x: "u_id (l_user x) = uid" "x \<in> set (joined_links (load_meeting db m))"
      using split(1,2) p by (auto simp: same_columns_def)
    have notmine: "u_id (l_user y) \<noteq> uid" if "y \<in> set (as @ bs)" for y
    proof
      assume y: "u_id (l_user y) = uid"
      have "y \<in> set (joined_links (load_meeting db m))" using that split(1) by auto
      with one [of "?u y" "?u x"] row x y have "?u y = ?u x" by simp
      moreover have "distinct (map ?u (as @ x # bs))" using loaded(1) split(1) by simp
      ultimately show False using that by (auto simp: image_iff)
    qed
    have none: "jl_user_id l \<noteq> uid" if l: "l \<in> set (links ?st)" for l
    proof (cases "jl_meetup_id l = m_id m \<and> l \<in> set (map (unload_link (m_id m) (rw_link w)) (joined_links M'))")
      case True
      then obtain y where y: "y \<in> set (joined_links M')" "jl_user_id l = u_id (l_user y)" by (auto simp: unload_link_def)
      then have "l_user y \<in> set (map l_user (as @ bs))" unfolding split(3) [symmetric] by simp
      then obtain z where z: "z \<in> set (as @ bs)" "l_user z = l_user y" unfolding set_map by (metis imageE)
      from notmine [OF z(1)] z(2) y(2) show ?thesis by simp
    next
      case False
      with l have old: "l \<in> set (links db)" "jl_meetup_id l \<noteq> m_id m"
        by (auto simp: store_links_def unload_link_def)
      show ?thesis
      proof
        assume "jl_user_id l = uid"
        with one [OF old(1), of "?u x"] row [OF x(2)] x(1) have "l = ?u x" by simp
        with old(2) show False by (simp add: unload_link_def)
      qed
    qed
    have "is_invitee ?st uid" using guest by simp
    from delete_placeholder [OF st this none] False show ?thesis by (simp add: db' m'(2))
  qed
qed

lemma set_participant_limit_inv:
  assumes inv: "roster_inv (rw_limits w) db" and m: "m \<in> set (meetups db)" and o: "owner \<in> set (users db)" "u_id owner = owner_id m"
    and run: "set_participant_limit w m owner new db = Inr (db', a)"
  shows "roster_inv (rw_limits w) db'"
proof -
  let ?f = "\<lambda>r. if m_id r = m_id m then r\<lparr>max_members := new\<rparr> else r"
  let ?db = "db\<lparr>meetups := map ?f (meetups db)\<rparr>"
  let ?m = "m\<lparr>max_members := new\<rparr>"
  let ?M = "fst (promote_from_waiting_list (rw_limits w) owner (load_meeting ?db ?m))"
  have db': "db' = store_links (m_id ?m) (rw_link w) (joined_links ?M) ?db"
    using run by (auto simp: set_participant_limit_def Let_def update_where_def simp del: joined_links_load split: prod.splits sum.splits)
  have base: "base_ok db" using inv by (simp add: roster_inv_def)
  note parts = base_parts [OF base]
  have same: "is_invitee ?db = is_invitee db" by (rule ext) (simp add: is_invitee_def)
  have "tables_ok (db\<lparr>users := users db, meetups := map ?f (meetups db), links := links db\<rparr>)"
    by (rule update_tables_ok [OF parts(3)]) simp_all
  then have "tables_ok ?db" by simp
  moreover have "memberships_ok ?db = memberships_ok db" "guests_ok ?db = guests_ok db"
    unfolding memberships_ok_def guests_ok_def same by simp_all
  moreover have "invitees_own_nothing ?db"
    using parts(4) unfolding invitees_own_nothing_def same by auto
  ultimately have base': "base_ok ?db" using parts by (simp add: base_ok_def)
  have st: "base_ok (store_links (m_id ?m) (rw_link w) (joined_links ?M) ?db)"
    by (rule base_promote [OF base', where as = "[]" and xs = "[]" and bs = "joined_links (load_meeting ?db ?m)"]) simp_all
  have settled: "row_settled (rw_limits w) ?db r" if "r \<in> set (meetups ?db)" "m_id r \<noteq> m_id ?m" for r
  proof -
    from that have "r \<in> set (meetups db)" by (auto split: if_splits)
    with inv row_settled_same [of ?db db "rw_limits w"] show ?thesis
      by (simp add: roster_inv_def nobody_waits_for_nothing_def)
  qed
  have "nobody_waits_for_nothing (rw_limits w) (store_links (m_id ?m) (rw_link w) (joined_links ?M) ?db)"
  proof (rule row_settled_store [where u = owner])
    show "keys_ok ?db" by (rule base_parts(1) [OF base'])
    show "?m \<in> set (meetups ?db)" using m by force
    show "0 < n_waiting ?M \<longrightarrow> full (rw_limits w) owner ?M" using promote_fills by blast
    show "max_members ?M = max_members ?m" by (simp add: promote_unfold Let_def)
  qed (use o settled in simp_all)
  with st show ?thesis by (simp add: roster_inv_def db')
qed

lemma with_meeting_inv:
  assumes inv: "roster_inv cfg db" and run: "with_meeting up mid access db k = Inr (db', a)" and access: "access \<noteq> OWNER_OR_JOINED" "access \<noteq> OWNER_OR_PUBLIC"
    and k: "\<And>user m. user \<in> set (users db) \<Longrightarrow> m \<in> set (meetups db) \<Longrightarrow> u_id user = owner_id m \<Longrightarrow> k user m = Inr (db', a) \<Longrightarrow> roster_inv cfg db'"
  shows "roster_inv cfg db'"
proof -
  from run obtain user m where u: "current_user up db = Inr user" and m: "meeting db (Some user) mid access = Inr m"
    and r: "k user m = Inr (db', a)"
    by (auto simp: with_meeting_def split: sum.splits)
  have "m \<in> set (meetups db)" "u_id user = owner_id m"
    using m access unfolding meeting_Inr by (cases access; auto simp: owned_def is_owned_by_def dest: by_id_Some)+
  with k r current_user_Inr' [OF u] show ?thesis by blast
qed

section \<open>Any sequence of them\<close>

datatype roster_act =
    Join_Tap tg_update string "string option" int
  | Leave_Tap tg_update string "string option" int
  | Invite tg_update int int string
  | Kick tg_update int int
  | Limit tg_update int int
  | No_Limit tg_update int
  | Remove_Limit tg_update int
  | Confirm_Remove_Limit tg_update int

fun perform :: "roster_world \<Rightarrow> roster_act \<Rightarrow> sdb \<Rightarrow> roster_error + sdb" where
  "perform w (Join_Tap up name nick mid) db = map_sum id fst (join_meetup w up name nick mid db)"
| "perform w (Leave_Tap up name nick mid) db = map_sum id fst (leave_meetup w up name nick mid db)"
| "perform w (Invite up authorized mid name) db = map_sum id fst (confirm_user_invitation w up authorized mid name db)"
| "perform w (Kick up mid uid) db = map_sum id fst (kickout_participant_confirm w up mid uid db)"
| "perform w (Limit up mid n) db = map_sum id fst (edit_meeting_max_participants w up mid n db)"
| "perform w (No_Limit up mid) db = map_sum id fst (edit_meeting_no_limit_participants w up mid db)"
| "perform w (Remove_Limit up mid) db = map_sum id fst (remove_limit w up mid db)"
| "perform w (Confirm_Remove_Limit up mid) db = map_sum id fst (confirm_remove_limit w up mid db)"

fun acting :: "roster_act \<Rightarrow> int option" where
  "acting (Join_Tap up name nick mid) = effective_user up"
| "acting (Leave_Tap up name nick mid) = effective_user up"
| "acting (Invite up authorized mid name) = effective_user up"
| "acting (Kick up mid uid) = effective_user up"
| "acting (Limit up mid n) = effective_user up"
| "acting (No_Limit up mid) = effective_user up"
| "acting (Remove_Limit up mid) = effective_user up"
| "acting (Confirm_Remove_Limit up mid) = effective_user up"

text \<open>One update is one transaction: the database hands out unused keys, Telegram's ids are never the placeholders'
  -1, and an update whose handler raises changes nothing.\<close>

inductive roster_event :: "limits_config \<Rightarrow> sdb \<Rightarrow> roster_world \<times> roster_act \<Rightarrow> sdb \<Rightarrow> bool" for cfg where
  update: "rw_limits w = cfg \<Longrightarrow> rw_user w \<notin> u_id ` set (users db) \<Longrightarrow> rw_link w \<notin> jl_id ` set (links db) \<Longrightarrow>
    acting a \<noteq> Some ANONYMOUS_INVITEE_TG_ID \<Longrightarrow> perform w a db = Inr db' \<Longrightarrow> roster_event cfg db (w, a) db'"
| raised: "perform w a db = Inl e \<Longrightarrow> roster_event cfg db (w, a) db"

lemma map_sum_Inr: "map_sum id fst r = Inr d \<Longrightarrow> \<exists>a. r = Inr (d, a)"
  by (cases r) auto

lemma roster_event_inv:
  assumes "roster_event cfg db e db'" "roster_inv cfg db"
  shows "roster_inv cfg db'"
  using assms
proof cases
  case (update w a)
  have inv: "roster_inv (rw_limits w) db" using assms(2) update(2) by simp
  note lim = set_participant_limit_inv [OF inv]
  have "roster_inv (rw_limits w) db'"
  proof (cases a)
    case (Join_Tap up name nick mid)
    with update map_sum_Inr show ?thesis by (force intro: join_meetup_inv [OF inv])
  next
    case (Leave_Tap up name nick mid)
    with update map_sum_Inr show ?thesis by (force intro: leave_meetup_inv [OF inv])
  next
    case (Invite up authorized mid name)
    with update map_sum_Inr show ?thesis by (force intro: invite_inv [OF inv])
  next
    case (Kick up mid uid)
    with update map_sum_Inr show ?thesis by (force intro: kick_inv [OF inv])
  next
    case (Limit up mid n)
    with update obtain r where "edit_meeting_max_participants w up mid n db = Inr (db', r)" using map_sum_Inr by force
    then show ?thesis unfolding edit_meeting_max_participants_def
      by (rule with_meeting_inv [OF inv]) (use inv lim in \<open>auto split: if_splits\<close>)
  next
    case (No_Limit up mid)
    with update obtain r where "edit_meeting_no_limit_participants w up mid db = Inr (db', r)" using map_sum_Inr by force
    then show ?thesis unfolding edit_meeting_no_limit_participants_def
      by (rule with_meeting_inv [OF inv]) (use lim in auto)
  next
    case (Remove_Limit up mid)
    with update obtain r where "remove_limit w up mid db = Inr (db', r)" using map_sum_Inr by force
    then show ?thesis unfolding remove_limit_def
      by (rule with_meeting_inv [OF inv]) (use inv lim in \<open>auto split: if_splits\<close>)
  next
    case (Confirm_Remove_Limit up mid)
    with update obtain r where "confirm_remove_limit w up mid db = Inr (db', r)" using map_sum_Inr by force
    then show ?thesis unfolding confirm_remove_limit_def
      by (rule with_meeting_inv [OF inv]) (use lim in auto)
  qed
  with update(2) show ?thesis by simp
qed simp

interpretation roster_tables: invariant_system "roster_event cfg" "roster_inv cfg" for cfg
  by unfold_locales (rule roster_event_inv)

text \<open>C8. Whatever sequence of joins, leaves, invitations, kick-outs and limit changes the handlers process, in any
  meetings and by anybody: nobody is in a meeting twice, a placeholder is in one meeting and owns none, every key and
  reference in the tables is intact, and wherever somebody waits the confirmed participants fill the capacity that applies
  to the meeting.\<close>

theorem rosters_stay_fair:
  assumes "steps (roster_event cfg) db es db'" "base_ok db" "nobody_waits_for_nothing cfg db"
  shows "tables_ok db' \<and> memberships_ok db' \<and> guests_ok db' \<and> invitees_own_nothing db' \<and> nobody_waits_for_nothing cfg db'"
  using roster_tables.steps_inv [OF assms(1)] assms(2,3) by (simp add: roster_inv_def base_ok_def)

section \<open>A placeholder whose inviter is gone\<close>

lemma map_sort_key: "map f (sort_key (\<lambda>x. k (f x)) xs) = sort_key k (map f xs)"
proof -
  have insort: "map f (insort_key (\<lambda>x. k (f x)) x ys) = insort_key k (f x) (map f ys)" for x ys
    by (induction ys) simp_all
  have "map f (foldr (insort_key (\<lambda>x. k (f x))) xs []) = foldr (insort_key k) (map f xs) []"
    by (induction xs) (simp_all add: insort)
  then show ?thesis by (simp add: sort_key_def)
qed

lemma filter_positions: "map ((!) xs) (filter (\<lambda>i. P (xs ! i)) [0..<length xs]) = filter P xs"
proof -
  have "filter P (map ((!) xs) [0..<length xs]) = map ((!) xs) (filter (\<lambda>i. P (xs ! i)) [0..<length xs])"
    by (simp add: filter_map comp_def)
  then show ?thesis by (simp add: map_nth)
qed

text \<open>The waiting list is the waiting links, sorted.\<close>

lemma waiting_links_sorted: "waiting_links m = sort_key wait_key (filter is_waiting_list (joined_links m))"
  unfolding waiting_links_def waiting_positions_def
  using map_sort_key [of "(!) (joined_links m)" wait_key] filter_positions [of "joined_links m" is_waiting_list] by simp

text \<open>C9. A defect: \<open>notify_users_promoted_from_waiting_list\<close> recognises a placeholder by its inviter, and the
  inviter is cleared when that account is deleted. Once such a placeholder is next in line, nobody who holds a place in a
  meeting at its capacity can leave it: reading the placeholder's language raises, and the transaction rolls back.\<close>

theorem orphaned_placeholder_blocks_leaving:
  fixes db :: sdb and m :: meetup_row and w :: roster_world and owner user :: user
  assumes "first_where (\<lambda>l. u_id (l_user l) = u_id user) (joined_links (load_meeting db m)) = Some link" "\<not> is_waiting_list link"
    and "waiting_links (load_meeting db m) = guest # guests" "l_invited_by guest = None" "tg_user_id (l_user guest) = ANONYMOUS_INVITEE_TG_ID"
    and "effective_max_members (rw_limits w) owner (load_meeting db m) = Some cap" "int (n_participants (load_meeting db m)) \<le> cap"
  shows "leave_operation w user db m owner = Inl SettingsMissing"
proof -
  let ?L = "load_meeting db m"
  from assms(1) have "link \<in> set (joined_links ?L)" by (auto dest: first_where_Some)
  then obtain links where rm: "remove_first (same_columns link) (joined_links ?L) = Some links"
    using remove_first_None [of "same_columns link" "joined_links ?L"] by (cases "remove_first (same_columns link) (joined_links ?L)") (auto simp: same_columns_def)
  then obtain as l bs where split: "joined_links ?L = as @ l # bs" "links = as @ bs" "same_columns link l"
    using remove_first_Some [of "same_columns link" "joined_links ?L" links] by blast
  let ?M = "?L\<lparr>joined_links := links\<rparr>"
  have l: "\<not> is_waiting_list l" using split(3) assms(2) by (simp add: same_columns_def)
  have waiting: "waiting_links ?M = waiting_links ?L"
    unfolding waiting_links_sorted using l split(1,2) by simp
  have counts: "n_participants ?L = Suc (n_participants ?M)" "n_waiting ?M = n_waiting ?L"
    using l split(1,2) by (simp_all add: n_participants_def n_waiting_def count_where_def)
  have "n_waiting ?L = length (waiting_links ?L)" by (simp add: waiting_links_def)
  with assms(3,6,7) counts have "0 < promotion_count (rw_limits w) owner ?M" by (simp add: promotion_count_def)
  then obtain k where k: "promotion_count (rw_limits w) owner ?M = Suc k" using gr0_implies_Suc by blast
  obtain M' promoted where p: "promote_from_waiting_list (rw_limits w) owner ?M = (M', promoted)" by (meson surj_pair)
  with promote_links [of "rw_limits w" owner ?M] k waiting assms(3)
  have "promoted = confirm guest # map confirm (take k guests)" by simp
  then have "notify_promoted promoted = Inl SettingsMissing"
    using assms(4,5) by (simp add: notify_promoted_def confirm_def)
  with p rm assms(1) show ?thesis
    by (simp add: leave_operation_def remove_participant_def Let_def)
qed

end
