(* ===== verification/Roster_Examples.thy ===== *)
theory Roster_Examples
  imports Roster_Props Life_Examples
begin

text \<open>
  A public meeting with one place: Ada (user 1) holds it. User 2 joins and waits, Ada leaves and user 2 gets the
  place. In a second run the person waiting is a placeholder whose inviter has asked for the deletion of the account.
\<close>

definition ex_place :: meetup_row where
  "ex_place = ex_row\<lparr>public := True, max_members := Some 1\<rparr>"

definition ex_seat :: link_row where
  "ex_seat = \<lparr>jl_id = 10, jl_user_id = 1, jl_meetup_id = 5, jl_invited_by = None, jl_created_time = 0,
     jl_waiting = False, jl_notified = False\<rparr>"

definition ex_wait :: link_row where
  "ex_wait = \<lparr>jl_id = 11, jl_user_id = 2, jl_meetup_id = 5, jl_invited_by = None, jl_created_time = 20,
     jl_waiting = True, jl_notified = False\<rparr>"

definition ex_roster :: sdb where
  "ex_roster = \<lparr>users = [ex_user 0, ex_user 1, ex_user 2], meetups = [ex_place], links = [ex_seat], cards = [], pending = []\<rparr>"

definition ex_tap_of :: "int \<Rightarrow> tg_update" where
  "ex_tap_of i = \<lparr>effective_user = Some (700 + i), effective_chat = Some (700 + i, True), effective_message = Some (1, 1),
     tapped = Some \<lparr>q_inline_message_id = None, q_chat_instance = None\<rparr>\<rparr>"

definition ex_roster_world :: "instant \<Rightarrow> int \<Rightarrow> roster_world" where
  "ex_roster_world now i = \<lparr>rw_limits = default_limits, rw_now = now, rw_link = i, rw_card = i, rw_user = i\<rparr>"

definition ex_joined :: sdb where "ex_joined = ex_roster\<lparr>links := [ex_seat, ex_wait]\<rparr>"
definition ex_left :: sdb where "ex_left = ex_roster\<lparr>links := [ex_wait\<lparr>jl_waiting := False\<rparr>]\<rparr>"

definition ex_roster_events :: "(roster_world \<times> roster_act) list" where
  "ex_roster_events = [(ex_roster_world 20 11, Join_Tap (ex_tap_of 2) ''Ada'' None 5),
     (ex_roster_world 30 12, Leave_Tap (ex_tap_of 1) ''Ada'' None 5)]"

lemmas ex_roster_defs = ex_place_def ex_seat_def ex_wait_def ex_roster_def ex_tap_of_def ex_roster_world_def ex_joined_def
  ex_left_def ex_row_def ex_user_def

lemma ex_join_step: "roster_event default_limits ex_roster (ex_roster_world 20 11, Join_Tap (ex_tap_of 2) ''Ada'' None 5) ex_joined"
proof (rule roster_event.intros)
  show "perform (ex_roster_world 20 11) (Join_Tap (ex_tap_of 2) ''Ada'' None 5) ex_roster = Inr ex_joined" by code_simp
qed (auto simp: ex_roster_defs ANONYMOUS_INVITEE_TG_ID_def)

lemma ex_leave_step: "roster_event default_limits ex_joined (ex_roster_world 30 12, Leave_Tap (ex_tap_of 1) ''Ada'' None 5) ex_left"
proof (rule roster_event.intros)
  show "perform (ex_roster_world 30 12) (Leave_Tap (ex_tap_of 1) ''Ada'' None 5) ex_joined = Inr ex_left" by code_simp
qed (auto simp: ex_roster_defs ANONYMOUS_INVITEE_TG_ID_def)

lemma ex_roster_run: "steps (roster_event default_limits) ex_roster ex_roster_events ex_left"
  unfolding ex_roster_events_def using ex_join_step ex_leave_step by auto

lemma ex_roster_ok: "base_ok ex_roster" "nobody_waits_for_nothing default_limits ex_roster"
  by (simp_all add: base_ok_def tables_ok_def keys_ok_def refs_ok_def invitees_own_nothing_def memberships_ok_def guests_ok_def
      is_invitee_def ANONYMOUS_INVITEE_TG_ID_def nobody_waits_for_nothing_def row_settled_def links_of_def count_where_def
      ex_roster_defs)

theorem rosters_stay_fair_witness:
  "tables_ok ex_left \<and> memberships_ok ex_left \<and> guests_ok ex_left \<and> invitees_own_nothing ex_left \<and>
   nobody_waits_for_nothing default_limits ex_left"
  by (rule rosters_stay_fair [OF ex_roster_run ex_roster_ok])

text \<open>User 3 invited the placeholder and is then purged.\<close>

definition ex_guest :: user where
  "ex_guest = placeholder (ex_roster_world 20 2) ''Bo''"

definition ex_invited :: sdb where
  "ex_invited = \<lparr>users = [ex_user 0, ex_user 1, ex_guest, (ex_user 3)\<lparr>status := DELETION_REQUESTED\<rparr>], meetups = [ex_place],
     links = [ex_seat, ex_wait\<lparr>jl_invited_by := Some 3\<rparr>], cards = [], pending = []\<rparr>"

definition ex_orphaned :: sdb where
  "ex_orphaned = \<lparr>users = [ex_user 0, ex_user 1, ex_guest], meetups = [ex_place], links = [ex_seat, ex_wait], cards = [], pending = []\<rparr>"

theorem orphaned_placeholder_blocks_leaving_witness:
  "fst (purge_users 25 ex_invited) = ex_orphaned \<and>
   leave_operation (ex_roster_world 30 12) (ex_user 1) ex_orphaned ex_place (ex_user 0) = Inl SettingsMissing \<and>
   leave_meetup (ex_roster_world 30 12) (ex_tap_of 1) ''Ada'' None 5 ex_orphaned = Inl SettingsMissing"
proof (intro conjI)
  let ?M = "load_meeting ex_orphaned ex_place"
  let ?seat = "\<lparr>l_id = Some 10, l_user = ex_user 1, l_invited_by = None, l_created_time = 0, is_waiting_list = False, notification_sent = False\<rparr>"
  let ?wait = "\<lparr>l_id = Some 11, l_user = ex_guest, l_invited_by = None, l_created_time = 20, is_waiting_list = True, notification_sent = False\<rparr>"
  show "fst (purge_users 25 ex_invited) = ex_orphaned" by code_simp
  have "joined_links ?M = [?seat, ?wait]" by code_simp
  then have "first_where (\<lambda>l. u_id (l_user l) = u_id (ex_user 1)) (joined_links ?M) = Some ?seat"
    by (simp add: ex_user_def)
  moreover have "waiting_links ?M = [?wait]" by code_simp
  moreover have "effective_max_members (rw_limits (ex_roster_world 30 12)) (ex_user 0) ?M = Some 1" by code_simp
  moreover have "n_participants ?M = 1" by code_simp
  ultimately show "leave_operation (ex_roster_world 30 12) (ex_user 1) ex_orphaned ex_place (ex_user 0) = Inl SettingsMissing"
    by (intro orphaned_placeholder_blocks_leaving [where link = ?seat and guest = ?wait and guests = "[]" and cap = 1])
      (simp_all add: ex_guest_def placeholder_def default_user_def)
  show "leave_meetup (ex_roster_world 30 12) (ex_tap_of 1) ''Ada'' None 5 ex_orphaned = Inl SettingsMissing" by code_simp
qed

end
