(* ===== verification/Zones.thy ===== *)
theory Zones
  imports Users
begin

text \<open>
  Wall clocks (\<^verbatim>\<open>libs/core/mitup_bot/datetimes.py\<close>, the date predicates of \<^verbatim>\<open>libs/core/mitup_bot/limits.py\<close>). A time
  zone is its offset before the first transition and the transitions, each with the offset it starts; this is the table
  \<open>zoneinfo\<close> reads from the zone database (the rule it may end with unrolled). Reading an instant on the clocks of a zone
  adds the offset in force; finding the instant of a wall clock follows PEP 495 and \<open>zoneinfo\<close>: a clock reading that
  occurs twice or never is resolved by the \<open>fold\<close> flag, comparing with the later (fold 0) or the earlier (fold 1) of
  the two readings at a transition. A wall clock is counted in microseconds like an instant; a date is its day number.

  Which zone a name identifies is the argument \<open>zones\<close>, the zone database.
\<close>

section \<open>Zones\<close>

record zone =
  z_before :: duration
  z_trans :: "(instant \<times> duration) list"

definition UTC_TIMEZONE :: zone where
  "UTC_TIMEZONE = \<lparr>z_before = 0, z_trans = []\<rparr>"

definition settings_tz :: "(string \<Rightarrow> zone option) \<Rightarrow> settings \<Rightarrow> zone" where
  "settings_tz zones s = (case zones (timezone s) of None \<Rightarrow> UTC_TIMEZONE | Some z \<Rightarrow> z)"

fun offset_from :: "duration \<Rightarrow> (instant \<times> duration) list \<Rightarrow> instant \<Rightarrow> duration" where
  "offset_from p [] t = p"
| "offset_from p ((s, q) # ts) t = (if t < s then p else offset_from q ts t)"

fun wall_offset_from :: "bool \<Rightarrow> duration \<Rightarrow> (instant \<times> duration) list \<Rightarrow> int \<Rightarrow> duration" where
  "wall_offset_from f p [] w = p"
| "wall_offset_from f p ((s, q) # ts) w =
     (if w < s + (if f then min p q else max p q) then p else wall_offset_from f q ts w)"

definition utcoffset :: "zone \<Rightarrow> instant \<Rightarrow> duration" where
  "utcoffset z t = offset_from (z_before z) (z_trans z) t"

text \<open>\<open>t.astimezone(tz)\<close>, as the wall clock it reads, and the fold it carries.\<close>

definition wall :: "zone \<Rightarrow> instant \<Rightarrow> int" where
  "wall z t = t + utcoffset z t"

fun fold_from :: "duration \<Rightarrow> (instant \<times> duration) list \<Rightarrow> instant \<Rightarrow> bool" where
  "fold_from p [] t = False"
| "fold_from p ((s, q) # ts) t =
     (if t < s then False
      else if (case ts of [] \<Rightarrow> True | (s', _) # _ \<Rightarrow> t < s') then p - q > t - s
      else fold_from q ts t)"

definition fold_at :: "zone \<Rightarrow> instant \<Rightarrow> bool" where
  "fold_at z t = fold_from (z_before z) (z_trans z) t"

text \<open>\<open>wall.replace(fold=fold).astimezone(UTC)\<close>.\<close>

definition to_utc :: "zone \<Rightarrow> int \<Rightarrow> bool \<Rightarrow> instant" where
  "to_utc z w f = w - wall_offset_from f (z_before z) (z_trans z) w"

type_synonym time_of_day = "int \<times> bool"

definition date_in :: "zone \<Rightarrow> instant \<Rightarrow> int" where
  "date_in z t = wall z t div days 1"

definition time_in :: "zone \<Rightarrow> instant \<Rightarrow> time_of_day" where
  "time_in z t = (wall z t mod days 1, fold_at z t)"

definition hours_minutes :: "int \<Rightarrow> int \<Rightarrow> time_of_day" where
  "hours_minutes h m = (minutes (60 * h + m), False)"

definition local_to_utc :: "int \<Rightarrow> time_of_day \<Rightarrow> zone \<Rightarrow> instant" where
  "local_to_utc date time z = to_utc z (date * days 1 + fst time) (snd time)"

section \<open>Limits on dates\<close>

definition within_scheduling_horizon :: "limits_config \<Rightarrow> zone \<Rightarrow> instant \<Rightarrow> supporter_level \<Rightarrow> instant \<Rightarrow> bool" where
  "within_scheduling_horizon cfg z now level moment =
     (case scheduling_horizon_days cfg level of
        None \<Rightarrow> True
      | Some n \<Rightarrow> date_in z moment \<le> date_in z now + n)"

definition within_max_duration :: "instant \<Rightarrow> instant \<Rightarrow> zone \<Rightarrow> bool" where
  "within_max_duration start stop z \<longleftrightarrow> wall z stop - wall z start \<le> max_duration (policy_get None)"

definition latest_end :: "instant \<Rightarrow> zone \<Rightarrow> instant" where
  "latest_end start z =
     (let cap = wall z start + max_duration (policy_get None) in min (to_utc z cap False) (to_utc z cap True))"

section \<open>Clocks that are read back\<close>

text \<open>Offsets are shorter than a day (\<open>datetime\<close> refuses others), and transitions are at least two days apart.\<close>

fun spaced :: "duration \<Rightarrow> (instant \<times> duration) list \<Rightarrow> bool" where
  "spaced p [] = (\<bar>p\<bar> < days 1)"
| "spaced p ((s, q) # ts) =
     (\<bar>p\<bar> < days 1 \<and> (case ts of [] \<Rightarrow> True | (s', _) # _ \<Rightarrow> s + days 2 \<le> s') \<and> spaced q ts)"

definition zone_ok :: "zone \<Rightarrow> bool" where
  "zone_ok z = spaced (z_before z) (z_trans z)"

lemma spaced_offset: "spaced p ts \<Longrightarrow> \<bar>p\<bar> < days 1"
  by (cases ts) auto

lemma day_pos: "0 < days 1" "days 2 = 2 * days 1"
  by (simp_all add: days_def)

lemma wall_offset_bound: "spaced p ts \<Longrightarrow> \<bar>wall_offset_from f p ts w\<bar> < days 1"
  by (induction f p ts w rule: wall_offset_from.induct) auto

text \<open>Well before the next transition both readings use the offset in force.\<close>

lemma wall_offset_early:
  assumes "spaced q ts" "w < s + days 1" "case ts of [] \<Rightarrow> True | (s', _) # _ \<Rightarrow> s + days 2 \<le> s'"
  shows "wall_offset_from f q ts w = q"
proof (cases ts)
  case (Cons x us)
  obtain s' r where x: "x = (s', r)" by (cases x)
  have "\<bar>q\<bar> < days 1" "\<bar>r\<bar> < days 1" using assms(1) spaced_offset [of r us] by (auto simp: Cons x)
  moreover have "s + days 2 \<le> s'" using assms(3) by (simp add: Cons x)
  ultimately have "w < s' + (if f then min q r else max q r)" using assms(2) day_pos by auto
  then show ?thesis by (simp add: Cons x)
qed simp

lemma earlier_reading:
  fixes w :: int
  assumes "spaced p ts"
  defines "u \<equiv> min (w - wall_offset_from False p ts w) (w - wall_offset_from True p ts w)"
  shows "u + offset_from p ts u \<le> w"
  using assms(1) unfolding u_def
proof (induction ts arbitrary: p)
  case (Cons x ts)
  obtain s q where x: "x = (s, q)" by (cases x)
  have p: "\<bar>p\<bar> < days 1" and q: "\<bar>q\<bar> < days 1" and sp: "spaced q ts"
    and gap: "case ts of [] \<Rightarrow> True | (s', _) # _ \<Rightarrow> s + days 2 \<le> s'"
    using Cons.prems spaced_offset [of q ts] by (auto simp: x)
  note early = wall_offset_early [OF sp _ gap]
  consider (before) "w < s + min p q" | (between) "s + min p q \<le> w" "w < s + max p q" | (after) "s + max p q \<le> w" by linarith
  then show ?case
  proof cases
    case before
    then show ?thesis by (auto simp: x)
  next
    case between
    then have "w < s + days 1" using p q by auto
    with between early [of w] show ?thesis by (auto simp: x min_def max_def)
  next
    case after
    let ?v = "min (w - wall_offset_from False q ts w) (w - wall_offset_from True q ts w)"
    have "s \<le> ?v"
    proof (cases "w < s + days 1")
      case True
      with early [of w] after show ?thesis by auto
    next
      case False
      with wall_offset_bound [OF sp] show ?thesis by (smt (verit, best))
    qed
    moreover have "?v + offset_from q ts ?v \<le> w" by (rule Cons.IH [OF sp])
    ultimately show ?thesis using after by (auto simp: x)
  qed
qed simp

lemma latest_end_wall: "zone_ok z \<Longrightarrow> wall z (latest_end start z) \<le> wall z start + max_duration (policy_get None)"
  unfolding latest_end_def Let_def to_utc_def wall_def [of z "min _ _"] utcoffset_def zone_ok_def by (rule earlier_reading)

lemma latest_end_allowed: "zone_ok z \<Longrightarrow> within_max_duration start (latest_end start z) z"
  using latest_end_wall [of z start] by (simp add: within_max_duration_def)

text \<open>A wall clock that was read off an instant leads back to it, with the fold it was read with.\<close>

lemma offset_bound: "spaced p ts \<Longrightarrow> \<bar>offset_from p ts t\<bar> < days 1"
  by (induction p ts t rule: offset_from.induct) auto

lemma read_back: "spaced p ts \<Longrightarrow> wall_offset_from (fold_from p ts t) p ts (t + offset_from p ts t) = offset_from p ts t"
proof (induction ts arbitrary: p)
  case (Cons x ts)
  obtain s q where x: "x = (s, q)" by (cases x)
  have p: "\<bar>p\<bar> < days 1" and q: "\<bar>q\<bar> < days 1" and sp: "spaced q ts"
    and gap: "case ts of [] \<Rightarrow> True | (s', _) # _ \<Rightarrow> s + days 2 \<le> s'"
    using Cons.prems spaced_offset [of q ts] by (auto simp: x)
  show ?case
  proof (cases "t < s")
    case True
    then show ?thesis by (simp add: x max_def)
  next
    case after: False
    show ?thesis
    proof (cases "case ts of [] \<Rightarrow> True | (s', _) # _ \<Rightarrow> t < s'")
      case True
      then have off: "offset_from q ts t = q" by (auto split: list.splits)
      have "wall_offset_from (p - q > t - s) q ts (t + q) = q"
      proof (cases "p - q > t - s")
        case early: True
        with p have "t + q < s + days 1" by auto
        from wall_offset_early [OF sp this gap] show ?thesis .
      next
        case False
        then have "\<not> p - q > t - s" by simp
        then show ?thesis using True by (cases ts) auto
      qed
      moreover have "s + (if p - q > t - s then min p q else max p q) \<le> t + q" using after by auto
      ultimately show ?thesis using after True off by (simp add: x)
    next
      case False
      then obtain s' r us where ts: "ts = (s', r) # us" "s' \<le> t" by (cases ts) auto
      have "\<bar>offset_from q ts t\<bar> < days 1" by (rule offset_bound [OF sp])
      with gap ts day_pos p q have "s + max p q \<le> t + offset_from q ts t" "s + min p q \<le> t + offset_from q ts t"
        by auto
      with after False Cons.IH [OF sp] show ?thesis by (simp add: x)
    qed
  qed
qed simp

lemma to_utc_wall: "zone_ok z \<Longrightarrow> to_utc z (wall z t) (fold_at z t) = t"
  using read_back [of "z_before z" "z_trans z" t] by (simp add: zone_ok_def to_utc_def wall_def utcoffset_def fold_at_def)

lemma local_round_trip: "zone_ok z \<Longrightarrow> local_to_utc (date_in z t) (time_in z t) z = t"
  using to_utc_wall [of z t] by (simp add: local_to_utc_def date_in_def time_in_def)

end
