(* ===== verification/Schedule.thy ===== *)
theory Schedule
  imports Zones Deactivation
begin

text \<open>
  What a meeting's start and end may be: the rules of \<^verbatim>\<open>handlers/meeting/edit/when/rules.py\<close> with the limits they
  consult, and the creation of a meeting (\<^verbatim>\<open>handlers/meeting/create_meeting.py\<close>), whose title may carry a date.

  Python's dates end in the year 9999; the model's do not. The clock is read more than once in a handler, so each
  reading is a value of its own.
\<close>

section \<open>The world of a handler\<close>

datatype clock_reading = CAP_CHECK | PAST_CHECK | HORIZON_CHECK | SCREEN

record when_world =
  ww_limits :: limits_config
  ww_zones :: "string \<Rightarrow> zone option"
  ww_clock :: "clock_reading \<Rightarrow> instant"

definition zone_of :: "when_world \<Rightarrow> user \<Rightarrow> zone" where
  "zone_of w u = settings_tz (ww_zones w) (u_settings u)"

section \<open>The rules\<close>

datatype when_notice =
    START_IN_PAST | START_MAX_DURATION | END_CLEARED_BY_START
  | END_IN_PAST | END_BEFORE_START | END_MAX_DURATION | END_CAPPED_AT_MAX_DURATION | END_STALE_ALERT
  | TIME_NEEDS_DATE | TIME_INVALID_VALUE | DATETIME_INPUT_INVALID | EDITING_REVAMP_BANNER

definition is_in_past :: "instant \<Rightarrow> instant \<Rightarrow> bool" where
  "is_in_past now candidate \<longleftrightarrow> candidate \<le> now"

definition safe_anchor_date :: "zone \<Rightarrow> instant option \<Rightarrow> instant \<Rightarrow> int" where
  "safe_anchor_date z reference now =
     (let today = date_in z now in
      case reference of None \<Rightarrow> today | Some t \<Rightarrow> if date_in z t \<ge> today then date_in z t else today)"

definition validate_start_datetime :: "instant \<Rightarrow> zone \<Rightarrow> instant \<Rightarrow> meetup_row \<Rightarrow> when_notice option" where
  "validate_start_datetime now z start m =
     (if is_in_past now start then Some START_IN_PAST
      else (case end_datetime m of None \<Rightarrow> None
            | Some stop \<Rightarrow> if \<not> within_max_duration start stop z then Some START_MAX_DURATION else None))"

text \<open>The rules on an end assert that there is a start; \<open>Inl ()\<close> is the assertion failing.\<close>

definition validate_end_datetime :: "instant \<Rightarrow> zone \<Rightarrow> instant \<Rightarrow> meetup_row \<Rightarrow> unit + when_notice option" where
  "validate_end_datetime now z stop m =
     (case datetime m of None \<Rightarrow> Inl ()
      | Some start \<Rightarrow> Inr
          (if is_in_past now stop then Some END_IN_PAST
           else if stop \<le> start then Some END_BEFORE_START
           else if \<not> within_max_duration start stop z then Some END_MAX_DURATION else None))"

definition end_on_picked_date :: "instant \<Rightarrow> zone \<Rightarrow> instant \<Rightarrow> int \<Rightarrow> meetup_row \<Rightarrow> unit + instant" where
  "end_on_picked_date now z requested tapped_date m =
     (case datetime m of None \<Rightarrow> Inl ()
      | Some start \<Rightarrow> Inr
          (if within_max_duration start requested z then requested
           else let latest = latest_end start z in
                if date_in z latest = tapped_date \<and> \<not> is_in_past now latest then latest else requested))"

datatype horizon_message =
  SCHEDULING_HORIZON | SCHEDULING_HORIZON_PATRON | SCHEDULING_HORIZON_TITLE | SCHEDULING_HORIZON_TITLE_PATRON

definition scheduling_horizon_rejection ::
    "limits_config \<Rightarrow> zone \<Rightarrow> instant \<Rightarrow> supporter_level \<Rightarrow> instant \<Rightarrow> bool \<Rightarrow> (horizon_message \<times> int) option" where
  "scheduling_horizon_rejection cfg z now level moment in_title =
     (if within_scheduling_horizon cfg z now level moment then None
      else map_option (\<lambda>n.
        (let below_patron = \<not> meets level HOST_2 in
         if in_title then (if below_patron then SCHEDULING_HORIZON_TITLE else SCHEDULING_HORIZON_TITLE_PATRON)
         else if below_patron then SCHEDULING_HORIZON else SCHEDULING_HORIZON_PATRON, n))
        (scheduling_horizon_days cfg level))"

definition start_beyond_horizon :: "when_world \<Rightarrow> user \<Rightarrow> instant \<Rightarrow> (horizon_message \<times> int) option" where
  "start_beyond_horizon w owner start =
     scheduling_horizon_rejection (ww_limits w) (zone_of w owner) (ww_clock w HORIZON_CHECK)
       (u_supporter_level owner) start False"

definition end_beyond_horizon :: "when_world \<Rightarrow> user \<Rightarrow> instant \<Rightarrow> (horizon_message \<times> int) option" where
  "end_beyond_horizon w owner stop =
     scheduling_horizon_rejection (ww_limits w) (zone_of w owner) (ww_clock w HORIZON_CHECK)
       (u_supporter_level owner) stop False"

definition apply_start_datetime :: "instant \<Rightarrow> meetup_row \<Rightarrow> meetup_row \<times> bool" where
  "apply_start_datetime start m = enforce_datetime_ordering (m\<lparr>datetime := Some start\<rparr>)"

definition apply_end_datetime :: "instant \<Rightarrow> meetup_row \<Rightarrow> unit + meetup_row" where
  "apply_end_datetime stop m = (case datetime m of None \<Rightarrow> Inl () | Some start \<Rightarrow> Inr (m\<lparr>end_datetime := Some stop\<rparr>))"

text \<open>Writing the loaded row back.\<close>

definition set_meetup :: "meetup_row \<Rightarrow> sdb \<Rightarrow> sdb" where
  "set_meetup m db = db\<lparr>meetups := update_where (\<lambda>r. m_id r = m_id m) (\<lambda>_. m) (meetups db)\<rparr>"

section \<open>Creating a meeting\<close>

definition TITLE_MAX_CHARS :: nat where "TITLE_MAX_CHARS = 200"

datatype creation =
  ACTIVE_MEETINGS_CAP int | TITLE_TOO_LONG nat | TITLE_BEYOND_HORIZON "horizon_message \<times> int" | Created int

definition new_meetup :: "int \<Rightarrow> instant \<Rightarrow> instant option \<Rightarrow> user \<Rightarrow> meetup_row" where
  "new_meetup fresh now start user =
     (let s = u_settings user in
      \<lparr>m_id = fresh, owner_id = u_id user, waiting_list = default_waiting_list s, public = default_public s,
       allow_invitation = default_allow_invitation s, incognito = default_incognito s,
       lock_on_start = default_lock_on_start s, show_timezone = default_show_timezone s,
       clock_24h = default_clock_24h s, date_format = default_date_format s,
       expiration_notification_sent = False, started_notification_sent = False,
       datetime = start, end_datetime = None, activated_time = now, expiration_time = None, warned_time = None,
       max_members = None, active = True\<rparr>)"

text \<open>The title as the number of its characters, and the moment of its first date entity, if it carries one.\<close>

definition create_meeting ::
    "when_world \<Rightarrow> int \<Rightarrow> tg_update \<Rightarrow> nat \<Rightarrow> instant option \<Rightarrow> sdb \<Rightarrow> guard_error + sdb \<times> creation" where
  "create_meeting w fresh up title_length unix_time db =
     (case current_user up db of Inl e \<Rightarrow> Inl e
      | Inr user \<Rightarrow>
          let level = u_supporter_level user in
          (case (if at_active_meetings_cap (ww_limits w) level
                      (map active (filter (\<lambda>r. owner_id r = u_id user) (meetups db)))
                 then active_meetings_cap (ww_limits w) level else None) of
             Some cap \<Rightarrow> Inr (db, ACTIVE_MEETINGS_CAP cap)
           | None \<Rightarrow>
               if title_length > TITLE_MAX_CHARS then Inr (db, TITLE_TOO_LONG title_length)
               else (case (case unix_time of None \<Rightarrow> None
                           | Some t \<Rightarrow> scheduling_horizon_rejection (ww_limits w) (zone_of w user)
                                         (ww_clock w HORIZON_CHECK) level t True) of
                       Some r \<Rightarrow> Inr (db, TITLE_BEYOND_HORIZON r)
                     | None \<Rightarrow> Inr (db\<lparr>meetups := meetups db @ [new_meetup fresh (ww_clock w SCREEN) unix_time user]\<rparr>,
                                  Created fresh))))"

section \<open>What the rules allow\<close>

text \<open>The two assertions hold: a rejection always has a cap, or a number of days, to name.\<close>

lemma rejection_iff:
  "scheduling_horizon_rejection cfg z now level moment t = None \<longleftrightarrow> within_scheduling_horizon cfg z now level moment"
  by (auto simp: scheduling_horizon_rejection_def within_scheduling_horizon_def split: option.splits)

lemma start_beyond_horizon_iff:
  "start_beyond_horizon w u t = None \<longleftrightarrow>
   within_scheduling_horizon (ww_limits w) (zone_of w u) (ww_clock w HORIZON_CHECK) (u_supporter_level u) t"
  by (simp add: start_beyond_horizon_def rejection_iff)

lemma end_beyond_horizon_iff:
  "end_beyond_horizon w u t = None \<longleftrightarrow>
   within_scheduling_horizon (ww_limits w) (zone_of w u) (ww_clock w HORIZON_CHECK) (u_supporter_level u) t"
  by (simp add: end_beyond_horizon_def rejection_iff)

lemma cap_has_number:
  "at_active_meetings_cap cfg level actives \<Longrightarrow> \<exists>cap. active_meetings_cap cfg level = Some cap"
  by (auto simp: at_active_meetings_cap_def split: option.splits)

lemma validate_start_None:
  "validate_start_datetime now z start m = None \<longleftrightarrow>
   now < start \<and> (\<forall>stop. end_datetime m = Some stop \<longrightarrow> within_max_duration start stop z)"
  by (auto simp: validate_start_datetime_def is_in_past_def split: option.splits)

lemma validate_end_None:
  "validate_end_datetime now z stop m = Inr None \<longleftrightarrow>
   (\<exists>start. datetime m = Some start \<and> now < stop \<and> start < stop \<and> within_max_duration start stop z)"
  by (auto simp: validate_end_datetime_def is_in_past_def split: option.splits)

section \<open>Valid schedules\<close>

text \<open>An end needs a start, comes after it, and at most the longest duration later on the clocks of the owner.\<close>

definition schedule_ok :: "zone \<Rightarrow> 'a meetup_row_scheme \<Rightarrow> bool" where
  "schedule_ok z m \<longleftrightarrow>
     (case end_datetime m of None \<Rightarrow> True
      | Some stop \<Rightarrow> (case datetime m of None \<Rightarrow> False
                     | Some start \<Rightarrow> start < stop \<and> within_max_duration start stop z))"

lemma schedule_ok_no_end: "end_datetime m = None \<Longrightarrow> schedule_ok z m"
  by (simp add: schedule_ok_def)

lemma apply_start_ok:
  assumes "validate_start_datetime now z start m = None" "apply_start_datetime start m = (m', cleared)"
  shows "schedule_ok z m'" "datetime m' = Some start" "now < start"
proof -
  show "now < start" using assms(1) by (simp add: validate_start_None)
  show "datetime m' = Some start" and "schedule_ok z m'"
    using assms by (auto simp: apply_start_datetime_def enforce_datetime_ordering_def schedule_ok_def validate_start_None
      split: option.splits if_splits)
qed

lemma apply_end_ok:
  assumes "validate_end_datetime now z stop m = Inr None"
  shows "\<exists>m'. apply_end_datetime stop m = Inr m' \<and> schedule_ok z m' \<and> end_datetime m' = Some stop \<and>
    datetime m' = datetime m \<and> now < stop"
  using assms by (auto simp: validate_end_None apply_end_datetime_def schedule_ok_def)

lemma apply_fields:
  "apply_start_datetime start m = (m', cleared) \<Longrightarrow> m_id m' = m_id m \<and> owner_id m' = owner_id m \<and> active m' = active m"
  "apply_end_datetime stop m = Inr m' \<Longrightarrow> m_id m' = m_id m \<and> owner_id m' = owner_id m \<and> active m' = active m"
  by (auto simp: apply_start_datetime_def enforce_datetime_ordering_def apply_end_datetime_def
      split: option.splits if_splits)

end
