(* ===== verification/Conversations.thy ===== *)
theory Conversations
  imports Transition
begin

text \<open>
  What the bot remembers about a person between two updates: the context store of
  \<^verbatim>\<open>libs/telegram/mitup_bot/custom_context.py\<close> and the conversations that are live
  (\<^verbatim>\<open>SoleConversationHandler\<close> of \<^verbatim>\<open>apps/bot/mitup_bot/handlers/registry.py\<close>).

  The conversations themselves are kept by python-telegram-bot. What it does with the value a handler returns is the
  argument \<open>upd\<close> of \<open>run_conversation\<close>: the new state from the one it holds and the returned value. The text some
  flows store is not read by the handlers modelled here and is left out; so is the language of the exit notice.
\<close>

section \<open>The context store\<close>

datatype context_id =
    EDIT_MEETING_TITLE | EDIT_MEETING_DESCRIPTION | EDIT_MEETING_LOCATION_NAME | EDIT_MEETING_LOCATION_COORDINATES
  | EDIT_MEETING_MAX_PARTICIPANTS | EDIT_MEETING_KICK_OUT_PARTICIPANTS | EDIT_MEETING_START | EDIT_MEETING_END
  | EDIT_MEETING_IMAGES | REPLACE_MEETING_IMAGE | CREATE_MEETING | EDIT_SETTINGS_TIMEZONE | INVITE_USERS

record 'x context_data =
  cd_meeting_id :: "int option"
  cd_position :: "int option"
  cd_on_exit :: "'x option"

text \<open>The conversations of the default handler group; the onboarding and the pairing ones bind outside it.\<close>

datatype conversation =
    CREATE_MEETING_CONVERSATION | INVITE_USERS_CONVERSATION | TITLE_CONVERSATION | DESCRIPTION_CONVERSATION
  | IMAGES_CONVERSATION | PARTICIPANTS_MAXIMUM_CONVERSATION | LOCATION_NAME_CONVERSATION
  | LOCATION_COORDINATES_CONVERSATION | START_EDITOR_CONVERSATION | END_EDITOR_CONVERSATION
  | NOTIFICATION_CONVERSATION | TIMEOUT_CONVERSATION | TIMEZONE_CONVERSATION | GRANT_CONVERSATION
  | BROADCAST_CONVERSATION

record ('x, 's) person =
  registry :: "context_id \<Rightarrow> 'x context_data option"
  active_context :: "context_id option"
  live :: "conversation \<Rightarrow> 's option"

definition fresh_person :: "('x, 's) person" where
  "fresh_person = \<lparr>registry = (\<lambda>c. None), active_context = None, live = (\<lambda>c. None)\<rparr>"

definition remove_context :: "context_id \<Rightarrow> ('x, 's) person \<Rightarrow> ('x, 's) person" where
  "remove_context c p =
     p\<lparr>registry := (registry p)(c := None),
       active_context := (if active_context p = Some c then None else active_context p)\<rparr>"

definition set_default :: "context_id \<Rightarrow> ('x, 's) person \<Rightarrow> 'x context_data" where
  "set_default c p =
     (case registry p c of None \<Rightarrow> \<lparr>cd_meeting_id = None, cd_position = None, cd_on_exit = None\<rparr> | Some e \<Rightarrow> e)"

definition store_meeting_id :: "context_id \<Rightarrow> int \<Rightarrow> ('x, 's) person \<Rightarrow> ('x, 's) person" where
  "store_meeting_id c i p = p\<lparr>registry := (registry p)(c := Some ((set_default c p)\<lparr>cd_meeting_id := Some i\<rparr>))\<rparr>"

definition store_position :: "context_id \<Rightarrow> int \<Rightarrow> ('x, 's) person \<Rightarrow> ('x, 's) person" where
  "store_position c n p = p\<lparr>registry := (registry p)(c := Some ((set_default c p)\<lparr>cd_position := Some n\<rparr>))\<rparr>"

definition pending_position :: "context_id \<Rightarrow> ('x, 's) person \<Rightarrow> int option" where
  "pending_position c p = (case registry p c of None \<Rightarrow> None | Some e \<Rightarrow> cd_position e)"

definition has_meeting_id :: "context_id \<Rightarrow> ('x, 's) person \<Rightarrow> bool" where
  "has_meeting_id c p = (case registry p c of None \<Rightarrow> False | Some e \<Rightarrow> cd_meeting_id e \<noteq> None)"

definition store_on_exit :: "context_id \<Rightarrow> 'x \<Rightarrow> ('x, 's) person \<Rightarrow> ('x, 's) person" where
  "store_on_exit c x p =
     p\<lparr>registry := (registry p)(c := Some ((set_default c p)\<lparr>cd_on_exit := Some x\<rparr>)), active_context := Some c\<rparr>"

definition get_active_on_exit :: "('x, 's) person \<Rightarrow> 'x option" where
  "get_active_on_exit p =
     (case active_context p of None \<Rightarrow> None
      | Some c \<Rightarrow> (case registry p c of None \<Rightarrow> None | Some e \<Rightarrow> cd_on_exit e))"

definition clean_user_data :: "context_id list \<Rightarrow> ('x, 's) person \<Rightarrow> ('x, 's) person" where
  "clean_user_data contexts p = foldl (\<lambda>p c. remove_context c p) p contexts"

definition end_conversations :: "conversation option \<Rightarrow> ('x, 's) person \<Rightarrow> ('x, 's) person" where
  "end_conversations keep p = p\<lparr>live := (\<lambda>c. if keep = Some c then live p c else None)\<rparr>"

definition clean_all_user_data :: "('x, 's) person \<Rightarrow> ('x, 's) person" where
  "clean_all_user_data p = end_conversations None (p\<lparr>registry := (\<lambda>c. None), active_context := None\<rparr>)"

text \<open>\<open>with context.meeting_id(c, ensure_clean): body\<close>; the context is dropped whether or not the body raises.\<close>

definition with_meeting_id ::
    "context_id \<Rightarrow> bool \<Rightarrow> 'e \<Rightarrow> (int \<Rightarrow> ('x, 's) person \<Rightarrow> ('x, 's) person \<times> ('e + 'r)) \<Rightarrow>
     ('x, 's) person \<Rightarrow> ('x, 's) person \<times> ('e + 'r)" where
  "with_meeting_id c ensure_clean not_set body p =
     (case registry p c of None \<Rightarrow> (p, Inl not_set)
      | Some e \<Rightarrow>
          (case cd_meeting_id e of None \<Rightarrow> (p, Inl not_set)
           | Some i \<Rightarrow> (case body i p of (p', r) \<Rightarrow> (if ensure_clean then remove_context c p' else p', r))))"

text \<open>What every edit flow drops (\<^verbatim>\<open>handlers/meeting/edit/utils.py\<close>).\<close>

definition cleanup_states :: "('x, 's) person \<Rightarrow> ('x, 's) person" where
  "cleanup_states p = end_conversations None (clean_user_data
     [EDIT_MEETING_TITLE, EDIT_MEETING_DESCRIPTION, EDIT_MEETING_LOCATION_NAME, EDIT_MEETING_LOCATION_COORDINATES,
      EDIT_MEETING_START, EDIT_MEETING_END, EDIT_MEETING_IMAGES, REPLACE_MEETING_IMAGE] p)"

section \<open>Conversations\<close>

datatype 's conv_return = END | NO_CHANGE | NEXT 's

text \<open>An error the wrapper answered closes the flow (\<open>callback_with_metrics\<close>).\<close>

definition wrapped_return :: "'e + 'r \<times> 's conv_return \<Rightarrow> 's conv_return" where
  "wrapped_return r = (case r of Inl e \<Rightarrow> END | Inr (_, next) \<Rightarrow> next)"

definition sole_handle_update ::
    "conversation \<Rightarrow> (('x, 's) person \<Rightarrow> ('x, 's) person \<times> 'r) \<Rightarrow> ('x, 's) person \<Rightarrow> ('x, 's) person \<times> 'r" where
  "sole_handle_update c super p =
     (case super p of (p', r) \<Rightarrow> (if live p' c \<noteq> None then end_conversations (Some c) p' else p', r))"

definition run_conversation ::
    "('s option \<Rightarrow> 's conv_return \<Rightarrow> 's option) \<Rightarrow> conversation \<Rightarrow>
     (('x, 's) person \<Rightarrow> ('x, 's) person \<times> ('e + 'r \<times> 's conv_return)) \<Rightarrow>
     ('x, 's) person \<Rightarrow> ('x, 's) person \<times> ('e + 'r \<times> 's conv_return)" where
  "run_conversation upd c callback =
     sole_handle_update c (\<lambda>p. case callback p of
       (p', r) \<Rightarrow> (p'\<lparr>live := (live p')(c := upd (live p' c) (wrapped_return r))\<rparr>, r))"

text \<open>What python-telegram-bot documents for the value a callback returns.\<close>

definition applies_returns :: "('s option \<Rightarrow> 's conv_return \<Rightarrow> 's option) \<Rightarrow> bool" where
  "applies_returns upd \<longleftrightarrow> (\<forall>cur. upd cur END = None \<and> upd cur NO_CHANGE = cur \<and> (\<forall>s. upd cur (NEXT s) = Some s))"

lemma applies_returnsD:
  "applies_returns upd \<Longrightarrow> upd cur END = None" "applies_returns upd \<Longrightarrow> upd cur NO_CHANGE = cur"
  "applies_returns upd \<Longrightarrow> upd cur (NEXT s) = Some s"
  by (simp_all add: applies_returns_def)

section \<open>Lemmas on the store\<close>

lemma remove_context_fields [simp]:
  "live (remove_context c p) = live p"
  "registry (remove_context c p) d = (if d = c then None else registry p d)"
  by (simp_all add: remove_context_def)

lemma store_memory_fields [simp]:
  "live (store_meeting_id c i p) = live p" "live (store_on_exit c x p) = live p"
  "active_context (store_on_exit c x p) = Some c"
  by (simp_all add: store_meeting_id_def store_on_exit_def)

lemma end_conversations_fields [simp]:
  "registry (end_conversations k p) = registry p" "active_context (end_conversations k p) = active_context p"
  "live (end_conversations k p) c = (if k = Some c then live p c else None)"
  by (simp_all add: end_conversations_def)

lemma clean_user_data_live [simp]: "live (clean_user_data cs p) = live p"
  unfolding clean_user_data_def by (induction cs arbitrary: p) auto

lemma cleanup_states_live [simp]: "live (cleanup_states p) c = None"
  by (simp add: cleanup_states_def)

lemma clean_all_fields [simp]:
  "live (clean_all_user_data p) c = None" "registry (clean_all_user_data p) x = None"
  "active_context (clean_all_user_data p) = None"
  by (simp_all add: clean_all_user_data_def)

lemma has_stored [simp]: "has_meeting_id c (store_meeting_id c i p)"
  by (simp add: has_meeting_id_def store_meeting_id_def)

lemma has_on_exit [simp]: "has_meeting_id c (store_on_exit d x p) = has_meeting_id c p"
  by (simp add: has_meeting_id_def store_on_exit_def set_default_def split: option.split)

lemma has_store_meeting [simp]: "has_meeting_id c (store_meeting_id d i p) \<longleftrightarrow> c = d \<or> has_meeting_id c p"
  by (simp add: has_meeting_id_def store_meeting_id_def)

lemma has_end [simp]: "has_meeting_id c (end_conversations k p) = has_meeting_id c p"
  by (simp add: has_meeting_id_def)

lemma has_live [simp]: "has_meeting_id c (p\<lparr>live := l\<rparr>) = has_meeting_id c p"
  by (simp add: has_meeting_id_def)

lemma has_meeting_idE:
  assumes "has_meeting_id c p"
  obtains e i where "registry p c = Some e" "cd_meeting_id e = Some i"
  using assms by (auto simp: has_meeting_id_def split: option.splits)

section \<open>One conversation at a time\<close>

definition sole :: "('x, 's) person \<Rightarrow> bool" where
  "sole p \<longleftrightarrow> (\<forall>c d. live p c \<noteq> None \<longrightarrow> live p d \<noteq> None \<longrightarrow> c = d)"

definition ends_only :: "(('x, 's) person \<Rightarrow> ('x, 's) person) \<Rightarrow> bool" where
  "ends_only f \<longleftrightarrow> (\<forall>p c. live (f p) c = None \<or> live (f p) c = live p c)"

lemma sole_handle_update_live:
  assumes "sole_handle_update c super p = (q, r)" "super p = (p', r')"
  shows "live q d = (if live p' c \<noteq> None \<and> d \<noteq> c then None else live p' d)"
  using assms by (auto simp: sole_handle_update_def split: if_splits)

lemma sole_run_conversation:
  assumes "sole p" "ends_only (\<lambda>p. fst (callback p))" "run_conversation upd c callback p = (q, r)"
  shows "sole q"
proof -
  obtain p' r' where cb: "callback p = (p', r')" by fastforce
  let ?s = "upd (live p' c) (wrapped_return r')"
  have kept: "\<And>d. live p' d = None \<or> live p' d = live p d"
    using assms(2) cb unfolding ends_only_def by (metis fst_conv)
  have q: "live q d = (if ?s \<noteq> None \<and> d \<noteq> c then None else if d = c then ?s else live p' d)" for d
    using assms(3) cb by (auto simp: run_conversation_def sole_handle_update_def split: if_splits)
  show ?thesis unfolding sole_def
  proof (intro allI impI)
    fix a b assume "live q a \<noteq> None" "live q b \<noteq> None"
    then show "a = b" unfolding q using kept assms(1) unfolding sole_def by (metis (full_types))
  qed
qed

lemma sole_ends_only: "sole p \<Longrightarrow> ends_only f \<Longrightarrow> sole (f p)"
  unfolding sole_def ends_only_def by metis

end
