(* ===== verification/When.thy ===== *)
theory When
  imports Schedule Conversations
begin

text \<open>
  The handlers of the When feature, \<^verbatim>\<open>handlers/meeting/edit/when/start.py\<close>, \<^verbatim>\<open>end.py\<close> and \<^verbatim>\<open>menu.py\<close>: two datetime
  cards, each with a conversation that waits for typed input. A handler takes the person's memory and the tables and
  returns the memory as it left it (also when it raises: only the transaction is rolled back), and either the error
  or the tables, the screens it showed and the conversation state it returned.

  The buttons of the two cards, which only open a handler below, and the languages of the texts are left out. The ids
  and dates in the callback data were validated by \<^verbatim>\<open>Callback\<close>. The owner is the acting user: the guard lets nobody
  else in.
\<close>

section \<open>Screens and results\<close>

datatype when_state = START_DATETIME_CARD | END_DATETIME_CARD

datatype when_field = Start | End

text \<open>A card answers the month of a date, the notice above it, and whether it answers a typed message with a new one.
  The way back from a beyond-horizon screen is the calendar at a date, or the card.\<close>

datatype when_screen =
    Alert when_notice
  | Card when_field int "when_notice option" bool
  | BeyondHorizon when_field "horizon_message \<times> int" "int option"
  | TimePrompt when_field
  | OwnerView "when_notice option" bool
  | ConfirmRemoveEnd | ConfirmClearTimes
  | UpdateMeetingMessages bool

datatype when_error = WhenRejected guard_error | AssertionFailed | ContextPropertyNotSet

type_synonym when_exit = "when_field \<times> int"
type_synonym when_person = "(when_exit, when_state) person"
type_synonym when_result = "when_person \<times> (when_error + (sdb \<times> when_screen list) \<times> when_state conv_return)"

definition with_owned ::
    "tg_update \<Rightarrow> int \<Rightarrow> sdb \<Rightarrow> (user \<Rightarrow> meetup_row \<Rightarrow> when_person \<Rightarrow> when_result) \<Rightarrow> when_person \<Rightarrow> when_result" where
  "with_owned up mid db body p =
     (case current_user up db of Inl e \<Rightarrow> (p, Inl (WhenRejected e))
      | Inr user \<Rightarrow>
          (case meeting db (Some user) mid OWNER of Inl e \<Rightarrow> (p, Inl (WhenRejected e)) | Inr m \<Rightarrow> body user m p))"

text \<open>The read-only handlers around the cards.\<close>

definition answers :: "when_screen list \<Rightarrow> when_state conv_return \<Rightarrow> sdb \<Rightarrow> when_person \<Rightarrow> when_result" where
  "answers screens next db p = (p, Inr ((db, screens), next))"

section \<open>The start card\<close>

definition start_card_month :: "when_world \<Rightarrow> user \<Rightarrow> meetup_row \<Rightarrow> int" where
  "start_card_month w owner m = safe_anchor_date (zone_of w owner) (datetime m) (ww_clock w SCREEN)"

definition store_start_flow :: "meetup_row \<Rightarrow> when_person \<Rightarrow> when_person" where
  "store_start_flow m p =
     store_on_exit EDIT_MEETING_START (Start, m_id m) (store_meeting_id EDIT_MEETING_START (m_id m) p)"

definition show_start_card ::
    "when_world \<Rightarrow> user \<Rightarrow> meetup_row \<Rightarrow> int option \<Rightarrow> when_notice option \<Rightarrow> bool \<Rightarrow> when_screen list \<Rightarrow>
     when_screen list \<Rightarrow> sdb \<Rightarrow> when_person \<Rightarrow> when_result" where
  "show_start_card w owner m month error as_reply before after db p =
     (store_start_flow m p,
      Inr ((db, before @ [Card Start (case month of None \<Rightarrow> start_card_month w owner m | Some d \<Rightarrow> d) error as_reply] @ after),
           NEXT START_DATETIME_CARD))"

definition open_start_editor :: "when_world \<Rightarrow> tg_update \<Rightarrow> int \<Rightarrow> sdb \<Rightarrow> when_person \<Rightarrow> when_result" where
  "open_start_editor w up mid db =
     with_owned up mid db (\<lambda>user m. show_start_card w user m None None False [] [] db)"

definition cancel_start_edit :: "tg_update \<Rightarrow> int \<Rightarrow> sdb \<Rightarrow> when_person \<Rightarrow> when_result" where
  "cancel_start_edit up mid db p =
     (case current_user up db of Inl e \<Rightarrow> (p, Inl (WhenRejected e))
      | Inr user \<Rightarrow> with_owned up mid db (\<lambda>user m. answers [OwnerView None False] END db) (cleanup_states p))"

definition navigate_start_calendar :: "when_world \<Rightarrow> tg_update \<Rightarrow> int \<Rightarrow> int \<Rightarrow> sdb \<Rightarrow> when_person \<Rightarrow> when_result" where
  "navigate_start_calendar w up mid date db =
     with_owned up mid db (\<lambda>user m.
       let today = date_in (zone_of w user) (ww_clock w SCREEN)
       in show_start_card w user m (Some (if today \<le> date then date else today)) None False [] [] db)"

definition pick_start_date :: "when_world \<Rightarrow> tg_update \<Rightarrow> int \<Rightarrow> int \<Rightarrow> sdb \<Rightarrow> when_person \<Rightarrow> when_result" where
  "pick_start_date w up mid date db =
     with_owned up mid db (\<lambda>user m p.
       let z = zone_of w user;
           p1 = store_start_flow m p;
           proposed = (case datetime m of None \<Rightarrow> local_to_utc date (hours_minutes 23 59) z
                       | Some start \<Rightarrow> local_to_utc date (time_in z start) z)
       in case validate_start_datetime (ww_clock w PAST_CHECK) z proposed m of
            Some e \<Rightarrow> answers [Alert e] (NEXT START_DATETIME_CARD) db p1
          | None \<Rightarrow>
              (case start_beyond_horizon w user proposed of
                 Some r \<Rightarrow> answers [BeyondHorizon Start r (Some (date_in z (ww_clock w SCREEN)))]
                            (NEXT START_DATETIME_CARD) db p1
               | None \<Rightarrow>
                   (case apply_start_datetime proposed m of (m', end_cleared) \<Rightarrow>
                      show_start_card w user m' (Some date) None False
                        (if end_cleared then [Alert END_CLEARED_BY_START] else []) [UpdateMeetingMessages True]
                        (set_meetup m' db) p1)))"

definition open_start_time_prompt :: "tg_update \<Rightarrow> int \<Rightarrow> sdb \<Rightarrow> when_person \<Rightarrow> when_result" where
  "open_start_time_prompt up mid db =
     with_owned up mid db (\<lambda>user m p. answers [TimePrompt Start] (NEXT START_DATETIME_CARD) db (store_start_flow m p))"

definition save_start_datetime ::
    "when_world \<Rightarrow> user \<Rightarrow> meetup_row \<Rightarrow> instant \<Rightarrow> sdb \<Rightarrow> when_person \<Rightarrow> when_result" where
  "save_start_datetime w user m start db =
     (case apply_start_datetime start m of (m', end_cleared) \<Rightarrow>
        show_start_card w user m' None (if end_cleared then Some END_CLEARED_BY_START else None) True []
          [UpdateMeetingMessages False] (set_meetup m' db))"

text \<open>What the typed-input handlers are handed: the meeting of the flow.\<close>

definition with_flow ::
    "context_id \<Rightarrow> tg_update \<Rightarrow> sdb \<Rightarrow> (user \<Rightarrow> meetup_row \<Rightarrow> when_person \<Rightarrow> when_result) \<Rightarrow> when_person \<Rightarrow> when_result" where
  "with_flow c up db body = with_meeting_id c False ContextPropertyNotSet (\<lambda>mid. with_owned up mid db body)"

definition type_start_datetime :: "when_world \<Rightarrow> tg_update \<Rightarrow> instant \<Rightarrow> sdb \<Rightarrow> when_person \<Rightarrow> when_result" where
  "type_start_datetime w up unix_time db =
     with_flow EDIT_MEETING_START up db (\<lambda>user m.
       case validate_start_datetime (ww_clock w PAST_CHECK) (zone_of w user) unix_time m of
         Some e \<Rightarrow> show_start_card w user m None (Some e) True [] [] db
       | None \<Rightarrow>
           (case start_beyond_horizon w user unix_time of
              Some r \<Rightarrow> answers [BeyondHorizon Start r None] (NEXT START_DATETIME_CARD) db
            | None \<Rightarrow> save_start_datetime w user m unix_time db))"

definition valid_time :: "int \<Rightarrow> int \<Rightarrow> bool" where
  "valid_time h mins \<longleftrightarrow> 0 \<le> h \<and> h < 24 \<and> 0 \<le> mins \<and> mins < 60"

definition type_start_time :: "when_world \<Rightarrow> tg_update \<Rightarrow> int \<Rightarrow> int \<Rightarrow> sdb \<Rightarrow> when_person \<Rightarrow> when_result" where
  "type_start_time w up h mins db =
     with_flow EDIT_MEETING_START up db (\<lambda>user m.
       case datetime m of
         None \<Rightarrow> show_start_card w user m None (Some TIME_NEEDS_DATE) True [] [] db
       | Some start \<Rightarrow>
           if \<not> valid_time h mins then show_start_card w user m None (Some TIME_INVALID_VALUE) True [] [] db
           else
             let z = zone_of w user;
                 proposed = local_to_utc (date_in z start) (hours_minutes h mins) z
             in case validate_start_datetime (ww_clock w PAST_CHECK) z proposed m of
                  Some e \<Rightarrow> show_start_card w user m None (Some e) True [] [] db
                | None \<Rightarrow> save_start_datetime w user m proposed db)"

definition reject_start_datetime :: "when_world \<Rightarrow> tg_update \<Rightarrow> sdb \<Rightarrow> when_person \<Rightarrow> when_result" where
  "reject_start_datetime w up db =
     with_flow EDIT_MEETING_START up db (\<lambda>user m.
       show_start_card w user m None (Some DATETIME_INPUT_INVALID) True [] [] db)"

section \<open>The end card\<close>

definition end_card_month :: "when_world \<Rightarrow> user \<Rightarrow> meetup_row \<Rightarrow> int" where
  "end_card_month w owner m =
     safe_anchor_date (zone_of w owner) (case end_datetime m of None \<Rightarrow> datetime m | Some t \<Rightarrow> Some t) (ww_clock w SCREEN)"

definition store_end_flow :: "meetup_row \<Rightarrow> when_person \<Rightarrow> when_person" where
  "store_end_flow m p =
     store_on_exit EDIT_MEETING_END (End, m_id m) (store_meeting_id EDIT_MEETING_END (m_id m) p)"

text \<open>Drawing the card asserts that there is a start.\<close>

definition show_end_card ::
    "when_world \<Rightarrow> user \<Rightarrow> meetup_row \<Rightarrow> int option \<Rightarrow> when_notice option \<Rightarrow> bool \<Rightarrow> when_screen list \<Rightarrow>
     when_screen list \<Rightarrow> sdb \<Rightarrow> when_person \<Rightarrow> when_result" where
  "show_end_card w owner m month error as_reply before after db p =
     (store_end_flow m p,
      if datetime m = None then Inl AssertionFailed
      else Inr ((db, before @ [Card End (case month of None \<Rightarrow> end_card_month w owner m | Some d \<Rightarrow> d) error as_reply] @ after),
           NEXT END_DATETIME_CARD))"

text \<open>A button of the end card on a meeting whose start is gone: an alert, and the conversation ends.\<close>

definition with_start :: "tg_update \<Rightarrow> int \<Rightarrow> sdb \<Rightarrow> (user \<Rightarrow> meetup_row \<Rightarrow> when_person \<Rightarrow> when_result) \<Rightarrow>
    when_person \<Rightarrow> when_result" where
  "with_start up mid db body =
     with_owned up mid db (\<lambda>user m.
       if datetime m = None then answers [Alert END_STALE_ALERT] END db else body user m)"

definition open_end_editor :: "when_world \<Rightarrow> tg_update \<Rightarrow> int \<Rightarrow> sdb \<Rightarrow> when_person \<Rightarrow> when_result" where
  "open_end_editor w up mid db =
     with_start up mid db (\<lambda>user m. show_end_card w user m None None False [] [] db)"

definition cancel_end_edit :: "tg_update \<Rightarrow> int \<Rightarrow> sdb \<Rightarrow> when_person \<Rightarrow> when_result" where
  "cancel_end_edit up mid db p =
     with_owned up mid db (\<lambda>user m. answers [OwnerView None False] END db) (clean_all_user_data p)"

definition navigate_end_calendar :: "when_world \<Rightarrow> tg_update \<Rightarrow> int \<Rightarrow> int \<Rightarrow> sdb \<Rightarrow> when_person \<Rightarrow> when_result" where
  "navigate_end_calendar w up mid date db =
     with_start up mid db (\<lambda>user m.
       let today = date_in (zone_of w user) (ww_clock w SCREEN)
       in show_end_card w user m (Some (if today \<le> date then date else today)) None False [] [] db)"

definition pick_end_date :: "when_world \<Rightarrow> tg_update \<Rightarrow> int \<Rightarrow> int \<Rightarrow> sdb \<Rightarrow> when_person \<Rightarrow> when_result" where
  "pick_end_date w up mid date db =
     with_start up mid db (\<lambda>user m p.
       let z = zone_of w user;
           p1 = store_end_flow m p;
           local_end_time = (case end_datetime m of None \<Rightarrow> hours_minutes 23 59 | Some t \<Rightarrow> time_in z t);
           requested = local_to_utc date local_end_time z
       in case end_on_picked_date (ww_clock w CAP_CHECK) z requested date m of
            Inl a \<Rightarrow> (p1, Inl AssertionFailed)
          | Inr proposed \<Rightarrow>
              (case validate_end_datetime (ww_clock w PAST_CHECK) z proposed m of
                 Inl a \<Rightarrow> (p1, Inl AssertionFailed)
               | Inr (Some e) \<Rightarrow> answers [Alert e] (NEXT END_DATETIME_CARD) db p1
               | Inr None \<Rightarrow>
                   (case end_beyond_horizon w user proposed of
                      Some r \<Rightarrow> answers [BeyondHorizon End r (Some (date_in z (ww_clock w SCREEN)))]
                                 (NEXT END_DATETIME_CARD) db p1
                    | None \<Rightarrow>
                        (case apply_end_datetime proposed m of
                           Inl a \<Rightarrow> (p1, Inl AssertionFailed)
                         | Inr m' \<Rightarrow>
                             show_end_card w user m' (Some date) None False
                               (if proposed \<noteq> requested then [Alert END_CAPPED_AT_MAX_DURATION] else [])
                               [UpdateMeetingMessages True] (set_meetup m' db) p1))))"

definition open_end_time_prompt :: "tg_update \<Rightarrow> int \<Rightarrow> sdb \<Rightarrow> when_person \<Rightarrow> when_result" where
  "open_end_time_prompt up mid db =
     with_start up mid db (\<lambda>user m p. answers [TimePrompt End] (NEXT END_DATETIME_CARD) db (store_end_flow m p))"

definition save_end_datetime ::
    "when_world \<Rightarrow> user \<Rightarrow> meetup_row \<Rightarrow> instant \<Rightarrow> sdb \<Rightarrow> when_person \<Rightarrow> when_result" where
  "save_end_datetime w user m stop db p =
     (case apply_end_datetime stop m of
        Inl a \<Rightarrow> (p, Inl AssertionFailed)
      | Inr m' \<Rightarrow> show_end_card w user m' None None True [] [UpdateMeetingMessages False] (set_meetup m' db) p)"

definition reply_or_save_end ::
    "when_world \<Rightarrow> user \<Rightarrow> meetup_row \<Rightarrow> instant \<Rightarrow> sdb \<Rightarrow> when_person \<Rightarrow> when_result" where
  "reply_or_save_end w user m stop db p =
     (case validate_end_datetime (ww_clock w PAST_CHECK) (zone_of w user) stop m of
        Inl a \<Rightarrow> (p, Inl AssertionFailed)
      | Inr (Some e) \<Rightarrow> show_end_card w user m None (Some e) True [] [] db p
      | Inr None \<Rightarrow>
          (case end_beyond_horizon w user stop of
             Some r \<Rightarrow> answers [BeyondHorizon End r None] (NEXT END_DATETIME_CARD) db p
           | None \<Rightarrow> save_end_datetime w user m stop db p))"

text \<open>Typed input on a meeting whose start is gone ends the flow on the meeting editor.\<close>

definition recover_typed_without_start_time :: "sdb \<Rightarrow> when_person \<Rightarrow> when_result" where
  "recover_typed_without_start_time db p = answers [OwnerView (Some END_STALE_ALERT) True] END db (cleanup_states p)"

definition with_end_flow ::
    "tg_update \<Rightarrow> sdb \<Rightarrow> (user \<Rightarrow> meetup_row \<Rightarrow> when_person \<Rightarrow> when_result) \<Rightarrow> when_person \<Rightarrow> when_result" where
  "with_end_flow up db body =
     with_flow EDIT_MEETING_END up db (\<lambda>user m.
       if datetime m = None then recover_typed_without_start_time db else body user m)"

definition type_end_datetime :: "when_world \<Rightarrow> tg_update \<Rightarrow> instant \<Rightarrow> sdb \<Rightarrow> when_person \<Rightarrow> when_result" where
  "type_end_datetime w up unix_time db =
     with_end_flow up db (\<lambda>user m. reply_or_save_end w user m unix_time db)"

definition type_end_time :: "when_world \<Rightarrow> tg_update \<Rightarrow> int \<Rightarrow> int \<Rightarrow> sdb \<Rightarrow> when_person \<Rightarrow> when_result" where
  "type_end_time w up h mins db =
     with_end_flow up db (\<lambda>user m.
       case end_datetime m of
         None \<Rightarrow> show_end_card w user m None (Some TIME_NEEDS_DATE) True [] [] db
       | Some stop \<Rightarrow>
           if \<not> valid_time h mins then show_end_card w user m None (Some TIME_INVALID_VALUE) True [] [] db
           else
             let z = zone_of w user
             in reply_or_save_end w user m (local_to_utc (date_in z stop) (hours_minutes h mins) z) db)"

definition reject_end_datetime :: "when_world \<Rightarrow> tg_update \<Rightarrow> sdb \<Rightarrow> when_person \<Rightarrow> when_result" where
  "reject_end_datetime w up db =
     with_end_flow up db (\<lambda>user m.
       show_end_card w user m None (Some DATETIME_INPUT_INVALID) True [] [] db)"

section \<open>Removing times\<close>

definition remove_end_time :: "tg_update \<Rightarrow> int \<Rightarrow> sdb \<Rightarrow> when_person \<Rightarrow> when_result" where
  "remove_end_time up mid db =
     with_owned up mid db (\<lambda>user m p. answers [ConfirmRemoveEnd] NO_CHANGE db (cleanup_states p))"

definition confirm_remove_end_time :: "tg_update \<Rightarrow> int \<Rightarrow> sdb \<Rightarrow> when_person \<Rightarrow> when_result" where
  "confirm_remove_end_time up mid db =
     with_owned up mid db (\<lambda>user m.
       answers [OwnerView None False, UpdateMeetingMessages True] NO_CHANGE (set_meetup (m\<lparr>end_datetime := None\<rparr>) db))"

definition clear_times :: "tg_update \<Rightarrow> int \<Rightarrow> sdb \<Rightarrow> when_person \<Rightarrow> when_result" where
  "clear_times up mid db =
     with_owned up mid db (\<lambda>user m p. answers [ConfirmClearTimes] NO_CHANGE db (cleanup_states p))"

definition confirm_clear_times :: "tg_update \<Rightarrow> int \<Rightarrow> sdb \<Rightarrow> when_person \<Rightarrow> when_result" where
  "confirm_clear_times up mid db =
     with_owned up mid db (\<lambda>user m.
       answers [OwnerView None False, UpdateMeetingMessages True] NO_CHANGE
         (set_meetup (m\<lparr>datetime := None, end_datetime := None\<rparr>) db))"

text \<open>Declining either confirmation, and the button of the retired menu.\<close>

definition decline_removal :: "tg_update \<Rightarrow> int \<Rightarrow> sdb \<Rightarrow> when_person \<Rightarrow> when_result" where
  "decline_removal up mid db = with_owned up mid db (\<lambda>user m. answers [OwnerView None False] NO_CHANGE db)"

definition when_entry :: "tg_update \<Rightarrow> int \<Rightarrow> sdb \<Rightarrow> when_person \<Rightarrow> when_result" where
  "when_entry up mid db =
     with_owned up mid db (\<lambda>user m. answers [OwnerView (Some EDITING_REVAMP_BANNER) False] NO_CHANGE db)"

section \<open>Back to the editor\<close>

text \<open>\<^verbatim>\<open>handlers/meeting/edit/entry.py\<close>; cancelling with callback data that names no meeting is left out.\<close>

definition edit_meeting :: "tg_update \<Rightarrow> int \<Rightarrow> sdb \<Rightarrow> when_person \<Rightarrow> when_result" where
  "edit_meeting up mid db =
     with_owned up mid db (\<lambda>user m p. answers [OwnerView None False] NO_CHANGE db (cleanup_states p))"

definition cancel_edit_meeting :: "tg_update \<Rightarrow> int \<Rightarrow> sdb \<Rightarrow> when_person \<Rightarrow> when_result" where
  "cancel_edit_meeting up mid db p =
     (case current_user up db of Inl e \<Rightarrow> (p, Inl (WhenRejected e))
      | Inr user \<Rightarrow>
          (case meeting db (Some user) mid OWNER_ANY_STATE of Inl e \<Rightarrow> (p, Inl (WhenRejected e))
           | Inr m \<Rightarrow> answers [OwnerView None False] END db (cleanup_states p)))"

section \<open>Registration\<close>

text \<open>What a person can do: the buttons, with the meeting and the date in their callback data, and typed messages.
  \<open>tap_of\<close> tells which conversation a handler is registered in, and whether it is one of its entry points; the other
  handlers of a conversation are matched only while it is live. Buttons outside a conversation always are.\<close>

datatype when_tap =
    OpenStart int | CancelStart int | NavigateStart int int | PickStart int int | PromptStart int
  | TypeStartDatetime instant | TypeStartTime int int | RejectStart
  | OpenEnd int | CancelEnd int | NavigateEnd int int | PickEnd int int | PromptEnd int
  | TypeEndDatetime instant | TypeEndTime int int | RejectEnd | CancelEdit int
  | RemoveEnd int | ConfirmRemoveEndTime int | ClearTimes int | ConfirmClear int | DeclineRemoval int
  | WhenEntry int | EditMeeting int

fun tap_of :: "when_tap \<Rightarrow> (conversation \<times> bool) option" where
  "tap_of (OpenStart i) = Some (START_EDITOR_CONVERSATION, True)"
| "tap_of (NavigateStart i d) = Some (START_EDITOR_CONVERSATION, True)"
| "tap_of (PickStart i d) = Some (START_EDITOR_CONVERSATION, True)"
| "tap_of (PromptStart i) = Some (START_EDITOR_CONVERSATION, True)"
| "tap_of (CancelStart i) = Some (START_EDITOR_CONVERSATION, False)"
| "tap_of (TypeStartDatetime t) = Some (START_EDITOR_CONVERSATION, False)"
| "tap_of (TypeStartTime h m) = Some (START_EDITOR_CONVERSATION, False)"
| "tap_of RejectStart = Some (START_EDITOR_CONVERSATION, False)"
| "tap_of (OpenEnd i) = Some (END_EDITOR_CONVERSATION, True)"
| "tap_of (NavigateEnd i d) = Some (END_EDITOR_CONVERSATION, True)"
| "tap_of (PickEnd i d) = Some (END_EDITOR_CONVERSATION, True)"
| "tap_of (PromptEnd i) = Some (END_EDITOR_CONVERSATION, True)"
| "tap_of (CancelEnd i) = Some (END_EDITOR_CONVERSATION, False)"
| "tap_of (TypeEndDatetime t) = Some (END_EDITOR_CONVERSATION, False)"
| "tap_of (TypeEndTime h m) = Some (END_EDITOR_CONVERSATION, False)"
| "tap_of RejectEnd = Some (END_EDITOR_CONVERSATION, False)"
| "tap_of (CancelEdit i) = Some (END_EDITOR_CONVERSATION, False)"
| "tap_of _ = None"

fun when_handler :: "when_world \<Rightarrow> tg_update \<Rightarrow> when_tap \<Rightarrow> sdb \<Rightarrow> when_person \<Rightarrow> when_result" where
  "when_handler w up (OpenStart i) = open_start_editor w up i"
| "when_handler w up (CancelStart i) = cancel_start_edit up i"
| "when_handler w up (NavigateStart i d) = navigate_start_calendar w up i d"
| "when_handler w up (PickStart i d) = pick_start_date w up i d"
| "when_handler w up (PromptStart i) = open_start_time_prompt up i"
| "when_handler w up (TypeStartDatetime t) = type_start_datetime w up t"
| "when_handler w up (TypeStartTime h m) = type_start_time w up h m"
| "when_handler w up RejectStart = reject_start_datetime w up"
| "when_handler w up (OpenEnd i) = open_end_editor w up i"
| "when_handler w up (CancelEnd i) = cancel_end_edit up i"
| "when_handler w up (NavigateEnd i d) = navigate_end_calendar w up i d"
| "when_handler w up (PickEnd i d) = pick_end_date w up i d"
| "when_handler w up (PromptEnd i) = open_end_time_prompt up i"
| "when_handler w up (TypeEndDatetime t) = type_end_datetime w up t"
| "when_handler w up (TypeEndTime h m) = type_end_time w up h m"
| "when_handler w up RejectEnd = reject_end_datetime w up"
| "when_handler w up (CancelEdit i) = cancel_edit_meeting up i"
| "when_handler w up (RemoveEnd i) = remove_end_time up i"
| "when_handler w up (ConfirmRemoveEndTime i) = confirm_remove_end_time up i"
| "when_handler w up (ClearTimes i) = clear_times up i"
| "when_handler w up (ConfirmClear i) = confirm_clear_times up i"
| "when_handler w up (DeclineRemoval i) = decline_removal up i"
| "when_handler w up (WhenEntry i) = when_entry up i"
| "when_handler w up (EditMeeting i) = edit_meeting up i"

text \<open>One update: the handler it reaches, if any, run in its conversation.\<close>

definition when_update ::
    "(when_state option \<Rightarrow> when_state conv_return \<Rightarrow> when_state option) \<Rightarrow> when_world \<Rightarrow> tg_update \<Rightarrow> when_tap \<Rightarrow>
     sdb \<Rightarrow> when_person \<Rightarrow> when_result option" where
  "when_update upd w up tap db p =
     (case tap_of tap of
        None \<Rightarrow> Some (when_handler w up tap db p)
      | Some (c, entry) \<Rightarrow>
          if entry \<or> live p c \<noteq> None then Some (run_conversation upd c (when_handler w up tap db) p) else None)"

end
