(* ===== verification/When_Props.thy ===== *)
theory When_Props
  imports When
begin

text \<open>
  The schedules under the When handlers. What a handler may write to a meeting is one of four writes
  (\<open>schedule_write\<close>); from them follow the invariant of the schedules, the bounds on what is written and the effect
  of picking the same day again. The memory of the conversations is followed beside the tables, which other people
  change in between.
\<close>

section \<open>What a handler writes\<close>

inductive schedule_write :: "when_world \<Rightarrow> user \<Rightarrow> bool \<Rightarrow> meetup_row \<Rightarrow> meetup_row \<Rightarrow> bool" for w owner typed_time m where
  set_start: "validate_start_datetime (ww_clock w PAST_CHECK) (zone_of w owner) start m = None \<Longrightarrow>
    typed_time \<or> start_beyond_horizon w owner start = None \<Longrightarrow> apply_start_datetime start m = (m', cleared) \<Longrightarrow>
    schedule_write w owner typed_time m m'"
| set_end: "validate_end_datetime (ww_clock w PAST_CHECK) (zone_of w owner) stop m = Inr None \<Longrightarrow>
    end_beyond_horizon w owner stop = None \<Longrightarrow> apply_end_datetime stop m = Inr m' \<Longrightarrow>
    schedule_write w owner typed_time m m'"
| drop_end: "schedule_write w owner typed_time m (m\<lparr>end_datetime := None\<rparr>)"
| drop_times: "schedule_write w owner typed_time m (m\<lparr>datetime := None, end_datetime := None\<rparr>)"

fun types_start_time :: "when_tap \<Rightarrow> bool" where
  "types_start_time (TypeStartTime h m) = True"
| "types_start_time _ = False"

definition writes :: "when_world \<Rightarrow> tg_update \<Rightarrow> bool \<Rightarrow> sdb \<Rightarrow> sdb \<Rightarrow> bool" where
  "writes w up typed_time db db' \<longleftrightarrow> db' = db \<or>
     (\<exists>user mid m m'. current_user up db = Inr user \<and> meeting db (Some user) mid OWNER = Inr m \<and>
        schedule_write w user typed_time m m' \<and> db' = set_meetup m' db)"

lemma writes_same [simp]: "writes w up t db db"
  by (simp add: writes_def)

lemma writesI:
  "current_user up db = Inr user \<Longrightarrow> meeting db (Some user) mid OWNER = Inr m \<Longrightarrow> schedule_write w user t m m' \<Longrightarrow>
   writes w up t db (set_meetup m' db)"
  unfolding writes_def by blast

lemma with_ownedE:
  assumes "with_owned up mid db body p = (p', Inr ((db', scr), next))"
  obtains user m where "current_user up db = Inr user" "meeting db (Some user) mid OWNER = Inr m"
    "body user m p = (p', Inr ((db', scr), next))"
  using assms unfolding with_owned_def by (auto split: sum.splits)

lemma with_flowE:
  assumes "with_flow c up db body p = (p', Inr ((db', scr), next))"
  obtains user mid m where "current_user up db = Inr user" "meeting db (Some user) mid OWNER = Inr m"
    "body user m p = (p', Inr ((db', scr), next))"
proof -
  from assms obtain e mid where "registry p c = Some e" "cd_meeting_id e = Some mid"
    "with_owned up mid db body p = (p', Inr ((db', scr), next))"
    unfolding with_flow_def with_meeting_id_def by (auto split: option.splits prod.splits)
  then show thesis using that by (auto elim!: with_ownedE)
qed

lemma answers_tables: "answers screens nxt db p = (p', Inr ((db', scr), next)) \<Longrightarrow> db' = db"
  by (simp add: answers_def)

lemma show_start_tables: "show_start_card w u m mo e r b a db p = (p', Inr ((db', scr), next)) \<Longrightarrow> db' = db"
  by (simp add: show_start_card_def)

lemma show_end_tables: "show_end_card w u m mo e r b a db p = (p', Inr ((db', scr), next)) \<Longrightarrow> db' = db"
  by (simp add: show_end_card_def split: if_splits)

lemmas screen_tables = answers_tables show_start_tables show_end_tables

lemma pick_start_writes:
  assumes "pick_start_date w up mid date db p = (p', Inr ((db', scr), next))"
  shows "writes w up False db db'"
  using assms unfolding pick_start_date_def Let_def
  by (elim with_ownedE)
    (auto simp del: split_paired_Ex split: option.splits prod.splits dest!: screen_tables intro: writesI set_start)

lemma save_start_writes:
  assumes "save_start_datetime w user m start db p = (p', Inr ((db', scr), next))"
    "current_user up db = Inr user" "meeting db (Some user) mid OWNER = Inr m"
    "validate_start_datetime (ww_clock w PAST_CHECK) (zone_of w user) start m = None"
    "t \<or> start_beyond_horizon w user start = None"
  shows "writes w up t db db'"
  using assms unfolding save_start_datetime_def
  by (auto split: prod.splits dest!: screen_tables intro: writesI set_start)

lemma type_start_writes:
  "type_start_datetime w up moment db p = (p', Inr ((db', scr), next)) \<Longrightarrow> writes w up False db db'"
  "type_start_time w up h mins db p = (p', Inr ((db', scr), next)) \<Longrightarrow> writes w up True db db'"
  unfolding type_start_datetime_def type_start_time_def Let_def
  by (auto elim!: with_flowE split: option.splits if_splits dest!: screen_tables elim: save_start_writes)

lemma save_end_writes:
  assumes "save_end_datetime w user m stop db p = (p', Inr ((db', scr), next))"
    "current_user up db = Inr user" "meeting db (Some user) mid OWNER = Inr m"
    "validate_end_datetime (ww_clock w PAST_CHECK) (zone_of w user) stop m = Inr None"
    "end_beyond_horizon w user stop = None"
  shows "writes w up t db db'"
  using assms unfolding save_end_datetime_def
  by (auto split: sum.splits dest!: screen_tables intro: writesI set_end)

lemma reply_or_save_writes:
  assumes "reply_or_save_end w user m stop db p = (p', Inr ((db', scr), next))"
    "current_user up db = Inr user" "meeting db (Some user) mid OWNER = Inr m"
  shows "writes w up t db db'"
  using assms unfolding reply_or_save_end_def
  by (auto split: sum.splits option.splits dest!: screen_tables elim: save_end_writes)

lemma with_startE:
  assumes "with_start up mid db body p = (p', Inr ((db', scr), next))"
  obtains "db' = db" | user m where "current_user up db = Inr user" "meeting db (Some user) mid OWNER = Inr m"
    "datetime m \<noteq> None" "body user m p = (p', Inr ((db', scr), next))"
  using assms unfolding with_start_def by (auto elim!: with_ownedE split: if_splits dest!: answers_tables)

lemma with_end_flowE:
  assumes "with_end_flow up db body p = (p', Inr ((db', scr), next))"
  obtains "db' = db" | user mid m where "current_user up db = Inr user" "meeting db (Some user) mid OWNER = Inr m"
    "datetime m \<noteq> None" "body user m p = (p', Inr ((db', scr), next))"
  using assms unfolding with_end_flow_def recover_typed_without_start_time_def
  by (auto elim!: with_flowE split: if_splits dest!: answers_tables)

lemma pick_end_writes:
  assumes "pick_end_date w up mid date db p = (p', Inr ((db', scr), next))"
  shows "writes w up t db db'"
  using assms unfolding pick_end_date_def Let_def
  by (elim with_startE)
    (auto split: option.splits sum.splits prod.splits dest!: screen_tables intro: writesI set_end)

lemma type_end_writes:
  "type_end_datetime w up moment db p = (p', Inr ((db', scr), next)) \<Longrightarrow> writes w up t db db'"
  "type_end_time w up h mins db p = (p', Inr ((db', scr), next)) \<Longrightarrow> writes w up t db db'"
  unfolding type_end_datetime_def type_end_time_def Let_def
  by (auto elim!: with_end_flowE split: option.splits if_splits dest!: screen_tables elim: reply_or_save_writes)

lemma removal_writes:
  "confirm_remove_end_time up mid db p = (p', Inr ((db', scr), next)) \<Longrightarrow> writes w up t db db'"
  "confirm_clear_times up mid db p = (p', Inr ((db', scr), next)) \<Longrightarrow> writes w up t db db'"
  unfolding confirm_remove_end_time_def confirm_clear_times_def
  by (auto elim!: with_ownedE dest!: answers_tables intro: writesI drop_end drop_times)

text \<open>Every other handler leaves the tables as they are.\<close>

lemmas card_defs = open_start_editor_def navigate_start_calendar_def open_start_time_prompt_def reject_start_datetime_def
  open_end_editor_def navigate_end_calendar_def open_end_time_prompt_def reject_end_datetime_def
  remove_end_time_def clear_times_def decline_removal_def when_entry_def edit_meeting_def cancel_end_edit_def Let_def

lemma cancel_tables:
  "cancel_start_edit up mid db p = (p', Inr ((db', scr), next)) \<Longrightarrow> db' = db"
  "cancel_edit_meeting up mid db p = (p', Inr ((db', scr), next)) \<Longrightarrow> db' = db"
  unfolding cancel_start_edit_def cancel_edit_meeting_def
  by (auto elim!: with_ownedE split: sum.splits dest!: answers_tables)

theorem when_handler_writes:
  assumes "when_handler w up tap db p = (p', Inr ((db', scr), next))"
  shows "writes w up (types_start_time tap) db db'"
proof (cases tap)
qed (use assms in \<open>auto simp: card_defs elim!: with_ownedE with_flowE with_startE with_end_flowE
    dest!: screen_tables dest: cancel_tables pick_start_writes pick_end_writes type_start_writes type_end_writes removal_writes\<close>)

section \<open>The schedules stay valid\<close>

lemma guard_rows:
  assumes "current_user up db = Inr user" "meeting db (Some user) mid OWNER = Inr m"
  shows "user \<in> set (users db)" "m \<in> set (meetups db)" "owner_id m = u_id user" "active m" "m_id m = mid"
  using assms
  by (auto simp: current_user_def user_by_tg_def meeting_Inr owned_def is_owned_by_def
      dest!: first_where_Some by_id_Some split: option.splits if_splits)

lemma schedule_write_row:
  "schedule_write w u t m m' \<Longrightarrow> m_id m' = m_id m \<and> owner_id m' = owner_id m \<and> active m' = active m"
  by (induction rule: schedule_write.induct) (auto dest: apply_fields)

lemma schedule_write_ok: "schedule_write w u t m m' \<Longrightarrow> schedule_ok (zone_of w u) m'"
  by (induction rule: schedule_write.induct)
    (auto dest: apply_start_ok apply_end_ok intro: schedule_ok_no_end)

definition schedules_ok :: "(string \<Rightarrow> zone option) \<Rightarrow> sdb \<Rightarrow> bool" where
  "schedules_ok zones db \<longleftrightarrow> distinct (map u_id (users db)) \<and>
     (\<forall>m \<in> set (meetups db). \<forall>u \<in> set (users db). u_id u = owner_id m \<longrightarrow>
        schedule_ok (settings_tz zones (u_settings u)) m)"

lemma set_meetup_fields [simp]: "users (set_meetup m db) = users db" "links (set_meetup m db) = links db"
  by (simp_all add: set_meetup_def)

lemma set_meetup_mem: "r \<in> set (meetups (set_meetup m db)) \<Longrightarrow> r = m \<or> r \<in> set (meetups db)"
  by (auto simp: set_meetup_def replaced_mem)

lemma writes_schedules:
  assumes "writes w up t db db'" "schedules_ok (ww_zones w) db"
  shows "schedules_ok (ww_zones w) db'"
proof (cases "db' = db")
  case False
  then obtain user mid m m' where g: "current_user up db = Inr user" "meeting db (Some user) mid OWNER = Inr m"
    and wr: "schedule_write w user t m m'" and db': "db' = set_meetup m' db"
    using assms(1) unfolding writes_def by blast
  note rows = guard_rows [OF g] and row = schedule_write_row [OF wr]
  have "schedule_ok (settings_tz (ww_zones w) (u_settings u)) m'" if "u \<in> set (users db)" "u_id u = owner_id m'" for u
  proof -
    have "u = user"
      using distinct_key_unique [of u_id "users db" u user] assms(2) that rows(1,3) row by (simp add: schedules_ok_def)
    then show ?thesis using schedule_write_ok [OF wr] by (simp add: zone_of_def)
  qed
  then show ?thesis using assms(2) unfolding schedules_ok_def db' by (auto dest: set_meetup_mem)
qed (use assms in simp)

lemma schedules_ok_rows:
  assumes "schedules_ok zones db" "users db' = users db"
    "\<And>m. m \<in> set (meetups db') \<Longrightarrow> m \<in> set (meetups db) \<or> end_datetime m = None"
  shows "schedules_ok zones db'"
  using assms unfolding schedules_ok_def by (auto intro: schedule_ok_no_end)

lemma create_rows:
  "create_meeting w fresh up n t db = Inr (db', r) \<Longrightarrow> db' = db \<or>
   (\<exists>u. current_user up db = Inr u \<and> db' = db\<lparr>meetups := meetups db @ [new_meetup fresh (ww_clock w SCREEN) t u]\<rparr>)"
  unfolding create_meeting_def by (auto simp: Let_def split: sum.splits option.splits if_splits)

lemma new_meetup_simps [simp]:
  "end_datetime (new_meetup fresh now t u) = None" "datetime (new_meetup fresh now t u) = t"
  "m_id (new_meetup fresh now t u) = fresh" "owner_id (new_meetup fresh now t u) = u_id u"
  by (simp_all add: new_meetup_def Let_def)

lemma create_schedules:
  assumes "create_meeting w fresh up n t db = Inr (db', r)" "schedules_ok zones db"
  shows "schedules_ok zones db'"
  using assms(2) create_rows [OF assms(1)] by (elim disjE exE conjE) (auto elim!: schedules_ok_rows)

lemma reactivate_schedules:
  assumes "reactivate_meeting cfg clock up mid db = Inr (db', r)" "schedules_ok zones db"
  shows "schedules_ok zones db'"
proof -
  have "db' = db \<or> db' = db\<lparr>meetups := update_where (\<lambda>r. m_id r = mid) (restart clock) (meetups db)\<rparr>"
    using assms(1) unfolding reactivate_meeting_def by (auto split: sum.splits if_splits)
  then show ?thesis using assms(2)
    by (elim disjE) (auto elim!: schedules_ok_rows simp: set_update_where restart_def clear_deletion_warning_def)
qed

text \<open>A tap comes with whatever the person's memory holds; the zone database does not change.\<close>

datatype schedule_event =
    Tapped when_world tg_update when_tap when_person
  | CreateMeeting when_world int tg_update nat "instant option"
  | ReactivateMeeting limits_config instant tg_update int

fun schedule_step :: "(string \<Rightarrow> zone option) \<Rightarrow> schedule_event \<Rightarrow> sdb \<Rightarrow> sdb" where
  "schedule_step zones (Tapped w up tap p) db =
     (case when_handler (w\<lparr>ww_zones := zones\<rparr>) up tap db p of
        (_, Inl e) \<Rightarrow> db | (_, Inr ((db', screens), next)) \<Rightarrow> db')"
| "schedule_step zones (CreateMeeting w fresh up n t) db =
     (case create_meeting (w\<lparr>ww_zones := zones\<rparr>) fresh up n t db of Inl e \<Rightarrow> db | Inr (db', r) \<Rightarrow> db')"
| "schedule_step zones (ReactivateMeeting cfg clock up mid) db =
     (case reactivate_meeting cfg clock up mid db of Inl e \<Rightarrow> db | Inr (db', r) \<Rightarrow> db')"

lemma schedule_step_ok: "schedules_ok zones db \<Longrightarrow> schedules_ok zones (schedule_step zones e db)"
proof (cases e)
  case (Tapped w up tap p)
  assume ok: "schedules_ok zones db"
  obtain p' r where run: "when_handler (w\<lparr>ww_zones := zones\<rparr>) up tap db p = (p', r)" by fastforce
  show ?thesis
  proof (cases r)
    case (Inr x)
    then obtain db' scr nxt where r: "r = Inr ((db', scr), nxt)" by (cases x) auto
    with writes_schedules [OF when_handler_writes [OF run [unfolded r]]] ok show ?thesis
      by (simp add: Tapped run r)
  qed (use ok in \<open>simp add: Tapped run\<close>)
qed (auto split: sum.split elim: create_schedules reactivate_schedules)

interpretation schedules: invariant_system "det (schedule_step zones)" "schedules_ok zones" for zones
  by unfold_locales (simp add: schedule_step_ok)

text \<open>C14. Schedules stay valid. Whatever sequence of taps, typed dates and times, creations and reactivations runs, by
  whomever and at whatever time: a meeting with an end has a start, the end comes after it, and on the wall clocks of
  the owner the meeting lasts at most the longest duration, a local week.\<close>

theorem schedules_stay_valid:
  assumes "schedules_ok zones db" "steps (det (schedule_step zones)) db es db'"
    "m \<in> set (meetups db')" "u \<in> set (users db')" "u_id u = owner_id m" "end_datetime m = Some stop"
  shows "\<exists>start. datetime m = Some start \<and> start < stop \<and>
    wall (settings_tz zones (u_settings u)) stop \<le> wall (settings_tz zones (u_settings u)) start + days 7"
proof -
  have "schedules_ok zones db'" by (rule schedules.steps_inv [OF assms(2,1)])
  with assms(3-6) have "schedule_ok (settings_tz zones (u_settings u)) m" by (simp add: schedules_ok_def)
  then show ?thesis using assms(6)
    by (auto simp: schedule_ok_def within_max_duration_def policy_defs split: option.splits)
qed

section \<open>What may be written\<close>

definition moment_allowed :: "when_world \<Rightarrow> user \<Rightarrow> instant \<Rightarrow> bool" where
  "moment_allowed w u t \<longleftrightarrow>
     within_scheduling_horizon (ww_limits w) (zone_of w u) (ww_clock w HORIZON_CHECK) (u_supporter_level u) t"

lemma schedule_write_moments:
  assumes "schedule_write w u typed m m'"
  shows "m' = m\<lparr>datetime := datetime m', end_datetime := end_datetime m', lock_on_start := lock_on_start m'\<rparr>"
    and "lock_on_start m' \<noteq> lock_on_start m \<Longrightarrow> end_datetime m \<noteq> None \<and> end_datetime m' = None \<and> datetime m' \<noteq> None"
    and "datetime m' = Some start \<Longrightarrow> datetime m \<noteq> Some start \<Longrightarrow>
      ww_clock w PAST_CHECK < start \<and> (typed \<or> moment_allowed w u start)"
    and "end_datetime m' = Some stop \<Longrightarrow> end_datetime m \<noteq> Some stop \<Longrightarrow>
      ww_clock w PAST_CHECK < stop \<and> moment_allowed w u stop"
  using assms
  by (induction rule: schedule_write.induct)
    (auto simp: apply_start_datetime_def enforce_datetime_ordering_def apply_end_datetime_def validate_start_None
      validate_end_None start_beyond_horizon_iff end_beyond_horizon_iff moment_allowed_def
      split: option.splits if_splits)

text \<open>C16. What the When handlers may write. A handler that changes a meeting changes one active meeting of the acting
  user, and in it only the start, the end and, when the end is dropped because of a new start, the start lock. A start or
  an end that is new lies in the future at the check and within the scheduling horizon of the owner's tier; the one
  exception is a start time typed on the day the meeting already has.\<close>

theorem written_moments_allowed:
  assumes "when_handler w up tap db p = (p', Inr ((db', screens), nxt))" "m' \<in> set (meetups db')" "m' \<notin> set (meetups db)"
  shows "\<exists>u m. current_user up db = Inr u \<and> m \<in> set (meetups db) \<and> owner_id m = u_id u \<and> active m \<and>
    m' = m\<lparr>datetime := datetime m', end_datetime := end_datetime m', lock_on_start := lock_on_start m'\<rparr> \<and>
    (lock_on_start m' \<noteq> lock_on_start m \<longrightarrow> end_datetime m \<noteq> None \<and> end_datetime m' = None \<and> datetime m' \<noteq> None) \<and>
    (\<forall>start. datetime m' = Some start \<longrightarrow> datetime m \<noteq> Some start \<longrightarrow>
       ww_clock w PAST_CHECK < start \<and>
       (types_start_time tap \<or> within_scheduling_horizon (ww_limits w) (zone_of w u) (ww_clock w HORIZON_CHECK)
          (u_supporter_level u) start)) \<and>
    (\<forall>stop. end_datetime m' = Some stop \<longrightarrow> end_datetime m \<noteq> Some stop \<longrightarrow>
       ww_clock w PAST_CHECK < stop \<and>
       within_scheduling_horizon (ww_limits w) (zone_of w u) (ww_clock w HORIZON_CHECK) (u_supporter_level u) stop)"
proof -
  obtain user mid m n where g: "current_user up db = Inr user" "meeting db (Some user) mid OWNER = Inr m"
    and wr: "schedule_write w user (types_start_time tap) m n" and db': "db' = set_meetup n db"
    using when_handler_writes [OF assms(1)] assms(2,3) unfolding writes_def by blast
  have m': "m' = n" using set_meetup_mem assms(2,3) unfolding db' by blast
  show ?thesis unfolding m'
    by (intro exI [of _ user] exI [of _ m] conjI allI impI g(1) guard_rows [OF g]
        schedule_write_moments [OF wr, unfolded moment_allowed_def] | assumption)+
qed

section \<open>Picking the same day again\<close>

lemma set_meetup_same: "distinct (map m_id (meetups db)) \<Longrightarrow> m \<in> set (meetups db) \<Longrightarrow> set_meetup m db = db"
  by (simp add: set_meetup_def replaced_same)

lemma apply_same_start:
  "datetime m = Some start \<Longrightarrow> schedule_ok z m \<Longrightarrow> apply_start_datetime start m = (m, False)"
  by (auto simp: apply_start_datetime_def enforce_datetime_ordering_def schedule_ok_def split: option.splits)

text \<open>C17. A tap on the day a card already shows changes nothing, whatever clock changes lie around it: the time of day is
  read off the stored moment with its fold and leads back to the same moment, so neither the start nor the end moves and
  no end is dropped.\<close>

theorem repicking_keeps_schedule:
  assumes "zone_ok (zone_of w user)" "distinct (map m_id (meetups db))" "schedule_ok (zone_of w user) m"
    "current_user up db = Inr user" "meeting db (Some user) mid OWNER = Inr m" "datetime m = Some start"
  shows "(pick_start_date w up mid (date_in (zone_of w user) start) db p = (p', Inr ((db', screens), nxt)) \<longrightarrow> db' = db) \<and>
    (end_datetime m = Some stop \<longrightarrow>
       pick_end_date w up mid (date_in (zone_of w user) stop) db p = (p', Inr ((db', screens), nxt)) \<longrightarrow> db' = db)"
proof -
  let ?z = "zone_of w user"
  note rt = local_round_trip [OF assms(1)] and row = guard_rows [OF assms(4,5)]
  note same = set_meetup_same [OF assms(2) row(2)]
  have ends: "end_on_picked_date now ?z stop d m = Inr stop" "apply_end_datetime stop m = Inr m"
    if "end_datetime m = Some stop" for now d
    using that assms(3,6) by (auto simp: end_on_picked_date_def schedule_ok_def apply_end_datetime_def)
  show ?thesis
    unfolding pick_start_date_def pick_end_date_def with_start_def with_owned_def
    using assms(4-6) apply_same_start [OF assms(6,3)] ends
    by (auto simp: rt same Let_def split: option.splits sum.splits dest!: screen_tables)
qed

end
