(* ===== verification/Life_Others.thy ===== *)
theory Life_Others
  imports Meeting_Life Roster_Props When_Props
begin

text \<open>
  The handlers of the rosters and of the schedules among the other transactions of \<^verbatim>\<open>Meeting_Life\<close>: each of them
  keeps the rows of the meetings and what the jobs decide on, and creates meetings active and without stamps.
\<close>

lemma keeps_life_image:
  assumes "life_inv db'" "set (meetups db') = f ` set (meetups db)" "\<forall>m \<in> set (meetups db). same_life m (f m)"
  shows "keeps_life db db'"
  unfolding keeps_life_def
proof (intro conjI ballI)
  show "life_inv db'" by fact
  show "\<exists>m' \<in> set (meetups db'). same_life m m'" if "m \<in> set (meetups db)" for m
    using that assms(2,3) by auto
  show "(\<exists>m \<in> set (meetups db). same_life m m') \<or> (m_id m' \<notin> m_id ` set (meetups db) \<and> active m' \<and> unstamped m')"
    if "m' \<in> set (meetups db')" for m' using that assms(2,3) by auto
qed

lemma keeps_life_same: "life_inv db' \<Longrightarrow> set (meetups db') = set (meetups db) \<Longrightarrow> keeps_life db db'"
  by (rule keeps_life_image [where f = id]) simp_all

section \<open>Rosters\<close>

definition rows_kept :: "sdb \<Rightarrow> sdb \<Rightarrow> bool" where
  "rows_kept db db' \<longleftrightarrow> (\<exists>f. set (meetups db') = f ` set (meetups db) \<and> (\<forall>m. same_life m (f m)))"

lemma rows_kept_same: "set (meetups db') = set (meetups db) \<Longrightarrow> rows_kept db db'"
  unfolding rows_kept_def by (intro exI [of _ id]) simp

lemma track_card_rows: "track_card fresh up mid db = Inr db' \<Longrightarrow> meetups db' = meetups db"
  by (auto simp: track_card_def split: option.splits sum.splits if_splits)

lemma acting_user_rows: "acting_user w up name nick db = Inr (db', u) \<Longrightarrow> meetups db' = meetups db"
  by (auto simp: acting_user_def Let_def split: sum.splits guard_error.splits)

lemma join_rows: "join_meetup w up name nick mid db = Inr (db', a) \<Longrightarrow> meetups db' = meetups db"
  by (auto simp: join_meetup_def with_shared_meeting_def join_operation_def Let_def
      dest!: acting_user_rows track_card_rows split: sum.splits option.splits if_splits prod.splits)

lemma leave_rows: "leave_meetup w up name nick mid db = Inr (db', a) \<Longrightarrow> meetups db' = meetups db"
  by (auto simp: leave_meetup_def with_shared_meeting_def leave_operation_def Let_def
      dest!: acting_user_rows track_card_rows split: sum.splits option.splits if_splits prod.splits)

lemma invite_rows: "confirm_user_invitation w up authorized mid name db = Inr (db', a) \<Longrightarrow> meetups db' = meetups db"
  by (auto simp: confirm_user_invitation_def Let_def split: sum.splits option.splits if_splits prod.splits)

lemma limit_rows:
  assumes "set_participant_limit w m owner n db = Inr (db', a)"
  shows "rows_kept db db'"
proof -
  have "meetups db' = map (\<lambda>r. if m_id r = m_id m then r\<lparr>max_members := n\<rparr> else r) (meetups db)"
    using assms by (auto simp: set_participant_limit_def update_where_def Let_def split: sum.splits prod.splits)
  then show ?thesis unfolding rows_kept_def
    by (intro exI [of _ "\<lambda>r. if m_id r = m_id m then r\<lparr>max_members := n\<rparr> else r"]) (simp add: same_life_def)
qed

lemma kick_rows:
  assumes base: "base_ok db" and run: "kickout_participant_confirm w up mid uid db = Inr (db', a)"
  shows "set (meetups db') = set (meetups db)"
proof (cases "meetups db' = meetups db")
  case False
  obtain user where u: "current_user up db = Inr user"
    using run by (cases "current_user up db") (simp_all add: kickout_participant_confirm_def)
  obtain m where m: "meeting db (Some user) mid OWNER = Inr m"
    using run u by (cases "meeting db (Some user) mid OWNER") (simp_all add: kickout_participant_confirm_def)
  note run = run [unfolded kickout_participant_confirm_def u m sum.case]
  obtain link where link: "participant uid (load_meeting db m) = Some link"
    using run False by (cases "participant uid (load_meeting db m)") auto
  note run = run [unfolded link option.case]
  obtain meeting' promoted where rem: "remove_participant (rw_limits w) user link (load_meeting db m) = Inr (meeting', promoted)"
    using run by (cases "remove_participant (rw_limits w) user link (load_meeting db m)") auto
  let ?db1 = "store_links mid (rw_link w) (joined_links meeting') db"
  have db': "db' = (if l_invited_by link \<noteq> None then delete_users_where (\<lambda>u. u_id u = uid) ?db1 else ?db1)"
    using run unfolding rem sum.case prod.case Let_def by (cases "notify_promoted promoted") simp_all
  have guest: "l_invited_by link \<noteq> None" using False unfolding db' by (cases "l_invited_by link") (simp_all add: store_links_def)
  have "is_invitee db uid"
  proof -
    have "unload_link (m_id m) 0 link \<in> set (map (unload_link (m_id m) 0) (joined_links (load_meeting db m)))"
      using participant_Some [OF link] by simp
    then have "unload_link (m_id m) 0 link \<in> set (links db)"
      unfolding load_unloaded_distinct(2) [OF base] by (simp add: links_of_def)
    moreover have "jl_invited_by (unload_link (m_id m) 0 link) \<noteq> None" using guest by (simp add: unload_link_def)
    ultimately show ?thesis
      using base_parts(6) [OF base] participant_Some [OF link] unfolding guests_ok_def by (metis unload_link_def link_row.select_convs(2))
  qed
  then have "owner_id r \<noteq> uid" if "r \<in> set (meetups db)" for r
    using base_parts(4) [OF base] that unfolding invitees_own_nothing_def by blast
  then show ?thesis using guest unfolding db' by (auto simp: set_delete_users_meetups store_links_def)
qed simp

lemma with_meeting_rows:
  assumes "with_meeting up mid access db k = Inr (db', a)" "\<And>user m. k user m = Inr (db', a) \<Longrightarrow> rows_kept db db'"
  shows "rows_kept db db'"
  using assms by (auto simp: with_meeting_def split: sum.splits)

lemma perform_rows:
  assumes "base_ok db" "perform w act db = Inr db'"
  shows "rows_kept db db'"
proof -
  note same = rows_kept_same [of db db]
  show ?thesis
  proof (cases act)
    case (Join_Tap up name nick mid)
    with assms(2) map_sum_Inr obtain a where "join_meetup w up name nick mid db = Inr (db', a)" by force
    then show ?thesis using join_rows rows_kept_same by metis
  next
    case (Leave_Tap up name nick mid)
    with assms(2) map_sum_Inr obtain a where "leave_meetup w up name nick mid db = Inr (db', a)" by force
    then show ?thesis using leave_rows rows_kept_same by metis
  next
    case (Invite up authorized mid name)
    with assms(2) map_sum_Inr obtain a where "confirm_user_invitation w up authorized mid name db = Inr (db', a)" by force
    then show ?thesis using invite_rows rows_kept_same by metis
  next
    case (Kick up mid uid)
    with assms(2) map_sum_Inr obtain a where "kickout_participant_confirm w up mid uid db = Inr (db', a)" by force
    then show ?thesis using kick_rows [OF assms(1)] rows_kept_same by metis
  next
    case (Limit up mid n)
    with assms(2) map_sum_Inr obtain a where "edit_meeting_max_participants w up mid n db = Inr (db', a)" by force
    then show ?thesis unfolding edit_meeting_max_participants_def
      by (rule with_meeting_rows) (use same in \<open>auto split: if_splits intro: limit_rows\<close>)
  next
    case (No_Limit up mid)
    with assms(2) map_sum_Inr obtain a where "edit_meeting_no_limit_participants w up mid db = Inr (db', a)" by force
    then show ?thesis unfolding edit_meeting_no_limit_participants_def by (rule with_meeting_rows) (rule limit_rows)
  next
    case (Remove_Limit up mid)
    with assms(2) map_sum_Inr obtain a where "remove_limit w up mid db = Inr (db', a)" by force
    then show ?thesis unfolding remove_limit_def
      by (rule with_meeting_rows) (use same in \<open>auto split: if_splits intro: limit_rows\<close>)
  next
    case (Confirm_Remove_Limit up mid)
    with assms(2) map_sum_Inr obtain a where "confirm_remove_limit w up mid db = Inr (db', a)" by force
    then show ?thesis unfolding confirm_remove_limit_def by (rule with_meeting_rows) (rule limit_rows)
  qed
qed

lemma roster_event_other:
  assumes "roster_event cfg db e db'" "roster_inv cfg db"
  shows "life_step db Other db'"
proof -
  have base: "base_ok db" "base_ok db'" using assms roster_event_inv [OF assms] by (simp_all add: roster_inv_def)
  then have inv: "life_inv db'" by (simp add: base_ok_def life_inv_def)
  have "rows_kept db db'" using assms(1)
  proof cases
    case (update w a) then show ?thesis using perform_rows [OF base(1)] by blast
  next
    case (raised w a x) then show ?thesis by (simp add: rows_kept_same)
  qed
  then show ?thesis unfolding rows_kept_def using keeps_life_image [OF inv] by (intro life_step.other) blast
qed

section \<open>Schedules\<close>

lemma schedule_write_life: "schedule_write w owner b m m' \<Longrightarrow> same_life m m'"
  by (induction rule: schedule_write.induct)
    (auto simp: same_life_def apply_start_datetime_def apply_end_datetime_def enforce_datetime_ordering_def Let_def
      split: option.splits if_splits)

lemma writes_other:
  assumes "writes w up b db db'" "life_inv db"
  shows "life_step db Other db'"
proof (rule life_step.other)
  from assms(1) consider "db' = db"
    | user mid m m' where "meeting db (Some user) mid OWNER = Inr m" "schedule_write w user b m m'" "db' = set_meetup m' db"
    unfolding writes_def by blast
  then show "keeps_life db db'"
  proof cases
    case 1 then show ?thesis using assms(2) by (simp add: keeps_life_same)
  next
    case 2
    have life: "same_life m m'" by (rule schedule_write_life [OF 2(2)])
    have m: "m \<in> set (meetups db)" using 2(1) by (auto simp: meeting_Inr dest: by_id_Some)
    let ?f = "\<lambda>r. if m_id r = m_id m then m' else r"
    have f: "same_life r (?f r)" if "r \<in> set (meetups db)" for r
      using row_unique [OF assms(2) m that] life by auto
    have db': "db' = db\<lparr>users := users db, meetups := map ?f (meetups db)\<rparr>"
      using 2(3) life by (simp add: set_meetup_def update_where_def same_life_def)
    have "map (\<lambda>m. (m_id m, owner_id m)) (map ?f (meetups db)) = map (\<lambda>m. (m_id m, owner_id m)) (meetups db)"
      using f by (auto simp: same_life_def)
    then have "life_inv db'" unfolding db' by (intro life_inv_update [OF assms(2)]) simp_all
    moreover have "set (meetups db') = ?f ` set (meetups db)" by (simp add: db')
    ultimately show ?thesis using f by (intro keeps_life_image [where f = ?f]) blast+
  qed
qed

section \<open>Creating a meeting\<close>

text \<open>The new row has a fresh key, and its owner is whoever sent the update, not a placeholder.\<close>

lemma life_inv_create:
  assumes "life_inv db" "u \<in> set (users db)" "tg_user_id u \<noteq> ANONYMOUS_INVITEE_TG_ID" "owner_id m = u_id u"
    and "m_id m \<notin> m_id ` set (meetups db)"
  shows "life_inv (db\<lparr>meetups := meetups db @ [m]\<rparr>)"
proof -
  let ?db = "db\<lparr>meetups := meetups db @ [m]\<rparr>"
  have keys: "keys_ok db" "refs_ok db" "invitees_own_nothing db" using assms(1) by (simp_all add: life_inv_def tables_ok_def)
  have "keys_ok ?db" using keys(1) assms(5) by (auto simp: keys_ok_def)
  moreover have "refs_ok ?db" using keys(2) assms(2,4) by (auto simp: refs_ok_def)
  moreover have "\<not> is_invitee db (u_id u)"
  proof
    assume "is_invitee db (u_id u)"
    then obtain v where v: "v \<in> set (users db)" "u_id v = u_id u" "tg_user_id v = ANONYMOUS_INVITEE_TG_ID" by (auto simp: is_invitee_def)
    then have "v = u" using keys(1) assms(2) by (auto simp: keys_ok_def intro: distinct_key_unique [of u_id "users db"])
    then show False using v(3) assms(3) by simp
  qed
  then have "invitees_own_nothing ?db" using keys(3) assms(4) by (auto simp: invitees_own_nothing_def is_invitee_def)
  ultimately show ?thesis by (simp add: life_inv_def tables_ok_def)
qed

lemma create_meeting_other:
  assumes "create_meeting w fresh up n t db = Inr (db', r)" "life_inv db" "fresh \<notin> m_id ` set (meetups db)"
    and "effective_user up \<noteq> Some ANONYMOUS_INVITEE_TG_ID"
  shows "life_step db Other db'"
proof (rule life_step.other)
  from create_rows [OF assms(1)] show "keeps_life db db'"
  proof (elim disjE exE conjE)
    fix u assume u: "current_user up db = Inr u" and db': "db' = db\<lparr>meetups := meetups db @ [new_meetup fresh (ww_clock w SCREEN) t u]\<rparr>"
    let ?m = "new_meetup fresh (ww_clock w SCREEN) t u"
    have "life_inv db'" unfolding db'
      by (rule life_inv_create [OF assms(2)]) (use current_user_Inr [OF u] assms(3,4) in auto)
    moreover have "active ?m" "unstamped ?m" by (simp_all add: new_meetup_def unstamped_def Let_def)
    moreover have self: "same_life m m" for m :: meetup_row by (simp add: same_life_def)
    then have "\<exists>m' \<in> set (meetups db'). same_life m m'" "\<exists>m' \<in> set (meetups db). same_life m' m" if "m \<in> set (meetups db)" for m
      using that by (auto simp: db' intro: bexI [of _ m])
    ultimately show "keeps_life db db'" using assms(3) unfolding keeps_life_def by (auto simp: db')
  qed (use assms(2) in \<open>simp add: keeps_life_same\<close>)
qed

end
