(* ===== verification/Regexes.thy ===== *)
theory Regexes
  imports Prelude
begin

text \<open>
  The fragment of Python's \<open>re\<close> the wire patterns are built from, as a backtracking matcher: \<open>matches\<close> lists, in
  the order the engine tries them, the ways an expression can match a prefix of the input, each with the text it takes,
  the groups it fills and the rest. \<open>re_match\<close> is \<open>re.match(f"^{p}$", s).groupdict()\<close>: the first way whose
  rest is empty or one trailing newline, which \<open>$\<close> also accepts. An optional group that takes no part is absent from
  the association list (\<open>None\<close> in \<open>groupdict\<close>).

  Characters are those of code points below 256, on which \<open>\d\<close> accepts the ten ASCII digits.
\<close>

section \<open>Expressions\<close>

datatype rx =
    Lit string
  | Alts "string list"
  | One "char \<Rightarrow> bool"
  | Star "char \<Rightarrow> bool"
  | Then rx rx
  | Opt rx
  | Named string rx

type_synonym way = "string \<times> (string \<times> string) list \<times> string"

definition prefix_way :: "string \<Rightarrow> string \<Rightarrow> way list" where
  "prefix_way w s = (if take (length w) s = w then [(w, [], drop (length w) s)] else [])"

fun matches :: "rx \<Rightarrow> string \<Rightarrow> way list" where
  "matches (Lit w) s = prefix_way w s"
| "matches (Alts ws) s = concat (map (\<lambda>w. prefix_way w s) ws)"
| "matches (One p) s = (case s of [] \<Rightarrow> [] | c # cs \<Rightarrow> if p c then [([c], [], cs)] else [])"
| "matches (Star p) s =
     map (\<lambda>n. (take n s, [], drop n s)) (rev [0..<Suc (length (takeWhile p s))])"
| "matches (Then a b) s =
     concat (map (\<lambda>(w, g, r). map (\<lambda>(w', g', r'). (w @ w', g @ g', r')) (matches b r)) (matches a s))"
| "matches (Opt a) s = matches a s @ [([], [], s)]"
| "matches (Named n a) s = map (\<lambda>(w, g, r). (w, (n, w) # g, r)) (matches a s)"

definition newline :: string where
  "newline = [CHR 0x0A]"

definition at_end :: "string \<Rightarrow> bool" where
  "at_end r \<longleftrightarrow> r = [] \<or> r = newline"

definition re_match :: "rx \<Rightarrow> string \<Rightarrow> (string \<times> string) list option" where
  "re_match p s = map_option (\<lambda>(w, g, r). g) (first_where (\<lambda>(w, g, r). at_end r) (matches p s))"

definition digit :: "char \<Rightarrow> bool" where
  "digit c \<longleftrightarrow> c \<in> set ''0123456789''"

fun repeat_rx :: "nat \<Rightarrow> (char \<Rightarrow> bool) \<Rightarrow> rx" where
  "repeat_rx 0 p = Lit []"
| "repeat_rx (Suc n) p = Then (One p) (repeat_rx n p)"

section \<open>What a match is\<close>

lemma prefix_way_mem: "(w', g, r) \<in> set (prefix_way w s) \<longleftrightarrow> w' = w \<and> g = [] \<and> s = w @ r"
proof (cases "take (length w) s = w")
  case True
  then obtain t where "s = w @ t" by (metis append_take_drop_id)
  then show ?thesis by (auto simp: prefix_way_def)
qed (auto simp: prefix_way_def)

lemma Lit_mem [simp]: "(w', g, r) \<in> set (matches (Lit w) s) \<longleftrightarrow> w' = w \<and> g = [] \<and> s = w @ r"
  by (simp add: prefix_way_mem)

lemma Alts_mem [simp]: "(w', g, r) \<in> set (matches (Alts ws) s) \<longleftrightarrow> w' \<in> set ws \<and> g = [] \<and> s = w' @ r"
  by (auto simp: prefix_way_mem)

lemma One_mem [simp]: "(w, g, r) \<in> set (matches (One p) s) \<longleftrightarrow> (\<exists>c. p c \<and> w = [c] \<and> g = [] \<and> s = c # r)"
  by (auto split: list.splits)

lemma Star_mem [simp]: "(w, g, r) \<in> set (matches (Star p) s) \<longleftrightarrow> list_all p w \<and> g = [] \<and> s = w @ r"
proof
  assume "(w, g, r) \<in> set (matches (Star p) s)"
  then obtain n where "n < Suc (length (takeWhile p s))" and n: "w = take n s" "g = []" "r = drop n s" by (auto simp del: upt_Suc)
  then have n: "n \<le> length (takeWhile p s)" "w = take n s" "g = []" "r = drop n s" by simp_all
  from n(1) have "take n s = take n (takeWhile p s)"
    by (metis append_take_drop_id length_take min.absorb2 take_append takeWhile_dropWhile_id diff_is_0_eq take_0 append_Nil2)
  then have "list_all p w" using n(2) by (metis (no_types) in_set_takeD list.pred_set set_takeWhileD)
  with n show "list_all p w \<and> g = [] \<and> s = w @ r" by simp
next
  assume h: "list_all p w \<and> g = [] \<and> s = w @ r"
  then have "length w \<le> length (takeWhile p s)" by (simp add: list.pred_set takeWhile_append2)
  with h show "(w, g, r) \<in> set (matches (Star p) s)" unfolding matches.simps set_map set_rev set_upt
    by (intro image_eqI [where x = "length w"]) simp_all
qed

lemma Then_mem [simp]:
  "(w, g, r) \<in> set (matches (Then a b) s) \<longleftrightarrow>
     (\<exists>w1 g1 s1 w2 g2. (w1, g1, s1) \<in> set (matches a s) \<and> (w2, g2, r) \<in> set (matches b s1) \<and> w = w1 @ w2 \<and> g = g1 @ g2)"
  by force

lemma Opt_mem [simp]:
  "(w, g, r) \<in> set (matches (Opt a) s) \<longleftrightarrow> (w, g, r) \<in> set (matches a s) \<or> w = [] \<and> g = [] \<and> r = s"
  by auto

lemma Named_mem [simp]:
  "(w, g, r) \<in> set (matches (Named n a) s) \<longleftrightarrow> (\<exists>g'. g = (n, w) # g' \<and> (w, g', r) \<in> set (matches a s))"
  by force

lemmas matches_mem = Lit_mem Alts_mem One_mem Star_mem Then_mem Opt_mem Named_mem

declare matches.simps [simp del]

lemma repeat_mem [simp]:
  "(w, g, r) \<in> set (matches (repeat_rx n p) s) \<longleftrightarrow> length w = n \<and> list_all p w \<and> g = [] \<and> s = w @ r"
  by (induction n arbitrary: w g s) (auto simp: length_Suc_conv Cons_eq_append_conv)

lemma matches_split: "(w, g, r) \<in> set (matches p s) \<Longrightarrow> s = w @ r"
  by (induction p arbitrary: w g r s) fastforce+

lemma re_match_Some:
  "re_match p s = Some g \<Longrightarrow> \<exists>w r. (w, g, r) \<in> set (matches p s) \<and> at_end r"
  by (auto simp: re_match_def dest!: first_where_Some)

text \<open>When every way to the end fills the groups alike, the first one does.\<close>

lemma re_match_unique:
  assumes "(w, g, r) \<in> set (matches p s)" "at_end r"
    and "\<And>w' g' r'. (w', g', r') \<in> set (matches p s) \<Longrightarrow> at_end r' \<Longrightarrow> g' = g"
  shows "re_match p s = Some g"
proof (cases "re_match p s")
  case None
  then have "first_where (\<lambda>(w, g, r). at_end r) (matches p s) = None" by (simp add: re_match_def)
  with assms(1,2) show ?thesis unfolding first_where_None by fastforce
next
  case (Some g')
  with re_match_Some [OF Some] assms(3) show ?thesis by auto
qed

section \<open>Reading a delimited text back\<close>

lemma delimited:
  assumes "d \<notin> set a" "d \<notin> set b"
  shows "a @ d # x = b @ d # y \<longleftrightarrow> a = b \<and> x = y"
  using assms by (auto simp: append_eq_append_conv2 Cons_eq_append_conv append_eq_Cons_conv)

definition starts :: "(char \<Rightarrow> bool) \<Rightarrow> string \<Rightarrow> bool" where
  "starts p s \<longleftrightarrow> (case s of [] \<Rightarrow> False | c # _ \<Rightarrow> p c)"

lemma starts_simps [simp]: "\<not> starts p []" "starts p (c # s) \<longleftrightarrow> p c"
  by (simp_all add: starts_def)

lemma spanned:
  assumes "list_all p a" "list_all p b" "\<not> starts p x" "\<not> starts p y"
  shows "a @ x = b @ y \<longleftrightarrow> a = b \<and> x = y"
proof -
  have "takeWhile p (a @ x) = a" if "list_all p a" "\<not> starts p x" for a x
    using that by (cases x) (auto simp: list.pred_set takeWhile_append)
  with assms show ?thesis by (metis append_same_eq same_append_eq)
qed

end
