(* ===== verification/Callback.thy ===== *)
theory Callback
  imports Regexes
begin

text \<open>
  The data a button carries (\<^verbatim>\<open>libs/core/mitup_bot/callback_data.py\<close>): how a callback is rendered into the string that
  Telegram stores with the button, the pattern a handler is registered under, and what a handler reads back from a
  tapped button. The subclasses of \<open>CallbackData\<close> add one suffix each; here they are the cases of \<open>suffix\<close>. The
  guards that turn a read callback into its validated form are those of \<^verbatim>\<open>libs/telegram/mitup_bot/guards.py\<close>.

  Validating a field that pydantic refuses is \<open>ValidationError\<close>. A year below 1000 is rendered as \<open>strftime\<close> does
  with glibc, without leading zeros. Telegram carries at most 64 bytes, far below the 4300 digits pydantic converts.
\<close>

section \<open>Numbers and dates as text\<close>

definition digit_char :: "nat \<Rightarrow> char" where
  "digit_char n = ''0123456789'' ! n"

fun digits_of :: "nat \<Rightarrow> string" where
  "digits_of n = (if n < 10 then [digit_char n] else digits_of (n div 10) @ [digit_char (n mod 10)])"

declare digits_of.simps [simp del]

definition digit_value :: "char \<Rightarrow> nat" where
  "digit_value c = of_char c - 48"

definition of_digits :: "string \<Rightarrow> nat" where
  "of_digits s = foldl (\<lambda>a c. 10 * a + digit_value c) 0 s"

definition str_int :: "int \<Rightarrow> string" where
  "str_int i = (if i < 0 then CHR ''-'' # digits_of (nat (- i)) else digits_of (nat i))"

definition pad2 :: "nat \<Rightarrow> string" where
  "pad2 n = (if n < 10 then ''0'' else []) @ digits_of n"

type_synonym date = "nat \<times> nat \<times> nat"

definition leap :: "nat \<Rightarrow> bool" where
  "leap y \<longleftrightarrow> y mod 4 = 0 \<and> (y mod 100 \<noteq> 0 \<or> y mod 400 = 0)"

definition days_in_month :: "nat \<Rightarrow> nat \<Rightarrow> nat" where
  "days_in_month y m = (if m = 2 then (if leap y then 29 else 28) else if m \<in> {4, 6, 9, 11} then 30 else 31)"

fun valid_date :: "date \<Rightarrow> bool" where
  "valid_date (y, m, d) \<longleftrightarrow> 1 \<le> y \<and> y \<le> 9999 \<and> 1 \<le> m \<and> m \<le> 12 \<and> 1 \<le> d \<and> d \<le> days_in_month y m"

text \<open>\<open>f"{date:%Y-%m-%d}"\<close> and its inverse on texts of the shape the pattern lets through.\<close>

fun str_date :: "date \<Rightarrow> string" where
  "str_date (y, m, d) = digits_of y @ ''-'' @ pad2 m @ ''-'' @ pad2 d"

definition date_of :: "string \<Rightarrow> date option" where
  "date_of s =
     (let d = (of_digits (take 4 s), of_digits (take 2 (drop 5 s)), of_digits (drop 8 s))
      in if valid_date d then Some d else None)"

section \<open>Callbacks\<close>

datatype list_source = ACTIVE | JOINED
datatype back_target = MEETING_EDITOR

fun source_value :: "list_source \<Rightarrow> char" where
  "source_value ACTIVE = CHR ''a''"
| "source_value JOINED = CHR ''j''"

fun target_value :: "back_target \<Rightarrow> char" where
  "target_value MEETING_EDITOR = CHR ''e''"

definition source_of :: "char \<Rightarrow> list_source option" where
  "source_of c = (if c = CHR ''a'' then Some ACTIVE else if c = CHR ''j'' then Some JOINED else None)"

definition target_of :: "char \<Rightarrow> back_target option" where
  "target_of c = (if c = CHR ''e'' then Some MEETING_EDITOR else None)"

datatype suffix =
    Plain
  | Dated "date option"
  | Coded "string option"
  | Paged "int option" "list_source option"
  | Granted "int option"
  | Of_Meeting "int option"

record callback =
  entity :: string
  action :: string
  cb_id :: "int option"
  aliases :: "(string \<times> string) list"
  cb_back :: "back_target option"
  cb_back_id :: "int option"
  suffix :: suffix

datatype callback_error = ValidationError | RenderTypeError | MalformedCallbackData

definition UNKNOWN_ENTITY :: string where
  "UNKNOWN_ENTITY = ''unknown''"

definition opt_str :: "int option \<Rightarrow> string" where
  "opt_str i = (case i of None \<Rightarrow> [] | Some n \<Rightarrow> str_int n)"

section \<open>Rendering\<close>

definition base_str :: "callback \<Rightarrow> string" where
  "base_str c =
     action c @ '';'' @ entity c @ '':'' @ opt_str (cb_id c) @
     (case cb_back c of None \<Rightarrow> [] | Some t \<Rightarrow> '';back:'' @ [target_value t] @ opt_str (cb_back_id c))"

definition suffix_str :: "suffix \<Rightarrow> callback_error + string" where
  "suffix_str s =
     (case s of
        Plain \<Rightarrow> Inr []
      | Dated None \<Rightarrow> Inl RenderTypeError
      | Dated (Some d) \<Rightarrow> Inr ('';date:'' @ str_date d)
      | Coded c \<Rightarrow> Inr ('';code:'' @ (case c of None \<Rightarrow> [] | Some w \<Rightarrow> w))
      | Paged p src \<Rightarrow> Inr ((case p of None \<Rightarrow> [] | Some n \<Rightarrow> '';page:'' @ str_int n) @
                           (case src of None \<Rightarrow> [] | Some l \<Rightarrow> '';src:'' @ [source_value l]))
      | Granted l \<Rightarrow> Inr ('';lvl:'' @ opt_str l)
      | Of_Meeting m \<Rightarrow> Inr ('':'' @ (if m = Some 0 then [] else opt_str m)))"

definition cb_str :: "callback \<Rightarrow> callback_error + string" where
  "cb_str c = bind_result (suffix_str (suffix c)) (\<lambda>s. Inr (base_str c @ s))"

section \<open>Patterns\<close>

definition actions_of :: "callback \<Rightarrow> string list" where
  "actions_of c = uniq (action c # map fst (aliases c))"

definition entities_of :: "callback \<Rightarrow> string list" where
  "entities_of c = uniq (entity c # map snd (aliases c))"

definition code_char :: "char \<Rightarrow> bool" where
  "code_char c \<longleftrightarrow> c \<in> set ''ABCDEFGHIJKLMNOPQRSTUVWXYZabcdefghijklmnopqrstuvwxyz0123456789_-''"

definition base_pattern :: "callback \<Rightarrow> rx" where
  "base_pattern c =
     Then (Named ''action'' (Alts (actions_of c))) (Then (Lit '';'')
     (Then (Named ''entity'' (Alts (entities_of c))) (Then (Lit '':'')
     (Then (Named ''id'' (Star digit))
     (Opt (Then (Lit '';back:'')
       (Then (Named ''back'' (One (\<lambda>t. t = CHR ''e''))) (Named ''back_id'' (Star digit)))))))))"

definition suffix_pattern :: "suffix \<Rightarrow> rx" where
  "suffix_pattern s =
     (case s of
        Plain \<Rightarrow> Lit []
      | Dated _ \<Rightarrow> Then (Lit '';date:'') (Named ''date'' (Then (repeat_rx 4 digit) (Then (Lit ''-'')
          (Then (repeat_rx 2 digit) (Then (Lit ''-'') (repeat_rx 2 digit))))))
      | Coded _ \<Rightarrow> Then (Lit '';code:'') (Named ''code'' (Star code_char))
      | Paged _ _ \<Rightarrow> Then (Opt (Then (Lit '';page:'') (Named ''page'' (Then (One digit) (Star digit)))))
          (Opt (Then (Lit '';src:'') (Named ''source'' (One (\<lambda>c. c \<in> set ''aj'')))))
      | Granted _ \<Rightarrow> Then (Lit '';lvl:'') (Named ''level'' (Star digit))
      | Of_Meeting _ \<Rightarrow> Then (Lit '':'') (Named ''meeting_id'' (Star digit)))"

definition pattern_body :: "callback \<Rightarrow> rx" where
  "pattern_body c = Then (base_pattern c) (suffix_pattern (suffix c))"

section \<open>Reading a tapped button\<close>

text \<open>The \<open>before\<close> validators: an empty text is no value, everything else is left to pydantic.\<close>

definition int_field :: "(string \<times> string) list \<Rightarrow> string \<Rightarrow> int option" where
  "int_field g n = (case map_of g n of None \<Rightarrow> None | Some w \<Rightarrow> if w = [] then None else Some (int (of_digits w)))"

definition char_field :: "(char \<Rightarrow> 'a option) \<Rightarrow> (string \<times> string) list \<Rightarrow> string \<Rightarrow> callback_error + 'a option" where
  "char_field f g n =
     (case map_of g n of
        None \<Rightarrow> Inr None
      | Some [] \<Rightarrow> Inr None
      | Some [c] \<Rightarrow> (case f c of None \<Rightarrow> Inl ValidationError | Some x \<Rightarrow> Inr (Some x))
      | Some _ \<Rightarrow> Inl ValidationError)"

definition suffix_fields :: "suffix \<Rightarrow> (string \<times> string) list \<Rightarrow> callback_error + suffix" where
  "suffix_fields s g =
     (case s of
        Plain \<Rightarrow> Inr Plain
      | Dated _ \<Rightarrow> (case map_of g ''date'' of
            None \<Rightarrow> Inr (Dated None)
          | Some w \<Rightarrow> (case date_of w of None \<Rightarrow> Inl ValidationError | Some d \<Rightarrow> Inr (Dated (Some d))))
      | Coded _ \<Rightarrow> Inr (Coded (case map_of g ''code'' of None \<Rightarrow> None | Some w \<Rightarrow> if w = [] then None else Some w))
      | Paged _ _ \<Rightarrow> bind_result (char_field source_of g ''source'') (\<lambda>src.
          (let p = int_field g ''page'' in if p = Some 0 then Inl ValidationError else Inr (Paged p src)))
      | Granted _ \<Rightarrow> Inr (Granted (int_field g ''level''))
      | Of_Meeting _ \<Rightarrow> Inr (Of_Meeting (int_field g ''meeting_id'')))"

definition model_validate :: "callback \<Rightarrow> (string \<times> string) list \<Rightarrow> callback_error + callback" where
  "model_validate c g =
     (case map_of g ''entity'' of
        None \<Rightarrow> Inl ValidationError
      | Some e \<Rightarrow>
          bind_result (char_field target_of g ''back'') (\<lambda>t. bind_result (suffix_fields (suffix c) g) (\<lambda>s.
            Inr \<lparr>entity = e, action = (case map_of g ''action'' of None \<Rightarrow> ''show'' | Some a \<Rightarrow> a),
                 cb_id = int_field g ''id'', aliases = [], cb_back = t, cb_back_id = int_field g ''back_id'', suffix = s\<rparr>)))"

definition parse :: "callback \<Rightarrow> (string \<times> string) list option \<Rightarrow> callback_error + callback" where
  "parse c m = (case m of None \<Rightarrow> model_validate c [(''entity'', UNKNOWN_ENTITY)] | Some g \<Rightarrow> model_validate c g)"

text \<open>A handler registered under \<open>d\<close> runs when the tapped string matches, and reads it with \<open>d.parse(context.match)\<close>.\<close>

definition accepts :: "callback \<Rightarrow> string \<Rightarrow> bool" where
  "accepts d s \<longleftrightarrow> re_match (pattern_body d) s \<noteq> None"

definition receive :: "callback \<Rightarrow> string \<Rightarrow> callback_error + callback" where
  "receive d s = parse d (re_match (pattern_body d) s)"

section \<open>Derived callbacks\<close>

definition derived :: "callback \<Rightarrow> callback" where
  "derived c = c\<lparr>aliases := []\<rparr>"

definition with_id :: "int \<Rightarrow> callback \<Rightarrow> callback" where
  "with_id i c = (derived c)\<lparr>cb_id := Some i\<rparr>"

definition with_origin :: "(back_target \<times> int option) option \<Rightarrow> callback \<Rightarrow> callback" where
  "with_origin og c = (case og of None \<Rightarrow> c | Some (t, i) \<Rightarrow> (derived c)\<lparr>cb_back := Some t, cb_back_id := i\<rparr>)"

definition with_date :: "date \<Rightarrow> callback \<Rightarrow> callback" where
  "with_date d c = (derived c)\<lparr>suffix := Dated (Some d)\<rparr>"

definition with_code :: "string \<Rightarrow> callback \<Rightarrow> callback" where
  "with_code w c = (derived c)\<lparr>suffix := Coded (Some w)\<rparr>"

definition with_page :: "int \<Rightarrow> int \<Rightarrow> list_source option \<Rightarrow> callback \<Rightarrow> callback" where
  "with_page i p src c = (derived c)\<lparr>cb_id := Some i, suffix := Paged (Some p) src\<rparr>"

definition with_level :: "int \<Rightarrow> int \<Rightarrow> callback \<Rightarrow> callback" where
  "with_level i l c = (derived c)\<lparr>cb_id := Some i, suffix := Granted (Some l)\<rparr>"

definition with_ids :: "int \<Rightarrow> int \<Rightarrow> callback \<Rightarrow> callback" where
  "with_ids m i c = (derived c)\<lparr>cb_id := Some i, suffix := Of_Meeting (Some m)\<rparr>"

definition origin :: "callback \<Rightarrow> (back_target \<times> int option) option" where
  "origin c = (case cb_back c of None \<Rightarrow> None | Some t \<Rightarrow> Some (t, cb_back_id c))"

definition unknown :: "callback \<Rightarrow> bool" where
  "unknown c \<longleftrightarrow> entity c = UNKNOWN_ENTITY"

definition is_malformed :: "callback \<Rightarrow> bool" where
  "is_malformed c \<longleftrightarrow>
     (case suffix c of
        Coded w \<Rightarrow> w = None \<or> unknown c
      | Granted l \<Rightarrow> cb_id c = None \<or> unknown c \<or> l = None
      | _ \<Rightarrow> cb_id c = None \<or> unknown c)"

definition cb_eq :: "callback \<Rightarrow> callback \<Rightarrow> bool" where
  "cb_eq a b \<longleftrightarrow> cb_id a = cb_id b \<and> entity a = entity b \<and> action a = action b"

section \<open>Validated callbacks\<close>

record valid_callback =
  v_entity :: string
  v_action :: string
  v_id :: int

definition valid_callback_data :: "callback \<Rightarrow> callback_error + valid_callback" where
  "valid_callback_data c =
     (case cb_id c of
        None \<Rightarrow> Inl MalformedCallbackData
      | Some i \<Rightarrow> if unknown c then Inl MalformedCallbackData
                  else Inr \<lparr>v_entity = entity c, v_action = action c, v_id = i\<rparr>)"

text \<open>The guards of the subclasses return the validated base with the field they guarantee.\<close>

definition valid_date_callback_data :: "callback \<Rightarrow> callback_error + valid_callback \<times> date" where
  "valid_date_callback_data c = bind_result (valid_callback_data c) (\<lambda>v.
     case suffix c of Dated (Some d) \<Rightarrow> Inr (v, d) | _ \<Rightarrow> Inl MalformedCallbackData)"

definition valid_code_callback_data :: "callback \<Rightarrow> callback_error + string \<times> string \<times> string" where
  "valid_code_callback_data c =
     (case suffix c of
        Coded (Some w) \<Rightarrow> if unknown c then Inl MalformedCallbackData else Inr (entity c, action c, w)
      | _ \<Rightarrow> Inl MalformedCallbackData)"

definition valid_paginated_callback_data :: "callback \<Rightarrow> callback_error + valid_callback \<times> int \<times> list_source option" where
  "valid_paginated_callback_data c = bind_result (valid_callback_data c) (\<lambda>v.
     case suffix c of
       Paged p src \<Rightarrow> Inr (v, (case p of None \<Rightarrow> 1 | Some n \<Rightarrow> if n = 0 then 1 else n), src)
     | _ \<Rightarrow> Inl MalformedCallbackData)"

definition valid_meeting_callback_data :: "callback \<Rightarrow> callback_error + valid_callback \<times> int" where
  "valid_meeting_callback_data c = bind_result (valid_callback_data c) (\<lambda>v.
     case suffix c of Of_Meeting (Some m) \<Rightarrow> Inr (v, m) | _ \<Rightarrow> Inl MalformedCallbackData)"

definition valid_grant_callback_data :: "callback \<Rightarrow> callback_error + valid_callback \<times> int" where
  "valid_grant_callback_data c = bind_result (valid_callback_data c) (\<lambda>v.
     case suffix c of Granted (Some l) \<Rightarrow> Inr (v, l) | _ \<Rightarrow> Inl MalformedCallbackData)"

end
