(* ===== verification/Callback_Props.thy ===== *)
theory Callback_Props
  imports Callback
begin

text \<open>
  Every rendered callback is read back as it was, whatever a pattern accepts is a well-formed callback, and the
  patterns' languages are told apart by their delimiters.
\<close>

section \<open>Numbers and dates\<close>

lemma digit_char [simp]: "n < 10 \<Longrightarrow> digit (digit_char n)" "n < 10 \<Longrightarrow> digit_value (digit_char n) = n"
proof -
  have "\<forall>n \<in> set [0..<10]. digit (digit_char n) \<and> digit_value (digit_char n) = n" by code_simp
  then show "n < 10 \<Longrightarrow> digit (digit_char n)" "n < 10 \<Longrightarrow> digit_value (digit_char n) = n" by auto
qed

lemma of_digits_snoc [simp]: "of_digits (s @ [c]) = 10 * of_digits s + digit_value c" and of_digits_Nil [simp]: "of_digits [] = 0"
  by (simp_all add: of_digits_def)

lemma digits_of_ok [simp]: "list_all digit (digits_of n)" "digits_of n \<noteq> []" "of_digits (digits_of n) = n"
proof (induction n rule: digits_of.induct)
  case (1 n)
  case 1 with "1.IH" show ?case by (subst digits_of.simps) simp
  case 2 with "1.IH" show ?case by (subst digits_of.simps) simp
  case 3 with "1.IH" show ?case by (subst digits_of.simps) (simp add: of_digits_def)
qed

lemma digits_of_length: "n < 10 ^ k \<Longrightarrow> 0 < k \<Longrightarrow> length (digits_of n) \<le> k"
proof (induction n arbitrary: k rule: digits_of.induct)
  case (1 n)
  show ?case
  proof (cases "n < 10")
    case True
    with 1 show ?thesis by (subst digits_of.simps) simp
  next
    case False
    with "1.prems"(1) have "1 < k" by (cases "k = 1") (simp_all, use "1.prems"(2) in linarith)
    then obtain j where j: "k = Suc j" "0 < j" by (cases k) auto
    with "1.prems"(1) have "n div 10 < 10 ^ j" by (simp add: less_mult_imp_div_less mult.commute)
    from "1.IH" [OF False this j(2)] j(1) False show ?thesis by (subst digits_of.simps) simp
  qed
qed

lemma digits_of_small: "n < 10 \<Longrightarrow> digits_of n = [digit_char n]"
  by (subst digits_of.simps) simp

lemma digits_of_step: "10 \<le> n \<Longrightarrow> digits_of n = digits_of (n div 10) @ [digit_char (n mod 10)]"
  by (subst digits_of.simps) simp

lemma pad2_length: "n < 100 \<Longrightarrow> length (pad2 n) = 2"
  by (cases "n < 10") (simp_all add: pad2_def digits_of_small digits_of_step [of n])

lemma pad2_ok [simp]: "list_all digit (pad2 n)" "of_digits (pad2 n) = n"
proof -
  have "of_digits (CHR ''0'' # s) = of_digits s" for s by (simp add: of_digits_def digit_value_def)
  then show "of_digits (pad2 n) = n" unfolding pad2_def by (cases "n < 10") (simp_all del: of_digits_snoc)
  have "digit (CHR ''0'')" by code_simp
  then show "list_all digit (pad2 n)" by (simp add: pad2_def)
qed

lemma year_length:
  assumes "1000 \<le> y" "y \<le> 9999"
  shows "length (digits_of y) = 4"
proof -
  have b: "y div 10 div 10 div 10 < 10" "10 \<le> y div 10 div 10" "10 \<le> y div 10" "10 \<le> y"
    using assms by (simp_all add: div_mult2_eq [symmetric] less_eq_div_iff_mult_less_eq div_less_iff_less_mult)
  show ?thesis
    unfolding digits_of_step [OF b(4)] digits_of_step [OF b(3)] digits_of_step [OF b(2)] digits_of_small [OF b(1)] by simp
qed

definition wire_date :: "date \<Rightarrow> bool" where
  "wire_date d \<longleftrightarrow> valid_date d \<and> 1000 \<le> fst d"

lemma wire_date_parts:
  assumes "wire_date (y, m, d)"
  shows "length (digits_of y) = 4" "length (pad2 m) = 2" "length (pad2 d) = 2"
proof -
  from assms have b: "1000 \<le> y" "y \<le> 9999" "m < 100" "d < 100"
    by (auto simp: wire_date_def days_in_month_def split: if_splits)
  show "length (digits_of y) = 4" using year_length [OF b(1,2)] .
  show "length (pad2 m) = 2" "length (pad2 d) = 2" using pad2_length [OF b(3)] pad2_length [OF b(4)] .
qed

lemma date_of_str: "wire_date d \<Longrightarrow> date_of (str_date d) = Some d"
proof -
  assume w: "wire_date d"
  obtain y m k where d: "d = (y, m, k)" by (cases d) auto
  from wire_date_parts [OF w [unfolded d]] have "take 4 (str_date d) = digits_of y" "take 2 (drop 5 (str_date d)) = pad2 m"
    "drop 8 (str_date d) = pad2 k" by (simp_all add: d)
  with w show "date_of (str_date d) = Some d" by (simp add: date_of_def wire_date_def d)
qed

section \<open>The language of a pattern\<close>

text \<open>What a match takes: the texts of the groups, with \<open>None\<close> for an optional part that is absent.\<close>

datatype raw_tail =
    TPlain
  | TDate string
  | TCode string
  | TPage "string option" "char option"
  | TLevel string
  | TMeeting string

record raw =
  raw_action :: string
  raw_entity :: string
  raw_id :: string
  raw_back :: "(char \<times> string) option"
  raw_tail :: raw_tail

fun back_wire :: "(char \<times> string) option \<Rightarrow> string" where
  "back_wire None = []"
| "back_wire (Some (t, b)) = '';back:'' @ t # b"

fun back_groups :: "(char \<times> string) option \<Rightarrow> (string \<times> string) list" where
  "back_groups None = []"
| "back_groups (Some (t, b)) = [(''back'', [t]), (''back_id'', b)]"

fun tail_wire :: "raw_tail \<Rightarrow> string" where
  "tail_wire TPlain = []"
| "tail_wire (TDate w) = '';date:'' @ w"
| "tail_wire (TCode w) = '';code:'' @ w"
| "tail_wire (TPage p s) =
     (case p of None \<Rightarrow> [] | Some w \<Rightarrow> '';page:'' @ w) @ (case s of None \<Rightarrow> [] | Some c \<Rightarrow> '';src:'' @ [c])"
| "tail_wire (TLevel w) = '';lvl:'' @ w"
| "tail_wire (TMeeting w) = '':'' @ w"

fun tail_groups :: "raw_tail \<Rightarrow> (string \<times> string) list" where
  "tail_groups TPlain = []"
| "tail_groups (TDate w) = [(''date'', w)]"
| "tail_groups (TCode w) = [(''code'', w)]"
| "tail_groups (TPage p s) =
     (case p of None \<Rightarrow> [] | Some w \<Rightarrow> [(''page'', w)]) @ (case s of None \<Rightarrow> [] | Some c \<Rightarrow> [(''source'', [c])])"
| "tail_groups (TLevel w) = [(''level'', w)]"
| "tail_groups (TMeeting w) = [(''meeting_id'', w)]"

definition date_shape :: "string \<Rightarrow> bool" where
  "date_shape w \<longleftrightarrow> (\<exists>y m d. length y = 4 \<and> length m = 2 \<and> length d = 2 \<and> list_all digit (y @ m @ d) \<and>
     w = y @ ''-'' @ m @ ''-'' @ d)"

fun tail_ok :: "suffix \<Rightarrow> raw_tail \<Rightarrow> bool" where
  "tail_ok Plain TPlain = True"
| "tail_ok (Dated _) (TDate w) = date_shape w"
| "tail_ok (Coded _) (TCode w) = list_all code_char w"
| "tail_ok (Paged _ _) (TPage p s) =
     (pred_option (\<lambda>w. w \<noteq> [] \<and> list_all digit w) p \<and> pred_option (\<lambda>c. c \<in> set ''aj'') s)"
| "tail_ok (Granted _) (TLevel w) = list_all digit w"
| "tail_ok (Of_Meeting _) (TMeeting w) = list_all digit w"
| "tail_ok _ _ = False"

definition raw_wire :: "raw \<Rightarrow> string" where
  "raw_wire x = raw_action x @ '';'' @ raw_entity x @ '':'' @ raw_id x @ back_wire (raw_back x) @ tail_wire (raw_tail x)"

definition raw_groups :: "raw \<Rightarrow> (string \<times> string) list" where
  "raw_groups x = [(''action'', raw_action x), (''entity'', raw_entity x), (''id'', raw_id x)] @ back_groups (raw_back x) @
     tail_groups (raw_tail x)"

definition raw_ok :: "callback \<Rightarrow> raw \<Rightarrow> bool" where
  "raw_ok d x \<longleftrightarrow> raw_action x \<in> set (actions_of d) \<and> raw_entity x \<in> set (entities_of d) \<and> list_all digit (raw_id x) \<and>
     pred_option (\<lambda>(t, b). t = CHR ''e'' \<and> list_all digit b) (raw_back x) \<and> tail_ok (suffix d) (raw_tail x)"

text \<open>Expressions without groups only say which texts they take.\<close>

definition takes :: "rx \<Rightarrow> (string \<Rightarrow> bool) \<Rightarrow> bool" where
  "takes p P \<longleftrightarrow> (\<forall>w g r s. (w, g, r) \<in> set (matches p s) \<longleftrightarrow> P w \<and> g = [] \<and> s = w @ r)"

lemma takes_Then: "takes a P \<Longrightarrow> takes b Q \<Longrightarrow> takes (Then a b) (\<lambda>w. \<exists>u v. w = u @ v \<and> P u \<and> Q v)"
  unfolding takes_def Then_mem by fastforce

lemma takes_basic: "takes (Lit w) (\<lambda>v. v = w)" "takes (Star p) (list_all p)" "takes (One p) (\<lambda>v. \<exists>c. v = [c] \<and> p c)"
  "takes (repeat_rx n p) (\<lambda>v. length v = n \<and> list_all p v)"
  by (auto simp: takes_def)

lemma date_rx:
  "(w, g, r) \<in> set (matches (Then (repeat_rx 4 digit) (Then (Lit ''-'') (Then (repeat_rx 2 digit) (Then (Lit ''-'') (repeat_rx 2 digit))))) s)
     \<longleftrightarrow> date_shape w \<and> g = [] \<and> s = w @ r"
proof -
  note rx = takes_Then [OF takes_basic(4) takes_Then [OF takes_basic(1) takes_Then [OF takes_basic(4) takes_Then [OF takes_basic(1) takes_basic(4)]]],
    of 4 digit "''-''" 2 digit "''-''" 2 digit, unfolded takes_def, rule_format]
  show ?thesis unfolding rx date_shape_def by (simp only: list_all_append) blast
qed

lemma page_takes: "takes (Then (One digit) (Star digit)) (\<lambda>w. w \<noteq> [] \<and> list_all digit w)"
proof -
  have "(\<lambda>w. \<exists>u v. w = u @ v \<and> (\<exists>c. u = [c] \<and> digit c) \<and> list_all digit v) = (\<lambda>w. w \<noteq> [] \<and> list_all digit w)"
  proof (rule ext, rule iffI)
    fix w assume "\<exists>u v. w = u @ v \<and> (\<exists>c. u = [c] \<and> digit c) \<and> list_all digit v"
    then show "w \<noteq> [] \<and> list_all digit w" by (elim exE conjE) simp
  next
    fix w assume "w \<noteq> [] \<and> list_all digit w"
    then obtain c cs where "w = [c] @ cs" "digit c" "list_all digit cs" by (cases w) simp_all
    then show "\<exists>u v. w = u @ v \<and> (\<exists>c. u = [c] \<and> digit c) \<and> list_all digit v" by blast
  qed
  with takes_Then [OF takes_basic(3) takes_basic(2), of digit digit] show ?thesis by simp
qed

lemma tail_ok_iff:
  "tail_ok Plain t \<longleftrightarrow> t = TPlain"
  "tail_ok (Dated d) t \<longleftrightarrow> (\<exists>w. t = TDate w \<and> date_shape w)"
  "tail_ok (Coded c) t \<longleftrightarrow> (\<exists>w. t = TCode w \<and> list_all code_char w)"
  "tail_ok (Paged p src) t \<longleftrightarrow> (\<exists>q u. t = TPage q u \<and> pred_option (\<lambda>w. w \<noteq> [] \<and> list_all digit w) q \<and> pred_option (\<lambda>c. c \<in> set ''aj'') u)"
  "tail_ok (Granted l) t \<longleftrightarrow> (\<exists>w. t = TLevel w \<and> list_all digit w)"
  "tail_ok (Of_Meeting m) t \<longleftrightarrow> (\<exists>w. t = TMeeting w \<and> list_all digit w)"
  by (cases t; auto)+

lemma named_mem:
  assumes "takes p P"
  shows "(w, g, r) \<in> set (matches (Then (Lit l) (Named n p)) s) \<longleftrightarrow> (\<exists>x. P x \<and> w = l @ x \<and> g = [(n, x)] \<and> s = w @ r)"
  using assms by (auto simp: takes_def)

text \<open>An optional named part: absent, or its literal followed by what the group takes.\<close>

lemma optional_mem:
  assumes "takes p P"
  shows "(w, g, r) \<in> set (matches (Opt (Then (Lit l) (Named n p))) s) \<longleftrightarrow>
    (\<exists>v. pred_option P v \<and> w = (case v of None \<Rightarrow> [] | Some x \<Rightarrow> l @ x) \<and> g = (case v of None \<Rightarrow> [] | Some x \<Rightarrow> [(n, x)]) \<and> s = w @ r)"
    (is "?L \<longleftrightarrow> (\<exists>v. ?R v)")
proof -
  have "?L \<longleftrightarrow> ?R None \<or> (\<exists>x. ?R (Some x))"
    using assms by (auto simp: takes_def)
  then show ?thesis by (metis option.exhaust)
qed

lemma tail_named:
  assumes "X \<longleftrightarrow> (\<exists>x. P x \<and> w = l @ x \<and> g = [(n, x)] \<and> s = w @ r)"
    and "\<And>x. tail_wire (T x) = l @ x" "\<And>x. tail_groups (T x) = [(n, x)]"
  shows "X \<longleftrightarrow> (\<exists>t. (\<exists>x. t = T x \<and> P x) \<and> w = tail_wire t \<and> g = tail_groups t \<and> s = w @ r)"
  unfolding assms(1) using assms(2,3) by auto

lemma optional_char_mem:
  "(w, g, r) \<in> set (matches (Opt (Then (Lit l) (Named n (One P)))) s) \<longleftrightarrow>
    (\<exists>v. pred_option P v \<and> w = (case v of None \<Rightarrow> [] | Some c \<Rightarrow> l @ [c]) \<and> g = (case v of None \<Rightarrow> [] | Some c \<Rightarrow> [(n, [c])]) \<and> s = w @ r)"
    (is "?L \<longleftrightarrow> (\<exists>v. ?R v)")
proof -
  have "?L \<longleftrightarrow> ?R None \<or> (\<exists>x. ?R (Some x))" by auto
  then show ?thesis by (metis option.exhaust)
qed

lemma tail_matches:
  "(w, g, r) \<in> set (matches (suffix_pattern sf) s) \<longleftrightarrow> (\<exists>t. tail_ok sf t \<and> w = tail_wire t \<and> g = tail_groups t \<and> s = w @ r)"
proof (cases sf)
  case (Paged p src)
  let ?p = "Opt (Then (Lit '';page:'') (Named ''page'' (Then (One digit) (Star digit))))"
  let ?s = "Opt (Then (Lit '';src:'') (Named ''source'' (One (\<lambda>c. c \<in> set ''aj''))))"
  note page = optional_mem [OF page_takes, of _ _ _ "'';page:''" "''page''"]
  note src = optional_char_mem [of _ _ _ "'';src:''" "''source''" "\<lambda>c. c \<in> set ''aj''"]
  have split: "suffix_pattern (Paged p src) = Then ?p ?s" by (simp add: suffix_pattern_def)
  show ?thesis unfolding Paged split Then_mem
  proof (rule iffI)
    assume "\<exists>w1 g1 s1 w2 g2. (w1, g1, s1) \<in> set (matches ?p s) \<and> (w2, g2, r) \<in> set (matches ?s s1) \<and> w = w1 @ w2 \<and> g = g1 @ g2"
    then obtain q u where "pred_option (\<lambda>w. w \<noteq> [] \<and> list_all digit w) q" "pred_option (\<lambda>c. c \<in> set ''aj'') u"
      "w = tail_wire (TPage q u)" "g = tail_groups (TPage q u)" "s = w @ r"
      unfolding page src by (elim exE conjE) simp
    then show "\<exists>t. tail_ok (Paged p src) t \<and> w = tail_wire t \<and> g = tail_groups t \<and> s = w @ r"
      unfolding tail_ok_iff by blast
  next
    assume "\<exists>t. tail_ok (Paged p src) t \<and> w = tail_wire t \<and> g = tail_groups t \<and> s = w @ r"
    then obtain q u where t: "pred_option (\<lambda>w. w \<noteq> [] \<and> list_all digit w) q" "pred_option (\<lambda>c. c \<in> set ''aj'') u"
      "w = tail_wire (TPage q u)" "g = tail_groups (TPage q u)" "s = w @ r"
      unfolding tail_ok_iff by blast
    let ?u = "(case u of None \<Rightarrow> [] | Some c \<Rightarrow> '';src:'' @ [c])"
    from t(1,3,5) have "((case q of None \<Rightarrow> [] | Some w \<Rightarrow> '';page:'' @ w), (case q of None \<Rightarrow> [] | Some w \<Rightarrow> [(''page'', w)]), ?u @ r)
        \<in> set (matches ?p s)" unfolding page by (intro exI [of _ q]) simp
    moreover from t(2) have "(?u, (case u of None \<Rightarrow> [] | Some c \<Rightarrow> [(''source'', [c])]), r) \<in> set (matches ?s (?u @ r))"
      unfolding src by (intro exI [of _ u]) simp
    ultimately show "\<exists>w1 g1 s1 w2 g2. (w1, g1, s1) \<in> set (matches ?p s) \<and> (w2, g2, r) \<in> set (matches ?s s1) \<and> w = w1 @ w2 \<and> g = g1 @ g2"
      unfolding t(3,4) tail_wire.simps tail_groups.simps by blast
  qed
next
  case (Dated d)
  have "takes (Then (repeat_rx 4 digit) (Then (Lit ''-'') (Then (repeat_rx 2 digit) (Then (Lit ''-'') (repeat_rx 2 digit))))) date_shape"
    unfolding takes_def date_rx by simp
  then show ?thesis unfolding Dated suffix_pattern_def suffix.simps tail_ok_iff by (intro tail_named [OF named_mem]) simp_all
next
  case (Coded c)
  show ?thesis unfolding Coded suffix_pattern_def suffix.simps tail_ok_iff by (rule tail_named [OF named_mem [OF takes_basic(2)]]) simp_all
next
  case (Granted l)
  show ?thesis unfolding Granted suffix_pattern_def suffix.simps tail_ok_iff by (rule tail_named [OF named_mem [OF takes_basic(2)]]) simp_all
next
  case (Of_Meeting m)
  show ?thesis unfolding Of_Meeting suffix_pattern_def suffix.simps tail_ok_iff by (rule tail_named [OF named_mem [OF takes_basic(2)]]) simp_all
qed (auto simp: suffix_pattern_def tail_ok_iff)

definition base_wire :: "string \<Rightarrow> string \<Rightarrow> string \<Rightarrow> (char \<times> string) option \<Rightarrow> string" where
  "base_wire a e i v = a @ '';'' @ e @ '':'' @ i @ back_wire v"

definition back_ok :: "(char \<times> string) option \<Rightarrow> bool" where
  "back_ok = pred_option (\<lambda>(t, b). t = CHR ''e'' \<and> list_all digit b)"

lemma seq_mem:
  "(w, g, r) \<in> set (matches (Then (Named n (Alts ws)) p) s) \<longleftrightarrow>
     (\<exists>a w' g'. a \<in> set ws \<and> w = a @ w' \<and> g = (n, a) # g' \<and> (\<exists>s'. s = a @ s' \<and> (w', g', r) \<in> set (matches p s')))"
  "(w, g, r) \<in> set (matches (Then (Named n (Star q)) p) s) \<longleftrightarrow>
     (\<exists>a w' g'. list_all q a \<and> w = a @ w' \<and> g = (n, a) # g' \<and> (\<exists>s'. s = a @ s' \<and> (w', g', r) \<in> set (matches p s')))"
  "(w, g, r) \<in> set (matches (Then (Lit l) p) s) \<longleftrightarrow>
     (\<exists>w'. w = l @ w' \<and> (\<exists>s'. s = l @ s' \<and> (w', g, r) \<in> set (matches p s')))"
  by auto

lemma seq_intro:
  "a \<in> set ws \<Longrightarrow> (w', g', r) \<in> set (matches p s') \<Longrightarrow> (a @ w', (n, a) # g', r) \<in> set (matches (Then (Named n (Alts ws)) p) (a @ s'))"
  "list_all q a \<Longrightarrow> (w', g', r) \<in> set (matches p s') \<Longrightarrow> (a @ w', (n, a) # g', r) \<in> set (matches (Then (Named n (Star q)) p) (a @ s'))"
  "(w', g', r) \<in> set (matches p s') \<Longrightarrow> (l @ w', g', r) \<in> set (matches (Then (Lit l) p) (l @ s'))"
  unfolding seq_mem by blast+

definition back_pattern :: rx where
  "back_pattern = Opt (Then (Lit '';back:'') (Then (Named ''back'' (One (\<lambda>t. t = CHR ''e''))) (Named ''back_id'' (Star digit))))"

lemma back_matches:
  "(w, g, r) \<in> set (matches back_pattern s) \<longleftrightarrow> (\<exists>v. back_ok v \<and> w = back_wire v \<and> g = back_groups v \<and> s = w @ r)" (is "?L \<longleftrightarrow> (\<exists>v. ?R v)")
proof -
  have "?L \<longleftrightarrow> ?R None \<or> (\<exists>t b. ?R (Some (t, b)))" by (auto simp: back_ok_def back_pattern_def)
  then show ?thesis by (metis option.exhaust surj_pair)
qed

lemma base_matches:
  "(w, g, r) \<in> set (matches (base_pattern d) s) \<longleftrightarrow>
     (\<exists>a e i v. a \<in> set (actions_of d) \<and> e \<in> set (entities_of d) \<and> list_all digit i \<and> back_ok v \<and>
        w = base_wire a e i v \<and> g = [(''action'', a), (''entity'', e), (''id'', i)] @ back_groups v \<and> s = w @ r)"
  unfolding base_pattern_def back_pattern_def [symmetric]
proof (rule iffI, goal_cases)
  case 1
  then obtain a e i v where "a \<in> set (actions_of d)" "e \<in> set (entities_of d)" "list_all digit i" "back_ok v"
    "w = a @ '';'' @ e @ '':'' @ i @ back_wire v" "g = [(''action'', a), (''entity'', e), (''id'', i)] @ back_groups v" "s = w @ r"
    unfolding seq_mem back_matches by (elim exE conjE) (simp del: set_uniq)
  then show ?case unfolding base_wire_def by blast
next
  case 2
  then obtain a e i v where p: "a \<in> set (actions_of d)" "e \<in> set (entities_of d)" "list_all digit i" "back_ok v"
    and eq: "w = a @ '';'' @ e @ '':'' @ i @ back_wire v" "g = (''action'', a) # (''entity'', e) # (''id'', i) # back_groups v"
      "s = a @ '';'' @ e @ '':'' @ i @ back_wire v @ r"
    unfolding base_wire_def by auto
  from p(4) have "(back_wire v, back_groups v, r) \<in> set (matches back_pattern (back_wire v @ r))"
    unfolding back_matches by blast
  then show ?case unfolding eq by (intro seq_intro p)
qed

text \<open>All ways a pattern can match, and the groups it fills.\<close>

definition raw_of :: "string \<Rightarrow> string \<Rightarrow> string \<Rightarrow> (char \<times> string) option \<Rightarrow> raw_tail \<Rightarrow> raw" where
  "raw_of a e i v t = \<lparr>raw_action = a, raw_entity = e, raw_id = i, raw_back = v, raw_tail = t\<rparr>"

lemma pattern_matches:
  "(w, g, r) \<in> set (matches (pattern_body d) s) \<longleftrightarrow> (\<exists>x. raw_ok d x \<and> w = raw_wire x \<and> g = raw_groups x \<and> s = w @ r)"
proof (rule iffI)
  assume "(w, g, r) \<in> set (matches (pattern_body d) s)"
  then obtain a e i v t where p: "a \<in> set (actions_of d)" "e \<in> set (entities_of d)" "list_all digit i" "back_ok v" "tail_ok (suffix d) t"
    and eq: "w = base_wire a e i v @ tail_wire t" "g = ([(''action'', a), (''entity'', e), (''id'', i)] @ back_groups v) @ tail_groups t" "s = w @ r"
    unfolding pattern_body_def Then_mem base_matches tail_matches by auto
  then have "raw_ok d (raw_of a e i v t)" "w = raw_wire (raw_of a e i v t)" "g = raw_groups (raw_of a e i v t)"
    by (simp_all add: raw_ok_def raw_of_def raw_wire_def raw_groups_def base_wire_def back_ok_def)
  with eq(3) show "\<exists>x. raw_ok d x \<and> w = raw_wire x \<and> g = raw_groups x \<and> s = w @ r" by blast
next
  assume "\<exists>x. raw_ok d x \<and> w = raw_wire x \<and> g = raw_groups x \<and> s = w @ r"
  then obtain x where x: "raw_ok d x" "w = raw_wire x" "g = raw_groups x" "s = w @ r" by blast
  let ?b = "base_wire (raw_action x) (raw_entity x) (raw_id x) (raw_back x)"
  let ?g = "[(''action'', raw_action x), (''entity'', raw_entity x), (''id'', raw_id x)] @ back_groups (raw_back x)"
  have "(?b, ?g, tail_wire (raw_tail x) @ r) \<in> set (matches (base_pattern d) s)"
    unfolding base_matches using x by (auto simp: raw_ok_def raw_wire_def base_wire_def back_ok_def)
  moreover have "(tail_wire (raw_tail x), tail_groups (raw_tail x), r) \<in> set (matches (suffix_pattern (suffix d)) (tail_wire (raw_tail x) @ r))"
    unfolding tail_matches using x(1) by (auto simp: raw_ok_def)
  moreover have "w = ?b @ tail_wire (raw_tail x)" "g = ?g @ tail_groups (raw_tail x)"
    using x(2,3) by (simp_all add: raw_wire_def raw_groups_def base_wire_def)
  ultimately show "(w, g, r) \<in> set (matches (pattern_body d) s)" unfolding pattern_body_def Then_mem by blast
qed

section \<open>One reading only\<close>

definition words_ok :: "callback \<Rightarrow> bool" where
  "words_ok d \<longleftrightarrow> list_all (\<lambda>a. CHR '';'' \<notin> set a) (actions_of d) \<and> list_all (\<lambda>e. CHR '':'' \<notin> set e) (entities_of d)"

lemma chars [simp]: "\<not> digit (CHR 0x0A)" "\<not> digit (CHR '';'')" "\<not> digit (CHR '':'')" "\<not> code_char (CHR 0x0A)"
  by code_simp+

lemma at_end_starts [simp]: "at_end r \<Longrightarrow> \<not> starts digit r" "at_end r \<Longrightarrow> \<not> starts code_char r"
  by (auto simp: at_end_def newline_def)

lemma tail_not_digit: "tail_ok sf t \<Longrightarrow> at_end r \<Longrightarrow> \<not> starts digit (tail_wire t @ r)"
  by (cases t) (auto split: option.split)

lemma tail_not_back: "tail_ok sf t \<Longrightarrow> at_end r \<Longrightarrow> tail_wire t @ r \<noteq> '';back:'' @ x"
  by (cases t) (auto simp: at_end_def newline_def split: option.split)

lemma span_end:
  assumes "a @ r = b @ r'" "list_all digit a" "list_all digit b" "at_end r" "at_end r'"
  shows "a = b \<and> r = r'"
  using assms spanned [of digit a b r r'] by simp

lemma span_code:
  assumes "a @ r = b @ r'" "list_all code_char a" "list_all code_char b" "at_end r" "at_end r'"
  shows "a = b \<and> r = r'"
  using assms spanned [of code_char a b r r'] by simp

lemma date_shape_length: "date_shape w \<Longrightarrow> length w = 10"
  by (auto simp: date_shape_def)

lemma tail_unique:
  assumes eq: "tail_wire t @ r = tail_wire t' @ r'" and ok: "tail_ok sf t" "tail_ok sf t'" and e: "at_end r" "at_end r'"
  shows "t = t' \<and> r = r'"
proof (cases sf)
  case Plain
  with ok eq show ?thesis by (auto simp: tail_ok_iff)
next
  case (Dated d)
  with ok obtain w w' where t: "t = TDate w" "t' = TDate w'" "date_shape w" "date_shape w'" by (auto simp: tail_ok_iff)
  with date_shape_length [OF t(3)] date_shape_length [OF t(4)] eq show ?thesis by simp
next
  case (Coded c)
  with ok obtain w w' where t: "t = TCode w" "t' = TCode w'" "list_all code_char w" "list_all code_char w'" by (auto simp: tail_ok_iff)
  with eq span_code [of w r w' r'] e show ?thesis by simp
next
  case (Granted l)
  with ok obtain w w' where t: "t = TLevel w" "t' = TLevel w'" "list_all digit w" "list_all digit w'" by (auto simp: tail_ok_iff)
  with eq span_end [of w r w' r'] e show ?thesis by simp
next
  case (Of_Meeting m)
  with ok obtain w w' where t: "t = TMeeting w" "t' = TMeeting w'" "list_all digit w" "list_all digit w'" by (auto simp: tail_ok_iff)
  with eq span_end [of w r w' r'] e show ?thesis by simp
next
  case (Paged p src)
  with ok obtain q u q' u' where t: "t = TPage q u" "t' = TPage q' u'" "pred_option (\<lambda>w. w \<noteq> [] \<and> list_all digit w) q"
    "pred_option (\<lambda>w. w \<noteq> [] \<and> list_all digit w) q'" by (auto simp: tail_ok_iff)
  let ?x = "\<lambda>u. (case u of None \<Rightarrow> [] | Some c \<Rightarrow> '';src:'' @ [c])"
  have x: "?x u @ r = ?x u' @ r' \<Longrightarrow> u = u' \<and> r = r'"
    using e by (auto simp: at_end_def newline_def split: option.splits)
  have start: "\<not> starts digit (?x u @ r)" "\<not> starts digit (?x u' @ r')"
    using e by (auto split: option.split)
  show ?thesis
  proof (cases "q = None \<or> q' = None")
    case True
    with eq have "q = q'" "?x u @ r = ?x u' @ r'"
      using e by (auto simp: t at_end_def newline_def split: option.splits)
    with x show ?thesis by (simp add: t)
  next
    case False
    then obtain w w' where w: "q = Some w" "q' = Some w'" by auto
    with eq have "w @ ?x u @ r = w' @ ?x u' @ r'" by (simp add: t)
    with spanned [of digit w w' "?x u @ r" "?x u' @ r'"] start t(3,4) w have "w = w'" "?x u @ r = ?x u' @ r'" by simp_all
    with x show ?thesis by (simp add: t w)
  qed
qed

lemma raw_ok_words:
  assumes "raw_ok d x" "words_ok d"
  shows "CHR '';'' \<notin> set (raw_action x)" "CHR '':'' \<notin> set (raw_entity x)"
  using assms by (auto simp: raw_ok_def words_ok_def list_all_iff)

lemma back_not_digit: "\<not> starts digit y \<Longrightarrow> \<not> starts digit (back_wire v @ y)"
  by (cases v) auto

text \<open>The part in front of the suffix is read in one way, whatever the two declarations are.\<close>

lemma head_unique:
  assumes eq: "raw_wire x @ r = raw_wire x' @ r'" and ok: "raw_ok d x" "raw_ok d' x'" "words_ok d" "words_ok d'"
    and e: "at_end r" "at_end r'"
  shows "raw_action x = raw_action x' \<and> raw_entity x = raw_entity x' \<and> raw_id x = raw_id x' \<and> raw_back x = raw_back x' \<and>
    tail_wire (raw_tail x) @ r = tail_wire (raw_tail x') @ r'"
proof -
  let ?T = "tail_wire (raw_tail x) @ r" and ?T' = "tail_wire (raw_tail x') @ r'"
  note words = raw_ok_words [OF ok(1,3)] raw_ok_words [OF ok(2,4)]
  have parts: "list_all digit (raw_id x)" "list_all digit (raw_id x')" "tail_ok (suffix d) (raw_tail x)" "tail_ok (suffix d') (raw_tail x')"
    "back_ok (raw_back x)" "back_ok (raw_back x')" using ok by (simp_all add: raw_ok_def back_ok_def)
  have T: "\<not> starts digit ?T" "\<not> starts digit ?T'" using tail_not_digit parts e by blast+
  from eq have "raw_action x @ CHR '';'' # (raw_entity x @ '':'' @ raw_id x @ back_wire (raw_back x) @ ?T) =
      raw_action x' @ CHR '';'' # (raw_entity x' @ '':'' @ raw_id x' @ back_wire (raw_back x') @ ?T')"
    by (simp add: raw_wire_def)
  then have a: "raw_action x = raw_action x'" and
    "raw_entity x @ CHR '':'' # (raw_id x @ back_wire (raw_back x) @ ?T) = raw_entity x' @ CHR '':'' # (raw_id x' @ back_wire (raw_back x') @ ?T')"
    unfolding delimited [OF words(1,3)] by simp_all
  then have en: "raw_entity x = raw_entity x'" and
    i: "raw_id x @ back_wire (raw_back x) @ ?T = raw_id x' @ back_wire (raw_back x') @ ?T'"
    unfolding delimited [OF words(2,4)] by simp_all
  from i have i: "raw_id x = raw_id x'" and b: "back_wire (raw_back x) @ ?T = back_wire (raw_back x') @ ?T'"
    using spanned [OF parts(1,2) back_not_digit [OF T(1)] back_not_digit [OF T(2)]] by blast+
  have bt: "raw_back x = raw_back x' \<and> ?T = ?T'"
  proof (cases "raw_back x")
    case None
    have "raw_back x' = None"
    proof (rule ccontr)
      assume "raw_back x' \<noteq> None"
      then obtain t' c' where "raw_back x' = Some (t', c')" by auto
      with b None tail_not_back [OF parts(3) e(1), of "t' # c' @ ?T'"] show False by simp
    qed
    with None b show ?thesis by simp
  next
    case (Some p)
    then obtain t c where p: "raw_back x = Some (t, c)" by (cases p) auto
    have "raw_back x' \<noteq> None"
    proof
      assume "raw_back x' = None"
      with b p tail_not_back [OF parts(4) e(2), of "t # c @ ?T"] show False by simp
    qed
    then obtain t' c' where p': "raw_back x' = Some (t', c')" by auto
    from b p p' have t: "t = t'" and c: "c @ ?T = c' @ ?T'" by simp_all
    have "list_all digit c" "list_all digit c'" using parts(5,6) p p' by (simp_all add: back_ok_def)
    from c [unfolded spanned [OF this T]] t p p' show ?thesis by simp
  qed
  show ?thesis by (intro conjI a en i bt [THEN conjunct1] bt [THEN conjunct2])
qed

lemma pattern_unique:
  assumes "raw_ok d x" "words_ok d" "at_end r"
  shows "re_match (pattern_body d) (raw_wire x @ r) = Some (raw_groups x)"
proof (rule re_match_unique)
  show "(raw_wire x, raw_groups x, r) \<in> set (matches (pattern_body d) (raw_wire x @ r))"
    unfolding pattern_matches using assms(1) by blast
  show "at_end r" by (fact assms(3))
next
  fix w' g' r'
  assume "(w', g', r') \<in> set (matches (pattern_body d) (raw_wire x @ r))" "at_end r'"
  then obtain x' where x': "raw_ok d x'" "g' = raw_groups x'" "raw_wire x @ r = raw_wire x' @ r'" unfolding pattern_matches by blast
  from head_unique [OF x'(3) assms(1) x'(1) assms(2,2,3) \<open>at_end r'\<close>] tail_unique [of "raw_tail x" r "raw_tail x'" r' "suffix d"]
    assms x'(1) \<open>at_end r'\<close>
  have "x = x'" by (simp add: raw_ok_def)
  with x'(2) show "g' = raw_groups x" by simp
qed

lemma accepts_iff: "accepts d s \<longleftrightarrow> (\<exists>x r. raw_ok d x \<and> at_end r \<and> s = raw_wire x @ r)" if "words_ok d"
proof
  assume "accepts d s"
  then obtain g where "re_match (pattern_body d) s = Some g" by (auto simp: accepts_def)
  from re_match_Some [OF this] show "\<exists>x r. raw_ok d x \<and> at_end r \<and> s = raw_wire x @ r"
    unfolding pattern_matches by blast
next
  assume "\<exists>x r. raw_ok d x \<and> at_end r \<and> s = raw_wire x @ r"
  with pattern_unique that show "accepts d s" by (auto simp: accepts_def)
qed

section \<open>Round trips\<close>

lemma pred_option_unfold [code_unfold]: "pred_option P x = (case x of None \<Rightarrow> True | Some y \<Rightarrow> P y)"
  by (cases x) simp_all

definition nonneg :: "int option \<Rightarrow> bool" where
  "nonneg = pred_option (\<lambda>n. 0 \<le> n)"

fun suffix_ok :: "suffix \<Rightarrow> bool" where
  "suffix_ok Plain = True"
| "suffix_ok (Dated d) = (case d of None \<Rightarrow> False | Some x \<Rightarrow> valid_date x)"
| "suffix_ok (Coded c) = pred_option (\<lambda>w. w \<noteq> [] \<and> list_all code_char w) c"
| "suffix_ok (Paged p src) = pred_option (\<lambda>n. 1 \<le> n) p"
| "suffix_ok (Granted l) = nonneg l"
| "suffix_ok (Of_Meeting m) = nonneg m"

text \<open>What the model guarantees of a callback that passed its validation.\<close>

definition fields_ok :: "callback \<Rightarrow> bool" where
  "fields_ok c \<longleftrightarrow> nonneg (cb_id c) \<and> nonneg (cb_back_id c) \<and> (cb_back c = None \<longrightarrow> cb_back_id c = None) \<and> suffix_ok (suffix c)"

text \<open>Two values are rendered as something else: a meeting id 0, and a year that \<open>strftime\<close> does not pad.\<close>

definition plainly_rendered :: "callback \<Rightarrow> bool" where
  "plainly_rendered c \<longleftrightarrow>
     (case suffix c of Of_Meeting m \<Rightarrow> m \<noteq> Some 0 | Dated (Some (y, m, d)) \<Rightarrow> 1000 \<le> y | _ \<Rightarrow> True)"

fun same_class :: "suffix \<Rightarrow> suffix \<Rightarrow> bool" where
  "same_class Plain Plain = True"
| "same_class (Dated _) (Dated _) = True"
| "same_class (Coded _) (Coded _) = True"
| "same_class (Paged _ _) (Paged _ _) = True"
| "same_class (Granted _) (Granted _) = True"
| "same_class (Of_Meeting _) (Of_Meeting _) = True"
| "same_class _ _ = False"

definition declares :: "callback \<Rightarrow> callback \<Rightarrow> bool" where
  "declares d c \<longleftrightarrow> action c \<in> set (actions_of d) \<and> entity c \<in> set (entities_of d) \<and> same_class (suffix d) (suffix c)"

fun tail_from :: "suffix \<Rightarrow> raw_tail" where
  "tail_from Plain = TPlain"
| "tail_from (Dated d) = TDate (case d of None \<Rightarrow> [] | Some x \<Rightarrow> str_date x)"
| "tail_from (Coded c) = TCode (case c of None \<Rightarrow> [] | Some w \<Rightarrow> w)"
| "tail_from (Paged p src) = TPage (map_option str_int p) (map_option source_value src)"
| "tail_from (Granted l) = TLevel (opt_str l)"
| "tail_from (Of_Meeting m) = TMeeting (if m = Some 0 then [] else opt_str m)"

definition raw_from :: "callback \<Rightarrow> raw" where
  "raw_from c = raw_of (action c) (entity c) (opt_str (cb_id c))
     (map_option (\<lambda>t. (target_value t, opt_str (cb_back_id c))) (cb_back c)) (tail_from (suffix c))"

lemma str_int_ok [simp]: "0 \<le> n \<Longrightarrow> list_all digit (str_int n)" "0 \<le> n \<Longrightarrow> str_int n \<noteq> []" "0 \<le> n \<Longrightarrow> of_digits (str_int n) = nat n"
  by (simp_all add: str_int_def)

lemma opt_str_ok: "nonneg i \<Longrightarrow> list_all digit (opt_str i)"
  by (auto simp: nonneg_def opt_str_def split: option.split)

lemma opt_str_back:
  "nonneg i \<Longrightarrow> (let w = opt_str i in if w = [] then None else Some (int (of_digits w))) = i"
  by (auto simp: nonneg_def opt_str_def Let_def split: option.split)

lemma render_raw:
  assumes "fields_ok c"
  shows "cb_str c = Inr (raw_wire (raw_from c))"
proof -
  have "suffix_str (suffix c) = Inr (tail_wire (tail_from (suffix c)))"
    using assms by (cases "suffix c") (auto simp: fields_ok_def suffix_str_def split: option.splits)
  then show ?thesis
    by (auto simp: cb_str_def raw_from_def raw_of_def raw_wire_def base_str_def split: option.split)
qed

lemma source_round [simp]: "source_of (source_value l) = Some l" "source_value l \<in> set ''aj''"
  by (cases l; simp add: source_of_def)+

lemma target_round [simp]: "target_of (target_value t) = Some t" "target_value t = CHR ''e''"
  by (cases t; simp add: target_of_def)+

lemma str_date_shape: "wire_date d \<Longrightarrow> date_shape (str_date d)"
proof -
  assume w: "wire_date d"
  obtain y m k where d: "d = (y, m, k)" by (cases d) auto
  from wire_date_parts [OF w [unfolded d]] show "date_shape (str_date d)"
    unfolding date_shape_def d str_date.simps by (intro exI conjI) (simp_all only: list_all_append digits_of_ok pad2_ok refl simp_thms)
qed

lemma same_class_iff:
  "same_class sf Plain \<longleftrightarrow> sf = Plain"
  "same_class sf (Dated d) \<longleftrightarrow> (\<exists>d'. sf = Dated d')"
  "same_class sf (Coded c) \<longleftrightarrow> (\<exists>c'. sf = Coded c')"
  "same_class sf (Paged p src) \<longleftrightarrow> (\<exists>p' src'. sf = Paged p' src')"
  "same_class sf (Granted l) \<longleftrightarrow> (\<exists>l'. sf = Granted l')"
  "same_class sf (Of_Meeting m) \<longleftrightarrow> (\<exists>m'. sf = Of_Meeting m')"
  by (cases sf; simp)+

lemma tail_from_ok:
  assumes ok: "suffix_ok s" "same_class sf s" "case s of Dated (Some (y, m, d)) \<Rightarrow> 1000 \<le> y | _ \<Rightarrow> True"
  shows "tail_ok sf (tail_from s)"
proof (cases s)
  case Plain
  with ok show ?thesis by (simp add: same_class_iff)
next
  case (Dated d)
  with ok obtain x where x: "d = Some x" "wire_date x" by (auto simp: wire_date_def split: option.splits)
  with Dated ok(2) str_date_shape [OF x(2)] show ?thesis by (auto simp: same_class_iff)
next
  case (Coded c)
  with ok show ?thesis by (cases c) (auto simp: same_class_iff)
next
  case (Paged p src)
  with ok show ?thesis by (cases p; cases src) (auto simp: same_class_iff simp del: set_simps)
next
  case (Granted l)
  with ok show ?thesis by (auto simp: same_class_iff opt_str_ok)
next
  case (Of_Meeting m)
  with ok show ?thesis by (auto simp: same_class_iff opt_str_ok)
qed

lemma raw_from_ok:
  assumes "fields_ok c" "declares d c" "plainly_rendered c"
  shows "raw_ok d (raw_from c)"
  using assms tail_from_ok [of "suffix c" "suffix d"]
  by (auto simp: raw_ok_def raw_from_def raw_of_def fields_ok_def declares_def plainly_rendered_def opt_str_ok option.pred_set
      split: suffix.splits option.splits)

lemma groups_lookup:
  "map_of (raw_groups x) ''action'' = Some (raw_action x)" "map_of (raw_groups x) ''entity'' = Some (raw_entity x)"
  "map_of (raw_groups x) ''id'' = Some (raw_id x)"
  "map_of (raw_groups x) ''back'' = map_option (\<lambda>p. [fst p]) (raw_back x)"
  "map_of (raw_groups x) ''back_id'' = map_option snd (raw_back x)"
proof -
  have t: "map_of (tail_groups t) ''back'' = None" "map_of (tail_groups t) ''back_id'' = None" for t
    by (cases t; simp split: option.split)+
  show "map_of (raw_groups x) ''back'' = map_option (\<lambda>p. [fst p]) (raw_back x)"
    "map_of (raw_groups x) ''back_id'' = map_option snd (raw_back x)"
    by (cases "raw_back x"; auto simp: raw_groups_def t)+
qed (simp_all add: raw_groups_def)

lemma groups_tail:
  "n \<notin> {''action'', ''entity'', ''id'', ''back'', ''back_id''} \<Longrightarrow> map_of (raw_groups x) n = map_of (tail_groups (raw_tail x)) n"
proof -
  assume n: "n \<notin> {''action'', ''entity'', ''id'', ''back'', ''back_id''}"
  have "map_of (back_groups v @ ts) n = map_of ts n" for v ts
  proof (cases v)
    case (Some p)
    with n show ?thesis by (cases p) simp
  qed simp
  with n show "map_of (raw_groups x) n = map_of (tail_groups (raw_tail x)) n" unfolding raw_groups_def by simp
qed

text \<open>What validating the groups of a match gives.\<close>

definition int_text :: "string \<Rightarrow> int option" where
  "int_text w = (if w = [] then None else Some (int (of_digits w)))"

fun suffix_from :: "raw_tail \<Rightarrow> callback_error + suffix" where
  "suffix_from TPlain = Inr Plain"
| "suffix_from (TDate w) = (case date_of w of None \<Rightarrow> Inl ValidationError | Some d \<Rightarrow> Inr (Dated (Some d)))"
| "suffix_from (TCode w) = Inr (Coded (if w = [] then None else Some w))"
| "suffix_from (TPage p s) =
     (let n = Option.bind p int_text in if n = Some 0 then Inl ValidationError else Inr (Paged n (Option.bind s source_of)))"
| "suffix_from (TLevel w) = Inr (Granted (int_text w))"
| "suffix_from (TMeeting w) = Inr (Of_Meeting (int_text w))"

lemma suffix_fields_raw:
  assumes "tail_ok sf (raw_tail x)"
  shows "suffix_fields sf (raw_groups x) = suffix_from (raw_tail x)"
proof (cases sf)
  case Plain
  with assms show ?thesis by (simp add: tail_ok_iff suffix_fields_def)
next
  case (Dated d)
  with assms obtain w where "raw_tail x = TDate w" by (auto simp: tail_ok_iff)
  with Dated show ?thesis by (simp add: suffix_fields_def groups_tail)
next
  case (Coded c)
  with assms obtain w where "raw_tail x = TCode w" by (auto simp: tail_ok_iff)
  with Coded show ?thesis by (simp add: suffix_fields_def groups_tail)
next
  case (Granted l)
  with assms obtain w where "raw_tail x = TLevel w" by (auto simp: tail_ok_iff)
  with Granted show ?thesis by (simp add: suffix_fields_def groups_tail int_field_def int_text_def)
next
  case (Of_Meeting m)
  with assms obtain w where "raw_tail x = TMeeting w" by (auto simp: tail_ok_iff)
  with Of_Meeting show ?thesis by (simp add: suffix_fields_def groups_tail int_field_def int_text_def)
next
  case (Paged p src)
  with assms obtain q u where t: "raw_tail x = TPage q u" "pred_option (\<lambda>c. c \<in> set ''aj'') u" by (auto simp: tail_ok_iff)
  have page: "int_field (raw_groups x) ''page'' = Option.bind q int_text"
    by (cases q; cases u) (simp_all add: int_field_def groups_tail t(1) int_text_def)
  have "\<forall>c \<in> set ''aj''. source_of c \<noteq> None" by code_simp
  then have "char_field source_of (raw_groups x) ''source'' = Inr (Option.bind u source_of)"
    using t(2) by (cases q; cases u) (auto simp: char_field_def groups_tail t(1) split: option.split)
  with Paged t(1) page show ?thesis by (simp add: suffix_fields_def Let_def)
qed

definition read_back :: "raw \<Rightarrow> suffix \<Rightarrow> callback" where
  "read_back x s = \<lparr>entity = raw_entity x, action = raw_action x, cb_id = int_text (raw_id x), aliases = [],
     cb_back = map_option (\<lambda>_. MEETING_EDITOR) (raw_back x), cb_back_id = Option.bind (raw_back x) (\<lambda>p. int_text (snd p)), suffix = s\<rparr>"

lemma receive_raw:
  assumes "raw_ok d x" "words_ok d" "at_end r"
  shows "receive d (raw_wire x @ r) = bind_result (suffix_from (raw_tail x)) (\<lambda>s. Inr (read_back x s))"
proof -
  have target: "char_field target_of (raw_groups x) ''back'' = Inr (map_option (\<lambda>_. MEETING_EDITOR) (raw_back x))"
    using assms(1) by (cases "raw_back x") (auto simp: char_field_def groups_lookup raw_ok_def target_of_def)
  have "int_field (raw_groups x) ''back_id'' = Option.bind (raw_back x) (\<lambda>p. int_text (snd p))"
    by (cases "raw_back x") (simp_all add: int_field_def groups_lookup int_text_def)
  moreover have "int_field (raw_groups x) ''id'' = int_text (raw_id x)"
    by (simp add: int_field_def groups_lookup int_text_def)
  moreover have "suffix_fields (suffix d) (raw_groups x) = suffix_from (raw_tail x)"
    using suffix_fields_raw assms(1) by (simp add: raw_ok_def)
  ultimately show ?thesis
    by (cases "suffix_from (raw_tail x)")
      (simp_all add: receive_def pattern_unique [OF assms] parse_def model_validate_def groups_lookup target read_back_def)
qed

lemma int_text_opt: "nonneg i \<Longrightarrow> int_text (opt_str i) = i"
  using opt_str_back [of i] by (simp add: int_text_def Let_def)

lemma suffix_from_tail:
  assumes "suffix_ok s" "case s of Of_Meeting m \<Rightarrow> m \<noteq> Some 0 | Dated (Some (y, m, d)) \<Rightarrow> 1000 \<le> y | _ \<Rightarrow> True"
  shows "suffix_from (tail_from s) = Inr s"
proof (cases s)
  case (Dated d)
  with assms obtain x where x: "d = Some x" "wire_date x" by (auto simp: wire_date_def split: option.splits)
  with Dated date_of_str [OF x(2)] show ?thesis by simp
next
  case (Paged p src)
  with assms(1) show ?thesis by (cases p; cases src) (auto simp: int_text_def)
qed (use assms in \<open>auto simp: int_text_opt split: option.splits\<close>)

lemma one_target: "(MEETING_EDITOR = t) = True"
  by (cases t) simp

lemma callback_wire:
  assumes "fields_ok c" "plainly_rendered c" "declares d c" "words_ok d"
  shows "\<exists>s. cb_str c = Inr s \<and> accepts d s \<and> receive d s = Inr (c\<lparr>aliases := []\<rparr>)"
proof (intro exI conjI)
  have ok: "raw_ok d (raw_from c)" by (rule raw_from_ok [OF assms(1,3,2)])
  have e: "at_end []" by (simp add: at_end_def)
  show "cb_str c = Inr (raw_wire (raw_from c))" by (rule render_raw [OF assms(1)])
  show "accepts d (raw_wire (raw_from c))"
    unfolding accepts_iff [OF assms(4)] using ok e by (metis append_Nil2)
  have "suffix_from (tail_from (suffix c)) = Inr (suffix c)"
    using assms(1,2) by (intro suffix_from_tail) (auto simp: fields_ok_def plainly_rendered_def split: suffix.splits)
  moreover have "read_back (raw_from c) (suffix c) = c\<lparr>aliases := []\<rparr>"
    using assms(1) by (cases c; cases "cb_back c") (auto simp: read_back_def raw_from_def raw_of_def fields_ok_def int_text_opt one_target)
  ultimately show "receive d (raw_wire (raw_from c)) = Inr (c\<lparr>aliases := []\<rparr>)"
    using receive_raw [OF ok assms(4) e] by (simp add: raw_from_def raw_of_def)
qed

text \<open>C30. A button's callback survives the trip through Telegram. Whatever callback a handler builds (with non-negative
  ids, a page from 1, a code of the alphabet, a meeting id other than 0 and a year from 1000), its text matches the pattern
  of the declaration it belongs to, in its primary or a retired form, and the handler reads the same callback back, without
  the table of retired forms.\<close>

theorem callback_round_trip:
  assumes "fields_ok c" "plainly_rendered c" "declares d c" "words_ok d"
  shows "\<exists>s. cb_str c = Inr s \<and> accepts d s \<and> receive d s = Inr (c\<lparr>aliases := []\<rparr>)"
  using callback_wire [OF assms] .

text \<open>What was read from a wire is well formed, and reading is idempotent: its own text is read as the same callback again.\<close>

lemma int_text_nonneg: "nonneg (int_text w)"
  by (simp add: nonneg_def int_text_def)

lemma suffix_from_ok:
  assumes "tail_ok sf t" "suffix_from t = Inr s"
  shows "suffix_ok s \<and> same_class sf s"
proof (cases sf)
  case (Dated d)
  with assms show ?thesis by (auto simp: tail_ok_iff date_of_def Let_def split: option.splits if_splits)
next
  case (Paged p src)
  with assms obtain q u where t: "t = TPage q u" by (auto simp: tail_ok_iff)
  have "nonneg (Option.bind q int_text)" by (cases q) (simp_all add: int_text_nonneg, simp add: nonneg_def)
  with assms(2) Paged show ?thesis by (cases "Option.bind q int_text") (auto simp: t nonneg_def Let_def split: if_splits)
qed (use assms int_text_nonneg in \<open>auto simp: tail_ok_iff\<close>)

text \<open>C32. What a handler reads is well typed. A string the pattern accepts either fails validation (a date that does not
  exist, a page 0) or gives a callback of the declaration: one of its actions and entities, its class, no negative id or
  rank, a page from 1, an existing date, a non-empty code of the alphabet and an origin id only with an origin. Reading its
  own text gives it again when it is rendered plainly, that is unless it has the meeting id 0 or a date in a year below
  1000 (\<open>zero_meeting_not_read_back\<close> shows the id lost). A string the pattern does not accept gives a callback that is
  malformed.\<close>

theorem received_callback_typed:
  assumes "words_ok d" "receive d s = Inr c"
  shows "(accepts d s \<longrightarrow> declares d c \<and> fields_ok c \<and> aliases c = [] \<and>
            (plainly_rendered c \<longrightarrow> (\<exists>w. cb_str c = Inr w \<and> receive d w = Inr c))) \<and>
         (\<not> accepts d s \<longrightarrow> is_malformed c)"
proof (intro conjI impI)
  assume "\<not> accepts d s"
  then have "model_validate d [(''entity'', UNKNOWN_ENTITY)] = Inr c" using assms(2) by (simp add: receive_def accepts_def parse_def)
  then have "entity c = UNKNOWN_ENTITY"
    by (auto simp: model_validate_def char_field_def bind_result_Inr_iff)
  then show "is_malformed c" by (simp add: is_malformed_def unknown_def split: suffix.split)
next
  assume "accepts d s"
  then obtain x r where x: "raw_ok d x" "at_end r" "s = raw_wire x @ r" unfolding accepts_iff [OF assms(1)] by blast
  from receive_raw [OF x(1) assms(1) x(2)] assms(2) x(3)
  obtain t where t: "suffix_from (raw_tail x) = Inr t" and c: "c = read_back x t" by (auto simp: bind_result_Inr_iff)
  have "tail_ok (suffix d) (raw_tail x)" using x(1) by (simp add: raw_ok_def)
  from suffix_from_ok [OF this t] have suf: "suffix_ok t \<and> same_class (suffix d) t" .
  show al: "aliases c = []" by (simp add: c read_back_def)
  show dec: "declares d c" using x(1) suf by (simp add: c read_back_def declares_def raw_ok_def)
  show ok: "fields_ok c" using suf by (cases "raw_back x") (simp_all add: c read_back_def fields_ok_def int_text_nonneg, simp add: nonneg_def)
  assume "plainly_rendered c"
  from callback_wire [OF ok this dec assms(1)] al
  show "\<exists>w. cb_str c = Inr w \<and> receive d w = Inr c" by auto
qed

end
