(* ===== verification/Callback_Table.thy ===== *)
theory Callback_Table
  imports Callback_Props
begin

text \<open>
  The callbacks the bot declares (\<^verbatim>\<open>libs/telegram/mitup_bot/utils/callbacks.py\<close>), each with its class and the retired
  forms it still answers, and what holds of the whole table: which strings two declarations both accept, and that
  every button fits into the 64 bytes of Telegram.
\<close>

section \<open>The declarations\<close>

definition decl :: "string \<Rightarrow> string \<Rightarrow> suffix \<Rightarrow> (string \<times> string) list \<Rightarrow> callback" where
  "decl a e s retired = \<lparr>entity = e, action = a, cb_id = None, aliases = retired, cb_back = None, cb_back_id = None, suffix = s\<rparr>"

definition admin_callbacks :: "(string \<times> callback) list" where
  "admin_callbacks = [
     (''EMPTY'', (decl ''empty'' ''empty'' Plain [])\<lparr>cb_id := Some 0\<rparr>),
     (''ADMIN_MENU'', decl ''show'' ''admin'' Plain []),
     (''BROADCAST'', decl ''start'' ''broadcast'' Plain []),
     (''SUPPORTER_GRANT'', decl ''start'' ''grant'' Plain []),
     (''SET_GRANT_LEVEL'', decl ''set'' ''grant'' (Granted None) []),
     (''CONFIRM_GRANT'', decl ''confirm'' ''grant'' (Granted None) []),
     (''CANCEL_GRANT'', decl ''cancel'' ''grant'' Plain [])]"

definition meeting_callbacks :: "(string \<times> callback) list" where
  "meeting_callbacks = [
     (''SHOW_MEETING'', decl ''show'' ''meeting'' (Paged None None) []),
     (''SHOW_ACTIVE_MEETING_PAGE'', decl ''show'' ''active_meeting_page'' Plain []),
     (''SHOW_JOINED_MEETINGS_PAGE'', decl ''show'' ''joined_meetings'' Plain []),
     (''SHOW_PAST_MEETING'', decl ''show'' ''past_meeting'' (Paged None None) []),
     (''SHOW_PAST_MEETING_PAGE'', decl ''show'' ''past_meeting_page'' Plain []),
     (''EDIT_MEETING'', decl ''edit'' ''meeting'' Plain []),
     (''REFRESH_MEETING'', decl ''refresh'' ''meet'' Plain []),
     (''CREATE_MEETING'', decl ''create'' ''meeting'' Plain []),
     (''CANCEL_CREATE_MEETING'', decl ''cancel'' ''meeting'' Plain []),
     (''JOIN'', decl ''join'' ''meeting'' Plain []),
     (''INVITE'', decl ''invite'' ''meeting'' Plain []),
     (''LEAVE'', decl ''leave'' ''meeting'' Plain []),
     (''DELETE_MEETING'', decl ''delete'' ''meeting'' Plain []),
     (''CONFIRM_DELETE_MEETING'', decl ''confirm_delete'' ''meeting'' Plain []),
     (''DECLINE_DELETE_MEETING'', decl ''decline_delete'' ''meeting'' Plain []),
     (''SHARE'', decl ''share'' ''meeting'' Plain []),
     (''ATTACH_TO_CHAT'', decl ''attach'' ''meeting'' Plain []),
     (''LOAD_CHAT_MEETINGS'', decl ''show'' ''chat_meet'' Plain []),
     (''REACTIVATE_MEETING'', decl ''reac'' ''meeting'' Plain []),
     (''DELETE_PAST_MEETING'', decl ''delete'' ''past_meeting'' (Paged None None) []),
     (''CONFIRM_DELETE_PAST_MEETING'', decl ''confirm_delete'' ''past_meeting'' (Paged None None) []),
     (''DECLINE_DELETE_PAST_MEETING'', decl ''decline_delete'' ''past_meeting'' (Paged None None) []),
     (''DELETE_ALL_PAST_MEETINGS'', decl ''delete'' ''past_meetings'' Plain []),
     (''CONFIRM_DELETE_ALL_PAST_MEETINGS'', decl ''confirm_delete'' ''past_meetings'' Plain []),
     (''DECLINE_DELETE_ALL_PAST_MEETINGS'', decl ''decline_delete'' ''past_meetings'' Plain []),
     (''CONFIRM_INVITE_USER'', decl ''confirm'' ''invite'' Plain []),
     (''CANCEL_INVITE_USER'', decl ''cancel'' ''invite'' Plain [])]"

definition edit_callbacks :: "(string \<times> callback) list" where
  "edit_callbacks = [
     (''EDIT_MEETING_DESCRIPTION'', decl ''edit'' ''meet_desc'' Plain []),
     (''DELETE_MEETING_DESCRIPTION'', decl ''delete'' ''meet_desc'' Plain []),
     (''CONFIRM_DELETE_MEETING_DESCRIPTION'', decl ''confirm_delete'' ''meet_desc'' Plain []),
     (''DECLINE_DELETE_MEETING_DESCRIPTION'', decl ''decline_delete'' ''meet_desc'' Plain []),
     (''EDIT_MEETING_TITLE'', decl ''edit'' ''meet_title'' Plain []),
     (''EDIT_MEETING_IMAGES'', decl ''edit'' ''meet_imgs'' Plain []),
     (''DELETE_MEETING_IMAGE'', decl ''delete'' ''meet_img'' (Of_Meeting None) []),
     (''CONFIRM_DELETE_MEETING_IMAGE'', decl ''confirm_delete'' ''meet_img'' (Of_Meeting None) []),
     (''DECLINE_DELETE_MEETING_IMAGE'', decl ''decline_delete'' ''meet_img'' (Of_Meeting None) []),
     (''REPLACE_MEETING_IMAGE'', decl ''replace'' ''meet_img'' (Of_Meeting None) []),
     (''DELETE_MEETING_IMAGES'', decl ''delete'' ''meet_imgs'' Plain []),
     (''CONFIRM_DELETE_MEETING_IMAGES'', decl ''confirm_delete'' ''meet_imgs'' Plain []),
     (''DECLINE_DELETE_MEETING_IMAGES'', decl ''decline_delete'' ''meet_imgs'' Plain []),
     (''SET_MEETING_IMAGE_LAYOUT'', decl ''set'' ''meet_imglay'' (Of_Meeting None) []),
     (''EDIT_MEETING_PARTICIPANTS'', decl ''edit'' ''meet_part'' Plain []),
     (''EDIT_MEETING_MAX_PARTICIPANTS'', decl ''edit'' ''meet_max_part'' Plain []),
     (''EDIT_MEETING_NO_LIMIT_PARTICIPANTS'', decl ''edit'' ''meet_nl_part'' Plain []),
     (''DELETE_MEETING_LIMIT'', decl ''delete'' ''meet_limit'' Plain []),
     (''CONFIRM_DELETE_MEETING_LIMIT'', decl ''confirm_delete'' ''meet_limit'' Plain []),
     (''DECLINE_DELETE_MEETING_LIMIT'', decl ''decline_delete'' ''meet_limit'' Plain []),
     (''EDIT_MEETING_KICK_OUT_PARTICIPANTS'', decl ''show'' ''kickout_page'' (Of_Meeting None) []),
     (''EDIT_MEETING_KICK_OUT_ACTION'', decl ''kickout'' ''user'' (Of_Meeting None) []),
     (''CONFIRM_KICK_OUT'', decl ''confirm'' ''kickout'' (Of_Meeting None) []),
     (''CANCEL_EDIT_MEETING_PARTICIPANS'', decl ''cancel'' ''meet_part'' Plain []),
     (''EDIT_MEETING_LOCATION'', decl ''edit'' ''meet_loc'' Plain []),
     (''EDIT_MEETING_LOCATION_NAME'', decl ''edit'' ''meet_loc_name'' Plain []),
     (''DELETE_MEETING_LOCATION_NAME'', decl ''delete'' ''meet_loc_name'' Plain []),
     (''CONFIRM_DELETE_MEETING_LOCATION_NAME'', decl ''confirm_delete'' ''meet_loc_name'' Plain []),
     (''DECLINE_DELETE_MEETING_LOCATION_NAME'', decl ''decline_delete'' ''meet_loc_name'' Plain []),
     (''EDIT_MEETING_LOCATION_COORDINATES'', decl ''edit'' ''meet_loc_coords'' Plain []),
     (''DELETE_MEETING_COORDINATES'', decl ''delete'' ''meet_loc_coords'' Plain []),
     (''CONFIRM_DELETE_MEETING_COORDINATES'', decl ''confirm_delete'' ''meet_loc_coords'' Plain []),
     (''DECLINE_DELETE_MEETING_COORDINATES'', decl ''decline_delete'' ''meet_loc_coords'' Plain []),
     (''CANCEL_EDIT_MEETING_LOCATION'', decl ''cancel'' ''meet_loc'' Plain []),
     (''EDIT_MEETING_LANGUAGE'', decl ''edit'' ''meet_lang'' Plain []),
     (''SET_MEETING_LANGUAGE'', decl ''set'' ''meet_lang'' (Of_Meeting None) []),
     (''EDIT_MEETING_SETTINGS'', decl ''edit'' ''meet_settings'' Plain []),
     (''OPEN_MEETING_BEHAVIOR'', decl ''open'' ''meet_behav'' Plain []),
     (''OPEN_MEETING_TIME_FORMAT'', decl ''open'' ''meet_tfmt'' Plain []),
     (''SET_MEETING_WAITING_LIST'', decl ''set'' ''meet_wait'' Plain []),
     (''SET_MEETING_PUBLIC'', decl ''set'' ''meet_pub'' Plain []),
     (''SET_MEETING_ALLOW_INVITATIONS'', decl ''set'' ''meet_inv'' Plain []),
     (''SET_MEETING_INCOGNITO'', decl ''set'' ''meet_inc'' Plain []),
     (''SET_MEETING_SHOW_TIMEZONE'', decl ''set'' ''meet_showtz'' Plain []),
     (''SET_MEETING_CLOCK_24H'', decl ''set'' ''meet_clock'' Plain []),
     (''SET_MEETING_DATE_FORMAT'', decl ''set'' ''meet_datefmt'' (Of_Meeting None) []),
     (''EDIT_MEETING_WHEN'', decl ''edit'' ''meet_when'' Plain [])]"

definition when_callbacks :: "(string \<times> callback) list" where
  "when_callbacks = [
     (''DELETE_MEETING_END_TIME'', decl ''delete'' ''meet_end'' Plain []),
     (''CONFIRM_DELETE_MEETING_END_TIME'', decl ''confirm_delete'' ''meet_end'' Plain []),
     (''DECLINE_DELETE_MEETING_END_TIME'', decl ''decline_delete'' ''meet_end'' Plain []),
     (''DELETE_MEETING_TIMES'', decl ''delete'' ''meet_times'' Plain []),
     (''CONFIRM_DELETE_MEETING_TIMES'', decl ''confirm_delete'' ''meet_times'' Plain []),
     (''DECLINE_DELETE_MEETING_TIMES'', decl ''decline_delete'' ''meet_times'' Plain []),
     (''SET_MEETING_LOCK_ON_START'', decl ''set'' ''meet_lock'' Plain []),
     (''OPEN_START_EDITOR'', decl ''open'' ''meet_start'' Plain [(''set'', ''meet_st'')]),
     (''REOPEN_START_EDITOR'', decl ''reopen'' ''meet_start'' Plain []),
     (''NAVIGATE_START_CALENDAR'', decl ''nav'' ''meet_start'' (Dated None) [(''edit'', ''meet_date'')]),
     (''PICK_START_DATE'', decl ''pick'' ''meet_start'' (Dated None) [(''set'', ''md'')]),
     (''OPEN_START_TIME_PROMPT'', decl ''ask_time'' ''meet_start'' Plain [(''edit'', ''meet_time'')]),
     (''CANCEL_START_EDIT'', decl ''cancel'' ''meet_start'' Plain [(''cancel'', ''meet_st'')]),
     (''OPEN_END_EDITOR'', decl ''open'' ''meet_end'' Plain [(''set'', ''meet_et'')]),
     (''REOPEN_END_EDITOR'', decl ''reopen'' ''meet_end'' Plain [(''edit'', ''meet_edt'')]),
     (''NAVIGATE_END_CALENDAR'', decl ''nav'' ''meet_end'' (Dated None) [(''edit'', ''meet_ed'')]),
     (''PICK_END_DATE'', decl ''pick'' ''meet_end'' (Dated None) [(''set'', ''med'')]),
     (''OPEN_END_TIME_PROMPT'', decl ''ask_time'' ''meet_end'' Plain [(''edit'', ''meet_et'')]),
     (''CANCEL_END_EDIT'', decl ''cancel'' ''meet_end'' Plain [(''cancel'', ''meet_dur'')]),
     (''EDIT_MEETING_CANCEL'', decl ''cancel'' ''meet_edit'' Plain []),
     (''MAIN_MENU'', decl ''show'' ''main_menu'' Plain [])]"

definition menu_callbacks :: "(string \<times> callback) list" where
  "menu_callbacks = [
     (''SEND_MAIN_MENU'', decl ''send'' ''main_menu'' Plain []),
     (''PAST_MEETINGS'', decl ''show'' ''past_meetings'' Plain []),
     (''SETTINGS'', decl ''show'' ''settings'' Plain []),
     (''HELP'', decl ''show'' ''help'' Plain []),
     (''COLLABORATE'', decl ''show'' ''collaborate'' Plain []),
     (''UNLINK_PATREON'', decl ''unlink'' ''patreon'' Plain []),
     (''CONFIRM_PATREON_UNLINK'', decl ''confirm'' ''patreon_unlink'' Plain []),
     (''DECLINE_PATREON_UNLINK'', decl ''decline'' ''patreon_unlink'' Plain []),
     (''CONFIRM_PATREON_LINK'', decl ''confirm'' ''pl'' (Coded None) []),
     (''DECLINE_PATREON_LINK'', decl ''decline'' ''pl'' (Coded None) []),
     (''CANCEL_SETTINGS'', decl ''cancel'' ''settings'' Plain []),
     (''EDIT_PRIVACY'', decl ''edit'' ''privacy'' Plain []),
     (''EXPORT_USER_DATA'', decl ''export'' ''user_data'' Plain []),
     (''DELETE_USER_DATA'', decl ''delete'' ''user_data'' Plain []),
     (''CONFIRM_DELETE_USER_DATA'', decl ''confirm_delete'' ''user_data'' Plain [])]"

definition settings_callbacks :: "(string \<times> callback) list" where
  "settings_callbacks = [
     (''CONFIRM_DELETE_USER_DATA_FINAL'', decl ''confirm_delete'' ''user_data_final'' Plain []),
     (''DECLINE_DELETE_USER_DATA'', decl ''decline_delete'' ''user_data'' Plain []),
     (''SET_LANGUAGE'', decl ''set'' ''lang'' Plain []),
     (''EDIT_TIMEOUT'', decl ''edit'' ''timeout'' Plain []),
     (''EDIT_TIEMZONE'', decl ''edit'' ''timezone'' Plain []),
     (''EDIT_DEFAULT_OPTIONS'', decl ''edit'' ''defaults'' Plain []),
     (''OPEN_DEFAULT_BEHAVIOR'', decl ''open'' ''def_behav'' Plain []),
     (''OPEN_DEFAULT_TIME_FORMAT'', decl ''open'' ''def_tfmt'' Plain []),
     (''SET_DEFAULT_WAITING_LIST'', decl ''set'' ''def_wait'' Plain []),
     (''SET_DEFAULT_PUBLIC'', decl ''set'' ''def_pub'' Plain []),
     (''SET_DEFAULT_INVITATIONS'', decl ''set'' ''def_inv'' Plain []),
     (''SET_DEFAULT_INCOGNITO'', decl ''set'' ''def_inc'' Plain []),
     (''SET_DEFAULT_LOCK_ON_START'', decl ''set'' ''def_lock'' Plain []),
     (''SET_DEFAULT_SHOW_TIMEZONE'', decl ''set'' ''def_showtz'' Plain []),
     (''SET_DEFAULT_CLOCK_24H'', decl ''set'' ''def_clock'' Plain []),
     (''SET_DEFAULT_DATE_FORMAT'', decl ''set'' ''def_datefmt'' Plain []),
     (''TOGGLE_NOTIFICATIONS'', decl ''toggle'' ''notif'' Plain []),
     (''TOGGLE_START_REMINDER'', decl ''toggle'' ''reminder'' Plain []),
     (''SET_NOTIFICATION_TIME'', decl ''set'' ''notif_time'' Plain []),
     (''TOGGLE_DELETION_WARNING'', decl ''toggle'' ''del_warn'' Plain []),
     (''TOGGLE_DELETION_NOTICE'', decl ''toggle'' ''del_notice'' Plain []),
     (''CONFIRM_BROADCAST'', decl ''confirm'' ''broadcast'' Plain []),
     (''CANCEL_BROADCAST'', decl ''cancel'' ''broadcast'' Plain [])]"

definition declared_callbacks :: "(string \<times> callback) list" where
  "declared_callbacks = admin_callbacks @ meeting_callbacks @ edit_callbacks @ when_callbacks @ menu_callbacks @ settings_callbacks"

section \<open>Strings two declarations accept\<close>

text \<open>Two suffixes can only be read from the same text when they are of one class, or one is absent.\<close>

fun tails_meet :: "suffix \<Rightarrow> suffix \<Rightarrow> bool" where
  "tails_meet Plain Plain = True"
| "tails_meet Plain (Paged _ _) = True"
| "tails_meet (Paged _ _) Plain = True"
| "tails_meet (Dated _) (Dated _) = True"
| "tails_meet (Coded _) (Coded _) = True"
| "tails_meet (Paged _ _) (Paged _ _) = True"
| "tails_meet (Granted _) (Granted _) = True"
| "tails_meet (Of_Meeting _) (Of_Meeting _) = True"
| "tails_meet _ _ = False"

fun tags :: "suffix \<Rightarrow> string list" where
  "tags Plain = [[], newline]"
| "tags (Dated _) = ['';d'']"
| "tags (Coded _) = ['';c'']"
| "tags (Paged _ _) = ['';p'', '';s'', [], newline]"
| "tags (Granted _) = ['';l'']"
| "tags (Of_Meeting _) = [[CHR '':'']]"

text \<open>The first character, or the first two when it is a semicolon.\<close>

definition tag :: "string \<Rightarrow> string" where
  "tag s = (if take 1 s = '';'' then take 2 s else take 1 s)"

lemma tail_tag:
  assumes "tail_ok sf t" "at_end r"
  shows "tag (tail_wire t @ r) \<in> set (tags sf)"
proof (cases sf)
  case (Paged p src)
  with assms(1) obtain q u where "t = TPage q u" by (auto simp: tail_ok_iff)
  with Paged assms(2) show ?thesis by (cases q; cases u) (auto simp: at_end_def newline_def tag_def)
qed (use assms in \<open>auto simp: tail_ok_iff at_end_def newline_def tag_def\<close>)

lemma tails_apart:
  assumes "tail_ok sf t" "tail_ok sf' t'" "tail_wire t @ r = tail_wire t' @ r'" "at_end r" "at_end r'"
  shows "tails_meet sf sf'"
  using assms
proof -
  from tail_tag [OF assms(1,4)] tail_tag [OF assms(2,5)] assms(3)
  have "set (tags sf) \<inter> set (tags sf') \<noteq> {}" by auto
  then show ?thesis by (cases sf; cases sf'; simp add: newline_def)
qed

definition shared :: "string list \<Rightarrow> string list \<Rightarrow> bool" where
  "shared xs ys \<longleftrightarrow> list_ex (\<lambda>x. x \<in> set ys) xs"

definition overlap :: "callback \<Rightarrow> callback \<Rightarrow> bool" where
  "overlap d d' \<longleftrightarrow> tails_meet (suffix d) (suffix d') \<and> shared (actions_of d) (actions_of d') \<and> shared (entities_of d) (entities_of d')"

lemma accepted_by_both:
  assumes "accepts d s" "accepts d' s" "words_ok d" "words_ok d'"
  shows "overlap d d' \<and> (\<exists>a e y. a \<in> set (actions_of d) \<and> a \<in> set (actions_of d') \<and> e \<in> set (entities_of d) \<and> e \<in> set (entities_of d') \<and>
    s = a @ '';'' @ e @ '':'' @ y)"
proof -
  from assms obtain x r x' r' where x: "raw_ok d x" "at_end r" "s = raw_wire x @ r" and x': "raw_ok d' x'" "at_end r'" "s = raw_wire x' @ r'"
    unfolding accepts_iff [OF assms(3)] accepts_iff [OF assms(4)] by blast
  have "raw_wire x @ r = raw_wire x' @ r'" using x(3) x'(3) by simp
  note h = head_unique [OF this x(1) x'(1) assms(3,4) x(2) x'(2)]
  have t: "tail_ok (suffix d) (raw_tail x)" "tail_ok (suffix d') (raw_tail x')" using x(1) x'(1) by (simp_all add: raw_ok_def)
  have a: "raw_action x \<in> set (actions_of d)" "raw_action x \<in> set (actions_of d')" "raw_entity x \<in> set (entities_of d)"
    "raw_entity x \<in> set (entities_of d')" using x(1) x'(1) h by (simp_all add: raw_ok_def)
  have "overlap d d'" using tails_apart [OF t _ x(2) x'(2)] h a unfolding overlap_def shared_def list_ex_iff by blast
  moreover have "s = raw_action x @ '';'' @ raw_entity x @ '':'' @ (raw_id x @ back_wire (raw_back x) @ tail_wire (raw_tail x) @ r)"
    using x(3) by (simp add: raw_wire_def)
  ultimately show ?thesis using a by blast
qed

text \<open>
  The table is compared on numbers: a declaration has one key for every pair of an action and an entity it accepts, and
  equal texts have equal keys. Sorting the keys shows that only one of them occurs twice.
\<close>

definition word_key :: "string \<Rightarrow> int" where
  "word_key w = foldl (\<lambda>a c. 2 * a + of_char c) 0 w"

fun class_tag :: "suffix \<Rightarrow> string" where
  "class_tag Plain = ''p''"
| "class_tag (Paged _ _) = ''p''"
| "class_tag (Dated _) = ''d''"
| "class_tag (Coded _) = ''c''"
| "class_tag (Granted _) = ''g''"
| "class_tag (Of_Meeting _) = ''m''"

definition keys_of :: "callback \<Rightarrow> int list" where
  "keys_of d = map word_key (concat (map (\<lambda>a. map (\<lambda>e. a @ '';'' @ e @ class_tag (suffix d)) (entities_of d)) (actions_of d)))"

definition crossbreed :: int where
  "crossbreed = word_key ''edit;meet_endp''"

definition table_keys :: "int list list" where
  "table_keys = map (\<lambda>(n, d). keys_of d) declared_callbacks"

fun split_sorted :: "int list \<Rightarrow> int list \<Rightarrow> bool" where
  "split_sorted [] xs = sorted_wrt (<) (sort xs)"
| "split_sorted (p # ps) xs = (split_sorted ps (filter (\<lambda>x. \<not> x < p) xs) \<and> sorted_wrt (<) (sort (filter (\<lambda>x. x < p) xs)))"

lemma split_sorted_distinct: "split_sorted ps xs \<Longrightarrow> distinct xs"
proof (induction ps xs rule: split_sorted.induct)
  case (1 xs)
  then show ?case by (metis split_sorted.simps(1) strict_sorted_iff distinct_sort)
next
  case (2 p ps xs)
  then have "distinct (filter (\<lambda>x. \<not> x < p) xs)" "distinct (filter (\<lambda>x. x < p) xs)"
    by (simp, metis split_sorted.simps(2) strict_sorted_iff distinct_sort)
  then show ?case
    by (induction xs) (auto split: if_splits)
qed

lemma table_distinct: "split_sorted [827614, 1655100, 3310282, 3602410, 7295944, 28845278, 1745784136] (remove1 crossbreed (concat table_keys))"
  by code_simp

lemma crossbreed_rows:
  "filter (\<lambda>(n, d). crossbreed \<in> set (keys_of d)) declared_callbacks =
     [(''REOPEN_END_EDITOR'', decl ''reopen'' ''meet_end'' Plain [(''edit'', ''meet_edt'')]),
      (''OPEN_END_TIME_PROMPT'', decl ''ask_time'' ''meet_end'' Plain [(''edit'', ''meet_et'')])]"
  by code_simp

lemma table_words: "list_all (\<lambda>(n, d). words_ok d) declared_callbacks"
  by code_simp

lemma twice_in_concat:
  assumes d: "distinct (remove1 x (concat ks))" and "p < q" "q < length ks" "k \<in> set (ks ! p)" "k \<in> set (ks ! q)"
  shows "k = x"
proof (rule ccontr)
  assume k: "k \<noteq> x"
  have "concat ks = concat (take q ks) @ concat (drop q ks)" by (metis append_take_drop_id concat_append)
  then have "distinct (remove1 x (concat (take q ks) @ concat (drop q ks)))" using d by simp
  moreover have "k \<in> set (concat (take q ks))" using assms(2-4) by (auto simp: in_set_conv_nth [of "ks ! p" "take q ks"] intro!: bexI [of _ "ks ! p"] exI [of _ p])
  moreover have "k \<in> set (concat (drop q ks))" using assms(3,5) by (simp add: Cons_nth_drop_Suc [symmetric])
  moreover have "\<not> distinct (remove1 x (A @ B))" if "k \<in> set A" "k \<in> set B" for A B
    using that in_set_remove1 [OF k, of A] in_set_remove1 [OF k, of B] by (simp add: remove1_append) blast
  ultimately show False by blast
qed

lemma tails_meet_tag: "tails_meet s s' \<Longrightarrow> class_tag s = class_tag s'"
  by (cases s; cases s'; simp)

lemma keys_of_mem: "a \<in> set (actions_of d) \<Longrightarrow> e \<in> set (entities_of d) \<Longrightarrow> word_key (a @ '';'' @ e @ class_tag (suffix d)) \<in> set (keys_of d)"
  unfolding keys_of_def by auto

lemma overlap_key: "overlap d d' \<Longrightarrow> \<exists>k. k \<in> set (keys_of d) \<and> k \<in> set (keys_of d')"
  unfolding overlap_def shared_def list_ex_iff using keys_of_mem tails_meet_tag by metis

lemma overlapping_rows:
  assumes "(n, d) \<in> set declared_callbacks" "(n', d') \<in> set declared_callbacks" "n \<noteq> n'" "overlap d d'"
  shows "{(n, d), (n', d')} = {(''REOPEN_END_EDITOR'', decl ''reopen'' ''meet_end'' Plain [(''edit'', ''meet_edt'')]),
      (''OPEN_END_TIME_PROMPT'', decl ''ask_time'' ''meet_end'' Plain [(''edit'', ''meet_et'')])}"
proof -
  obtain k where k: "k \<in> set (keys_of d)" "k \<in> set (keys_of d')" using overlap_key [OF assms(4)] by blast
  obtain p q where p: "p < length declared_callbacks" "declared_callbacks ! p = (n, d)"
    and q: "q < length declared_callbacks" "declared_callbacks ! q = (n', d')"
    using assms(1,2) by (auto simp: in_set_conv_nth)
  have "p \<noteq> q" using p(2) q(2) assms(3) by auto
  have "table_keys ! p = keys_of d" "table_keys ! q = keys_of d'" "p < length table_keys" "q < length table_keys"
    using p q by (simp_all add: table_keys_def)
  then have "k = crossbreed"
    using twice_in_concat [OF split_sorted_distinct [OF table_distinct], of p q k]
      twice_in_concat [OF split_sorted_distinct [OF table_distinct], of q p k] k \<open>p \<noteq> q\<close> by (metis linorder_neqE_nat)
  then have "(n, d) \<in> set (filter (\<lambda>(n, d). crossbreed \<in> set (keys_of d)) declared_callbacks)"
    "(n', d') \<in> set (filter (\<lambda>(n, d). crossbreed \<in> set (keys_of d)) declared_callbacks)"
    using assms(1,2) k by simp_all
  then show ?thesis unfolding crossbreed_rows using assms(3) by auto
qed

text \<open>C31. Which handler a tap reaches. No string is accepted by two of the callbacks declared in \<^verbatim>\<open>callbacks.py\<close>, whatever ids, origins and
  suffixes it carries, with one exception: texts that start with \<open>edit;meet_end:\<close>, a crossbreed of a primary entity with a
  retired action, are accepted both by the callback that reopens the end editor and by the one that asks for the end time.\<close>

theorem taps_reach_one_callback:
  assumes "(n, d) \<in> set declared_callbacks" "(n', d') \<in> set declared_callbacks" "n \<noteq> n'" "accepts d s" "accepts d' s"
  shows "{n, n'} = {''REOPEN_END_EDITOR'', ''OPEN_END_TIME_PROMPT''} \<and> (\<exists>y. s = ''edit;meet_end:'' @ y)"
proof -
  have w: "words_ok d" "words_ok d'" using table_words assms(1,2) by (auto simp: list_all_iff)
  from accepted_by_both [OF assms(4,5) w] obtain a e y where o: "overlap d d'"
    and a: "a \<in> set (actions_of d)" "a \<in> set (actions_of d')" "e \<in> set (entities_of d)" "e \<in> set (entities_of d')"
    and s: "s = a @ '';'' @ e @ '':'' @ y" by blast
  let ?r = "decl ''reopen'' ''meet_end'' Plain [(''edit'', ''meet_edt'')]"
  let ?t = "decl ''ask_time'' ''meet_end'' Plain [(''edit'', ''meet_et'')]"
  note rows = overlapping_rows [OF assms(1-3) o]
  then have "{n, n'} = {''REOPEN_END_EDITOR'', ''OPEN_END_TIME_PROMPT''}" "{d, d'} = {?r, ?t}"
    by (auto simp: doubleton_eq_iff)
  moreover have "actions_of ?r = [''reopen'', ''edit'']" "actions_of ?t = [''ask_time'', ''edit'']"
    "entities_of ?r = [''meet_end'', ''meet_edt'']" "entities_of ?t = [''meet_end'', ''meet_et'']" by code_simp+
  ultimately have "a = ''edit'' \<and> e = ''meet_end''" using a by (auto simp: doubleton_eq_iff)
  with s have "s = ''edit;meet_end:'' @ y" by simp
  with \<open>{n, n'} = _\<close> show ?thesis by blast
qed

section \<open>Telegram's 64 bytes\<close>

text \<open>Keys of the database are 32-bit integers; a pairing code has 32 characters.\<close>

definition key_sized :: "int option \<Rightarrow> bool" where
  "key_sized = pred_option (\<lambda>n. n < 2 ^ 31)"

definition in_range :: "callback \<Rightarrow> bool" where
  "in_range c \<longleftrightarrow> key_sized (cb_id c) \<and> key_sized (cb_back_id c) \<and>
     (case suffix c of
        Coded w \<Rightarrow> pred_option (\<lambda>w. length w \<le> 32) w
      | Paged p src \<Rightarrow> key_sized p
      | Granted l \<Rightarrow> key_sized l
      | Of_Meeting m \<Rightarrow> key_sized m
      | _ \<Rightarrow> True)"

fun suffix_room :: "suffix \<Rightarrow> nat" where
  "suffix_room Plain = 0"
| "suffix_room (Dated _) = 16"
| "suffix_room (Coded _) = 38"
| "suffix_room (Paged _ _) = 22"
| "suffix_room (Granted _) = 15"
| "suffix_room (Of_Meeting _) = 11"

definition fits :: "callback \<Rightarrow> bool" where
  "fits d \<longleftrightarrow> list_all (\<lambda>a. list_all (\<lambda>e.
     length a + length e + 12 + suffix_room (suffix d) + (if suffix d = Plain then 17 else 0) \<le> 64) (entities_of d)) (actions_of d)"

lemma table_fits: "list_all (\<lambda>(n, d). fits d) declared_callbacks"
  by code_simp

lemma str_int_length: "0 \<le> n \<Longrightarrow> n < 2 ^ 31 \<Longrightarrow> length (str_int n) \<le> 10"
  unfolding str_int_def using digits_of_length [of "nat n" 10] by (simp add: nat_less_iff)

lemma opt_str_length: "nonneg i \<Longrightarrow> key_sized i \<Longrightarrow> length (opt_str i) \<le> 10"
  using str_int_length by (auto simp: nonneg_def key_sized_def opt_str_def split: option.split)

lemma suffix_length:
  assumes "suffix_ok (suffix c)" "in_range c" "plainly_rendered c" "suffix_str (suffix c) = Inr w"
  shows "length w \<le> suffix_room (suffix c)"
proof (cases "suffix c")
  case Plain
  with assms show ?thesis by (simp add: suffix_str_def)
next
  case (Dated d)
  with assms(1,3) obtain x where "d = Some x" "wire_date x"
    by (auto simp: wire_date_def plainly_rendered_def split: option.splits prod.splits)
  with Dated assms(4) date_shape_length [OF str_date_shape [OF \<open>wire_date x\<close>]] show ?thesis by (auto simp: suffix_str_def)
next
  case (Coded v)
  with assms show ?thesis by (cases v) (auto simp: suffix_str_def in_range_def)
next
  case (Paged p src)
  have "length (str_int n) \<le> 10" if "p = Some n" for n
    using Paged assms(1,2) that by (intro str_int_length) (auto simp: in_range_def key_sized_def)
  with Paged assms(4) show ?thesis by (auto simp: suffix_str_def split: option.splits)
next
  case (Granted l)
  with assms opt_str_length [of l] show ?thesis by (auto simp: suffix_str_def in_range_def)
next
  case (Of_Meeting m)
  with assms opt_str_length [of m] show ?thesis by (auto simp: suffix_str_def in_range_def split: if_splits)
qed

lemma same_class_room: "same_class s s' \<Longrightarrow> suffix_room s = suffix_room s' \<and> (s = Plain \<longleftrightarrow> s' = Plain)"
  by (cases s; cases s'; simp)

text \<open>C33. Every button of the bot fits into the 64 bytes Telegram allows for callback data: whatever 32-bit ids, pages and
  ranks, dates and pairing codes a callback of the table carries, and with the origin of the tap when it has no suffix.\<close>

theorem callbacks_fit_telegram:
  assumes "(n, d) \<in> set declared_callbacks" "declares d c" "fields_ok c" "plainly_rendered c" "in_range c"
    "suffix c \<noteq> Plain \<longrightarrow> cb_back c = None" "cb_str c = Inr s"
  shows "length s \<le> 64"
proof -
  from assms(7) obtain w where w: "suffix_str (suffix c) = Inr w" "s = base_str c @ w"
    by (auto simp: cb_str_def bind_result_Inr_iff)
  have ids: "length (opt_str (cb_id c)) \<le> 10" "length (opt_str (cb_back_id c)) \<le> 10"
    using assms(3,5) by (auto simp: fields_ok_def in_range_def intro: opt_str_length)
  have "length w \<le> suffix_room (suffix c)"
    using suffix_length [OF _ assms(5,4) w(1)] assms(3) by (simp add: fields_ok_def)
  moreover have "length (base_str c) \<le> length (action c) + length (entity c) + 12 + (if suffix c = Plain then 17 else 0)"
    using ids assms(6) by (auto simp: base_str_def split: option.split)
  moreover have "fits d" using table_fits assms(1) by (auto simp: list_all_iff)
  then have "length (action c) + length (entity c) + 12 + suffix_room (suffix d) + (if suffix d = Plain then 17 else 0) \<le> 64"
    using assms(2) by (auto simp: fits_def list_all_iff declares_def)
  ultimately show ?thesis using same_class_room [of "suffix d" "suffix c"] assms(2) w(2) by (simp add: declares_def)
qed

end
