(* ===== verification/Callback_Examples.thy ===== *)
theory Callback_Examples
  imports Callback_Table
begin

text \<open>
  The properties of the callbacks at concrete buttons: the third page of the joined meetings, the crossbreed of the end
  half, and a tap on a picked date.
\<close>

definition SHOW_MEETING :: callback where
  "SHOW_MEETING = decl ''show'' ''meeting'' (Paged None None) []"

definition ex_page :: callback where
  "ex_page = with_page 42 3 (Some JOINED) SHOW_MEETING"

theorem callback_round_trip_witness:
  "cb_str ex_page = Inr ''show;meeting:42;page:3;src:j'' \<and> accepts SHOW_MEETING ''show;meeting:42;page:3;src:j'' \<and>
   receive SHOW_MEETING ''show;meeting:42;page:3;src:j'' = Inr ex_page"
proof -
  have "fields_ok ex_page" "plainly_rendered ex_page" "declares SHOW_MEETING ex_page" "words_ok SHOW_MEETING" by code_simp+
  from callback_round_trip [OF this] obtain s where
    s: "cb_str ex_page = Inr s" "accepts SHOW_MEETING s" "receive SHOW_MEETING s = Inr (ex_page\<lparr>aliases := []\<rparr>)" by blast
  have "cb_str ex_page = Inr ''show;meeting:42;page:3;src:j''" by code_simp
  moreover have "ex_page\<lparr>aliases := []\<rparr> = ex_page" by (simp add: ex_page_def with_page_def derived_def)
  ultimately show ?thesis using s by simp
qed

text \<open>A retired form of a picked date, with leading zeros in the id and the newline \<open>$\<close> lets through.\<close>

definition PICK_START_DATE :: callback where
  "PICK_START_DATE = decl ''pick'' ''meet_start'' (Dated None) [(''set'', ''md'')]"

definition ex_tapped :: string where
  "ex_tapped = ''set;md:007;date:2026-02-28'' @ newline"

definition ex_read :: callback where
  "ex_read = (decl ''set'' ''md'' (Dated (Some (2026, 2, 28))) [])\<lparr>cb_id := Some 7\<rparr>"

theorem received_callback_typed_witness:
  "receive PICK_START_DATE ex_tapped = Inr ex_read \<and> declares PICK_START_DATE ex_read \<and> fields_ok ex_read \<and>
   receive PICK_START_DATE ''set;md:7;date:2026-02-28'' = Inr ex_read"
proof -
  have r: "receive PICK_START_DATE ex_tapped = Inr ex_read" and "words_ok PICK_START_DATE" "accepts PICK_START_DATE ex_tapped"
    "plainly_rendered ex_read" "cb_str ex_read = Inr ''set;md:7;date:2026-02-28''" by code_simp+
  with received_callback_typed [of PICK_START_DATE ex_tapped ex_read] show ?thesis by auto
qed

text \<open>A meeting id 0 is accepted, but left out of the callback's own text, so it does not come back.\<close>

definition KICKOUT :: callback where
  "KICKOUT = decl ''kickout'' ''user'' (Of_Meeting None) []"

lemma zero_meeting_not_read_back:
  "\<exists>c. receive KICKOUT ''kickout;user:5:0'' = Inr c \<and> suffix c = Of_Meeting (Some 0) \<and> \<not> plainly_rendered c \<and>
     cb_str c = Inr ''kickout;user:5:'' \<and> (\<exists>c'. receive KICKOUT ''kickout;user:5:'' = Inr c' \<and> suffix c' = Of_Meeting None)"
proof -
  let ?c = "KICKOUT\<lparr>cb_id := Some 5, suffix := Of_Meeting (Some 0)\<rparr>"
  have "receive KICKOUT ''kickout;user:5:0'' = Inr ?c" "cb_str ?c = Inr ''kickout;user:5:''" "\<not> plainly_rendered ?c"
    "receive KICKOUT ''kickout;user:5:'' = Inr (KICKOUT\<lparr>cb_id := Some 5\<rparr>)" by code_simp+
  moreover have "suffix ?c = Of_Meeting (Some 0)" "suffix (KICKOUT\<lparr>cb_id := Some 5\<rparr>) = Of_Meeting None"
    by (simp_all add: KICKOUT_def decl_def)
  ultimately show ?thesis by blast
qed

theorem taps_reach_one_callback_witness:
  "\<exists>d d'. (''REOPEN_END_EDITOR'', d) \<in> set declared_callbacks \<and> (''OPEN_END_TIME_PROMPT'', d') \<in> set declared_callbacks \<and>
     accepts d ''edit;meet_end:5'' \<and> accepts d' ''edit;meet_end:5'' \<and> (\<exists>y. ''edit;meet_end:5'' = ''edit;meet_end:'' @ y)"
proof -
  let ?r = "decl ''reopen'' ''meet_end'' Plain [(''edit'', ''meet_edt'')]"
  let ?t = "decl ''ask_time'' ''meet_end'' Plain [(''edit'', ''meet_et'')]"
  have m: "(''REOPEN_END_EDITOR'', ?r) \<in> set declared_callbacks" "(''OPEN_END_TIME_PROMPT'', ?t) \<in> set declared_callbacks"
    using arg_cong [OF crossbreed_rows, of set] by auto
  have a: "accepts ?r ''edit;meet_end:5''" "accepts ?t ''edit;meet_end:5''" by code_simp+
  have "''REOPEN_END_EDITOR'' \<noteq> ''OPEN_END_TIME_PROMPT''" by simp
  note reach = taps_reach_one_callback [OF m this a]
  show ?thesis
    by (rule exI [of _ ?r], rule exI [of _ ?t], intro conjI m a, rule reach [THEN conjunct2])
qed

definition CONFIRM_PATREON_LINK :: callback where
  "CONFIRM_PATREON_LINK = decl ''confirm'' ''pl'' (Coded None) []"

definition ex_code :: callback where
  "ex_code = with_code ''abcdefghijklmnopqrstuvwxyz_-0123'' CONFIRM_PATREON_LINK"

theorem callbacks_fit_telegram_witness:
  "cb_str ex_code = Inr ''confirm;pl:;code:abcdefghijklmnopqrstuvwxyz_-0123'' \<and>
   length ''confirm;pl:;code:abcdefghijklmnopqrstuvwxyz_-0123'' \<le> 64"
proof -
  have "(''CONFIRM_PATREON_LINK'', CONFIRM_PATREON_LINK) \<in> set declared_callbacks"
  proof -
    have "filter (\<lambda>(n, d). n = ''CONFIRM_PATREON_LINK'') declared_callbacks = [(''CONFIRM_PATREON_LINK'', CONFIRM_PATREON_LINK)]"
      by code_simp
    from arg_cong [OF this, of set] show ?thesis by auto
  qed
  moreover have "declares CONFIRM_PATREON_LINK ex_code" "fields_ok ex_code" "plainly_rendered ex_code" "in_range ex_code"
    "suffix ex_code \<noteq> Plain \<longrightarrow> cb_back ex_code = None" by code_simp+
  moreover have s: "cb_str ex_code = Inr ''confirm;pl:;code:abcdefghijklmnopqrstuvwxyz_-0123''" by code_simp
  ultimately show ?thesis using callbacks_fit_telegram by blast
qed

end
