(* ===== verification/When_Memory.thy ===== *)
theory When_Memory
  imports When_Props
begin

text \<open>
  The memory beside the tables: which conversations are live and what they find stored. The tables may change in any
  way between two updates of a person, so an event of this system carries the tables it runs on.
\<close>

section \<open>What a handler does to the memory\<close>

text \<open>No conversation is opened behind the library's back, and a stored meeting is only dropped when every conversation
  is ended with it.\<close>

definition settles :: "when_person \<Rightarrow> when_person \<Rightarrow> bool" where
  "settles p q \<longleftrightarrow> (\<forall>d. live q d = None \<or> live q d = live p d) \<and>
     ((\<forall>x. has_meeting_id x p \<longrightarrow> has_meeting_id x q) \<or> (\<forall>d. live q d = None))"

lemma settles_refl [simp]: "settles p p"
  by (simp add: settles_def)

lemma settles_store [simp]:
  "settles p q \<Longrightarrow> settles p (store_start_flow m q)" "settles p q \<Longrightarrow> settles p (store_end_flow m q)"
  by (auto simp: settles_def store_start_flow_def store_end_flow_def)

lemma settles_clean [simp]: "settles p (cleanup_states q)" "settles p (clean_all_user_data q)"
  by (simp_all add: settles_def)

lemma store_flow_has [simp]:
  "has_meeting_id EDIT_MEETING_START (store_start_flow m p)" "has_meeting_id EDIT_MEETING_END (store_end_flow m p)"
  by (simp_all add: store_start_flow_def store_end_flow_def)

definition tidy :: "bool \<Rightarrow> context_id \<Rightarrow> when_person \<Rightarrow> when_result \<Rightarrow> bool" where
  "tidy t c p r \<longleftrightarrow> settles p (fst r) \<and>
     (case snd r of
        Inl e \<Rightarrow> e \<noteq> AssertionFailed \<and> (e = ContextPropertyNotSet \<longrightarrow> t \<and> \<not> has_meeting_id c p)
      | Inr (x, nxt) \<Rightarrow> (\<forall>s. nxt = NEXT s \<longrightarrow> has_meeting_id c (fst r)))"

lemma tidy_rejected [simp]: "tidy t c p (q, Inl (WhenRejected e)) \<longleftrightarrow> settles p q"
  by (simp add: tidy_def)

lemma tidy_with_owned:
  assumes "settles p q" "\<And>user m. meeting db (Some user) mid OWNER = Inr m \<Longrightarrow> tidy t c p (body user m q)"
  shows "tidy t c p (with_owned up mid db body q)"
  using assms unfolding with_owned_def by (simp split: sum.split)

lemma tidy_with_flow:
  assumes "\<And>user m. has_meeting_id c p \<Longrightarrow> tidy True c p (body user m p)"
  shows "tidy True c p (with_flow c up db body p)"
proof (cases "has_meeting_id c p")
  case True
  then obtain e i where "registry p c = Some e" "cd_meeting_id e = Some i" by (rule has_meeting_idE)
  then have "with_flow c up db body p = with_owned up i db body p"
    by (simp add: with_flow_def with_meeting_id_def split: prod.split)
  then show ?thesis using tidy_with_owned [of p p db i True c body up] assms True by simp
next
  case False
  then have "with_flow c up db body p = (p, Inl ContextPropertyNotSet)"
    by (auto simp: has_meeting_id_def with_flow_def with_meeting_id_def split: option.splits)
  with False show ?thesis by (simp add: tidy_def)
qed

lemma tidy_answers:
  assumes "settles p q" "\<And>s. nxt = NEXT s \<Longrightarrow> has_meeting_id c q"
  shows "tidy t c p (answers scr nxt db q)"
  using assms by (cases nxt) (simp_all add: answers_def tidy_def)

lemma tidy_start_card: "settles p q \<Longrightarrow> tidy t EDIT_MEETING_START p (show_start_card w u m mo e r b a db q)"
  by (simp add: show_start_card_def tidy_def)

lemma tidy_end_card:
  "settles p q \<Longrightarrow> datetime m \<noteq> None \<Longrightarrow> tidy t EDIT_MEETING_END p (show_end_card w u m mo e r b a db q)"
  by (simp add: show_end_card_def tidy_def)

lemma tidy_save_start: "settles p q \<Longrightarrow> tidy t EDIT_MEETING_START p (save_start_datetime w u m moment db q)"
  by (auto simp: save_start_datetime_def intro: tidy_start_card split: prod.splits)

lemma tidy_with_start:
  "(\<And>user m. datetime m \<noteq> None \<Longrightarrow> tidy t c p (body user m p)) \<Longrightarrow> tidy t c p (with_start up mid db body p)"
  unfolding with_start_def by (auto intro!: tidy_with_owned tidy_answers)

lemma tidy_with_end_flow:
  "(\<And>user m. datetime m \<noteq> None \<Longrightarrow> has_meeting_id EDIT_MEETING_END p \<Longrightarrow> tidy True EDIT_MEETING_END p (body user m p)) \<Longrightarrow>
   tidy True EDIT_MEETING_END p (with_end_flow up db body p)"
  unfolding with_end_flow_def recover_typed_without_start_time_def by (auto intro!: tidy_with_flow tidy_answers)

lemma apply_end_start: "apply_end_datetime t m = Inr m' \<Longrightarrow> datetime m' \<noteq> None"
  by (auto simp: apply_end_datetime_def split: option.splits)

lemma end_rules_start [simp]:
  "datetime m \<noteq> None \<Longrightarrow> end_on_picked_date now z t d m \<noteq> Inl a"
  "datetime m \<noteq> None \<Longrightarrow> validate_end_datetime now z t m \<noteq> Inl a"
  "datetime m \<noteq> None \<Longrightarrow> apply_end_datetime t m \<noteq> Inl a"
  by (auto simp: end_on_picked_date_def validate_end_datetime_def apply_end_datetime_def)

lemma tidy_pick_start: "tidy t EDIT_MEETING_START p (pick_start_date w up mid d db p)"
  unfolding pick_start_date_def Let_def
  by (rule tidy_with_owned) (auto intro!: tidy_answers tidy_start_card split: option.split prod.split)

lemma tidy_save_end: "settles p q \<Longrightarrow> datetime m \<noteq> None \<Longrightarrow> tidy t EDIT_MEETING_END p (save_end_datetime w u m moment db q)"
  unfolding save_end_datetime_def using end_rules_start(3) [of m moment]
  by (auto intro!: tidy_end_card dest: apply_end_start split: sum.split)

lemma tidy_reply_or_save:
  assumes "datetime m \<noteq> None" "has_meeting_id EDIT_MEETING_END p"
  shows "tidy t EDIT_MEETING_END p (reply_or_save_end w u m moment db p)"
  using assms end_rules_start(2) [OF assms(1)] unfolding reply_or_save_end_def
  by (auto intro!: tidy_end_card tidy_answers tidy_save_end split: sum.split option.split)

lemma case_not_Inl: "x \<noteq> Inl () \<Longrightarrow> (\<And>y. P (g y)) \<Longrightarrow> P (case x of Inl a \<Rightarrow> f a | Inr y \<Rightarrow> g y)"
  by (cases x) auto

lemma tidy_pick_end: "tidy t EDIT_MEETING_END p (pick_end_date w up mid d db p)"
  unfolding pick_end_date_def Let_def
proof (rule tidy_with_start, goal_cases)
  case (1 user m)
  note rules = end_rules_start [OF 1]
  show ?case
  proof (rule case_not_Inl [OF rules(1)], goal_cases)
    case (1 proposed)
    show ?case
    proof (rule case_not_Inl [OF rules(2)], goal_cases)
      case (1 verdict)
      have "tidy t EDIT_MEETING_END p (show_end_card w user m' mo None False b af db' (store_end_flow m p))"
        if "apply_end_datetime proposed m = Inr m'" for m' mo b af db'
        by (rule tidy_end_card) (use apply_end_start [OF that] in simp_all)
      then show ?case using rules(3) [of proposed]
        by (cases verdict; cases "end_beyond_horizon w user proposed"; cases "apply_end_datetime proposed m")
          (simp_all add: tidy_answers)
    qed
  qed
qed

lemma tidy_start_handler:
  assumes "tap_of tap = Some (START_EDITOR_CONVERSATION, entry)"
  shows "tidy (\<not> entry) EDIT_MEETING_START p (when_handler w up tap db p)"
proof (cases tap)
  case (CancelStart mid)
  then show ?thesis
    by (auto simp: cancel_start_edit_def intro!: tidy_with_owned tidy_answers split: sum.split)
qed (use assms in \<open>auto simp: card_defs type_start_datetime_def type_start_time_def
    intro!: tidy_with_owned tidy_with_flow tidy_answers tidy_start_card tidy_save_start tidy_pick_start
    split: option.split\<close>)

lemma tidy_end_handler:
  assumes "tap_of tap = Some (END_EDITOR_CONVERSATION, entry)"
  shows "tidy (\<not> entry) EDIT_MEETING_END p (when_handler w up tap db p)"
proof (cases tap)
  case (CancelEdit mid)
  then show ?thesis
    by (auto simp: cancel_edit_meeting_def intro!: tidy_answers split: sum.split)
qed (use assms in \<open>auto simp: card_defs type_end_datetime_def type_end_time_def
    intro!: tidy_with_owned tidy_with_start tidy_with_end_flow tidy_answers tidy_end_card tidy_reply_or_save tidy_pick_end
    split: option.split\<close>)

lemma tidy_button: "tap_of tap = None \<Longrightarrow> tidy False EDIT_MEETING_START p (when_handler w up tap db p)"
  by (cases tap) (auto simp: card_defs confirm_remove_end_time_def confirm_clear_times_def
    intro!: tidy_with_owned tidy_answers)

section \<open>Runs\<close>

text \<open>A tap or a message of the person, the main menu (which drops everything), or another conversation that is left
  live, which ends the two of this feature (\<open>sole_handle_update\<close>).\<close>

datatype memory_event =
    Tap when_world tg_update when_tap sdb
  | MainMenu
  | OtherConversation

fun memory_step ::
    "(when_state option \<Rightarrow> when_state conv_return \<Rightarrow> when_state option) \<Rightarrow> memory_event \<Rightarrow> when_person \<Rightarrow> when_person" where
  "memory_step upd (Tap w up tap db) p =
     (case when_update upd w up tap db p of None \<Rightarrow> p | Some (q, r) \<Rightarrow> q)"
| "memory_step upd MainMenu p = clean_all_user_data p"
| "memory_step upd OtherConversation p = end_conversations None p"

definition memory_ok :: "when_person \<Rightarrow> bool" where
  "memory_ok p \<longleftrightarrow> sole p \<and>
     (live p START_EDITOR_CONVERSATION \<noteq> None \<longrightarrow> has_meeting_id EDIT_MEETING_START p) \<and>
     (live p END_EDITOR_CONVERSATION \<noteq> None \<longrightarrow> has_meeting_id EDIT_MEETING_END p)"

lemma settles_sole: "settles p q \<Longrightarrow> sole p \<Longrightarrow> sole q"
  unfolding settles_def sole_def by metis

lemma settles_live: "settles p q \<Longrightarrow> live q d \<noteq> None \<Longrightarrow> live p d \<noteq> None \<and> (has_meeting_id x p \<longrightarrow> has_meeting_id x q)"
  unfolding settles_def by metis

lemma memory_settles:
  assumes "settles p q" "memory_ok p"
  shows "memory_ok q"
proof -
  have "has_meeting_id x q" if "live q d \<noteq> None" "live p d \<noteq> None \<longrightarrow> has_meeting_id x p" for d x
    using settles_live [OF assms(1) that(1)] that(2) by blast
  then show ?thesis using assms settles_sole unfolding memory_ok_def by blast
qed

text \<open>One update inside its conversation.\<close>

lemma run_tidy:
  assumes "applies_returns upd" "run_conversation upd c f p = (q, r)" "\<And>p. tidy t x p (f p)"
    and other: "memory_ok p" and own: "c = START_EDITOR_CONVERSATION \<and> x = EDIT_MEETING_START \<or>
      c = END_EDITOR_CONVERSATION \<and> x = EDIT_MEETING_END"
  shows "memory_ok q"
proof -
  obtain p' where f: "f p = (p', r)"
    and q: "\<And>d. live q d = (if upd (live p' c) (wrapped_return r) \<noteq> None \<and> d \<noteq> c then None
      else if d = c then upd (live p' c) (wrapped_return r) else live p' d)"
    and has: "\<And>y. has_meeting_id y q = has_meeting_id y p'"
    using assms(2) by (auto simp: run_conversation_def sole_handle_update_def split: prod.splits if_splits)
  have settled: "settles p p'" and next': "\<And>y s. r = Inr (y, NEXT s) \<Longrightarrow> has_meeting_id x p'"
    using assms(3) [of p] f by (auto simp: tidy_def)
  have ok': "memory_ok p'" by (rule memory_settles [OF settled other])
  have sole: "sole q"
    by (rule sole_run_conversation [OF _ _ assms(2)])
      (use other assms(3) in \<open>auto simp: memory_ok_def ends_only_def tidy_def settles_def\<close>)
  have own_live: "has_meeting_id x q" if "live q c \<noteq> None"
  proof (cases "wrapped_return r")
    case END
    with that q [of c] applies_returnsD(1) [OF assms(1)] show ?thesis by simp
  next
    case NO_CHANGE
    then have "live p' c \<noteq> None" using that q [of c] applies_returnsD(2) [OF assms(1)] by simp
    with ok' own show ?thesis unfolding has memory_ok_def by blast
  next
    case (NEXT s)
    then show ?thesis unfolding has by (auto simp: wrapped_return_def next' split: sum.splits)
  qed
  have rest: "has_meeting_id y q"
    if "live q d \<noteq> None" "d \<noteq> c" "d = START_EDITOR_CONVERSATION \<and> y = EDIT_MEETING_START \<or>
      d = END_EDITOR_CONVERSATION \<and> y = EDIT_MEETING_END" for d y
  proof -
    have "live p' d \<noteq> None" using that(1,2) q [of d] by (auto split: if_splits)
    with ok' that(3) show ?thesis unfolding has memory_ok_def by blast
  qed
  show ?thesis unfolding memory_ok_def using sole own_live rest own by blast
qed

lemma tap_conversation:
  "tap_of tap = Some (c, entry) \<Longrightarrow> c = START_EDITOR_CONVERSATION \<or> c = END_EDITOR_CONVERSATION"
  by (cases tap) auto

lemma memory_step_ok:
  assumes "applies_returns upd" "memory_ok p"
  shows "memory_ok (memory_step upd e p)"
proof (cases e)
  case (Tap w up tap db)
  show ?thesis
  proof (cases "tap_of tap")
    case None
    then have "settles p (fst (when_handler w up tap db p))" using tidy_button by (simp add: tidy_def)
    with assms(2) None show ?thesis
      by (auto simp: Tap when_update_def dest: memory_settles split: prod.splits)
  next
    case (Some ce)
    then obtain c entry where ce: "tap_of tap = Some (c, entry)" by (cases ce) auto
    obtain x where x: "\<And>p. tidy (\<not> entry) x p (when_handler w up tap db p)" and
      own: "c = START_EDITOR_CONVERSATION \<and> x = EDIT_MEETING_START \<or> c = END_EDITOR_CONVERSATION \<and> x = EDIT_MEETING_END"
      using tap_conversation [OF ce] tidy_start_handler tidy_end_handler ce by metis
    show ?thesis
      using run_tidy [OF assms(1) _ x assms(2) own] assms(2)
      by (auto simp: Tap when_update_def ce split: option.split prod.split)
  qed
qed (use assms(2) in \<open>auto simp: memory_ok_def sole_def\<close>)

interpretation memory: invariant_system "det (memory_step upd)" "\<lambda>p. applies_returns upd \<and> memory_ok p" for upd
  by unfold_locales (simp add: memory_step_ok)

text \<open>C15. Typed input finds its meeting. However a person goes back and forth between the two cards, their prompts and
  confirmations, the main menu and other conversations, with meetings being changed or deleted under them: at most one
  conversation is live, and a handler of the feature fails only by a guard turning the person away. The assertions that
  an end has a start hold, and no message is read in a conversation whose stored meeting is gone.\<close>

theorem typed_input_finds_its_meeting:
  assumes "applies_returns upd" "steps (det (memory_step upd)) fresh_person es p"
  shows "(live p c \<noteq> None \<longrightarrow> live p d \<noteq> None \<longrightarrow> c = d) \<and>
    (when_update upd w up tap db p = Some (q, Inl e) \<longrightarrow> (\<exists>g. e = WhenRejected g))"
proof -
  have ok: "memory_ok p" by (rule memory.steps_inv [OF assms(2), THEN conjunct2])
      (simp add: assms(1) memory_ok_def sole_def fresh_person_def)
  have "\<exists>g. e = WhenRejected g" if run: "when_update upd w up tap db p = Some (q, Inl e)"
  proof (cases "tap_of tap")
    case None
    then have "tidy False EDIT_MEETING_START p (q, Inl e)"
      using run tidy_button [OF None, of p w up db] by (simp add: when_update_def)
    then show ?thesis by (cases e) (simp_all add: tidy_def)
  next
    case (Some ce)
    then obtain c entry where ce: "tap_of tap = Some (c, entry)" by (cases ce) auto
    obtain x where x: "tidy (\<not> entry) x p (when_handler w up tap db p)" and
      own: "c = START_EDITOR_CONVERSATION \<and> x = EDIT_MEETING_START \<or> c = END_EDITOR_CONVERSATION \<and> x = EDIT_MEETING_END"
      using tap_conversation [OF ce] tidy_start_handler tidy_end_handler ce by metis
    have live: "\<not> entry \<longrightarrow> live p c \<noteq> None" and "snd (when_handler w up tap db p) = Inl e"
      using run by (auto simp: when_update_def ce run_conversation_def sole_handle_update_def split: if_splits prod.splits)
    with x have "e \<noteq> AssertionFailed" "e = ContextPropertyNotSet \<longrightarrow> \<not> entry \<and> \<not> has_meeting_id x p"
      by (simp_all add: tidy_def)
    moreover have "\<not> entry \<longrightarrow> has_meeting_id x p" using live own ok unfolding memory_ok_def by blast
    ultimately show ?thesis by (cases e) blast+
  qed
  then show ?thesis using ok unfolding memory_ok_def sole_def by blast
qed

end
