(* ===== verification/Schedule_Examples.thy ===== *)
theory Schedule_Examples
  imports When_Memory Roster_Examples
begin

text \<open>
  A meeting of an owner whose clocks go back an hour on day 10, at three in the morning. On day 4 the owner picks day 8,
  types 09:30 and picks day 15 for the end, which is held to a local week: 09:30 on day 15, a week and an hour of
  elapsed time later.
\<close>

definition ex_zone :: zone where
  "ex_zone = \<lparr>z_before = minutes 120, z_trans = [(days 10 + minutes 60, minutes 60)]\<rparr>"

definition ex_zones :: "string \<Rightarrow> zone option" where
  "ex_zones name = (if name = ''Europe/Madrid'' then Some ex_zone else None)"

definition ex_owner :: user where
  "ex_owner = (ex_user 0)\<lparr>u_settings := default_settings\<lparr>timezone := ''Europe/Madrid''\<rparr>\<rparr>"

definition ex_draft :: meetup_row where
  "ex_draft = ex_row\<lparr>datetime := None\<rparr>"

definition ex_when_db :: "meetup_row \<Rightarrow> sdb" where
  "ex_when_db m = \<lparr>users = [ex_owner], meetups = [m], links = [], cards = [], pending = []\<rparr>"

definition ex_when_world :: when_world where
  "ex_when_world = \<lparr>ww_limits = default_limits, ww_zones = ex_zones, ww_clock = (\<lambda>reading. days 4)\<rparr>"

definition ex_memory :: when_person where
  "ex_memory = store_meeting_id EDIT_MEETING_START 5 fresh_person"

definition ex_day8 :: meetup_row where "ex_day8 = ex_draft\<lparr>datetime := Some (days 8 + minutes 1319)\<rparr>"
definition ex_half_nine :: meetup_row where "ex_half_nine = ex_draft\<lparr>datetime := Some (days 8 + minutes 450)\<rparr>"
definition ex_week :: meetup_row where "ex_week = ex_half_nine\<lparr>end_datetime := Some (days 15 + minutes 510)\<rparr>"

definition ex_schedule_events :: "schedule_event list" where
  "ex_schedule_events =
     [Tapped ex_when_world (ex_tap_of 0) (PickStart 5 8) fresh_person,
      Tapped ex_when_world (ex_tap_of 0) (TypeStartTime 9 30) ex_memory,
      Tapped ex_when_world (ex_tap_of 0) (PickEnd 5 15) fresh_person]"

lemma ex_schedule_steps:
  "schedule_step ex_zones (Tapped ex_when_world (ex_tap_of 0) (PickStart 5 8) fresh_person) (ex_when_db ex_draft) = ex_when_db ex_day8"
  "schedule_step ex_zones (Tapped ex_when_world (ex_tap_of 0) (TypeStartTime 9 30) ex_memory) (ex_when_db ex_day8) = ex_when_db ex_half_nine"
  "schedule_step ex_zones (Tapped ex_when_world (ex_tap_of 0) (PickEnd 5 15) fresh_person) (ex_when_db ex_half_nine) = ex_when_db ex_week"
  by code_simp+

lemma ex_schedule_run: "steps (det (schedule_step ex_zones)) (ex_when_db ex_draft) ex_schedule_events (ex_when_db ex_week)"
  unfolding ex_schedule_events_def using ex_schedule_steps by simp

lemmas ex_schedule_defs = ex_when_db_def ex_draft_def ex_day8_def ex_half_nine_def ex_week_def ex_owner_def ex_row_def ex_user_def

lemma ex_schedule_ok: "schedules_ok ex_zones (ex_when_db ex_draft)"
  by (simp add: schedules_ok_def schedule_ok_def ex_schedule_defs)

theorem schedules_stay_valid_witness:
  "\<exists>start. datetime ex_week = Some start \<and> start < days 15 + minutes 510 \<and>
    wall (settings_tz ex_zones (u_settings ex_owner)) (days 15 + minutes 510) \<le>
    wall (settings_tz ex_zones (u_settings ex_owner)) start + days 7"
  by (rule schedules_stay_valid [OF ex_schedule_ok ex_schedule_run]) (simp_all add: ex_schedule_defs)

definition result_tables :: "when_result \<Rightarrow> sdb option" where
  "result_tables r = (case snd r of Inl e \<Rightarrow> None | Inr x \<Rightarrow> Some (fst (fst x)))"

lemma result_tablesE:
  assumes "result_tables r = Some db"
  obtains p scr nxt where "r = (p, Inr ((db, scr), nxt))"
  using assms by (cases r) (auto simp: result_tables_def split: sum.splits)

theorem written_moments_allowed_witness:
  "ex_day8 \<notin> set (meetups (ex_when_db ex_draft)) \<and>
   (\<exists>u m. current_user (ex_tap_of 0) (ex_when_db ex_draft) = Inr u \<and> m \<in> set (meetups (ex_when_db ex_draft)) \<and>
      owner_id m = u_id u \<and> ww_clock ex_when_world PAST_CHECK < days 8 + minutes 1319)"
proof -
  have "result_tables (when_handler ex_when_world (ex_tap_of 0) (PickStart 5 8) (ex_when_db ex_draft) fresh_person) =
      Some (ex_when_db ex_day8)"
    by code_simp
  then obtain p' scr nxt where run: "when_handler ex_when_world (ex_tap_of 0) (PickStart 5 8) (ex_when_db ex_draft) fresh_person =
      (p', Inr ((ex_when_db ex_day8, scr), nxt))"
    by (rule result_tablesE)
  have new: "ex_day8 \<in> set (meetups (ex_when_db ex_day8))" "ex_day8 \<notin> set (meetups (ex_when_db ex_draft))"
    by (simp_all add: ex_schedule_defs)
  from written_moments_allowed [OF run new] obtain u m where
    "current_user (ex_tap_of 0) (ex_when_db ex_draft) = Inr u" "m \<in> set (meetups (ex_when_db ex_draft))" "owner_id m = u_id u"
    and moments: "\<forall>start. datetime ex_day8 = Some start \<longrightarrow> datetime m \<noteq> Some start \<longrightarrow> ww_clock ex_when_world PAST_CHECK < start \<and>
       (types_start_time (PickStart 5 8) \<or> within_scheduling_horizon (ww_limits ex_when_world) (zone_of ex_when_world u)
          (ww_clock ex_when_world HORIZON_CHECK) (u_supporter_level u) start)"
    by blast
  moreover have "datetime ex_day8 = Some (days 8 + minutes 1319)" "datetime m \<noteq> Some (days 8 + minutes 1319)"
    using calculation(2) by (simp_all add: ex_schedule_defs)
  ultimately show ?thesis using new(2) by blast
qed

lemma ex_zone_ok: "zone_ok ex_zone"
  by code_simp

theorem repicking_keeps_schedule_witness:
  "case snd (pick_end_date ex_when_world (ex_tap_of 0) 5 15 (ex_when_db ex_week) fresh_person) of
     Inl e \<Rightarrow> False | Inr ((db', screens), nxt) \<Rightarrow> db' = ex_when_db ex_week"
proof -
  have zone: "zone_of ex_when_world ex_owner = ex_zone" by code_simp
  have "result_tables (pick_end_date ex_when_world (ex_tap_of 0) 5 15 (ex_when_db ex_week) fresh_person) \<noteq> None" by code_simp
  then obtain db' where "result_tables (pick_end_date ex_when_world (ex_tap_of 0) 5 15 (ex_when_db ex_week) fresh_person) = Some db'"
    by blast
  then obtain p' scr nxt where run:
    "pick_end_date ex_when_world (ex_tap_of 0) 5 15 (ex_when_db ex_week) fresh_person = (p', Inr ((db', scr), nxt))"
    by (rule result_tablesE)
  have "zone_ok (zone_of ex_when_world ex_owner)" by (simp add: zone ex_zone_ok)
  moreover have "distinct (map m_id (meetups (ex_when_db ex_week)))" by (simp add: ex_schedule_defs)
  moreover have "schedule_ok (zone_of ex_when_world ex_owner) ex_week" by code_simp
  moreover have "current_user (ex_tap_of 0) (ex_when_db ex_week) = Inr ex_owner" by code_simp
  moreover have "meeting (ex_when_db ex_week) (Some ex_owner) 5 OWNER = Inr ex_week" by code_simp
  moreover have "datetime ex_week = Some (days 8 + minutes 450)" by (simp add: ex_schedule_defs)
  moreover have "end_datetime ex_week = Some (days 15 + minutes 510)" by (simp add: ex_schedule_defs)
  moreover have "date_in (zone_of ex_when_world ex_owner) (days 15 + minutes 510) = 15" by code_simp
  ultimately have "db' = ex_when_db ex_week"
    using repicking_keeps_schedule [where stop = "days 15 + minutes 510"] run by metis
  then show ?thesis by (simp add: run)
qed

definition ex_upd :: "when_state option \<Rightarrow> when_state conv_return \<Rightarrow> when_state option" where
  "ex_upd cur r = (case r of END \<Rightarrow> None | NO_CHANGE \<Rightarrow> cur | NEXT s \<Rightarrow> Some s)"

definition ex_deleted :: sdb where "ex_deleted = (ex_when_db ex_draft)\<lparr>meetups := []\<rparr>"

text \<open>The card is opened, the meeting deleted, and a time typed: the guard answers.\<close>

theorem typed_input_finds_its_meeting_witness:
  "\<exists>p q. steps (det (memory_step ex_upd)) fresh_person [Tap ex_when_world (ex_tap_of 0) (OpenStart 5) (ex_when_db ex_draft)] p \<and>
     when_update ex_upd ex_when_world (ex_tap_of 0) (TypeStartTime 9 30) ex_deleted p = Some (q, Inl (WhenRejected MeetingGone)) \<and>
     (\<exists>g. WhenRejected MeetingGone = WhenRejected g)"
proof -
  have upd: "applies_returns ex_upd" by (simp add: applies_returns_def ex_upd_def)
  let ?p = "memory_step ex_upd (Tap ex_when_world (ex_tap_of 0) (OpenStart 5) (ex_when_db ex_draft)) fresh_person"
  have run: "steps (det (memory_step ex_upd)) fresh_person [Tap ex_when_world (ex_tap_of 0) (OpenStart 5) (ex_when_db ex_draft)] ?p"
    by simp
  have "map_option snd (when_update ex_upd ex_when_world (ex_tap_of 0) (TypeStartTime 9 30) ex_deleted ?p) =
      Some (Inl (WhenRejected MeetingGone))"
    by code_simp
  then obtain q where q: "when_update ex_upd ex_when_world (ex_tap_of 0) (TypeStartTime 9 30) ex_deleted ?p =
      Some (q, Inl (WhenRejected MeetingGone))"
    by (auto simp del: memory_step.simps)
  show ?thesis using typed_input_finds_its_meeting [OF upd run] run q by blast
qed

section \<open>Two corners\<close>

text \<open>Clearing the times keeps the start lock.\<close>

lemma clearing_keeps_the_lock:
  "result_tables (confirm_clear_times (ex_tap_of 0) 5 (ex_when_db (ex_week\<lparr>lock_on_start := True\<rparr>)) fresh_person) =
   Some (ex_when_db (ex_week\<lparr>lock_on_start := True, datetime := None, end_datetime := None\<rparr>))"
  by code_simp

text \<open>On day 4 a title may carry a moment of day 1, and the next sweep finds the new meeting over.\<close>

lemma title_date_may_be_past:
  "\<exists>m. create_meeting ex_when_world 6 (ex_tap_of 0) 20 (Some (days 1)) (ex_when_db ex_draft) =
         Inr ((ex_when_db ex_draft)\<lparr>meetups := [ex_draft, m]\<rparr>, Created 6) \<and>
       datetime m = Some (days 1) \<and> due_for_deactivation (days 4) m ex_owner"
proof (intro exI conjI)
  let ?m = "new_meetup 6 (days 4) (Some (days 1)) ex_owner"
  show "create_meeting ex_when_world 6 (ex_tap_of 0) 20 (Some (days 1)) (ex_when_db ex_draft) =
      Inr ((ex_when_db ex_draft)\<lparr>meetups := [ex_draft, ?m]\<rparr>, Created 6)"
    by code_simp
  show "datetime ?m = Some (days 1)" by simp
  show "due_for_deactivation (days 4) ?m ex_owner"
    by (simp add: due_for_deactivation_iff new_meetup_def Let_def days_def minutes_def ex_owner_def ex_user_def
        default_settings_def)
qed

end
