(* ===== verification/Card_Queue.thy ===== *)
theory Card_Queue
  imports Prelude "HOL-Library.AList"
begin

text \<open>
  The background queue of \<^verbatim>\<open>libs/telegram/mitup_bot/card_refresh.py\<close> and the job types it holds
  (\<^verbatim>\<open>api_wrapper.py\<close>).

  A Python dict is its association list in insertion order: assigning to a key that is present keeps its
  place (\<open>AList.update\<close>), \<open>del\<close> is \<open>AList.delete\<close>, \<open>setdefault\<close> adds at the end when the key is absent.
  \<open>perf_counter\<close> readings are instants, passed to the operations that read the clock; a hold in seconds
  is a duration. \<open>'p\<close> is the rendered message of a keyed send, which the queue never looks into.
  What running a job does (a refresh draws cards, a send posts) is in the theory Outbox; here an execution is
  how it ended. The log lines the queue writes and the metric records it emits are lists of the state.
\<close>

section \<open>Jobs\<close>

datatype key_part = Text string | Number int

type_synonym job_key = "key_part list"

definition meeting_job_key :: "int \<Rightarrow> job_key" where
  "meeting_job_key mid = [Text ''meeting'', Number mid]"

record job_facts =
  origin_update_id :: "int option"
  hold_seconds :: duration
  coalesced :: nat
  attempt :: nat
  enqueued_at :: instant
  hold_since :: instant

record meeting_refresh = job_facts +
  meeting_id :: int
  skip_message_db_id :: "int option"
  message_db_ids :: "int set option"

record 'p keyed_send = job_facts +
  send_key :: job_key
  send_chat_id :: int
  send_payload :: 'p

datatype 'p background_job = Meeting_Refresh meeting_refresh | Keyed_Send "'p keyed_send"

fun job_key :: "'p background_job \<Rightarrow> job_key" where
  "job_key (Meeting_Refresh r) = meeting_job_key (meeting_id r)"
| "job_key (Keyed_Send s) = send_key s"

fun hold_ends :: "'p background_job \<Rightarrow> instant" where
  "hold_ends (Meeting_Refresh r) = hold_since r + hold_seconds r"
| "hold_ends (Keyed_Send s) = hold_since s + hold_seconds s"

fun job_enqueued_at :: "'p background_job \<Rightarrow> instant" where
  "job_enqueued_at (Meeting_Refresh r) = enqueued_at r"
| "job_enqueued_at (Keyed_Send s) = enqueued_at s"

fun next_attempt :: "'p background_job \<Rightarrow> 'p background_job" where
  "next_attempt (Meeting_Refresh r) = Meeting_Refresh (r\<lparr>attempt := attempt r + 1\<rparr>)"
| "next_attempt (Keyed_Send s) = Keyed_Send (s\<lparr>attempt := attempt s + 1\<rparr>)"

section \<open>Merging two submits made under one key\<close>

definition merge_skip :: "int option \<Rightarrow> int option \<Rightarrow> int option" where
  "merge_skip waiting incoming = (if waiting = incoming then waiting else None)"

fun merge_scopes :: "int set option \<Rightarrow> int set option \<Rightarrow> int set option" where
  "merge_scopes None incoming = None"
| "merge_scopes (Some waiting) None = None"
| "merge_scopes (Some waiting) (Some incoming) = Some (waiting \<union> incoming)"

definition coalesce :: "meeting_refresh \<Rightarrow> meeting_refresh \<Rightarrow> meeting_refresh" where
  "coalesce waiting incoming = waiting\<lparr>
     skip_message_db_id := merge_skip (skip_message_db_id waiting) (skip_message_db_id incoming),
     message_db_ids := merge_scopes (message_db_ids waiting) (message_db_ids incoming),
     coalesced := coalesced waiting + 1,
     hold_seconds := hold_seconds incoming,
     hold_since := hold_since incoming\<rparr>"

definition keep_place :: "'a job_facts_scheme \<Rightarrow> 'b job_facts_scheme \<Rightarrow> 'b job_facts_scheme" where
  "keep_place waiting incoming = incoming\<lparr>
     origin_update_id := origin_update_id waiting,
     coalesced := coalesced waiting + 1,
     attempt := attempt waiting,
     enqueued_at := enqueued_at waiting\<rparr>"

fun merge_jobs :: "'p background_job \<Rightarrow> 'p background_job \<Rightarrow> 'p background_job" where
  "merge_jobs (Meeting_Refresh w) (Meeting_Refresh i) = Meeting_Refresh (coalesce w i)"
| "merge_jobs (Keyed_Send w) (Meeting_Refresh i) = Meeting_Refresh (keep_place w i)"
| "merge_jobs (Meeting_Refresh w) (Keyed_Send i) = Keyed_Send (keep_place w i)"
| "merge_jobs (Keyed_Send w) (Keyed_Send i) = Keyed_Send (keep_place w i)"

section \<open>The state of the queue\<close>

record 'p running_job =
  job :: "'p background_job"
  started :: instant

datatype job_outcome = REFRESHED | SENT | SKIPPED | FAILED
datatype schedule_outcome = QUEUED | COALESCED
datatype job_state = PENDING | IN_FLIGHT
datatype drop_reason = QUEUE_FULL | SHUTTING_DOWN

record tick_counters =
  queued_high_water :: nat
  succeeded :: nat
  failed :: nat

datatype job_metric = JOBS_QUEUED | JOBS_SUCCEEDED | JOBS_FAILED | OLDEST_JOB_AGE | JOB_PROCESSING_TIME | FAULT

text \<open>One metric record: the key, the value, and the run id a window's records carry.\<close>

type_synonym emission = "job_metric \<times> int \<times> string option"

datatype worker_line =
  Job_Dropped job_key drop_reason
| Jobs_Scheduled job_key schedule_outcome nat
| Job_Finished job_key job_outcome
| Window_Finished tick_counters nat
| Still_Outstanding job_key job_state int
| Jobs_Abandoned nat nat

record 'p refresh_queue =
  q_pending :: "(job_key \<times> 'p background_job) list"
  q_in_flight :: "(job_key \<times> 'p running_job) list"
  counters :: tick_counters
  work_available :: bool
  accepting :: bool
  max_pending :: nat
  accepts_fanout :: bool
  run_id :: string
  emitted :: "emission list"
  flushed :: "emission list list"
  lines :: "worker_line list"

definition MAX_PENDING :: nat where
  "MAX_PENDING = 500"

definition new_queue :: "nat \<Rightarrow> bool \<Rightarrow> string \<Rightarrow> 'p refresh_queue" where
  "new_queue bound fanout rid =
     \<lparr>q_pending = [], q_in_flight = [], counters = \<lparr>queued_high_water = 0, succeeded = 0, failed = 0\<rparr>,
      work_available = False, accepting = True, max_pending = bound, accepts_fanout = fanout, run_id = rid,
      emitted = [], flushed = [], lines = []\<rparr>"

definition record_depth :: "nat \<Rightarrow> tick_counters \<Rightarrow> tick_counters" where
  "record_depth depth c = c\<lparr>queued_high_water := max (queued_high_water c) depth\<rparr>"

text \<open>\<open>TickCounters.drain\<close>: what the window accumulated, and the counters reset.\<close>

definition drain_counters :: "nat \<Rightarrow> tick_counters \<Rightarrow> tick_counters \<times> tick_counters" where
  "drain_counters depth c = (record_depth depth c, \<lparr>queued_high_water = 0, succeeded = 0, failed = 0\<rparr>)"

definition log_line :: "worker_line \<Rightarrow> 'p refresh_queue \<Rightarrow> 'p refresh_queue" where
  "log_line l q = q\<lparr>lines := lines q @ [l]\<rparr>"

definition emit :: "emission list \<Rightarrow> 'p refresh_queue \<Rightarrow> 'p refresh_queue" where
  "emit es q = q\<lparr>emitted := emitted q @ es\<rparr>"

section \<open>Submitting\<close>

fun unskipped :: "'p background_job \<Rightarrow> 'p background_job" where
  "unskipped (Meeting_Refresh r) = Meeting_Refresh (r\<lparr>skip_message_db_id := None\<rparr>)"
| "unskipped (Keyed_Send s) = Keyed_Send s"

definition submitted_job :: "'p background_job \<Rightarrow> 'p refresh_queue \<Rightarrow> 'p background_job" where
  "submitted_job j q =
     (let j = (if map_of (q_in_flight q) (job_key j) \<noteq> None then unskipped j else j) in
      case map_of (q_pending q) (job_key j) of
        Some waiting \<Rightarrow> merge_jobs waiting j
      | None \<Rightarrow> j)"

definition submit :: "'p background_job \<Rightarrow> 'p refresh_queue \<Rightarrow> bool \<times> 'p refresh_queue" where
  "submit j q =
     (if \<not> accepting q then (False, log_line (Job_Dropped (job_key j) SHUTTING_DOWN) q)
      else
        let merged = map_of (q_pending q) (job_key j) \<noteq> None in
        if \<not> merged \<and> max_pending q \<le> length (q_pending q)
        then (False, log_line (Job_Dropped (job_key j) QUEUE_FULL) q)
        else
          let j' = submitted_job j q;
              waiting = AList.update (job_key j) j' (q_pending q)
          in (True, log_line (Jobs_Scheduled (job_key j') (if merged then COALESCED else QUEUED) (length waiting))
                (q\<lparr>q_pending := waiting, counters := record_depth (length waiting) (counters q),
                   work_available := True\<rparr>)))"

section \<open>Taking a job\<close>

definition seconds_until_ready :: "instant \<Rightarrow> 'p refresh_queue \<Rightarrow> 'p background_job \<Rightarrow> duration" where
  "seconds_until_ready now q j = (if \<not> accepting q then 0 else max 0 (hold_ends j - now))"

definition next_ready_in :: "instant \<Rightarrow> 'p refresh_queue \<Rightarrow> duration option" where
  "next_ready_in now q =
     (if q_pending q = [] then None
      else Some (Min (set (map (\<lambda>(k, j). seconds_until_ready now q j) (q_pending q)))))"

definition take_job :: "instant \<Rightarrow> 'p refresh_queue \<Rightarrow> ('p running_job \<times> 'p refresh_queue) option" where
  "take_job now q =
     (case List.find (\<lambda>(k, j). seconds_until_ready now q j = 0) (q_pending q) of
        None \<Rightarrow> None
      | Some (k, j) \<Rightarrow>
          let running = \<lparr>job = j, started = now\<rparr> in
          Some (running, q\<lparr>q_pending := AList.delete (job_key j) (q_pending q),
                           q_in_flight := AList.update (job_key j) running (q_in_flight q)\<rparr>))"

definition requeue :: "'p background_job \<Rightarrow> 'p refresh_queue \<Rightarrow> 'p refresh_queue" where
  "requeue j q =
     q\<lparr>q_pending := (case map_of (q_pending q) (job_key j) of
                      Some _ \<Rightarrow> q_pending q
                    | None \<Rightarrow> q_pending q @ [(job_key j, next_attempt j)]),
       work_available := True\<rparr>"

section \<open>Running a job\<close>

text \<open>
  How the execution of a job ended: with an outcome, with an exception (a job that outran its timeout
  raises \<open>TimeoutError\<close>), or with the cancellation that stops the worker, which \<open>run_job\<close> does not catch.
\<close>

datatype execution = Ends job_outcome | Raises | Is_Cancelled

fun run_job :: "execution \<Rightarrow> 'p running_job \<Rightarrow> 'p refresh_queue \<Rightarrow> job_outcome option \<times> 'p refresh_queue" where
  "run_job (Ends outcome) r q =
     (Some outcome, log_line (Job_Finished (job_key (job r)) outcome)
        (q\<lparr>counters := (counters q)\<lparr>succeeded := succeeded (counters q) + 1\<rparr>\<rparr>))"
| "run_job Raises r q =
     (Some FAILED, log_line (Job_Finished (job_key (job r)) FAILED)
        (q\<lparr>counters := (counters q)\<lparr>failed := failed (counters q) + 1\<rparr>\<rparr>))"
| "run_job Is_Cancelled r q = (None, q)"

text \<open>\<open>age_ms\<close> rounds a number of milliseconds to the nearest integer, halves to the even one.\<close>

definition age_ms :: "instant \<Rightarrow> instant \<Rightarrow> int" where
  "age_ms now since =
     (let d = (now - since) div 1000; r = (now - since) mod 1000 in
      if r < 500 \<or> r = 500 \<and> even d then d else d + 1)"

text \<open>
  \<open>run_next\<close> after \<open>take\<close>: the job has run, and its key leaves the jobs in flight. The answer is False
  when the cancellation goes on to the caller.
\<close>

definition finish_job :: "execution \<Rightarrow> instant \<Rightarrow> 'p running_job \<Rightarrow> 'p refresh_queue \<Rightarrow> bool \<times> 'p refresh_queue" where
  "finish_job ex now r q =
     (let (outcome, q1) = run_job ex r q;
          q2 = (if outcome = None then requeue (job r) q1 else q1);
          q3 = emit [(JOB_PROCESSING_TIME, age_ms now (started r), None)]
                 (q2\<lparr>q_in_flight := AList.delete (job_key (job r)) (q_in_flight q2)\<rparr>)
      in case outcome of
           None \<Rightarrow> (False, q3)
         | Some x \<Rightarrow> (True, emit [(FAULT, of_bool (x = FAILED), None)] q3))"

section \<open>Reporting\<close>

definition oldest_job :: "instant \<Rightarrow> 'p refresh_queue \<Rightarrow> ('p background_job \<times> job_state \<times> int) option" where
  "oldest_job now q =
     (let outstanding =
        map (\<lambda>(k, r). (job r, IN_FLIGHT, age_ms now (started r))) (q_in_flight q) @
        map (\<lambda>(k, j). (j, PENDING, age_ms now (job_enqueued_at j))) (q_pending q)
      in List.find (\<lambda>(j, s, age). list_all (\<lambda>(j', s', age'). age' \<le> age) outstanding) outstanding)"

definition emit_window :: "tick_counters \<Rightarrow> ('p background_job \<times> job_state \<times> int) option \<Rightarrow> 'p refresh_queue
    \<Rightarrow> 'p refresh_queue" where
  "emit_window tick oldest q = emit
     [(JOBS_QUEUED, int (queued_high_water tick), Some (run_id q)),
      (JOBS_SUCCEEDED, int (succeeded tick), Some (run_id q)),
      (JOBS_FAILED, int (failed tick), Some (run_id q)),
      (OLDEST_JOB_AGE, (case oldest of Some (j, s, age) \<Rightarrow> age | None \<Rightarrow> 0), Some (run_id q))] q"

definition report_window :: "instant \<Rightarrow> 'p refresh_queue \<Rightarrow> 'p refresh_queue" where
  "report_window now q =
     (let (tick, c) = drain_counters (length (q_pending q)) (counters q);
          q1 = q\<lparr>counters := c\<rparr>;
          oldest = oldest_job now q1;
          q2 = log_line (Window_Finished tick (length (q_pending q))) (emit_window tick oldest q1)
      in case oldest of
           Some (j, s, age) \<Rightarrow> log_line (Still_Outstanding (job_key j) s age) q2
         | None \<Rightarrow> q2)"

text \<open>The flush carries out everything emitted; then the next window opens under a fresh id.\<close>

definition publish :: "instant \<Rightarrow> string \<Rightarrow> 'p refresh_queue \<Rightarrow> 'p refresh_queue" where
  "publish now fresh q =
     (let q1 = report_window now q in q1\<lparr>emitted := [], flushed := flushed q1 @ [emitted q1], run_id := fresh\<rparr>)"

section \<open>Stopping\<close>

text \<open>
  The shutdown drain. Turn \<open>n\<close> of the environment is when the job is taken, how it ends, and when. The
  deadline running out cancels the job the drain is in, and ends the drain.
\<close>

type_synonym turn = "instant \<times> execution \<times> instant"

definition run_next :: "turn \<Rightarrow> 'p refresh_queue \<Rightarrow> bool \<times> 'p refresh_queue" where
  "run_next t q =
     (case t of (now, ex, ended) \<Rightarrow>
        case take_job now q of
          None \<Rightarrow> (True, q)
        | Some (r, q') \<Rightarrow> finish_job ex ended r q')"

partial_function (option) drain_loop :: "(nat \<Rightarrow> turn) \<Rightarrow> nat \<Rightarrow> 'p refresh_queue \<Rightarrow> 'p refresh_queue option" where
  "drain_loop env n q =
     (if q_pending q = [] then Some q
      else if fst (run_next (env n) q) then drain_loop env (Suc n) (snd (run_next (env n) q))
      else Some (snd (run_next (env n) q)))"

definition drain_pending :: "(nat \<Rightarrow> turn) \<Rightarrow> instant \<Rightarrow> string \<Rightarrow> 'p refresh_queue \<Rightarrow> 'p refresh_queue option" where
  "drain_pending env now fresh q = map_option (publish now fresh) (drain_loop env 0 (q\<lparr>accepting := False\<rparr>))"

definition report_abandoned :: "'p refresh_queue \<Rightarrow> 'p refresh_queue" where
  "report_abandoned q =
     (if q_pending q = [] then q
      else log_line (Jobs_Abandoned (length (q_pending q)) (length (q_in_flight q))) q)"

text \<open>
  The end of \<open>run_worker\<close>: the cancellation first reaches the job the drain loop is in, if it is in one.
\<close>

definition interrupt_running :: "instant \<Rightarrow> 'p refresh_queue \<Rightarrow> 'p refresh_queue" where
  "interrupt_running now q =
     (case q_in_flight q of
        [] \<Rightarrow> q
      | (k, r) # rest \<Rightarrow> snd (finish_job Is_Cancelled now r q))"

definition stop_worker :: "(nat \<Rightarrow> turn) \<Rightarrow> instant \<Rightarrow> string \<Rightarrow> 'p refresh_queue \<Rightarrow> 'p refresh_queue option" where
  "stop_worker env now fresh q =
     map_option report_abandoned (drain_pending env now fresh (interrupt_running now q))"

end
