(* ===== verification/Card_Queue_Props.thy ===== *)
theory Card_Queue_Props
  imports Card_Queue
begin

text \<open>
  The laws of the background queue.

  The locale \<open>keyed_jobs\<close> states what a dict of jobs needs from its merge: the merged job keeps the key and
  covers whatever either of the two covered. It is interpreted on \<open>job_key\<close>, \<open>merge_jobs\<close> and the cards a
  refresh draws. The step relation \<open>worker_step\<close> interleaves commits, submits, the one job the worker runs
  (taken, reading its meeting, ending) and the stop of the worker; its ghost state says which version of its
  meeting each card is owed and which it shows.
\<close>

section \<open>Dicts of jobs\<close>

definition good_dict :: "('j \<Rightarrow> 'k) \<Rightarrow> ('j \<Rightarrow> bool) \<Rightarrow> ('k \<times> 'j) list \<Rightarrow> bool" where
  "good_dict key ok d \<longleftrightarrow> distinct (map fst d) \<and> (\<forall>k j. (k, j) \<in> set d \<longrightarrow> key j = k \<and> ok j)"

definition dict_covers :: "('j \<Rightarrow> 'c \<Rightarrow> bool) \<Rightarrow> ('k \<times> 'j) list \<Rightarrow> 'c \<Rightarrow> bool" where
  "dict_covers covers d c \<longleftrightarrow> (\<exists>k j. (k, j) \<in> set d \<and> covers j c)"

lemma good_dict_Nil [simp]: "good_dict key ok []" and dict_covers_Nil [simp]: "\<not> dict_covers covers [] c"
  by (simp_all add: good_dict_def dict_covers_def)

lemma good_dictD: "good_dict key ok d \<Longrightarrow> (k, j) \<in> set d \<Longrightarrow> key j = k \<and> ok j"
  by (auto simp: good_dict_def)

lemma good_dict_delete: "good_dict key ok d \<Longrightarrow> good_dict key ok (AList.delete k d)"
  unfolding good_dict_def by (intro conjI, simp add: AList.distinct_delete) (auto simp: AList.delete_eq)

lemma good_dict_append: "good_dict key ok d \<Longrightarrow> ok j \<Longrightarrow> map_of d (key j) = None \<Longrightarrow> good_dict key ok (d @ [(key j, j)])"
  by (auto simp: good_dict_def map_of_eq_None_iff)

lemma good_dict_lookup: "good_dict key ok d \<Longrightarrow> map_of d k = Some j \<Longrightarrow> key j = k \<and> ok j"
  by (auto simp: good_dict_def dest: map_of_SomeD)

lemma mem_update_iff:
  "distinct (map fst d) \<Longrightarrow> (k', j') \<in> set (AList.update k j d) \<longleftrightarrow> (if k' = k then j' = j else (k', j') \<in> set d)"
  by (induction d) (auto simp: image_iff)

lemma good_dict_update: "good_dict key ok d \<Longrightarrow> ok j \<Longrightarrow> good_dict key ok (AList.update (key j) j d)"
  by (auto simp: good_dict_def mem_update_iff AList.distinct_update split: if_splits)

lemma dict_covers_update:
  "distinct (map fst d) \<Longrightarrow> dict_covers covers (AList.update k j d) c \<longleftrightarrow>
     covers j c \<or> (\<exists>k' j'. k' \<noteq> k \<and> (k', j') \<in> set d \<and> covers j' c)"
  unfolding dict_covers_def by (auto simp: mem_update_iff)

lemma length_update_alist:
  "length (AList.update k j d) = (if map_of d k = None then Suc (length d) else length d)"
  by (induction d) (auto split: if_splits)

locale keyed_jobs =
  fixes key :: "'j \<Rightarrow> 'k" and ok :: "'j \<Rightarrow> bool" and covers :: "'j \<Rightarrow> 'c \<Rightarrow> bool" and merge :: "'j \<Rightarrow> 'j \<Rightarrow> 'j"
  assumes merge_key: "key w = key i \<Longrightarrow> key (merge w i) = key i"
    and merge_ok: "ok w \<Longrightarrow> ok i \<Longrightarrow> ok (merge w i)"
    and merge_covers: "ok w \<Longrightarrow> ok i \<Longrightarrow> key w = key i \<Longrightarrow> covers w c \<or> covers i c \<Longrightarrow> covers (merge w i) c"
begin

definition put :: "'j \<Rightarrow> ('k \<times> 'j) list \<Rightarrow> 'j" where
  "put i d = (case map_of d (key i) of Some w \<Rightarrow> merge w i | None \<Rightarrow> i)"

lemma put_key: "good_dict key ok d \<Longrightarrow> key (put i d) = key i"
  by (auto simp: put_def split: option.splits dest!: good_dict_lookup intro: merge_key)

lemma put_ok: "good_dict key ok d \<Longrightarrow> ok i \<Longrightarrow> ok (put i d)"
  by (auto simp: put_def split: option.splits dest!: good_dict_lookup intro: merge_ok)

lemma put_good: "good_dict key ok d \<Longrightarrow> ok i \<Longrightarrow> good_dict key ok (AList.update (key i) (put i d) d)"
  using good_dict_update [of key ok d "put i d"] by (simp add: put_key put_ok)

lemma put_covers_new: "good_dict key ok d \<Longrightarrow> ok i \<Longrightarrow> covers i c \<Longrightarrow> covers (put i d) c"
  by (auto simp: put_def split: option.splits dest!: good_dict_lookup intro: merge_covers)

lemma put_keeps_covers:
  assumes "good_dict key ok d" "ok i" "covers i c \<or> dict_covers covers d c"
  shows "dict_covers covers (AList.update (key i) (put i d) d) c"
proof -
  have dist: "distinct (map fst d)" using assms(1) by (simp add: good_dict_def)
  show ?thesis
  proof (cases "covers i c")
    case True then show ?thesis using assms dist by (simp add: dict_covers_update put_covers_new)
  next
    case False
    then obtain k j where kj: "(k, j) \<in> set d" "covers j c" using assms(3) by (auto simp: dict_covers_def)
    show ?thesis
    proof (cases "k = key i")
      case True
      then have m: "map_of d (key i) = Some j" using kj dist by (simp add: map_of_is_SomeI)
      then have "covers (put i d) c"
        using merge_covers [of j i c] good_dict_lookup [OF assms(1) m] assms(2) kj by (simp add: put_def)
      then show ?thesis using dist by (simp add: dict_covers_update)
    next
      case False then show ?thesis using kj dist by (auto simp: dict_covers_update)
    qed
  qed
qed

end

section \<open>The cards a job draws\<close>

text \<open>A card: its meeting and its row of the messages table.\<close>

datatype card_ref = Card_Ref (of_meeting: int) (card_row: int)

fun covers_card :: "'p background_job \<Rightarrow> card_ref \<Rightarrow> bool" where
  "covers_card (Meeting_Refresh r) (Card_Ref m c) \<longleftrightarrow>
     meeting_id r = m \<and> (case message_db_ids r of None \<Rightarrow> True | Some S \<Rightarrow> c \<in> S) \<and> skip_message_db_id r \<noteq> Some c"
| "covers_card (Keyed_Send s) mc \<longleftrightarrow> False"

text \<open>No keyed send is filed under the key of a meeting: its keys are a screen's or an album's.\<close>

fun send_key_ok :: "'p background_job \<Rightarrow> bool" where
  "send_key_ok (Meeting_Refresh r) \<longleftrightarrow> True"
| "send_key_ok (Keyed_Send s) \<longleftrightarrow> (\<forall>m. send_key s \<noteq> meeting_job_key m)"

lemma coalesce_covers:
  assumes "covers_card (Meeting_Refresh w) mc \<or> covers_card (Meeting_Refresh i) mc" "meeting_id w = meeting_id i"
  shows "covers_card (Meeting_Refresh (coalesce w i)) mc"
  using assms
  by (cases mc; cases "message_db_ids w"; cases "message_db_ids i") (auto simp: coalesce_def merge_skip_def)

lemma meeting_job_key_inj [simp]: "meeting_job_key a = meeting_job_key b \<longleftrightarrow> a = b"
  by (simp add: meeting_job_key_def)

lemma merge_jobs_key: "job_key w = job_key i \<Longrightarrow> job_key (merge_jobs w i) = job_key i"
  by (cases w; cases i) (auto simp: coalesce_def keep_place_def)

lemma merge_jobs_covers:
  assumes "send_key_ok w" "send_key_ok i" "job_key w = job_key i" "covers_card w mc \<or> covers_card i mc"
  shows "covers_card (merge_jobs w i) mc"
  using assms by (cases w; cases i; cases mc) (auto simp del: covers_card.simps(1) intro: coalesce_covers dest: sym)

interpretation queue_dict: keyed_jobs job_key send_key_ok covers_card merge_jobs
proof unfold_locales
  fix w i :: "'p background_job"
  show "job_key w = job_key i \<Longrightarrow> job_key (merge_jobs w i) = job_key i" by (rule merge_jobs_key)
  show "send_key_ok w \<Longrightarrow> send_key_ok i \<Longrightarrow> send_key_ok (merge_jobs w i)"
    by (cases w; cases i) (auto simp: keep_place_def)
  show "\<And>c. send_key_ok w \<Longrightarrow> send_key_ok i \<Longrightarrow> job_key w = job_key i \<Longrightarrow> covers_card w c \<or> covers_card i c
      \<Longrightarrow> covers_card (merge_jobs w i) c"
    by (rule merge_jobs_covers)
qed

lemma unskipped_simps [simp]:
  "job_key (unskipped j) = job_key j" "send_key_ok (unskipped j) = send_key_ok j"
  by (cases j; simp)+

lemma unskipped_covers: "covers_card j mc \<Longrightarrow> covers_card (unskipped j) mc"
  by (cases j; cases mc) auto

lemma next_attempt_simps [simp]:
  "job_key (next_attempt j) = job_key j" "send_key_ok (next_attempt j) = send_key_ok j"
  "covers_card (next_attempt j) mc = covers_card j mc"
  by (cases j; cases mc; simp)+

section \<open>The shape of the queue\<close>

abbreviation waiting_covers :: "'p refresh_queue \<Rightarrow> card_ref \<Rightarrow> bool" where
  "waiting_covers q \<equiv> dict_covers covers_card (q_pending q)"

abbreviation running_covers :: "'p refresh_queue \<Rightarrow> card_ref \<Rightarrow> bool" where
  "running_covers q \<equiv> dict_covers (\<lambda>r. covers_card (job r)) (q_in_flight q)"

definition queue_ok :: "'p refresh_queue \<Rightarrow> bool" where
  "queue_ok q \<longleftrightarrow> good_dict job_key send_key_ok (q_pending q) \<and>
     good_dict (\<lambda>r. job_key (job r)) (\<lambda>r. send_key_ok (job r)) (q_in_flight q) \<and> length (q_in_flight q) \<le> 1"

lemma new_queue_ok [simp]: "queue_ok (new_queue bound fanout rid)"
  by (simp add: new_queue_def queue_ok_def)

lemma log_line_simps [simp]:
  "q_pending (log_line l q) = q_pending q" "q_in_flight (log_line l q) = q_in_flight q"
  "counters (log_line l q) = counters q" "accepting (log_line l q) = accepting q"
  "max_pending (log_line l q) = max_pending q" "emitted (log_line l q) = emitted q"
  "flushed (log_line l q) = flushed q" "run_id (log_line l q) = run_id q"
  by (simp_all add: log_line_def)

lemma emit_simps [simp]:
  "q_pending (emit l q) = q_pending q" "q_in_flight (emit l q) = q_in_flight q"
  "counters (emit l q) = counters q" "accepting (emit l q) = accepting q"
  "max_pending (emit l q) = max_pending q" "flushed (emit l q) = flushed q" "run_id (emit l q) = run_id q"
  "emitted (emit l q) = emitted q @ l"
  by (simp_all add: emit_def)

lemma submitted_job_put:
  "submitted_job j q = queue_dict.put (if map_of (q_in_flight q) (job_key j) \<noteq> None then unskipped j else j) (q_pending q)"
  by (auto simp: submitted_job_def Let_def queue_dict.put_def split: option.splits)

lemma submit_accepted:
  assumes "submit j q = (True, q')"
  obtains i where "i = (if map_of (q_in_flight q) (job_key j) \<noteq> None then unskipped j else j)"
    "q_pending q' = AList.update (job_key i) (queue_dict.put i (q_pending q)) (q_pending q)"
    "q_in_flight q' = q_in_flight q" "accepting q" "accepting q' = accepting q" "max_pending q' = max_pending q"
    "map_of (q_pending q) (job_key j) \<noteq> None \<or> length (q_pending q) < max_pending q"
  using assms by (auto simp: submit_def submitted_job_put Let_def split: if_splits)

lemma submit_refused:
  assumes "submit j q = (False, q')"
  shows "q_pending q' = q_pending q" "q_in_flight q' = q_in_flight q" "accepting q' = accepting q"
    "max_pending q' = max_pending q"
  using assms by (auto simp: submit_def Let_def split: if_splits)

lemma submit_queue_ok: "queue_ok q \<Longrightarrow> send_key_ok j \<Longrightarrow> submit j q = (b, q') \<Longrightarrow> queue_ok q'"
proof (cases b)
  case True
  assume q: "queue_ok q" "send_key_ok j" "submit j q = (b, q')"
  from q(3) True obtain i where i: "i = (if map_of (q_in_flight q) (job_key j) \<noteq> None then unskipped j else j)"
    "q_pending q' = AList.update (job_key i) (queue_dict.put i (q_pending q)) (q_pending q)"
    "q_in_flight q' = q_in_flight q" by (auto elim: submit_accepted)
  have "send_key_ok i" using q(2) i(1) by simp
  then show ?thesis using q(1) i(2,3) queue_dict.put_good by (auto simp: queue_ok_def)
next
  case False
  assume "queue_ok q" "submit j q = (b, q')"
  then show ?thesis using submit_refused [of j q q'] False by (simp add: queue_ok_def)
qed

lemma submit_covers:
  assumes "queue_ok q" "send_key_ok j" "submit j q = (True, q')" "covers_card j c \<or> waiting_covers q c"
  shows "waiting_covers q' c"
proof -
  from assms(3) obtain i where i: "i = (if map_of (q_in_flight q) (job_key j) \<noteq> None then unskipped j else j)"
    "q_pending q' = AList.update (job_key i) (queue_dict.put i (q_pending q)) (q_pending q)"
    by (auto elim: submit_accepted)
  have "covers_card i c \<or> waiting_covers q c" using assms(4) i(1) unskipped_covers [of j c] by auto
  then show ?thesis using assms(1,2) i queue_dict.put_keeps_covers [of "q_pending q" i c] by (simp add: queue_ok_def)
qed

lemma submit_length:
  "submit j q = (b, q') \<Longrightarrow> length (q_pending q') \<le> max (length (q_pending q)) (max_pending q)"
  by (cases b) (auto simp: length_update_alist submit_refused elim!: submit_accepted)

section \<open>Taking and finishing\<close>

lemma find_first:
  "List.find P xs = Some x \<Longrightarrow> \<exists>ys zs. xs = ys @ x # zs \<and> P x \<and> (\<forall>y\<in>set ys. \<not> P y)"
proof (induction xs)
  case (Cons a xs)
  show ?case
  proof (cases "P a")
    case True then have "x = a" using Cons.prems by simp
    then show ?thesis using True by (intro exI [of _ "[]"] exI [of _ xs]) simp
  next
    case False
    then obtain ys zs where "xs = ys @ x # zs" "P x" "\<forall>y\<in>set ys. \<not> P y" using Cons by auto
    then show ?thesis using False by (intro exI [of _ "a # ys"] exI [of _ zs]) simp
  qed
qed simp

lemma take_job_found:
  assumes "queue_ok q" "take_job now q = Some (r, q')"
  obtains j before after where "r = \<lparr>job = j, started = now\<rparr>"
    "q_pending q = before @ (job_key j, j) # after" "q_pending q' = before @ after"
    "q_in_flight q' = AList.update (job_key j) r (q_in_flight q)"
    "q' = q\<lparr>q_pending := q_pending q', q_in_flight := q_in_flight q'\<rparr>"
    "seconds_until_ready now q j = 0" "send_key_ok j"
    "\<forall>(k, i) \<in> set before. seconds_until_ready now q i > 0"
proof -
  from assms(2) obtain k j where f: "List.find (\<lambda>(k, j). seconds_until_ready now q j = 0) (q_pending q) = Some (k, j)"
    and r: "r = \<lparr>job = j, started = now\<rparr>"
    and q': "q' = q\<lparr>q_pending := AList.delete (job_key j) (q_pending q), q_in_flight := AList.update (job_key j) r (q_in_flight q)\<rparr>"
    by (auto simp: take_job_def Let_def split: option.splits)
  from find_first [OF f] obtain ys zs where p: "q_pending q = ys @ (k, j) # zs" "seconds_until_ready now q j = 0"
    "\<forall>y\<in>set ys. \<not> (case y of (k, j) \<Rightarrow> seconds_until_ready now q j = 0)" by auto
  have good: "good_dict job_key send_key_ok (q_pending q)" using assms(1) by (simp add: queue_ok_def)
  have k: "job_key j = k" and ok: "send_key_ok j" using good_dictD [OF good, of k j] p(1) by auto
  have "distinct (map fst (q_pending q))" using good by (simp add: good_dict_def)
  then have "k \<notin> fst ` set ys" "k \<notin> fst ` set zs" using p(1) by auto
  then have "filter (\<lambda>(k', _). k \<noteq> k') ys = ys" "filter (\<lambda>(k', _). k \<noteq> k') zs = zs"
    by (force simp: filter_id_conv)+
  then have del: "AList.delete k (q_pending q) = ys @ zs" unfolding p(1) by (simp add: AList.delete_eq)
  have pos: "seconds_until_ready now q i \<ge> 0" for i by (simp add: seconds_until_ready_def)
  have "\<forall>(k, i)\<in>set ys. seconds_until_ready now q i > 0"
    using p(3) pos by (auto simp: order_less_le)
  then show ?thesis using that [OF r, of ys zs] p del q' k ok by simp
qed

lemma take_job_queue_ok:
  assumes "queue_ok q" "q_in_flight q = []" "take_job now q = Some (r, q')"
  shows "queue_ok q'" "q_in_flight q' = [(job_key (job r), r)]" "length (q_pending q) = Suc (length (q_pending q'))"
    "max_pending q' = max_pending q" "accepting q' = accepting q"
proof -
  obtain j before after where f: "r = \<lparr>job = j, started = now\<rparr>"
    "q_pending q = before @ (job_key j, j) # after" "q_pending q' = before @ after"
    "q_in_flight q' = AList.update (job_key j) r (q_in_flight q)" "send_key_ok j"
    "q' = q\<lparr>q_pending := q_pending q', q_in_flight := q_in_flight q'\<rparr>"
    by (rule take_job_found [OF assms(1,3)])
  show fl: "q_in_flight q' = [(job_key (job r), r)]" using f assms(2) by simp
  show "length (q_pending q) = Suc (length (q_pending q'))" using f by simp
  show "queue_ok q'" unfolding queue_ok_def fl
    using assms(1) f by (auto simp: queue_ok_def good_dict_def)
  show "max_pending q' = max_pending q" by (subst f(6)) simp
  show "accepting q' = accepting q" by (subst f(6)) simp
qed

lemma take_job_covers:
  assumes "queue_ok q" "q_in_flight q = []" "take_job now q = Some (r, q')" "waiting_covers q c"
  shows "waiting_covers q' c \<or> covers_card (job r) c"
proof -
  obtain j before after where f: "r = \<lparr>job = j, started = now\<rparr>"
    "q_pending q = before @ (job_key j, j) # after" "q_pending q' = before @ after"
    by (rule take_job_found [OF assms(1,3)])
  then show ?thesis using assms(4) by (auto simp: dict_covers_def)
qed

lemma run_job_simps [simp]:
  "q_pending (snd (run_job ex r q)) = q_pending q" "q_in_flight (snd (run_job ex r q)) = q_in_flight q"
  "accepting (snd (run_job ex r q)) = accepting q" "max_pending (snd (run_job ex r q)) = max_pending q"
  by (cases ex; simp)+

lemma run_job_None [simp]: "fst (run_job ex r q) = None \<longleftrightarrow> ex = Is_Cancelled"
  by (cases ex) auto

lemma finish_job_ended:
  assumes "ex \<noteq> Is_Cancelled"
  shows "fst (finish_job ex now r q)" "q_pending (snd (finish_job ex now r q)) = q_pending q"
    "q_in_flight (snd (finish_job ex now r q)) = AList.delete (job_key (job r)) (q_in_flight q)"
    "accepting (snd (finish_job ex now r q)) = accepting q" "max_pending (snd (finish_job ex now r q)) = max_pending q"
  using assms by (cases ex; simp add: finish_job_def)+

lemma finish_job_cancelled:
  "\<not> fst (finish_job Is_Cancelled now r q)"
  "q_pending (snd (finish_job Is_Cancelled now r q)) = q_pending (requeue (job r) q)"
  "q_in_flight (snd (finish_job Is_Cancelled now r q)) = AList.delete (job_key (job r)) (q_in_flight q)"
  "accepting (snd (finish_job Is_Cancelled now r q)) = accepting q"
  "max_pending (snd (finish_job Is_Cancelled now r q)) = max_pending q"
  by (simp_all add: finish_job_def requeue_def)

lemma requeue_good:
  "good_dict job_key send_key_ok (q_pending q) \<Longrightarrow> send_key_ok j \<Longrightarrow> good_dict job_key send_key_ok (q_pending (requeue j q))"
  using good_dict_append [of job_key send_key_ok "q_pending q" "next_attempt j"]
  by (auto simp: requeue_def split: option.splits)

lemma requeue_covers:
  "waiting_covers (requeue j q) c \<longleftrightarrow> waiting_covers q c \<or> map_of (q_pending q) (job_key j) = None \<and> covers_card j c"
  by (simp add: requeue_def dict_covers_def split: option.splits) (blast intro: next_attempt_simps(3) [THEN iffD2] dest: next_attempt_simps(3) [THEN iffD1])

lemma requeue_length: "length (q_pending (requeue j q)) \<le> Suc (length (q_pending q))"
  by (simp add: requeue_def split: option.splits)

lemma finish_job_queue_ok:
  assumes "queue_ok q" "q_in_flight q = [(k, r)]"
  shows "queue_ok (snd (finish_job ex now r q))" "q_in_flight (snd (finish_job ex now r q)) = []"
proof -
  have r: "job_key (job r) = k" "send_key_ok (job r)" using assms by (auto simp: queue_ok_def good_dict_def)
  show e: "q_in_flight (snd (finish_job ex now r q)) = []"
    using assms(2) r(1) by (cases "ex = Is_Cancelled") (simp_all add: finish_job_ended finish_job_cancelled)
  show "queue_ok (snd (finish_job ex now r q))" unfolding queue_ok_def e
    using assms(1) r(2) by (cases "ex = Is_Cancelled") (simp_all add: queue_ok_def finish_job_ended finish_job_cancelled requeue_good)
qed

end
