(* ===== verification/Card_Queue_Run.thy ===== *)
theory Card_Queue_Run
  imports Card_Queue_Props
begin

text \<open>
  The worker among the tasks that submit to it, as a step relation.

  Ghost state counts the committed versions of each meeting and says, for every card (meeting, message row),
  which version the last accepted submit asked for (\<open>owed\<close>), which version the worker last drew on it
  (\<open>shown\<close>), and the cards given up: a job ended without drawing them and no waiting job covers them
  (Telegram refused the edit, the job raised, the meeting was gone, or the worker was cancelled).
  A refresh reads its meeting once, some time after it was taken, and draws the version it read.
\<close>

record 'p world =
  wq :: "'p refresh_queue"
  version :: "int \<Rightarrow> nat"
  read_at :: "nat option"
  owed :: "card_ref \<Rightarrow> nat"
  shown :: "card_ref \<Rightarrow> nat"
  given_up :: "card_ref set"

definition start_world :: "nat \<Rightarrow> bool \<Rightarrow> string \<Rightarrow> 'p world" where
  "start_world bound fanout rid =
     \<lparr>wq = new_queue bound fanout rid, version = (\<lambda>_. 0), read_at = None, owed = (\<lambda>_. 0), shown = (\<lambda>_. 0),
      given_up = {}\<rparr>"

definition after_submit :: "meeting_refresh \<Rightarrow> bool \<Rightarrow> 'p refresh_queue \<Rightarrow> 'p world \<Rightarrow> 'p world" where
  "after_submit f accepted q w = w\<lparr>wq := q,
     owed := (\<lambda>c. if accepted \<and> covers_card (Meeting_Refresh f :: 'p background_job) c then version w (of_meeting c) else owed w c),
     given_up := given_up w - (if accepted then {c. covers_card (Meeting_Refresh f :: 'p background_job) c} else {})\<rparr>"

definition after_end :: "'p running_job \<Rightarrow> card_ref set \<Rightarrow> 'p refresh_queue \<Rightarrow> 'p world \<Rightarrow> 'p world" where
  "after_end r drawn q w = w\<lparr>wq := q, read_at := None,
     shown := (\<lambda>c. if c \<in> drawn then the (read_at w) else shown w c),
     given_up := (given_up w - drawn) \<union> {c. covers_card (job r) c \<and> c \<notin> drawn \<and> \<not> waiting_covers q c}\<rparr>"

inductive worker_step :: "'p world \<Rightarrow> 'p world \<Rightarrow> bool" where
  commits: "worker_step w (w\<lparr>version := (version w)(m := Suc (version w m))\<rparr>)"
| submits_refresh: "submit (Meeting_Refresh f) (wq w) = (b, q) \<Longrightarrow> worker_step w (after_submit f b q w)"
| submits_send: "send_key_ok (Keyed_Send s) \<Longrightarrow> submit (Keyed_Send s) (wq w) = (b, q) \<Longrightarrow> worker_step w (w\<lparr>wq := q\<rparr>)"
| takes: "q_in_flight (wq w) = [] \<Longrightarrow> take_job now (wq w) = Some (r, q) \<Longrightarrow> worker_step w (w\<lparr>wq := q, read_at := None\<rparr>)"
| reads: "q_in_flight (wq w) = [(k, r)] \<Longrightarrow> job r = Meeting_Refresh f \<Longrightarrow> read_at w = None \<Longrightarrow>
    worker_step w (w\<lparr>read_at := Some (version w (meeting_id f))\<rparr>)"
| ends: "q_in_flight (wq w) = [(k, r)] \<Longrightarrow> finish_job ex now r (wq w) = (b, q) \<Longrightarrow> drawn \<subseteq> {c. covers_card (job r) c} \<Longrightarrow>
    drawn = {} \<or> read_at w \<noteq> None \<Longrightarrow> worker_step w (after_end r drawn q w)"
| stops: "worker_step w (w\<lparr>wq := (wq w)\<lparr>accepting := False\<rparr>\<rparr>)"
| publishes: "worker_step w (w\<lparr>wq := publish now fresh (wq w)\<rparr>)"

inductive_cases worker_stepE: "worker_step w w'"

inductive reached :: "nat \<Rightarrow> 'p world \<Rightarrow> bool" for bound :: nat where
  begins: "reached bound (start_world bound fanout rid)"
| continues: "reached bound w \<Longrightarrow> worker_step w w' \<Longrightarrow> reached bound w'"

section \<open>The invariant\<close>

definition running_will_show :: "'p world \<Rightarrow> card_ref \<Rightarrow> bool" where
  "running_will_show w c \<longleftrightarrow> running_covers (wq w) c \<and> (\<forall>v. read_at w = Some v \<longrightarrow> owed w c \<le> v)"

definition read_ok :: "'p world \<Rightarrow> bool" where
  "read_ok w \<longleftrightarrow> (\<forall>v c. read_at w = Some v \<and> running_covers (wq w) c \<longrightarrow>
     v \<le> version w (of_meeting c) \<and> (owed w c \<le> v \<or> waiting_covers (wq w) c))"

definition versions_ok :: "'p world \<Rightarrow> bool" where
  "versions_ok w \<longleftrightarrow> (\<forall>c. owed w c \<le> version w (of_meeting c) \<and> shown w c \<le> version w (of_meeting c))"

definition cards_ok :: "'p world \<Rightarrow> bool" where
  "cards_ok w \<longleftrightarrow> (\<forall>c. c \<in> given_up w \<or> owed w c \<le> shown w c \<or> waiting_covers (wq w) c \<or> running_will_show w c)"

definition world_ok :: "nat \<Rightarrow> 'p world \<Rightarrow> bool" where
  "world_ok bound w \<longleftrightarrow> queue_ok (wq w) \<and> max_pending (wq w) = bound \<and>
     length (q_pending (wq w)) + length (q_in_flight (wq w)) \<le> Suc bound \<and> versions_ok w \<and> read_ok w \<and> cards_ok w"

lemma start_world_ok: "world_ok bound (start_world bound fanout rid)"
  by (simp add: world_ok_def start_world_def new_queue_def queue_ok_def versions_ok_def read_ok_def cards_ok_def)

lemma report_window_simps [simp]:
  "q_pending (report_window now q) = q_pending q" "q_in_flight (report_window now q) = q_in_flight q"
  "max_pending (report_window now q) = max_pending q" "accepting (report_window now q) = accepting q"
  by (simp_all add: report_window_def drain_counters_def emit_window_def Let_def split: option.splits prod.splits)

lemma publish_simps [simp]:
  "q_pending (publish now fresh q) = q_pending q" "q_in_flight (publish now fresh q) = q_in_flight q"
  "max_pending (publish now fresh q) = max_pending q" "accepting (publish now fresh q) = accepting q"
  by (simp_all add: publish_def Let_def)

text \<open>Only the cards and the jobs matter: a change of the queue that keeps both dicts keeps the invariant.\<close>

lemma world_ok_same_dicts:
  assumes "world_ok bound w" "q_pending q = q_pending (wq w)" "q_in_flight q = q_in_flight (wq w)"
    "max_pending q = max_pending (wq w)"
  shows "world_ok bound (w\<lparr>wq := q\<rparr>)"
  using assms
  by (simp add: world_ok_def queue_ok_def versions_ok_def read_ok_def cards_ok_def running_will_show_def)

lemma submit_same_in_flight: "submit j q = (b, q') \<Longrightarrow> q_in_flight q' = q_in_flight q \<and> max_pending q' = max_pending q"
  by (cases b) (auto elim: submit_accepted simp: submit_refused)

lemma submit_bounded:
  assumes "submit j q = (b, q')" "length (q_pending q) + n \<le> Suc (max_pending q)" "n \<le> 1"
  shows "length (q_pending q') + n \<le> Suc (max_pending q)"
  using assms by (cases b) (auto simp: length_update_alist submit_refused elim!: submit_accepted)

lemma submit_keeps_covers:
  "queue_ok q \<Longrightarrow> send_key_ok j \<Longrightarrow> submit j q = (b, q') \<Longrightarrow> waiting_covers q c \<Longrightarrow> waiting_covers q' c"
  by (cases b) (auto simp: submit_covers submit_refused)

lemma world_ok_submits_send:
  assumes "world_ok bound w" "send_key_ok (Keyed_Send s)" "submit (Keyed_Send s) (wq w) = (b, q)"
  shows "world_ok bound (w\<lparr>wq := q\<rparr>)"
proof -
  have same: "q_in_flight q = q_in_flight (wq w)" "max_pending q = max_pending (wq w)"
    using submit_same_in_flight [OF assms(3)] by auto
  have ok: "queue_ok (wq w)" and fl: "length (q_in_flight (wq w)) \<le> 1" using assms(1) by (auto simp: world_ok_def queue_ok_def)
  have kept: "\<And>c. waiting_covers (wq w) c \<Longrightarrow> waiting_covers q c" by (rule submit_keeps_covers [OF ok assms(2,3)])
  have len: "length (q_pending q) + length (q_in_flight (wq w)) \<le> Suc (max_pending (wq w))"
    using submit_bounded [OF assms(3) _ fl] assms(1) by (simp add: world_ok_def)
  show ?thesis using assms(1) same len submit_queue_ok [OF ok assms(2,3)] kept
    by (simp add: world_ok_def versions_ok_def read_ok_def cards_ok_def running_will_show_def) blast
qed

lemma world_ok_submits_refresh:
  assumes "world_ok bound w" "submit (Meeting_Refresh f) (wq w) = (b, q)"
  shows "world_ok bound (after_submit f b q w)"
proof -
  have same: "q_in_flight q = q_in_flight (wq w)" "max_pending q = max_pending (wq w)"
    using submit_same_in_flight [OF assms(2)] by auto
  have ok: "queue_ok (wq w)" and fl: "length (q_in_flight (wq w)) \<le> 1" using assms(1) by (auto simp: world_ok_def queue_ok_def)
  have send: "send_key_ok (Meeting_Refresh f)" by simp
  have kept: "\<And>c. waiting_covers (wq w) c \<Longrightarrow> waiting_covers q c" by (rule submit_keeps_covers [OF ok send assms(2)])
  have asked: "waiting_covers q c" if "b" "covers_card (Meeting_Refresh f :: 'a background_job) c" for c
    using submit_covers [OF ok send, of q c] assms(2) that by simp
  have len: "length (q_pending q) + length (q_in_flight (wq w)) \<le> Suc (max_pending (wq w))"
    using submit_bounded [OF assms(2) _ fl] assms(1) by (simp add: world_ok_def)
  have "versions_ok (after_submit f b q w)" using assms(1) by (auto simp: world_ok_def versions_ok_def after_submit_def)
  moreover have "read_ok (after_submit f b q w)"
    using assms(1) kept asked same by (auto simp: world_ok_def read_ok_def after_submit_def)
  moreover have "cards_ok (after_submit f b q w)" unfolding cards_ok_def
  proof
    fix c
    show "c \<in> given_up (after_submit f b q w) \<or> owed (after_submit f b q w) c \<le> shown (after_submit f b q w) c \<or>
        waiting_covers (wq (after_submit f b q w)) c \<or> running_will_show (after_submit f b q w) c"
    proof (cases "b \<and> covers_card (Meeting_Refresh f :: 'a background_job) c")
      case True then show ?thesis using asked by (simp add: after_submit_def)
    next
      case False
      have "c \<in> given_up w \<or> owed w c \<le> shown w c \<or> waiting_covers (wq w) c \<or> running_will_show w c"
        using assms(1) by (simp add: world_ok_def cards_ok_def)
      then show ?thesis using False kept same by (auto simp: after_submit_def running_will_show_def)
    qed
  qed
  ultimately show ?thesis using assms(1) same len submit_queue_ok [OF ok send assms(2)]
    by (simp add: world_ok_def after_submit_def)
qed

lemma running_covers_single: "q_in_flight q = [(k, r)] \<Longrightarrow> running_covers q c \<longleftrightarrow> covers_card (job r) c"
  by (simp add: dict_covers_def)

lemma world_ok_takes:
  assumes "world_ok bound w" "q_in_flight (wq w) = []" "take_job now (wq w) = Some (r, q)"
  shows "world_ok bound (w\<lparr>wq := q, read_at := None\<rparr>)"
proof -
  have ok: "queue_ok (wq w)" using assms(1) by (simp add: world_ok_def)
  note t = take_job_queue_ok [OF ok assms(2,3)]
  have run: "running_covers q c \<longleftrightarrow> covers_card (job r) c" for c using running_covers_single [OF t(2)] .
  have none: "\<not> running_covers (wq w) c" for c using assms(2) by simp
  have "cards_ok (w\<lparr>wq := q, read_at := None\<rparr>)" unfolding cards_ok_def
  proof
    fix c
    have "c \<in> given_up w \<or> owed w c \<le> shown w c \<or> waiting_covers (wq w) c"
      using assms(1) none by (auto simp: world_ok_def cards_ok_def running_will_show_def)
    then show "c \<in> given_up (w\<lparr>wq := q, read_at := None\<rparr>) \<or> owed (w\<lparr>wq := q, read_at := None\<rparr>) c \<le> shown (w\<lparr>wq := q, read_at := None\<rparr>) c \<or>
        waiting_covers (wq (w\<lparr>wq := q, read_at := None\<rparr>)) c \<or> running_will_show (w\<lparr>wq := q, read_at := None\<rparr>) c"
      using take_job_covers [OF ok assms(2,3), of c] run by (auto simp: running_will_show_def)
  qed
  then show ?thesis using assms(1,2) t by (simp add: world_ok_def versions_ok_def read_ok_def)
qed

lemma world_ok_reads:
  assumes "world_ok bound w" "q_in_flight (wq w) = [(k, r)]" "job r = Meeting_Refresh f" "read_at w = None"
  shows "world_ok bound (w\<lparr>read_at := Some (version w (meeting_id f))\<rparr>)"
proof -
  have m: "running_covers (wq w) c \<Longrightarrow> of_meeting c = meeting_id f" for c
    using assms(2,3) by (cases c) (simp add: dict_covers_def)
  have ver: "owed w c \<le> version w (of_meeting c)" for c using assms(1) by (simp add: world_ok_def versions_ok_def)
  then have "read_ok (w\<lparr>read_at := Some (version w (meeting_id f))\<rparr>)"
    using m unfolding read_ok_def by simp metis
  moreover have "cards_ok (w\<lparr>read_at := Some (version w (meeting_id f))\<rparr>)" unfolding cards_ok_def
  proof
    fix c
    have "c \<in> given_up w \<or> owed w c \<le> shown w c \<or> waiting_covers (wq w) c \<or> running_covers (wq w) c"
      using assms(1) by (auto simp: world_ok_def cards_ok_def running_will_show_def)
    moreover have "running_covers (wq w) c \<Longrightarrow> owed w c \<le> version w (meeting_id f)"
      using ver [of c] m [of c] by simp
    ultimately show "c \<in> given_up (w\<lparr>read_at := Some (version w (meeting_id f))\<rparr>) \<or>
        owed (w\<lparr>read_at := Some (version w (meeting_id f))\<rparr>) c \<le> shown (w\<lparr>read_at := Some (version w (meeting_id f))\<rparr>) c \<or>
        waiting_covers (wq (w\<lparr>read_at := Some (version w (meeting_id f))\<rparr>)) c \<or>
        running_will_show (w\<lparr>read_at := Some (version w (meeting_id f))\<rparr>) c"
      by (auto simp: running_will_show_def)
  qed
  ultimately show ?thesis using assms(1) by (simp add: world_ok_def versions_ok_def)
qed

lemma finish_keeps_covers:
  "finish_job ex now r q = (b, q') \<Longrightarrow> waiting_covers q c \<Longrightarrow> waiting_covers q' c"
  by (cases "ex = Is_Cancelled")
    (use finish_job_ended [of ex now r q] finish_job_cancelled [of now r q] requeue_covers [of "job r" q c] in auto)

lemma world_ok_ends:
  assumes "world_ok bound w" "q_in_flight (wq w) = [(k, r)]" "finish_job ex now r (wq w) = (b, q)"
    "drawn \<subseteq> {c. covers_card (job r) c}" "drawn = {} \<or> read_at w \<noteq> None"
  shows "world_ok bound (after_end r drawn q w)"
proof -
  have ok: "queue_ok (wq w)" using assms(1) by (simp add: world_ok_def)
  have q: "queue_ok q" "q_in_flight q = []" using finish_job_queue_ok [OF ok assms(2), of ex now] assms(3) by auto
  have mp: "max_pending q = max_pending (wq w)"
    using finish_job_ended(5) [of ex now r "wq w"] finish_job_cancelled(5) [of now r "wq w"] assms(3)
    by (cases "ex = Is_Cancelled") auto
  have len: "length (q_pending q) \<le> Suc (length (q_pending (wq w)))"
    using finish_job_ended(2) [of ex now r "wq w"] finish_job_cancelled(2) [of now r "wq w"] assms(3)
      requeue_length [of "job r" "wq w"] by (cases "ex = Is_Cancelled") auto
  have run: "running_covers (wq w) c \<longleftrightarrow> covers_card (job r) c" for c using running_covers_single [OF assms(2)] .
  have drawn: "\<exists>v. read_at w = Some v \<and> v \<le> version w (of_meeting c) \<and> (owed w c \<le> v \<or> waiting_covers (wq w) c)" if "c \<in> drawn" for c
    using that assms(1,4,5) run by (auto simp: world_ok_def read_ok_def)
  have kept: "\<And>c. waiting_covers (wq w) c \<Longrightarrow> waiting_covers q c" by (rule finish_keeps_covers [OF assms(3)])
  have "versions_ok (after_end r drawn q w)"
    using assms(1) drawn by (fastforce simp: world_ok_def versions_ok_def after_end_def)
  moreover have "cards_ok (after_end r drawn q w)" unfolding cards_ok_def
  proof
    fix c
    have old: "c \<in> given_up w \<or> owed w c \<le> shown w c \<or> waiting_covers (wq w) c \<or> running_will_show w c"
      using assms(1) by (simp add: world_ok_def cards_ok_def)
    show "c \<in> given_up (after_end r drawn q w) \<or> owed (after_end r drawn q w) c \<le> shown (after_end r drawn q w) c \<or>
        waiting_covers (wq (after_end r drawn q w)) c \<or> running_will_show (after_end r drawn q w) c"
    proof (cases "c \<in> drawn")
      case True then show ?thesis using drawn [OF True] kept [of c] by (auto simp: after_end_def)
    next
      case False then show ?thesis using old kept [of c] run by (auto simp: after_end_def running_will_show_def)
    qed
  qed
  ultimately show ?thesis using assms(1,2) q mp len by (simp add: world_ok_def read_ok_def after_end_def)
qed

lemma world_ok_commits:
  assumes "world_ok bound w" shows "world_ok bound (w\<lparr>version := (version w)(m := Suc (version w m))\<rparr>)"
  using assms
  by (auto simp: world_ok_def versions_ok_def read_ok_def cards_ok_def running_will_show_def le_Suc_eq)

lemma world_ok_step: "worker_step w w' \<Longrightarrow> world_ok bound w \<Longrightarrow> world_ok bound w'"
  by (induction rule: worker_step.induct)
    (auto intro: world_ok_commits world_ok_submits_refresh world_ok_submits_send world_ok_takes world_ok_reads
      world_ok_ends world_ok_same_dicts)

lemma reached_ok: "reached bound w \<Longrightarrow> world_ok bound w"
  by (induction rule: reached.induct) (auto intro: start_world_ok world_ok_step)

section \<open>Properties\<close>

text \<open>C18. No card is forgotten. Whatever the interleaving of commits, submits, runs, failures and the stop of the
  worker: a card that an accepted submit asked for either shows at least the version committed at that submit,
  or a waiting job covers it, or the running job covers it and has not read an older version, or a job that
  covered it ended without drawing it. No card ever shows a version that was not committed.
\<close>

theorem no_card_forgotten:
  assumes "reached bound w" "c \<notin> given_up w"
  shows "shown w c \<le> version w (of_meeting c) \<and>
    (owed w c \<le> shown w c \<or> (\<exists>k j. (k, j) \<in> set (q_pending (wq w)) \<and> covers_card j c) \<or>
     (\<exists>k r. (k, r) \<in> set (q_in_flight (wq w)) \<and> covers_card (job r) c \<and> (\<forall>v. read_at w = Some v \<longrightarrow> owed w c \<le> v)))"
proof -
  have "shown w c \<le> version w (of_meeting c)" "owed w c \<le> shown w c \<or> waiting_covers (wq w) c \<or> running_will_show w c"
    using reached_ok [OF assms(1)] assms(2) by (auto simp: world_ok_def cards_ok_def versions_ok_def)
  then show ?thesis unfolding running_will_show_def dict_covers_def by blast
qed

text \<open>The queue stays bounded: the waiting jobs and the running one are at most the cap plus one, under
  distinct keys, each filed under its own key.
\<close>

theorem pending_stays_bounded:
  assumes "reached bound w"
  shows "length (q_pending (wq w)) + length (q_in_flight (wq w)) \<le> Suc bound \<and> length (q_in_flight (wq w)) \<le> 1 \<and>
    distinct (map fst (q_pending (wq w))) \<and> (\<forall>k j. (k, j) \<in> set (q_pending (wq w)) \<longrightarrow> job_key j = k)"
  using reached_ok [OF assms] by (auto simp: world_ok_def queue_ok_def good_dict_def)

end
