(* ===== verification/Card_Queue_Stop.thy ===== *)
theory Card_Queue_Stop
  imports Card_Queue_Run
begin

text \<open>
  Taking jobs in order and stopping the worker: which job is taken and when the drain loop wakes, the
  shutdown drain and its accounting, and what a cancelled job leaves behind.
\<close>

section \<open>Which job is taken\<close>

lemma seconds_until_ready_nonneg [simp]: "0 \<le> seconds_until_ready now q j"
  by (simp add: seconds_until_ready_def)

lemma take_job_None: "take_job now q = None \<longleftrightarrow> (\<forall>(k, j) \<in> set (q_pending q). seconds_until_ready now q j \<noteq> 0)"
proof -
  have "take_job now q = None \<longleftrightarrow> List.find (\<lambda>(k, j). seconds_until_ready now q j = 0) (q_pending q) = None"
    by (auto simp: take_job_def Let_def split: option.splits)
  then show ?thesis by (auto simp: find_None_iff)
qed

lemma next_ready_zero: "next_ready_in now q = Some 0 \<longleftrightarrow> take_job now q \<noteq> None"
proof (cases "q_pending q = []")
  case True then show ?thesis by (simp add: next_ready_in_def take_job_def)
next
  case False
  let ?S = "set (map (\<lambda>(k, j). seconds_until_ready now q j) (q_pending q))"
  have "Min ?S = 0 \<longleftrightarrow> 0 \<in> ?S"
  proof
    assume "Min ?S = 0" then show "0 \<in> ?S" using False Min_in [of ?S] by auto
  next
    assume zero: "0 \<in> ?S"
    have "Min ?S \<le> 0" by (rule Min_le) (use zero in auto)
    moreover have "0 \<le> Min ?S" using False by (intro Min.boundedI) auto
    ultimately show "Min ?S = 0" by simp
  qed
  moreover have "0 \<in> ?S \<longleftrightarrow> take_job now q \<noteq> None" unfolding take_job_None by force
  ultimately show ?thesis using False by (simp add: next_ready_in_def)
qed

lemma stopping_takes: "\<not> accepting q \<Longrightarrow> q_pending q \<noteq> [] \<Longrightarrow> take_job now q \<noteq> None"
  unfolding take_job_None by (cases "q_pending q") (auto simp: seconds_until_ready_def)

text \<open>The drain loop wakes exactly when there is a job to take, and takes the right one: the first in the
  order of the queue whose hold has run out, every job before it still being held. Its key leaves the
  waiting jobs and nothing else of them changes.
\<close>

theorem takes_the_oldest_ready_job:
  assumes "reached bound w"
  shows "(next_ready_in now (wq w) = Some 0 \<longleftrightarrow> take_job now (wq w) \<noteq> None) \<and>
    (\<forall>r q'. take_job now (wq w) = Some (r, q') \<longrightarrow>
       (\<exists>before after. q_pending (wq w) = before @ (job_key (job r), job r) # after \<and> q_pending q' = before @ after \<and>
          (accepting (wq w) \<longrightarrow> hold_ends (job r) \<le> now \<and> (\<forall>(k, i) \<in> set before. now < hold_ends i))))"
proof (intro conjI allI impI)
  fix r q' assume t: "take_job now (wq w) = Some (r, q')"
  have "queue_ok (wq w)" using reached_ok [OF assms] by (simp add: world_ok_def)
  from this t obtain j before after where j: "r = \<lparr>job = j, started = now\<rparr>"
    "q_pending (wq w) = before @ (job_key j, j) # after" "q_pending q' = before @ after"
    "seconds_until_ready now (wq w) j = 0" "\<forall>(k, i) \<in> set before. seconds_until_ready now (wq w) i > 0"
    by (rule take_job_found)
  show "\<exists>before after. q_pending (wq w) = before @ (job_key (job r), job r) # after \<and> q_pending q' = before @ after \<and>
      (accepting (wq w) \<longrightarrow> hold_ends (job r) \<le> now \<and> (\<forall>(k, i) \<in> set before. now < hold_ends i))"
    using j(4,5) by (intro exI [of _ before] exI [of _ after]) (auto simp: j(1-3) seconds_until_ready_def)
qed (rule next_ready_zero)

section \<open>The shutdown drain\<close>

definition settled :: "'p refresh_queue \<Rightarrow> nat" where
  "settled q = succeeded (counters q) + failed (counters q)"

lemma take_job_counters: "take_job now q = Some (r, q') \<Longrightarrow> counters q' = counters q \<and> flushed q' = flushed q \<and> run_id q' = run_id q"
  by (auto simp: take_job_def Let_def split: option.splits)

lemma finish_job_settled:
  "ex \<noteq> Is_Cancelled \<Longrightarrow> settled (snd (finish_job ex now r q)) = Suc (settled q)"
  "settled (snd (finish_job Is_Cancelled now r q)) = settled q"
  by (cases ex; simp add: finish_job_def settled_def)
    (simp add: finish_job_def settled_def requeue_def)

lemma finish_job_frame:
  "flushed (snd (finish_job ex now r q)) = flushed q" "run_id (snd (finish_job ex now r q)) = run_id q"
  by (cases ex; simp add: finish_job_def requeue_def)+

lemma run_next_stopping:
  assumes "queue_ok q" "q_in_flight q = []" "\<not> accepting q" "q_pending q \<noteq> []" "run_next t q = (b, q')"
  shows "queue_ok q'" "q_in_flight q' = []" "\<not> accepting q'"
    "settled q' + length (q_pending q') = settled q + length (q_pending q)"
    "b \<Longrightarrow> length (q_pending q') < length (q_pending q)" "\<not> b \<Longrightarrow> fst (snd t) = Is_Cancelled"
    "flushed q' = flushed q" "run_id q' = run_id q"
proof -
  obtain now ex ended where t: "t = (now, ex, ended)" by (cases t)
  obtain r q1 where r: "take_job now q = Some (r, q1)" using stopping_takes [OF assms(3,4), of now] by auto
  note k = take_job_queue_ok [OF assms(1,2) r] and kc = take_job_counters [OF r]
  have f: "(b, q') = finish_job ex ended r q1" using assms(5) t r by (simp add: run_next_def)
  then have q': "q' = snd (finish_job ex ended r q1)" and b: "b = fst (finish_job ex ended r q1)" by (metis fst_conv snd_conv)+
  show "queue_ok q'" "q_in_flight q' = []" using finish_job_queue_ok [OF k(1,2)] q' by auto
  show "flushed q' = flushed q" "run_id q' = run_id q" unfolding q' by (simp_all add: finish_job_frame kc)
  have "\<exists>before after. q_pending q = before @ (job_key (job r), job r) # after \<and> q_pending q1 = before @ after"
    by (rule take_job_found [OF assms(1) r]) auto
  moreover have "distinct (map fst (q_pending q))" using assms(1) by (simp add: queue_ok_def good_dict_def)
  ultimately have gone: "map_of (q_pending q1) (job_key (job r)) = None"
    unfolding map_of_eq_None_iff by (elim exE conjE) (simp add: image_Un)
  show "\<not> accepting q'" "settled q' + length (q_pending q') = settled q + length (q_pending q)"
    "b \<Longrightarrow> length (q_pending q') < length (q_pending q)" "\<not> b \<Longrightarrow> fst (snd t) = Is_Cancelled"
    unfolding q' b t using assms(3) k(3,5) kc gone
    by (cases "ex = Is_Cancelled";
        simp add: finish_job_ended finish_job_cancelled finish_job_settled requeue_def; simp add: settled_def)+
qed

lemma drain_loop_ends:
  assumes "queue_ok q" "q_in_flight q = []" "\<not> accepting q"
  shows "\<exists>q'. drain_loop env n q = Some q' \<and> queue_ok q' \<and> q_in_flight q' = [] \<and> \<not> accepting q' \<and>
    settled q' + length (q_pending q') = settled q + length (q_pending q) \<and>
    (q_pending q' = [] \<or> (\<exists>i. n \<le> i \<and> i < n + length (q_pending q) \<and> fst (snd (env i)) = Is_Cancelled)) \<and>
    flushed q' = flushed q \<and> run_id q' = run_id q"
  using assms
proof (induction "length (q_pending q)" arbitrary: n q rule: less_induct)
  case less
  show ?case
  proof (cases "q_pending q = []")
    case True then show ?thesis using less.prems by (subst drain_loop.simps) simp
  next
    case False
    obtain b q1 where r: "run_next (env n) q = (b, q1)" by (cases "run_next (env n) q")
    note s = run_next_stopping [OF less.prems False r]
    show ?thesis
    proof (cases b)
      case True
      have "drain_loop env n q = drain_loop env (Suc n) q1" by (subst drain_loop.simps) (simp add: False r True)
      moreover obtain q' where q': "drain_loop env (Suc n) q1 = Some q'" "queue_ok q'" "q_in_flight q' = []" "\<not> accepting q'"
        "settled q' + length (q_pending q') = settled q1 + length (q_pending q1)"
        "q_pending q' = [] \<or> (\<exists>i. Suc n \<le> i \<and> i < Suc n + length (q_pending q1) \<and> fst (snd (env i)) = Is_Cancelled)"
        "flushed q' = flushed q1" "run_id q' = run_id q1"
        using less.hyps [OF s(5) [OF True] s(1-3), of "Suc n"] by blast
      moreover have "Suc n + length (q_pending q1) \<le> n + length (q_pending q)" using s(5) [OF True] by simp
      ultimately show ?thesis using s(4,7,8)
        by (intro exI [of _ q']) (auto dest: Suc_leD intro: less_le_trans)
    next
      case False': False
      have "drain_loop env n q = Some q1" by (subst drain_loop.simps) (simp add: False r False')
      moreover have "n < n + length (q_pending q)" using False by simp
      ultimately show ?thesis using s(1-4,7,8) s(6) [OF False'] by (intro exI [of _ q1]) auto
    qed
  qed
qed

lemma interrupt_running_ok:
  assumes "world_ok bound w"
  shows "queue_ok (interrupt_running now (wq w))" "q_in_flight (interrupt_running now (wq w)) = []"
    "settled (interrupt_running now (wq w)) = settled (wq w)" "flushed (interrupt_running now (wq w)) = flushed (wq w)"
    "run_id (interrupt_running now (wq w)) = run_id (wq w)"
proof -
  have ok: "queue_ok (wq w)" "length (q_in_flight (wq w)) \<le> 1" using assms by (auto simp: world_ok_def queue_ok_def)
  show "queue_ok (interrupt_running now (wq w))" "q_in_flight (interrupt_running now (wq w)) = []"
    using ok finish_job_queue_ok [OF ok(1), of _ _ Is_Cancelled now]
    by (auto simp: interrupt_running_def split: list.splits)
  show "settled (interrupt_running now (wq w)) = settled (wq w)" "flushed (interrupt_running now (wq w)) = flushed (wq w)"
    "run_id (interrupt_running now (wq w)) = run_id (wq w)"
    by (auto simp: interrupt_running_def finish_job_settled finish_job_frame split: list.splits)
qed

lemma publish_window:
  "flushed (publish now fresh q) = flushed q @ [emitted (report_window now q)]"
  by (simp add: publish_def Let_def report_window_def emit_window_def drain_counters_def emit_def log_line_def
      split: option.splits prod.splits)

lemma report_window_counts:
  "(JOBS_SUCCEEDED, int (succeeded (counters q)), Some (run_id q)) \<in> set (emitted (report_window now q))"
  "(JOBS_FAILED, int (failed (counters q)), Some (run_id q)) \<in> set (emitted (report_window now q))"
  by (simp_all add: report_window_def emit_window_def drain_counters_def record_depth_def Let_def emit_def
      split: option.splits prod.splits)

text \<open>C22. Stopping the worker ends, wherever it is stopped: the drain takes every waiting job whatever its hold,
  running them in at most as many turns as there are jobs, and only the deadline (a cancelled turn) can
  leave some behind. Every job waiting at the stop, the interrupted one included, is then either counted in
  the last published window (succeeded or failed) or still waiting and named as abandoned.
\<close>

theorem stopping_accounts_for_every_job:
  assumes "reached bound w"
  shows "\<exists>q'. stop_worker env now fresh (wq w) = Some q' \<and> q_in_flight q' = [] \<and>
    (q_pending q' = [] \<or> (\<exists>i < length (q_pending (interrupt_running now (wq w))). fst (snd (env i)) = Is_Cancelled)) \<and>
    (q_pending q' \<noteq> [] \<longrightarrow> last (lines q') = Jobs_Abandoned (length (q_pending q')) 0) \<and>
    (\<exists>s f. (JOBS_SUCCEEDED, int s, Some (run_id (wq w))) \<in> set (last (flushed q')) \<and>
       (JOBS_FAILED, int f, Some (run_id (wq w))) \<in> set (last (flushed q')) \<and>
       s + f + length (q_pending q') = settled (wq w) + length (q_pending (interrupt_running now (wq w))))"
proof -
  let ?q = "interrupt_running now (wq w)"
  note i = interrupt_running_ok [OF reached_ok [OF assms], of now]
  have "queue_ok (?q\<lparr>accepting := False\<rparr>)" "q_in_flight (?q\<lparr>accepting := False\<rparr>) = []" "\<not> accepting (?q\<lparr>accepting := False\<rparr>)"
    using i by (simp_all add: queue_ok_def)
  from drain_loop_ends [OF this, of env 0] obtain d where d: "drain_loop env 0 (?q\<lparr>accepting := False\<rparr>) = Some d"
    "q_in_flight d = []" "settled d + length (q_pending d) = settled (?q\<lparr>accepting := False\<rparr>) + length (q_pending ?q)"
    "q_pending d = [] \<or> (\<exists>i < length (q_pending ?q). fst (snd (env i)) = Is_Cancelled)" "run_id d = run_id ?q" by auto
  have st: "stop_worker env now fresh (wq w) = Some (report_abandoned (publish now fresh d))"
    by (simp add: stop_worker_def drain_pending_def d(1))
  have fl: "last (flushed (report_abandoned (publish now fresh d))) = emitted (report_window now d)"
    by (simp add: report_abandoned_def publish_window)
  have "settled (?q\<lparr>accepting := False\<rparr>) = settled (wq w)" using i(3) by (simp add: settled_def)
  then have "succeeded (counters d) + failed (counters d) + length (q_pending d) = settled (wq w) + length (q_pending ?q)"
    using d(3) by (simp add: settled_def)
  moreover have "q_pending (report_abandoned (publish now fresh d)) = q_pending d"
    "q_in_flight (report_abandoned (publish now fresh d)) = []" by (simp_all add: report_abandoned_def d(2))
  moreover have "q_pending d \<noteq> [] \<Longrightarrow> last (lines (report_abandoned (publish now fresh d))) = Jobs_Abandoned (length (q_pending d)) 0"
    by (simp add: report_abandoned_def log_line_def d(2))
  ultimately show ?thesis unfolding st
    using report_window_counts [of d now] d(4,5) i(5) fl by (intro exI conjI) (rule refl, auto intro: exI)
qed

section \<open>What a cancelled job leaves behind\<close>

text \<open>
  When every submit asks for all the cards of its meeting, a cancellation gives no card up: a refresh
  submitted while the job ran skips nothing, so it covers whatever the interrupted job covered.
\<close>

definition covers_all :: "'p background_job \<Rightarrow> bool" where
  "covers_all j \<longleftrightarrow> (case j of Meeting_Refresh f \<Rightarrow> message_db_ids f = None \<and> skip_message_db_id f = None | Keyed_Send s \<Rightarrow> True)"

lemma cancelled_job_kept:
  assumes "covers_card (job r) c"
    and "\<And>j. map_of (q_pending q) (job_key (job r)) = Some j \<Longrightarrow> covers_all j \<and> (\<exists>f. j = Meeting_Refresh f \<and> meeting_id f = of_meeting c)"
  shows "waiting_covers (snd (finish_job Is_Cancelled now r q)) c"
proof -
  have w: "waiting_covers (snd (finish_job Is_Cancelled now r q)) c \<longleftrightarrow> waiting_covers (requeue (job r) q) c"
    by (simp add: finish_job_cancelled dict_covers_def)
  show ?thesis
  proof (cases "map_of (q_pending q) (job_key (job r))")
    case None then show ?thesis unfolding w requeue_covers using assms(1) by simp
  next
    case (Some j)
    then obtain f where "j = Meeting_Refresh f" "meeting_id f = of_meeting c" "covers_all j" using assms(2) by blast
    then have "covers_card j c" by (cases c) (auto simp: covers_all_def)
    then show ?thesis unfolding w requeue_covers using map_of_SomeD [OF Some] by (auto simp: dict_covers_def)
  qed
qed

text \<open>
  A scoped submit breaks this: a refresh of card 3 alone, submitted while a refresh of cards 1 and 2 runs,
  takes the key, and the interrupted refresh is not put back. Cards 1 and 2 are then covered by no job.
\<close>

definition scoped_refresh :: "int set \<Rightarrow> meeting_refresh" where
  "scoped_refresh S = \<lparr>origin_update_id = None, hold_seconds = 0, coalesced = 0, attempt = 1, enqueued_at = 0, hold_since = 0,
     meeting_id = 7, skip_message_db_id = None, message_db_ids = Some S\<rparr>"

lemma interrupted_scope_is_forgotten:
  fixes q0 :: "unit refresh_queue"
  defines "q0 \<equiv> new_queue 500 True ''w''"
  defines "q1 \<equiv> snd (submit (Meeting_Refresh (scoped_refresh {1, 2})) q0)"
  shows "\<exists>r q2 q3. take_job 0 q1 = Some (r, q2) \<and> submit (Meeting_Refresh (scoped_refresh {3})) q2 = (True, q3) \<and>
    covers_card (job r) (Card_Ref 7 1) \<and>
    \<not> waiting_covers (snd (finish_job Is_Cancelled 0 r q3)) (Card_Ref 7 1) \<and>
    waiting_covers (snd (finish_job Is_Cancelled 0 r q3)) (Card_Ref 7 3)"
  by (simp add: q1_def q0_def new_queue_def submit_def submitted_job_def take_job_def scoped_refresh_def
      seconds_until_ready_def finish_job_def requeue_def dict_covers_def log_line_def emit_def Let_def)

end
