(* ===== verification/Card_Queue_Examples.thy ===== *)
theory Card_Queue_Examples
  imports Card_Queue_Stop
begin

text \<open>
  The properties of the background queue at a concrete moment: meeting 7 has changed, its refresh was taken
  and has read it, a second refresh of the same meeting waits, and so does one of meeting 8.
\<close>

definition refresh_of :: "int \<Rightarrow> int option \<Rightarrow> meeting_refresh" where
  "refresh_of m skip = \<lparr>origin_update_id = Some 1, hold_seconds = 0, coalesced = 0, attempt = 1, enqueued_at = 0, hold_since = 0,
     meeting_id = m, skip_message_db_id = skip, message_db_ids = None\<rparr>"

definition submit_in :: "meeting_refresh \<Rightarrow> unit world \<Rightarrow> unit world" where
  "submit_in f w = after_submit f (fst (submit (Meeting_Refresh f) (wq w))) (snd (submit (Meeting_Refresh f) (wq w))) w"

definition world1 :: "unit world" where
  "world1 = submit_in (refresh_of 7 (Some 3)) ((start_world 2 True ''w'')\<lparr>version := (\<lambda>_. 0)(7 := 1)\<rparr>)"

definition world2 :: "unit world" where
  "world2 = world1\<lparr>wq := snd (the (take_job 5 (wq world1))), read_at := None\<rparr>"

definition world3 :: "unit world" where
  "world3 = submit_in (refresh_of 8 None) (submit_in (refresh_of 7 (Some 3)) (world2\<lparr>read_at := Some 1\<rparr>))"

lemmas example_defs = submit_in_def after_submit_def refresh_of_def start_world_def new_queue_def submit_def submitted_job_def
  take_job_def seconds_until_ready_def log_line_def record_depth_def Let_def

lemma world1_eq: "world1 = \<lparr>wq = wq world1, version = (\<lambda>_. 0)(7 := 1), read_at = None, owed = owed world1, shown = (\<lambda>_. 0), given_up = {}\<rparr>"
  by (simp add: world1_def example_defs)

lemma world1_queue: "q_pending (wq world1) = [(meeting_job_key 7, Meeting_Refresh (refresh_of 7 (Some 3)))]" "q_in_flight (wq world1) = []"
  "accepting (wq world1)" "max_pending (wq world1) = 2"
  by (simp_all add: world1_def example_defs)

lemma world2_taken: "take_job 5 (wq world1) = Some (\<lparr>job = Meeting_Refresh (refresh_of 7 (Some 3)), started = 5\<rparr>, wq world2)"
  by (simp add: world2_def take_job_def world1_queue seconds_until_ready_def refresh_of_def Let_def)

lemma world2_queue: "q_pending (wq world2) = []" "accepting (wq world2)" "max_pending (wq world2) = 2"
  "q_in_flight (wq world2) = [(meeting_job_key 7, \<lparr>job = Meeting_Refresh (refresh_of 7 (Some 3)), started = 5\<rparr>)]"
  by (simp_all add: world2_def take_job_def world1_queue seconds_until_ready_def refresh_of_def Let_def)

lemma reached_submit: "reached bound w \<Longrightarrow> reached bound (submit_in f w)"
  unfolding submit_in_def by (erule continues, rule submits_refresh) simp

lemma reached_world1: "reached 2 world1"
  unfolding world1_def
  by (rule reached_submit, rule continues [OF begins [of _ True "''w''"]])
    (use commits [of "start_world 2 True ''w''" 7] in \<open>simp add: start_world_def\<close>)

lemma reached_world2: "reached 2 world2"
  unfolding world2_def using takes [OF world1_queue(2) world2_taken] world2_taken
  by (auto intro: continues [OF reached_world1])

lemma reached_world3: "reached 2 world3"
proof -
  have "worker_step world2 (world2\<lparr>read_at := Some (version world2 (meeting_id (refresh_of 7 (Some 3))))\<rparr>)"
    by (rule reads [OF world2_queue(4)]) (simp_all add: world2_def)
  moreover have "version world2 (meeting_id (refresh_of 7 (Some 3))) = 1"
    by (simp add: world2_def refresh_of_def) (subst world1_eq, simp)
  ultimately have "reached 2 (world2\<lparr>read_at := Some 1\<rparr>)" using continues [OF reached_world2] by simp
  then show ?thesis unfolding world3_def by (intro reached_submit)
qed

text \<open>The card the second submitter had drawn itself is not passed over: the first job was running.\<close>

lemma world3_pending: "q_pending (wq world3) =
   [(meeting_job_key 7, Meeting_Refresh (refresh_of 7 None)), (meeting_job_key 8, Meeting_Refresh (refresh_of 8 None))]"
  by (simp add: world3_def submit_in_def after_submit_def submit_def submitted_job_def Let_def log_line_def world2_queue)
    (simp add: refresh_of_def)

lemma world3_in_flight: "q_in_flight (wq world3) = q_in_flight (wq world2)"
  by (simp add: world3_def submit_in_def after_submit_def submit_def submitted_job_def Let_def log_line_def world2_queue)

lemma world3_given_up: "given_up world3 = {}"
proof -
  have "given_up world1 = {}" by (subst world1_eq) simp
  then show ?thesis by (simp add: world3_def submit_in_def after_submit_def world2_def)
qed

theorem no_card_forgotten_witness:
  "shown world3 (Card_Ref 7 3) \<le> version world3 7 \<and>
   (owed world3 (Card_Ref 7 3) \<le> shown world3 (Card_Ref 7 3) \<or> waiting_covers (wq world3) (Card_Ref 7 3) \<or>
    running_covers (wq world3) (Card_Ref 7 3))"
  using no_card_forgotten [OF reached_world3, of "Card_Ref 7 3"] unfolding dict_covers_def world3_given_up by auto

theorem pending_stays_bounded_witness:
  "length (q_pending (wq world3)) + length (q_in_flight (wq world3)) = 3 \<and>
   length (q_pending (wq world3)) + length (q_in_flight (wq world3)) \<le> Suc 2"
  using pending_stays_bounded [OF reached_world3] by (simp add: world3_pending world3_in_flight world2_queue)

theorem takes_the_oldest_ready_job_witness:
  "\<exists>r q' before after. take_job 9 (wq world3) = Some (r, q') \<and>
     q_pending (wq world3) = before @ (job_key (job r), job r) # after \<and> q_pending q' = before @ after"
proof -
  have "take_job 9 (wq world3) \<noteq> None"
    unfolding take_job_None world3_pending by (simp add: seconds_until_ready_def refresh_of_def)
  then obtain r q' where "take_job 9 (wq world3) = Some (r, q')" by auto
  then show ?thesis using takes_the_oldest_ready_job [OF reached_world3, of 9] by blast
qed

theorem stopping_accounts_for_every_job_witness:
  "\<exists>q'. stop_worker (\<lambda>_. (0, Ends REFRESHED, 1)) 9 ''x'' (wq world3) = Some q' \<and> q_in_flight q' = [] \<and> q_pending q' = []"
  using stopping_accounts_for_every_job [OF reached_world3, of "\<lambda>_. (0, Ends REFRESHED, 1)" 9 "''x''"] by auto

end
