(* ===== verification/Outbox.thy ===== *)
theory Outbox
  imports Card_Queue Tables
begin

text \<open>
  The write lifecycle: the Telegram calls a handler makes are captured in an outbox
  (\<^verbatim>\<open>libs/telegram/mitup_bot/api_wrapper.py\<close>), the transaction commits, the calls are drained, and what the
  drain learned is written back (\<^verbatim>\<open>libs/data/mitup_bot/db.py\<close>, \<^verbatim>\<open>libs/telegram/mitup_bot/reconcile.py\<close>).

  Telegram is the environment: its answer to the n-th request is a parameter, and every request is recorded
  with its answer. A queued closure is the value of \<open>api_call\<close> it was built from. A rendered message is a
  record: its html with and without custom emoji (the flag of \<open>rich_message\<close>), the classic keyboard beside
  it, whether it carries custom emoji and whether it is over Telegram's length. \<open>sha\<close> is sha256.
  The loggable payloads, the failure lines and the back-off sleeps are left out.
\<close>

section \<open>Telegram\<close>

datatype failure_cause = ConnectError | ConnectTimeout | PoolTimeout | ReadTimeout | Other_Cause

datatype api_error =
  BadRequest string
| Forbidden
| NetworkError failure_cause
| TelegramError
| InactiveUserInteraction int
| RichMessageTooLong
| AssertionError
| ValueError
| RuntimeError
| NoMessageAvailable
| CallbackQueryTextTooLong
| DatabaseError

type_synonym edit_target = "int option \<times> int option \<times> string option"

datatype request =
  Send_Rich_Message int string
| Edit_Message_Text edit_target string "string option"
| Delete_Message int int
| Answer_Inline_Query string
| Answer_Callback_Query string string

datatype refusal = Bad_Request string | Forbids | Other_Refusal

text \<open>
  An answer: the request was accepted, refused with an error, or never answered (the connection failed with
  a cause; the flag says whether Telegram had applied the request all the same).
\<close>

datatype answer = Accepted | Refused refusal | Unanswered failure_cause bool

definition CONNECT_FAILURE_CAUSES :: "failure_cause set" where
  "CONNECT_FAILURE_CAUSES = {ConnectError, ConnectTimeout, PoolTimeout}"

text \<open>A request whose connection was never established did not leave the process.\<close>

fun applied :: "answer \<Rightarrow> bool" where
  "applied Accepted \<longleftrightarrow> True"
| "applied (Refused e) \<longleftrightarrow> False"
| "applied (Unanswered c reached) \<longleftrightarrow> reached \<and> c \<notin> CONNECT_FAILURE_CAUSES"

record telegram =
  answers :: "nat \<Rightarrow> answer"
  requests :: "(request \<times> answer) list"

fun answer_result :: "answer \<Rightarrow> api_error + unit" where
  "answer_result Accepted = Inr ()"
| "answer_result (Refused (Bad_Request m)) = Inl (BadRequest m)"
| "answer_result (Refused Forbids) = Inl Forbidden"
| "answer_result (Refused Other_Refusal) = Inl TelegramError"
| "answer_result (Unanswered c reached) = Inl (NetworkError c)"

definition call_telegram :: "request \<Rightarrow> telegram \<Rightarrow> (api_error + unit) \<times> telegram" where
  "call_telegram r t =
     (let a = answers t (length (requests t)) in (answer_result a, t\<lparr>requests := requests t @ [(r, a)]\<rparr>))"

section \<open>Reading the errors\<close>

fun contains :: "string \<Rightarrow> string \<Rightarrow> bool" where
  "contains p [] \<longleftrightarrow> p = []"
| "contains p (c # s) \<longleftrightarrow> take (length p) (c # s) = p \<or> contains p s"

definition lower :: "string \<Rightarrow> string" where
  "lower = map (\<lambda>c. if 65 \<le> (of_char c :: nat) \<and> (of_char c :: nat) \<le> 90 then char_of (of_char c + 32 :: nat) else c)"

definition contains_ignoring_case :: "string \<Rightarrow> string \<Rightarrow> bool" where
  "contains_ignoring_case p s \<longleftrightarrow> contains (lower p) (lower s)"

definition not_modified :: "string \<Rightarrow> bool" where
  "not_modified m \<longleftrightarrow> contains ''Message is not modified'' m"

definition chat_not_found :: "string \<Rightarrow> bool" where
  "chat_not_found m \<longleftrightarrow> contains_ignoring_case ''Chat not found'' m"

definition message_not_found :: "string \<Rightarrow> bool" where
  "message_not_found m \<longleftrightarrow>
     contains ''Message_id_invalid'' m \<or> contains ''Message to edit not found'' m \<or> chat_not_found m"

definition message_not_deleted :: "string \<Rightarrow> bool" where
  "message_not_deleted m \<longleftrightarrow> contains_ignoring_case ''message to delete not found'' m \<or>
     contains_ignoring_case ''message can't be deleted'' m"

definition custom_emoji_rejection :: "string \<Rightarrow> bool" where
  "custom_emoji_rejection m \<longleftrightarrow> contains_ignoring_case ''custom emoji'' m \<or> contains_ignoring_case ''custom_emoji'' m"

section \<open>Sending and editing\<close>

record rendered =
  rich_html :: "bool \<Rightarrow> string"
  classic_markup :: "string option"
  carries_custom_emoji :: bool
  too_long :: "bool \<Rightarrow> bool"

definition retry_without_custom_emoji ::
    "(bool \<Rightarrow> telegram \<Rightarrow> (api_error + unit) \<times> telegram) \<Rightarrow> bool \<Rightarrow> telegram \<Rightarrow> (api_error + unit) \<times> telegram" where
  "retry_without_custom_emoji send carries t =
     (case send False t of
        (Inl (BadRequest m), t') \<Rightarrow>
          if \<not> carries \<or> \<not> custom_emoji_rejection m then (Inl (BadRequest m), t') else send True t'
      | r \<Rightarrow> r)"

definition send_rich_message_now :: "int \<Rightarrow> rendered \<Rightarrow> bool \<Rightarrow> telegram \<Rightarrow> (api_error + unit) \<times> telegram" where
  "send_rich_message_now chat m stripped t =
     (if too_long m stripped then (Inl RichMessageTooLong, t)
      else call_telegram (Send_Rich_Message chat (rich_html m stripped)) t)"

definition send_now :: "int \<Rightarrow> rendered \<Rightarrow> telegram \<Rightarrow> (api_error + unit) \<times> telegram" where
  "send_now chat m t = retry_without_custom_emoji (send_rich_message_now chat m) (carries_custom_emoji m) t"

definition send_user_message_now :: "int \<Rightarrow> rendered \<Rightarrow> telegram \<Rightarrow> (api_error + unit) \<times> telegram" where
  "send_user_message_now tg_id m t =
     (case send_now tg_id m t of
        (Inl Forbidden, t') \<Rightarrow> (Inl (InactiveUserInteraction tg_id), t')
      | (Inl (BadRequest msg), t') \<Rightarrow>
          (Inl (if contains ''not found'' msg then InactiveUserInteraction tg_id else BadRequest msg), t')
      | r \<Rightarrow> r)"

definition edit_rich_text_now :: "edit_target \<Rightarrow> rendered \<Rightarrow> bool \<Rightarrow> telegram \<Rightarrow> (api_error + unit) \<times> telegram" where
  "edit_rich_text_now target m stripped t =
     (if too_long m stripped then (Inl RichMessageTooLong, t)
      else call_telegram (Edit_Message_Text target (rich_html m stripped) (classic_markup m)) t)"

fun handle_edit_errors :: "api_error + unit \<Rightarrow> api_error + unit" where
  "handle_edit_errors (Inl (BadRequest m)) =
     (if not_modified m \<or> message_not_found m then Inr () else Inl (BadRequest m))"
| "handle_edit_errors r = r"

definition edit_message_now :: "edit_target \<Rightarrow> rendered \<Rightarrow> telegram \<Rightarrow> (api_error + unit) \<times> telegram" where
  "edit_message_now target m t =
     (case retry_without_custom_emoji (edit_rich_text_now target m) (carries_custom_emoji m) t of
        (r, t') \<Rightarrow> (handle_edit_errors r, t'))"

definition delete_message_now :: "int \<Rightarrow> int \<Rightarrow> telegram \<Rightarrow> (api_error + unit) \<times> telegram" where
  "delete_message_now chat message t =
     (case call_telegram (Delete_Message chat message) t of
        (Inl (BadRequest m), t') \<Rightarrow> (if message_not_deleted m then Inr () else Inl (BadRequest m), t')
      | r \<Rightarrow> r)"

section \<open>Meeting cards\<close>

record meeting_message_edit =
  message_db_id :: "int option"
  e_chat_id :: "int option"
  e_message_id :: "int option"
  e_inline_message_id :: "string option"
  e_content :: rendered

definition card_target :: "meeting_message_edit \<Rightarrow> edit_target" where
  "card_target e = (e_chat_id e, e_message_id e, e_inline_message_id e)"

definition digest :: "(string \<Rightarrow> string) \<Rightarrow> meeting_message_edit \<Rightarrow> string" where
  "digest sha e = sha (rich_html (e_content e) False @ (case classic_markup (e_content e) of None \<Rightarrow> [] | Some m \<Rightarrow> m))"

text \<open>The answer \<open>Inr True\<close> says that the card is unreachable for good.\<close>

definition edit_meeting_message_now :: "meeting_message_edit \<Rightarrow> telegram \<Rightarrow> (api_error + bool) \<times> telegram" where
  "edit_meeting_message_now e t =
     (case retry_without_custom_emoji (edit_rich_text_now (card_target e) (e_content e)) (carries_custom_emoji (e_content e)) t of
        (Inr u, t') \<Rightarrow> (Inr False, t')
      | (Inl (BadRequest m), t') \<Rightarrow>
          (if not_modified m then Inr False else if message_not_found m then Inr True else Inl (BadRequest m), t')
      | (Inl Forbidden, t') \<Rightarrow> (Inr True, t')
      | (Inl x, t') \<Rightarrow> (Inl x, t'))"

section \<open>The outbox\<close>

text \<open>The calls that only reach Telegram, and the two that also touch the outbox or the queue.\<close>

datatype plain_call =
  Send_Now int rendered
| Send_User_Message_Now int rendered
| Edit_Message_Now edit_target rendered
| Delete_Message_Now int int
| Answer_Inline_Query_Now string
| Answer_Callback_Query_Now string string

datatype api_call = Plain plain_call | Edit_Card meeting_message_edit | Submit_Keyed_Send "rendered keyed_send"

record queued_api_call =
  call_name :: string
  invoke :: api_call
  idempotent :: bool
  call_inline_message_id :: "string option"

record api_outbox =
  calls :: "queued_api_call list"
  dead_message_ids :: "int list"
  inactive_tg_user_ids :: "int list"
  confirmed_render_digests :: "(int \<times> string) list"
  meeting_refreshes :: "meeting_refresh list"

definition empty_outbox :: api_outbox where
  "empty_outbox = \<lparr>calls = [], dead_message_ids = [], inactive_tg_user_ids = [], confirmed_render_digests = [],
     meeting_refreshes = []\<rparr>"

text \<open>What a drain works on: Telegram, the outbox it fills, and the process's queue where there is one.\<close>

record drain_state =
  tg :: telegram
  outbox :: api_outbox
  queue :: "rendered refresh_queue option"
  post_commit_faults :: nat

definition on_telegram :: "(telegram \<Rightarrow> ('r \<times> telegram)) \<Rightarrow> drain_state \<Rightarrow> 'r \<times> drain_state" where
  "on_telegram f s = (case f (tg s) of (r, t) \<Rightarrow> (r, s\<lparr>tg := t\<rparr>))"

definition queued_meeting_message_edit ::
    "(string \<Rightarrow> string) \<Rightarrow> meeting_message_edit \<Rightarrow> drain_state \<Rightarrow> (api_error + unit) \<times> drain_state" where
  "queued_meeting_message_edit sha e s =
     (case on_telegram (edit_meeting_message_now e) s of
        (Inl x, s') \<Rightarrow> (Inl x, s')
      | (Inr unreachable, s') \<Rightarrow>
          (Inr (), case message_db_id e of
             None \<Rightarrow> s'
           | Some mid \<Rightarrow>
               if unreachable then s'\<lparr>outbox := (outbox s')\<lparr>dead_message_ids := dead_message_ids (outbox s') @ [mid]\<rparr>\<rparr>
               else s'\<lparr>outbox := (outbox s')\<lparr>confirmed_render_digests :=
                      AList.update mid (digest sha e) (confirmed_render_digests (outbox s'))\<rparr>\<rparr>))"

text \<open>\<open>submit_keyed_send\<close> ignores whether the queue took the job.\<close>

definition submit_keyed_send :: "rendered keyed_send \<Rightarrow> drain_state \<Rightarrow> (api_error + unit) \<times> drain_state" where
  "submit_keyed_send send s =
     (case queue s of
        None \<Rightarrow> (Inl AssertionError, s)
      | Some q \<Rightarrow> (Inr (), s\<lparr>queue := Some (snd (submit (Keyed_Send send) q))\<rparr>))"

fun plain_call_now :: "plain_call \<Rightarrow> telegram \<Rightarrow> (api_error + unit) \<times> telegram" where
  "plain_call_now (Send_Now chat m) = send_now chat m"
| "plain_call_now (Send_User_Message_Now tg_id m) = send_user_message_now tg_id m"
| "plain_call_now (Edit_Message_Now target m) = edit_message_now target m"
| "plain_call_now (Delete_Message_Now chat message) = delete_message_now chat message"
| "plain_call_now (Answer_Inline_Query_Now q) = call_telegram (Answer_Inline_Query q)"
| "plain_call_now (Answer_Callback_Query_Now q text) = call_telegram (Answer_Callback_Query q text)"

fun invoke_call :: "(string \<Rightarrow> string) \<Rightarrow> api_call \<Rightarrow> drain_state \<Rightarrow> (api_error + unit) \<times> drain_state" where
  "invoke_call sha (Plain c) s = on_telegram (plain_call_now c) s"
| "invoke_call sha (Edit_Card e) s = queued_meeting_message_edit sha e s"
| "invoke_call sha (Submit_Keyed_Send send) s = submit_keyed_send send s"

section \<open>The drain\<close>

definition QUEUED_CALL_ATTEMPTS :: nat where "QUEUED_CALL_ATTEMPTS = 3"
definition DRAIN_NETWORK_FAILURE_LIMIT :: nat where "DRAIN_NETWORK_FAILURE_LIMIT = 3"
definition DRAIN_INLINE_EDIT_TIMEOUT_LIMIT :: nat where "DRAIN_INLINE_EDIT_TIMEOUT_LIMIT = 3"

datatype drain_outcome = Call_Sent | Call_Failed | NETWORK_FAILED | INLINE_EDIT_TIMED_OUT

record drain_report =
  r_queued :: nat
  r_sent :: nat
  r_failed :: nat
  consecutive_network_failures :: nat
  inline_edit_timeouts :: nat
  abandoned :: "string list"
  skipped_inline_message_ids :: "string list"

definition new_report :: "nat \<Rightarrow> drain_report" where
  "new_report n = \<lparr>r_queued = n, r_sent = 0, r_failed = 0, consecutive_network_failures = 0, inline_edit_timeouts = 0,
     abandoned = [], skipped_inline_message_ids = []\<rparr>"

definition record_outcome :: "drain_outcome \<Rightarrow> drain_report \<Rightarrow> drain_report" where
  "record_outcome x r =
     (let r1 = (if x = Call_Sent then r\<lparr>r_sent := r_sent r + 1\<rparr> else r\<lparr>r_failed := r_failed r + 1\<rparr>) in
      if x = INLINE_EDIT_TIMED_OUT then r1\<lparr>inline_edit_timeouts := inline_edit_timeouts r1 + 1\<rparr>
      else r1\<lparr>consecutive_network_failures :=
             (if x = NETWORK_FAILED then consecutive_network_failures r1 + 1 else 0)\<rparr>)"

definition network_is_dead :: "drain_report \<Rightarrow> bool" where
  "network_is_dead r \<longleftrightarrow> consecutive_network_failures r \<ge> DRAIN_NETWORK_FAILURE_LIMIT"

definition inline_edits_are_stalled :: "drain_report \<Rightarrow> bool" where
  "inline_edits_are_stalled r \<longleftrightarrow> inline_edit_timeouts r \<ge> DRAIN_INLINE_EDIT_TIMEOUT_LIMIT"

definition failure_never_reached_telegram :: "failure_cause \<Rightarrow> bool" where
  "failure_never_reached_telegram c \<longleftrightarrow> c \<in> CONNECT_FAILURE_CAUSES"

definition queued_call_is_retryable :: "queued_api_call \<Rightarrow> failure_cause \<Rightarrow> bool" where
  "queued_call_is_retryable queued c \<longleftrightarrow> failure_never_reached_telegram c \<or> idempotent queued"

definition network_failure_outcome :: "queued_api_call \<Rightarrow> failure_cause \<Rightarrow> drain_outcome" where
  "network_failure_outcome queued c =
     (if call_inline_message_id queued \<noteq> None \<and> c = ReadTimeout then INLINE_EDIT_TIMED_OUT else NETWORK_FAILED)"

text \<open>\<open>_invoke_queued_with_retry\<close>: the number counts the attempts left.\<close>

fun invoke_queued_with_retry ::
    "(string \<Rightarrow> string) \<Rightarrow> queued_api_call \<Rightarrow> nat \<Rightarrow> drain_state \<Rightarrow> (api_error + unit) \<times> drain_state" where
  "invoke_queued_with_retry sha queued 0 s = (Inr (), s)"
| "invoke_queued_with_retry sha queued (Suc left) s =
     (case invoke_call sha (invoke queued) s of
        (Inl (NetworkError c), s') \<Rightarrow>
          if left = 0 \<or> \<not> queued_call_is_retryable queued c then (Inl (NetworkError c), s')
          else invoke_queued_with_retry sha queued left s'
      | r \<Rightarrow> r)"

definition record_queued_failure :: "drain_state \<Rightarrow> drain_state" where
  "record_queued_failure s = s\<lparr>post_commit_faults := post_commit_faults s + 1\<rparr>"

definition drain_queued_call :: "(string \<Rightarrow> string) \<Rightarrow> queued_api_call \<Rightarrow> drain_state \<Rightarrow> drain_outcome \<times> drain_state" where
  "drain_queued_call sha queued s =
     (case invoke_queued_with_retry sha queued QUEUED_CALL_ATTEMPTS s of
        (Inr _, s') \<Rightarrow> (Call_Sent, s')
      | (Inl (InactiveUserInteraction tg_id), s') \<Rightarrow>
          (Call_Sent, s'\<lparr>outbox := (outbox s')\<lparr>inactive_tg_user_ids := inactive_tg_user_ids (outbox s') @ [tg_id]\<rparr>\<rparr>)
      | (Inl (BadRequest m), s') \<Rightarrow>
          if not_modified m then (Call_Sent, s') else (Call_Failed, record_queued_failure s')
      | (Inl (NetworkError c), s') \<Rightarrow> (network_failure_outcome queued c, record_queued_failure s')
      | (Inl _, s') \<Rightarrow> (Call_Failed, record_queued_failure s'))"

fun drain_calls :: "(string \<Rightarrow> string) \<Rightarrow> queued_api_call list \<Rightarrow> drain_report \<Rightarrow> drain_state \<Rightarrow> drain_report \<times> drain_state" where
  "drain_calls sha [] r s = (r, s)"
| "drain_calls sha (queued # rest) r s =
     (case (call_inline_message_id queued, inline_edits_are_stalled r) of
        (Some inline_id, True) \<Rightarrow>
          drain_calls sha rest (r\<lparr>skipped_inline_message_ids := skipped_inline_message_ids r @ [inline_id]\<rparr>) s
      | _ \<Rightarrow>
          let (x, s') = drain_queued_call sha queued s; r' = record_outcome x r in
          if network_is_dead r' then (r'\<lparr>abandoned := map call_name rest\<rparr>, s')
          else drain_calls sha rest r' s')"

definition drain_outbox :: "(string \<Rightarrow> string) \<Rightarrow> drain_state \<Rightarrow> drain_report \<times> drain_state" where
  "drain_outbox sha s = drain_calls sha (calls (outbox s)) (new_report (length (calls (outbox s)))) s"

definition execute_queued :: "(string \<Rightarrow> string) \<Rightarrow> drain_state \<Rightarrow> drain_state" where
  "execute_queued sha s =
     (let s' = snd (drain_outbox sha s) in
      s'\<lparr>queue := map_option (\<lambda>q. fold (\<lambda>f q. snd (submit (Meeting_Refresh f) q)) (meeting_refreshes (outbox s)) q) (queue s')\<rparr>)"

end
