(* ===== verification/Write_Lifecycle.thy ===== *)
theory Write_Lifecycle
  imports Outbox
begin

text \<open>
  The public calls of \<open>TelegramApi\<close> in their two modes (immediate, or captured into the outbox), the
  fan-out of a meeting over its cards, and \<open>db.begin_write\<close>, which captures, commits, drains and writes back.

  Where an \<open>Update\<close> is only unwrapped, its chat, target or query id is the argument. What a view renders to
  (\<^verbatim>\<open>mitup_bot/views\<close>) is an argument too: \<open>render\<close> gives, for a stored card, the edit and the keyboard to store.
  The body of a write section is any function of the tables and the api; the tables it leaves are committed
  unless it raises (a commit that fails counts as the body raising).
\<close>

section \<open>The api\<close>

datatype write_phase = BODY | POST_COMMIT_FAN_OUT

record api =
  a_outbox :: "api_outbox option"
  a_telegram :: telegram
  a_queue :: "rendered refresh_queue option"
  a_faults :: nat
  write_state :: "(write_phase \<times> bool) option"

type_synonym 'r outcome = "(api_error + 'r) \<times> api"

definition enqueue :: "queued_api_call \<Rightarrow> api \<Rightarrow> api" where
  "enqueue c a = a\<lparr>a_outbox := map_option (\<lambda>b. b\<lparr>calls := calls b @ [c]\<rparr>) (a_outbox a)\<rparr>"

definition immediately :: "(telegram \<Rightarrow> 'r \<times> telegram) \<Rightarrow> api \<Rightarrow> 'r \<times> api" where
  "immediately f a = (case f (a_telegram a) of (r, t) \<Rightarrow> (r, a\<lparr>a_telegram := t\<rparr>))"

definition call_or_enqueue :: "string \<Rightarrow> plain_call \<Rightarrow> bool \<Rightarrow> string option \<Rightarrow> api \<Rightarrow> unit outcome" where
  "call_or_enqueue name c idem inline_id a =
     (if a_outbox a \<noteq> None
      then (Inr (), enqueue \<lparr>call_name = name, invoke = Plain c, idempotent = idem, call_inline_message_id = inline_id\<rparr> a)
      else immediately (plain_call_now c) a)"

text \<open>\<open>api.immediate\<close>: the capture is lifted for one call.\<close>

definition run_immediately :: "(api \<Rightarrow> 'r outcome) \<Rightarrow> api \<Rightarrow> 'r outcome" where
  "run_immediately f a = (case f (a\<lparr>a_outbox := None\<rparr>) of (r, a') \<Rightarrow> (r, a'\<lparr>a_outbox := a_outbox a\<rparr>))"

section \<open>Sending\<close>

record outbox_strategy =
  strategy_key :: job_key
  strategy_hold :: duration

definition screen_replacement_strategy :: "int \<Rightarrow> outbox_strategy" where
  "screen_replacement_strategy chat = \<lparr>strategy_key = [Text ''screen'', Number chat], strategy_hold = seconds 1\<rparr>"

definition send_message :: "int option \<Rightarrow> instant \<Rightarrow> int \<Rightarrow> rendered \<Rightarrow> outbox_strategy option \<Rightarrow> api \<Rightarrow> unit outcome" where
  "send_message origin now chat m strategy a =
     (case (strategy, a_outbox a, a_queue a) of
        (Some st, Some _, Some _) \<Rightarrow>
          (Inr (), enqueue \<lparr>call_name = ''submit_keyed_send'',
             invoke = Submit_Keyed_Send \<lparr>origin_update_id = origin, hold_seconds = strategy_hold st, coalesced = 0, attempt = 1,
               enqueued_at = now, hold_since = now, send_key = strategy_key st, send_chat_id = chat, send_payload = m\<rparr>,
             idempotent = False, call_inline_message_id = None\<rparr> a)
      | _ \<Rightarrow> call_or_enqueue ''send_message'' (Send_Now chat m) False None a)"

definition send_message_to_user :: "int \<Rightarrow> rendered \<Rightarrow> api \<Rightarrow> unit outcome" where
  "send_message_to_user tg_id m a = call_or_enqueue ''send_message_to_user'' (Send_User_Message_Now tg_id m) False None a"

definition send_message_to_chat :: "int \<Rightarrow> rendered \<Rightarrow> api \<Rightarrow> unit outcome" where
  "send_message_to_chat chat m a = call_or_enqueue ''send_message_to_chat'' (Send_Now chat m) False None a"

datatype user_send = Reached | Unreachable | Send_Error api_error

fun classify_send :: "api_error + unit \<Rightarrow> user_send" where
  "classify_send (Inr _) = Reached"
| "classify_send (Inl (InactiveUserInteraction tg_id)) = Unreachable"
| "classify_send (Inl e) = Send_Error e"

fun send_each :: "(int \<times> rendered) list \<Rightarrow> api \<Rightarrow> user_send list \<times> api" where
  "send_each [] a = ([], a)"
| "send_each ((u, m) # rest) a =
     (case send_message_to_user u m a of (r, a1) \<Rightarrow>
        case send_each rest a1 of (rs, a2) \<Rightarrow> (classify_send r # rs, a2))"

text \<open>The users are their Telegram ids; an answer \<open>Unreachable\<close> is the user being marked inactive.\<close>

definition send_messages_to_users :: "int list \<Rightarrow> rendered list \<Rightarrow> bool \<Rightarrow> api \<Rightarrow> user_send list outcome" where
  "send_messages_to_users us ms has_callbacks a =
     (if length us \<noteq> length ms then (Inl ValueError, a)
      else if a_outbox a \<noteq> None then
        if has_callbacks then (Inl ValueError, a)
        else (Inr [], fold (\<lambda>(u, m). enqueue \<lparr>call_name = ''send_messages_to_users'', invoke = Plain (Send_User_Message_Now u m),
                idempotent = False, call_inline_message_id = None\<rparr>) (zip us ms) a)
      else (case send_each (zip us ms) a of (rs, a') \<Rightarrow> (Inr rs, a')))"

section \<open>Editing, deleting and answering\<close>

definition edit_message :: "edit_target \<Rightarrow> rendered \<Rightarrow> api \<Rightarrow> unit outcome" where
  "edit_message target m a = call_or_enqueue ''edit_message'' (Edit_Message_Now target m) True (snd (snd target)) a"

definition edit_message_for_user :: "int \<Rightarrow> int \<Rightarrow> rendered \<Rightarrow> api \<Rightarrow> unit outcome" where
  "edit_message_for_user tg_id message m a =
     call_or_enqueue ''edit_message_for_user'' (Edit_Message_Now (Some tg_id, Some message, None) m) True None a"

fun delete_message :: "edit_target \<Rightarrow> api \<Rightarrow> unit outcome" where
  "delete_message (Some chat, Some message, _) a = call_or_enqueue ''delete_message'' (Delete_Message_Now chat message) True None a"
| "delete_message _ a = (Inl NoMessageAvailable, a)"

definition answer_inline_query :: "string \<Rightarrow> api \<Rightarrow> unit outcome" where
  "answer_inline_query q a = call_or_enqueue ''answer_inline_query'' (Answer_Inline_Query_Now q) True None a"

definition CALLBACK_QUERY_TEXT_LIMIT :: nat where "CALLBACK_QUERY_TEXT_LIMIT = 200"

definition answer_callback_query :: "string \<Rightarrow> string \<Rightarrow> api \<Rightarrow> unit outcome" where
  "answer_callback_query q text a =
     (if length text > CALLBACK_QUERY_TEXT_LIMIT then (Inl CallbackQueryTextTooLong, a)
      else call_or_enqueue ''answer_callback_query'' (Answer_Callback_Query_Now q text) True None a)"

text \<open>\<open>replace_message\<close>: \<open>deletable\<close> is \<open>message_is_deletable\<close> of the update.\<close>

definition replace_message :: "int option \<Rightarrow> instant \<Rightarrow> bool \<Rightarrow> edit_target \<Rightarrow> int \<Rightarrow> rendered \<Rightarrow> api \<Rightarrow> unit outcome" where
  "replace_message origin now deletable target chat m a =
     (if \<not> deletable then edit_message target m a
      else case delete_message target a of
             (Inl e, a') \<Rightarrow> (Inl e, a')
           | (Inr _, a') \<Rightarrow> send_message origin now chat m (Some (screen_replacement_strategy chat)) a')"

section \<open>The cards of a meeting\<close>

record tracked_card = card_row +
  buttons :: string
  render_digest :: "string option"

definition same_message :: "tracked_card \<Rightarrow> tracked_card \<Rightarrow> bool" where
  "same_message x y \<longleftrightarrow> message_id x = message_id y \<and> chat_id x = chat_id y \<and> inline_message_id x = inline_message_id y \<and>
     chat_instance x = chat_instance y \<and> card_meetup_id x = card_meetup_id y \<and> buttons x = buttons y"

definition update_single_meeting_message ::
    "(string \<Rightarrow> string) \<Rightarrow> tracked_card \<Rightarrow> meeting_message_edit \<Rightarrow> api \<Rightarrow> unit outcome" where
  "update_single_meeting_message sha c e a =
     (if a_outbox a \<noteq> None then
        (Inr (), if Some (digest sha e) \<noteq> render_digest c
                 then enqueue \<lparr>call_name = ''update_meeting_message'', invoke = Edit_Card e, idempotent = True,
                        call_inline_message_id = e_inline_message_id e\<rparr> a
                 else a)
      else case immediately (edit_meeting_message_now e) a of
             (Inl x, a') \<Rightarrow> (Inl x, a')
           | (Inr _, a') \<Rightarrow> (Inr (), a'))"

definition defer_meeting_refresh ::
    "int option \<Rightarrow> instant \<Rightarrow> int \<Rightarrow> tracked_card option \<Rightarrow> int set option \<Rightarrow> outbox_strategy option \<Rightarrow> api \<Rightarrow> bool \<times> api" where
  "defer_meeting_refresh origin now mid current scope strategy a =
     (case (a_outbox a, a_queue a) of
        (Some b, Some q) \<Rightarrow>
          if accepts_fanout q then
            (True, a\<lparr>a_outbox := Some (b\<lparr>meeting_refreshes := meeting_refreshes b @
               [\<lparr>origin_update_id = origin, hold_seconds = (case strategy of None \<Rightarrow> 0 | Some st \<Rightarrow> strategy_hold st), coalesced = 0,
                 attempt = 1, enqueued_at = now, hold_since = now, meeting_id = mid,
                 skip_message_db_id = map_option card_id current, message_db_ids = scope\<rparr>]\<rparr>)\<rparr>)
          else (False, a)
      | _ \<Rightarrow> (False, a))"

fun update_each ::
    "(string \<Rightarrow> string) \<Rightarrow> (tracked_card \<Rightarrow> meeting_message_edit \<times> string) \<Rightarrow> tracked_card list \<Rightarrow> api \<Rightarrow> unit outcome" where
  "update_each sha render [] a = (Inr (), a)"
| "update_each sha render (c # cs) a =
     (case update_single_meeting_message sha c (fst (render c)) a of
        (Inl e, a') \<Rightarrow> (Inl e, a')
      | (Inr _, a') \<Rightarrow> update_each sha render cs a')"

text \<open>The cards behind the current one; the current card has its new buttons by then.\<close>

definition editable_cards :: "tracked_card list \<Rightarrow> tracked_card option \<Rightarrow> int set option \<Rightarrow> tracked_card list" where
  "editable_cards cs current scope =
     filter (\<lambda>c. (\<forall>cur. current = Some cur \<longrightarrow> \<not> same_message c cur) \<and> (\<forall>S. scope = Some S \<longrightarrow> card_id c \<in> S)) cs"

definition store_buttons :: "(tracked_card \<Rightarrow> meeting_message_edit \<times> string) \<Rightarrow> tracked_card option \<Rightarrow> tracked_card \<Rightarrow> tracked_card" where
  "store_buttons render current c =
     (if map_option card_id current = Some (card_id c) then c\<lparr>buttons := snd (render c)\<rparr> else c)"

text \<open>\<open>update_meeting_messages\<close>; the rendering knows whether the meeting was deleted or has finished.\<close>

definition update_meeting_messages ::
    "(string \<Rightarrow> string) \<Rightarrow> (tracked_card \<Rightarrow> meeting_message_edit \<times> string) \<Rightarrow> int option \<Rightarrow> instant \<Rightarrow> int \<Rightarrow> tracked_card list \<Rightarrow>
     tracked_card option \<Rightarrow> bool \<Rightarrow> bool \<Rightarrow> int set option \<Rightarrow> outbox_strategy option \<Rightarrow> api \<Rightarrow> unit outcome" where
  "update_meeting_messages sha render origin now mid cs current skip_current terminal scope strategy a =
     (if terminal \<and> scope \<noteq> None \<or> (\<exists>st. strategy = Some st \<and> strategy_key st \<noteq> meeting_job_key mid) then (Inl AssertionError, a)
      else
        let drawn = (if skip_current then None else current);
            (r, a1) = (case drawn of None \<Rightarrow> (Inr (), a)
                       | Some cur \<Rightarrow> update_single_meeting_message sha cur (fst (render cur)) a);
            cs' = map (store_buttons render drawn) cs;
            editable = editable_cards cs' (if skip_current then current else map_option (store_buttons render drawn) current) scope
        in case r of
             Inl e \<Rightarrow> (Inl e, a1)
           | Inr _ \<Rightarrow>
               if editable = [] then (Inr (), a1)
               else if \<not> terminal \<and> fst (defer_meeting_refresh origin now mid current scope strategy a1)
               then (Inr (), snd (defer_meeting_refresh origin now mid current scope strategy a1))
               else update_each sha render editable a1)"

section \<open>Writing back what the drain learned\<close>

record fan_db =
  fan_cards :: "tracked_card list"
  fan_users :: "user list"

definition advance_render_digests :: "(int \<times> string) list \<Rightarrow> tracked_card list \<Rightarrow> tracked_card list" where
  "advance_render_digests digests cs =
     update_where (\<lambda>c. card_id c \<in> fst ` set digests) (\<lambda>c. c\<lparr>render_digest := map_of digests (card_id c)\<rparr>) cs"

definition mark_unreachable_user :: "instant \<Rightarrow> int \<Rightarrow> user list \<Rightarrow> user list" where
  "mark_unreachable_user clock tg_id us =
     (case first_where (\<lambda>u. tg_user_id u = tg_id) us of
        None \<Rightarrow> us
      | Some u \<Rightarrow> update_where (\<lambda>x. u_id x = u_id u) (\<lambda>x. fst (mark_inactive clock x)) us)"

definition reconcile_outbox :: "instant \<Rightarrow> api_outbox \<Rightarrow> fan_db \<Rightarrow> fan_db" where
  "reconcile_outbox clock b db =
     \<lparr>fan_cards = advance_render_digests (confirmed_render_digests b)
        (delete_where (\<lambda>c. card_id c \<in> set (dead_message_ids b)) (fan_cards db)),
      fan_users = fold (mark_unreachable_user clock) (uniq (inactive_tg_user_ids b)) (fan_users db)\<rparr>"

definition nothing_to_reconcile :: "api_outbox \<Rightarrow> bool" where
  "nothing_to_reconcile b \<longleftrightarrow> dead_message_ids b = [] \<and> inactive_tg_user_ids b = [] \<and> confirmed_render_digests b = []"

section \<open>The write section\<close>

definition drained :: "(string \<Rightarrow> string) \<Rightarrow> api \<Rightarrow> drain_state" where
  "drained sha a = execute_queued sha
     \<lparr>tg = a_telegram a, outbox = the (a_outbox a), queue = a_queue a, post_commit_faults = a_faults a\<rparr>"

definition after_drain :: "drain_state \<Rightarrow> api \<Rightarrow> api" where
  "after_drain s a = a\<lparr>a_outbox := None, a_telegram := tg s, a_queue := queue s, a_faults := post_commit_faults s\<rparr>"

text \<open>
  \<open>reconciles\<close> says whether the follow-up transaction commits. A failed section leaves its phase behind for
  the error handler; a completed one restores the phase of the section around it.
\<close>

definition begin_write ::
    "(string \<Rightarrow> string) \<Rightarrow> instant \<Rightarrow> bool \<Rightarrow> (fan_db \<Rightarrow> api \<Rightarrow> (api_error + 'r) \<times> fan_db \<times> api) \<Rightarrow> fan_db \<Rightarrow> api
      \<Rightarrow> (api_error + 'r) \<times> fan_db \<times> api" where
  "begin_write sha clock reconciles body db a =
     (if a_outbox a \<noteq> None then (Inl RuntimeError, db, a\<lparr>write_state := Some (BODY, False)\<rparr>)
      else case body db (a\<lparr>a_outbox := Some empty_outbox, write_state := Some (BODY, False)\<rparr>) of
        (Inl e, _, a1) \<Rightarrow> (Inl e, db, a1\<lparr>a_outbox := None\<rparr>)
      | (Inr r, db1, a1) \<Rightarrow>
          let s = drained sha a1; a2 = after_drain s a1 in
          if nothing_to_reconcile (outbox s) then (Inr r, db1, a2\<lparr>write_state := write_state a\<rparr>)
          else if reconciles then (Inr r, reconcile_outbox clock (outbox s) db1, a2\<lparr>write_state := write_state a\<rparr>)
          else (Inl DatabaseError, db1, a2\<lparr>write_state := Some (POST_COMMIT_FAN_OUT, True)\<rparr>))"

section \<open>Running a background job\<close>

definition skipped_card :: "tracked_card list \<Rightarrow> int option \<Rightarrow> tracked_card option" where
  "skipped_card cs skip = (case skip of None \<Rightarrow> None | Some i \<Rightarrow> first_where (\<lambda>c. card_id c = i) cs)"

definition refresh_cards ::
    "(string \<Rightarrow> string) \<Rightarrow> (tracked_card \<Rightarrow> meeting_message_edit \<times> string) \<Rightarrow> instant \<Rightarrow> meeting_refresh \<Rightarrow> tracked_card list \<Rightarrow> api
      \<Rightarrow> unit outcome" where
  "refresh_cards sha render now f cs a =
     (let skipped = skipped_card cs (skip_message_db_id f) in
      update_meeting_messages sha render None now (meeting_id f) cs skipped (skipped \<noteq> None) False (message_db_ids f) None a)"

text \<open>
  \<open>RefreshQueue.execute\<close>; \<open>find_cards\<close> is \<open>Meetup.by_id\<close> with the cards of the meeting, None where it is gone.
\<close>

definition execute_job ::
    "(string \<Rightarrow> string) \<Rightarrow> instant \<Rightarrow> bool \<Rightarrow> (fan_db \<Rightarrow> int \<Rightarrow> tracked_card list option) \<Rightarrow>
     (fan_db \<Rightarrow> tracked_card \<Rightarrow> meeting_message_edit \<times> string) \<Rightarrow> rendered background_job \<Rightarrow> fan_db \<Rightarrow> api
      \<Rightarrow> (api_error + job_outcome) \<times> fan_db \<times> api" where
  "execute_job sha now reconciles find_cards render j db a =
     (case j of
        Keyed_Send s \<Rightarrow>
          (case immediately (send_now (send_chat_id s) (send_payload s)) a of
             (Inl e, a') \<Rightarrow> (Inl e, db, a')
           | (Inr _, a') \<Rightarrow> (Inr SENT, db, a'))
      | Meeting_Refresh f \<Rightarrow>
          begin_write sha now reconciles
            (\<lambda>db a. case find_cards db (meeting_id f) of
               None \<Rightarrow> (Inr SKIPPED, db, a)
             | Some cs \<Rightarrow>
                 (case refresh_cards sha (render db) now f cs a of
                    (Inl e, a') \<Rightarrow> (Inl e, db, a')
                  | (Inr _, a') \<Rightarrow> (Inr REFRESHED, db, a'))) db a)"

end
