(* ===== verification/Outbox_Props.thy ===== *)
theory Outbox_Props
  imports Write_Lifecycle
begin

text \<open>
  The drain: how many requests a queued call issues and how many of them Telegram can have applied, the
  accounting of the drain, and the evidence behind every fix-up it records.

  \<open>delivers f\<close> is the contract of a Telegram operation: it appends at most two requests, at most one of them
  applied, and when it fails on a connection that was never established none of them was.
\<close>

section \<open>Requests of one operation\<close>

definition applied_requests :: "(request \<times> answer) list \<Rightarrow> nat" where
  "applied_requests new = length (filter (\<lambda>(r, a). applied a) new)"

lemma applied_requests_simps [simp]:
  "applied_requests [] = 0" "applied_requests (new @ later) = applied_requests new + applied_requests later"
  "applied_requests [(r, a)] = of_bool (applied a)"
  by (simp_all add: applied_requests_def)

definition adds :: "telegram \<Rightarrow> (request \<times> answer) list \<Rightarrow> telegram \<Rightarrow> bool" where
  "adds t new t' \<longleftrightarrow> requests t' = requests t @ new \<and> answers t' = answers t"

lemma adds_refl [simp]: "adds t [] t" and adds_trans: "adds t new t' \<Longrightarrow> adds t' later t'' \<Longrightarrow> adds t (new @ later) t''"
  by (auto simp: adds_def)

definition no_trace_error :: "api_error + 'r \<Rightarrow> bool" where
  "no_trace_error r \<longleftrightarrow> (\<exists>c. r = Inl (NetworkError c) \<and> c \<in> CONNECT_FAILURE_CAUSES)"

definition delivers :: "nat \<Rightarrow> (telegram \<Rightarrow> (api_error + 'r) \<times> telegram) \<Rightarrow> bool" where
  "delivers n f \<longleftrightarrow> (\<forall>t r t'. f t = (r, t') \<longrightarrow> (\<exists>new. adds t new t' \<and> length new \<le> n \<and> applied_requests new \<le> 1 \<and>
     (no_trace_error r \<or> (\<exists>m. r = Inl (BadRequest m)) \<longrightarrow> applied_requests new = 0)))"

lemma deliversE:
  assumes "delivers n f" "f t = (r, t')"
  obtains new where "adds t new t'" "length new \<le> n" "applied_requests new \<le> 1"
    "no_trace_error r \<or> (\<exists>m. r = Inl (BadRequest m)) \<longrightarrow> applied_requests new = 0"
  using assms(1) [unfolded delivers_def, rule_format, OF assms(2)] by (elim exE conjE) (rule that)

lemma call_telegram_cases:
  assumes "call_telegram q t = (r, t')"
  shows "\<exists>a. adds t [(q, a)] t' \<and> r = answer_result a"
  using assms by (auto simp: call_telegram_def adds_def Let_def)

lemma answer_result_applied: "applied a \<Longrightarrow> \<not> no_trace_error (answer_result a) \<and> answer_result a \<noteq> Inl (BadRequest m)"
  by (cases a rule: answer_result.cases) (auto simp: no_trace_error_def)

lemma call_telegram_delivers [intro]: "delivers 1 (call_telegram q)"
  unfolding delivers_def
proof (intro allI impI)
  fix t r t' assume "call_telegram q t = (r, t')"
  from call_telegram_cases [OF this] obtain a where a: "adds t [(q, a)] t'" "r = answer_result a" by blast
  show "\<exists>new. adds t new t' \<and> length new \<le> 1 \<and> applied_requests new \<le> 1 \<and>
      (no_trace_error r \<or> (\<exists>m. r = Inl (BadRequest m)) \<longrightarrow> applied_requests new = 0)"
    using a answer_result_applied [of a] by (intro exI [of _ "[(q, a)]"]) auto
qed

lemma delivers_nothing: "delivers n (\<lambda>t. (r, t))"
  unfolding delivers_def by (auto intro: exI [of _ "[]"])

lemma one_request: "delivers 1 (\<lambda>t. if b then (r, t) else call_telegram q t)"
  by (cases b) (use delivers_nothing call_telegram_delivers in auto)

lemma delivers_mono: "delivers n f \<Longrightarrow> n \<le> k \<Longrightarrow> delivers k f"
  unfolding delivers_def by (meson order_trans)

text \<open>Renaming the result keeps the contract when it invents no failure of its own.\<close>

lemma delivers_map:
  assumes "delivers n f"
    and "\<And>r. no_trace_error (g r) \<Longrightarrow> no_trace_error r" and "\<And>r m. g r = Inl (BadRequest m) \<Longrightarrow> \<exists>m'. r = Inl (BadRequest m')"
  shows "delivers n (\<lambda>t. (case f t of (r, t') \<Rightarrow> (g r, t')))"
  unfolding delivers_def
proof (intro allI impI)
  fix t s t' assume "(case f t of (r, t') \<Rightarrow> (g r, t')) = (s, t')"
  then obtain r where r: "f t = (r, t')" "s = g r" by (auto split: prod.splits)
  obtain new where "adds t new t'" "length new \<le> n" "applied_requests new \<le> 1"
    "no_trace_error r \<or> (\<exists>m. r = Inl (BadRequest m)) \<longrightarrow> applied_requests new = 0"
    by (rule deliversE [OF assms(1) r(1)])
  then show "\<exists>new. adds t new t' \<and> length new \<le> n \<and> applied_requests new \<le> 1 \<and>
      (no_trace_error s \<or> (\<exists>m. s = Inl (BadRequest m)) \<longrightarrow> applied_requests new = 0)"
    using assms(2) [of r] assms(3) [of r] r(2) by (intro exI [of _ new]) auto
qed

lemma retry_delivers:
  assumes "\<And>b. delivers 1 (send b)"
  shows "delivers 2 (retry_without_custom_emoji send carries)"
  unfolding delivers_def
proof (intro allI impI)
  fix t r t' assume e: "retry_without_custom_emoji send carries t = (r, t')"
  obtain r1 t1 where f: "send False t = (r1, t1)" by fastforce
  obtain n1 where n1: "adds t n1 t1" "length n1 \<le> 1" "applied_requests n1 \<le> 1"
    "no_trace_error r1 \<or> (\<exists>m. r1 = Inl (BadRequest m)) \<longrightarrow> applied_requests n1 = 0" by (rule deliversE [OF assms f])
  show "\<exists>new. adds t new t' \<and> length new \<le> 2 \<and> applied_requests new \<le> 1 \<and>
      (no_trace_error r \<or> (\<exists>m. r = Inl (BadRequest m)) \<longrightarrow> applied_requests new = 0)"
  proof (cases "\<exists>m. r1 = Inl (BadRequest m) \<and> carries \<and> custom_emoji_rejection m")
    case True
    then have g: "send True t1 = (r, t')" using e f by (auto simp: retry_without_custom_emoji_def)
    obtain n2 where n2: "adds t1 n2 t'" "length n2 \<le> 1" "applied_requests n2 \<le> 1"
      "no_trace_error r \<or> (\<exists>m. r = Inl (BadRequest m)) \<longrightarrow> applied_requests n2 = 0" by (rule deliversE [OF assms g])
    show ?thesis using True n1 n2 adds_trans [OF n1(1) n2(1)] by (intro exI [of _ "n1 @ n2"]) auto
  next
    case False
    then have "r = r1" "t' = t1" using e f by (auto simp: retry_without_custom_emoji_def split: sum.splits api_error.splits if_splits)
    then show ?thesis using n1 by (intro exI [of _ n1]) auto
  qed
qed

lemma send_now_delivers [intro]: "delivers 2 (send_now chat m)"
  unfolding send_now_def send_rich_message_now_def [abs_def] by (rule retry_delivers) (rule one_request)

lemma edit_rich_delivers: "delivers 2 (retry_without_custom_emoji (edit_rich_text_now target m) carries)"
  unfolding edit_rich_text_now_def [abs_def] by (rule retry_delivers) (rule one_request)

lemma send_user_message_now_delivers [intro]: "delivers 2 (send_user_message_now u m)"
proof -
  let ?g = "\<lambda>r. case r of Inl Forbidden \<Rightarrow> Inl (InactiveUserInteraction u)
    | Inl (BadRequest msg) \<Rightarrow> Inl (if contains ''not found'' msg then InactiveUserInteraction u else BadRequest msg) | _ \<Rightarrow> r"
  have "delivers 2 (\<lambda>t. case send_now u m t of (r, t') \<Rightarrow> (?g r, t'))"
    by (rule delivers_map [OF send_now_delivers])
      (auto simp: no_trace_error_def split: sum.splits api_error.splits if_splits)
  moreover have "send_user_message_now u m = (\<lambda>t. case send_now u m t of (r, t') \<Rightarrow> (?g r, t'))"
    by (rule ext) (auto simp: send_user_message_now_def split: prod.splits sum.splits api_error.splits)
  ultimately show ?thesis by simp
qed

lemma handle_edit_errors_BadRequest: "handle_edit_errors r = Inl (BadRequest m) \<Longrightarrow> r = Inl (BadRequest m)"
  by (cases r rule: handle_edit_errors.cases) (auto split: if_splits)

lemma handle_edit_errors_NetworkError: "handle_edit_errors r = Inl (NetworkError c) \<Longrightarrow> r = Inl (NetworkError c)"
  by (cases r rule: handle_edit_errors.cases) (auto split: if_splits)

lemma edit_message_now_delivers [intro]: "delivers 2 (edit_message_now target m)"
  unfolding edit_message_now_def
  by (rule delivers_map [OF edit_rich_delivers])
    (auto simp: no_trace_error_def dest: handle_edit_errors_BadRequest handle_edit_errors_NetworkError)

lemma delete_message_now_delivers [intro]: "delivers 2 (delete_message_now chat message)"
proof -
  let ?g = "\<lambda>r. case r of Inl (BadRequest m) \<Rightarrow> (if message_not_deleted m then Inr () else Inl (BadRequest m)) | _ \<Rightarrow> r"
  have "delivers 1 (\<lambda>t. case call_telegram (Delete_Message chat message) t of (r, t') \<Rightarrow> (?g r, t'))"
    by (rule delivers_map [OF call_telegram_delivers])
      (auto simp: no_trace_error_def split: sum.splits api_error.splits if_splits)
  moreover have "delete_message_now chat message = (\<lambda>t. case call_telegram (Delete_Message chat message) t of (r, t') \<Rightarrow> (?g r, t'))"
    by (rule ext) (auto simp: delete_message_now_def split: prod.splits sum.splits api_error.splits)
  ultimately show ?thesis using delivers_mono [of 1 _ 2] by simp
qed

lemma edit_meeting_message_now_delivers [intro]: "delivers 2 (edit_meeting_message_now e)"
proof -
  let ?g = "\<lambda>r. case r of Inr u \<Rightarrow> Inr False
    | Inl (BadRequest m) \<Rightarrow> (if not_modified m then Inr False else if message_not_found m then Inr True else Inl (BadRequest m))
    | Inl Forbidden \<Rightarrow> Inr True | Inl x \<Rightarrow> Inl x"
  have "delivers 2 (\<lambda>t. case retry_without_custom_emoji (edit_rich_text_now (card_target e) (e_content e)) (carries_custom_emoji (e_content e)) t
      of (r, t') \<Rightarrow> (?g r, t'))"
    by (rule delivers_map [OF edit_rich_delivers])
      (auto simp: no_trace_error_def split: sum.splits api_error.splits if_splits)
  moreover have "edit_meeting_message_now e = (\<lambda>t. case retry_without_custom_emoji (edit_rich_text_now (card_target e) (e_content e))
      (carries_custom_emoji (e_content e)) t of (r, t') \<Rightarrow> (?g r, t'))"
    by (rule ext) (auto simp: edit_meeting_message_now_def split: prod.splits sum.splits api_error.splits)
  ultimately show ?thesis by simp
qed

lemma plain_call_now_delivers: "delivers 2 (plain_call_now c)"
  by (cases c) (auto intro: delivers_mono [OF call_telegram_delivers])

section \<open>Requests of one queued call\<close>

definition call_delivers :: "nat \<Rightarrow> (drain_state \<Rightarrow> (api_error + 'r) \<times> drain_state) \<Rightarrow> bool" where
  "call_delivers n f \<longleftrightarrow> (\<forall>s r s'. f s = (r, s') \<longrightarrow> (\<exists>new. adds (tg s) new (tg s') \<and> length new \<le> n \<and>
     applied_requests new \<le> 1 \<and> (no_trace_error r \<longrightarrow> applied_requests new = 0)))"

lemma on_telegram_delivers: "delivers n f \<Longrightarrow> call_delivers n (on_telegram f)"
  unfolding call_delivers_def on_telegram_def by (force split: prod.splits elim: deliversE)

lemma invoke_call_delivers: "call_delivers 2 (invoke_call sha c)"
proof (cases c)
  case (Plain p) then show ?thesis using on_telegram_delivers [OF plain_call_now_delivers [of p]] by (simp add: call_delivers_def)
next
  case (Edit_Card e)
  show ?thesis unfolding call_delivers_def
  proof (intro allI impI)
    fix s r s' assume i: "invoke_call sha c s = (r, s')"
    obtain r1 s1 where e: "on_telegram (edit_meeting_message_now e) s = (r1, s1)" by fastforce
    have "call_delivers 2 (on_telegram (edit_meeting_message_now e))" by (rule on_telegram_delivers) auto
    with e obtain new where new: "adds (tg s) new (tg s1)" "length new \<le> 2" "applied_requests new \<le> 1"
      "no_trace_error r1 \<longrightarrow> applied_requests new = 0" unfolding call_delivers_def by blast
    have "tg s' = tg s1" "no_trace_error r \<Longrightarrow> no_trace_error r1"
      using i e by (auto simp: Edit_Card queued_meeting_message_edit_def no_trace_error_def split: sum.splits option.splits if_splits)
    then show "\<exists>new. adds (tg s) new (tg s') \<and> length new \<le> 2 \<and> applied_requests new \<le> 1 \<and>
        (no_trace_error r \<longrightarrow> applied_requests new = 0)" using new by auto
  qed
next
  case (Submit_Keyed_Send k)
  then show ?thesis unfolding call_delivers_def
    by (auto simp: submit_keyed_send_def split: option.splits intro!: exI [of _ "[]"])
qed

lemma retries_deliver:
  assumes "invoke_queued_with_retry sha queued n s = (r, s')"
  shows "\<exists>new. adds (tg s) new (tg s') \<and> length new \<le> 2 * n \<and> (\<not> idempotent queued \<longrightarrow> applied_requests new \<le> 1)"
  using assms
proof (induction n arbitrary: s)
  case 0 then show ?case by (intro exI [of _ "[]"]) simp
next
  case (Suc n)
  obtain r1 s1 where i: "invoke_call sha (invoke queued) s = (r1, s1)" by fastforce
  then obtain new where new: "adds (tg s) new (tg s1)" "length new \<le> 2" "applied_requests new \<le> 1"
    "no_trace_error r1 \<longrightarrow> applied_requests new = 0"
    using invoke_call_delivers [of sha "invoke queued"] unfolding call_delivers_def by blast
  show ?case
  proof (cases "\<exists>c. r1 = Inl (NetworkError c) \<and> n \<noteq> 0 \<and> queued_call_is_retryable queued c")
    case True
    then obtain c where c: "r1 = Inl (NetworkError c)" "queued_call_is_retryable queued c"
      and rest: "invoke_queued_with_retry sha queued n s1 = (r, s')" using Suc.prems i by auto
    from Suc.IH [OF rest] obtain later where later: "adds (tg s1) later (tg s')" "length later \<le> 2 * n"
      "\<not> idempotent queued \<longrightarrow> applied_requests later \<le> 1" by blast
    have "\<not> idempotent queued \<Longrightarrow> applied_requests new = 0"
      using new(4) c by (auto simp: queued_call_is_retryable_def failure_never_reached_telegram_def no_trace_error_def)
    then show ?thesis using new later adds_trans [OF new(1) later(1)] by (intro exI [of _ "new @ later"]) auto
  next
    case False
    then have "s' = s1" using Suc.prems i by (auto split: sum.splits api_error.splits if_splits)
    then show ?thesis using new by (intro exI [of _ new]) auto
  qed
qed

lemma drain_queued_call_tg:
  assumes "drain_queued_call sha queued s = (x, s')"
  shows "\<exists>r s1. invoke_queued_with_retry sha queued 3 s = (r, s1) \<and> tg s' = tg s1"
  using assms
  by (auto simp: drain_queued_call_def QUEUED_CALL_ATTEMPTS_def record_queued_failure_def
      split: prod.splits sum.splits api_error.splits if_splits)

lemma drain_queued_call_delivers:
  assumes "drain_queued_call sha queued s = (x, s')"
  shows "\<exists>new. adds (tg s) new (tg s') \<and> length new \<le> 6 \<and> (\<not> idempotent queued \<longrightarrow> applied_requests new \<le> 1)"
proof -
  obtain r s1 where r: "invoke_queued_with_retry sha queued 3 s = (r, s1)" and t: "tg s' = tg s1"
    using drain_queued_call_tg [OF assms] by blast
  show ?thesis using retries_deliver [OF r] t by auto
qed

end
