(* ===== verification/Drain_Trace.thy ===== *)
theory Drain_Trace
  imports Outbox_Props "HOL-Library.Sublist"
begin

text \<open>
  The trace of a drain: which calls it ran, in which order, what each asked of Telegram, what was answered, and
  which outcome the drain noted for it. The counters of the report are then facts about the trace.

  \<open>speaks P z f\<close> is the contract of a Telegram operation seen from its requests: each satisfies \<open>P\<close>, there is
  none exactly when \<open>z\<close>, and the operation ends in a network error exactly when the last was never answered.
\<close>

section \<open>What a call asks of Telegram\<close>

fun plain_request :: "plain_call \<Rightarrow> bool \<Rightarrow> request" where
  "plain_request (Send_Now chat m) b = Send_Rich_Message chat (rich_html m b)"
| "plain_request (Send_User_Message_Now u m) b = Send_Rich_Message u (rich_html m b)"
| "plain_request (Edit_Message_Now target m) b = Edit_Message_Text target (rich_html m b) (classic_markup m)"
| "plain_request (Delete_Message_Now chat message) b = Delete_Message chat message"
| "plain_request (Answer_Inline_Query_Now q) b = Answer_Inline_Query q"
| "plain_request (Answer_Callback_Query_Now q text) b = Answer_Callback_Query q text"

definition card_request :: "meeting_message_edit \<Rightarrow> request \<Rightarrow> bool" where
  "card_request e r \<longleftrightarrow> (\<exists>b. r = Edit_Message_Text (card_target e) (rich_html (e_content e) b) (classic_markup (e_content e)))"

fun asks :: "api_call \<Rightarrow> request \<Rightarrow> bool" where
  "asks (Plain c) r \<longleftrightarrow> (\<exists>b. r = plain_request c b)"
| "asks (Edit_Card e) r \<longleftrightarrow> card_request e r"
| "asks (Submit_Keyed_Send k) r \<longleftrightarrow> False"

text \<open>The calls that issue no request: a text over Telegram's length, and a send left to the queue.\<close>

fun plain_mute :: "plain_call \<Rightarrow> bool" where
  "plain_mute (Send_Now chat m) = too_long m False"
| "plain_mute (Send_User_Message_Now u m) = too_long m False"
| "plain_mute (Edit_Message_Now target m) = too_long m False"
| "plain_mute c = False"

fun mute :: "api_call \<Rightarrow> bool" where
  "mute (Plain c) = plain_mute c"
| "mute (Edit_Card e) = too_long (e_content e) False"
| "mute (Submit_Keyed_Send k) = True"

text \<open>The cause for which the last request was never answered, if that is how the requests end.\<close>

definition lost_to :: "(request \<times> answer) list \<Rightarrow> failure_cause option" where
  "lost_to new = (if new = [] then None else case snd (last new) of Unanswered c reached \<Rightarrow> Some c | _ \<Rightarrow> None)"

lemma lost_to_simps [simp]:
  "lost_to [] = None" "lost_to (new @ later) = (if later = [] then lost_to new else lost_to later)"
  "lost_to [(q, a)] = Some c \<longleftrightarrow> answer_result a = Inl (NetworkError c)"
  by (auto simp: lost_to_def) (cases a rule: answer_result.cases; simp)+

definition speaks :: "(request \<Rightarrow> bool) \<Rightarrow> bool \<Rightarrow> (telegram \<Rightarrow> (api_error + 'r) \<times> telegram) \<Rightarrow> bool" where
  "speaks P z f \<longleftrightarrow> (\<forall>t r t'. f t = (r, t') \<longrightarrow> (\<exists>new. adds t new t' \<and> (\<forall>(q, a) \<in> set new. P q) \<and>
     (\<forall>c. lost_to new = Some c \<longleftrightarrow> r = Inl (NetworkError c)) \<and> (new = [] \<longleftrightarrow> z) \<and> (z \<longrightarrow> r = Inl RichMessageTooLong)))"

lemma speaksE:
  assumes "speaks P z f" "f t = (r, t')"
  obtains new where "adds t new t'" "\<forall>(q, a) \<in> set new. P q" "\<forall>c. lost_to new = Some c \<longleftrightarrow> r = Inl (NetworkError c)"
    "new = [] \<longleftrightarrow> z" "z \<longrightarrow> r = Inl RichMessageTooLong"
  using assms(1) [unfolded speaks_def, rule_format, OF assms(2)] by (elim exE conjE) (rule that)

lemma call_telegram_speaks: "P q \<Longrightarrow> speaks P False (call_telegram q)"
  unfolding speaks_def
proof (intro allI impI)
  fix t r t' assume p: "P q" and c: "call_telegram q t = (r, t')"
  from call_telegram_cases [OF c] obtain a where a: "adds t [(q, a)] t'" "r = answer_result a" by blast
  show "\<exists>new. adds t new t' \<and> (\<forall>(q, a) \<in> set new. P q) \<and> (\<forall>c. lost_to new = Some c \<longleftrightarrow> r = Inl (NetworkError c)) \<and>
      (new = [] \<longleftrightarrow> False) \<and> (False \<longrightarrow> r = Inl RichMessageTooLong)"
    using a p by (intro exI [of _ "[(q, a)]"]) simp
qed

lemma one_request_speaks: "P q \<Longrightarrow> speaks P b (\<lambda>t. if b then (Inl RichMessageTooLong, t) else call_telegram q t)"
  using call_telegram_speaks [of P q] by (cases b) (auto simp: speaks_def intro!: exI [of _ "[]"])

lemma speaks_map:
  assumes "speaks P z f" "\<And>r c. g r = Inl (NetworkError c) \<longleftrightarrow> r = Inl (NetworkError c)"
    and "g (Inl RichMessageTooLong) = Inl RichMessageTooLong"
  shows "speaks P z (\<lambda>t. (case f t of (r, t') \<Rightarrow> (g r, t')))"
  unfolding speaks_def
proof (intro allI impI)
  fix t s t' assume "(case f t of (r, t') \<Rightarrow> (g r, t')) = (s, t')"
  then obtain r where r: "f t = (r, t')" "s = g r" by (auto split: prod.splits)
  obtain new where "adds t new t'" "\<forall>(q, a) \<in> set new. P q" "\<forall>c. lost_to new = Some c \<longleftrightarrow> r = Inl (NetworkError c)"
    "new = [] \<longleftrightarrow> z" "z \<longrightarrow> r = Inl RichMessageTooLong" by (rule speaksE [OF assms(1) r(1)])
  then show "\<exists>new. adds t new t' \<and> (\<forall>(q, a) \<in> set new. P q) \<and> (\<forall>c. lost_to new = Some c \<longleftrightarrow> s = Inl (NetworkError c)) \<and>
      (new = [] \<longleftrightarrow> z) \<and> (z \<longrightarrow> s = Inl RichMessageTooLong)"
    using assms(2,3) r(2) by (intro exI [of _ new]) auto
qed

lemma retry_speaks:
  assumes "\<And>b. speaks P (z b) (send b)"
  shows "speaks P (z False) (retry_without_custom_emoji send carries)"
  unfolding speaks_def
proof (intro allI impI)
  fix t r t' assume e: "retry_without_custom_emoji send carries t = (r, t')"
  obtain r1 t1 where f: "send False t = (r1, t1)" by fastforce
  obtain n1 where n1: "adds t n1 t1" "\<forall>(q, a) \<in> set n1. P q" "\<forall>c. lost_to n1 = Some c \<longleftrightarrow> r1 = Inl (NetworkError c)"
    "n1 = [] \<longleftrightarrow> z False" "z False \<longrightarrow> r1 = Inl RichMessageTooLong" by (rule speaksE [OF assms f])
  show "\<exists>new. adds t new t' \<and> (\<forall>(q, a) \<in> set new. P q) \<and> (\<forall>c. lost_to new = Some c \<longleftrightarrow> r = Inl (NetworkError c)) \<and>
      (new = [] \<longleftrightarrow> z False) \<and> (z False \<longrightarrow> r = Inl RichMessageTooLong)"
  proof (cases "\<exists>m. r1 = Inl (BadRequest m) \<and> carries \<and> custom_emoji_rejection m")
    case True
    then have g: "send True t1 = (r, t')" using e f by (auto simp: retry_without_custom_emoji_def)
    obtain n2 where n2: "adds t1 n2 t'" "\<forall>(q, a) \<in> set n2. P q" "\<forall>c. lost_to n2 = Some c \<longleftrightarrow> r = Inl (NetworkError c)"
      "n2 = [] \<longleftrightarrow> z True" "z True \<longrightarrow> r = Inl RichMessageTooLong" by (rule speaksE [OF assms g])
    show ?thesis using True n1 n2 adds_trans [OF n1(1) n2(1)] by (intro exI [of _ "n1 @ n2"]) auto
  next
    case False
    then have "r = r1" "t' = t1" using e f by (auto simp: retry_without_custom_emoji_def split: sum.splits api_error.splits if_splits)
    then show ?thesis using n1 by (intro exI [of _ n1]) auto
  qed
qed

lemma send_now_speaks: "(\<And>b. P (Send_Rich_Message chat (rich_html m b))) \<Longrightarrow> speaks P (too_long m False) (send_now chat m)"
  unfolding send_now_def send_rich_message_now_def [abs_def] by (rule retry_speaks [of P "too_long m"]) (rule one_request_speaks)

lemma edit_rich_speaks:
  "(\<And>b. P (Edit_Message_Text target (rich_html m b) (classic_markup m))) \<Longrightarrow>
   speaks P (too_long m False) (retry_without_custom_emoji (edit_rich_text_now target m) carries)"
  unfolding edit_rich_text_now_def [abs_def] by (rule retry_speaks [of P "too_long m"]) (rule one_request_speaks)

lemma send_user_message_now_speaks:
  assumes "\<And>b. P (Send_Rich_Message u (rich_html m b))"
  shows "speaks P (too_long m False) (send_user_message_now u m)"
proof -
  let ?g = "\<lambda>r. case r of Inl Forbidden \<Rightarrow> Inl (InactiveUserInteraction u)
    | Inl (BadRequest msg) \<Rightarrow> Inl (if contains ''not found'' msg then InactiveUserInteraction u else BadRequest msg) | _ \<Rightarrow> r"
  have "speaks P (too_long m False) (\<lambda>t. case send_now u m t of (r, t') \<Rightarrow> (?g r, t'))"
    by (rule speaks_map [OF send_now_speaks]) (auto simp: assms split: sum.splits api_error.splits if_splits)
  moreover have "send_user_message_now u m = (\<lambda>t. case send_now u m t of (r, t') \<Rightarrow> (?g r, t'))"
    by (rule ext) (auto simp: send_user_message_now_def split: prod.splits sum.splits api_error.splits)
  ultimately show ?thesis by simp
qed

lemma handle_edit_errors_network [simp]: "handle_edit_errors r = Inl (NetworkError c) \<longleftrightarrow> r = Inl (NetworkError c)"
  by (cases r rule: handle_edit_errors.cases) auto

lemma edit_message_now_speaks:
  "(\<And>b. P (Edit_Message_Text target (rich_html m b) (classic_markup m))) \<Longrightarrow> speaks P (too_long m False) (edit_message_now target m)"
  unfolding edit_message_now_def by (rule speaks_map [OF edit_rich_speaks]) simp_all

lemma delete_message_now_speaks:
  assumes "P (Delete_Message chat message)"
  shows "speaks P False (delete_message_now chat message)"
proof -
  let ?g = "\<lambda>r. case r of Inl (BadRequest m) \<Rightarrow> (if message_not_deleted m then Inr () else Inl (BadRequest m)) | _ \<Rightarrow> r"
  have "speaks P False (\<lambda>t. case call_telegram (Delete_Message chat message) t of (r, t') \<Rightarrow> (?g r, t'))"
    by (rule speaks_map [OF call_telegram_speaks]) (auto simp: assms split: sum.splits api_error.splits if_splits)
  moreover have "delete_message_now chat message = (\<lambda>t. case call_telegram (Delete_Message chat message) t of (r, t') \<Rightarrow> (?g r, t'))"
    by (rule ext) (auto simp: delete_message_now_def split: prod.splits sum.splits api_error.splits)
  ultimately show ?thesis by simp
qed

lemma edit_meeting_message_now_speaks: "speaks (card_request e) (too_long (e_content e) False) (edit_meeting_message_now e)"
proof -
  let ?g = "\<lambda>r. case r of Inr u \<Rightarrow> Inr False
    | Inl (BadRequest m) \<Rightarrow> (if not_modified m then Inr False else if message_not_found m then Inr True else Inl (BadRequest m))
    | Inl Forbidden \<Rightarrow> Inr True | Inl x \<Rightarrow> Inl x"
  have "speaks (card_request e) (too_long (e_content e) False) (\<lambda>t. case retry_without_custom_emoji (edit_rich_text_now (card_target e) (e_content e))
      (carries_custom_emoji (e_content e)) t of (r, t') \<Rightarrow> (?g r, t'))"
    by (rule speaks_map [OF edit_rich_speaks]) (auto simp: card_request_def split: sum.splits api_error.splits if_splits)
  moreover have "edit_meeting_message_now e = (\<lambda>t. case retry_without_custom_emoji (edit_rich_text_now (card_target e) (e_content e))
      (carries_custom_emoji (e_content e)) t of (r, t') \<Rightarrow> (?g r, t'))"
    by (rule ext) (auto simp: edit_meeting_message_now_def split: prod.splits sum.splits api_error.splits)
  ultimately show ?thesis by simp
qed

lemma plain_call_now_speaks: "speaks (\<lambda>q. \<exists>b. q = plain_request c b) (plain_mute c) (plain_call_now c)"
  by (cases c) (auto intro!: send_now_speaks send_user_message_now_speaks edit_message_now_speaks delete_message_now_speaks
      call_telegram_speaks)

section \<open>One queued call\<close>

lemma invoke_call_speaks:
  assumes "invoke_call sha c s = (r, s')"
  shows "\<exists>new. adds (tg s) new (tg s') \<and> (\<forall>(q, a) \<in> set new. asks c q) \<and>
    (\<forall>k. lost_to new = Some k \<longleftrightarrow> r = Inl (NetworkError k)) \<and> (new = [] \<longleftrightarrow> mute c)"
proof (cases c)
  case (Plain p)
  then have "plain_call_now p (tg s) = (r, tg s')"
    using assms by (auto simp: on_telegram_def split: prod.splits)
  then obtain new where "adds (tg s) new (tg s')" "\<forall>(q, a) \<in> set new. \<exists>b. q = plain_request p b"
    "\<forall>k. lost_to new = Some k \<longleftrightarrow> r = Inl (NetworkError k)" "new = [] \<longleftrightarrow> plain_mute p"
    by (rule speaksE [OF plain_call_now_speaks])
  then show ?thesis using Plain by (intro exI [of _ new]) simp
next
  case (Edit_Card e)
  obtain r1 t1 where e: "edit_meeting_message_now e (tg s) = (r1, t1)" by fastforce
  obtain new where new: "adds (tg s) new t1" "\<forall>(q, a) \<in> set new. card_request e q"
    "\<forall>k. lost_to new = Some k \<longleftrightarrow> r1 = Inl (NetworkError k)" "new = [] \<longleftrightarrow> too_long (e_content e) False"
    by (rule speaksE [OF edit_meeting_message_now_speaks e])
  have "tg s' = t1" "r = (case r1 of Inl x \<Rightarrow> Inl x | Inr _ \<Rightarrow> Inr ())"
    using assms e by (auto simp: Edit_Card queued_meeting_message_edit_def on_telegram_def split: sum.splits option.splits if_splits)
  then show ?thesis using new Edit_Card by (intro exI [of _ new]) (auto split: sum.splits)
next
  case (Submit_Keyed_Send k)
  then show ?thesis using assms by (auto simp: submit_keyed_send_def split: option.splits intro!: exI [of _ "[]"])
qed

lemma attempts_speak:
  assumes "invoke_queued_with_retry sha queued (Suc n) s = (r, s')"
  shows "\<exists>new. adds (tg s) new (tg s') \<and> (\<forall>(q, a) \<in> set new. asks (invoke queued) q) \<and>
    (\<forall>k. lost_to new = Some k \<longleftrightarrow> r = Inl (NetworkError k)) \<and> (new = [] \<longleftrightarrow> mute (invoke queued))"
  using assms
proof (induction n arbitrary: s)
  case 0
  then have "invoke_call sha (invoke queued) s = (r, s')" by (auto split: prod.splits sum.splits api_error.splits)
  then show ?case by (rule invoke_call_speaks)
next
  case (Suc n)
  obtain r1 s1 where i: "invoke_call sha (invoke queued) s = (r1, s1)" by fastforce
  from invoke_call_speaks [OF this] obtain new where new: "adds (tg s) new (tg s1)" "\<forall>(q, a) \<in> set new. asks (invoke queued) q"
    "\<forall>k. lost_to new = Some k \<longleftrightarrow> r1 = Inl (NetworkError k)" "new = [] \<longleftrightarrow> mute (invoke queued)" by blast
  show ?case
  proof (cases "\<exists>c. r1 = Inl (NetworkError c) \<and> queued_call_is_retryable queued c")
    case True
    then have "invoke_queued_with_retry sha queued (Suc n) s1 = (r, s')" using Suc.prems i by auto
    from Suc.IH [OF this] obtain later where later: "adds (tg s1) later (tg s')" "\<forall>(q, a) \<in> set later. asks (invoke queued) q"
      "\<forall>k. lost_to later = Some k \<longleftrightarrow> r = Inl (NetworkError k)" "later = [] \<longleftrightarrow> mute (invoke queued)" by blast
    have "new \<noteq> []" using True new(3) by auto
    then show ?thesis using new later adds_trans [OF new(1) later(1)] by (intro exI [of _ "new @ later"]) auto
  next
    case False
    then have "r = r1" "s' = s1" using Suc.prems i by (auto split: sum.splits api_error.splits if_splits)
    then show ?thesis using new by (intro exI [of _ new]) auto
  qed
qed

lemma adds_unique: "adds t new t' \<Longrightarrow> adds t new' t' \<Longrightarrow> new' = new"
  by (auto simp: adds_def)

section \<open>The trace\<close>

type_synonym drained_call = "queued_api_call \<times> drain_outcome \<times> (request \<times> answer) list"

definition calls_run :: "drained_call list \<Rightarrow> queued_api_call list" where
  "calls_run runs = map fst runs"

definition outcomes :: "drained_call list \<Rightarrow> drain_outcome list" where
  "outcomes runs = map (fst \<circ> snd) runs"

definition requests_of :: "drained_call list \<Rightarrow> (request \<times> answer) list" where
  "requests_of runs = concat (map (snd \<circ> snd) runs)"

lemma trace_simps [simp]:
  "calls_run [] = []" "calls_run ((c, x, new) # runs) = c # calls_run runs"
  "outcomes [] = []" "outcomes ((c, x, new) # runs) = x # outcomes runs"
  "requests_of [] = []" "requests_of ((c, x, new) # runs) = new @ requests_of runs"
  by (simp_all add: calls_run_def outcomes_def requests_of_def)

lemma length_outcomes [simp]: "length (outcomes runs) = length runs"
  by (simp add: outcomes_def)

text \<open>The runs follow one another, each from the state the one before left.\<close>

fun ran :: "(string \<Rightarrow> string) \<Rightarrow> drained_call list \<Rightarrow> drain_state \<Rightarrow> drain_state \<Rightarrow> bool" where
  "ran sha [] s s' \<longleftrightarrow> s' = s"
| "ran sha ((c, x, new) # runs) s s' \<longleftrightarrow>
     (\<exists>s1. drain_queued_call sha c s = (x, s1) \<and> adds (tg s) new (tg s1) \<and> ran sha runs s1 s')"

text \<open>
  What holds of one run: at most six requests, all of them the call's own and none only where the call issues
  none; of a call that is not idempotent Telegram applied at most one; and the outcome noted is what the last
  answer says.
\<close>

fun run_ok :: "drained_call \<Rightarrow> bool" where
  "run_ok (c, x, new) \<longleftrightarrow> length new \<le> 6 \<and> (\<forall>(q, a) \<in> set new. asks (invoke c) q) \<and> (new = [] \<longleftrightarrow> mute (invoke c)) \<and>
     (\<not> idempotent c \<longrightarrow> applied_requests new \<le> 1) \<and>
     (x = INLINE_EDIT_TIMED_OUT \<longleftrightarrow> lost_to new = Some ReadTimeout \<and> call_inline_message_id c \<noteq> None) \<and>
     (x = NETWORK_FAILED \<longleftrightarrow> lost_to new \<noteq> None \<and> \<not> (lost_to new = Some ReadTimeout \<and> call_inline_message_id c \<noteq> None))"

lemma drained_call_ok:
  assumes "drain_queued_call sha c s = (x, s')"
  shows "\<exists>new. adds (tg s) new (tg s') \<and> run_ok (c, x, new)"
proof -
  obtain r s1 where r: "invoke_queued_with_retry sha c QUEUED_CALL_ATTEMPTS s = (r, s1)" by fastforce
  have t: "tg s' = tg s1"
    and x: "x = (case r of Inl (NetworkError k) \<Rightarrow> network_failure_outcome c k | Inl (BadRequest m) \<Rightarrow> if not_modified m then Call_Sent else Call_Failed
      | Inl (InactiveUserInteraction u) \<Rightarrow> Call_Sent | Inl _ \<Rightarrow> Call_Failed | Inr _ \<Rightarrow> Call_Sent)"
    using assms r
    by (auto simp: drain_queued_call_def record_queued_failure_def split: sum.splits api_error.splits if_splits)
  have "invoke_queued_with_retry sha c (Suc 2) s = (r, s1)" using r by (simp only: QUEUED_CALL_ATTEMPTS_def numeral_3_eq_3 numeral_2_eq_2)
  from attempts_speak [OF this] t obtain new where new: "adds (tg s) new (tg s')" "\<forall>(q, a) \<in> set new. asks (invoke c) q"
    "\<forall>k. lost_to new = Some k \<longleftrightarrow> r = Inl (NetworkError k)" "new = [] \<longleftrightarrow> mute (invoke c)" by auto
  from drain_queued_call_delivers [OF assms] adds_unique [OF new(1)]
  have "length new \<le> 6" "\<not> idempotent c \<longrightarrow> applied_requests new \<le> 1" by blast+
  moreover have "(x = INLINE_EDIT_TIMED_OUT \<longleftrightarrow> lost_to new = Some ReadTimeout \<and> call_inline_message_id c \<noteq> None) \<and>
     (x = NETWORK_FAILED \<longleftrightarrow> lost_to new \<noteq> None \<and> \<not> (lost_to new = Some ReadTimeout \<and> call_inline_message_id c \<noteq> None))"
  proof (cases "\<exists>k. r = Inl (NetworkError k)")
    case True
    then obtain k where k: "r = Inl (NetworkError k)" by blast
    then have "lost_to new = Some k" "x = network_failure_outcome c k" using new(3) x by simp_all
    then show ?thesis by (simp add: network_failure_outcome_def)
  next
    case False
    then have "lost_to new = None" using new(3) by (cases "lost_to new") auto
    moreover have "x = Call_Sent \<or> x = Call_Failed" using False x by (auto split: sum.splits api_error.splits if_splits)
    ultimately show ?thesis by auto
  qed
  ultimately show ?thesis using new(1,2,4) by (intro exI [of _ new]) simp
qed

lemma ran_ok: "ran sha runs s s' \<Longrightarrow> adds (tg s) (requests_of runs) (tg s') \<and> (\<forall>d \<in> set runs. run_ok d)"
proof (induction sha runs s s' rule: ran.induct)
  case (2 sha c x new runs s s')
  from "2.prems" obtain s1 where s1: "drain_queued_call sha c s = (x, s1)" "adds (tg s) new (tg s1)" "ran sha runs s1 s'" by auto
  from drained_call_ok [OF s1(1)] adds_unique [OF s1(2)] have "run_ok (c, x, new)" by blast
  then show ?case using "2.IH" [OF s1(3)] adds_trans [OF s1(2)] by auto
qed simp

section \<open>The report of a trace\<close>

definition three_in_a_row :: "drain_outcome list \<Rightarrow> bool" where
  "three_in_a_row h \<longleftrightarrow> suffix [NETWORK_FAILED, NETWORK_FAILED, NETWORK_FAILED] (filter (\<lambda>x. x \<noteq> INLINE_EDIT_TIMED_OUT) h)"

definition three_inline_timeouts :: "drain_outcome list \<Rightarrow> bool" where
  "three_inline_timeouts h \<longleftrightarrow> 3 \<le> length (filter (\<lambda>x. x = INLINE_EDIT_TIMED_OUT) h)"

definition streak :: "drain_outcome list \<Rightarrow> nat" where
  "streak h = length (takeWhile (\<lambda>x. x = NETWORK_FAILED) (rev (filter (\<lambda>x. x \<noteq> INLINE_EDIT_TIMED_OUT) h)))"

lemma prefix_replicate: "prefix (replicate n x) ys \<longleftrightarrow> n \<le> length (takeWhile (\<lambda>y. y = x) ys)"
proof (induction n arbitrary: ys)
  case (Suc n) then show ?case by (cases ys) auto
qed simp

lemma three_in_a_row_streak: "three_in_a_row h \<longleftrightarrow> 3 \<le> streak h"
  using prefix_replicate [of 3 NETWORK_FAILED]
  by (simp add: three_in_a_row_def streak_def suffix_to_prefix numeral_3_eq_3)

lemma streak_snoc [simp]:
  "streak (h @ [x]) = (if x = INLINE_EDIT_TIMED_OUT then streak h else if x = NETWORK_FAILED then Suc (streak h) else 0)"
  by (simp add: streak_def)

definition report_of :: "drain_outcome list \<Rightarrow> drain_report \<Rightarrow> bool" where
  "report_of h r \<longleftrightarrow> consecutive_network_failures r = streak h \<and>
     inline_edit_timeouts r = length (filter (\<lambda>x. x = INLINE_EDIT_TIMED_OUT) h) \<and>
     r_sent r = length (filter (\<lambda>x. x = Call_Sent) h) \<and> r_failed r = length (filter (\<lambda>x. x \<noteq> Call_Sent) h)"

lemma report_of_new [simp]: "report_of [] (new_report n)"
  by (simp add: report_of_def new_report_def streak_def)

lemma report_of_record: "report_of h r \<Longrightarrow> report_of (h @ [x]) (record_outcome x r)"
  by (cases x) (auto simp: report_of_def record_outcome_def Let_def)

lemma report_of_update [simp]:
  "report_of h (r\<lparr>abandoned := xs\<rparr>) = report_of h r" "report_of h (r\<lparr>skipped_inline_message_ids := ys\<rparr>) = report_of h r"
  by (simp_all add: report_of_def)

lemma report_limits:
  assumes "report_of h r"
  shows "network_is_dead r \<longleftrightarrow> three_in_a_row h" "inline_edits_are_stalled r \<longleftrightarrow> three_inline_timeouts h"
  using assms by (simp_all add: report_of_def network_is_dead_def DRAIN_NETWORK_FAILURE_LIMIT_def three_in_a_row_streak
      inline_edits_are_stalled_def DRAIN_INLINE_EDIT_TIMEOUT_LIMIT_def three_inline_timeouts_def)

lemma record_outcome_simps [simp]:
  "r_queued (record_outcome x r) = r_queued r" "abandoned (record_outcome x r) = abandoned r"
  "skipped_inline_message_ids (record_outcome x r) = skipped_inline_message_ids r"
  by (simp_all add: record_outcome_def Let_def)

lemma drain_calls_step:
  "drain_calls sha (q # rest) r s = (rep, s') \<Longrightarrow>
   (\<exists>i. call_inline_message_id q = Some i \<and> inline_edits_are_stalled r \<and>
      drain_calls sha rest (r\<lparr>skipped_inline_message_ids := skipped_inline_message_ids r @ [i]\<rparr>) s = (rep, s')) \<or>
   (\<exists>x s1. drain_queued_call sha q s = (x, s1) \<and>
      (if network_is_dead (record_outcome x r) then rep = (record_outcome x r)\<lparr>abandoned := map call_name rest\<rparr> \<and> s' = s1
       else drain_calls sha rest (record_outcome x r) s1 = (rep, s')))"
  by (cases "drain_queued_call sha q s") (auto split: option.splits bool.splits if_splits)

text \<open>
  How the runs of a drain after the outcomes \<open>h\<close> stand to the queue: in its order, all of it unless the network was
  found dead or the inline edits stalled, and in the latter case all but inline edits; and no run after the
  network was found dead.
\<close>

definition covers_queue :: "drain_outcome list \<Rightarrow> queued_api_call list \<Rightarrow> drained_call list \<Rightarrow> bool" where
  "covers_queue h cs runs \<longleftrightarrow> subseq (calls_run runs) cs \<and>
     (\<forall>k < length runs. \<not> three_in_a_row (h @ take k (outcomes runs))) \<and>
     (calls_run runs = cs \<or> three_in_a_row (h @ outcomes runs) \<or> three_inline_timeouts (h @ outcomes runs)) \<and>
     (filter (\<lambda>c. call_inline_message_id c = None) (calls_run runs) = filter (\<lambda>c. call_inline_message_id c = None) cs \<or>
      three_in_a_row (h @ outcomes runs))"

definition accounts_for :: "drain_outcome list \<Rightarrow> queued_api_call list \<Rightarrow> drained_call list \<Rightarrow> nat \<Rightarrow> drain_report \<Rightarrow> bool" where
  "accounts_for h cs runs skipped rep \<longleftrightarrow> report_of (h @ outcomes runs) rep \<and>
     length cs + skipped = length runs + length (skipped_inline_message_ids rep) + length (abandoned rep) \<and>
     suffix (abandoned rep) (map call_name cs) \<and>
     (abandoned rep \<noteq> [] \<longrightarrow> three_in_a_row (h @ outcomes runs)) \<and>
     (length (skipped_inline_message_ids rep) \<noteq> skipped \<longrightarrow> three_inline_timeouts (h @ outcomes runs))"

lemma three_inline_timeouts_append: "three_inline_timeouts h \<Longrightarrow> three_inline_timeouts (h @ h')"
  by (simp add: three_inline_timeouts_def)

lemma covers_queue_Cons:
  assumes "covers_queue (h @ [x]) rest runs" "\<not> three_in_a_row h"
  shows "covers_queue h (q # rest) ((q, x, new) # runs)"
proof -
  have "\<not> three_in_a_row (h @ take k (x # outcomes runs))" if "k < Suc (length runs)" for k
    using that assms unfolding covers_queue_def by (cases k) auto
  then show ?thesis using assms(1) by (auto simp: covers_queue_def)
qed

lemma drain_trace:
  assumes "drain_calls sha cs r s = (rep, s')" "report_of h r" "abandoned r = []" "\<not> three_in_a_row h"
  shows "\<exists>runs. ran sha runs s s' \<and> covers_queue h cs runs \<and> accounts_for h cs runs (length (skipped_inline_message_ids r)) rep"
  using assms
proof (induction cs arbitrary: r s h)
  case Nil
  then show ?case by (intro exI [of _ "[]"]) (simp add: covers_queue_def accounts_for_def)
next
  case (Cons q rest)
  from drain_calls_step [OF Cons.prems(1)] show ?case
  proof (elim disjE exE conjE)
    fix i assume i: "call_inline_message_id q = Some i" "inline_edits_are_stalled r"
      "drain_calls sha rest (r\<lparr>skipped_inline_message_ids := skipped_inline_message_ids r @ [i]\<rparr>) s = (rep, s')"
    have st: "three_inline_timeouts (h @ h')" for h' using i(2) report_limits(2) [OF Cons.prems(2)] three_inline_timeouts_append by blast
    from Cons.IH [OF i(3)] Cons.prems(2-4) obtain runs where "ran sha runs s s'" "covers_queue h rest runs"
      "accounts_for h rest runs (Suc (length (skipped_inline_message_ids r))) rep" by auto
    then show ?case using i(1) st by (intro exI [of _ runs]) (auto simp: covers_queue_def accounts_for_def intro: suffix_ConsI)
  next
    fix x s1
    assume d: "drain_queued_call sha q s = (x, s1)"
      and rest: "if network_is_dead (record_outcome x r) then rep = (record_outcome x r)\<lparr>abandoned := map call_name rest\<rparr> \<and> s' = s1
        else drain_calls sha rest (record_outcome x r) s1 = (rep, s')"
    note rec = report_of_record [OF Cons.prems(2), of x]
    from drained_call_ok [OF d] obtain new where new: "adds (tg s) new (tg s1)" by blast
    show ?case
    proof (cases "network_is_dead (record_outcome x r)")
      case True
      then have "three_in_a_row (h @ [x])" using report_limits(1) [OF rec] by simp
      moreover have "ran sha [(q, x, new)] s s'" "rep = (record_outcome x r)\<lparr>abandoned := map call_name rest\<rparr>" using rest True d new by auto
      ultimately show ?thesis using rec Cons.prems(4)
        by (intro exI [of _ "[(q, x, new)]"]) (auto simp: covers_queue_def accounts_for_def suffix_ConsI)
    next
      case False
      then have alive: "\<not> three_in_a_row (h @ [x])" using report_limits(1) [OF rec] by simp
      have "drain_calls sha rest (record_outcome x r) s1 = (rep, s')" using rest False by simp
      from Cons.IH [OF this rec _ alive] Cons.prems(3) obtain runs where runs: "ran sha runs s1 s'" "covers_queue (h @ [x]) rest runs"
        "accounts_for (h @ [x]) rest runs (length (skipped_inline_message_ids r)) rep" by auto
      have "ran sha ((q, x, new) # runs) s s'" using d new runs(1) by auto
      moreover note covers_queue_Cons [OF runs(2) Cons.prems(4)]
      moreover have "accounts_for h (q # rest) ((q, x, new) # runs) (length (skipped_inline_message_ids r)) rep"
        using runs(3) by (auto simp: accounts_for_def intro: suffix_ConsI)
      ultimately show ?thesis by blast
    qed
  qed
qed

lemma drain_outbox_trace:
  assumes "drain_outbox sha s = (rep, s')"
  shows "\<exists>runs. ran sha runs s s' \<and> covers_queue [] (calls (outbox s)) runs \<and> accounts_for [] (calls (outbox s)) runs 0 rep"
  using drain_trace [OF assms [unfolded drain_outbox_def] report_of_new]
  by (simp add: new_report_def three_in_a_row_def)

end
