(* ===== verification/Write_Props.thy ===== *)
theory Write_Props
  imports Drain_Trace Card_Queue_Stop
begin

text \<open>
  The write section as a whole: the order and the accounting of the drain, the evidence behind every row the
  reconcile touches, the reach of a fan-out, and the one gap in the digests.
\<close>

section \<open>The drain in order\<close>

text \<open>C19. The drain runs the queued calls in their order and never posts twice. It runs them all, unless its last
  outcomes were three network failures in a row (time-outs of inline edits aside) or three inline edits timed
  out; in the latter case it leaves out inline edits only, and it runs nothing after the third failure. Its
  requests are those of the runs, one after the other, each the call's own, at most six (three attempts, each
  repeated once without custom emoji); of a call that is not idempotent Telegram has applied at most one,
  whatever was refused, timed out or retried; and a run counts as a network failure only when its last request
  was never answered. Every queued call is accounted for as sent, failed, skipped or abandoned: what is
  abandoned is the end of the queue, and only behind three failures in a row.
\<close>

theorem drain_posts_at_most_once:
  assumes "drain_outbox sha s = (rep, s')"
  shows "\<exists>runs. ran sha runs s s' \<and> covers_queue [] (calls (outbox s)) runs \<and>
    requests (tg s') = requests (tg s) @ requests_of runs \<and> (\<forall>d \<in> set runs. run_ok d) \<and>
    r_sent rep = length (filter (\<lambda>x. x = Call_Sent) (outcomes runs)) \<and> r_sent rep + r_failed rep = length runs \<and>
    length (calls (outbox s)) = length runs + length (skipped_inline_message_ids rep) + length (abandoned rep) \<and>
    suffix (abandoned rep) (map call_name (calls (outbox s))) \<and>
    (abandoned rep \<noteq> [] \<longrightarrow> three_in_a_row (outcomes runs)) \<and>
    (skipped_inline_message_ids rep \<noteq> [] \<longrightarrow> three_inline_timeouts (outcomes runs))"
proof -
  from drain_outbox_trace [OF assms] obtain runs where runs: "ran sha runs s s'" "covers_queue [] (calls (outbox s)) runs"
    "accounts_for [] (calls (outbox s)) runs 0 rep" by blast
  have "r_sent rep + r_failed rep = length runs"
    using runs(3) sum_length_filter_compl [of "\<lambda>x. x = Call_Sent" "outcomes runs"] by (simp add: accounts_for_def report_of_def)
  then show ?thesis using runs ran_ok [OF runs(1)] by (auto simp: accounts_for_def report_of_def adds_def)
qed

section \<open>The evidence behind a fix-up\<close>

definition confirms :: "answer \<Rightarrow> bool" where
  "confirms a \<longleftrightarrow> a = Accepted \<or> (\<exists>m. a = Refused (Bad_Request m) \<and> not_modified m)"

definition card_gone :: "answer \<Rightarrow> bool" where
  "card_gone a \<longleftrightarrow> a = Refused Forbids \<or> (\<exists>m. a = Refused (Bad_Request m) \<and> message_not_found m)"

lemma answer_result_inv:
  "answer_result a = Inr u \<Longrightarrow> a = Accepted" "answer_result a = Inl (BadRequest m) \<Longrightarrow> a = Refused (Bad_Request m)"
  "answer_result a = Inl Forbidden \<Longrightarrow> a = Refused Forbids"
  by (cases a rule: answer_result.cases; simp)+

lemma edit_rich_text_evidence:
  "edit_rich_text_now target m b t = (r, t') \<Longrightarrow> r \<noteq> Inl RichMessageTooLong \<Longrightarrow>
   \<exists>a. adds t [(Edit_Message_Text target (rich_html m b) (classic_markup m), a)] t' \<and> r = answer_result a"
  by (auto simp: edit_rich_text_now_def dest: call_telegram_cases split: if_splits)

lemma edit_card_evidence:
  assumes "edit_meeting_message_now e t = (Inr dead, t')"
  shows "\<exists>new q a. adds t new t' \<and> (q, a) \<in> set new \<and> card_request e q \<and> (if dead then card_gone a else confirms a)"
proof -
  let ?send = "edit_rich_text_now (card_target e) (e_content e)"
  obtain r where r: "retry_without_custom_emoji ?send (carries_custom_emoji (e_content e)) t = (r, t')"
    and d: "r = Inr () \<and> \<not> dead \<or> (\<exists>m. r = Inl (BadRequest m) \<and> (if dead then message_not_found m else not_modified m))
      \<or> r = Inl Forbidden \<and> dead"
    using assms by (auto simp: edit_meeting_message_now_def split: prod.splits sum.splits api_error.splits if_splits)
  have long: "r \<noteq> Inl RichMessageTooLong" using d by auto
  obtain r1 t1 where f: "?send False t = (r1, t1)" by fastforce
  have "\<exists>b new a. adds t new t' \<and> (Edit_Message_Text (card_target e) (rich_html (e_content e) b) (classic_markup (e_content e)), a) \<in> set new
      \<and> r = answer_result a"
  proof (cases "\<exists>m. r1 = Inl (BadRequest m) \<and> carries_custom_emoji (e_content e) \<and> custom_emoji_rejection m")
    case True
    then have g: "?send True t1 = (r, t')" using r f by (auto simp: retry_without_custom_emoji_def)
    from edit_rich_text_evidence [OF g long] obtain a where a: "adds t1 [(Edit_Message_Text (card_target e)
      (rich_html (e_content e) True) (classic_markup (e_content e)), a)] t'" "r = answer_result a" by blast
    have "r1 \<noteq> Inl RichMessageTooLong" using True by auto
    from edit_rich_text_evidence [OF f this] obtain a1 where "adds t [(Edit_Message_Text (card_target e)
      (rich_html (e_content e) False) (classic_markup (e_content e)), a1)] t1" by blast
    from adds_trans [OF this a(1)] show ?thesis using a(2)
      by (intro exI [of _ True] exI [of _ a], intro exI conjI) auto
  next
    case False
    then have "r = r1" "t' = t1" using r f by (auto simp: retry_without_custom_emoji_def split: sum.splits api_error.splits if_splits)
    then show ?thesis using edit_rich_text_evidence [of _ _ False, OF f] long by fastforce
  qed
  then obtain b new a where ev: "adds t new t'" "r = answer_result a"
    "(Edit_Message_Text (card_target e) (rich_html (e_content e) b) (classic_markup (e_content e)), a) \<in> set new" by blast
  have "if dead then card_gone a else confirms a"
    using d ev(2) by (auto simp: card_gone_def confirms_def dest: answer_result_inv)
  moreover have "card_request e (Edit_Message_Text (card_target e) (rich_html (e_content e) b) (classic_markup (e_content e)))"
    by (auto simp: card_request_def)
  ultimately show ?thesis using ev(1,3) by blast
qed

definition evidence :: "queued_api_call list \<Rightarrow> (request \<times> answer) list \<Rightarrow> int \<Rightarrow> (answer \<Rightarrow> bool) \<Rightarrow> meeting_message_edit \<Rightarrow> bool" where
  "evidence cs log mid P e \<longleftrightarrow> Edit_Card e \<in> invoke ` set cs \<and> message_db_id e = Some mid \<and>
     (\<exists>q a. (q, a) \<in> set log \<and> card_request e q \<and> P a)"

definition fixups_ok :: "(string \<Rightarrow> string) \<Rightarrow> queued_api_call list \<Rightarrow> (request \<times> answer) list \<Rightarrow> api_outbox \<Rightarrow> bool" where
  "fixups_ok sha cs log b \<longleftrightarrow> distinct (map fst (confirmed_render_digests b)) \<and>
     (\<forall>mid d. (mid, d) \<in> set (confirmed_render_digests b) \<longrightarrow> (\<exists>e. evidence cs log mid confirms e \<and> d = digest sha e)) \<and>
     (\<forall>mid \<in> set (dead_message_ids b). \<exists>e. evidence cs log mid card_gone e)"

lemma evidence_mono: "evidence cs log mid P e \<Longrightarrow> set cs \<subseteq> set cs' \<Longrightarrow> evidence cs' (log @ new) mid P e"
  by (auto simp: evidence_def)

lemma fixups_ok_mono: "fixups_ok sha cs log b \<Longrightarrow> fixups_ok sha cs (log @ new) b"
  unfolding fixups_ok_def by (blast intro: evidence_mono)

lemma queued_edit_fixups:
  assumes "queued_meeting_message_edit sha e s = (r, s')" "Edit_Card e \<in> invoke ` set cs" "fixups_ok sha cs log (outbox s)"
  shows "\<exists>new. adds (tg s) new (tg s') \<and> fixups_ok sha cs (log @ new) (outbox s')"
proof -
  obtain r1 t1 where e: "edit_meeting_message_now e (tg s) = (r1, t1)" by fastforce
  show ?thesis
  proof (cases r1)
    case (Inl x)
    then have "tg s' = t1" "outbox s' = outbox s"
      using assms(1) e by (auto simp: queued_meeting_message_edit_def on_telegram_def)
    moreover obtain new where "adds (tg s) new t1" by (rule deliversE [OF edit_meeting_message_now_delivers e])
    ultimately show ?thesis using fixups_ok_mono [OF assms(3)] by auto
  next
    case (Inr dead)
    from edit_card_evidence [OF e [unfolded Inr]] obtain new q a where
      ev: "adds (tg s) new t1" "(q, a) \<in> set new" "card_request e q" "if dead then card_gone a else confirms a" by blast
    have t: "tg s' = t1" and b: "outbox s' = (case message_db_id e of None \<Rightarrow> outbox s
        | Some mid \<Rightarrow> if dead then (outbox s)\<lparr>dead_message_ids := dead_message_ids (outbox s) @ [mid]\<rparr>
            else (outbox s)\<lparr>confirmed_render_digests := AList.update mid (digest sha e) (confirmed_render_digests (outbox s))\<rparr>)"
      using assms(1) e Inr by (auto simp: queued_meeting_message_edit_def on_telegram_def split: option.splits if_splits)
    have old: "fixups_ok sha cs (log @ new) (outbox s)" by (rule fixups_ok_mono [OF assms(3)])
    have here: "evidence cs (log @ new) mid (if dead then card_gone else confirms) e" if "message_db_id e = Some mid" for mid
      using that assms(2) ev(2-4) unfolding evidence_def by (auto intro!: exI [of _ q] exI [of _ a])
    have "fixups_ok sha cs (log @ new) (outbox s')"
    proof (cases "message_db_id e")
      case None then show ?thesis using old b by simp
    next
      case (Some mid)
      show ?thesis
      proof (cases dead)
        case True
        then show ?thesis using old here [OF Some] b Some by (auto simp: fixups_ok_def)
      next
        case False
        have "distinct (map fst (confirmed_render_digests (outbox s)))" using old by (simp add: fixups_ok_def)
        then show ?thesis using old here [OF Some] b Some False
          by (auto simp: fixups_ok_def AList.distinct_update mem_update_iff split: if_splits)
      qed
    qed
    then show ?thesis using ev(1) t by auto
  qed
qed

lemma invoke_call_fixups:
  assumes "invoke_call sha c s = (r, s')" "c \<in> invoke ` set cs" "fixups_ok sha cs log (outbox s)"
  shows "\<exists>new. adds (tg s) new (tg s') \<and> fixups_ok sha cs (log @ new) (outbox s')"
proof (cases c)
  case (Edit_Card e) then show ?thesis using assms queued_edit_fixups by simp
next
  case (Plain p)
  then have "outbox s' = outbox s" using assms(1) by (auto simp: on_telegram_def split: prod.splits)
  moreover obtain new where "adds (tg s) new (tg s')"
    using assms(1) invoke_call_delivers [of sha c] unfolding call_delivers_def by blast
  ultimately show ?thesis using fixups_ok_mono [OF assms(3)] by auto
next
  case (Submit_Keyed_Send k)
  then show ?thesis using assms by (auto simp: submit_keyed_send_def split: option.splits intro!: exI [of _ "[]"])
qed

lemma retry_fixups:
  assumes "invoke_queued_with_retry sha queued n s = (r, s')" "queued \<in> set cs" "fixups_ok sha cs log (outbox s)"
  shows "\<exists>new. adds (tg s) new (tg s') \<and> fixups_ok sha cs (log @ new) (outbox s')"
  using assms(1,3)
proof (induction n arbitrary: s log)
  case 0 then show ?case by (intro exI [of _ "[]"]) simp
next
  case (Suc n)
  obtain r1 s1 where i: "invoke_call sha (invoke queued) s = (r1, s1)" by fastforce
  have "invoke queued \<in> invoke ` set cs" using assms(2) by blast
  from invoke_call_fixups [OF i this Suc.prems(2)] obtain new where
    new: "adds (tg s) new (tg s1)" "fixups_ok sha cs (log @ new) (outbox s1)" by blast
  show ?case
  proof (cases "\<exists>c. r1 = Inl (NetworkError c) \<and> n \<noteq> 0 \<and> queued_call_is_retryable queued c")
    case True
    then have "invoke_queued_with_retry sha queued n s1 = (r, s')" using Suc.prems(1) i by auto
    from Suc.IH [OF this new(2)] obtain later where "adds (tg s1) later (tg s')" "fixups_ok sha cs ((log @ new) @ later) (outbox s')" by blast
    then show ?thesis using adds_trans [OF new(1)] by (intro exI [of _ "new @ later"]) auto
  next
    case False
    then have "s' = s1" using Suc.prems(1) i by (auto split: sum.splits api_error.splits if_splits)
    then show ?thesis using new by auto
  qed
qed

lemma fixups_ok_inactive [simp]: "fixups_ok sha cs log (b\<lparr>inactive_tg_user_ids := us\<rparr>) = fixups_ok sha cs log b"
  by (simp add: fixups_ok_def)

lemma drain_queued_call_fixups:
  assumes "drain_queued_call sha queued s = (x, s')" "queued \<in> set cs" "fixups_ok sha cs log (outbox s)"
  shows "\<exists>new. adds (tg s) new (tg s') \<and> fixups_ok sha cs (log @ new) (outbox s')"
proof -
  obtain r s1 where r: "invoke_queued_with_retry sha queued QUEUED_CALL_ATTEMPTS s = (r, s1)" by fastforce
  then have "tg s' = tg s1" "\<exists>us. outbox s' = (outbox s1)\<lparr>inactive_tg_user_ids := us\<rparr>"
    using assms(1) by (auto simp: drain_queued_call_def record_queued_failure_def split: sum.splits api_error.splits if_splits
      intro: exI [of _ "inactive_tg_user_ids (outbox s1)"])
  then show ?thesis using retry_fixups [OF r assms(2,3)] by auto
qed

lemma drain_calls_fixups:
  assumes "drain_calls sha cs r s = (rep, s')" "set cs \<subseteq> set all" "fixups_ok sha all log (outbox s)"
  shows "\<exists>new. adds (tg s) new (tg s') \<and> fixups_ok sha all (log @ new) (outbox s')"
  using assms
proof (induction cs arbitrary: r s log)
  case Nil then show ?case by (intro exI [of _ "[]"]) simp
next
  case (Cons q rest)
  from drain_calls_step [OF Cons.prems(1)] show ?case
  proof (elim disjE exE conjE)
    fix i assume "drain_calls sha rest (r\<lparr>skipped_inline_message_ids := skipped_inline_message_ids r @ [i]\<rparr>) s = (rep, s')"
    then show ?case using Cons.IH Cons.prems(2,3) by simp
  next
    fix x s1
    assume d: "drain_queued_call sha q s = (x, s1)"
      and rest: "if network_is_dead (record_outcome x r) then rep = (record_outcome x r)\<lparr>abandoned := map call_name rest\<rparr> \<and> s' = s1
        else drain_calls sha rest (record_outcome x r) s1 = (rep, s')"
    have "q \<in> set all" using Cons.prems(2) by simp
    from drain_queued_call_fixups [OF d this Cons.prems(3)] obtain new where
      new: "adds (tg s) new (tg s1)" "fixups_ok sha all (log @ new) (outbox s1)" by blast
    show ?case
    proof (cases "network_is_dead (record_outcome x r)")
      case True then show ?thesis using rest new by auto
    next
      case False
      then have "drain_calls sha rest (record_outcome x r) s1 = (rep, s')" using rest by simp
      from Cons.IH [OF this _ new(2)] Cons.prems(2) obtain later where
        "adds (tg s1) later (tg s')" "fixups_ok sha all ((log @ new) @ later) (outbox s')" by auto
      then show ?thesis using adds_trans [OF new(1)] by (intro exI [of _ "new @ later"]) auto
    qed
  qed
qed

section \<open>The write section\<close>

lemma execute_queued_runs:
  assumes "nothing_to_reconcile (outbox s)"
  shows "\<exists>runs s1. ran sha runs s s1 \<and> covers_queue [] (calls (outbox s)) runs \<and> tg (execute_queued sha s) = tg s1 \<and>
    fixups_ok sha (calls (outbox s)) (requests_of runs) (outbox (execute_queued sha s))"
proof -
  obtain rep s1 where d: "drain_outbox sha s = (rep, s1)" by fastforce
  from drain_outbox_trace [OF d] obtain runs where runs: "ran sha runs s s1" "covers_queue [] (calls (outbox s)) runs" by blast
  have "fixups_ok sha (calls (outbox s)) [] (outbox s)" using assms by (simp add: fixups_ok_def nothing_to_reconcile_def)
  from drain_calls_fixups [OF d [unfolded drain_outbox_def] subset_refl this]
  obtain new where new: "adds (tg s) new (tg s1)" "fixups_ok sha (calls (outbox s)) new (outbox s1)" by auto
  have "adds (tg s) (requests_of runs) (tg s1)" using ran_ok [OF runs(1)] by blast
  from adds_unique [OF this new(1)] have "new = requests_of runs" .
  then show ?thesis using runs new(2) d by (intro exI [of _ runs] exI [of _ s1]) (simp add: execute_queued_def Let_def)
qed

lemma same_digest: "c = c\<lparr>render_digest := render_digest c\<rparr>"
  by (cases c) simp

lemma reconcile_cards:
  assumes "fixups_ok sha cs log b"
  shows "c \<in> set (fan_cards db) \<Longrightarrow> c \<in> set (fan_cards (reconcile_outbox clock b db)) \<or>
      (\<exists>e. evidence cs log (card_id c) card_gone e) \<or>
      (\<exists>e. evidence cs log (card_id c) confirms e \<and> c\<lparr>render_digest := Some (digest sha e)\<rparr> \<in> set (fan_cards (reconcile_outbox clock b db)))"
    and "c' \<in> set (fan_cards (reconcile_outbox clock b db)) \<Longrightarrow>
      \<exists>c \<in> set (fan_cards db). c' = c\<lparr>render_digest := render_digest c'\<rparr>"
proof -
  let ?f = "\<lambda>c. if card_id c \<in> fst ` set (confirmed_render_digests b)
    then c\<lparr>render_digest := map_of (confirmed_render_digests b) (card_id c)\<rparr> else c"
  have cards: "set (fan_cards (reconcile_outbox clock b db)) = ?f ` {c \<in> set (fan_cards db). card_id c \<notin> set (dead_message_ids b)}"
    by (auto simp: reconcile_outbox_def advance_render_digests_def update_where_def delete_where_def)
  show "\<exists>c \<in> set (fan_cards db). c' = c\<lparr>render_digest := render_digest c'\<rparr>" if c': "c' \<in> set (fan_cards (reconcile_outbox clock b db))"
  proof -
    obtain c where "c \<in> set (fan_cards db)" "c' = ?f c" using c' unfolding cards by blast
    moreover have "?f c = c\<lparr>render_digest := render_digest (?f c)\<rparr>"
    proof (cases "card_id c \<in> fst ` set (confirmed_render_digests b)")
      case True then show ?thesis by (cases c) simp
    next
      case False then show ?thesis by (simp only: if_False) (rule same_digest)
    qed
    ultimately show ?thesis by blast
  qed
  assume c: "c \<in> set (fan_cards db)"
  show "c \<in> set (fan_cards (reconcile_outbox clock b db)) \<or> (\<exists>e. evidence cs log (card_id c) card_gone e) \<or>
      (\<exists>e. evidence cs log (card_id c) confirms e \<and> c\<lparr>render_digest := Some (digest sha e)\<rparr> \<in> set (fan_cards (reconcile_outbox clock b db)))"
  proof (cases "card_id c \<in> set (dead_message_ids b)")
    case True then show ?thesis using assms by (auto simp: fixups_ok_def)
  next
    case alive: False
    have mem: "?f c \<in> set (fan_cards (reconcile_outbox clock b db))" unfolding cards using c alive by (intro imageI) simp
    show ?thesis
    proof (cases "map_of (confirmed_render_digests b) (card_id c)")
      case None
      then have fc: "?f c = c" by (auto simp: map_of_eq_None_iff)
      show ?thesis using mem unfolding fc by (rule disjI1)
    next
      case (Some d)
      then have "(card_id c, d) \<in> set (confirmed_render_digests b)" by (rule map_of_SomeD)
      then obtain e where e: "evidence cs log (card_id c) confirms e" "d = digest sha e" using assms by (auto simp: fixups_ok_def)
      have fc: "?f c = c\<lparr>render_digest := Some d\<rparr>" using imageI [OF map_of_SomeD [OF Some], of fst] Some by simp
      show ?thesis using mem e unfolding fc by blast
    qed
  qed
qed

text \<open>C20. A write section. When the body raises, nothing it wrote stays and none of its captured calls runs. When
  it commits, the captured calls run after it, from the state it left: in their order and all of them, unless
  the network was found dead (three failures in a row) or inline edits stalled, and the requests Telegram then sees
  are those of the runs. The follow-up transaction touches a card only on Telegram's word: it goes only after an
  answer to one of these requests that it is gone or closed to the bot, and its digest becomes only that of a
  queued edit of this card which Telegram accepted or reported as already shown. Every other card stays as the
  body left it, no card appears, and the capture is lifted in either case.
\<close>

theorem write_section_effects:
  assumes "a_outbox a = None"
    and "body db (a\<lparr>a_outbox := Some empty_outbox, write_state := Some (BODY, False)\<rparr>) = (r, db1, a1)"
    and "a_outbox a1 = Some b" "nothing_to_reconcile b"
    and "begin_write sha clock reconciles body db a = (res, db2, a2)"
  shows "a_outbox a2 = None \<and>
    (\<forall>e. r = Inl e \<longrightarrow> res = Inl e \<and> db2 = db \<and> a_telegram a2 = a_telegram a1 \<and> a_queue a2 = a_queue a1) \<and>
    (\<forall>x. r = Inr x \<longrightarrow> (reconciles \<longrightarrow> res = Inr x) \<and>
      (\<exists>runs s1. ran sha runs \<lparr>tg = a_telegram a1, outbox = b, queue = a_queue a1, post_commit_faults = a_faults a1\<rparr> s1 \<and>
        covers_queue [] (calls b) runs \<and> (\<forall>d \<in> set runs. run_ok d) \<and>
        a_telegram a2 = tg s1 \<and> requests (a_telegram a2) = requests (a_telegram a1) @ requests_of runs \<and>
        (\<forall>c \<in> set (fan_cards db1). c \<in> set (fan_cards db2) \<or>
          (\<exists>e. evidence (calls b) (requests_of runs) (card_id c) card_gone e) \<or>
          (\<exists>e. evidence (calls b) (requests_of runs) (card_id c) confirms e \<and>
             c\<lparr>render_digest := Some (digest sha e)\<rparr> \<in> set (fan_cards db2))) \<and>
        (\<forall>c' \<in> set (fan_cards db2). \<exists>c \<in> set (fan_cards db1). c' = c\<lparr>render_digest := render_digest c'\<rparr>)))"
proof (cases r)
  case (Inl e)
  then show ?thesis using assms by (auto simp: begin_write_def)
next
  case (Inr x)
  let ?s = "\<lparr>tg = a_telegram a1, outbox = b, queue = a_queue a1, post_commit_faults = a_faults a1\<rparr>"
  from execute_queued_runs [of ?s sha] assms(4) obtain runs s1 where
    runs: "ran sha runs ?s s1" "covers_queue [] (calls b) runs" "tg (drained sha a1) = tg s1"
    and fix_ok: "fixups_ok sha (calls b) (requests_of runs) (outbox (drained sha a1))"
    by (auto simp: drained_def assms(3))
  have tel: "a_outbox a2 = None" "a_telegram a2 = tg s1" "reconciles \<longrightarrow> res = Inr x"
    and db2: "db2 = db1 \<or> db2 = reconcile_outbox clock (outbox (drained sha a1)) db1"
    using assms(1,2,5) Inr runs(3) by (auto simp: begin_write_def after_drain_def Let_def split: if_splits)
  have "\<forall>c \<in> set (fan_cards db1). c \<in> set (fan_cards db2) \<or> (\<exists>e. evidence (calls b) (requests_of runs) (card_id c) card_gone e) \<or>
      (\<exists>e. evidence (calls b) (requests_of runs) (card_id c) confirms e \<and> c\<lparr>render_digest := Some (digest sha e)\<rparr> \<in> set (fan_cards db2))"
    using db2 reconcile_cards(1) [OF fix_ok, of _ db1 clock] by blast
  moreover have "\<forall>c' \<in> set (fan_cards db2). \<exists>c \<in> set (fan_cards db1). c' = c\<lparr>render_digest := render_digest c'\<rparr>"
    using db2 reconcile_cards(2) [OF fix_ok, of _ clock db1] same_digest by blast
  moreover have "requests (a_telegram a2) = requests (a_telegram a1) @ requests_of runs" "\<forall>d \<in> set runs. run_ok d"
    using ran_ok [OF runs(1)] tel(2) by (auto simp: adds_def)
  ultimately show ?thesis using tel runs(1,2) Inr by blast
qed

end
