(* ===== verification/Write_Fanout.thy ===== *)
theory Write_Fanout
  imports Write_Props
begin

text \<open>
  What a fan-out reaches: every card of the meeting is drawn by a queued edit, needs no drawing, or is left to
  a refresh that the background queue then holds. And the gap of the digests: an edit Telegram applied without
  answering is neither confirmed nor repaired.
\<close>

section \<open>Capturing the edits\<close>

definition drawn_by :: "(string \<Rightarrow> string) \<Rightarrow> (tracked_card \<Rightarrow> meeting_message_edit \<times> string) \<Rightarrow> api_outbox \<Rightarrow> tracked_card \<Rightarrow> bool" where
  "drawn_by sha render b c \<longleftrightarrow> (\<exists>q \<in> set (calls b). invoke q = Edit_Card (fst (render c))) \<or>
     render_digest c = Some (digest sha (fst (render c)))"

text \<open>What capturing edits does to the outbox: it grows, records no fix-up and asks for no refresh.\<close>

definition grows_by_edits :: "api \<Rightarrow> api \<Rightarrow> bool" where
  "grows_by_edits a a' \<longleftrightarrow> (\<forall>b. a_outbox a = Some b \<longrightarrow> (\<exists>b'. a_outbox a' = Some b' \<and> set (calls b) \<subseteq> set (calls b') \<and>
     meeting_refreshes b' = meeting_refreshes b)) \<and> a_queue a' = a_queue a"

lemma grows_by_edits_refl [simp]: "grows_by_edits a a"
  by (auto simp: grows_by_edits_def)

lemma grows_by_edits_trans: "grows_by_edits a a1 \<Longrightarrow> grows_by_edits a1 a2 \<Longrightarrow> grows_by_edits a a2"
  unfolding grows_by_edits_def by fastforce

lemma drawn_by_mono: "drawn_by sha render b c \<Longrightarrow> set (calls b) \<subseteq> set (calls b') \<Longrightarrow> drawn_by sha render b' c"
  by (auto simp: drawn_by_def)

lemma update_single_captured:
  assumes "a_outbox a \<noteq> None" "update_single_meeting_message sha c (fst (render c)) a = (r, a')"
  shows "r = Inr () \<and> grows_by_edits a a' \<and> (\<exists>b'. a_outbox a' = Some b' \<and> drawn_by sha render b' c)"
  using assms
  by (auto simp: update_single_meeting_message_def enqueue_def grows_by_edits_def drawn_by_def split: if_splits)

lemma update_each_captured:
  assumes "a_outbox a \<noteq> None" "update_each sha render cs a = (r, a')"
  shows "r = Inr () \<and> grows_by_edits a a' \<and> (\<exists>b'. a_outbox a' = Some b' \<and> (\<forall>c \<in> set cs. drawn_by sha render b' c))"
  using assms
proof (induction cs arbitrary: a)
  case Nil then show ?case by auto
next
  case (Cons c cs)
  obtain r1 a1 where u: "update_single_meeting_message sha c (fst (render c)) a = (r1, a1)" by fastforce
  from update_single_captured [where render = render and c = c, OF Cons.prems(1) u] obtain b1 where
    one: "r1 = Inr ()" "grows_by_edits a a1" "a_outbox a1 = Some b1" "drawn_by sha render b1 c" by blast
  have "update_each sha render cs a1 = (r, a')" using Cons.prems(2) u one(1) by simp
  from Cons.IH [OF _ this] one(3) obtain b' where
    rest: "r = Inr ()" "grows_by_edits a1 a'" "a_outbox a' = Some b'" "\<forall>x \<in> set cs. drawn_by sha render b' x" by auto
  have "set (calls b1) \<subseteq> set (calls b')" using rest(2,3) one(3) by (auto simp: grows_by_edits_def)
  then show ?case using one rest grows_by_edits_trans [OF one(2) rest(2)] drawn_by_mono by auto
qed

section \<open>The fan-out\<close>

text \<open>The row of a card other than the current one is not mistaken for it.\<close>

definition told_apart :: "tracked_card \<Rightarrow> tracked_card \<Rightarrow> bool" where
  "told_apart c cur \<longleftrightarrow> card_id c \<noteq> card_id cur \<and>
     (message_id c, chat_id c, inline_message_id c) \<noteq> (message_id cur, chat_id cur, inline_message_id cur)"

text \<open>
  The cards a fan-out has to see to: those of the scope, and the current one, whatever the scope, unless it is
  skipped because the handler has drawn it itself.
\<close>

definition reach :: "bool \<Rightarrow> tracked_card option \<Rightarrow> int set option \<Rightarrow> tracked_card \<Rightarrow> bool" where
  "reach skip_current current scope c \<longleftrightarrow>
     (if current = Some c then \<not> skip_current else \<forall>S. scope = Some S \<longrightarrow> card_id c \<in> S)"

lemma store_buttons_other: "told_apart c cur \<Longrightarrow> store_buttons render (Some cur) c = c"
  and store_buttons_none [simp]: "store_buttons render None c = c"
  by (auto simp: store_buttons_def told_apart_def)

definition cards_behind :: "(tracked_card \<Rightarrow> meeting_message_edit \<times> string) \<Rightarrow> bool \<Rightarrow> tracked_card option \<Rightarrow> int set option \<Rightarrow>
    tracked_card list \<Rightarrow> tracked_card list" where
  "cards_behind render skip_current current scope cs =
     (let drawn = (if skip_current then None else current) in
      editable_cards (map (store_buttons render drawn) cs)
        (if skip_current then current else map_option (store_buttons render drawn) current) scope)"

lemma cards_behind_reached:
  assumes "c \<in> set cs" "reach skip_current current scope c" "current \<noteq> Some c" "\<forall>cur. current = Some cur \<longrightarrow> told_apart c cur"
  shows "c \<in> set (cards_behind render skip_current current scope cs)"
proof -
  let ?drawn = "if skip_current then None else current"
  have sb: "store_buttons render ?drawn c = c" using assms(4) by (cases current) (auto intro: store_buttons_other)
  have "\<not> same_message c (store_buttons render ?drawn cur)" "\<not> same_message c cur" if "current = Some cur" for cur
    using that assms(4) by (auto simp: told_apart_def same_message_def store_buttons_def)
  moreover have "c \<in> set (map (store_buttons render ?drawn) cs)" using imageI [OF assms(1), of "store_buttons render ?drawn"] sb by simp
  moreover have "\<forall>S. scope = Some S \<longrightarrow> card_id c \<in> S" using assms(2,3) by (simp add: reach_def)
  ultimately show ?thesis unfolding cards_behind_def editable_cards_def Let_def by (cases skip_current) auto
qed

lemma fanout_captured:
  fixes current :: "tracked_card option"
  assumes "a_outbox a = Some b"
    and "\<forall>c \<in> set cs. \<forall>cur. current = Some cur \<and> c \<noteq> cur \<longrightarrow> told_apart c cur"
    and "update_meeting_messages sha render origin now mid cs current skip_current terminal scope strategy a = (Inr (), a')"
  shows "\<exists>b' refreshed. a_outbox a' = Some b' \<and> a_queue a' = a_queue a \<and>
    meeting_refreshes b' = meeting_refreshes b @ refreshed \<and> (refreshed \<noteq> [] \<longrightarrow> \<not> terminal \<and> a_queue a \<noteq> None) \<and>
    (\<forall>c \<in> set cs. reach skip_current current scope c \<longrightarrow> drawn_by sha render b' c \<or>
       (\<exists>f \<in> set refreshed. covers_card (Meeting_Refresh f :: rendered background_job) (Card_Ref mid (card_id c))))"
proof -
  let ?drawn = "if skip_current then None else current"
  obtain r a1 where first: "(case ?drawn of None \<Rightarrow> (Inr (), a)
      | Some cur \<Rightarrow> update_single_meeting_message sha cur (fst (render cur)) a) = (r, a1)" by fastforce
  have a1: "r = Inr ()" "grows_by_edits a a1" "\<exists>b1. a_outbox a1 = Some b1 \<and> (\<forall>cur. ?drawn = Some cur \<longrightarrow> drawn_by sha render b1 cur)"
    using first assms(1) update_single_captured [of a sha _ render r a1] by (auto split: option.splits)
  then obtain b1 where b1: "a_outbox a1 = Some b1" "\<forall>cur. ?drawn = Some cur \<longrightarrow> drawn_by sha render b1 cur"
    "meeting_refreshes b1 = meeting_refreshes b" "a_queue a1 = a_queue a"
    using assms(1) by (auto simp: grows_by_edits_def)
  let ?behind = "cards_behind render skip_current current scope cs"
  have behind: "c \<in> set ?behind" if "c \<in> set cs" "reach skip_current current scope c" "current \<noteq> Some c" for c
    using that assms(2) by (intro cards_behind_reached) auto
  have here: "drawn_by sha render b1 c" if "reach skip_current current scope c" "current = Some c" for c
    using that b1(2) by (simp add: reach_def split: if_splits)
  have passed: "\<not> (terminal \<and> scope \<noteq> None \<or> (\<exists>st. strategy = Some st \<and> strategy_key st \<noteq> meeting_job_key mid))"
    using assms(3) by (auto simp: update_meeting_messages_def split: if_splits)
  have main: "(if ?behind = [] then (Inr (), a1)
      else if \<not> terminal \<and> fst (defer_meeting_refresh origin now mid current scope strategy a1)
      then (Inr (), snd (defer_meeting_refresh origin now mid current scope strategy a1))
      else update_each sha render ?behind a1) = (Inr (), a')"
    using assms(3)
    by (simp only: update_meeting_messages_def if_not_P [OF passed] Let_def first a1(1) prod.case sum.case cards_behind_def)
  show ?thesis
  proof (cases "?behind = []")
    case True
    then have "a' = a1" using main by simp
    moreover have "drawn_by sha render b1 c" if "c \<in> set cs" "reach skip_current current scope c" for c
      using that True behind [of c] here by auto
    ultimately show ?thesis using b1 by (intro exI [of _ b1] exI [of _ "[]"]) auto
  next
    case some: False
    show ?thesis
    proof (cases "\<not> terminal \<and> fst (defer_meeting_refresh origin now mid current scope strategy a1)")
      case True
      then have a': "a' = snd (defer_meeting_refresh origin now mid current scope strategy a1)" using main some by simp
      obtain f where f: "a' = a1\<lparr>a_outbox := Some (b1\<lparr>meeting_refreshes := meeting_refreshes b1 @ [f]\<rparr>)\<rparr>"
        "meeting_id f = mid" "skip_message_db_id f = map_option card_id current" "message_db_ids f = scope"
        "a_queue a1 \<noteq> None"
        using True b1(1) unfolding a' by (auto simp: defer_meeting_refresh_def split: option.splits if_splits)
      let ?b' = "b1\<lparr>meeting_refreshes := meeting_refreshes b1 @ [f]\<rparr>"
      have "drawn_by sha render ?b' c \<or> covers_card (Meeting_Refresh f :: rendered background_job) (Card_Ref mid (card_id c))"
        if "c \<in> set cs" "reach skip_current current scope c" for c
      proof (cases "current = Some c")
        case True then show ?thesis using here [OF that(2)] by (simp add: drawn_by_def)
      next
        case False
        then have "skip_message_db_id f \<noteq> Some (card_id c)" using that(1) assms(2) f(3) by (cases current) (auto simp: told_apart_def)
        then show ?thesis using that(2) False f(2,4) by (auto simp: reach_def split: option.splits)
      qed
      then show ?thesis using f(1,5) b1 True by (intro exI [of _ ?b'] exI [of _ "[f]"]) auto
    next
      case False
      then have each: "update_each sha render ?behind a1 = (Inr (), a')" using main some by auto
      from update_each_captured [OF _ each] b1(1) obtain b' where
        b': "grows_by_edits a1 a'" "a_outbox a' = Some b'" "\<forall>c \<in> set ?behind. drawn_by sha render b' c" by auto
      have mono: "set (calls b1) \<subseteq> set (calls b')" "meeting_refreshes b' = meeting_refreshes b1" "a_queue a' = a_queue a1"
        using b'(1,2) b1(1) by (auto simp: grows_by_edits_def)
      have "drawn_by sha render b' c" if "c \<in> set cs" "reach skip_current current scope c" for c
        using that b' behind [of c] here [of c] drawn_by_mono [OF _ mono(1)] by blast
      then show ?thesis using b'(2) mono b1 by (intro exI [of _ b'] exI [of _ "[]"]) auto
    qed
  qed
qed

section \<open>From the outbox to the queue\<close>

text \<open>The jobs a section hands to the background queue, and a queue in service with room for \<open>n\<close> more.\<close>

definition submits :: "queued_api_call \<Rightarrow> bool" where
  "submits c \<longleftrightarrow> (case invoke c of Submit_Keyed_Send k \<Rightarrow> True | _ \<Rightarrow> False)"

definition jobs_of :: "api_outbox \<Rightarrow> nat" where
  "jobs_of b = length (filter submits (calls b)) + length (meeting_refreshes b)"

definition room :: "nat \<Rightarrow> rendered refresh_queue \<Rightarrow> bool" where
  "room n q \<longleftrightarrow> queue_ok q \<and> accepting q \<and> length (q_pending q) + n \<le> max_pending q"

definition send_keys_ok :: "queued_api_call list \<Rightarrow> bool" where
  "send_keys_ok cs \<longleftrightarrow> (\<forall>c \<in> set cs. \<forall>k. invoke c = Submit_Keyed_Send k \<longrightarrow> send_key_ok (Keyed_Send k))"

lemma submit_room:
  assumes "room (Suc n) q" "send_key_ok j"
  shows "room n (snd (submit j q))"
    and "covers_card j c \<or> waiting_covers q c \<Longrightarrow> waiting_covers (snd (submit j q)) c"
proof -
  obtain b q' where s: "submit j q = (b, q')" by fastforce
  have "b" using s assms(1) by (auto simp: room_def submit_def Let_def split: if_splits)
  then have s: "submit j q = (True, q')" using s by simp
  from s obtain i where i: "q_pending q' = AList.update (job_key i) (queue_dict.put i (q_pending q)) (q_pending q)"
    "accepting q' = accepting q" "max_pending q' = max_pending q" by (auto elim: submit_accepted)
  show "room n (snd (submit j q))"
    using assms s i submit_queue_ok [OF _ assms(2) s] by (auto simp: room_def length_update_alist)
  show "waiting_covers (snd (submit j q)) c" if "covers_card j c \<or> waiting_covers q c"
    using submit_covers [OF _ assms(2) s that] assms(1) s by (simp add: room_def)
qed

lemma fold_submit_covers:
  assumes "room (length fs) q" "(\<exists>f \<in> set fs. covers_card (Meeting_Refresh f :: rendered background_job) c) \<or> waiting_covers q c"
  shows "waiting_covers (fold (\<lambda>f q. snd (submit (Meeting_Refresh f) q)) fs q) c"
  using assms
proof (induction fs arbitrary: q)
  case (Cons f fs)
  let ?q = "snd (submit (Meeting_Refresh f) q)"
  have "room (length fs) ?q" using Cons.prems(1) submit_room(1) [of "length fs" q "Meeting_Refresh f"] by simp
  moreover have "(\<exists>f \<in> set fs. covers_card (Meeting_Refresh f :: rendered background_job) c) \<or> waiting_covers ?q c"
    using Cons.prems submit_room(2) [of "length fs" q "Meeting_Refresh f" c] by (auto simp del: covers_card.simps)
  ultimately show ?case using Cons.IH by simp
qed simp

lemma invoke_queue: "\<not> (\<exists>k. c = Submit_Keyed_Send k) \<Longrightarrow> invoke_call sha c s = (r, s') \<Longrightarrow> queue s' = queue s"
  by (cases c) (auto simp: queued_meeting_message_edit_def on_telegram_def split: prod.splits sum.splits option.splits if_splits)

lemma attempts_queue:
  "\<not> (\<exists>k. invoke c = Submit_Keyed_Send k) \<Longrightarrow> invoke_queued_with_retry sha c n s = (r, s') \<Longrightarrow> queue s' = queue s"
proof (induction n arbitrary: s)
  case (Suc n)
  obtain r1 s1 where i: "invoke_call sha (invoke c) s = (r1, s1)" by fastforce
  have "queue s1 = queue s" by (rule invoke_queue [OF Suc.prems(1) i])
  moreover have "s' = s1 \<or> invoke_queued_with_retry sha c n s1 = (r, s')"
    using Suc.prems(2) i by (auto split: sum.splits api_error.splits if_splits)
  ultimately show ?case using Suc.IH [OF Suc.prems(1)] by auto
qed simp

lemma drain_call_queue:
  assumes "drain_queued_call sha c s = (x, s')" "queue s = Some q"
  shows "queue s' = (case invoke c of Submit_Keyed_Send k \<Rightarrow> Some (snd (submit (Keyed_Send k) q)) | _ \<Rightarrow> Some q)"
proof (cases "\<exists>k. invoke c = Submit_Keyed_Send k")
  case True
  then show ?thesis using assms
    by (auto simp: drain_queued_call_def QUEUED_CALL_ATTEMPTS_def numeral_3_eq_3 submit_keyed_send_def)
next
  case False
  obtain r s1 where r: "invoke_queued_with_retry sha c QUEUED_CALL_ATTEMPTS s = (r, s1)" by fastforce
  then have "queue s' = queue s1"
    using assms(1) by (auto simp: drain_queued_call_def record_queued_failure_def split: sum.splits api_error.splits if_splits)
  then show ?thesis using attempts_queue [OF False r] assms(2) False by (auto split: api_call.splits)
qed

lemma ran_room:
  "ran sha runs s s' \<Longrightarrow> queue s = Some q \<Longrightarrow> room (length (filter submits (calls_run runs)) + n) q \<Longrightarrow>
   send_keys_ok (calls_run runs) \<Longrightarrow> \<exists>q'. queue s' = Some q' \<and> room n q'"
proof (induction sha runs s s' arbitrary: q rule: ran.induct)
  case (2 sha c x new runs s s')
  from "2.prems"(1) obtain s1 where s1: "drain_queued_call sha c s = (x, s1)" "ran sha runs s1 s'" by auto
  note q1 = drain_call_queue [OF s1(1) "2.prems"(2)]
  show ?case
  proof (cases "invoke c")
    case (Submit_Keyed_Send k)
    then have "submits c" by (simp add: submits_def)
    then have "room (Suc (length (filter submits (calls_run runs)) + n)) q" using "2.prems"(3) by simp
    moreover have "send_key_ok (Keyed_Send k)" using "2.prems"(4) Submit_Keyed_Send by (auto simp: send_keys_ok_def)
    ultimately have "room (length (filter submits (calls_run runs)) + n) (snd (submit (Keyed_Send k) q))" by (rule submit_room(1))
    then show ?thesis using "2.IH" [OF s1(2)] q1 Submit_Keyed_Send "2.prems"(4) by (simp add: send_keys_ok_def)
  qed (use "2.IH" [OF s1(2)] q1 "2.prems"(3,4) in \<open>simp_all add: submits_def send_keys_ok_def\<close>)
qed simp

lemma drained_covers:
  assumes "a_outbox a = Some b" "a_queue a = Some q" "room (jobs_of b) q" "send_keys_ok (calls b)"
    and "f \<in> set (meeting_refreshes b)" "covers_card (Meeting_Refresh f :: rendered background_job) c"
  shows "\<exists>q'. queue (drained sha a) = Some q' \<and> waiting_covers q' c"
proof -
  let ?s = "\<lparr>tg = a_telegram a, outbox = b, queue = Some q, post_commit_faults = a_faults a\<rparr>"
  obtain rep s1 where d: "drain_outbox sha ?s = (rep, s1)" by fastforce
  from drain_outbox_trace [OF d] obtain runs where runs: "ran sha runs ?s s1" "subseq (calls_run runs) (calls b)"
    by (auto simp: covers_queue_def)
  have "length (filter submits (calls_run runs)) \<le> length (filter submits (calls b))"
    using runs(2) by (intro list_emb_length) (rule subseq_filter)
  then have r: "room (length (filter submits (calls_run runs)) + length (meeting_refreshes b)) q"
    using assms(3) by (simp add: room_def jobs_of_def)
  have "set (calls_run runs) \<subseteq> set (calls b)" using runs(2) by (metis subseq_conv_nths set_nths_subset)
  then have k: "send_keys_ok (calls_run runs)" using assms(4) by (auto simp: send_keys_ok_def)
  from ran_room [OF runs(1) _ r k] obtain q' where "queue s1 = Some q'" "room (length (meeting_refreshes b)) q'" by auto
  then show ?thesis using fold_submit_covers [of "meeting_refreshes b" q' c] assms(1,2,5,6) d
    by (auto simp: drained_def execute_queued_def Let_def simp del: covers_card.simps)
qed

text \<open>What a section captures between two of its states: calls and refreshes are only appended.\<close>

definition captures_on :: "api \<Rightarrow> api \<Rightarrow> bool" where
  "captures_on a a' \<longleftrightarrow> a_queue a' = a_queue a \<and> (\<forall>b. a_outbox a = Some b \<longrightarrow> (\<exists>b'. a_outbox a' = Some b' \<and>
     prefix (calls b) (calls b') \<and> prefix (meeting_refreshes b) (meeting_refreshes b')))"

text \<open>C21. A fan-out reaches every card. A write section draws a meeting over its cards, whatever it captured
  before and whatever it captures after, on behalf of a card that is drawn along (or skipped, because the
  handler draws it itself). Then each card in the scope, and the current one unless it is skipped, is drawn by a
  queued edit, or already shows what would be drawn as far as its digest says, or, once the section has drained,
  is covered by a job waiting in the background queue, provided the queue was in service with room for the
  section's jobs and the keys of its queued sends are not those of refreshes. This holds with or without a queue,
  and for a deletion or a finish, where nothing is left to the queue. The other rows address other messages than
  the current one.
\<close>

theorem fanout_reaches_every_card:
  fixes current :: "tracked_card option"
  assumes "a_outbox a = Some b"
    and "\<forall>c \<in> set cs. \<forall>cur. current = Some cur \<and> c \<noteq> cur \<longrightarrow> told_apart c cur"
    and "update_meeting_messages sha render origin now mid cs current skip_current terminal scope strategy a = (Inr (), a1)"
    and "captures_on a1 a2" "a_outbox a2 = Some b2"
    and "\<forall>q. a_queue a = Some q \<longrightarrow> room (jobs_of b2) q" "send_keys_ok (calls b2)"
    and "c \<in> set cs" "reach skip_current current scope c"
  shows "(\<exists>call \<in> set (calls b2). invoke call = Edit_Card (fst (render c))) \<or>
     render_digest c = Some (digest sha (fst (render c))) \<or>
     (\<not> terminal \<and> (\<exists>q. queue (drained sha a2) = Some q \<and> waiting_covers q (Card_Ref mid (card_id c))))"
proof -
  obtain b1 refreshed where b1: "a_outbox a1 = Some b1" "a_queue a1 = a_queue a"
    "meeting_refreshes b1 = meeting_refreshes b @ refreshed" "refreshed \<noteq> [] \<longrightarrow> \<not> terminal \<and> a_queue a \<noteq> None"
    "drawn_by sha render b1 c \<or> (\<exists>f \<in> set refreshed. covers_card (Meeting_Refresh f :: rendered background_job) (Card_Ref mid (card_id c)))"
    using fanout_captured [OF assms(1-3)] assms(8,9) by blast
  have on: "a_queue a2 = a_queue a" "prefix (calls b1) (calls b2)" "prefix (meeting_refreshes b1) (meeting_refreshes b2)"
    using assms(4,5) b1(1,2) by (auto simp: captures_on_def)
  show ?thesis
  proof (cases "drawn_by sha render b1 c")
    case True
    then show ?thesis using set_mono_prefix [OF on(2)] by (auto simp: drawn_by_def)
  next
    case False
    then obtain f where f: "f \<in> set refreshed" "covers_card (Meeting_Refresh f :: rendered background_job) (Card_Ref mid (card_id c))"
      using b1(5) by blast
    then obtain q where q: "a_queue a = Some q" "\<not> terminal" using b1(4) by fastforce
    have "f \<in> set (meeting_refreshes b2)" using f(1) b1(3) set_mono_prefix [OF on(3)] by auto
    from drained_covers [OF assms(5) _ _ assms(7) this f(2)] on(1) q assms(6) show ?thesis by auto
  qed
qed

section \<open>A refresh draws what it covers\<close>

lemma skipped_card_id: "skipped_card cs skip = Some s \<Longrightarrow> skip = Some (card_id s) \<and> s \<in> set cs"
  by (auto simp: skipped_card_def first_where_def find_Some_iff split: option.splits)

text \<open>C23. The job the worker runs draws every card it covers: the run captures, for each of them, an edit or finds
  its digest unchanged, and leaves nothing to a queue. So what the steps of the worker call drawn is what
  the refresh of a meeting does, with the worker's own api, which has no queue.
\<close>

theorem refresh_draws_what_it_covers:
  assumes "a_outbox a = Some empty_outbox" "a_queue a = None"
    and "\<forall>x \<in> set cs. \<forall>y \<in> set cs. x \<noteq> y \<longrightarrow> told_apart x y"
    and "c \<in> set cs" "covers_card (Meeting_Refresh f :: rendered background_job) (Card_Ref (meeting_id f) (card_id c))"
    and "refresh_cards sha render now f cs a = (r, a')"
  shows "r = Inr () \<and> (\<exists>b'. a_outbox a' = Some b' \<and> meeting_refreshes b' = [] \<and>
    ((\<exists>call \<in> set (calls b'). invoke call = Edit_Card (fst (render c))) \<or>
     render_digest c = Some (digest sha (fst (render c)))))"
proof -
  let ?cur = "skipped_card cs (skip_message_db_id f)"
  let ?editable = "editable_cards cs ?cur (message_db_ids f)"
  have scope: "\<forall>S. message_db_ids f = Some S \<longrightarrow> card_id c \<in> S" "skip_message_db_id f \<noteq> Some (card_id c)"
    using assms(5) by (auto split: option.splits)
  have "\<not> same_message c s" if "?cur = Some s" for s
  proof -
    have "c \<noteq> s" "s \<in> set cs" using skipped_card_id [OF that] scope(2) by auto
    then have "told_apart c s" using assms(3,4) by blast
    then show ?thesis by (auto simp: told_apart_def same_message_def)
  qed
  then have c: "c \<in> set ?editable" using assms(4) scope(1) by (auto simp: editable_cards_def)
  have no_defer: "fst (defer_meeting_refresh None now (meeting_id f) x y z a) = False" for x y z
    using assms(2) by (simp add: defer_meeting_refresh_def split: option.splits)
  have cs: "map (store_buttons render None) cs = cs" by (rule map_idI) simp
  have "update_each sha render ?editable a = (r, a')"
    using assms(6) c unfolding refresh_cards_def update_meeting_messages_def
    by (cases ?cur) (auto simp: Let_def no_defer cs split: if_splits)
  from update_each_captured [OF _ this] assms(1) obtain b' where b': "r = Inr ()" "grows_by_edits a a'" "a_outbox a' = Some b'"
    "\<forall>x \<in> set ?editable. drawn_by sha render b' x" by auto
  then have "meeting_refreshes b' = []" using assms(1) by (auto simp: grows_by_edits_def empty_outbox_def)
  then show ?thesis using b' c by (auto simp: drawn_by_def)
qed

text \<open>A keyed send that the queue refuses is counted as sent: no request is issued, no job waits, no fault is recorded.\<close>

lemma refused_keyed_send_counts_as_sent:
  assumes "invoke c = Submit_Keyed_Send k" "queue s = Some q" "\<not> accepting q"
  shows "\<exists>s'. drain_queued_call sha c s = (Call_Sent, s') \<and> tg s' = tg s \<and> post_commit_faults s' = post_commit_faults s \<and>
    (\<exists>q'. queue s' = Some q' \<and> q_pending q' = q_pending q)"
  using assms
  by (simp add: drain_queued_call_def QUEUED_CALL_ATTEMPTS_def numeral_3_eq_3 submit_keyed_send_def submit_def)

end
