(* ===== verification/Write_Examples.thy ===== *)
theory Write_Examples
  imports Write_Fanout
begin

text \<open>
  The gap in the digests, in general and at a concrete card, and the other properties of the write lifecycle at
  concrete inputs.
\<close>

section \<open>An edit that was applied but not answered\<close>

definition draw_card :: "(string \<Rightarrow> string) \<Rightarrow> tracked_card \<Rightarrow> meeting_message_edit \<Rightarrow> fan_db \<Rightarrow> api \<Rightarrow>
    (api_error + unit) \<times> fan_db \<times> api" where
  "draw_card sha c e db a = (case update_single_meeting_message sha c e a of (r, a') \<Rightarrow> (r, db, a'))"

definition card_edit_request :: "meeting_message_edit \<Rightarrow> request" where
  "card_edit_request e = Edit_Message_Text (card_target e) (rich_html (e_content e) False) (classic_markup (e_content e))"

definition silent :: "telegram \<Rightarrow> bool" where
  "silent t \<longleftrightarrow> (\<forall>n. answers t n = Unanswered ReadTimeout True)"

definition after_unanswered :: "meeting_message_edit \<Rightarrow> telegram \<Rightarrow> telegram" where
  "after_unanswered e t = t\<lparr>requests := requests t @ [(card_edit_request e, Unanswered ReadTimeout True)]\<rparr>"

lemma unanswered_edit:
  assumes "silent t" "\<not> too_long (e_content e) False"
  shows "edit_meeting_message_now e t = (Inl (NetworkError ReadTimeout), after_unanswered e t)"
  using assms
  by (simp add: edit_meeting_message_now_def retry_without_custom_emoji_def edit_rich_text_now_def call_telegram_def silent_def
      after_unanswered_def card_edit_request_def)

lemma after_unanswered_silent [simp]: "silent (after_unanswered e t) = silent t"
  by (simp add: silent_def after_unanswered_def)

lemma unanswered_queued_edit:
  assumes "silent (tg s)" "\<not> too_long (e_content e) False"
  shows "queued_meeting_message_edit sha e s = (Inl (NetworkError ReadTimeout), s\<lparr>tg := after_unanswered e (tg s)\<rparr>)"
  by (simp add: queued_meeting_message_edit_def on_telegram_def unanswered_edit [OF assms])

lemma unanswered_drained:
  assumes "silent (tg s)" "\<not> too_long (e_content e) False" "invoke q = Edit_Card e" "idempotent q"
  shows "\<exists>x. drain_queued_call sha q s = (x, s\<lparr>tg := after_unanswered e (after_unanswered e (after_unanswered e (tg s))),
    post_commit_faults := Suc (post_commit_faults s)\<rparr>)"
  using assms
  by (simp add: drain_queued_call_def QUEUED_CALL_ATTEMPTS_def numeral_3_eq_3 unanswered_queued_edit queued_call_is_retryable_def
      record_queued_failure_def)

lemma unanswered_section:
  assumes "silent (a_telegram a)" "a_outbox a = None" "\<not> too_long (e_content e) False"
    and "render_digest c \<noteq> Some (digest sha e)" "begin_write sha clock ok (draw_card sha c e) db a = (r, db', a')"
  shows "r = Inr () \<and> db' = db \<and> a_outbox a' = None \<and> silent (a_telegram a') \<and>
    last (requests (a_telegram a')) = (card_edit_request e, Unanswered ReadTimeout True)"
proof -
  let ?q = "\<lparr>call_name = ''update_meeting_message'', invoke = Edit_Card e, idempotent = True, call_inline_message_id = e_inline_message_id e\<rparr>"
  let ?a1 = "a\<lparr>a_outbox := Some (empty_outbox\<lparr>calls := [?q]\<rparr>), write_state := Some (BODY, False)\<rparr>"
  let ?s = "\<lparr>tg = a_telegram a, outbox = empty_outbox\<lparr>calls := [?q]\<rparr>, queue = a_queue a, post_commit_faults = a_faults a\<rparr>"
  have body: "draw_card sha c e db (a\<lparr>a_outbox := Some empty_outbox, write_state := Some (BODY, False)\<rparr>) = (Inr (), db, ?a1)"
    using assms(4) by (auto simp: draw_card_def update_single_meeting_message_def enqueue_def empty_outbox_def)
  let ?k = "Suc (a_faults a)"
  obtain x where d: "drain_queued_call sha ?q ?s =
    (x, ?s\<lparr>tg := after_unanswered e (after_unanswered e (after_unanswered e (a_telegram a))), post_commit_faults := ?k\<rparr>)"
    using unanswered_drained [of ?s e ?q sha] assms(1,3) by auto
  have "drained sha ?a1 = (let s1 = ?s\<lparr>tg := after_unanswered e (after_unanswered e (after_unanswered e (a_telegram a))), post_commit_faults := ?k\<rparr>
      in s1\<lparr>queue := map_option (\<lambda>q. q) (queue s1)\<rparr>)"
    using d
    by (cases "e_inline_message_id e")
      (simp_all add: drained_def execute_queued_def drain_outbox_def new_report_def inline_edits_are_stalled_def empty_outbox_def
        DRAIN_INLINE_EDIT_TIMEOUT_LIMIT_def Let_def)
  then have "outbox (drained sha ?a1) = empty_outbox\<lparr>calls := [?q]\<rparr>"
    "tg (drained sha ?a1) = after_unanswered e (after_unanswered e (after_unanswered e (a_telegram a)))"
    by (simp_all add: Let_def)
  then show ?thesis using assms(1,2,5) body
    by (auto simp: begin_write_def Let_def after_drain_def nothing_to_reconcile_def empty_outbox_def after_unanswered_def silent_def)
qed

lemma unchanged_section:
  assumes "a_outbox a = None" "render_digest c = Some (digest sha e)" "begin_write sha clock ok (draw_card sha c e) db a = (r, db', a')"
  shows "r = Inr () \<and> db' = db \<and> requests (a_telegram a') = requests (a_telegram a)"
  using assms
  by (auto simp: begin_write_def draw_card_def update_single_meeting_message_def Let_def after_drain_def drained_def execute_queued_def
      drain_outbox_def empty_outbox_def nothing_to_reconcile_def new_report_def)

text \<open>C24. The gap in the digests. A card shows \<open>old\<close> and its digest says so. The meeting changes, the edit to
  \<open>new\<close> is applied but every answer is lost, and the meeting changes back. The second section then issues no
  request at all: Telegram goes on showing \<open>new\<close>, and the digest goes on saying \<open>old\<close>.
\<close>

theorem unanswered_edit_is_not_repaired:
  assumes "silent (a_telegram a)" "a_outbox a = None"
    and "render_digest c = Some (digest sha old)" "digest sha new \<noteq> digest sha old" "\<not> too_long (e_content new) False"
    and "begin_write sha clock1 ok (draw_card sha c new) db a = (r1, db1, a1)"
    and "begin_write sha clock2 ok (draw_card sha c old) db1 a1 = (r2, db2, a2)"
  shows "r1 = Inr () \<and> r2 = Inr () \<and> db2 = db \<and>
    last (requests (a_telegram a2)) = (card_edit_request new, Unanswered ReadTimeout True) \<and>
    applied (Unanswered ReadTimeout True)"
  using unanswered_section [OF assms(1,2,5) _ assms(6)] unchanged_section [OF _ assms(3,7)] assms(3,4)
  by (simp add: CONNECT_FAILURE_CAUSES_def)

section \<open>Witnesses\<close>

definition plain_text :: "string \<Rightarrow> rendered" where
  "plain_text h = \<lparr>rich_html = (\<lambda>_. h), classic_markup = None, carries_custom_emoji = False, too_long = (\<lambda>_. False)\<rparr>"

definition card_edit :: "int \<Rightarrow> string \<Rightarrow> meeting_message_edit" where
  "card_edit mid h = \<lparr>message_db_id = Some mid, e_chat_id = Some 50, e_message_id = Some mid, e_inline_message_id = None, e_content = plain_text h\<rparr>"

definition some_card :: "int \<Rightarrow> string option \<Rightarrow> tracked_card" where
  "some_card mid d = \<lparr>card_id = mid, card_meetup_id = Some 7, message_id = Some mid, chat_id = Some 50, inline_message_id = None,
     chat_instance = None, buttons = [], render_digest = d\<rparr>"

definition api_with :: "(nat \<Rightarrow> answer) \<Rightarrow> api" where
  "api_with ans = \<lparr>a_outbox = None, a_telegram = \<lparr>answers = ans, requests = []\<rparr>, a_queue = Some (new_queue 500 True ''w''), a_faults = 0,
     write_state = None\<rparr>"

definition no_rows :: "tracked_card list \<Rightarrow> fan_db" where
  "no_rows cs = \<lparr>fan_cards = cs, fan_users = []\<rparr>"

theorem unanswered_edit_is_not_repaired_witness:
  "\<exists>r1 db1 a1 r2 db2 a2.
     begin_write id 0 True (draw_card id (some_card 1 (Some ''A'')) (card_edit 1 ''B'')) (no_rows [some_card 1 (Some ''A'')])
       (api_with (\<lambda>_. Unanswered ReadTimeout True)) = (r1, db1, a1) \<and>
     begin_write id 1 True (draw_card id (some_card 1 (Some ''A'')) (card_edit 1 ''A'')) db1 a1 = (r2, db2, a2) \<and>
     db2 = no_rows [some_card 1 (Some ''A'')] \<and> fst (last (requests (a_telegram a2))) = card_edit_request (card_edit 1 ''B'')"
proof -
  let ?a = "api_with (\<lambda>_. Unanswered ReadTimeout True)" let ?db = "no_rows [some_card 1 (Some ''A'')]"
  obtain r1 db1 a1 where one: "begin_write id 0 True (draw_card id (some_card 1 (Some ''A'')) (card_edit 1 ''B'')) ?db ?a = (r1, db1, a1)"
    by (metis prod_cases3)
  obtain r2 db2 a2 where two: "begin_write id 1 True (draw_card id (some_card 1 (Some ''A'')) (card_edit 1 ''A'')) db1 a1 = (r2, db2, a2)"
    by (metis prod_cases3)
  have "db2 = ?db \<and> last (requests (a_telegram a2)) = (card_edit_request (card_edit 1 ''B''), Unanswered ReadTimeout True)"
    using unanswered_edit_is_not_repaired [OF _ _ _ _ _ one two]
    by (simp add: api_with_def silent_def some_card_def card_edit_def plain_text_def digest_def)
  then show ?thesis using one two by auto
qed

text \<open>A call that is not idempotent behind a refused connection: the second attempt posts it, once.\<close>

definition send_call :: queued_api_call where
  "send_call = \<lparr>call_name = ''send_message'', invoke = Plain (Send_Now 9 (plain_text ''hi'')), idempotent = False, call_inline_message_id = None\<rparr>"

definition drain_with :: "(nat \<Rightarrow> answer) \<Rightarrow> queued_api_call list \<Rightarrow> drain_state" where
  "drain_with ans cs = \<lparr>tg = \<lparr>answers = ans, requests = []\<rparr>, outbox = empty_outbox\<lparr>calls := cs\<rparr>, queue = None, post_commit_faults = 0\<rparr>"

theorem drain_posts_at_most_once_witness:
  "\<exists>rep s' runs. drain_outbox id (drain_with (\<lambda>n. if n = 0 then Unanswered ConnectError False else Accepted) [send_call]) = (rep, s') \<and>
     calls_run runs = [send_call] \<and> requests (tg s') = requests_of runs \<and> requests (tg s') \<noteq> [] \<and>
     length (requests (tg s')) \<le> 6 \<and> applied_requests (requests (tg s')) \<le> 1"
proof -
  let ?s = "drain_with (\<lambda>n. if n = 0 then Unanswered ConnectError False else Accepted) [send_call]"
  obtain rep s' where d: "drain_outbox id ?s = (rep, s')" by fastforce
  have s: "calls (outbox ?s) = [send_call]" "requests (tg ?s) = []" by (simp_all add: drain_with_def)
  from drain_posts_at_most_once [OF d] obtain runs where runs: "covers_queue [] [send_call] runs"
    "requests (tg s') = requests_of runs" "\<forall>d \<in> set runs. run_ok d" unfolding s by auto
  have "length runs = length (calls_run runs)" by (simp add: calls_run_def)
  also have "\<dots> \<le> 1" using runs(1) list_emb_length [of "(=)" "calls_run runs" "[send_call]"] by (simp add: covers_queue_def)
  finally have short: "length runs \<le> 1" .
  have few: "length (filter P (outcomes runs)) \<le> 1" for P using length_filter_le [of P "outcomes runs"] short by simp
  have "\<not> three_inline_timeouts (outcomes runs)" using few [of "\<lambda>x. x = INLINE_EDIT_TIMED_OUT"] by (simp add: three_inline_timeouts_def)
  moreover have "\<not> three_in_a_row (outcomes runs)"
    using few [of "\<lambda>x. x \<noteq> INLINE_EDIT_TIMED_OUT"] by (auto simp: three_in_a_row_def dest!: suffix_length_le)
  ultimately have one: "calls_run runs = [send_call]" using runs(1) by (simp add: covers_queue_def)
  then obtain x new where r: "runs = [(send_call, x, new)]" by (auto simp: calls_run_def)
  then have "run_ok (send_call, x, new)" "requests (tg s') = new" using runs(2,3) by auto
  then have "new \<noteq> []" "length new \<le> 6" "applied_requests new \<le> 1" by (simp_all add: send_call_def plain_text_def)
  then show ?thesis using d one runs(2) \<open>requests (tg s') = new\<close> by blast
qed

theorem write_section_effects_witness:
  "\<exists>res db2 a2 b runs s1 s2. begin_write id 0 True (draw_card id (some_card 1 None) (card_edit 1 ''B'')) (no_rows [some_card 1 None])
      (api_with (\<lambda>_. Accepted)) = (res, db2, a2) \<and> a_outbox a2 = None \<and> res = Inr () \<and>
      map invoke (calls b) = [Edit_Card (card_edit 1 ''B'')] \<and> ran id runs s1 s2 \<and> outbox s1 = b \<and> covers_queue [] (calls b) runs \<and>
      requests (a_telegram a2) = requests_of runs \<and>
      (some_card 1 None \<in> set (fan_cards db2) \<or>
       (\<exists>e. evidence (calls b) (requests_of runs) 1 card_gone e) \<or>
       (\<exists>e. evidence (calls b) (requests_of runs) 1 confirms e \<and> (some_card 1 None)\<lparr>render_digest := Some (digest id e)\<rparr> \<in> set (fan_cards db2)))"
proof -
  let ?a = "api_with (\<lambda>_. Accepted)" let ?db = "no_rows [some_card 1 None]"
  let ?body = "draw_card id (some_card 1 None) (card_edit 1 ''B'')"
  obtain r db1 a1 where body: "?body ?db (?a\<lparr>a_outbox := Some empty_outbox, write_state := Some (BODY, False)\<rparr>) = (r, db1, a1)"
    by (metis prod_cases3)
  obtain res db2 a2 where w: "begin_write id 0 True ?body ?db ?a = (res, db2, a2)" by (metis prod_cases3)
  have r: "r = Inr ()" "db1 = ?db" and start: "requests (a_telegram a1) = []"
    and b: "\<exists>b. a_outbox a1 = Some b \<and> nothing_to_reconcile b \<and> map invoke (calls b) = [Edit_Card (card_edit 1 ''B'')]"
    using body by (auto simp: draw_card_def update_single_meeting_message_def enqueue_def some_card_def empty_outbox_def
        nothing_to_reconcile_def api_with_def)
  from b obtain b where b: "a_outbox a1 = Some b" "nothing_to_reconcile b" "map invoke (calls b) = [Edit_Card (card_edit 1 ''B'')]"
    by (elim exE conjE) (rule that)
  let ?s1 = "\<lparr>tg = a_telegram a1, outbox = b, queue = a_queue a1, post_commit_faults = a_faults a1\<rparr>"
  have "a_outbox ?a = None" by (simp add: api_with_def)
  note wse = write_section_effects [where body = ?body, OF this body b(1,2) w]
  have here: "some_card 1 None \<in> set (fan_cards db1)" "card_id (some_card 1 None) = 1" using r by (simp_all add: no_rows_def some_card_def)
  from wse r(1) obtain runs s2 where runs: "ran id runs ?s1 s2" "covers_queue [] (calls b) runs"
      "requests (a_telegram a2) = requests (a_telegram a1) @ requests_of runs"
    and cards: "\<forall>c \<in> set (fan_cards db1). c \<in> set (fan_cards db2) \<or> (\<exists>e. evidence (calls b) (requests_of runs) (card_id c) card_gone e) \<or>
      (\<exists>e. evidence (calls b) (requests_of runs) (card_id c) confirms e \<and> c\<lparr>render_digest := Some (digest id e)\<rparr> \<in> set (fan_cards db2))"
    by blast
  note card = bspec [OF cards here(1), unfolded here(2)]
  have "a_outbox a2 = None" "res = Inr ()" using wse r(1) by auto
  moreover have "requests (a_telegram a2) = requests_of runs" "outbox ?s1 = b" using runs(3) start by simp_all
  ultimately show ?thesis using w b(3) runs(1,2) card
    by - (rule exI [of _ res], rule exI [of _ db2], rule exI [of _ a2], rule exI [of _ b], rule exI [of _ runs],
      rule exI [of _ ?s1], rule exI [of _ s2], blast)
qed

text \<open>
  Two cards. The handler has drawn the tapped one itself and skips it; the other is left to the queue, between
  a call captured before the fan-out and one captured after it.
\<close>

theorem fanout_reaches_every_card_witness:
  "\<exists>a1 b2. update_meeting_messages id (\<lambda>c. (card_edit (card_id c) ''B'', [])) None 0 7 [some_card 1 None, some_card 2 None]
      (Some (some_card 1 None)) True False None None ((api_with (\<lambda>_. Accepted))\<lparr>a_outbox := Some (empty_outbox\<lparr>calls := [send_call]\<rparr>)\<rparr>) =
      (Inr (), a1) \<and> a_outbox (enqueue send_call a1) = Some b2 \<and> length (calls b2) = 2 \<and>
    ((\<exists>call \<in> set (calls b2). invoke call = Edit_Card (card_edit 2 ''B'')) \<or>
     (\<exists>q. queue (drained id (enqueue send_call a1)) = Some q \<and> waiting_covers q (Card_Ref 7 2)))"
proof -
  let ?a = "(api_with (\<lambda>_. Accepted))\<lparr>a_outbox := Some (empty_outbox\<lparr>calls := [send_call]\<rparr>)\<rparr>"
  let ?cs = "[some_card 1 None, some_card 2 None]" let ?render = "\<lambda>c :: tracked_card. (card_edit (card_id c) ''B'', [])"
  obtain r a1 where u: "update_meeting_messages id ?render None 0 7 ?cs (Some (some_card 1 None)) True False None None ?a = (r, a1)"
    by fastforce
  let ?a2 = "enqueue send_call a1"
  have r: "r = Inr ()" and a1: "\<exists>b1. a_outbox a1 = Some b1 \<and> calls b1 = [send_call] \<and> length (meeting_refreshes b1) = 1"
    using u by (auto simp: update_meeting_messages_def defer_meeting_refresh_def editable_cards_def same_message_def some_card_def
        api_with_def new_queue_def empty_outbox_def Let_def)
  from a1 obtain b1 where b1: "a_outbox a1 = Some b1" "calls b1 = [send_call]" "length (meeting_refreshes b1) = 1" by blast
  let ?b2 = "b1\<lparr>calls := [send_call, send_call]\<rparr>"
  have b2: "a_outbox ?a2 = Some ?b2" and on: "captures_on a1 ?a2" using b1 by (auto simp: enqueue_def captures_on_def)
  note u = u [unfolded r]
  have out: "a_outbox ?a = Some (empty_outbox\<lparr>calls := [send_call]\<rparr>)" by simp
  have apart: "\<forall>c \<in> set ?cs. \<forall>cur. Some (some_card 1 None) = Some cur \<and> c \<noteq> cur \<longrightarrow> told_apart c cur"
    by (simp add: some_card_def told_apart_def)
  have "queue_ok (new_queue 500 True ''w'')" by simp
  then have queue: "\<forall>q. a_queue ?a = Some q \<longrightarrow> room (jobs_of ?b2) q"
    using b1(3) by (simp add: api_with_def room_def jobs_of_def submits_def send_call_def) (simp add: new_queue_def)
  have keys: "send_keys_ok (calls ?b2)" by (simp add: send_keys_ok_def send_call_def)
  have "some_card 2 None \<in> set ?cs" "reach True (Some (some_card 1 None)) None (some_card 2 None)" by (simp_all add: reach_def some_card_def)
  from fanout_reaches_every_card [OF out apart u on b2 queue keys this]
  have "(\<exists>call \<in> set (calls ?b2). invoke call = Edit_Card (card_edit 2 ''B'')) \<or>
      (\<exists>q. queue (drained id ?a2) = Some q \<and> waiting_covers q (Card_Ref 7 2))" by (simp add: some_card_def)
  then show ?thesis using u b2 by - (rule exI [of _ a1], rule exI [of _ ?b2], simp)
qed

theorem refresh_draws_what_it_covers_witness:
  "\<exists>a' b'. refresh_cards id (\<lambda>c. (card_edit (card_id c) ''B'', [])) 0
      \<lparr>origin_update_id = None, hold_seconds = 0, coalesced = 0, attempt = 1, enqueued_at = 0, hold_since = 0, meeting_id = 7,
        skip_message_db_id = Some 1, message_db_ids = None\<rparr> [some_card 1 None, some_card 2 None]
      ((api_with (\<lambda>_. Accepted))\<lparr>a_outbox := Some empty_outbox, a_queue := None\<rparr>) = (Inr (), a') \<and>
    a_outbox a' = Some b' \<and> (\<exists>call \<in> set (calls b'). invoke call = Edit_Card (card_edit 2 ''B''))"
proof -
  let ?a = "(api_with (\<lambda>_. Accepted))\<lparr>a_outbox := Some empty_outbox, a_queue := None\<rparr>"
  let ?cs = "[some_card 1 None, some_card 2 None]" let ?render = "\<lambda>c :: tracked_card. (card_edit (card_id c) ''B'', [] :: string)"
  let ?f = "\<lparr>origin_update_id = None, hold_seconds = 0, coalesced = 0, attempt = 1, enqueued_at = 0, hold_since = 0, meeting_id = 7,
    skip_message_db_id = Some 1, message_db_ids = None\<rparr> :: meeting_refresh"
  obtain r a' where u: "refresh_cards id ?render 0 ?f ?cs ?a = (r, a')" by fastforce
  have apart: "\<forall>x \<in> set ?cs. \<forall>y \<in> set ?cs. x \<noteq> y \<longrightarrow> told_apart x y" by (simp add: some_card_def told_apart_def)
  have c: "some_card 2 None \<in> set ?cs" by simp
  have covers: "covers_card (Meeting_Refresh ?f :: rendered background_job) (Card_Ref (meeting_id ?f) (card_id (some_card 2 None)))"
    by (simp add: some_card_def)
  have "a_outbox ?a = Some empty_outbox" "a_queue ?a = None" by simp_all
  from refresh_draws_what_it_covers [OF this apart c covers u] show ?thesis using u by (auto simp: some_card_def)
qed

end
