(* ===== verification/Entities.thy ===== *)
theory Entities
  imports Prelude
begin

text \<open>
  Formatted text (\<^verbatim>\<open>libs/telegram/mitup_bot/utils/entities.py\<close>): a text with entities whose offsets and lengths
  count UTF-16 code units.

  A Python string is the list of its code points, and \<open>encode\<close> its UTF-16 units; a two-byte slice of
  \<open>text.encode("utf-16-le")\<close> is one unit. Decoding units that end inside a surrogate pair raises, which is None.
  Texts hold no lone surrogates (\<open>valid_text\<close>): Telegram sends none, and Python refuses to encode them.
\<close>

section \<open>Code points and code units\<close>

type_synonym utext = "nat list"

definition valid_point :: "nat \<Rightarrow> bool" where
  "valid_point c \<longleftrightarrow> c < 0x110000 \<and> (c < 0xD800 \<or> 0xDFFF < c)"

definition valid_text :: "utext \<Rightarrow> bool" where
  "valid_text s \<longleftrightarrow> list_all valid_point s"

definition units :: "nat \<Rightarrow> nat list" where
  "units c = (if c < 0x10000 then [c] else [0xD800 + (c - 0x10000) div 0x400, 0xDC00 + (c - 0x10000) mod 0x400])"

definition encode :: "utext \<Rightarrow> nat list" where
  "encode s = concat (map units s)"

definition high_surrogate :: "nat \<Rightarrow> bool" where
  "high_surrogate u \<longleftrightarrow> 0xD800 \<le> u \<and> u \<le> 0xDBFF"

definition low_surrogate :: "nat \<Rightarrow> bool" where
  "low_surrogate u \<longleftrightarrow> 0xDC00 \<le> u \<and> u \<le> 0xDFFF"

fun decode :: "nat list \<Rightarrow> utext option" where
  "decode [] = Some []"
| "decode [u] = (if high_surrogate u \<or> low_surrogate u then None else Some [u])"
| "decode (u # v # us) =
     (if high_surrogate u then
        (if low_surrogate v then map_option (Cons (0x10000 + (u - 0xD800) * 0x400 + (v - 0xDC00))) (decode us) else None)
      else if low_surrogate u then None
      else map_option (Cons u) (decode (v # us)))"

definition utf16_len :: "utext \<Rightarrow> nat" where
  "utf16_len s = length (encode s)"

definition utf16_cut :: "utext \<Rightarrow> int \<Rightarrow> utext option" where
  "utf16_cut s limit =
     (if limit \<le> 0 then Some []
      else let encoded = take (nat limit) (encode s) in
        decode (if encoded \<noteq> [] \<and> high_surrogate (last encoded) then butlast encoded else encoded))"

section \<open>Entities\<close>

datatype entity_type = BOLD | ITALIC | UNDERLINE | STRIKETHROUGH | SPOILER | CUSTOM_EMOJI | CODE | PRE | BLOCKQUOTE
  | TEXT_LINK | TEXT_MENTION | DATE_TIME | Other_Type string

record message_entity =
  e_type :: entity_type
  e_offset :: nat
  e_length :: nat
  e_url :: "utext option"
  e_custom_emoji_id :: "utext option"
  e_unix_time :: "instant option"
  e_date_time_format :: "string option"
  e_user :: "int option"
  e_language :: "string option"

definition plain_entity :: "entity_type \<Rightarrow> nat \<Rightarrow> nat \<Rightarrow> message_entity" where
  "plain_entity ty off len = \<lparr>e_type = ty, e_offset = off, e_length = len, e_url = None, e_custom_emoji_id = None,
     e_unix_time = None, e_date_time_format = None, e_user = None, e_language = None\<rparr>"

text \<open>\<open>shift_entity\<close> builds the copy from the fields it names; \<open>user\<close> and \<open>language\<close> are not among them.\<close>

definition shift_entity :: "message_entity \<Rightarrow> nat \<Rightarrow> message_entity" where
  "shift_entity e by = e\<lparr>e_offset := e_offset e + by, e_user := None, e_language := None\<rparr>"

definition resize_entity :: "message_entity \<Rightarrow> nat \<Rightarrow> message_entity" where
  "resize_entity e len = e\<lparr>e_length := len\<rparr>"

section \<open>Formatted text\<close>

record formatted_text =
  ft_text :: utext
  ft_entities :: "message_entity list"

definition plain_text_of :: "utext \<Rightarrow> formatted_text" where
  "plain_text_of s = \<lparr>ft_text = s, ft_entities = []\<rparr>"

text \<open>A plain string given to \<open>prepend\<close> or \<open>append\<close> counts as a formatted text without entities.\<close>

definition prepend :: "formatted_text \<Rightarrow> formatted_text \<Rightarrow> formatted_text" where
  "prepend this prefix =
     \<lparr>ft_text = ft_text prefix @ ft_text this,
      ft_entities = ft_entities prefix @ map (\<lambda>e. shift_entity e (utf16_len (ft_text prefix))) (ft_entities this)\<rparr>"

definition append_text :: "formatted_text \<Rightarrow> formatted_text \<Rightarrow> formatted_text" where
  "append_text this suffix =
     \<lparr>ft_text = ft_text this @ ft_text suffix,
      ft_entities = ft_entities this @ map (\<lambda>e. shift_entity e (utf16_len (ft_text this))) (ft_entities suffix)\<rparr>"

definition wrap_text :: "formatted_text \<Rightarrow> entity_type \<Rightarrow> formatted_text" where
  "wrap_text this ty =
     (if ft_text this = [] then this
      else this\<lparr>ft_entities := plain_entity ty 0 (utf16_len (ft_text this)) # ft_entities this\<rparr>)"

definition join_texts :: "utext \<Rightarrow> formatted_text list \<Rightarrow> formatted_text" where
  "join_texts separator parts =
     (case parts of
        [] \<Rightarrow> plain_text_of []
      | p # ps \<Rightarrow> foldl (\<lambda>result p. append_text (append_text result (plain_text_of separator)) p) p ps)"

section \<open>Cutting\<close>

definition clamp_entity :: "message_entity \<Rightarrow> nat \<Rightarrow> message_entity option" where
  "clamp_entity e limit =
     (if e_offset e \<ge> limit then None
      else if e_offset e + e_length e \<le> limit then Some e
      else Some (resize_entity e (limit - e_offset e)))"

definition truncate_text :: "formatted_text \<Rightarrow> int \<Rightarrow> formatted_text option" where
  "truncate_text t limit =
     (if int (utf16_len (ft_text t)) \<le> limit then Some t
      else case utf16_cut (ft_text t) limit of
             None \<Rightarrow> None
           | Some kept \<Rightarrow> Some \<lparr>ft_text = kept, ft_entities = List.map_filter (\<lambda>e. clamp_entity e (utf16_len kept)) (ft_entities t)\<rparr>)"

definition ELLIPSIS :: utext where
  "ELLIPSIS = [0x2026]"

definition ellipsize :: "formatted_text \<Rightarrow> int \<Rightarrow> formatted_text option" where
  "ellipsize t limit =
     (if int (utf16_len (ft_text t)) \<le> limit then Some t
      else if limit < int (utf16_len ELLIPSIS) then Some (plain_text_of [])
      else map_option (\<lambda>kept. append_text kept (plain_text_of ELLIPSIS)) (truncate_text t (limit - int (utf16_len ELLIPSIS))))"

section \<open>Templates\<close>

datatype template_value =
  V_Text utext
| V_Bold utext
| V_Italic utext
| V_Bold_Italic utext
| V_Link utext utext
| V_Date_Time utext instant "string option"
| V_Formatted formatted_text
| V_Template "template_part list"
and template_part = Part_Text utext | Part_Value template_value

text \<open>One interpolated value after the plain text so far: the text it adds and its entities.\<close>

fun render_value :: "utext \<Rightarrow> template_value \<Rightarrow> formatted_text"
and render_parts :: "formatted_text \<Rightarrow> template_part list \<Rightarrow> formatted_text" where
  "render_value plain (V_Text s) = plain_text_of s"
| "render_value plain (V_Bold s) = \<lparr>ft_text = s, ft_entities = [plain_entity BOLD (utf16_len plain) (utf16_len s)]\<rparr>"
| "render_value plain (V_Italic s) = \<lparr>ft_text = s, ft_entities = [plain_entity ITALIC (utf16_len plain) (utf16_len s)]\<rparr>"
| "render_value plain (V_Bold_Italic s) = \<lparr>ft_text = s, ft_entities =
     [plain_entity BOLD (utf16_len plain) (utf16_len s), plain_entity ITALIC (utf16_len plain) (utf16_len s)]\<rparr>"
| "render_value plain (V_Link s url) = \<lparr>ft_text = s, ft_entities =
     [(plain_entity TEXT_LINK (utf16_len plain) (utf16_len s))\<lparr>e_url := Some url\<rparr>]\<rparr>"
| "render_value plain (V_Date_Time s t fmt) = \<lparr>ft_text = s, ft_entities =
     [(plain_entity DATE_TIME (utf16_len plain) (utf16_len s))\<lparr>e_unix_time := Some t, e_date_time_format := fmt\<rparr>]\<rparr>"
| "render_value plain (V_Formatted f) =
     \<lparr>ft_text = ft_text f, ft_entities = map (\<lambda>e. shift_entity e (utf16_len plain)) (ft_entities f)\<rparr>"
| "render_value plain (V_Template t) =
     (let nested = render_parts (plain_text_of []) t in
      \<lparr>ft_text = ft_text nested, ft_entities = map (\<lambda>e. shift_entity e (utf16_len plain)) (ft_entities nested)\<rparr>)"
| "render_parts done_so_far [] = done_so_far"
| "render_parts done_so_far (Part_Text s # ps) = render_parts (done_so_far\<lparr>ft_text := ft_text done_so_far @ s\<rparr>) ps"
| "render_parts done_so_far (Part_Value v # ps) =
     (let r = render_value (ft_text done_so_far) v in
      render_parts \<lparr>ft_text = ft_text done_so_far @ ft_text r, ft_entities = ft_entities done_so_far @ ft_entities r\<rparr> ps)"

definition render_template :: "template_part list \<Rightarrow> formatted_text" where
  "render_template t = render_parts (plain_text_of []) t"

end
