(* ===== verification/Tags.thy ===== *)
theory Tags
  imports Entities "HOL-Library.AList"
begin

text \<open>
  The dialect of tagged strings: its tokenizer (\<^verbatim>\<open>libs/core/mitup_bot/format_tags.py\<close>), and the parser and the
  serializer of \<^verbatim>\<open>libs/telegram/mitup_bot/utils/entities.py\<close>.

  \<open>TOKEN_RE\<close> is read from left to right: no two of its parts can start with the same character, so the engine
  never has a second way to match. Two of its tables are Python's and are arguments: \<open>word\<close> is the class \<open>\w\<close>,
  and \<open>refs\<close> is the table of character references of \<open>html.unescape\<close>: given the text behind an ampersand, the
  text a reference at its start stands for and the rest.
\<close>

section \<open>Characters\<close>

definition lit :: "string \<Rightarrow> utext" where
  "lit s = map of_char s"

text \<open>The characters \<open>\s\<close> matches, which are those \<open>str.split\<close> separates at.\<close>

definition space :: "nat \<Rightarrow> bool" where
  "space c \<longleftrightarrow> 9 \<le> c \<and> c \<le> 13 \<or> 28 \<le> c \<and> c \<le> 32 \<or> c \<in> {0x85, 0xA0, 0x1680, 0x2028, 0x2029, 0x202F, 0x205F, 0x3000} \<or>
     0x2000 \<le> c \<and> c \<le> 0x200A"

definition lower_letter :: "nat \<Rightarrow> bool" where
  "lower_letter c \<longleftrightarrow> 97 \<le> c \<and> c \<le> 122"

definition tag_char :: "nat \<Rightarrow> bool" where
  "tag_char c \<longleftrightarrow> lower_letter c \<or> c = 45"

definition attr_char :: "nat \<Rightarrow> bool" where
  "attr_char c \<longleftrightarrow> tag_char c \<or> 65 \<le> c \<and> c \<le> 90"

section \<open>The tokenizer\<close>

text \<open>A name, an equals sign and a quoted value: the attribute and the rest.\<close>

definition match_pair :: "utext \<Rightarrow> ((utext \<times> utext) \<times> utext) option" where
  "match_pair s =
     (let name = takeWhile attr_char s in
      if name = [] then None
      else case dropWhile space (dropWhile attr_char s) of
             [] \<Rightarrow> None
           | c # s1 \<Rightarrow>
               if c \<noteq> 61 then None
               else case dropWhile space s1 of
                      [] \<Rightarrow> None
                    | q # s2 \<Rightarrow>
                        if q \<noteq> 34 \<and> q \<noteq> 39 then None
                        else case dropWhile (\<lambda>c. c \<noteq> q) s2 of
                               [] \<Rightarrow> None
                             | _ # rest \<Rightarrow> Some ((name, takeWhile (\<lambda>c. c \<noteq> q) s2), rest))"

text \<open>The attributes of a tag, each behind white space: the blob they take and the rest.\<close>

function match_attrs :: "utext \<Rightarrow> utext \<times> utext" where
  "match_attrs s =
     (case match_pair (dropWhile space s) of
        None \<Rightarrow> ([], s)
      | Some (_, rest) \<Rightarrow>
          if s \<noteq> [] \<and> space (hd s) \<and> length rest < length s
          then (take (length s - length rest) s @ fst (match_attrs rest), snd (match_attrs rest))
          else ([], s))"
  by pat_completeness auto
termination
  by (relation "measure length") auto

declare match_attrs.simps [simp del]

datatype token = Open_Tag utext utext | Close_Tag utext | Var utext

definition match_tag :: "utext \<Rightarrow> (token \<times> utext) option" where
  "match_tag s =
     (case s of
        [] \<Rightarrow> None
      | c # s1 \<Rightarrow>
          if c \<noteq> 60 then None
          else
            let closing = (s1 \<noteq> [] \<and> hd s1 = 47); s2 = (if closing then tl s1 else s1) in
            if s2 = [] \<or> \<not> lower_letter (hd s2) then None
            else
              let tag = takeWhile tag_char s2; (attrs, s3) = match_attrs (dropWhile tag_char s2) in
              case dropWhile space s3 of
                [] \<Rightarrow> None
              | d # rest \<Rightarrow> if d \<noteq> 62 then None else Some (if closing then Close_Tag tag else Open_Tag tag attrs, rest))"

definition match_var :: "(nat \<Rightarrow> bool) \<Rightarrow> utext \<Rightarrow> (token \<times> utext) option" where
  "match_var word s =
     (case s of
        c # d # s1 \<Rightarrow>
          if c \<noteq> 36 \<or> d \<noteq> 123 \<or> takeWhile word s1 = [] then None
          else (case dropWhile word s1 of
                  [] \<Rightarrow> None
                | e # rest \<Rightarrow> if e \<noteq> 125 then None else Some (Var (takeWhile word s1), rest))
      | _ \<Rightarrow> None)"

definition match_token :: "(nat \<Rightarrow> bool) \<Rightarrow> utext \<Rightarrow> (token \<times> utext) option" where
  "match_token word s = (case match_tag s of Some t \<Rightarrow> Some t | None \<Rightarrow> match_var word s)"

definition var_markup :: "utext \<Rightarrow> utext" where
  "var_markup v = [36, 123] @ v @ [125]"

section \<open>Character references\<close>

type_synonym ref_table = "utext \<Rightarrow> (utext \<times> utext) option"

function unescape :: "ref_table \<Rightarrow> utext \<Rightarrow> utext" where
  "unescape refs [] = []"
| "unescape refs (c # s) =
     (if c \<noteq> 38 then c # unescape refs s
      else case refs s of
             Some (t, rest) \<Rightarrow> if length rest < length s then t @ unescape refs rest else c # unescape refs s
           | None \<Rightarrow> c # unescape refs s)"
  by pat_completeness auto
termination
  by (relation "measure (\<lambda>(refs, s). length s)") auto

definition escape_char :: "nat \<Rightarrow> utext" where
  "escape_char c =
     (if c = 38 then lit ''&amp;'' else if c = 60 then lit ''&lt;'' else if c = 62 then lit ''&gt;''
      else if c = 34 then lit ''&quot;'' else if c = 39 then lit ''&#x27;'' else [c])"

definition escape :: "utext \<Rightarrow> utext" where
  "escape s = concat (map escape_char s)"

section \<open>Reading attributes\<close>

text \<open>\<open>ATTR_RE.finditer\<close>: the pairs found from left to right.\<close>

function find_pairs :: "utext \<Rightarrow> (utext \<times> utext) list" where
  "find_pairs [] = []"
| "find_pairs (c # s) =
     (case match_pair (c # s) of
        Some (p, rest) \<Rightarrow> if length rest < length (c # s) then p # find_pairs rest else find_pairs s
      | None \<Rightarrow> find_pairs s)"
  by pat_completeness auto
termination
  by (relation "measure length") auto

definition lower_text :: "utext \<Rightarrow> utext" where
  "lower_text = map (\<lambda>c. if 65 \<le> c \<and> c \<le> 90 then c + 32 else c)"

definition parse_tag_attributes :: "utext \<Rightarrow> (utext \<times> utext) list" where
  "parse_tag_attributes attrs = foldl (\<lambda>d (n, v). AList.update (lower_text n) v d) [] (find_pairs attrs)"

function split_words :: "utext \<Rightarrow> utext list" where
  "split_words s =
     (let s1 = dropWhile space s in
      if s1 = [] then [] else takeWhile (\<lambda>c. \<not> space c) s1 # split_words (dropWhile (\<lambda>c. \<not> space c) s1))"
  by pat_completeness auto
termination
proof (relation "measure length", goal_cases)
  case (2 s s1)
  obtain c s' where s1: "s1 = c # s'" using 2(2) by (cases s1) auto
  then have "\<not> space c" using 2(1) hd_dropWhile [of space s] by (metis list.distinct(1) list.sel(1))
  then have "length (dropWhile (\<lambda>c. \<not> space c) s1) < length s1"
    using s1 length_dropWhile_le [of "\<lambda>c. \<not> space c" s'] by simp
  then show ?case using 2 length_dropWhile_le [of space s] by simp
qed simp

section \<open>Parsing\<close>

datatype tag_anomaly = UNKNOWN_TAG | MALFORMED_ATTRIBUTES | UNBALANCED_CLOSE | UNCLOSED_TAG

type_synonym dropped_tag = "tag_anomaly \<times> utext \<times> nat"

record open_tag =
  o_offset :: nat
  o_type :: "entity_type option"
  o_url :: "utext option"
  o_emoji :: "utext option"
  o_anomaly :: "tag_anomaly option"

definition STYLE_MAP :: "(utext \<times> entity_type) list" where
  "STYLE_MAP =
     [(lit ''b'', BOLD), (lit ''strong'', BOLD), (lit ''i'', ITALIC), (lit ''em'', ITALIC), (lit ''u'', UNDERLINE),
      (lit ''ins'', UNDERLINE), (lit ''s'', STRIKETHROUGH), (lit ''strike'', STRIKETHROUGH), (lit ''del'', STRIKETHROUGH),
      (lit ''code'', CODE), (lit ''pre'', PRE), (lit ''spoiler'', SPOILER), (lit ''tg-spoiler'', SPOILER),
      (lit ''blockquote'', BLOCKQUOTE)]"

definition opened :: "nat \<Rightarrow> entity_type option \<Rightarrow> utext option \<Rightarrow> utext option \<Rightarrow> tag_anomaly option \<Rightarrow> open_tag" where
  "opened off ty url emoji anomaly = \<lparr>o_offset = off, o_type = ty, o_url = url, o_emoji = emoji, o_anomaly = anomaly\<rparr>"

definition resolve_open_tag :: "utext \<Rightarrow> utext \<Rightarrow> nat \<Rightarrow> open_tag" where
  "resolve_open_tag tag attrs off =
     (let malformed = opened off None None None (Some MALFORMED_ATTRIBUTES); attr = map_of (parse_tag_attributes attrs) in
      if tag = lit ''a'' then
        (case attr (lit ''href'') of
           Some url \<Rightarrow> if url = [] then malformed else opened off (Some TEXT_LINK) (Some url) None None
         | None \<Rightarrow> malformed)
      else if tag = lit ''span'' then
        (if lit ''tg-spoiler'' \<in> set (split_words (case attr (lit ''class'') of Some v \<Rightarrow> v | None \<Rightarrow> []))
         then opened off (Some SPOILER) None None None else malformed)
      else if tag = lit ''tg-emoji'' then
        (case attr (lit ''emoji-id'') of
           Some i \<Rightarrow> if i = [] then malformed else opened off (Some CUSTOM_EMOJI) None (Some i) None
         | None \<Rightarrow> malformed)
      else case map_of STYLE_MAP tag of
             Some ty \<Rightarrow> opened off (Some ty) None None None
           | None \<Rightarrow> opened off None None None (Some UNKNOWN_TAG))"

record parse_state =
  p_plain :: utext
  p_offset :: nat
  p_entities :: "message_entity list"
  p_active :: "(utext \<times> open_tag) list"
  p_anomalies :: "dropped_tag list"

definition flush :: "utext \<Rightarrow> parse_state \<Rightarrow> parse_state" where
  "flush s st = st\<lparr>p_plain := p_plain st @ s, p_offset := p_offset st + utf16_len s\<rparr>"

definition report_tag :: "tag_anomaly \<Rightarrow> utext \<Rightarrow> nat \<Rightarrow> parse_state \<Rightarrow> parse_state" where
  "report_tag reason tag off st = st\<lparr>p_anomalies := p_anomalies st @ [(reason, tag, off)]\<rparr>"

definition substitute :: "(utext \<Rightarrow> formatted_text option) \<Rightarrow> utext \<Rightarrow> parse_state \<Rightarrow> parse_state" where
  "substitute subs v st =
     (case subs v of
        Some f \<Rightarrow> flush (ft_text f) (st\<lparr>p_entities := p_entities st @ map (\<lambda>e. shift_entity e (p_offset st)) (ft_entities f)\<rparr>)
      | None \<Rightarrow> flush (var_markup v) st)"

definition close_tag :: "utext \<Rightarrow> parse_state \<Rightarrow> parse_state" where
  "close_tag tag st =
     (case map_of (p_active st) tag of
        None \<Rightarrow> report_tag UNBALANCED_CLOSE tag (p_offset st) st
      | Some o1 \<Rightarrow>
          let st1 = st\<lparr>p_active := AList.delete tag (p_active st)\<rparr> in
          case o_type o1 of
            None \<Rightarrow> st1
          | Some ty \<Rightarrow>
              if p_offset st \<le> o_offset o1 then st1
              else st1\<lparr>p_entities := p_entities st1 @
                     [(plain_entity ty (o_offset o1) (p_offset st - o_offset o1))\<lparr>e_url := o_url o1, e_custom_emoji_id := o_emoji o1\<rparr>]\<rparr>)"

definition track_open_tag :: "utext \<Rightarrow> utext \<Rightarrow> parse_state \<Rightarrow> parse_state" where
  "track_open_tag tag attrs st =
     (let resolved = resolve_open_tag tag attrs (p_offset st);
          st1 = (case o_anomaly resolved of Some a \<Rightarrow> report_tag a tag (p_offset st) st | None \<Rightarrow> st)
      in st1\<lparr>p_active := AList.update tag resolved (p_active st1)\<rparr>)"

fun take_token :: "(utext \<Rightarrow> formatted_text option) \<Rightarrow> token \<Rightarrow> parse_state \<Rightarrow> parse_state" where
  "take_token subs (Var v) st = substitute subs v st"
| "take_token subs (Close_Tag tag) st = close_tag tag st"
| "take_token subs (Open_Tag tag attrs) st = track_open_tag tag attrs st"

lemma match_tag_shorter: "match_tag s = Some (t, r) \<Longrightarrow> length r < length s"
proof -
  have attrs: "length (snd (match_attrs s)) \<le> length s" for s
  proof (induction s rule: match_attrs.induct)
    case (1 s)
    show ?case
    proof (cases "match_pair (dropWhile space s)")
      case (Some x)
      obtain p rest where x: "x = (p, rest)" by fastforce
      show ?thesis using 1 [OF Some [unfolded x] refl] Some x by (subst match_attrs.simps) auto
    qed (subst match_attrs.simps, simp)
  qed
  assume "match_tag s = Some (t, r)"
  then obtain s1 where s: "s = 60 # s1" by (auto simp: match_tag_def split: list.splits if_splits)
  let ?s2 = "if s1 \<noteq> [] \<and> hd s1 = 47 then tl s1 else s1" let ?s3 = "snd (match_attrs (dropWhile tag_char ?s2))"
  have "dropWhile space ?s3 = 62 # r"
    using \<open>match_tag s = Some (t, r)\<close> unfolding s match_tag_def Let_def case_prod_beta
    by (simp split: list.splits if_split_asm)
  then have "Suc (length r) \<le> length ?s3" using length_dropWhile_le [of space ?s3] by simp
  also have "length ?s3 \<le> length ?s2" using attrs [of "dropWhile tag_char ?s2"] length_dropWhile_le [of tag_char ?s2] by (rule le_trans)
  also have "length ?s2 \<le> length s1" by simp
  finally show ?thesis using s by simp
qed

lemma match_var_shorter: "match_var word s = Some (t, r) \<Longrightarrow> length r < length s"
proof -
  assume "match_var word s = Some (t, r)"
  then obtain c d s1 where "s = c # d # s1" "dropWhile word s1 = 125 # r"
    by (auto simp: match_var_def split: list.splits if_splits)
  then show ?thesis using length_dropWhile_le [of word s1] by simp
qed

lemma match_token_shorter: "match_token word s = Some (t, r) \<Longrightarrow> length r < length s"
  by (auto simp: match_token_def match_tag_shorter match_var_shorter split: option.splits)

text \<open>The loop over the tokens; \<open>pending\<close> is the literal run since the last one.\<close>

function parse_from :: "ref_table \<Rightarrow> (nat \<Rightarrow> bool) \<Rightarrow> (utext \<Rightarrow> formatted_text option) \<Rightarrow> utext \<Rightarrow> parse_state \<Rightarrow> utext \<Rightarrow> parse_state" where
  "parse_from refs word subs pending st [] = flush (unescape refs pending) st"
| "parse_from refs word subs pending st (c # s) =
     (case match_token word (c # s) of
        Some (t, rest) \<Rightarrow> parse_from refs word subs [] (take_token subs t (flush (unescape refs pending) st)) rest
      | None \<Rightarrow> parse_from refs word subs (pending @ [c]) st s)"
  by pat_completeness auto
termination
  by (relation "measure (\<lambda>(refs, word, subs, pending, st, s). length s)") (auto dest: match_token_shorter)

definition start_parse :: parse_state where
  "start_parse = \<lparr>p_plain = [], p_offset = 0, p_entities = [], p_active = [], p_anomalies = []\<rparr>"

text \<open>The alphabetical rank of an entity type's name.\<close>

fun type_name :: "entity_type \<Rightarrow> string" where
  "type_name BOLD = ''bold''" | "type_name ITALIC = ''italic''" | "type_name UNDERLINE = ''underline''"
| "type_name STRIKETHROUGH = ''strikethrough''" | "type_name SPOILER = ''spoiler''" | "type_name CUSTOM_EMOJI = ''custom_emoji''"
| "type_name CODE = ''code''" | "type_name PRE = ''pre''" | "type_name BLOCKQUOTE = ''blockquote''"
| "type_name TEXT_LINK = ''text_link''" | "type_name TEXT_MENTION = ''text_mention''" | "type_name DATE_TIME = ''date_time''"
| "type_name (Other_Type n) = n"

fun string_before :: "string \<Rightarrow> string \<Rightarrow> bool" where
  "string_before [] b \<longleftrightarrow> b \<noteq> []"
| "string_before (x # a) [] \<longleftrightarrow> False"
| "string_before (x # a) (y # b) \<longleftrightarrow> (of_char x :: nat) < of_char y \<or> x = y \<and> string_before a b"

fun insert_entity :: "message_entity \<Rightarrow> message_entity list \<Rightarrow> message_entity list" where
  "insert_entity e [] = [e]"
| "insert_entity e (f # fs) =
     (if e_offset f < e_offset e \<or> e_offset f = e_offset e \<and> \<not> string_before (type_name (e_type e)) (type_name (e_type f))
      then f # insert_entity e fs else e # f # fs)"

text \<open>The stable sort by offset and type.\<close>

definition sort_entities :: "message_entity list \<Rightarrow> message_entity list" where
  "sort_entities es = foldl (\<lambda>sorted_so_far e. insert_entity e sorted_so_far) [] es"

definition parse_format_tags :: "ref_table \<Rightarrow> (nat \<Rightarrow> bool) \<Rightarrow> utext \<Rightarrow> (utext \<Rightarrow> formatted_text option) \<Rightarrow> formatted_text \<times> dropped_tag list" where
  "parse_format_tags refs word s subs =
     (let st = parse_from refs word subs [] start_parse s in
      (\<lparr>ft_text = p_plain st, ft_entities = sort_entities (p_entities st)\<rparr>,
       p_anomalies st @ map (\<lambda>(tag, o1). (UNCLOSED_TAG, tag, o_offset o1)) (filter (\<lambda>(tag, o1). o_anomaly o1 = None) (p_active st))))"

text \<open>
  A stored string is parsed with a warning for each distinct reason and tag: the offset of its first anomaly and
  their number, in the order of the first ones.
\<close>

definition anomaly_lines :: "dropped_tag list \<Rightarrow> (tag_anomaly \<times> utext \<times> nat \<times> nat) list" where
  "anomaly_lines anomalies =
     (let keys = map (\<lambda>(reason, tag, _). (reason, tag)) anomalies in
      map (\<lambda>(reason, tag). (reason, tag, snd (snd (hd (filter (\<lambda>(r, t, _). r = reason \<and> t = tag) anomalies))),
          count_list keys (reason, tag))) (rev (remdups (rev keys))))"

definition parse_stored_tagged_text :: "ref_table \<Rightarrow> (nat \<Rightarrow> bool) \<Rightarrow> utext \<Rightarrow> formatted_text \<times> (tag_anomaly \<times> utext \<times> nat \<times> nat) list" where
  "parse_stored_tagged_text refs word s =
     (let (parsed, anomalies) = parse_format_tags refs word s (\<lambda>_. None) in (parsed, anomaly_lines anomalies))"

text \<open>\<open>strip_format_tags\<close> reads the same tokens and keeps only what is visible.\<close>

function strip_from :: "ref_table \<Rightarrow> (nat \<Rightarrow> bool) \<Rightarrow> utext \<Rightarrow> utext \<Rightarrow> utext" where
  "strip_from refs word pending [] = unescape refs pending"
| "strip_from refs word pending (c # s) =
     (case match_token word (c # s) of
        Some (t, rest) \<Rightarrow> unescape refs pending @ (case t of Var v \<Rightarrow> var_markup v | _ \<Rightarrow> []) @ strip_from refs word [] rest
      | None \<Rightarrow> strip_from refs word (pending @ [c]) s)"
  by pat_completeness auto
termination
  by (relation "measure (\<lambda>(refs, word, pending, s). length s)") (auto dest: match_token_shorter)

definition strip_format_tags :: "ref_table \<Rightarrow> (nat \<Rightarrow> bool) \<Rightarrow> utext \<Rightarrow> utext" where
  "strip_format_tags refs word s = strip_from refs word [] s"

section \<open>Serializing\<close>

definition ENTITY_TAG_MAP :: "entity_type \<Rightarrow> utext option" where
  "ENTITY_TAG_MAP ty =
     (case ty of BOLD \<Rightarrow> Some (lit ''b'') | ITALIC \<Rightarrow> Some (lit ''i'') | UNDERLINE \<Rightarrow> Some (lit ''u'')
      | STRIKETHROUGH \<Rightarrow> Some (lit ''s'') | SPOILER \<Rightarrow> Some (lit ''tg-spoiler'') | CUSTOM_EMOJI \<Rightarrow> Some (lit ''tg-emoji'') | _ \<Rightarrow> None)"

datatype entity_drop_reason = UNSUPPORTED_ENTITY_TYPE | OVERLAPPING_SPAN

definition is_serializable_entity :: "message_entity \<Rightarrow> bool" where
  "is_serializable_entity e \<longleftrightarrow>
     (if e_type e = CUSTOM_EMOJI then e_custom_emoji_id e \<noteq> None else ENTITY_TAG_MAP (e_type e) \<noteq> None)"

definition open_tag_markup :: "message_entity \<Rightarrow> utext" where
  "open_tag_markup e =
     (if e_type e = CUSTOM_EMOJI then lit ''<tg-emoji emoji-id='' @ [34] @ escape (the (e_custom_emoji_id e)) @ [34, 62]
      else [60] @ the (ENTITY_TAG_MAP (e_type e)) @ [62])"

text \<open>The parts of the result: escaped literal text, an opening tag or a closing one.\<close>

datatype part = Literal utext | Opening message_entity | Closing utext

fun part_markup :: "part \<Rightarrow> utext" where
  "part_markup (Literal s) = escape s"
| "part_markup (Opening e) = open_tag_markup e"
| "part_markup (Closing tag) = [60, 47] @ tag @ [62]"

text \<open>\<open>encoded[cursor * 2 : end * 2].decode("utf-16-le")\<close>\<close>

definition slice :: "nat list \<Rightarrow> nat \<Rightarrow> nat \<Rightarrow> utext option" where
  "slice enc cursor stop = decode (take (stop - cursor) (drop cursor enc))"

type_synonym span_stack = "(nat \<times> utext) list"

text \<open>The open spans, innermost first.\<close>

fun close_spans_ending_by :: "nat list \<Rightarrow> nat \<Rightarrow> part list \<Rightarrow> span_stack \<Rightarrow> nat \<Rightarrow> (part list \<times> span_stack \<times> nat) option" where
  "close_spans_ending_by enc off parts [] cursor = Some (parts, [], cursor)"
| "close_spans_ending_by enc off parts ((stop, tag) # outer) cursor =
     (if stop \<le> off
      then (case slice enc cursor stop of
              None \<Rightarrow> None
            | Some s \<Rightarrow> close_spans_ending_by enc off (parts @ [Literal s, Closing tag]) outer stop)
      else Some (parts, (stop, tag) # outer, cursor))"

fun serialize_each :: "nat list \<Rightarrow> message_entity list \<Rightarrow> part list \<Rightarrow> span_stack \<Rightarrow> nat \<Rightarrow>
    (part list \<times> span_stack \<times> nat \<times> message_entity list) option" where
  "serialize_each enc [] parts stack cursor = Some (parts, stack, cursor, [])"
| "serialize_each enc (e # es) parts stack cursor =
     (case close_spans_ending_by enc (e_offset e) parts stack cursor of
        None \<Rightarrow> None
      | Some (parts1, stack1, cursor1) \<Rightarrow>
          let stop = e_offset e + e_length e in
          if stack1 \<noteq> [] \<and> fst (hd stack1) < stop
          then map_option (\<lambda>(ps, st, c, lost). (ps, st, c, e # lost)) (serialize_each enc es parts1 stack1 cursor1)
          else case slice enc cursor1 (e_offset e) of
                 None \<Rightarrow> None
               | Some s \<Rightarrow> serialize_each enc es (parts1 @ [Literal s, Opening e])
                            ((stop, the (ENTITY_TAG_MAP (e_type e))) # stack1) (e_offset e))"

definition serialization_order :: "message_entity list \<Rightarrow> message_entity list" where
  "serialization_order es = sort_key e_offset (sort_key (\<lambda>e. - int (e_length e)) (filter is_serializable_entity es))"

definition serialize_parts :: "utext \<Rightarrow> message_entity list \<Rightarrow> (part list \<times> message_entity list) option" where
  "serialize_parts s es =
     (case serialize_each (encode s) (serialization_order es) [] [] 0 of
        None \<Rightarrow> None
      | Some (parts, stack, cursor, lost) \<Rightarrow>
          (case close_spans_ending_by (encode s) (utf16_len s) parts stack cursor of
             None \<Rightarrow> None
           | Some (parts1, stack1, cursor1) \<Rightarrow>
               map_option (\<lambda>t. (parts1 @ [Literal t], lost)) (slice (encode s) cursor1 (utf16_len s))))"

text \<open>The tagged string, and the entities it could not carry with the reason for each.\<close>

definition serialize_entities :: "utext \<Rightarrow> message_entity list \<Rightarrow> (utext \<times> (entity_drop_reason \<times> entity_type) list) option" where
  "serialize_entities s es =
     map_option (\<lambda>(parts, lost). (concat (map part_markup parts),
        map (\<lambda>e. (UNSUPPORTED_ENTITY_TYPE, e_type e)) (filter (\<lambda>e. \<not> is_serializable_entity e) es) @
        map (\<lambda>e. (OVERLAPPING_SPAN, e_type e)) lost)) (serialize_parts s es)"

definition capture_tagged_text :: "utext \<Rightarrow> message_entity list \<Rightarrow> utext option" where
  "capture_tagged_text s es = map_option fst (serialize_entities s es)"

end
