(* ===== verification/Entities_Props.thy ===== *)
theory Entities_Props
  imports Entities
begin

text \<open>
  Formatted text stays well formed: whatever is composed or cut, every entity spans whole characters of the
  text it belongs to, and the right ones.
\<close>

section \<open>Units\<close>

lemma valid_text_simps [simp]:
  "valid_text []" "valid_text (c # s) \<longleftrightarrow> valid_point c \<and> valid_text s" "valid_text (s @ t) \<longleftrightarrow> valid_text s \<and> valid_text t"
  by (simp_all add: valid_text_def)

lemma encode_simps [simp]:
  "encode [] = []" "encode (c # s) = units c @ encode s" "encode (s @ t) = encode s @ encode t"
  by (simp_all add: encode_def)

lemma utf16_len_simps [simp]:
  "utf16_len [] = 0" "utf16_len (c # s) = length (units c) + utf16_len s" "utf16_len (s @ t) = utf16_len s + utf16_len t"
  by (simp_all add: utf16_len_def)

lemma length_units: "length (units c) = (if c < 0x10000 then 1 else 2)"
  by (simp add: units_def)

lemma units_cases:
  assumes "valid_point c"
  obtains "units c = [c]" "\<not> high_surrogate c" "\<not> low_surrogate c"
    | h l where "units c = [h, l]" "high_surrogate h" "low_surrogate l" "0x10000 + (h - 0xD800) * 0x400 + (l - 0xDC00) = c"
      "\<not> high_surrogate l"
proof (cases "c < 0x10000")
  case True
  then show ?thesis using that(1) assms by (auto simp: units_def valid_point_def high_surrogate_def low_surrogate_def)
next
  case False
  let ?k = "c - 0x10000"
  have k: "?k < 0x100000" using assms by (auto simp: valid_point_def)
  then have "?k div 0x400 < 0x400" by (intro less_mult_imp_div_less) simp
  moreover have "?k mod 0x400 < 0x400" by simp
  moreover have "?k div 0x400 * 0x400 + ?k mod 0x400 = ?k" by (rule div_mult_mod_eq)
  ultimately show ?thesis using False
    by (intro that(2) [of "0xD800 + ?k div 0x400" "0xDC00 + ?k mod 0x400"])
      (auto simp: units_def high_surrogate_def low_surrogate_def)
qed

lemma decode_units: "valid_point c \<Longrightarrow> decode (units c @ us) = map_option (Cons c) (decode us)"
proof (erule units_cases)
  assume "units c = [c]" "\<not> high_surrogate c" "\<not> low_surrogate c"
  then show ?thesis by (cases us) simp_all
next
  fix h l assume "units c = [h, l]" "high_surrogate h" "low_surrogate l" "0x10000 + (h - 0xD800) * 0x400 + (l - 0xDC00) = c"
  then show ?thesis by simp
qed

lemma decode_encode [simp]: "valid_text s \<Longrightarrow> decode (encode s) = Some s"
  by (induction s) (auto simp: decode_units)

lemma last_unit: "valid_text s \<Longrightarrow> s \<noteq> [] \<Longrightarrow> encode s \<noteq> [] \<and> \<not> high_surrogate (last (encode s))"
proof (induction s)
  case (Cons c s)
  then have "valid_point c" by simp
  then have c: "units c \<noteq> []" "\<not> high_surrogate (last (units c))" by (auto elim!: units_cases)
  then show ?case using Cons by (cases "s = []") auto
qed simp

lemma cut_units:
  assumes "valid_text s"
  shows "\<exists>p r. s = p @ r \<and>
    (take n (encode s) = encode p \<and> (r = [] \<or> utf16_len p = n) \<or>
     (\<exists>h. take n (encode s) = encode p @ [h] \<and> high_surrogate h \<and> r \<noteq> [] \<and> length (units (hd r)) = 2 \<and> n = Suc (utf16_len p)))"
  using assms
proof (induction s arbitrary: n)
  case Nil then show ?case by (intro exI [of _ "[]"]) simp
next
  case (Cons c s)
  then have c: "valid_point c" by simp
  show ?case
  proof (cases "n \<ge> length (units c)")
    case True
    have "valid_text s" using Cons.prems by simp
    from Cons.IH [OF this, of "n - length (units c)"] obtain p r where pr: "s = p @ r"
      "take (n - length (units c)) (encode s) = encode p \<and> (r = [] \<or> utf16_len p = n - length (units c)) \<or>
       (\<exists>h. take (n - length (units c)) (encode s) = encode p @ [h] \<and> high_surrogate h \<and> r \<noteq> [] \<and> length (units (hd r)) = 2
          \<and> n - length (units c) = Suc (utf16_len p))" by blast
    then show ?thesis using True by (intro exI [of _ "c # p"] exI [of _ r]) auto
  next
    case False
    then have "n = 0 \<or> n = 1 \<and> length (units c) = 2" by (auto simp: length_units split: if_splits)
    then show ?thesis
    proof
      assume "n = 0" then show ?thesis by (intro exI [of _ "[]"] exI [of _ "c # s"]) simp
    next
      assume n: "n = 1 \<and> length (units c) = 2"
      with c obtain h l where "units c = [h, l]" "high_surrogate h" by (auto elim!: units_cases)
      then show ?thesis using n by (intro exI [of _ "[]"] exI [of _ "c # s"]) auto
    qed
  qed
qed

text \<open>The cut is the longest prefix that fits.\<close>

lemma utf16_cut_longest:
  assumes "valid_text s"
  shows "\<exists>p r. utf16_cut s limit = Some p \<and> s = p @ r \<and> int (utf16_len p) \<le> max 0 limit \<and>
    (r \<noteq> [] \<longrightarrow> limit < int (utf16_len (p @ [hd r])))"
proof (cases "limit \<le> 0")
  case True
  then show ?thesis by (intro exI [of _ "[]"] exI [of _ s]) (auto simp: utf16_cut_def length_units)
next
  case False
  from cut_units [OF assms, of "nat limit"] obtain p r where pr: "s = p @ r"
    and t: "take (nat limit) (encode s) = encode p \<and> (r = [] \<or> utf16_len p = nat limit) \<or>
     (\<exists>h. take (nat limit) (encode s) = encode p @ [h] \<and> high_surrogate h \<and> r \<noteq> [] \<and> length (units (hd r)) = 2 \<and> nat limit = Suc (utf16_len p))"
    by blast
  have p: "valid_text p" using assms pr by simp
  have "length (take (nat limit) (encode s)) \<le> nat limit" by simp
  from t show ?thesis
  proof
    assume a: "take (nat limit) (encode s) = encode p \<and> (r = [] \<or> utf16_len p = nat limit)"
    have "utf16_cut s limit = Some p"
      using a False p last_unit [OF p] by (cases "p = []") (auto simp: utf16_cut_def Let_def)
    moreover have "utf16_len p \<le> nat limit"
      using a \<open>length (take (nat limit) (encode s)) \<le> nat limit\<close> by (simp add: utf16_len_def)
    moreover have "r \<noteq> [] \<longrightarrow> limit < int (utf16_len (p @ [hd r]))" using a False by (auto simp: length_units)
    ultimately show ?thesis using pr False by (intro exI [of _ p] exI [of _ r]) auto
  next
    assume "\<exists>h. take (nat limit) (encode s) = encode p @ [h] \<and> high_surrogate h \<and> r \<noteq> [] \<and> length (units (hd r)) = 2 \<and> nat limit = Suc (utf16_len p)"
    then obtain h where h: "take (nat limit) (encode s) = encode p @ [h]" "high_surrogate h" "r \<noteq> []" "length (units (hd r)) = 2"
      "nat limit = Suc (utf16_len p)" by blast
    then have "utf16_cut s limit = Some p" using False p by (simp add: utf16_cut_def Let_def)
    then show ?thesis using pr h False by (intro exI [of _ p] exI [of _ r]) auto
  qed
qed

section \<open>Spans\<close>

text \<open>The entity spans exactly the characters \<open>b\<close> of the text.\<close>

definition spans :: "utext \<Rightarrow> message_entity \<Rightarrow> utext \<Rightarrow> bool" where
  "spans t e b \<longleftrightarrow> (\<exists>a c. t = a @ b @ c \<and> e_offset e = utf16_len a \<and> e_length e = utf16_len b)"

definition ft_ok :: "formatted_text \<Rightarrow> bool" where
  "ft_ok f \<longleftrightarrow> (\<forall>e \<in> set (ft_entities f). \<exists>b. spans (ft_text f) e b)"

lemma spans_append: "spans t e b \<Longrightarrow> spans (t @ u) e b"
  unfolding spans_def by (elim exE conjE) (auto intro!: exI)

lemma spans_shift: "spans t e b \<Longrightarrow> spans (u @ t) (shift_entity e (utf16_len u)) b"
proof -
  assume "spans t e b"
  then obtain a c where "t = a @ b @ c" "e_offset e = utf16_len a" "e_length e = utf16_len b" by (auto simp: spans_def)
  then show ?thesis unfolding spans_def by (intro exI [of _ "u @ a"] exI [of _ c]) (auto simp: shift_entity_def)
qed

lemma ex_spans_append: "Ex (spans t e) \<Longrightarrow> Ex (spans (t @ u) e)"
  and ex_spans_shift: "Ex (spans t e) \<Longrightarrow> Ex (spans (u @ t) (shift_entity e (utf16_len u)))"
  using spans_append spans_shift by blast+

lemma spans_whole: "spans t (plain_entity ty 0 (utf16_len t)) t"
  unfolding spans_def by (intro exI [of _ "[]"]) (auto simp: plain_entity_def)

lemma spans_end: "e_offset e = utf16_len t \<Longrightarrow> e_length e = utf16_len s \<Longrightarrow> spans (t @ s) e s"
  unfolding spans_def by (intro exI [of _ t] exI [of _ "[]"]) simp

lemma ft_ok_plain [simp]: "ft_ok (plain_text_of s)"
  by (simp add: ft_ok_def plain_text_of_def)

lemma ft_ok_append: "ft_ok t \<Longrightarrow> ft_ok u \<Longrightarrow> ft_ok (append_text t u)"
  unfolding ft_ok_def append_text_def by (auto intro: ex_spans_append ex_spans_shift)

lemma ft_ok_prepend: "ft_ok t \<Longrightarrow> ft_ok u \<Longrightarrow> ft_ok (prepend t u)"
  unfolding ft_ok_def prepend_def by (auto intro: ex_spans_append ex_spans_shift)

lemma ft_ok_wrap: "ft_ok t \<Longrightarrow> ft_ok (wrap_text t ty)"
  unfolding ft_ok_def wrap_text_def by (auto intro: spans_whole)

lemma ft_ok_foldl: "ft_ok p \<Longrightarrow> list_all ft_ok ps \<Longrightarrow>
    ft_ok (foldl (\<lambda>result p. append_text (append_text result (plain_text_of separator)) p) p ps)"
  by (induction ps arbitrary: p) (simp_all add: ft_ok_append)

lemma ft_ok_join: "list_all ft_ok ps \<Longrightarrow> ft_ok (join_texts separator ps)"
  by (cases ps) (auto simp: join_texts_def intro: ft_ok_foldl)

text \<open>The formatted texts a template substitutes are well formed.\<close>

fun value_ok :: "template_value \<Rightarrow> bool" and part_ok :: "template_part \<Rightarrow> bool" where
  "value_ok (V_Formatted f) \<longleftrightarrow> ft_ok f"
| "value_ok (V_Template t) \<longleftrightarrow> (\<forall>p \<in> set t. part_ok p)"
| "value_ok _ \<longleftrightarrow> True"
| "part_ok (Part_Text s) \<longleftrightarrow> True"
| "part_ok (Part_Value v) \<longleftrightarrow> value_ok v"

lemma render_ok:
  "value_ok v \<Longrightarrow> \<forall>e \<in> set (ft_entities (render_value plain v)). \<exists>b. spans (plain @ ft_text (render_value plain v)) e b"
  "ft_ok f \<Longrightarrow> \<forall>p \<in> set ps. part_ok p \<Longrightarrow> ft_ok (render_parts f ps)"
proof (induction plain v and f ps rule: render_value_render_parts.induct)
  case (2 plain s) then show ?case by (auto simp: plain_entity_def intro!: exI spans_end)
next
  case (3 plain s) then show ?case by (auto simp: plain_entity_def intro!: exI spans_end)
next
  case (4 plain s) then show ?case by (auto simp: plain_entity_def intro!: exI spans_end)
next
  case (5 plain s url) then show ?case by (auto simp: plain_entity_def intro!: exI spans_end)
next
  case (6 plain s t fmt) then show ?case by (auto simp: plain_entity_def intro!: exI spans_end)
next
  case (7 plain f) then show ?case by (auto simp: ft_ok_def intro: ex_spans_shift)
next
  case (8 plain t)
  then have "ft_ok (render_parts (plain_text_of []) t)" by simp
  then show ?case by (auto simp: ft_ok_def Let_def intro: ex_spans_shift)
next
  case (10 f s ps)
  have "ft_ok (f\<lparr>ft_text := ft_text f @ s\<rparr>)" using "10.prems"(1) by (auto simp: ft_ok_def intro: ex_spans_append)
  then show ?case using 10 by simp
next
  case (11 f v ps)
  have "ft_ok \<lparr>ft_text = ft_text f @ ft_text (render_value (ft_text f) v), ft_entities = ft_entities f @ ft_entities (render_value (ft_text f) v)\<rparr>"
    using "11.IH"(1) "11.prems" by (auto simp: ft_ok_def intro: ex_spans_append)
  then show ?case using "11.IH"(2) [OF refl] "11.prems" by (simp add: Let_def)
qed (auto simp: plain_text_of_def)

text \<open>C28. Composing formatted texts keeps every entity on whole characters of the result: appending, prepending,
  wrapping and joining, and rendering a template however deeply nested. Nothing is measured in code points where
  Telegram counts UTF-16 units, so characters outside the BMP shift the entities behind them by two.
\<close>

theorem composed_texts_stay_valid:
  shows "ft_ok t \<Longrightarrow> ft_ok u \<Longrightarrow> ft_ok (append_text t u) \<and> ft_ok (prepend t u) \<and> ft_ok (wrap_text t ty) \<and>
    (list_all ft_ok ps \<longrightarrow> ft_ok (join_texts separator ps)) \<and> (list_all part_ok parts \<longrightarrow> ft_ok (render_template parts))"
  using ft_ok_append ft_ok_prepend ft_ok_wrap ft_ok_join render_ok(2) [of "plain_text_of []" parts]
  by (auto simp: render_template_def list_all_iff)

section \<open>Cutting\<close>

lemma append_eq_cases: "a @ x = p @ r \<Longrightarrow> (\<exists>u. p = a @ u \<and> x = u @ r) \<or> (\<exists>v. a = p @ v \<and> v \<noteq> [] \<and> r = v @ x)"
  by (auto simp: append_eq_append_conv2)

lemma utf16_len_zero [simp]: "utf16_len s = 0 \<longleftrightarrow> s = []"
  by (cases s) (auto simp: length_units)

lemma clamp_spans:
  assumes "spans (p @ r) e b" "clamp_entity e (utf16_len p) = Some e'"
  shows "\<exists>b' rest. spans p e' b' \<and> b = b' @ rest \<and> e_type e' = e_type e \<and> e_offset e' = e_offset e"
proof -
  obtain a c where abc: "p @ r = a @ b @ c" "e_offset e = utf16_len a" "e_length e = utf16_len b" using assms(1) by (auto simp: spans_def)
  have lt: "utf16_len a < utf16_len p" using assms(2) abc(2) by (auto simp: clamp_entity_def split: if_splits)
  from append_eq_cases [OF abc(1) [symmetric]] obtain u where u: "p = a @ u" "b @ c = u @ r" using lt by fastforce
  from append_eq_cases [OF u(2)] show ?thesis
  proof
    assume "\<exists>v. u = b @ v \<and> c = v @ r"
    then obtain v where v: "u = b @ v" by blast
    then have "e' = e" using assms(2) abc u(1) by (simp add: clamp_entity_def split: if_splits)
    moreover have "spans p e b" unfolding spans_def using u(1) v abc(2,3) by (intro exI [of _ a] exI [of _ v]) simp
    ultimately show ?thesis by (intro exI [of _ b] exI [of _ "[]"]) simp
  next
    assume "\<exists>v. b = u @ v \<and> v \<noteq> [] \<and> r = v @ c"
    then obtain v where v: "b = u @ v" "v \<noteq> []" by blast
    have "0 < utf16_len v" using v(2) utf16_len_zero [of v] by linarith
    then have "e' = resize_entity e (utf16_len p - e_offset e)" using assms(2) abc u(1) v(1) by (simp add: clamp_entity_def split: if_splits)
    then have e': "e_offset e' = e_offset e" "e_length e' = utf16_len u" "e_type e' = e_type e"
      using u(1) abc(2) by (simp_all add: resize_entity_def)
    have "spans p e' u" unfolding spans_def using u(1) abc(2) e' by (intro exI [of _ a] exI [of _ "[]"]) simp
    then show ?thesis using v e' by auto
  qed
qed

definition cut_of :: "formatted_text \<Rightarrow> utext \<Rightarrow> message_entity list \<Rightarrow> bool" where
  "cut_of t kept es \<longleftrightarrow> (\<forall>e' \<in> set es. \<exists>e \<in> set (ft_entities t). \<exists>b b' rest. spans (ft_text t) e b \<and> spans kept e' b' \<and>
     b = b' @ rest \<and> e_type e' = e_type e \<and> e_offset e' = e_offset e)"

lemma truncate_ok:
  assumes "valid_text (ft_text t)" "ft_ok t"
  shows "\<exists>r rest. truncate_text t limit = Some r \<and> ft_text t = ft_text r @ rest \<and> int (utf16_len (ft_text r)) \<le> max 0 limit \<and>
    (rest \<noteq> [] \<longrightarrow> limit < int (utf16_len (ft_text r @ [hd rest]))) \<and> cut_of t (ft_text r) (ft_entities r)"
proof (cases "int (utf16_len (ft_text t)) \<le> limit")
  case True
  have "cut_of t (ft_text t) (ft_entities t)" using assms(2) unfolding cut_of_def ft_ok_def by blast
  then show ?thesis using True by (intro exI [of _ t] exI [of _ "[]"]) (simp add: truncate_text_def)
next
  case False
  obtain p r where p: "utf16_cut (ft_text t) limit = Some p" "ft_text t = p @ r" "int (utf16_len p) \<le> max 0 limit"
    "r \<noteq> [] \<longrightarrow> limit < int (utf16_len (p @ [hd r]))" using utf16_cut_longest [OF assms(1)] by blast
  let ?es = "List.map_filter (\<lambda>e. clamp_entity e (utf16_len p)) (ft_entities t)"
  have "cut_of t p ?es" unfolding cut_of_def
  proof
    fix e' assume "e' \<in> set ?es"
    then obtain e where e: "e \<in> set (ft_entities t)" "clamp_entity e (utf16_len p) = Some e'" by (auto simp: List.map_filter_def)
    obtain b where b: "spans (ft_text t) e b" using assms(2) e(1) by (auto simp: ft_ok_def)
    from clamp_spans [OF b [unfolded p(2)] e(2)] b e(1)
    show "\<exists>e \<in> set (ft_entities t). \<exists>b b' rest. spans (ft_text t) e b \<and> spans p e' b' \<and> b = b' @ rest \<and> e_type e' = e_type e \<and> e_offset e' = e_offset e"
      by blast
  qed
  then show ?thesis using False p
    by (intro exI [of _ "\<lparr>ft_text = p, ft_entities = ?es\<rparr>"] exI [of _ r]) (simp add: truncate_text_def)
qed

lemma cut_of_ok: "cut_of t kept es \<Longrightarrow> ft_ok \<lparr>ft_text = kept, ft_entities = es\<rparr>"
  unfolding cut_of_def ft_ok_def by fastforce

text \<open>C27. Cutting a formatted text never raises and leaves a text Telegram takes. \<open>truncate\<close> keeps the longest prefix
  that fits the limit; every entity it keeps spans the part of its characters that was kept, and none reaches
  past the end. \<open>ellipsize\<close> stays within the limit with the ellipsis included.
\<close>

theorem cut_texts_stay_valid:
  assumes "valid_text (ft_text t)" "ft_ok t"
  shows "(\<exists>r rest. truncate_text t limit = Some r \<and> ft_text t = ft_text r @ rest \<and> int (utf16_len (ft_text r)) \<le> max 0 limit \<and>
      (rest \<noteq> [] \<longrightarrow> limit < int (utf16_len (ft_text r @ [hd rest]))) \<and> cut_of t (ft_text r) (ft_entities r)) \<and>
    (\<exists>r. ellipsize t limit = Some r \<and> int (utf16_len (ft_text r)) \<le> max 0 limit \<and> ft_ok r)"
proof (rule conjI)
  show "\<exists>r. ellipsize t limit = Some r \<and> int (utf16_len (ft_text r)) \<le> max 0 limit \<and> ft_ok r"
  proof (cases "int (utf16_len (ft_text t)) \<le> limit \<or> limit < int (utf16_len ELLIPSIS)")
    case True then show ?thesis using assms(2) by (auto simp: ellipsize_def plain_text_of_def ft_ok_def)
  next
    case False
    obtain r where r: "truncate_text t (limit - int (utf16_len ELLIPSIS)) = Some r"
      "int (utf16_len (ft_text r)) \<le> max 0 (limit - int (utf16_len ELLIPSIS))" "cut_of t (ft_text r) (ft_entities r)"
      using truncate_ok [OF assms] by blast
    have "ft_ok r" using cut_of_ok [OF r(3)] by (cases r) simp
    then have "ft_ok (append_text r (plain_text_of ELLIPSIS))" by (auto intro: ft_ok_append)
    then show ?thesis using False r(1,2) by (simp add: ellipsize_def append_text_def plain_text_of_def)
  qed
qed (rule truncate_ok [OF assms])

end
