(* ===== verification/Tags_Props.thy ===== *)
theory Tags_Props
  imports Tags Entities_Props "HOL-Library.Multiset"
begin

text \<open>
  What is captured is what is shown again: reading a serialized message gives back its text, whatever its
  entities, and its entities where they nest the way Telegram sends them.

  \<open>word_ok\<close> and \<open>refs_ok\<close> say of Python's tables what is needed: no word character is a delimiter of the
  dialect, and \<open>html.unescape\<close> undoes the five references \<open>html.escape\<close> writes.
\<close>

section \<open>Reading without substitutions\<close>

lemma flush_simps [simp]:
  "p_plain (flush s st) = p_plain st @ s" "p_offset (flush s st) = p_offset st + utf16_len s"
  "p_entities (flush s st) = p_entities st" "p_active (flush s st) = p_active st" "p_anomalies (flush s st) = p_anomalies st"
  by (simp_all add: flush_def)

lemma flush_Nil [simp]: "flush [] st = st"
  by (simp add: flush_def)

lemma flush_flush [simp]: "flush t (flush s st) = flush (s @ t) st"
  by (simp add: flush_def)

lemma take_token_plain: "p_plain (take_token (\<lambda>_. None) t st) = p_plain st @ (case t of Var v \<Rightarrow> var_markup v | _ \<Rightarrow> [])"
  by (cases t) (auto simp: substitute_def close_tag_def track_open_tag_def report_tag_def Let_def split: option.splits)

lemma parse_plain:
  "p_plain (parse_from refs word (\<lambda>_. None) pending st s) = p_plain st @ strip_from refs word pending s"
proof (induction refs word "\<lambda>_ :: utext. None :: formatted_text option" pending st s rule: parse_from.induct)
  case (2 refs word pending st c s)
  then show ?case by (cases "match_token word (c # s)") (auto simp: take_token_plain)
qed simp

text \<open>C29. The two readers of the dialect agree: what \<open>strip_format_tags\<close> makes of any string at all, well formed or not,
  is the text \<open>parse_format_tags\<close> produces for it without substitutions.
\<close>

theorem strip_agrees_with_parse:
  "strip_format_tags refs word s = ft_text (fst (parse_format_tags refs word s (\<lambda>_. None)))"
  by (simp add: strip_format_tags_def parse_format_tags_def Let_def parse_plain start_parse_def)

section \<open>Escaped text\<close>

definition word_ok :: "(nat \<Rightarrow> bool) \<Rightarrow> bool" where
  "word_ok word \<longleftrightarrow> \<not> (\<exists>c \<in> set (lit ''$&<>{};#=' '') \<union> {34}. word c)"

definition refs_ok :: "ref_table \<Rightarrow> bool" where
  "refs_ok refs \<longleftrightarrow> (\<forall>r. refs (lit ''amp;'' @ r) = Some ([38], r) \<and> refs (lit ''lt;'' @ r) = Some ([60], r) \<and>
     refs (lit ''gt;'' @ r) = Some ([62], r) \<and> refs (lit ''quot;'' @ r) = Some ([34], r) \<and> refs (lit ''#x27;'' @ r) = Some ([39], r))"

lemma lit_simps [simp]: "lit [] = []" "lit (c # s) = of_char c # lit s"
  by (simp_all add: lit_def)

lemma escape_simps [simp]: "escape [] = []" "escape (c # s) = escape_char c @ escape s" "escape (s @ t) = escape s @ escape t"
  by (simp_all add: escape_def)

definition plain_char :: "nat \<Rightarrow> bool" where
  "plain_char c \<longleftrightarrow> c \<noteq> 38 \<and> c \<noteq> 60 \<and> c \<noteq> 62 \<and> c \<noteq> 34 \<and> c \<noteq> 39"

lemma escape_char_cases:
  obtains "plain_char c" "escape_char c = [c]"
    | u where "\<not> plain_char c" "escape_char c = 38 # u" "\<forall>x \<in> set (38 # u). x \<noteq> 60 \<and> x \<noteq> 36"
  by (cases "c = 38"; cases "c = 60"; cases "c = 62"; cases "c = 34"; cases "c = 39")
    (auto simp: plain_char_def escape_char_def)

lemma unescape_escape: "refs_ok refs \<Longrightarrow> unescape refs (escape s) = s"
proof (induction s)
  case (Cons c s)
  consider "plain_char c" | "c = 38" | "c = 60" | "c = 62" | "c = 34" | "c = 39" by (auto simp: plain_char_def)
  then show ?case using Cons by cases (auto simp: plain_char_def escape_char_def refs_ok_def)
qed simp

lemma match_token_first: "c \<noteq> 60 \<Longrightarrow> c \<noteq> 36 \<Longrightarrow> match_token word (c # s) = None"
  by (auto simp: match_token_def match_tag_def match_var_def split: list.splits)

lemma parse_plain_run:
  "\<forall>x \<in> set u. x \<noteq> 60 \<and> x \<noteq> 36 \<Longrightarrow> parse_from refs word subs pending st (u @ s) = parse_from refs word subs (pending @ u) st s"
  by (induction u arbitrary: pending) (auto simp: match_token_first)

lemma escape_prefix:
  assumes "escape t @ r = u @ rest" "list_all plain_char u" "60 \<notin> set u" "r = [] \<or> hd r = 60"
  shows "\<exists>t'. t = u @ t' \<and> rest = escape t' @ r"
  using assms
proof (induction u arbitrary: t)
  case (Cons x u)
  show ?case
  proof (cases t)
    case Nil then show ?thesis using Cons.prems by (cases r) auto
  next
    case t: (Cons c t1)
    have "c = x \<and> escape t1 @ r = u @ rest"
      using Cons.prems t by (cases rule: escape_char_cases [of c]) (auto simp: plain_char_def)
    then show ?thesis using Cons.IH [of t1] Cons.prems t by auto
  qed
qed simp

lemma match_var_inv: "match_var word s = Some (t, rest) \<Longrightarrow> \<exists>v. t = Var v \<and> s = var_markup v @ rest \<and> list_all word v"
proof -
  assume "match_var word s = Some (t, rest)"
  then obtain s1 where s: "s = 36 # 123 # s1" "dropWhile word s1 = 125 # rest" "t = Var (takeWhile word s1)"
    by (auto simp: match_var_def split: list.splits if_splits)
  have "s1 = takeWhile word s1 @ 125 # rest" using takeWhile_dropWhile_id [of word s1] s(2) by simp
  then show ?thesis using s(1,3) by (auto simp: var_markup_def list_all_iff dest: set_takeWhileD)
qed

lemma word_plain: "word_ok word \<Longrightarrow> word c \<Longrightarrow> plain_char c"
  by (auto simp: word_ok_def plain_char_def)

text \<open>Escaped text is read back, placeholders in it included, up to the next tag or the end.\<close>

lemma parse_literal:
  assumes "word_ok word" "refs_ok refs" "r = [] \<or> hd r = 60"
  shows "\<exists>p' st'. parse_from refs word (\<lambda>_. None) (escape p) st (escape t @ r) = parse_from refs word (\<lambda>_. None) (escape p') st' r \<and>
    flush p' st' = flush (p @ t) st"
proof (induction "length t" arbitrary: p st t rule: less_induct)
  case less
  show ?case
  proof (cases t)
    case Nil then show ?thesis by auto
  next
    case (Cons c t1)
    show ?thesis
    proof (cases "match_var word (escape t @ r)")
      case (Some x)
      then obtain v rest where x: "x = (Var v, rest)" "escape t @ r = var_markup v @ rest" "list_all word v"
        using match_var_inv by (metis prod.exhaust)
      have v: "\<forall>x \<in> set v. plain_char x" using x(3) word_plain [OF assms(1)] by (auto simp: list_all_iff)
      have "list_all plain_char (var_markup v)" "60 \<notin> set (var_markup v)"
        using v by (auto simp: var_markup_def list_all_iff plain_char_def)
      from escape_prefix [OF x(2) this assms(3)] obtain t' where t': "t = var_markup v @ t'" "rest = escape t' @ r" by blast
      have first: "\<exists>y. escape t @ r = 36 # y" using x(2) by (auto simp: var_markup_def)
      then have "match_token word (escape t @ r) = Some (Var v, rest)"
        using Some x(1) by (auto simp: match_token_def match_tag_def)
      then have step: "parse_from refs word (\<lambda>_. None) (escape p) st (escape t @ r) =
          parse_from refs word (\<lambda>_. None) (escape []) (flush (p @ var_markup v) st) (escape t' @ r)"
        using first t'(2) by (auto simp: unescape_escape [OF assms(2)] substitute_def)
      have "length t' < length t" using t'(1) by (simp add: var_markup_def)
      from less [OF this, of "[]" "flush (p @ var_markup v) st"] show ?thesis using step t'(1) by auto
    next
      case None
      have pass: "parse_from refs word (\<lambda>_. None) (escape p) st (escape t @ r) =
          parse_from refs word (\<lambda>_. None) (escape (p @ [c])) st (escape t1 @ r)"
      proof (cases rule: escape_char_cases [of c])
        case 1
        have "match_token word (c # escape t1 @ r) = None"
          using None Cons 1 by (auto simp: match_token_def match_tag_def plain_char_def)
        then show ?thesis using Cons 1 by simp
      next
        case (2 u)
        then show ?thesis using Cons parse_plain_run [of "38 # u" refs word "\<lambda>_. None" "escape p" st "escape t1 @ r"] by simp
      qed
      have "length t1 < length t" using Cons by simp
      from less [OF this, of "p @ [c]" st] show ?thesis unfolding pass using Cons by simp
    qed
  qed
qed

section \<open>Markup\<close>

definition digits_only :: "utext \<Rightarrow> bool" where
  "digits_only s \<longleftrightarrow> s \<noteq> [] \<and> list_all (\<lambda>c. 48 \<le> c \<and> c \<le> 57) s"

text \<open>The entities the dialect carries: a mapped type, and for a custom emoji its decimal id.\<close>

definition emoji_ok :: "message_entity \<Rightarrow> bool" where
  "emoji_ok e \<longleftrightarrow> (\<forall>i. e_type e = CUSTOM_EMOJI \<and> e_custom_emoji_id e = Some i \<longrightarrow> digits_only i)"

definition tag_of :: "message_entity \<Rightarrow> utext" where
  "tag_of e = the (ENTITY_TAG_MAP (e_type e))"

definition tag_names :: "utext set" where
  "tag_names = {lit ''b'', lit ''i'', lit ''u'', lit ''s'', lit ''tg-spoiler'', lit ''tg-emoji''}"

lemma serializable_type:
  assumes "is_serializable_entity e"
  obtains "e_type e \<in> {BOLD, ITALIC, UNDERLINE, STRIKETHROUGH, SPOILER}" | i where "e_type e = CUSTOM_EMOJI" "e_custom_emoji_id e = Some i"
  using assms by (cases "e_type e") (auto simp: is_serializable_entity_def ENTITY_TAG_MAP_def)

lemma tag_of_names: "is_serializable_entity e \<Longrightarrow> tag_of e \<in> tag_names"
  by (erule serializable_type) (auto simp: tag_of_def ENTITY_TAG_MAP_def tag_names_def)

lemma tag_of_inj: "is_serializable_entity e \<Longrightarrow> is_serializable_entity f \<Longrightarrow> tag_of e = tag_of f \<Longrightarrow> e_type e = e_type f"
  by (erule serializable_type; erule serializable_type) (auto simp: tag_of_def ENTITY_TAG_MAP_def)

lemma no_attrs: "s \<noteq> [] \<Longrightarrow> \<not> space (hd s) \<Longrightarrow> match_attrs s = ([], s)"
  by (subst match_attrs.simps) (auto split: option.splits)

lemma space_gt [simp]: "\<not> space 62" and tag_char_gt [simp]: "\<not> tag_char 62"
  by (simp_all add: space_def tag_char_def lower_letter_def)

lemma match_simple_tag:
  assumes "tag \<noteq> []" "lower_letter (hd tag)" "list_all tag_char tag"
  shows "match_token word ([60] @ tag @ [62] @ s) = Some (Open_Tag tag [], s)"
    and "match_token word ([60, 47] @ tag @ [62] @ s) = Some (Close_Tag tag, s)"
proof -
  have hd: "hd tag \<noteq> 47" using assms(2) by (auto simp: lower_letter_def)
  have tw: "takeWhile tag_char (tag @ 62 # s) = tag" "dropWhile tag_char (tag @ 62 # s) = 62 # s"
    using assms(3) by (auto simp: list_all_iff takeWhile_append2 dropWhile_append2)
  have "match_attrs (62 # s) = ([], 62 # s)" by (rule no_attrs) simp_all
  then show "match_token word ([60] @ tag @ [62] @ s) = Some (Open_Tag tag [], s)"
    "match_token word ([60, 47] @ tag @ [62] @ s) = Some (Close_Tag tag, s)"
    using assms(1,2) hd tw by (simp_all add: match_token_def match_tag_def Let_def)
qed

lemma tag_names_ok: "tag \<in> tag_names \<Longrightarrow> tag \<noteq> [] \<and> lower_letter (hd tag) \<and> list_all tag_char tag"
  by (auto simp: tag_names_def lower_letter_def tag_char_def)

lemma digits_only_escape: "digits_only i \<Longrightarrow> escape i = i"
  unfolding digits_only_def by (elim conjE, thin_tac "i \<noteq> []", induction i) (auto simp: escape_char_def)

lemma match_emoji_pair:
  "34 \<notin> set i \<Longrightarrow> match_pair (lit ''emoji-id='' @ 34 # i @ 34 # r) = Some ((lit ''emoji-id'', i), r)"
proof -
  assume "34 \<notin> set i"
  then have "takeWhile (\<lambda>c. c \<noteq> 34) (i @ 34 # r) = i" "dropWhile (\<lambda>c. c \<noteq> 34) (i @ 34 # r) = 34 # r"
    by (auto simp: takeWhile_append dropWhile_append)
  then show ?thesis
    by (simp add: match_pair_def Let_def attr_char_def tag_char_def lower_letter_def space_def)
qed

lemma take_front: "x = a @ b \<Longrightarrow> take (length x - length b) x = a"
  by simp

lemma match_emoji_attrs:
  assumes "34 \<notin> set i"
  shows "match_attrs (32 # lit ''emoji-id='' @ 34 # i @ 34 # 62 # s) = (32 # lit ''emoji-id='' @ 34 # i @ [34], 62 # s)"
proof -
  let ?a = "lit ''emoji-id='' @ 34 # i @ 34 # 62 # s"
  have sp: "dropWhile space (32 # ?a) = ?a" by (simp add: space_def)
  have "match_attrs (62 # s) = ([], 62 # s)" by (rule no_attrs) simp_all
  moreover have "take (length (32 # ?a) - length (62 # s)) (32 # ?a) = 32 # lit ''emoji-id='' @ 34 # i @ [34]"
    by (rule take_front) simp
  ultimately show ?thesis
    using match_emoji_pair [OF assms, of "62 # s"]
    by (subst match_attrs.simps) (simp only: sp option.case prod.case, simp add: space_def)
qed

lemma emoji_attributes:
  assumes "34 \<notin> set i"
  shows "parse_tag_attributes (32 # lit ''emoji-id='' @ 34 # i @ [34]) = [(lit ''emoji-id'', i)]"
proof -
  have "match_pair (32 # lit ''emoji-id='' @ 34 # i @ [34]) = None"
    by (simp add: match_pair_def attr_char_def tag_char_def lower_letter_def)
  moreover have "find_pairs (lit ''emoji-id='' @ 34 # i @ [34]) = [(lit ''emoji-id'', i)]"
    using match_emoji_pair [OF assms, of "[]"] by simp
  ultimately have "find_pairs (32 # lit ''emoji-id='' @ 34 # i @ [34]) = [(lit ''emoji-id'', i)]" by simp
  then show ?thesis by (simp add: parse_tag_attributes_def lower_text_def)
qed

end
