(* ===== verification/Tags_Roundtrip.thy ===== *)
theory Tags_Roundtrip
  imports Tags_Props
begin

text \<open>
  Serializing a message and reading it again: the parts the serializer writes, what the parser does at each of
  them, and the invariant the two share.
\<close>

section \<open>Reading the parts\<close>

definition carried_emoji :: "message_entity \<Rightarrow> utext option" where
  "carried_emoji e = (if e_type e = CUSTOM_EMOJI then e_custom_emoji_id e else None)"

definition opened_of :: "message_entity \<Rightarrow> open_tag" where
  "opened_of e = opened (e_offset e) (Some (e_type e)) None (carried_emoji e) None"

definition writable :: "message_entity \<Rightarrow> bool" where
  "writable e \<longleftrightarrow> is_serializable_entity e \<and> emoji_ok e"

lemma style_tag:
  assumes "e_type e \<in> {BOLD, ITALIC, UNDERLINE, STRIKETHROUGH, SPOILER}"
  shows "tag_of e \<notin> {lit ''a'', lit ''span'', lit ''tg-emoji''} \<and> map_of STYLE_MAP (tag_of e) = Some (e_type e)"
proof -
  consider "e_type e = BOLD" | "e_type e = ITALIC" | "e_type e = UNDERLINE" | "e_type e = STRIKETHROUGH" | "e_type e = SPOILER"
    using assms by blast
  then show ?thesis by cases (simp_all add: tag_of_def ENTITY_TAG_MAP_def STYLE_MAP_def)
qed

lemma resolve_style:
  "tag \<notin> {lit ''a'', lit ''span'', lit ''tg-emoji''} \<and> map_of STYLE_MAP tag = Some ty \<Longrightarrow>
    resolve_open_tag tag attrs off = opened off (Some ty) None None None"
  by (simp add: resolve_open_tag_def)

lemma match_opening:
  assumes "writable e"
  shows "\<exists>attrs. match_token word (open_tag_markup e @ s) = Some (Open_Tag (tag_of e) attrs, s) \<and>
    (\<forall>off. resolve_open_tag (tag_of e) attrs off = opened off (Some (e_type e)) None (carried_emoji e) None)"
proof -
  have e: "is_serializable_entity e" "emoji_ok e" using assms by (auto simp: writable_def)
  from e(1) show ?thesis
  proof (cases rule: serializable_type)
    case 1
    have "match_token word (open_tag_markup e @ s) = Some (Open_Tag (tag_of e) [], s)"
      using 1 match_simple_tag(1) [of "tag_of e" word s] tag_names_ok [OF tag_of_names [OF e(1)]]
      by (auto simp: open_tag_markup_def tag_of_def)
    moreover have "resolve_open_tag (tag_of e) [] off = opened off (Some (e_type e)) None (carried_emoji e) None" for off
      using resolve_style [OF style_tag [OF 1]] 1 by (auto simp: carried_emoji_def)
    ultimately show ?thesis by blast
  next
    case (2 i)
    have i: "digits_only i" using e(2) 2 by (simp add: emoji_ok_def)
    have q: "34 \<notin> set i" using i by (auto simp: digits_only_def list_all_iff)
    let ?attrs = "32 # lit ''emoji-id='' @ 34 # i @ [34]"
    have tag: "tag_of e = lit ''tg-emoji''" using 2 by (simp add: tag_of_def ENTITY_TAG_MAP_def)
    have "open_tag_markup e @ s = 60 # lit ''tg-emoji'' @ (32 # lit ''emoji-id='' @ 34 # i @ 34 # 62 # s)"
      using 2 i by (simp add: open_tag_markup_def digits_only_escape)
    moreover have "match_tag (60 # lit ''tg-emoji'' @ (32 # lit ''emoji-id='' @ 34 # i @ 34 # 62 # s)) = Some (Open_Tag (lit ''tg-emoji'') ?attrs, s)"
      using match_emoji_attrs [OF q, of s] by (simp add: match_tag_def Let_def tag_char_def lower_letter_def)
    ultimately have "match_token word (open_tag_markup e @ s) = Some (Open_Tag (tag_of e) ?attrs, s)"
      by (simp only: tag match_token_def option.case)
    moreover have "resolve_open_tag (tag_of e) ?attrs off = opened off (Some (e_type e)) None (carried_emoji e) None" for off
    proof -
      have "i \<noteq> []" using i by (simp add: digits_only_def)
      then show ?thesis using 2 unfolding tag resolve_open_tag_def emoji_attributes [OF q] by (simp add: carried_emoji_def)
    qed
    ultimately show ?thesis by blast
  qed
qed

fun part_step :: "parse_state \<Rightarrow> part \<Rightarrow> parse_state" where
  "part_step st (Literal s) = flush s st"
| "part_step st (Opening e) = st\<lparr>p_active := AList.update (tag_of e) (opened (p_offset st) (Some (e_type e)) None (carried_emoji e) None) (p_active st)\<rparr>"
| "part_step st (Closing tag) = close_tag tag st"

fun mark_ok :: "part \<Rightarrow> bool" where
  "mark_ok (Literal s) \<longleftrightarrow> False"
| "mark_ok (Opening e) \<longleftrightarrow> writable e"
| "mark_ok (Closing tag) \<longleftrightarrow> tag \<in> tag_names"

text \<open>Literal text before every mark.\<close>

fun marks_separated :: "part list \<Rightarrow> bool" where
  "marks_separated [] \<longleftrightarrow> True"
| "marks_separated (Literal t # m # ps) \<longleftrightarrow> mark_ok m \<and> marks_separated ps"
| "marks_separated _ \<longleftrightarrow> False"

lemma marks_separated_append [intro]:
  "marks_separated ps \<Longrightarrow> mark_ok m \<Longrightarrow> marks_separated (ps @ [Literal t, m])"
  by (induction ps rule: marks_separated.induct) auto

lemma match_mark:
  assumes "mark_ok m"
  shows "\<exists>tok. match_token word (part_markup m @ s) = Some (tok, s) \<and> (\<forall>st. take_token subs tok st = part_step st m) \<and>
    part_markup m \<noteq> [] \<and> hd (part_markup m) = 60"
proof (cases m)
  case (Opening e)
  then obtain attrs where a: "match_token word (open_tag_markup e @ s) = Some (Open_Tag (tag_of e) attrs, s)"
    "\<forall>off. resolve_open_tag (tag_of e) attrs off = opened off (Some (e_type e)) None (carried_emoji e) None"
    using match_opening [of e word s] assms by auto
  have "take_token subs (Open_Tag (tag_of e) attrs) st = part_step st m" for st
    using a(2) Opening by (simp add: track_open_tag_def Let_def opened_def)
  moreover have "open_tag_markup e \<noteq> [] \<and> hd (open_tag_markup e) = 60" by (simp add: open_tag_markup_def)
  ultimately show ?thesis using a(1) Opening by auto
next
  case (Closing tag)
  then have "match_token word (part_markup m @ s) = Some (Close_Tag tag, s)"
    using match_simple_tag(2) [of tag word s] tag_names_ok [of tag] assms by simp
  then show ?thesis using Closing by auto
qed (use assms in simp)

lemma parse_parts:
  assumes "word_ok word" "refs_ok refs" "marks_separated ps"
  shows "parse_from refs word (\<lambda>_. None) (escape p) st (concat (map part_markup (ps @ [Literal t]))) =
    foldl part_step (flush p st) (ps @ [Literal t])"
  using assms(3)
proof (induction ps arbitrary: p st rule: marks_separated.induct)
  case 1
  obtain p' st' where "parse_from refs word (\<lambda>_. None) (escape p) st (escape t @ []) = parse_from refs word (\<lambda>_. None) (escape p') st' []"
    "flush p' st' = flush (p @ t) st" using parse_literal [OF assms(1,2), of "[]" p st t] by auto
  then show ?case by (simp add: unescape_escape [OF assms(2)])
next
  case (2 t1 m ps)
  let ?rest = "concat (map part_markup (ps @ [Literal t]))"
  from 2 match_mark obtain tok where tok: "match_token word (part_markup m @ ?rest) = Some (tok, ?rest)"
    "\<forall>st. take_token (\<lambda>_. None) tok st = part_step st m" "part_markup m \<noteq> []" "hd (part_markup m) = 60" by fastforce
  obtain x xs where m: "part_markup m = x # xs" using tok(3) by (cases "part_markup m") auto
  obtain p' st' where p': "parse_from refs word (\<lambda>_. None) (escape p) st (escape t1 @ part_markup m @ ?rest) =
      parse_from refs word (\<lambda>_. None) (escape p') st' (part_markup m @ ?rest)"
    "flush p' st' = flush (p @ t1) st" using parse_literal [OF assms(1,2), of "part_markup m @ ?rest" p st t1] tok(3,4) by auto
  have "parse_from refs word (\<lambda>_. None) (escape p') st' (part_markup m @ ?rest) =
      parse_from refs word (\<lambda>_. None) (escape []) (part_step (flush (p @ t1) st) m) ?rest"
    using tok(1,2) p'(2) by (simp add: m unescape_escape [OF assms(2)])
  then show ?case using p'(1) 2 by (simp del: escape_simps(1))
qed auto

end
