(* ===== verification/Tags_Capture.thy ===== *)
theory Tags_Capture
  imports Tags_Roundtrip
begin

text \<open>What a captured message keeps: its text always, and its formatting where the dialect can carry it.\<close>

section \<open>Slices\<close>

definition e_end :: "message_entity \<Rightarrow> nat" where
  "e_end e = e_offset e + e_length e"

text \<open>A position between two characters of the text.\<close>

definition boundary :: "utext \<Rightarrow> nat \<Rightarrow> bool" where
  "boundary s k \<longleftrightarrow> (\<exists>a b. s = a @ b \<and> utf16_len a = k)"

lemma spans_boundary: "spans s e b \<Longrightarrow> boundary s (e_offset e) \<and> boundary s (e_end e)"
proof -
  assume "spans s e b"
  then obtain a c where "s = a @ b @ c" "e_offset e = utf16_len a" "e_length e = utf16_len b" by (auto simp: spans_def)
  then have "s = a @ (b @ c) \<and> utf16_len a = e_offset e" "s = (a @ b) @ c \<and> utf16_len (a @ b) = e_end e"
    by (simp_all add: e_end_def)
  then show ?thesis unfolding boundary_def by blast
qed

lemma boundary_end [simp]: "boundary s (utf16_len s)"
  unfolding boundary_def by (intro exI [of _ s] exI [of _ "[]"]) simp

lemma boundary_le: "boundary s k \<Longrightarrow> k \<le> utf16_len s"
  by (auto simp: boundary_def)

lemma slice_between:
  assumes "valid_text s" "s = u @ v" "boundary s k" "utf16_len u \<le> k"
  obtains t v' where "slice (encode s) (utf16_len u) k = Some t" "s = (u @ t) @ v'" "utf16_len (u @ t) = k"
proof -
  obtain a b where ab: "s = a @ b" "utf16_len a = k" using assms(3) by (auto simp: boundary_def)
  have "u @ v = a @ b" using assms(2) ab(1) by simp
  from append_eq_cases [OF this [symmetric]] assms(4) ab(2) obtain t where t: "a = u @ t"
    by (metis append.right_neutral append_eq_append_conv2 le_antisym utf16_len_simps(3) utf16_len_zero le_add1 add_cancel_right_right)
  have "take (k - utf16_len u) (drop (utf16_len u) (encode s)) = encode t"
    using ab t by (simp add: utf16_len_def)
  moreover have "valid_text t" using assms(1) ab t by simp
  ultimately show ?thesis using that [of t b] ab t by (simp add: slice_def)
qed

section \<open>The invariant of the serializer\<close>

fun literals :: "part list \<Rightarrow> utext" where
  "literals [] = []"
| "literals (Literal s # ps) = s @ literals ps"
| "literals (_ # ps) = literals ps"

lemma literals_append [simp]: "literals (ps @ qs) = literals ps @ literals qs"
  by (induction ps rule: literals.induct) simp_all

definition carried :: "message_entity \<Rightarrow> message_entity" where
  "carried e = (plain_entity (e_type e) (e_offset e) (e_length e))\<lparr>e_custom_emoji_id := carried_emoji e\<rparr>"

text \<open>
  \<open>open_now\<close> are the spans opened and not closed, innermost first, and \<open>closed\<close> those closed so far, in that order.
  With no two open spans of one type the parser, having read the parts, holds exactly these.
\<close>

definition placed :: "utext \<Rightarrow> message_entity \<Rightarrow> bool" where
  "placed s e \<longleftrightarrow> writable e \<and> boundary s (e_offset e) \<and> boundary s (e_end e)"

definition written :: "utext \<Rightarrow> part list \<Rightarrow> span_stack \<Rightarrow> nat \<Rightarrow> message_entity list \<Rightarrow> bool" where
  "written s parts stack cursor open_now \<longleftrightarrow>
     marks_separated parts \<and> (\<exists>v. s = literals parts @ v) \<and> cursor = utf16_len (literals parts) \<and>
     stack = map (\<lambda>e. (e_end e, tag_of e)) open_now \<and> sorted (map e_end open_now) \<and>
     (\<forall>e \<in> set open_now. placed s e \<and> e_offset e \<le> cursor \<and> cursor \<le> e_end e)"

definition read_back :: "part list \<Rightarrow> nat \<Rightarrow> message_entity list \<Rightarrow> message_entity list \<Rightarrow> bool" where
  "read_back parts cursor open_now closed \<longleftrightarrow>
     (let st = foldl part_step start_parse parts in
      p_entities st = map carried closed \<and> p_offset st = cursor \<and> p_anomalies st = [] \<and>
      map_of (p_active st) = map_of (map (\<lambda>e. (tag_of e, opened_of e)) open_now) \<and> distinct (map tag_of open_now) \<and>
      (\<forall>e \<in> set open_now. 0 < e_length e))"

lemma written_close:
  assumes "valid_text s" "written s parts ((stop, tag) # stack) cursor (e # open_now)"
  obtains t where "slice (encode s) cursor stop = Some t" "written s (parts @ [Literal t, Closing tag]) stack stop open_now"
    "stop = cursor + utf16_len t"
proof -
  obtain v where v: "s = literals parts @ v" and c: "cursor = utf16_len (literals parts)" and stop: "stop = e_end e" "tag = tag_of e"
    and e: "placed s e" "cursor \<le> e_end e"
    using assms(2) by (auto simp: written_def)
  have "boundary s stop" "utf16_len (literals parts) \<le> stop" using e c stop by (auto simp: placed_def)
  from slice_between [OF assms(1) v this] obtain t v' where t: "slice (encode s) cursor stop = Some t"
    "s = (literals parts @ t) @ v'" "utf16_len (literals parts @ t) = stop" unfolding c by metis
  have "mark_ok (Closing tag)" using e(1) stop(2) by (auto simp: placed_def writable_def intro: tag_of_names)
  then have "written s (parts @ [Literal t, Closing tag]) stack stop open_now"
    using assms(2) t stop unfolding written_def by (auto intro: le_trans)
  moreover have "stop = cursor + utf16_len t" using t(3) c by simp
  ultimately show ?thesis using that [OF t(1)] by blast
qed

lemma written_open:
  assumes "valid_text s" "written s parts stack cursor open_now" "placed s e" "cursor \<le> e_offset e"
    "\<forall>f \<in> set open_now. e_offset e \<le> e_end f" "open_now = [] \<or> e_end e \<le> e_end (hd open_now)"
  obtains t where "slice (encode s) cursor (e_offset e) = Some t"
    "written s (parts @ [Literal t, Opening e]) ((e_end e, tag_of e) # stack) (e_offset e) (e # open_now)"
    "e_offset e = cursor + utf16_len t"
proof -
  obtain v where v: "s = literals parts @ v" and c: "cursor = utf16_len (literals parts)"
    using assms(2) by (auto simp: written_def)
  have "boundary s (e_offset e)" "utf16_len (literals parts) \<le> e_offset e" using assms(3,4) c by (auto simp: placed_def)
  from slice_between [OF assms(1) v this] obtain t v' where t: "slice (encode s) cursor (e_offset e) = Some t"
    "s = (literals parts @ t) @ v'" "utf16_len (literals parts @ t) = e_offset e" unfolding c by metis
  have "mark_ok (Opening e)" using assms(3) by (simp add: placed_def)
  moreover have "\<forall>f \<in> set open_now. e_end e \<le> e_end f"
    using assms(2,6) unfolding written_def by (cases open_now) (auto intro: le_trans)
  moreover have "e_offset e \<le> e_end e" by (simp add: e_end_def)
  ultimately have "written s (parts @ [Literal t, Opening e]) ((e_end e, tag_of e) # stack) (e_offset e) (e # open_now)"
    using assms(2-5) t unfolding written_def by (auto intro: le_trans)
  moreover have "e_offset e = cursor + utf16_len t" using t(3) c by simp
  ultimately show ?thesis using that [OF t(1)] by blast
qed

lemma read_back_close:
  assumes "read_back parts cursor (e # open_now) closed" "cursor + utf16_len t = e_end e"
  shows "read_back (parts @ [Literal t, Closing (tag_of e)]) (e_end e) open_now (closed @ [e])"
proof -
  let ?st = "foldl part_step start_parse parts"
  have m: "map_of (p_active ?st) = (map_of (map (\<lambda>e. (tag_of e, opened_of e)) open_now))(tag_of e \<mapsto> opened_of e)"
    and d: "tag_of e \<notin> tag_of ` set open_now" "distinct (map tag_of open_now)" and len: "0 < e_length e"
    and rest: "p_entities ?st = map carried closed" "p_offset ?st = cursor" "p_anomalies ?st = []" "\<forall>e \<in> set open_now. 0 < e_length e"
    using assms(1) by (auto simp: read_back_def Let_def)
  have n: "map_of (map (\<lambda>e. (tag_of e, opened_of e)) open_now) (tag_of e) = None"
    using d(1) by (simp add: map_of_eq_None_iff image_image)
  have "map_of (AList.delete (tag_of e) (p_active ?st)) = map_of (map (\<lambda>e. (tag_of e, opened_of e)) open_now)"
    using m n by (auto simp: delete_conv' fun_eq_iff)
  moreover have "cursor + utf16_len t - e_offset e = e_length e" "\<not> cursor + utf16_len t \<le> e_offset e"
    using assms(2) len by (simp_all add: e_end_def)
  ultimately show ?thesis
    using m d rest assms(2)
    by (simp add: read_back_def Let_def close_tag_def opened_of_def opened_def carried_def plain_entity_def)
qed

lemma read_back_open:
  assumes "read_back parts cursor open_now closed" "cursor + utf16_len t = e_offset e" "tag_of e \<notin> tag_of ` set open_now" "0 < e_length e"
  shows "read_back (parts @ [Literal t, Opening e]) (e_offset e) (e # open_now) closed"
  using assms by (auto simp: read_back_def Let_def update_conv' opened_of_def)

section \<open>The loops\<close>

abbreviation stack_of :: "message_entity list \<Rightarrow> span_stack" where
  "stack_of \<equiv> map (\<lambda>e. (e_end e, tag_of e))"

lemma close_loop:
  assumes "valid_text s" "written s parts (stack_of open_now) cursor open_now" "ap \<longrightarrow> read_back parts cursor open_now closed" "cursor \<le> off"
  shows "\<exists>parts1 shut open1 cursor1.
    close_spans_ending_by (encode s) off parts (stack_of open_now) cursor = Some (parts1, stack_of open1, cursor1) \<and>
    written s parts1 (stack_of open1) cursor1 open1 \<and> (ap \<longrightarrow> read_back parts1 cursor1 open1 (closed @ shut)) \<and>
    open_now = shut @ open1 \<and> cursor1 \<le> off \<and> (\<forall>e \<in> set open1. off < e_end e)"
  using assms(2-)
proof (induction open_now arbitrary: parts cursor closed)
  case Nil
  then show ?case by (intro exI [of _ parts] exI [of _ "[]"] exI [of _ cursor]) simp
next
  case (Cons e open_now)
  show ?case
  proof (cases "e_end e \<le> off")
    case True
    obtain t where t: "slice (encode s) cursor (e_end e) = Some t" "e_end e = cursor + utf16_len t"
      "written s (parts @ [Literal t, Closing (tag_of e)]) (stack_of open_now) (e_end e) open_now"
      using written_close [OF assms(1), of parts "e_end e" "tag_of e" "stack_of open_now" cursor e open_now] Cons.prems(1) by auto
    have "ap \<longrightarrow> read_back (parts @ [Literal t, Closing (tag_of e)]) (e_end e) open_now (closed @ [e])"
      using Cons.prems(2) read_back_close [OF _ t(2) [symmetric]] by blast
    from Cons.IH [OF t(3) this True] obtain parts1 shut open1 cursor1 where
      "close_spans_ending_by (encode s) off (parts @ [Literal t, Closing (tag_of e)]) (stack_of open_now) (e_end e) = Some (parts1, stack_of open1, cursor1)"
      "written s parts1 (stack_of open1) cursor1 open1" "ap \<longrightarrow> read_back parts1 cursor1 open1 (closed @ e # shut)"
      "open_now = shut @ open1" "cursor1 \<le> off" "\<forall>e \<in> set open1. off < e_end e" by auto
    then show ?thesis using True t(1)
      by (intro exI [of _ parts1] exI [of _ "e # shut"] exI [of _ open1] exI [of _ cursor1]) simp
  next
    case False
    then have "\<forall>f \<in> set (e # open_now). off < e_end f" using Cons.prems(1) by (auto simp: written_def)
    then show ?thesis using False Cons.prems
      by (intro exI [of _ parts] exI [of _ "[]"] exI [of _ "e # open_now"] exI [of _ cursor]) simp
  qed
qed

definition overlap :: "message_entity \<Rightarrow> message_entity \<Rightarrow> bool" where
  "overlap e f \<longleftrightarrow> e_offset e < e_end f \<and> e_offset f < e_end e"

text \<open>Telegram sends no two entities of one type over the same character, and none that is empty.\<close>

definition told_apart :: "message_entity list \<Rightarrow> bool" where
  "told_apart es \<longleftrightarrow> sorted_wrt (\<lambda>e f. overlap e f \<longrightarrow> e_type e \<noteq> e_type f) es \<and> (\<forall>e \<in> set es. 0 < e_length e)"

definition crosses :: "message_entity \<Rightarrow> message_entity \<Rightarrow> bool" where
  "crosses f e \<longleftrightarrow> e_offset f < e_offset e \<and> e_offset e < e_end f \<and> e_end f < e_end e"

definition not_after :: "message_entity \<Rightarrow> message_entity \<Rightarrow> bool" where
  "not_after e f \<longleftrightarrow> e_offset e < e_offset f \<or> e_offset e = e_offset f \<and> e_length f \<le> e_length e"

lemma told_apart_parts: "told_apart (es @ fs) \<Longrightarrow> told_apart fs"
  "told_apart ((es @ fs) @ e # gs) \<Longrightarrow> told_apart (fs @ gs) \<and> told_apart (e # fs @ gs)"
  by (auto simp: told_apart_def sorted_wrt_append overlap_def)

lemma new_tag:
  assumes "told_apart (e # open_now @ es)" "placed s e" "written s parts stack cursor open_now" "cursor \<le> e_offset e"
    "\<forall>f \<in> set open_now. e_offset e < e_end f"
  shows "tag_of e \<notin> tag_of ` set open_now"
proof
  assume "tag_of e \<in> tag_of ` set open_now"
  then obtain f where f: "f \<in> set open_now" "tag_of e = tag_of f" by auto
  then have "placed s f" "e_offset f \<le> cursor" using assms(3) by (auto simp: written_def)
  then have "e_type e = e_type f" using f(2) assms(2) by (auto simp: placed_def writable_def intro: tag_of_inj)
  moreover have "0 < e_length e" using assms(1) by (simp add: told_apart_def)
  then have "overlap e f" using \<open>e_offset f \<le> cursor\<close> f(1) assms(4,5) by (auto simp: overlap_def e_end_def)
  ultimately show False using assms(1) f(1) by (auto simp: told_apart_def)
qed

lemma serialize_loop:
  assumes "valid_text s" "written s parts (stack_of open_now) cursor open_now" "ap \<longrightarrow> read_back parts cursor open_now closed"
    "ap \<longrightarrow> told_apart (open_now @ es)" "\<forall>e \<in> set es. placed s e \<and> cursor \<le> e_offset e" "sorted_wrt not_after es"
    "\<forall>f \<in> set open_now. \<forall>e \<in> set es. not_after f e" "cursor \<le> utf16_len s"
  shows "\<exists>parts1 open1 closed1 cursor1 lost. serialize_each (encode s) es parts (stack_of open_now) cursor = Some (parts1, stack_of open1, cursor1, lost) \<and>
    written s parts1 (stack_of open1) cursor1 open1 \<and> (ap \<longrightarrow> read_back parts1 cursor1 open1 closed1) \<and> cursor1 \<le> utf16_len s \<and>
    mset closed1 + mset open1 + mset lost = mset closed + mset open_now + mset es \<and>
    (\<forall>e \<in> set lost. \<exists>f \<in> set open_now \<union> set es. crosses f e)"
  using assms(2-)
proof (induction es arbitrary: parts open_now closed cursor)
  case Nil
  then show ?case
    by - (rule exI [where x = parts], rule exI [where x = open_now], rule exI [where x = closed], simp)
next
  case (Cons e es)
  have e: "placed s e" "cursor \<le> e_offset e" using Cons.prems(4) by auto
  obtain parts1 shut open1 cursor1 where c: "close_spans_ending_by (encode s) (e_offset e) parts (stack_of open_now) cursor = Some (parts1, stack_of open1, cursor1)"
    "written s parts1 (stack_of open1) cursor1 open1" "ap \<longrightarrow> read_back parts1 cursor1 open1 (closed @ shut)"
    "open_now = shut @ open1" "cursor1 \<le> e_offset e" "\<forall>f \<in> set open1. e_offset e < e_end f"
    using close_loop [OF assms(1) Cons.prems(1,2) e(2)] by blast
  have later: "\<forall>f \<in> set es. e_offset e \<le> e_offset f" using Cons.prems(5) by (auto simp: not_after_def)
  have c1: "\<forall>f \<in> set es. placed s f \<and> cursor1 \<le> e_offset f" using Cons.prems(4) later c(5) by (auto intro: le_trans)
  have sort1: "sorted_wrt not_after es" using Cons.prems(5) by simp
  have apart1: "\<forall>f \<in> set open1. \<forall>g \<in> set es. not_after f g" using Cons.prems(6) c(4) by simp
  have ap: "ap \<longrightarrow> told_apart (open1 @ es)" "ap \<longrightarrow> told_apart (e # open1 @ es)"
    using Cons.prems(3) told_apart_parts(2) [of shut open1 e es] unfolding c(4) by blast+
  have ends: "e_offset e \<le> utf16_len s" using e(1) by (simp add: placed_def boundary_le)
  show ?case
  proof (cases "open1 \<noteq> [] \<and> e_end (hd open1) < e_end e")
    case True
    then have f: "hd open1 \<in> set open_now" using c(4) by (simp add: hd_in_set)
    have "crosses (hd open1) e"
      using True f Cons.prems(6) c(4,6) by (cases open1) (auto simp: crosses_def not_after_def e_end_def)
    obtain parts2 open2 closed2 cursor2 lost where r: "serialize_each (encode s) es parts1 (stack_of open1) cursor1 = Some (parts2, stack_of open2, cursor2, lost)"
      "written s parts2 (stack_of open2) cursor2 open2" "ap \<longrightarrow> read_back parts2 cursor2 open2 closed2" "cursor2 \<le> utf16_len s"
      "mset closed2 + mset open2 + mset lost = mset (closed @ shut) + mset open1 + mset es" "\<forall>e \<in> set lost. \<exists>f \<in> set open1 \<union> set es. crosses f e"
      using Cons.IH [OF c(2,3) ap(1) c1 sort1 apart1 le_trans [OF c(5) ends]] by blast
    have "serialize_each (encode s) (e # es) parts (stack_of open_now) cursor = Some (parts2, stack_of open2, cursor2, e # lost)"
      using c(1) r(1) True by (cases open1) (simp_all add: e_end_def)
    then show ?thesis using r c(4) f \<open>crosses (hd open1) e\<close>
      by (intro exI [of _ parts2] exI [of _ open2] exI [of _ closed2] exI [of _ cursor2] exI [of _ "e # lost"]) auto
  next
    case False
    then have fits: "open1 = [] \<or> e_end e \<le> e_end (hd open1)" and reach: "\<forall>f \<in> set open1. e_offset e \<le> e_end f"
      using c(6) by auto
    obtain t where t: "slice (encode s) cursor1 (e_offset e) = Some t" "e_offset e = cursor1 + utf16_len t"
      "written s (parts1 @ [Literal t, Opening e]) (stack_of (e # open1)) (e_offset e) (e # open1)"
      by (rule written_open [OF assms(1) c(2) e(1) c(5) reach fits]) simp
    have "ap \<longrightarrow> read_back (parts1 @ [Literal t, Opening e]) (e_offset e) (e # open1) (closed @ shut)"
    proof
      assume "ap"
      then have "tag_of e \<notin> tag_of ` set open1" using ap(2) new_tag [OF _ e(1) c(2,5,6)] by blast
      then show "read_back (parts1 @ [Literal t, Opening e]) (e_offset e) (e # open1) (closed @ shut)"
        using \<open>ap\<close> c(3) ap(2) read_back_open [OF _ t(2) [symmetric]] by (simp add: told_apart_def)
    qed
    moreover have "ap \<longrightarrow> told_apart ((e # open1) @ es)" using ap(2) by simp
    moreover have "\<forall>f \<in> set es. placed s f \<and> e_offset e \<le> e_offset f" using c1 later by blast
    moreover have "\<forall>f \<in> set (e # open1). \<forall>g \<in> set es. not_after f g" using apart1 Cons.prems(5) by simp
    ultimately obtain parts2 open2 closed2 cursor2 lost where r: "serialize_each (encode s) es (parts1 @ [Literal t, Opening e]) (stack_of (e # open1)) (e_offset e) = Some (parts2, stack_of open2, cursor2, lost)"
      "written s parts2 (stack_of open2) cursor2 open2" "ap \<longrightarrow> read_back parts2 cursor2 open2 closed2" "cursor2 \<le> utf16_len s"
      "mset closed2 + mset open2 + mset lost = mset (closed @ shut) + mset (e # open1) + mset es" "\<forall>f \<in> set lost. \<exists>g \<in> set (e # open1) \<union> set es. crosses g f"
      using Cons.IH [OF t(3) _ _ _ sort1 _ ends] by blast
    have "serialize_each (encode s) (e # es) parts (stack_of open_now) cursor = Some (parts2, stack_of open2, cursor2, lost)"
      using c(1) r(1) t(1) False by (cases open1) (simp_all add: e_end_def tag_of_def)
    then show ?thesis using r c(4)
      by (intro exI [of _ parts2] exI [of _ open2] exI [of _ closed2] exI [of _ cursor2] exI [of _ lost]) auto
  qed
qed

end
