(* ===== verification/Tags_Theorems.thy ===== *)
theory Tags_Theorems
  imports Tags_Capture
begin

text \<open>The serializer as a whole, and the two readings of what it wrote.\<close>

section \<open>The order of the spans\<close>

lemma sorted_wrt_insort:
  "sorted (map f ys) \<Longrightarrow> sorted_wrt P ys \<Longrightarrow> \<forall>y \<in> set ys. if f x \<le> f y then P x y else P y x \<Longrightarrow>
    sorted_wrt P (insort_key f x ys)"
proof (induction ys)
  case (Cons y ys)
  show ?case
  proof (cases "f x \<le> f y")
    case True
    then have "\<forall>z \<in> set ys. f x \<le> f z" using Cons.prems(1) by auto
    then show ?thesis using Cons.prems True by auto
  next
    case False
    then show ?thesis using Cons by (auto simp: set_insort_key)
  qed
qed simp

lemma sorted_wrt_sort:
  assumes "\<And>x y. P x y \<Longrightarrow> if f x \<le> f y then Q x y else Q y x"
  shows "sorted_wrt P xs \<Longrightarrow> sorted_wrt Q (sort_key f xs)"
  by (induction xs) (auto intro!: sorted_wrt_insort assms simp: sort_key_def [symmetric])

lemma ordered: "sorted_wrt not_after (serialization_order es)"
  unfolding serialization_order_def
proof (rule sorted_wrt_sort [where P = "\<lambda>e f. e_length f \<le> e_length e"])
  have "sorted (map (\<lambda>e. - int (e_length e)) (sort_key (\<lambda>e. - int (e_length e)) (filter is_serializable_entity es)))"
    by (rule sorted_sort_key)
  then show "sorted_wrt (\<lambda>e f. e_length f \<le> e_length e) (sort_key (\<lambda>e. - int (e_length e)) (filter is_serializable_entity es))"
    by (simp add: sorted_map)
qed (auto simp: not_after_def)

lemma set_order [simp]: "set (serialization_order es) = {e \<in> set es. is_serializable_entity e}"
  and mset_order [simp]: "mset (serialization_order es) = mset (filter is_serializable_entity es)"
  by (auto simp: serialization_order_def)

lemma told_apart_order: "told_apart (filter is_serializable_entity es) \<Longrightarrow> told_apart (serialization_order es)"
  unfolding told_apart_def
proof (elim conjE, rule conjI)
  let ?P = "\<lambda>e f. overlap e f \<longrightarrow> e_type e \<noteq> e_type f"
  assume "sorted_wrt ?P (filter is_serializable_entity es)"
  then show "sorted_wrt ?P (serialization_order es)"
    unfolding serialization_order_def by (auto simp: overlap_def intro!: sorted_wrt_sort [where P = ?P])
qed simp

section \<open>The whole message\<close>

text \<open>The entities lie on whole characters, and the id of a custom emoji is the decimal number Telegram assigns.\<close>

definition sendable :: "utext \<Rightarrow> message_entity list \<Rightarrow> bool" where
  "sendable s es \<longleftrightarrow> (\<forall>e \<in> set es. emoji_ok e \<and> (\<exists>b. spans s e b))"

lemma serialize_parts_ok:
  assumes "valid_text s" "sendable s es" "ap \<longrightarrow> told_apart (filter is_serializable_entity es)"
  shows "\<exists>parts t lost kept. serialize_parts s es = Some (parts @ [Literal t], lost) \<and> marks_separated parts \<and> literals parts @ t = s \<and>
    (ap \<longrightarrow> read_back parts (utf16_len (literals parts)) [] kept) \<and> mset kept + mset lost = mset (filter is_serializable_entity es) \<and>
    (\<forall>e \<in> set lost. \<exists>f \<in> set es. is_serializable_entity f \<and> crosses f e)"
proof -
  let ?es = "serialization_order es"
  have "written s [] (stack_of []) 0 []" by (simp add: written_def)
  moreover have "ap \<longrightarrow> read_back [] 0 [] []" by (simp add: read_back_def start_parse_def)
  moreover have "ap \<longrightarrow> told_apart ([] @ ?es)" using assms(3) told_apart_order by simp
  moreover have "\<forall>e \<in> set ?es. placed s e \<and> 0 \<le> e_offset e"
    using assms(2) spans_boundary by (auto simp: sendable_def placed_def writable_def)
  moreover have "\<forall>f \<in> set []. \<forall>e \<in> set ?es. not_after f e" "0 \<le> utf16_len s" by simp_all
  ultimately obtain parts open1 closed cursor lost where l: "serialize_each (encode s) ?es [] (stack_of []) 0 = Some (parts, stack_of open1, cursor, lost)"
    "written s parts (stack_of open1) cursor open1" "ap \<longrightarrow> read_back parts cursor open1 closed" "cursor \<le> utf16_len s"
    "mset closed + mset open1 + mset lost = mset [] + mset [] + mset ?es" "\<forall>e \<in> set lost. \<exists>f \<in> set [] \<union> set ?es. crosses f e"
    using serialize_loop [OF assms(1) _ _ _ _ ordered, of "[]" "[]" 0 ap "[]" es] by blast
  obtain parts1 shut open2 cursor1 where c: "close_spans_ending_by (encode s) (utf16_len s) parts (stack_of open1) cursor = Some (parts1, stack_of open2, cursor1)"
    "written s parts1 (stack_of open2) cursor1 open2" "ap \<longrightarrow> read_back parts1 cursor1 open2 (closed @ shut)"
    "open1 = shut @ open2" "cursor1 \<le> utf16_len s" "\<forall>e \<in> set open2. utf16_len s < e_end e"
    using close_loop [OF assms(1) l(2,3,4)] by blast
  have "\<forall>e \<in> set open2. e_end e \<le> utf16_len s" using c(2) boundary_le by (auto simp: written_def placed_def)
  with c(6) have none: "open2 = []" by (cases open2) auto
  obtain v where v: "s = literals parts1 @ v" "cursor1 = utf16_len (literals parts1)" using c(2) by (auto simp: written_def)
  obtain t v' where t: "slice (encode s) cursor1 (utf16_len s) = Some t" "s = (literals parts1 @ t) @ v'" "utf16_len (literals parts1 @ t) = utf16_len s"
    using slice_between [OF assms(1) v(1) boundary_end] c(5) unfolding v(2) by blast
  have whole: "literals parts1 @ t = s" using t(3) arg_cong [OF t(2), of utf16_len] t(2) by simp
  have "serialize_parts s es = Some (parts1 @ [Literal t], lost)"
    using l(1) c(1) t(1) by (simp add: serialize_parts_def)
  moreover have "mset (closed @ shut) + mset lost = mset (filter is_serializable_entity es)" using l(5) c(4) none by simp
  moreover have "marks_separated parts1" using c(2) by (simp add: written_def)
  ultimately show ?thesis using whole c(3) none v(2) l(6)
    by (intro exI [of _ parts1] exI [of _ t] exI [of _ lost] exI [of _ "closed @ shut"]) auto
qed

lemma part_steps_plain: "p_plain (foldl part_step st ps) = p_plain st @ literals ps"
proof (induction ps arbitrary: st)
  case (Cons p ps)
  have "p_plain (part_step st p) = p_plain st @ literals [p]"
    by (cases p) (auto simp: close_tag_def report_tag_def Let_def split: option.splits)
  then show ?case using Cons [of "part_step st p"] literals_append [of "[p]" ps] by simp
qed simp

lemma parse_written:
  assumes "word_ok word" "refs_ok refs" "marks_separated parts"
  shows "parse_from refs word (\<lambda>_. None) [] start_parse (concat (map part_markup (parts @ [Literal t]))) =
    flush t (foldl part_step start_parse parts)"
  using parse_parts [OF assms, of "[]" start_parse t] by simp

text \<open>C26. Whatever formatting a message carries, its text survives: serializing never raises, and showing the tagged string
  without its tags gives back the message, including ampersands, angle brackets, things that look like tags,
  and placeholders typed by the user.
\<close>

theorem captured_text_survives:
  assumes "word_ok word" "refs_ok refs" "valid_text s" "sendable s es"
  shows "\<exists>m. capture_tagged_text s es = Some m \<and> strip_format_tags refs word m = s"
proof -
  obtain parts t lost where p: "serialize_parts s es = Some (parts @ [Literal t], lost)" "marks_separated parts" "literals parts @ t = s"
    using serialize_parts_ok [OF assms(3,4), of False] by auto
  let ?m = "concat (map part_markup (parts @ [Literal t]))"
  have "strip_format_tags refs word ?m = p_plain (parse_from refs word (\<lambda>_. None) [] start_parse ?m)"
    by (simp add: strip_format_tags_def parse_plain start_parse_def del: map_append)
  also have "\<dots> = p_plain start_parse @ s"
    using p(3) by (simp add: parse_written [OF assms(1,2) p(2)] part_steps_plain del: map_append)
  also have "\<dots> = s" by (simp add: start_parse_def)
  finally show ?thesis using p(1) by (simp add: capture_tagged_text_def serialize_entities_def)
qed

lemma mset_insert_entity [simp]: "mset (insert_entity e es) = add_mset e (mset es)"
  by (induction es) auto

lemma mset_sort_entities [simp]: "mset (sort_entities es) = mset es"
proof -
  have "mset (foldl (\<lambda>l e. insert_entity e l) acc es) = mset acc + mset es" for acc
    by (induction es arbitrary: acc) auto
  then show ?thesis by (simp add: sort_entities_def)
qed

text \<open>C25. The formatting survives too, or its loss is reported: parsing the stored string gives back the text and, but for
  the order, exactly the entities of the message that were kept, each with its type, span and emoji, and logs
  no warning. Every other entity is among the reported ones: its type has no tag, or it crosses
  the end of another one. Assumed is that no two entities of one type overlap (\<open>told_apart\<close>), as in Telegram's messages.
\<close>

theorem captured_formatting_survives:
  assumes "word_ok word" "refs_ok refs" "valid_text s" "sendable s es" "told_apart (filter is_serializable_entity es)"
  shows "\<exists>m fs kept lost. serialize_entities s es = Some (m,
      map (\<lambda>e. (UNSUPPORTED_ENTITY_TYPE, e_type e)) (filter (\<lambda>e. \<not> is_serializable_entity e) es) @ map (\<lambda>e. (OVERLAPPING_SPAN, e_type e)) lost) \<and>
    parse_stored_tagged_text refs word m = (\<lparr>ft_text = s, ft_entities = fs\<rparr>, []) \<and> mset fs = mset (map carried kept) \<and>
    mset kept + mset lost = mset (filter is_serializable_entity es) \<and> (\<forall>e \<in> set lost. \<exists>f \<in> set es. is_serializable_entity f \<and> crosses f e)"
proof -
  obtain parts t lost kept where p: "serialize_parts s es = Some (parts @ [Literal t], lost)" "marks_separated parts" "literals parts @ t = s"
    "read_back parts (utf16_len (literals parts)) [] kept" "mset kept + mset lost = mset (filter is_serializable_entity es)"
    "\<forall>e \<in> set lost. \<exists>f \<in> set es. is_serializable_entity f \<and> crosses f e"
    using serialize_parts_ok [OF assms(3,4), of True] assms(5) by auto
  let ?m = "concat (map part_markup (parts @ [Literal t]))" and ?st = "foldl part_step start_parse parts"
  have st: "p_entities ?st = map carried kept" "p_anomalies ?st = []" "p_active ?st = []" "p_plain ?st = literals parts"
    using p(4) by (auto simp: read_back_def Let_def part_steps_plain start_parse_def)
  have "parse_format_tags refs word ?m (\<lambda>_. None) = (\<lparr>ft_text = s, ft_entities = sort_entities (map carried kept)\<rparr>, [])"
    by (simp add: parse_format_tags_def Let_def parse_written [OF assms(1,2) p(2)] st p(3) del: map_append)
  then have "parse_stored_tagged_text refs word ?m = (\<lparr>ft_text = s, ft_entities = sort_entities (map carried kept)\<rparr>, [])"
    by (simp add: parse_stored_tagged_text_def anomaly_lines_def)
  then show ?thesis using p(1,5,6)
    by (intro exI [of _ ?m] exI [of _ "sort_entities (map carried kept)"] exI [of _ kept] exI [of _ lost])
      (simp add: serialize_entities_def)
qed

end
