(* ===== verification/Tags_Examples.thy ===== *)
theory Tags_Examples
  imports Tags_Theorems
begin

text \<open>A message with a surrogate pair, nested and crossing entities, and its way through the serializer and back.\<close>

section \<open>Tables\<close>

text \<open>A table of references that knows the five that are written, and ASCII word characters.\<close>

definition strip_ref :: "string \<Rightarrow> nat \<Rightarrow> utext \<Rightarrow> (utext \<times> utext) option" where
  "strip_ref name c s = (if take (length name) s = lit name then Some ([c], drop (length name) s) else None)"

fun first_ref :: "(utext \<times> utext) option list \<Rightarrow> (utext \<times> utext) option" where
  "first_ref [] = None"
| "first_ref (x # xs) = (case x of None \<Rightarrow> first_ref xs | Some y \<Rightarrow> Some y)"

definition five_refs :: ref_table where
  "five_refs s = first_ref [strip_ref ''amp;'' 38 s, strip_ref ''lt;'' 60 s, strip_ref ''gt;'' 62 s, strip_ref ''quot;'' 34 s, strip_ref ''#x27;'' 39 s]"

definition ascii_word :: "nat \<Rightarrow> bool" where
  "ascii_word c \<longleftrightarrow> 48 \<le> c \<and> c \<le> 57 \<or> 65 \<le> c \<and> c \<le> 90 \<or> 97 \<le> c \<and> c \<le> 122 \<or> c = 95"

lemma refs_ok_five: "refs_ok five_refs"
  by (simp add: refs_ok_def five_refs_def strip_ref_def)

lemma word_ok_ascii: "word_ok ascii_word"
  by (simp add: word_ok_def ascii_word_def)

section \<open>A message\<close>

definition grin :: nat where
  "grin = 0x1F600"

definition sample_text :: utext where
  "sample_text = lit ''a&b'' @ [grin] @ lit ''<i>${x}''"

definition sample_entities :: "message_entity list" where
  "sample_entities =
     [plain_entity BOLD 0 3, plain_entity ITALIC 1 2, (plain_entity CUSTOM_EMOJI 3 2)\<lparr>e_custom_emoji_id := Some (lit ''42'')\<rparr>,
      plain_entity UNDERLINE 2 3, plain_entity CODE 0 1]"

lemma spans_at: "s = a @ b @ c \<Longrightarrow> e_offset e = utf16_len a \<Longrightarrow> e_length e = utf16_len b \<Longrightarrow> \<exists>b. spans s e b"
  unfolding spans_def by blast

lemma sample_valid: "valid_text sample_text"
  by (simp add: sample_text_def valid_point_def grin_def)

lemma sample_sendable: "sendable sample_text sample_entities"
proof -
  let ?e = "(plain_entity CUSTOM_EMOJI 3 2)\<lparr>e_custom_emoji_id := Some (lit ''42'')\<rparr>"
  have "\<exists>b. spans sample_text (plain_entity BOLD 0 3) b"
    by (rule spans_at [where a = "[]" and b = "lit ''a&b''"]) (simp_all add: sample_text_def plain_entity_def units_def)
  moreover have "\<exists>b. spans sample_text (plain_entity ITALIC 1 2) b"
    by (rule spans_at [where a = "lit ''a''" and b = "lit ''&b''"]) (simp_all add: sample_text_def plain_entity_def units_def)
  moreover have "\<exists>b. spans sample_text ?e b"
    by (rule spans_at [where a = "lit ''a&b''" and b = "[grin]"]) (simp_all add: sample_text_def plain_entity_def units_def grin_def)
  moreover have "\<exists>b. spans sample_text (plain_entity UNDERLINE 2 3) b"
    by (rule spans_at [where a = "lit ''a&''" and b = "lit ''b'' @ [grin]"]) (simp_all add: sample_text_def plain_entity_def units_def grin_def)
  moreover have "\<exists>b. spans sample_text (plain_entity CODE 0 1) b"
    by (rule spans_at [where a = "[]" and b = "lit ''a''"]) (simp_all add: sample_text_def plain_entity_def units_def)
  ultimately show ?thesis
    by (simp add: sendable_def sample_entities_def) (simp add: emoji_ok_def plain_entity_def digits_only_def)
qed

lemma sample_told_apart: "told_apart (filter is_serializable_entity sample_entities)"
  by (simp add: sample_entities_def is_serializable_entity_def plain_entity_def ENTITY_TAG_MAP_def told_apart_def overlap_def e_end_def)

lemma sample_encoded: "encode sample_text = [97, 38, 98, 0xD83D, 0xDE00, 60, 105, 62, 36, 123, 120, 125]"
  by (simp add: sample_text_def units_def grin_def)

lemma sample_length: "utf16_len sample_text = 12"
  by (simp add: utf16_len_def sample_encoded)

lemma sample_order:
  "serialization_order sample_entities =
    [plain_entity BOLD 0 3, plain_entity ITALIC 1 2, plain_entity UNDERLINE 2 3,
     (plain_entity CUSTOM_EMOJI 3 2)\<lparr>e_custom_emoji_id := Some (lit ''42'')\<rparr>]"
  by (simp add: serialization_order_def sample_entities_def is_serializable_entity_def plain_entity_def ENTITY_TAG_MAP_def)

text \<open>The underline crosses the end of the bold span and is lost; the code span has no tag.\<close>

lemma sample_markup:
  "serialize_entities sample_text sample_entities =
    Some (lit ''<b>a<i>&amp;b</i></b><tg-emoji emoji-id='' @ [34] @ lit ''42'' @ [34] @ lit ''>'' @ [grin] @ lit ''</tg-emoji>&lt;i&gt;${x}'',
      [(UNSUPPORTED_ENTITY_TYPE, CODE), (OVERLAPPING_SPAN, UNDERLINE)])"
  unfolding serialize_entities_def serialize_parts_def sample_order sample_encoded sample_length
  by (simp add: slice_def plain_entity_def ENTITY_TAG_MAP_def sample_entities_def is_serializable_entity_def
      open_tag_markup_def escape_char_def high_surrogate_def low_surrogate_def grin_def)

section \<open>Witnesses\<close>

theorem captured_text_survives_witness:
  "word_ok ascii_word \<and> refs_ok five_refs \<and> valid_text sample_text \<and> sendable sample_text sample_entities \<and>
    (\<exists>m. capture_tagged_text sample_text sample_entities = Some m \<and> strip_format_tags five_refs ascii_word m = sample_text)"
  using captured_text_survives [OF word_ok_ascii refs_ok_five sample_valid sample_sendable]
    word_ok_ascii refs_ok_five sample_valid sample_sendable by blast

theorem captured_formatting_survives_witness:
  "word_ok ascii_word \<and> refs_ok five_refs \<and> valid_text sample_text \<and> sendable sample_text sample_entities \<and>
    told_apart (filter is_serializable_entity sample_entities) \<and>
    (\<exists>m fs lost. serialize_entities sample_text sample_entities = Some (m, lost) \<and>
      parse_stored_tagged_text five_refs ascii_word m = (\<lparr>ft_text = sample_text, ft_entities = fs\<rparr>, []))"
  using captured_formatting_survives [OF word_ok_ascii refs_ok_five sample_valid sample_sendable sample_told_apart]
    word_ok_ascii refs_ok_five sample_valid sample_sendable sample_told_apart by blast

definition sample :: formatted_text where
  "sample = \<lparr>ft_text = sample_text, ft_entities = sample_entities\<rparr>"

lemma sample_ok: "ft_ok sample"
  using sample_sendable by (simp add: ft_ok_def sample_def sendable_def)

text \<open>The second operand starts at unit 12, behind a pair of surrogates.\<close>

theorem composed_texts_stay_valid_witness:
  "ft_ok sample \<and> ft_ok (append_text sample sample) \<and> ft_ok (prepend sample sample) \<and> ft_ok (wrap_text sample BOLD) \<and>
    ft_ok (join_texts (lit '', '') [sample, sample]) \<and> ft_ok (render_template [Part_Text [grin], Part_Value (V_Formatted sample)]) \<and>
    map e_offset (ft_entities (append_text sample sample)) = [0, 1, 3, 2, 0, 12, 13, 15, 14, 12]"
proof -
  have "list_all ft_ok [sample, sample]" "list_all part_ok [Part_Text [grin], Part_Value (V_Formatted sample)]"
    using sample_ok by simp_all
  moreover have "map e_offset (ft_entities (append_text sample sample)) = [0, 1, 3, 2, 0, 12, 13, 15, 14, 12]"
    by (simp add: append_text_def sample_def sample_length sample_entities_def plain_entity_def shift_entity_def)
  ultimately show ?thesis
    using composed_texts_stay_valid [OF sample_ok sample_ok, of BOLD "[sample, sample]" "lit '', ''"
      "[Part_Text [grin], Part_Value (V_Formatted sample)]"] sample_ok by blast
qed

text \<open>Unit 4 is inside the surrogate pair: the cut falls before it, and the emoji entity goes with it.\<close>

theorem cut_texts_stay_valid_witness:
  "valid_text (ft_text sample) \<and> ft_ok sample \<and>
    (\<exists>r. truncate_text sample 4 = Some r \<and> ft_text r = lit ''a&b'' \<and> cut_of sample (ft_text r) (ft_entities r)) \<and>
    (\<exists>r. ellipsize sample 4 = Some r \<and> ft_ok r)"
proof -
  have v: "valid_text (ft_text sample)" using sample_valid by (simp add: sample_def)
  have "map_option ft_text (truncate_text sample 4) = Some (lit ''a&b'')"
    by (simp add: truncate_text_def utf16_cut_def sample_def sample_length sample_encoded high_surrogate_def low_surrogate_def)
  then show ?thesis using cut_texts_stay_valid [OF v sample_ok, of 4] v sample_ok by auto
qed

end
