(* ===== verification/Spec2Isabelle.thy ===== *)
theory Spec2Isabelle
  imports Broadcast_Examples Meetup_Examples Membership_Examples Broadcast_Audience Life_Examples Roster_Examples
    Life_Others Callback_Examples Schedule_Examples Card_Queue_Examples Write_Examples Tags_Examples
begin

text \<open>
  A verification development for the Mitup Telegram bot: the state it keeps about meetings, participants,
  supporters and broadcasts, the operations the bot and its recurrent jobs perform on that state, and the
  properties that make them correct.

  \<^bold>\<open>The program.\<close> The bot (\<^verbatim>\<open>apps/bot\<close>) answers Telegram updates; the recurrent-events runner
  (\<^verbatim>\<open>apps/events\<close>) sweeps the database: it ends and deletes old meetings, reconciles Patreon supporters and sends
  broadcasts. Both share the models of \<^verbatim>\<open>libs/data\<close>, the policy of \<^verbatim>\<open>libs/core\<close> and the Patreon code of
  \<^verbatim>\<open>libs/patreon\<close>. They run concurrently against one Postgres database.

  \<^bold>\<open>The theories\<close> and the code they model (paths under \<^verbatim>\<open>src/\<close>):
  \<^item> \<^verbatim>\<open>Prelude\<close>: instants, tables as lists of rows with the SQL statements on them, results, Python sequences;
    \<^verbatim>\<open>Transition\<close>: runs of a step relation and the contracts of stateful components as locales (an invariant,
    a preorder of progress, a measure that bounds runs, a compare-and-swap with one winner).
  \<^item> \<^verbatim>\<open>Supporter\<close>: \<^verbatim>\<open>libs/core/mitup_bot/supporter.py\<close> and the capacity checks of \<^verbatim>\<open>limits.py\<close>; levels are a
    \<open>linorder\<close>. \<^verbatim>\<open>Lifecycle\<close>: \<^verbatim>\<open>lifecycle.py\<close> and the SQL windows of \<^verbatim>\<open>apps/events/.../lifecycle_queries.py\<close>.
  \<^item> \<^verbatim>\<open>Users\<close>, \<^verbatim>\<open>Meetups\<close>: the models of \<^verbatim>\<open>libs/data/mitup_bot/models\<close> with their methods: status stamps,
    capacity, the waiting list and its promotion, attendance, deletion stamps, the short description.
  \<^item> \<^verbatim>\<open>Broadcast_Claim\<close>, \<^verbatim>\<open>Broadcast_Deliver\<close>, \<^verbatim>\<open>Broadcast_Run\<close>: the packages of
    \<^verbatim>\<open>apps/events/mitup_bot/events/broadcast\<close> (claiming.py, delivery.py and recording.py, finalize.py, reporting.py
    and runner.py). \<^verbatim>\<open>Broadcast_Props\<close> (termination of the drain loop), \<^verbatim>\<open>Broadcast_Audience\<close>, \<^verbatim>\<open>Broadcast_Finalize\<close>,
    \<^verbatim>\<open>Broadcast_Total\<close> (a whole tick returns) and \<^verbatim>\<open>Broadcast_Reports\<close> hold the sequential properties;
    \<^verbatim>\<open>Broadcast_Protocol\<close> and \<^verbatim>\<open>Broadcast_Safety\<close> interleave any number of workers, one transaction or one batch of
    sends per step; \<^verbatim>\<open>Broadcast_Race\<close> shows what the row guards do not exclude, a late snapshot after a purge.
  \<^item> \<^verbatim>\<open>Pending_Links\<close>: pairing codes (\<^verbatim>\<open>libs/patreon/mitup_bot/patreon/pending_links.py\<close>). \<^verbatim>\<open>Membership\<close>: the daily
    check (\<^verbatim>\<open>supporter_check.py\<close>) and the webhook (\<^verbatim>\<open>apps/bot/mitup_bot/web/patreon.py\<close>). \<^verbatim>\<open>Linking\<close>: links, grants
    and unlinks of the bot. \<^verbatim>\<open>Membership_Run\<close> shows that a run treats every subscription by itself,
    \<^verbatim>\<open>Membership_Props\<close> and \<^verbatim>\<open>Membership_Floor\<close> what follows for an account and for all its writers.
  \<^item> \<^verbatim>\<open>Tables\<close>: the tables the jobs share, with the cascades of their foreign keys and \<^verbatim>\<open>libs/data/.../deletion.py\<close>.
    \<^verbatim>\<open>Guards\<close>: who acts and on which meeting (\<^verbatim>\<open>libs/telegram/mitup_bot/guards.py\<close>). \<^verbatim>\<open>Owner_Deletes\<close>: the handlers
    that delete meetings for their owner. \<^verbatim>\<open>Roster\<close>: the handlers that join, leave, invite, kick out and change the
    limit (\<^verbatim>\<open>join_leave.py\<close>, \<^verbatim>\<open>invite_users.py\<close>, \<^verbatim>\<open>edit_meeting_participants.py\<close>,
    \<^verbatim>\<open>edit_meeting_kickout_participants.py\<close>); \<^verbatim>\<open>Roster_Props\<close> interleaves them over all meetings.
  \<^item> \<^verbatim>\<open>Regexes\<close>, \<^verbatim>\<open>Callback\<close>, \<^verbatim>\<open>Callback_Table\<close>: the callback data codec (\<^verbatim>\<open>libs/core/.../callback_data.py\<close>) with
    its patterns, its validation, and every declaration of \<^verbatim>\<open>libs/telegram/.../utils/callbacks.py\<close>;
    \<^verbatim>\<open>Callback_Props\<close> shows that what is rendered parses back, has the declared type and fits into a button.
  \<^item> \<^verbatim>\<open>Zones\<close>: wall clocks of a zone with clock changes (\<^verbatim>\<open>datetimes.py\<close>, the dates of \<^verbatim>\<open>limits.py\<close>).
    \<^verbatim>\<open>Schedule\<close>: what a start and an end may be (\<^verbatim>\<open>handlers/meeting/edit/when/rules.py\<close>) and the creation of a
    meeting (\<^verbatim>\<open>create_meeting.py\<close>). \<^verbatim>\<open>Conversations\<close>: what the bot remembers of a person and which conversation is
    live (\<^verbatim>\<open>custom_context.py\<close>, \<^verbatim>\<open>registry.py\<close>). \<^verbatim>\<open>When\<close>: the handlers of the two datetime cards
    (\<^verbatim>\<open>when/start.py\<close>, \<^verbatim>\<open>end.py\<close>, \<^verbatim>\<open>menu.py\<close>). \<^verbatim>\<open>When_Props\<close> follows the tables and \<^verbatim>\<open>When_Memory\<close> the memory under
    any sequence of them.
  \<^item> \<^verbatim>\<open>Card_Queue\<close>: the background queue of \<^verbatim>\<open>libs/telegram/mitup_bot/card_refresh.py\<close>. \<^verbatim>\<open>Card_Queue_Props\<close>:
    what merging keeps (the locale of dicts of jobs); \<^verbatim>\<open>Card_Queue_Run\<close>: the worker interleaved with commits and
    submits, with ghost versions of the cards; \<^verbatim>\<open>Card_Queue_Stop\<close>: which job is taken and what a stop leaves.
    \<^verbatim>\<open>Outbox\<close>: the queued Telegram calls and their drain (\<^verbatim>\<open>api_wrapper.py\<close>). \<^verbatim>\<open>Write_Lifecycle\<close>: the capture, the
    fan-out of a meeting, \<open>begin_write\<close> (\<^verbatim>\<open>libs/data/.../db.py\<close>), the reconcile (\<^verbatim>\<open>reconcile.py\<close>) and the job the
    worker runs. \<^verbatim>\<open>Outbox_Props\<close>: how often a call reaches Telegram; \<^verbatim>\<open>Drain_Trace\<close>: the trace of a drain, from which
    its report is counted; \<^verbatim>\<open>Write_Props\<close> and \<^verbatim>\<open>Write_Fanout\<close>: what a section runs and changes and on which evidence,
    and which cards a fan-out reaches, through the outbox or the queue.
  \<^item> \<^verbatim>\<open>Entities\<close>: formatted texts with UTF-16 offsets, their composition, cutting and templates
    (\<^verbatim>\<open>libs/telegram/.../utils/entities.py\<close>); \<^verbatim>\<open>Entities_Props\<close>: entities stay on whole characters. \<^verbatim>\<open>Tags\<close>: the
    dialect of stored texts, its tokenizer (\<^verbatim>\<open>libs/core/.../format_tags.py\<close>), parser and serializer.
    \<^verbatim>\<open>Tags_Props\<close>, \<^verbatim>\<open>Tags_Roundtrip\<close>, \<^verbatim>\<open>Tags_Capture\<close> and \<^verbatim>\<open>Tags_Theorems\<close>: reading what is written part by part, the
    invariant of the serializer, and what a captured message keeps.
  \<^item> The recurrent jobs of \<^verbatim>\<open>apps/events/mitup_bot/events\<close>: \<^verbatim>\<open>Deletion_Sweep\<close> (deletion_sweep.py,
    warn_meeting_deletions.py, delete_meetings.py), \<^verbatim>\<open>Deactivation\<close> (inactive_meetings.py and the handler
    reactivate_meeting.py), \<^verbatim>\<open>User_Cleanup\<close> (user_cleanup.py), \<^verbatim>\<open>Notifications\<close> (notify_meetings.py,
    notify_meetings_started.py). \<^verbatim>\<open>Deletion_Props\<close> says what one chunk does; \<^verbatim>\<open>Meeting_Life\<close> interleaves all of them
    with the owners' handlers, one transaction per step, any other transaction being constrained only in the columns
    the jobs decide on (\<^verbatim>\<open>Life_Others\<close> shows that the handlers of rosters, schedules and new meetings are such
    transactions); \<^verbatim>\<open>Meeting_Props\<close> and \<^verbatim>\<open>Sweep_Props\<close> state what follows.
  \<^item> \<^verbatim>\<open>Broadcast_Examples\<close>, \<^verbatim>\<open>Meetup_Examples\<close>, \<^verbatim>\<open>Membership_Examples\<close>, \<^verbatim>\<open>Life_Examples\<close>,
    \<^verbatim>\<open>Roster_Examples\<close>, \<^verbatim>\<open>Callback_Examples\<close>, \<^verbatim>\<open>Schedule_Examples\<close>, \<^verbatim>\<open>Card_Queue_Examples\<close>,
    \<^verbatim>\<open>Write_Examples\<close>, \<^verbatim>\<open>Tags_Examples\<close>: concrete states at which the
    properties' hypotheses hold.

  \<^bold>\<open>How the model reads.\<close> A database table is a list of rows, a transaction a function on the tables; a function
  that raises returns \<open>Inl\<close> of the exception. Clocks, locks held by others, Telegram's answers, Patreon's member list
  and random codes are arguments (\<open>world\<close>, \<open>check_world\<close>, \<open>hosts\<close>), so a theorem holds whatever they are. The drain
  loop of a broadcast, a \<open>while True\<close>, is a \<open>partial_function (option)\<close>; \<open>send_all_pending_terminates\<close> and
  \<open>run_guarantees\<close> show that it returns, \<open>drain_passes_bounded\<close> after how many passes. The shutdown drain of the
  background queue is another; the retries of a queued call count down from three. Telegram is a function from the
  number of a request to its answer, and every request is recorded with its answer.

  \<^bold>\<open>Not modelled.\<close> The texts and the layout of messages and views, the Telegram client and its rate limiter, the registration of handlers, translations,
  the HTTP server and OAuth pages, metric serialisation, migrations, deployment lambdas and developer tools: they are
  text, I/O or glue around the modelled operations. Log lines are left out of the effects. Instants are UTC
  microseconds; a zone is its table of clock changes, and which table a name stands for is an argument. Dates do not
  end in the year 9999 as Python's do.
\<close>

end
